(* ===== verification/Prelude.thy ===== *)
theory Prelude
  imports Main "HOL-Library.Word" "HOL-Library.List_Lexorder"
begin

unbundle bit_operations_syntax

text \<open>
  Shared vocabulary of the development: the machine integers of the Rust sources as words, byte
  strings as lists of octets, big-endian conversion (\<^verbatim>\<open>to_be_bytes\<close>, \<^verbatim>\<open>from_be_bytes\<close> and the
  \<^verbatim>\<open>get_u32\<close> / \<^verbatim>\<open>get_u64\<close> readers), saturating arithmetic, and the generic lemmas the component
  theories share.

  A Rust \<^verbatim>\<open>Result<T, E>\<close> is a value of the sum type \<open>'e + 'a\<close>, \<open>Inl\<close> the error.  A fixed-size
  array \<^verbatim>\<open>[u8; N]\<close> is a byte list; that it has length \<open>N\<close>, which the Rust type guarantees, is
  part of the well-formedness predicates of the components.  An \<^verbatim>\<open>Instant\<close> and a \<^verbatim>\<open>Duration\<close> are
  natural numbers of nanoseconds, and an operation that reads the clock takes the reading as an
  argument; \<^verbatim>\<open>duration_since\<close> saturates at zero, as subtraction on the naturals does.
\<close>

section \<open>Machine integers and byte strings\<close>

type_synonym u8 = "8 word"
type_synonym u16 = "16 word"
type_synonym u32 = "32 word"
type_synonym u64 = "64 word"
type_synonym u128 = "128 word"
type_synonym bytes = "u8 list"
type_synonym instant = nat
type_synonym duration = nat

abbreviation secs :: "nat \<Rightarrow> duration" where
  "secs n \<equiv> n * 1000000000"

abbreviation millis :: "nat \<Rightarrow> duration" where
  "millis n \<equiv> n * 1000000"

named_theorems wire_defs \<open>definitions of encoders and decoders\<close>
named_theorems wire_len \<open>lengths of encoded values\<close>

section \<open>Results\<close>

fun is_ok :: "'e + 'a \<Rightarrow> bool" where
  "is_ok (Inr _) = True"
| "is_ok (Inl _) = False"

fun and_then :: "'e + 'a \<Rightarrow> ('a \<Rightarrow> 'e + 'b) \<Rightarrow> 'e + 'b" where
  "and_then (Inl e) f = Inl e"
| "and_then (Inr a) f = f a"

lemma and_then_Inr [simp]: "and_then r f = Inr b \<longleftrightarrow> (\<exists>a. r = Inr a \<and> f a = Inr b)"
  by (cases r) auto

lemma is_ok_iff: "is_ok r \<longleftrightarrow> (\<exists>a. r = Inr a)"
  by (cases r) auto

fun map_err :: "('e \<Rightarrow> 'f) \<Rightarrow> 'e + 'a \<Rightarrow> 'f + 'a" where
  "map_err f (Inl e) = Inl (f e)"
| "map_err f (Inr a) = Inr a"

lemma map_err_Inr [simp]: "map_err f r = Inr a \<longleftrightarrow> r = Inr a"
  by (cases r) auto

lemma map_err_Inl [simp]: "map_err f r = Inl e \<longleftrightarrow> (\<exists>e'. r = Inl e' \<and> e = f e')"
  by (cases r) auto

lemma and_then_Inl: "and_then r f = Inl e \<longleftrightarrow> r = Inl e \<or> (\<exists>a. r = Inr a \<and> f a = Inl e)"
  by (cases r) auto

text \<open>A loop that checks each element and returns the first error, and one that collects the values.\<close>

fun check_all :: "('a \<Rightarrow> 'e + unit) \<Rightarrow> 'a list \<Rightarrow> 'e + unit" where
  "check_all f [] = Inr ()"
| "check_all f (x # xs) = and_then (f x) (\<lambda>_. check_all f xs)"

fun collect_all :: "('a \<Rightarrow> 'e + 'b) \<Rightarrow> 'a list \<Rightarrow> 'e + 'b list" where
  "collect_all f [] = Inr []"
| "collect_all f (x # xs) = and_then (f x) (\<lambda>y. and_then (collect_all f xs) (\<lambda>ys. Inr (y # ys)))"

lemma check_all_Inr [simp]: "check_all f xs = Inr u \<longleftrightarrow> (\<forall>x \<in> set xs. f x = Inr ())"
  by (induction xs) auto

lemma collect_all_Inr: "collect_all f xs = Inr ys \<longleftrightarrow> map f xs = map Inr ys"
  by (induction xs arbitrary: ys) auto

lemma collect_all_total: "(\<And>x. x \<in> set xs \<Longrightarrow> \<exists>y. f x = Inr y) \<Longrightarrow> \<exists>ys. collect_all f xs = Inr ys"
  by (induction xs) fastforce+

definition require :: "bool \<Rightarrow> 'e \<Rightarrow> 'e + unit" where
  "require b e = (if b then Inr () else Inl e)"

lemma require_Inr [simp]: "require b e = Inr u \<longleftrightarrow> b"
  by (simp add: require_def)

definition ok_or :: "'a option \<Rightarrow> 'e \<Rightarrow> 'e + 'a" where
  "ok_or x e = (case x of Some a \<Rightarrow> Inr a | None \<Rightarrow> Inl e)"

lemma ok_or_Inr [simp]: "ok_or x e = Inr a \<longleftrightarrow> x = Some a"
  by (simp add: ok_or_def split: option.splits)

section \<open>Big-endian encoding\<close>

text \<open>\<open>to_be n w\<close> are the low \<open>n\<close> octets of \<open>w\<close>, most significant first; \<open>from_be\<close> reads such a
  string back.\<close>

primrec to_be :: "nat \<Rightarrow> 'a::len word \<Rightarrow> bytes" where
  "to_be 0 w = []"
| "to_be (Suc n) w = to_be n (drop_bit 8 w) @ [ucast w]"

definition from_be :: "bytes \<Rightarrow> 'a::len word" where
  "from_be bs = foldl (\<lambda>acc b. push_bit 8 acc OR ucast b) 0 bs"

lemma length_to_be [simp, wire_len]: "length (to_be n w) = n"
  by (induction n arbitrary: w) auto

lemma from_be_Nil [simp]: "from_be [] = 0"
  by (simp add: from_be_def)

lemma from_be_snoc [simp]: "from_be (bs @ [b]) = push_bit 8 (from_be bs) OR ucast b"
  by (simp add: from_be_def)

lemma from_be_to_be: "from_be (to_be n (w :: 'a::len word)) = take_bit (8 * n) w"
proof (induction n arbitrary: w)
  case 0
  then show ?case by simp
next
  case (Suc n)
  have "push_bit 8 (take_bit (8 * n) (drop_bit 8 w)) OR ucast (ucast w :: u8) = take_bit (8 * Suc n) w"
    by (rule bit_word_eqI) (auto simp: bit_simps)
  with Suc show ?case by simp
qed

lemma from_be_to_be_full [simp]:
  "LENGTH('a) = 8 * n \<Longrightarrow> from_be (to_be n (w :: 'a::len word)) = w"
  by (simp add: from_be_to_be take_bit_word_eq_self)

lemma to_be_eq_iff [simp]:
  "LENGTH('a) = 8 * n \<Longrightarrow> to_be n x = to_be n (y :: 'a::len word) \<longleftrightarrow> x = y"
  by (auto dest: arg_cong [of _ _ "from_be :: bytes \<Rightarrow> 'a word"])

lemma to_be_from_be:
  "LENGTH('a) = 8 * length bs \<Longrightarrow> to_be (length bs) (from_be bs :: 'a::len word) = bs"
proof -
  have gen: "8 * length bs \<le> LENGTH('a) \<Longrightarrow> to_be (length bs) (from_be bs :: 'a word) = bs" for bs
  proof (induction bs rule: rev_induct)
    case Nil
    then show ?case by simp
  next
    case (snoc b bs)
    have bnd: "\<not> bit (from_be bs :: 'a word) k" if "8 * length bs \<le> k" for k
      using that
    proof (induction bs arbitrary: k rule: rev_induct)
      case Nil
      then show ?case by simp
    next
      case (snoc c cs)
      from snoc.prems have "8 * length cs \<le> k - 8" and "8 \<le> k" by simp_all
      with snoc.IH [of "k - 8"] show ?case
        by (auto simp: bit_simps dest: bit_imp_le_length)
    qed
    have 1: "drop_bit 8 (push_bit 8 (from_be bs) OR ucast b :: 'a word) = from_be bs"
    proof (rule bit_word_eqI)
      fix n assume "n < LENGTH('a)"
      show "bit (drop_bit 8 (push_bit 8 (from_be bs) OR ucast b :: 'a word)) n
          \<longleftrightarrow> bit (from_be bs :: 'a word) n"
      proof (cases "8 * length bs \<le> n")
        case True
        then show ?thesis using bnd [OF True] by (auto simp: bit_simps dest: bit_imp_le_length)
      next
        case False
        with snoc.prems show ?thesis by (auto simp: bit_simps dest: bit_imp_le_length)
      qed
    qed
    have 2: "(ucast (push_bit 8 (from_be bs) OR ucast b :: 'a word) :: u8) = b"
      using snoc.prems by (intro bit_word_eqI) (auto simp: bit_simps dest: bit_imp_le_length)
    have "to_be (length (bs @ [b])) (from_be (bs @ [b]) :: 'a word) = to_be (length bs) (from_be bs :: 'a word) @ [b]"
      by (simp only: length_append_singleton to_be.simps from_be_snoc 1 2)
    with snoc show ?case by simp
  qed
  assume "LENGTH('a) = 8 * length bs"
  then show ?thesis by (intro gen) simp
qed

lemma from_be_inj:
  assumes "from_be xs = (from_be ys :: 'a::len word)"
    and "LENGTH('a) = 8 * length xs" and "length xs = length ys"
  shows "xs = ys"
proof -
  have "xs = to_be (length xs) (from_be xs :: 'a word)"
    using assms(2) by (rule to_be_from_be [symmetric])
  also have "\<dots> = to_be (length ys) (from_be ys :: 'a word)"
    by (simp only: assms(1,3))
  also have "\<dots> = ys"
    using assms(2,3) by (intro to_be_from_be) simp
  finally show ?thesis .
qed

section \<open>Saturating arithmetic\<close>

definition u64_max :: nat where
  "u64_max = 2 ^ 64 - 1"

text \<open>\<^verbatim>\<open>u64::saturating_add\<close> and \<^verbatim>\<open>saturating_sub\<close> on the natural-number readings of counters.\<close>

definition sat_add :: "nat \<Rightarrow> nat \<Rightarrow> nat" where
  "sat_add a b = min (a + b) u64_max"

definition sat_mul :: "nat \<Rightarrow> nat \<Rightarrow> nat" where
  "sat_mul a b = min (a * b) u64_max"

lemma sat_add_le [simp]: "sat_add a b \<le> u64_max"
  by (simp add: sat_add_def)

lemma sat_add_mono: "a \<le> u64_max \<Longrightarrow> a \<le> sat_add a b"
  by (simp add: sat_add_def)

lemma sat_add_exact: "a + b \<le> u64_max \<Longrightarrow> sat_add a b = a + b"
  by (simp add: sat_add_def)

section \<open>Lists, maps and slices\<close>

text \<open>\<open>slice i j xs\<close> is the Rust slice \<^verbatim>\<open>xs[i..j]\<close> where it is in range.\<close>

definition slice :: "nat \<Rightarrow> nat \<Rightarrow> 'a list \<Rightarrow> 'a list" where
  "slice i j xs = take (j - i) (drop i xs)"

lemma length_slice: "j \<le> length xs \<Longrightarrow> length (slice i j xs) = j - i"
  by (simp add: slice_def)

lemma slice_drop [simp]: "i \<le> j \<Longrightarrow> slice i j xs @ drop j xs = drop i xs"
  using append_take_drop_id [of "j - i" "drop i xs"] by (simp add: slice_def)

lemma drop_1_2: "2 \<le> length xs \<Longrightarrow> xs ! 0 # xs ! 1 # drop 2 xs = xs"
  by (cases xs; cases "tl xs") auto

text \<open>A byte string cut into consecutive fields of given lengths, the shape every decoder reads.\<close>

lemma take_drop_append_fields:
  "length a = n \<Longrightarrow> take n (a @ b) = a" "length a = n \<Longrightarrow> drop n (a @ b) = b"
  by auto

lemma append_eq_by_length:
  "length a = length c \<Longrightarrow> a @ b = c @ d \<longleftrightarrow> a = c \<and> b = d"
  by simp

lemma find_SomeD: "List.find P xs = Some x \<Longrightarrow> x \<in> set xs \<and> P x"
  by (induction xs) (auto split: if_splits)

lemma find_None_iff_all: "List.find P xs = None \<longleftrightarrow> (\<forall>x\<in>set xs. \<not> P x)"
  by (induction xs) auto

text \<open>The element \<open>find\<close> returns is least in any order the list is sorted by.\<close>

lemma find_sorted_least:
  assumes "sorted_wrt R xs" and "List.find P xs = Some x" and "y \<in> set xs" and "P y"
  shows "y = x \<or> R x y"
  using assms by (induction xs) (auto split: if_splits)

lemma map_of_filter_fst:
  "map_of (filter (\<lambda>p. fst p \<noteq> k) xs) = (map_of xs)(k := None)"
  by (induction xs) auto

lemma distinct_map_filter [intro]: "distinct (map f xs) \<Longrightarrow> distinct (map f (filter P xs))"
  by (induction xs) auto

lemma unat_less_2p: "unat (w :: 'a::len word) < 2 ^ LENGTH('a)"
  by (fact unsigned_less)

section \<open>Decimal text\<close>

text \<open>Decimal digits of a natural number, as \<^verbatim>\<open>format!\<close> prints an unsigned integer.\<close>

fun dec :: "nat \<Rightarrow> string" where
  "dec n = (if n < 10 then [char_of (48 + n)] else dec (n div 10) @ [char_of (48 + n mod 10)])"

declare dec.simps [simp del]

text \<open>Reading the digits back gives the number.\<close>

fun undec :: "string \<Rightarrow> nat \<Rightarrow> nat" where
  "undec [] acc = acc"
| "undec (c # s) acc = undec s (10 * acc + (of_char c - 48))"

lemma undec_append: "undec (s @ [c]) acc = 10 * undec s acc + (of_char c - 48)"
  by (induction s acc rule: undec.induct) simp_all

lemma undec_dec: "undec (dec n) 0 = n"
proof (induction n rule: dec.induct)
  case (1 n)
  have digit: "(of_char (char_of (48 + k) :: char) :: nat) - 48 = k" if "k < 10" for k using that by simp
  show ?case
  proof (cases "n < 10")
    case True
    then show ?thesis using digit [of n] by (subst dec.simps) simp
  next
    case False
    then show ?thesis using 1 digit [of "n mod 10"] by (subst dec.simps) (simp add: undec_append)
  qed
qed

lemma dec_inj: "dec a = dec b \<Longrightarrow> a = b"
  using undec_dec by metis

end
