(* ===== verification/Core_Types.thy ===== *)
theory Core_Types
  imports Prelude
begin

text \<open>
  The shared types of \<^verbatim>\<open>crates/rvpn-core/src/lib.rs\<close>: session identifiers, the protocol version
  with its decimal split, and the version-tagged domain strings under which keys are derived.
\<close>

section \<open>Session identifiers\<close>

definition SESSION_ID_LENGTH :: nat where
  "SESSION_ID_LENGTH = 16"

datatype session_id = SessionId (into_bytes: bytes)

definition ZERO :: session_id where
  "ZERO = SessionId (replicate SESSION_ID_LENGTH 0)"

definition wf_session_id :: "session_id \<Rightarrow> bool" where
  "wf_session_id s \<longleftrightarrow> length (into_bytes s) = SESSION_ID_LENGTH"

instantiation session_id :: linorder
begin

definition less_eq_session_id :: "session_id \<Rightarrow> session_id \<Rightarrow> bool" where
  "less_eq_session_id a b \<longleftrightarrow> into_bytes a \<le> into_bytes b"

definition less_session_id :: "session_id \<Rightarrow> session_id \<Rightarrow> bool" where
  "less_session_id a b \<longleftrightarrow> into_bytes a < into_bytes b"

instance
  by standard (auto simp: less_eq_session_id_def less_session_id_def intro: session_id.expand)

end

section \<open>Protocol version\<close>

record protocol_version =
  encoded :: u8
  minor_digits :: u8
  major :: u8
  minor :: u8

primrec scale_loop :: "nat \<Rightarrow> u8 \<Rightarrow> u8" where
  "scale_loop 0 scale = scale"
| "scale_loop (Suc n) scale = scale_loop n (scale * 10)"

definition version_scale :: "u8 \<Rightarrow> u8" where
  "version_scale digits = scale_loop (unat digits) 1"

text \<open>\<^verbatim>\<open>ProtocolVersion::new\<close>; the failed assertion, a panic, is \<open>None\<close>.\<close>

definition version_new :: "u8 \<Rightarrow> u8 \<Rightarrow> protocol_version option" where
  "version_new enc digits =
     (if 0 < digits \<and> digits \<le> 2 then
        (let scale = version_scale digits
         in Some \<lparr>encoded = enc, minor_digits = digits, major = enc div scale, minor = enc mod scale\<rparr>)
      else None)"

definition PROTOCOL_VERSION :: protocol_version where
  "PROTOCOL_VERSION = the (version_new 31 1)"

section \<open>Domain strings\<close>

definition ascii :: "string \<Rightarrow> bytes" where
  "ascii s = map of_char s"

fun dec_digits :: "nat \<Rightarrow> bytes" where
  "dec_digits n = (if n < 10 then [48 + of_nat n] else dec_digits (n div 10) @ [48 + of_nat (n mod 10)])"

declare dec_digits.simps [simp del]

definition pad_zero :: "nat \<Rightarrow> bytes \<Rightarrow> bytes" where
  "pad_zero width ds = replicate (width - length ds) 48 @ ds"

definition append_domain_version :: "protocol_version \<Rightarrow> bytes \<Rightarrow> bytes" where
  "append_domain_version v output =
     output @ ascii ''rvpn-v'' @ dec_digits (unat (major v)) @ ascii ''.'' @
     pad_zero (unat (minor_digits v)) (dec_digits (unat (minor v)))"

definition domain :: "bytes \<Rightarrow> bytes" where
  "domain suffix = append_domain_version PROTOCOL_VERSION [] @ suffix"

section \<open>Addresses\<close>

text \<open>
  The address types of the standard library, with the octets in network order. A socket address
  of version 6 carries its flow information and scope identifier.
\<close>

datatype ip_addr = V4 u32 | V6 u128

datatype socket_addr = SockV4 u32 u16 | SockV6 u128 u16 u32 u32

fun sock_ip :: "socket_addr \<Rightarrow> ip_addr" where
  "sock_ip (SockV4 ip port) = V4 ip"
| "sock_ip (SockV6 ip port flow scope) = V6 ip"

fun sock_port :: "socket_addr \<Rightarrow> u16" where
  "sock_port (SockV4 ip port) = port"
| "sock_port (SockV6 ip port flow scope) = port"

section \<open>Facts\<close>

lemma length_into_bytes [simp]: "wf_session_id s \<Longrightarrow> length (into_bytes s) = 16"
  by (simp add: wf_session_id_def SESSION_ID_LENGTH_def)

lemma wf_SessionId [simp]: "wf_session_id (SessionId bs) \<longleftrightarrow> length bs = 16"
  by (simp add: wf_session_id_def SESSION_ID_LENGTH_def)

lemma wf_ZERO [simp]: "wf_session_id ZERO"
  by (simp add: ZERO_def SESSION_ID_LENGTH_def)

lemma version_new_31 [simp]:
  "version_new 31 1 = Some \<lparr>encoded = 31, minor_digits = 1, major = 3, minor = 1\<rparr>"
  by (simp add: version_new_def version_scale_def)

lemma PROTOCOL_VERSION_fields [simp]:
  "encoded PROTOCOL_VERSION = 31" "minor_digits PROTOCOL_VERSION = 1"
  "major PROTOCOL_VERSION = 3" "minor PROTOCOL_VERSION = 1"
  by (simp_all add: PROTOCOL_VERSION_def)

lemma scale_loop_digits: "scale_loop (Suc 0) 1 = 10" "scale_loop 2 1 = 100"
  by (simp_all add: numeral_2_eq_2)

lemma version_new_split:
  assumes "version_new enc digits = Some v"
  shows "unat enc = unat (major v) * 10 ^ unat digits + unat (minor v)"
    and "unat (minor v) < 10 ^ unat digits" and "encoded v = enc" and "minor_digits v = digits"
proof -
  from assms have d: "digits = 1 \<or> digits = 2"
    unfolding version_new_def by (auto split: if_splits) unat_arith
  then have "unat (version_scale digits) = 10 ^ unat digits"
    by (auto simp: version_scale_def scale_loop_digits)
  with assms show "unat enc = unat (major v) * 10 ^ unat digits + unat (minor v)"
    and "unat (minor v) < 10 ^ unat digits" and "encoded v = enc" and "minor_digits v = digits"
    by (auto simp: version_new_def Let_def unat_div unat_mod split: if_splits intro: div_mult_mod_eq [symmetric])
qed

lemma domain_eq: "domain suffix = ascii ''rvpn-v3.1'' @ suffix"
  by (simp add: domain_def append_domain_version_def ascii_def dec_digits.simps pad_zero_def)

lemma domain_inj [simp]: "domain a = domain b \<longleftrightarrow> a = b"
  by (simp add: domain_eq)

end
