(* ===== verification/Crypto.thy ===== *)
theory Crypto
  imports Core_Types
begin

text \<open>
  The key schedule and identities of \<^verbatim>\<open>crates/rvpn-crypto\<close>: ephemeral key agreement, the derivation
  of handshake and session keys, packet encryption, mac1 tags, identities and certificates.

  The primitives (SHA-256, HMAC, HKDF, ChaCha20, ChaCha20-Poly1305, X25519, Ed25519) come from
  external crates. They are the fields of a record that every operation takes as an argument;
  the documented behaviour the code relies on is stated by the predicate \<open>lawful\<close>, which is a
  hypothesis of the theorems that need it. Random draws are arguments; \<open>None\<close> is a failing
  generator.
\<close>

section \<open>Primitives\<close>

record prims =
  sha256 :: "bytes \<Rightarrow> bytes"
  hmac_sha256 :: "bytes \<Rightarrow> bytes \<Rightarrow> bytes"
  hkdf_expand :: "bytes \<Rightarrow> bytes \<Rightarrow> bytes \<Rightarrow> nat \<Rightarrow> bytes option"
  chacha20 :: "bytes \<Rightarrow> bytes \<Rightarrow> nat \<Rightarrow> bytes"
  aead_encrypt :: "bytes \<Rightarrow> bytes \<Rightarrow> bytes \<Rightarrow> bytes \<Rightarrow> bytes option"
  aead_decrypt :: "bytes \<Rightarrow> bytes \<Rightarrow> bytes \<Rightarrow> bytes \<Rightarrow> bytes option"
  x25519_public :: "bytes \<Rightarrow> bytes"
  x25519 :: "bytes \<Rightarrow> bytes \<Rightarrow> bytes"
  ed25519_public :: "bytes \<Rightarrow> bytes"
  ed25519_sign :: "bytes \<Rightarrow> bytes \<Rightarrow> bytes"
  ed25519_valid_key :: "bytes \<Rightarrow> bool"
  ed25519_verify :: "bytes \<Rightarrow> bytes \<Rightarrow> bytes \<Rightarrow> bool"

datatype crypto_error =
    Randomness
  | NonContributoryKeyAgreement
  | KeyDerivation
  | InvalidKey
  | Encryption
  | AuthenticationFailed
  | ObfuscationTooShort
  | InvalidIdentityKey

definition KEY_LEN :: nat where "KEY_LEN = 32"
definition NONCE_LEN :: nat where "NONCE_LEN = 12"
definition AEAD_TAG_LEN :: nat where "AEAD_TAG_LEN = 16"
definition INFO_C2S :: bytes where "INFO_C2S = ascii ''rvpn-v1/session/client-to-server''"
definition INFO_S2C :: bytes where "INFO_S2C = ascii ''rvpn-v1/session/server-to-client''"

text \<open>The largest message the AEAD crate encrypts: the block counter has 32 bits, block 0 is the key.\<close>

definition AEAD_MAX :: nat where "AEAD_MAX = 64 * (2 ^ 32 - 1)"

subsection \<open>Documented behaviour\<close>

definition lawful_hash :: "prims \<Rightarrow> bool" where
  "lawful_hash p \<longleftrightarrow>
     (\<forall>m. length (sha256 p m) = 32) \<and> (\<forall>k m. length (hmac_sha256 p k m) = 32) \<and>
     (\<forall>salt ikm info n. n \<le> 255 * 32 \<longrightarrow> (\<exists>okm. hkdf_expand p salt ikm info n = Some okm \<and> length okm = n))"

definition lawful_stream :: "prims \<Rightarrow> bool" where
  "lawful_stream p \<longleftrightarrow> (\<forall>k n len. length (chacha20 p k n len) = len)"

definition lawful_aead :: "prims \<Rightarrow> bool" where
  "lawful_aead p \<longleftrightarrow>
     (\<forall>k n aad m. length m < AEAD_MAX \<longrightarrow> (\<exists>c. aead_encrypt p k n aad m = Some c)) \<and>
     (\<forall>k n aad m c. aead_encrypt p k n aad m = Some c \<longrightarrow>
        length c = length m + AEAD_TAG_LEN \<and> aead_decrypt p k n aad c = Some m) \<and>
     (\<forall>k n aad m c. aead_decrypt p k n aad c = Some m \<longrightarrow> aead_encrypt p k n aad m = Some c)"

definition lawful_dh :: "prims \<Rightarrow> bool" where
  "lawful_dh p \<longleftrightarrow>
     (\<forall>a b. x25519 p a (x25519_public p b) = x25519 p b (x25519_public p a)) \<and>
     (\<forall>a. length a = 32 \<longrightarrow> length (x25519_public p a) = 32) \<and>
     (\<forall>a b. length a = 32 \<longrightarrow> length b = 32 \<longrightarrow> length (x25519 p a b) = 32)"

definition lawful_sig :: "prims \<Rightarrow> bool" where
  "lawful_sig p \<longleftrightarrow>
     (\<forall>seed. length seed = 32 \<longrightarrow> length (ed25519_public p seed) = 32 \<and> ed25519_valid_key p (ed25519_public p seed)) \<and>
     (\<forall>seed m. length (ed25519_sign p seed m) = 64) \<and>
     (\<forall>seed m. ed25519_verify p (ed25519_public p seed) m (ed25519_sign p seed m))"

definition lawful :: "prims \<Rightarrow> bool" where
  "lawful p \<longleftrightarrow> lawful_hash p \<and> lawful_stream p \<and> lawful_aead p \<and> lawful_dh p \<and> lawful_sig p"

section \<open>Secrets and key agreement\<close>

definition secret_random :: "bytes option \<Rightarrow> crypto_error + bytes" where
  "secret_random draw = (case draw of None \<Rightarrow> Inl Randomness | Some bs \<Rightarrow> Inr bs)"

record ephemeral_key_pair =
  eph_secret :: bytes
  eph_public :: bytes

definition ephemeral_generate :: "prims \<Rightarrow> bytes option \<Rightarrow> crypto_error + ephemeral_key_pair" where
  "ephemeral_generate p draw =
     and_then (secret_random draw) (\<lambda>bs. Inr \<lparr>eph_secret = bs, eph_public = x25519_public p bs\<rparr>)"

definition agree :: "prims \<Rightarrow> ephemeral_key_pair \<Rightarrow> bytes \<Rightarrow> crypto_error + bytes" where
  "agree p kp peer =
     (let bs = x25519 p (eph_secret kp) peer
      in if list_all (\<lambda>b. b = 0) bs then Inl NonContributoryKeyAgreement else Inr bs)"

definition transcript_hash :: "prims \<Rightarrow> bytes \<Rightarrow> bytes" where
  "transcript_hash p transcript = sha256 p transcript"

section \<open>Authenticated encryption\<close>

text \<open>Both \<^verbatim>\<open>crypt\<close> and \<^verbatim>\<open>crypt_fixed_nonce\<close>: key length check, then encrypt or decrypt.\<close>

definition crypt :: "prims \<Rightarrow> bool \<Rightarrow> bytes \<Rightarrow> bytes \<Rightarrow> bytes \<Rightarrow> bytes \<Rightarrow> crypto_error + bytes" where
  "crypt p encrypt key nonce aad input =
     (if length key \<noteq> KEY_LEN then Inl InvalidKey
      else if encrypt then
        (case aead_encrypt p key nonce aad input of None \<Rightarrow> Inl Encryption | Some c \<Rightarrow> Inr c)
      else
        (case aead_decrypt p key nonce aad input of None \<Rightarrow> Inl AuthenticationFailed | Some m \<Rightarrow> Inr m))"

definition packet_nonce :: "u32 \<Rightarrow> u64 \<Rightarrow> bytes" where
  "packet_nonce key_phase sequence = to_be 4 key_phase @ to_be 8 sequence"

definition expand_or :: "prims \<Rightarrow> bytes \<Rightarrow> bytes \<Rightarrow> bytes \<Rightarrow> crypto_error + bytes" where
  "expand_or p salt ikm info =
     (case hkdf_expand p salt ikm info KEY_LEN of None \<Rightarrow> Inl KeyDerivation | Some k \<Rightarrow> Inr k)"

datatype session_role = Initiator | Responder

record session_keys =
  send_key :: bytes
  receive_key :: bytes

definition session_keys_derive :: "prims \<Rightarrow> bytes \<Rightarrow> bytes \<Rightarrow> session_role \<Rightarrow> crypto_error + session_keys" where
  "session_keys_derive p shared hash role =
     and_then (expand_or p hash shared INFO_C2S) (\<lambda>c2s.
     and_then (expand_or p hash shared INFO_S2C) (\<lambda>s2c.
       Inr (case role of
              Initiator \<Rightarrow> \<lparr>send_key = c2s, receive_key = s2c\<rparr>
            | Responder \<Rightarrow> \<lparr>send_key = s2c, receive_key = c2s\<rparr>)))"

definition keys_seal :: "prims \<Rightarrow> session_keys \<Rightarrow> bytes \<Rightarrow> bytes \<Rightarrow> bytes \<Rightarrow> crypto_error + bytes" where
  "keys_seal p k nonce aad plaintext = crypt p True (send_key k) nonce aad plaintext"

definition keys_open :: "prims \<Rightarrow> session_keys \<Rightarrow> bytes \<Rightarrow> bytes \<Rightarrow> bytes \<Rightarrow> crypto_error + bytes" where
  "keys_open p k nonce aad ciphertext = crypt p False (receive_key k) nonce aad ciphertext"

record handshake_keys =
  r2i :: bytes
  i2r :: bytes

definition handshake_salt :: "prims \<Rightarrow> bytes \<Rightarrow> bytes \<Rightarrow> bytes" where
  "handshake_salt p initiation response_public = sha256 p (initiation @ response_public)"

definition handshake_keys_derive :: "prims \<Rightarrow> bytes \<Rightarrow> bytes \<Rightarrow> crypto_error + handshake_keys" where
  "handshake_keys_derive p shared salt =
     and_then (expand_or p salt shared (ascii ''rvpn-v3/handshake/proof/r2i'')) (\<lambda>r.
     and_then (expand_or p salt shared (ascii ''rvpn-v3/handshake/proof/i2r'')) (\<lambda>i.
       Inr \<lparr>r2i = r, i2r = i\<rparr>))"

definition derive_from_transcript :: "prims \<Rightarrow> bytes \<Rightarrow> bytes \<Rightarrow> bytes \<Rightarrow> crypto_error + handshake_keys" where
  "derive_from_transcript p shared initiation response_public =
     handshake_keys_derive p shared (handshake_salt p initiation response_public)"

definition ZERO_NONCE :: bytes where "ZERO_NONCE = replicate NONCE_LEN 0"

definition seal_response :: "prims \<Rightarrow> handshake_keys \<Rightarrow> bytes \<Rightarrow> bytes \<Rightarrow> crypto_error + bytes" where
  "seal_response p k aad plaintext = crypt p True (r2i k) ZERO_NONCE aad plaintext"

definition open_response :: "prims \<Rightarrow> handshake_keys \<Rightarrow> bytes \<Rightarrow> bytes \<Rightarrow> crypto_error + bytes" where
  "open_response p k aad ciphertext = crypt p False (r2i k) ZERO_NONCE aad ciphertext"

definition seal_finish :: "prims \<Rightarrow> handshake_keys \<Rightarrow> bytes \<Rightarrow> bytes \<Rightarrow> crypto_error + bytes" where
  "seal_finish p k aad plaintext = crypt p True (i2r k) ZERO_NONCE aad plaintext"

definition open_finish :: "prims \<Rightarrow> handshake_keys \<Rightarrow> bytes \<Rightarrow> bytes \<Rightarrow> crypto_error + bytes" where
  "open_finish p k aad ciphertext = crypt p False (i2r k) ZERO_NONCE aad ciphertext"

section \<open>Constant-time comparison and mac1\<close>

definition constant_time_eq :: "nat \<Rightarrow> bytes \<Rightarrow> bytes \<Rightarrow> bool" where
  "constant_time_eq n a b = (foldl (\<lambda>d i. d OR (a ! i XOR b ! i)) 0 [0..<n] = 0)"

definition MAC1_LEN :: nat where "MAC1_LEN = 16"

definition mac1_from_key_material :: "prims \<Rightarrow> bytes \<Rightarrow> bytes" where
  "mac1_from_key_material p material = sha256 p (ascii ''rvpn-v3/mac1-key'' @ material)"

definition mac1_compute :: "prims \<Rightarrow> bytes \<Rightarrow> bytes \<Rightarrow> bytes" where
  "mac1_compute p key data = take MAC1_LEN (hmac_sha256 p key (ascii ''rvpn-v3/mac1'' @ data))"

definition mac1_verify :: "prims \<Rightarrow> bytes \<Rightarrow> bytes \<Rightarrow> bytes \<Rightarrow> bool" where
  "mac1_verify p key data tag = constant_time_eq MAC1_LEN (mac1_compute p key data) tag"

section \<open>Identities and certificates\<close>

definition CERT_LEN :: nat where "CERT_LEN = 32 + 8 + 8 + 64"

record certificate =
  subject :: bytes
  not_before :: u64
  not_after :: u64
  issuer_signature :: bytes

definition signed_fields :: "bytes \<Rightarrow> u64 \<Rightarrow> u64 \<Rightarrow> bytes" where
  "signed_fields subj nb na = subj @ to_be 8 nb @ to_be 8 na"

definition issue_certificate :: "prims \<Rightarrow> bytes \<Rightarrow> bytes \<Rightarrow> u64 \<Rightarrow> u64 \<Rightarrow> certificate" where
  "issue_certificate p seed subj nb na =
     \<lparr>subject = subj, not_before = nb, not_after = na,
      issuer_signature = ed25519_sign p seed (signed_fields subj nb na)\<rparr>"

definition identity_verify :: "prims \<Rightarrow> bytes \<Rightarrow> bytes \<Rightarrow> bytes \<Rightarrow> bool" where
  "identity_verify p public message signature =
     (if ed25519_valid_key p public then ed25519_verify p public message signature else False)"

definition certificate_encode :: "certificate \<Rightarrow> bytes" where
  "certificate_encode c = subject c @ to_be 8 (not_before c) @ to_be 8 (not_after c) @ issuer_signature c"

definition certificate_decode :: "bytes \<Rightarrow> certificate" where
  "certificate_decode bs =
     \<lparr>subject = take 32 bs, not_before = from_be (slice 32 40 bs), not_after = from_be (slice 40 48 bs),
      issuer_signature = drop 48 bs\<rparr>"

definition certificate_verify :: "prims \<Rightarrow> certificate \<Rightarrow> bytes \<Rightarrow> u64 \<Rightarrow> bool" where
  "certificate_verify p c ca now =
     (if now < not_before c \<or> now > not_after c then False
      else identity_verify p ca (signed_fields (subject c) (not_before c) (not_after c)) (issuer_signature c))"

definition wf_certificate :: "certificate \<Rightarrow> bool" where
  "wf_certificate c \<longleftrightarrow> length (subject c) = 32 \<and> length (issuer_signature c) = 64"

section \<open>Authentication configuration\<close>

text \<open>An identity key pair is its 32-byte seed.\<close>

datatype auth_config =
    CfgPinnedKey bytes bytes
  | CfgCertificate bytes bytes bytes

datatype auth_identity =
    IdPinnedKey bytes
  | IdCertificate bytes certificate

datatype auth_verifier =
    VerPinnedKey bytes
  | VerCertificate bytes

fun cfg_identity :: "auth_config \<Rightarrow> auth_identity" where
  "cfg_identity (CfgPinnedKey local_seed peer_public) = IdPinnedKey local_seed"
| "cfg_identity (CfgCertificate local_seed local_certificate ca_public) =
     IdCertificate local_seed (certificate_decode local_certificate)"

fun cfg_verifier :: "auth_config \<Rightarrow> auth_verifier" where
  "cfg_verifier (CfgPinnedKey local_seed peer_public) = VerPinnedKey peer_public"
| "cfg_verifier (CfgCertificate local_seed local_certificate ca_public) = VerCertificate ca_public"

fun initiator_mac1_key :: "prims \<Rightarrow> auth_config \<Rightarrow> bytes" where
  "initiator_mac1_key p (CfgPinnedKey local_seed peer_public) = mac1_from_key_material p peer_public"
| "initiator_mac1_key p (CfgCertificate local_seed local_certificate ca_public) =
     mac1_from_key_material p ca_public"

fun responder_mac1_key :: "prims \<Rightarrow> auth_config \<Rightarrow> bytes" where
  "responder_mac1_key p (CfgPinnedKey local_seed peer_public) =
     mac1_from_key_material p (ed25519_public p local_seed)"
| "responder_mac1_key p (CfgCertificate local_seed local_certificate ca_public) =
     mac1_from_key_material p ca_public"

fun verifier_mac1_key :: "prims \<Rightarrow> auth_verifier \<Rightarrow> bytes" where
  "verifier_mac1_key p (VerPinnedKey public) = mac1_from_key_material p public"
| "verifier_mac1_key p (VerCertificate ca_public) = mac1_from_key_material p ca_public"

section \<open>Facts\<close>

lemma crypto_lens [simp]:
  "KEY_LEN = 32" "NONCE_LEN = 12" "AEAD_TAG_LEN = 16" "MAC1_LEN = 16" "CERT_LEN = 112"
  by (simp_all add: KEY_LEN_def NONCE_LEN_def AEAD_TAG_LEN_def MAC1_LEN_def CERT_LEN_def)

lemma lawfulD:
  assumes "lawful p"
  shows "lawful_hash p" "lawful_stream p" "lawful_aead p" "lawful_dh p" "lawful_sig p"
  using assms by (auto simp: lawful_def)

lemma packet_nonce_inj [simp]: "packet_nonce a s = packet_nonce b t \<longleftrightarrow> a = b \<and> s = t"
proof
  assume "packet_nonce a s = packet_nonce b t"
  then have "to_be 4 a = to_be 4 b" "to_be 8 s = to_be 8 t" by (simp_all add: packet_nonce_def)
  then have "(from_be (to_be 4 a) :: u32) = from_be (to_be 4 b)" "(from_be (to_be 8 s) :: u64) = from_be (to_be 8 t)"
    by simp_all
  then show "a = b \<and> s = t" by simp
qed simp

lemma length_packet_nonce [simp]: "length (packet_nonce a s) = NONCE_LEN"
  by (simp add: packet_nonce_def)

lemma aead_inverse:
  assumes "lawful_aead p"
  shows "aead_encrypt p k n aad m = Some c \<longleftrightarrow> aead_decrypt p k n aad c = Some m"
  using assms unfolding lawful_aead_def by blast

lemma aead_length:
  assumes "lawful_aead p" "aead_encrypt p k n aad m = Some c"
  shows "length c = length m + 16"
  using assms unfolding lawful_aead_def crypto_lens by blast

lemma crypt_inverse:
  assumes "lawful_aead p"
  shows "crypt p True k n aad m = Inr c \<longleftrightarrow> crypt p False k n aad c = Inr m"
  using aead_inverse [OF assms, of k n aad m c] by (auto simp: crypt_def split: option.splits)

lemma crypt_length:
  assumes "lawful_aead p" "crypt p True k n aad m = Inr c"
  shows "length c = length m + 16"
  using assms(2) aead_length [OF assms(1), of k n aad m c]
  by (simp add: crypt_def split: option.splits if_splits)

lemma crypt_key_length: "crypt p e k n aad m = Inr c \<Longrightarrow> length k = 32"
  by (simp add: crypt_def split: if_splits)

lemma crypt_succeeds:
  assumes "lawful_aead p" "length k = 32" "length m < AEAD_MAX"
  shows "\<exists>c. crypt p True k n aad m = Inr c"
proof -
  obtain c where "aead_encrypt p k n aad m = Some c"
    using assms unfolding lawful_aead_def by blast
  then show ?thesis using assms by (simp add: crypt_def)
qed

lemma expand_or_Inr:
  assumes "lawful_hash p"
  shows "\<exists>k. expand_or p salt ikm info = Inr k \<and> length k = 32"
proof -
  have "\<exists>okm. hkdf_expand p salt ikm info 32 = Some okm \<and> length okm = 32"
    using assms unfolding lawful_hash_def by simp
  then show ?thesis by (auto simp: expand_or_def)
qed

lemma session_keys_derive_complementary:
  assumes "session_keys_derive p shared h Initiator = Inr ki" "session_keys_derive p shared h Responder = Inr kr"
  shows "send_key ki = receive_key kr" "receive_key ki = send_key kr"
  using assms by (auto simp: session_keys_derive_def)

lemma session_keys_derive_succeeds:
  assumes "lawful_hash p"
  shows "\<exists>k. session_keys_derive p shared h role = Inr k \<and> length (send_key k) = 32 \<and> length (receive_key k) = 32"
  using expand_or_Inr [OF assms, of h shared INFO_C2S] expand_or_Inr [OF assms, of h shared INFO_S2C]
  by (cases role) (auto simp: session_keys_derive_def)

lemma handshake_keys_derive_succeeds:
  assumes "lawful_hash p"
  shows "\<exists>k. handshake_keys_derive p shared salt = Inr k \<and> length (r2i k) = 32 \<and> length (i2r k) = 32"
  using expand_or_Inr [OF assms, of salt shared "ascii ''rvpn-v3/handshake/proof/r2i''"]
    expand_or_Inr [OF assms, of salt shared "ascii ''rvpn-v3/handshake/proof/i2r''"]
  by (auto simp: handshake_keys_derive_def)

lemma agree_symmetric:
  assumes "lawful_dh p" "eph_public a = x25519_public p (eph_secret a)" "eph_public b = x25519_public p (eph_secret b)"
  shows "agree p a (eph_public b) = agree p b (eph_public a)"
  using assms by (simp add: agree_def lawful_dh_def)

lemma xor_eq_0_iff: "x XOR y = 0 \<longleftrightarrow> x = (y :: u8)"
proof
  assume "x XOR y = 0"
  then have "(x XOR y) XOR y = 0 XOR y" by simp
  then show "x = y" by (simp only: xor.assoc xor_self_eq xor.left_neutral xor.right_neutral)
qed simp

lemma constant_time_fold:
  "foldl (\<lambda>d i. d OR (a ! i XOR b ! i)) d is = (0 :: u8) \<longleftrightarrow> d = 0 \<and> (\<forall>i\<in>set is. a ! i = b ! i)"
  by (induction "is" arbitrary: d) (simp_all add: or_eq_0_iff xor_eq_0_iff conj_assoc)

lemma constant_time_eq_iff:
  "length a = n \<Longrightarrow> length b = n \<Longrightarrow> constant_time_eq n a b \<longleftrightarrow> a = b"
  by (auto simp: constant_time_eq_def constant_time_fold intro: nth_equalityI)

lemma length_mac1_compute [simp]: "lawful_hash p \<Longrightarrow> length (mac1_compute p k d) = 16"
  by (simp add: mac1_compute_def lawful_hash_def)

lemma mac1_verify_iff:
  "lawful_hash p \<Longrightarrow> length tag = 16 \<Longrightarrow> mac1_verify p k d tag \<longleftrightarrow> tag = mac1_compute p k d"
  by (auto simp: mac1_verify_def constant_time_eq_iff)

lemma length_certificate_encode [simp, wire_len]: "wf_certificate c \<Longrightarrow> length (certificate_encode c) = 112"
  by (simp add: wf_certificate_def certificate_encode_def)

lemma certificate_decode_encode: "wf_certificate c \<Longrightarrow> certificate_decode (certificate_encode c) = c"
  by (simp add: wf_certificate_def certificate_encode_def certificate_decode_def slice_def)

lemma wf_certificate_decode: "length bs = 112 \<Longrightarrow> wf_certificate (certificate_decode bs)"
  by (simp add: wf_certificate_def certificate_decode_def)

lemma certificate_encode_decode:
  assumes "length bs = 112"
  shows "certificate_encode (certificate_decode bs) = bs"
proof -
  have l: "length (slice 32 40 bs) = 8" "length (slice 40 48 bs) = 8" using assms by (simp_all add: length_slice)
  have "to_be 8 (from_be (slice 32 40 bs) :: u64) = slice 32 40 bs"
    "to_be 8 (from_be (slice 40 48 bs) :: u64) = slice 40 48 bs"
    using to_be_from_be [of "slice 32 40 bs", where 'a = 64] to_be_from_be [of "slice 40 48 bs", where 'a = 64] l
    by simp_all
  then show ?thesis by (simp add: certificate_encode_def certificate_decode_def)
qed

lemma signed_fields_inj:
  assumes "length s = length s'" "signed_fields s nb na = signed_fields s' nb' na'"
  shows "s = s' \<and> nb = nb' \<and> na = na'"
proof -
  have "s = s'" "to_be 8 nb = to_be 8 nb'" "to_be 8 na = to_be 8 na'"
    using assms by (simp_all add: signed_fields_def)
  then have "(from_be (to_be 8 nb) :: u64) = from_be (to_be 8 nb')" "(from_be (to_be 8 na) :: u64) = from_be (to_be 8 na')"
    by simp_all
  then show ?thesis using \<open>s = s'\<close> by simp
qed

lemma issued_certificate_verifies:
  assumes "lawful_sig p" "length seed = 32"
  shows "certificate_verify p (issue_certificate p seed subj nb na) (ed25519_public p seed) now \<longleftrightarrow>
           nb \<le> now \<and> now \<le> na"
  using assms
  by (auto simp: certificate_verify_def issue_certificate_def identity_verify_def lawful_sig_def)

section \<open>A concrete instance of the primitives\<close>

text \<open>
  A transparent instance that satisfies the documented laws, on which the hypotheses of the
  theorems are discharged at concrete inputs.
\<close>

definition mix :: "bytes \<Rightarrow> u8" where
  "mix bs = foldl (\<lambda>a b. 3 * a + b) 7 bs"

definition plain_tag :: "bytes \<Rightarrow> bytes \<Rightarrow> bytes \<Rightarrow> bytes \<Rightarrow> bytes" where
  "plain_tag k n aad m = replicate 16 (mix (k @ n @ aad @ m))"

definition plain_open :: "bytes \<Rightarrow> bytes \<Rightarrow> bytes \<Rightarrow> bytes \<Rightarrow> bytes option" where
  "plain_open k n aad c =
     (let m = take (length c - 16) c in if c = m @ plain_tag k n aad m then Some m else None)"

definition plain_prims :: prims where
  "plain_prims =
     \<lparr>sha256 = \<lambda>m. replicate 32 (mix m),
      hmac_sha256 = \<lambda>k m. replicate 32 (mix (k @ m)),
      hkdf_expand = \<lambda>salt ikm info n. if n \<le> 255 * 32 then Some (replicate n (mix (salt @ ikm @ info))) else None,
      chacha20 = \<lambda>k n len. replicate len (mix (k @ n)),
      aead_encrypt = \<lambda>k n aad m. Some (m @ plain_tag k n aad m),
      aead_decrypt = plain_open,
      x25519_public = \<lambda>s. s,
      x25519 = \<lambda>a b. map2 (+) a b,
      ed25519_public = \<lambda>s. s,
      ed25519_sign = \<lambda>s m. replicate 64 (mix (s @ m)),
      ed25519_valid_key = \<lambda>k. True,
      ed25519_verify = \<lambda>k m sig. sig = replicate 64 (mix (k @ m))\<rparr>"

lemma map2_plus_commute: "map2 (+) a b = map2 (+) b (a :: bytes)"
  by (induction a b rule: list_induct2') (auto simp: add.commute)

lemma plain_open_iff: "plain_open k n aad c = Some m \<longleftrightarrow> c = m @ plain_tag k n aad m"
proof
  assume "plain_open k n aad c = Some m"
  then show "c = m @ plain_tag k n aad m"
    unfolding plain_open_def Let_def by (metis option.inject option.simps(3))
qed (simp add: plain_open_def plain_tag_def)

lemma plain_prims_lawful: "lawful plain_prims"
proof -
  have "lawful_hash plain_prims" by (simp add: lawful_hash_def plain_prims_def)
  moreover have "lawful_stream plain_prims" by (simp add: lawful_stream_def plain_prims_def)
  moreover have "lawful_aead plain_prims"
    by (simp add: lawful_aead_def plain_prims_def plain_open_iff) (simp add: plain_tag_def)
  moreover have "lawful_dh plain_prims"
    unfolding lawful_dh_def plain_prims_def prims.simps by (intro conjI allI map2_plus_commute) simp_all
  moreover have "lawful_sig plain_prims" by (simp add: lawful_sig_def plain_prims_def)
  ultimately show ?thesis by (simp add: lawful_def)
qed

end
