(* ===== verification/Config.thy ===== *)
theory Config
  imports Crypto
begin

text \<open>
  The configuration crate, \<^verbatim>\<open>crates/rvpn-config/src\<close>: the configuration of client and server, its validation,
  the certificate authority and the peer identities derived from it. Strings are sequences of ASCII characters.

  Reading TOML, CIDR prefixes and hexadecimal is the work of external crates, and IP addresses are parsed
  by the standard library. They are the fields of a record argument, and networks a type parameter.
\<close>

section \<open>External parsers\<close>

record 'n parsers =
  parse_net :: "string \<Rightarrow> 'n option"
  net_is_v4 :: "'n \<Rightarrow> bool"
  parse_ip :: "string \<Rightarrow> ip_addr option"
  hex_decode :: "string \<Rightarrow> bytes option"
  hex_encode :: "bytes \<Rightarrow> string"

text \<open>What the code relies on in the hexadecimal codec: decoding succeeds only on two characters for each
  byte, does not distinguish letter case, and inverts encoding, which is in lower case.\<close>

definition lower_char :: "char \<Rightarrow> char" where
  "lower_char c = (let n = of_char c :: nat in if 65 \<le> n \<and> n \<le> 90 then char_of (n + 32) else c)"

abbreviation to_ascii_lowercase :: "string \<Rightarrow> string" where
  "to_ascii_lowercase \<equiv> map lower_char"

definition lawful_hex :: "'n parsers \<Rightarrow> bool" where
  "lawful_hex ps \<longleftrightarrow>
     (\<forall>s bs. hex_decode ps s = Some bs \<longrightarrow> length s = 2 * length bs) \<and>
     (\<forall>bs. hex_decode ps (hex_encode ps bs) = Some bs) \<and>
     (\<forall>s. hex_decode ps (to_ascii_lowercase s) = hex_decode ps s) \<and>
     (\<forall>bs. to_ascii_lowercase (hex_encode ps bs) = hex_encode ps bs) \<and>
     (\<forall>s bs. hex_decode ps s = Some bs \<longrightarrow> to_ascii_lowercase s = hex_encode ps bs)"

section \<open>Errors and helpers\<close>

datatype config_error =
    Parse string
  | Invalid string
  | InvalidKeyEncoding
  | InvalidCertificateEncoding
  | Resolution string "int option"
  | NoResolvedAddress string
  | UnknownLinkPeer string
  | DuplicatePeerName string
  | ConfigIo "int option"
  | InsecurePermissions string

definition validate_endpoint :: "socket_addr \<Rightarrow> config_error + unit" where
  "validate_endpoint endpoint = require (sock_port endpoint \<noteq> 0) (Invalid ''endpoint port must not be zero'')"

definition decode_key32 :: "'n parsers \<Rightarrow> string \<Rightarrow> config_error + bytes" where
  "decode_key32 ps s =
     (if length s \<noteq> 64 then Inl InvalidKeyEncoding else ok_or (hex_decode ps s) InvalidKeyEncoding)"

definition decode_certificate :: "'n parsers \<Rightarrow> string \<Rightarrow> config_error + bytes" where
  "decode_certificate ps s =
     (if length s \<noteq> 224 then Inl InvalidCertificateEncoding else ok_or (hex_decode ps s) InvalidCertificateEncoding)"

text \<open>The name lookup returns its addresses in order.\<close>

definition resolve_endpoint :: "string \<Rightarrow> int option + socket_addr list \<Rightarrow> config_error + socket_addr" where
  "resolve_endpoint host looked_up =
     (case looked_up of
        Inl e \<Rightarrow> Inl (Resolution host e)
      | Inr [] \<Rightarrow> Inl (NoResolvedAddress host)
      | Inr (a # _) \<Rightarrow> Inr a)"

fun rsplit_once :: "char \<Rightarrow> string \<Rightarrow> (string \<times> string) option" where
  "rsplit_once c [] = None"
| "rsplit_once c (x # xs) =
     (case rsplit_once c xs of
        Some (a, b) \<Rightarrow> Some (x # a, b)
      | None \<Rightarrow> if x = c then Some ([], xs) else None)"

text \<open>Reading a 16-bit number: an optional plus sign, then decimal digits only.\<close>

definition digit_value :: "char \<Rightarrow> nat option" where
  "digit_value c = (let n = of_char c in if 48 \<le> n \<and> n \<le> 57 then Some (n - 48) else None)"

fun parse_digits :: "string \<Rightarrow> nat \<Rightarrow> nat option" where
  "parse_digits [] acc = Some acc"
| "parse_digits (c # cs) acc =
     (case digit_value c of
        None \<Rightarrow> None
      | Some d \<Rightarrow> if acc * 10 + d > 65535 then None else parse_digits cs (acc * 10 + d))"

definition parse_u16 :: "string \<Rightarrow> nat option" where
  "parse_u16 s =
     (let ds = (if s \<noteq> [] \<and> hd s = CHR ''+'' then tl s else s)
      in if ds = [] then None else parse_digits ds 0)"

definition validate_endpoint_syntax :: "string \<Rightarrow> config_error + unit" where
  "validate_endpoint_syntax s =
     and_then (ok_or (rsplit_once (CHR '':'') s) (Invalid ''server endpoint must be in host:port or ip:port form'')) (\<lambda>(_, port_str).
     and_then (ok_or (parse_u16 port_str) (Invalid ''server endpoint port must be a valid number'')) (\<lambda>port.
       require (port \<noteq> 0) (Invalid ''server endpoint port must not be zero'')))"

text \<open>The offset is drawn from the sub-second part of the clock, in nanoseconds.\<close>

definition jittered_retry_interval :: "nat \<Rightarrow> nat \<Rightarrow> nat \<Rightarrow> duration" where
  "jittered_retry_interval base_ms jitter_ms subsec_nanos =
     (if jitter_ms = 0 then millis (max base_ms 1)
      else
        let span = 2 * jitter_ms + 1;
            offset = int (subsec_nanos mod span) - int jitter_ms
        in millis (nat (max (int base_ms + offset) 1)))"

definition path_join :: "string \<Rightarrow> string \<Rightarrow> string" where
  "path_join a b = a @ ''/'' @ b"

definition default_config_dir :: "(string \<Rightarrow> string option) \<Rightarrow> string" where
  "default_config_dir env =
     (case env ''XDG_CONFIG_HOME'' of
        Some xdg \<Rightarrow> path_join xdg ''rvpn''
      | None \<Rightarrow> (case env ''HOME'' of
                  Some home \<Rightarrow> path_join (path_join home ''.config'') ''rvpn''
                | None \<Rightarrow> ''rvpn''))"

definition read_config_file :: "string \<Rightarrow> int option + nat \<Rightarrow> int option + string \<Rightarrow> config_error + string" where
  "read_config_file path mode contents =
     and_then (map_err ConfigIo mode) (\<lambda>m.
       if m mod 64 \<noteq> 0 then Inl (InsecurePermissions path) else map_err ConfigIo contents)"

text \<open>Replacing the top-level \<^verbatim>\<open>server\<close> value. Quoting the value is the work of the external
  TOML crate and a parameter.\<close>

definition starts_with :: "string \<Rightarrow> string \<Rightarrow> bool" where
  "starts_with prefix s \<longleftrightarrow> take (length prefix) s = prefix"

definition is_whitespace :: "char \<Rightarrow> bool" where
  "is_whitespace c \<longleftrightarrow> (let n = of_char c :: nat in n = 32 \<or> (9 \<le> n \<and> n \<le> 13))"

definition trim_start :: "string \<Rightarrow> string" where
  "trim_start = dropWhile is_whitespace"

fun split_inclusive :: "string \<Rightarrow> string list" where
  "split_inclusive [] = []"
| "split_inclusive (c # cs) =
     (if of_char c = (10 :: nat) then [c] # split_inclusive cs
      else case split_inclusive cs of [] \<Rightarrow> [[c]] | l # ls \<Rightarrow> (c # l) # ls)"

definition is_server_line :: "string \<Rightarrow> bool" where
  "is_server_line line \<longleftrightarrow>
     (let trimmed = trim_start line
      in starts_with ''server'' trimmed \<and> starts_with ''='' (trim_start (drop (length ''server'') trimmed)))"

fun replace_lines :: "string \<Rightarrow> bool \<Rightarrow> string list \<Rightarrow> string \<times> bool" where
  "replace_lines replacement in_section [] = ([], False)"
| "replace_lines replacement in_section (line # ls) =
     (let in_section' = (in_section \<or> starts_with ''['' (trim_start line)) in
      if \<not> in_section' \<and> is_server_line line then
        (replacement @ (if line \<noteq> [] \<and> of_char (last line) = (10 :: nat) then [last line] else []) @ fst (replace_lines replacement in_section' ls), True)
      else
        (line @ fst (replace_lines replacement in_section' ls), snd (replace_lines replacement in_section' ls)))"

definition replace_client_server :: "(string \<Rightarrow> string) \<Rightarrow> string \<Rightarrow> string \<Rightarrow> string" where
  "replace_client_server quote input server =
     (let replacement = ''server = '' @ quote server;
          (output, replaced) = replace_lines replacement False (split_inclusive input)
      in if replaced then output else replacement @ [char_of (10 :: nat)] @ output)"

lemma concat_split_inclusive: "concat (split_inclusive s) = s"
  by (induction s) (auto split: list.splits)

lemma replace_lines_id: "\<not> snd (replace_lines r in_section ls) \<Longrightarrow> fst (replace_lines r in_section ls) = concat ls"
  by (induction r in_section ls rule: replace_lines.induct) (auto simp: Let_def split: if_splits)

text \<open>A document without a top-level server line is kept whole behind the new line.\<close>

lemma replace_client_server_inserts:
  "\<not> snd (replace_lines (''server = '' @ quote server) False (split_inclusive input)) \<Longrightarrow>
   replace_client_server quote input server = ''server = '' @ quote server @ [char_of (10 :: nat)] @ input"
  using replace_lines_id [of "''server = '' @ quote server" False "split_inclusive input"]
  by (simp add: replace_client_server_def Let_def case_prod_beta concat_split_inclusive)

record basic_config =
  bc_endpoint :: socket_addr
  bc_identity_file :: "string option"

definition basic_config_validate :: "basic_config \<Rightarrow> config_error + unit" where
  "basic_config_validate c = require (sock_port (bc_endpoint c) \<noteq> 0) (Invalid ''endpoint port must not be zero'')"

section \<open>Network settings\<close>

datatype device_mode = Tun | Tap | Both

record interface_config =
  ic_name :: "string option"
  ic_tap_name :: "string option"
  ic_mtu :: "u16 option"
  ic_mode :: "device_mode option"
  ic_address :: "string option"
  ic_addresses :: "string list"
  ic_dns_servers :: "string option"

definition interface_mode :: "interface_config \<Rightarrow> device_mode" where
  "interface_mode c = (case ic_mode c of Some m \<Rightarrow> m | None \<Rightarrow> Tun)"

fun split_on :: "(char \<Rightarrow> bool) \<Rightarrow> string \<Rightarrow> string list" where
  "split_on P [] = [[]]"
| "split_on P (c # cs) =
     (if P c then [] # split_on P cs
      else case split_on P cs of [] \<Rightarrow> [[c]] | part # parts \<Rightarrow> (c # part) # parts)"

definition dns_server_list :: "'n parsers \<Rightarrow> interface_config \<Rightarrow> config_error + ip_addr list" where
  "dns_server_list ps c =
     (case ic_dns_servers c of
        None \<Rightarrow> Inr []
      | Some raw \<Rightarrow>
          collect_all
            (\<lambda>part. ok_or (parse_ip ps part) (Invalid ''interface.dns_servers must be a comma-separated list of IP addresses''))
            (filter (\<lambda>part. part \<noteq> []) (split_on (\<lambda>ch. ch = CHR '','' \<or> is_whitespace ch) raw)))"

definition check_nets :: "'n parsers \<Rightarrow> string \<Rightarrow> string list \<Rightarrow> config_error + unit" where
  "check_nets ps msg = check_all (\<lambda>prefix. and_then (ok_or (parse_net ps prefix) (Invalid msg)) (\<lambda>_. Inr ()))"

definition interface_validate :: "'n parsers \<Rightarrow> interface_config \<Rightarrow> config_error + unit" where
  "interface_validate ps c =
     and_then (require (case ic_mtu c of Some mtu \<Rightarrow> 576 \<le> mtu | None \<Rightarrow> True) (Invalid ''interface MTU must be at least 576'')) (\<lambda>_.
     and_then (check_nets ps ''interface addresses must be valid CIDR prefixes''
                 ((case ic_address c of Some a \<Rightarrow> [a] | None \<Rightarrow> []) @ ic_addresses c)) (\<lambda>_.
     and_then (dns_server_list ps c) (\<lambda>_. Inr ())))"

record handshake_config =
  retry_interval_ms :: nat
  retry_limit :: nat
  retry_jitter_ms :: nat

definition handshake_config_default :: handshake_config where
  "handshake_config_default = \<lparr>retry_interval_ms = 500, retry_limit = 5, retry_jitter_ms = 150\<rparr>"

definition handshake_validate :: "handshake_config \<Rightarrow> config_error + unit" where
  "handshake_validate c =
     require (\<not> (retry_interval_ms c = 0 \<or> retry_limit c = 0)) (Invalid ''handshake retry interval and limit must be non-zero'')"

record rekey_config =
  packet_limit :: nat
  time_limit_secs :: nat
  grace_period_secs :: nat

definition rekey_config_default :: rekey_config where
  "rekey_config_default = \<lparr>packet_limit = 2 ^ 20, time_limit_secs = 120, grace_period_secs = 15\<rparr>"

definition rekey_validate :: "rekey_config \<Rightarrow> config_error + unit" where
  "rekey_validate c = Inr ()"

definition time_limit :: "rekey_config \<Rightarrow> duration option" where
  "time_limit c = (if time_limit_secs c = 0 then None else Some (secs (time_limit_secs c)))"

definition grace_period :: "rekey_config \<Rightarrow> duration" where
  "grace_period c = secs (grace_period_secs c)"

record liveness_config =
  timeout_secs :: nat

definition liveness_default :: liveness_config where "liveness_default = \<lparr>timeout_secs = 90\<rparr>"

definition liveness_timeout :: "liveness_config \<Rightarrow> duration option" where
  "liveness_timeout c = (if timeout_secs c \<noteq> 0 then Some (secs (timeout_secs c)) else None)"

definition liveness_validate :: "liveness_config \<Rightarrow> config_error + unit" where
  "liveness_validate c =
     require (\<not> (timeout_secs c \<noteq> 0 \<and> timeout_secs c < 60)) (Invalid ''liveness.timeout_secs must be 0 (disabled) or at least 60'')"

record client_routing_config =
  default_route :: bool
  gateway :: "string option"
  endpoint_gateway :: "string option"
  default_route_v6 :: bool
  gateway_v6 :: "string option"
  endpoint_gateway_v6 :: "string option"
  routes :: "string list"

definition client_routing_validate :: "'n parsers \<Rightarrow> client_routing_config \<Rightarrow> config_error + unit" where
  "client_routing_validate ps c =
     and_then (require (\<not> (default_route c \<and> gateway c = None)) (Invalid ''routing.gateway is required for default_route'')) (\<lambda>_.
     and_then (require (\<not> (default_route_v6 c \<and> gateway_v6 c = None)) (Invalid ''routing.gateway_v6 is required for default_route_v6'')) (\<lambda>_.
       check_nets ps ''routing.routes must contain valid CIDR prefixes'' (routes c)))"

datatype firewall_backend = Auto | Iptables | Nftables

record forwarding_config =
  fw_enabled :: bool
  fw_backend :: firewall_backend
  fw_external_interface :: "string option"
  fw_tunnel_cidr :: "string option"
  fw_tunnel_cidr_v6 :: "string option"

definition or_empty :: "string option \<Rightarrow> string" where
  "or_empty x = (case x of Some s \<Rightarrow> s | None \<Rightarrow> [])"

definition forwarding_validate :: "'n parsers \<Rightarrow> forwarding_config \<Rightarrow> config_error + unit" where
  "forwarding_validate ps c =
     and_then (require
       (\<not> (fw_enabled c \<and>
          (or_empty (fw_external_interface c) = [] \<or>
           or_empty (fw_tunnel_cidr c) = [] \<and> or_empty (fw_tunnel_cidr_v6 c) = [])))
       (Invalid ''forwarding.external_interface and at least one tunnel CIDR are required when forwarding is enabled'')) (\<lambda>_.
     and_then (require
       (case fw_tunnel_cidr c of None \<Rightarrow> True
        | Some cidr \<Rightarrow> (case parse_net ps cidr of Some n \<Rightarrow> net_is_v4 ps n | None \<Rightarrow> False))
       (Invalid ''forwarding.tunnel_cidr must be an IPv4 CIDR'')) (\<lambda>_.
       require
         (case fw_tunnel_cidr_v6 c of None \<Rightarrow> True
          | Some cidr \<Rightarrow> (case parse_net ps cidr of Some n \<Rightarrow> \<not> net_is_v4 ps n | None \<Rightarrow> False))
         (Invalid ''forwarding.tunnel_cidr_v6 must be an IPv6 CIDR'')))"

section \<open>Client\<close>

datatype auth_mode =
    PinnedKeyMode string string
  | CertificateMode string string string

fun to_auth_config :: "'n parsers \<Rightarrow> auth_mode \<Rightarrow> config_error + auth_config" where
  "to_auth_config ps (PinnedKeyMode seed peer) =
     and_then (decode_key32 ps seed) (\<lambda>s. and_then (decode_key32 ps peer) (\<lambda>k. Inr (CfgPinnedKey s k)))"
| "to_auth_config ps (CertificateMode seed cert ca) =
     and_then (decode_key32 ps seed) (\<lambda>s. and_then (decode_certificate ps cert) (\<lambda>c.
     and_then (decode_key32 ps ca) (\<lambda>k. Inr (CfgCertificate s c k))))"

record client_config =
  cc_server :: string
  cc_dns_replace :: bool
  cc_auth :: "auth_mode option"
  cc_interface :: interface_config
  cc_handshake :: handshake_config
  cc_rekey :: rekey_config
  cc_routing :: client_routing_config
  cc_liveness :: liveness_config
  cc_obfuscation_key :: "string option"

definition quoted :: "string \<Rightarrow> string" where
  "quoted s = [CHR 0x22] @ s @ [CHR 0x22]"

definition client_auth_config :: "'n parsers \<Rightarrow> client_config \<Rightarrow> config_error + auth_config" where
  "client_auth_config ps c =
     and_then (ok_or (cc_auth c) (Invalid (''`auth` is required (mode = '' @ quoted ''pinned-key'' @ '' or mode = '' @
       quoted ''certificate'' @ '')''))) (to_auth_config ps)"

definition client_validate :: "'n parsers \<Rightarrow> client_config \<Rightarrow> config_error + unit" where
  "client_validate ps c =
     and_then (validate_endpoint_syntax (cc_server c)) (\<lambda>_.
     and_then (client_auth_config ps c) (\<lambda>_.
     and_then (interface_validate ps (cc_interface c)) (\<lambda>_.
     and_then (handshake_validate (cc_handshake c)) (\<lambda>_.
     and_then (rekey_validate (cc_rekey c)) (\<lambda>_.
     and_then (client_routing_validate ps (cc_routing c)) (\<lambda>_.
       liveness_validate (cc_liveness c)))))))"

definition key_bytes :: "'n parsers \<Rightarrow> string option \<Rightarrow> config_error + bytes option" where
  "key_bytes ps k = (case k of None \<Rightarrow> Inr None | Some s \<Rightarrow> and_then (decode_key32 ps s) (\<lambda>b. Inr (Some b)))"

definition client_obfuscation_key_bytes :: "'n parsers \<Rightarrow> client_config \<Rightarrow> config_error + bytes option" where
  "client_obfuscation_key_bytes ps c = key_bytes ps (cc_obfuscation_key c)"

definition client_from_toml :: "'n parsers \<Rightarrow> (string \<Rightarrow> string + client_config) \<Rightarrow> string \<Rightarrow> config_error + client_config" where
  "client_from_toml ps toml input =
     and_then (map_err Parse (toml input)) (\<lambda>c. and_then (client_validate ps c) (\<lambda>_. Inr c))"

section \<open>A concrete hexadecimal codec\<close>

definition nibble_value :: "char \<Rightarrow> nat option" where
  "nibble_value c =
     (let n = of_char c in
      if 48 \<le> n \<and> n \<le> 57 then Some (n - 48)
      else if 97 \<le> n \<and> n \<le> 102 then Some (n - 87)
      else if 65 \<le> n \<and> n \<le> 70 then Some (n - 55) else None)"

definition nibble_char :: "nat \<Rightarrow> char" where
  "nibble_char k = char_of (if k < 10 then k + 48 else k + 87)"

fun plain_hex_decode :: "string \<Rightarrow> bytes option" where
  "plain_hex_decode [] = Some []"
| "plain_hex_decode [c] = None"
| "plain_hex_decode (c # d # s) =
     (case (nibble_value c, nibble_value d, plain_hex_decode s) of
        (Some a, Some b, Some bs) \<Rightarrow> Some (of_nat (16 * a + b) # bs)
      | _ \<Rightarrow> None)"

definition plain_hex_encode :: "bytes \<Rightarrow> string" where
  "plain_hex_encode bs = concat (map (\<lambda>b. [nibble_char (unat b div 16), nibble_char (unat b mod 16)]) bs)"

definition plain_parsers :: "(ip_addr \<times> nat) parsers" where
  "plain_parsers = \<lparr>parse_net = \<lambda>s. if s = [] then None else Some (V4 0, 0), net_is_v4 = \<lambda>_. True, parse_ip = \<lambda>s. None,
     hex_decode = plain_hex_decode, hex_encode = plain_hex_encode\<rparr>"

lemma nibble_value_Some:
  assumes "nibble_value c = Some k"
  shows "k < 16" and "lower_char c = nibble_char k"
proof -
  have "char_of (of_char c :: nat) = c" by simp
  then show "k < 16" "lower_char c = nibble_char k"
    using assms by (auto simp: nibble_value_def nibble_char_def lower_char_def Let_def split: if_splits)
qed

lemma nibble_value_char: "k < 16 \<Longrightarrow> nibble_value (nibble_char k) = Some k"
  by (auto simp: nibble_value_def nibble_char_def Let_def)

lemma nibble_value_lower: "nibble_value (lower_char c) = nibble_value c"
  by (auto simp: nibble_value_def lower_char_def Let_def)

lemma decode_lower: "plain_hex_decode (to_ascii_lowercase s) = plain_hex_decode s"
  by (induction s rule: plain_hex_decode.induct) (simp_all add: nibble_value_lower)

lemma decode_encode: "plain_hex_decode (plain_hex_encode bs) = Some bs"
proof (induction bs)
  case (Cons b bs)
  have "unat b < 256" using unat_less_2p [of b] by simp
  then have "nibble_value (nibble_char (unat b div 16)) = Some (unat b div 16)"
    "nibble_value (nibble_char (unat b mod 16)) = Some (unat b mod 16)"
    by (simp_all add: nibble_value_char)
  moreover have "of_nat (16 * (unat b div 16) + unat b mod 16) = b"
    unfolding mult_div_mod_eq by simp
  ultimately show ?case using Cons by (simp add: plain_hex_encode_def del: of_nat_add of_nat_mult)
qed (simp add: plain_hex_encode_def)

lemma decode_Some: "plain_hex_decode s = Some bs \<Longrightarrow> length s = 2 * length bs \<and> to_ascii_lowercase s = plain_hex_encode bs"
proof (induction s arbitrary: bs rule: plain_hex_decode.induct)
  case (3 c d s)
  then obtain a b bs' where n: "nibble_value c = Some a" "nibble_value d = Some b" and r: "plain_hex_decode s = Some bs'"
    and bs: "bs = of_nat (16 * a + b) # bs'" by (auto split: option.splits)
  note na = nibble_value_Some [OF n(1)] and nb = nibble_value_Some [OF n(2)]
  have "16 * a + b < 256" using na(1) nb(1) by simp
  then have "unat (of_nat (16 * a + b) :: u8) = 16 * a + b" unfolding unat_of_nat by simp
  then show ?case using 3 n r bs na nb
    by (simp add: plain_hex_encode_def del: of_nat_add of_nat_mult)
qed (auto simp: plain_hex_encode_def)

lemma lower_encode: "to_ascii_lowercase (plain_hex_encode bs) = plain_hex_encode bs"
  using decode_Some [OF decode_encode] by simp

lemma plain_parsers_lawful: "lawful_hex plain_parsers"
  using decode_lower decode_encode decode_Some lower_encode by (simp add: lawful_hex_def plain_parsers_def)

end
