(* ===== verification/Server_Config.thy ===== *)
theory Server_Config
  imports Config
begin

text \<open>
  The server's configuration, \<^verbatim>\<open>crates/rvpn-config/src/server.rs\<close>: peers, links between them, the
  certificate authority, DNS and limits, and what a configuration that passes validation guarantees.
\<close>

section \<open>Data\<close>

record link_config =
  between :: "string list"
  receivers :: "string list"
  transmitters :: "string list"

record peer_limits_config =
  rx_mib_per_sec :: nat
  tx_mib_per_sec :: nat

record usage_history_config =
  uh_enabled :: bool
  uh_path :: "string option"
  uh_retention_days :: nat

definition usage_history_default :: usage_history_config where
  "usage_history_default = \<lparr>uh_enabled = False, uh_path = None, uh_retention_days = 30\<rparr>"

record dns_config =
  dns_upstreams :: "socket_addr list"
  dns_timeout_ms :: nat
  dns_attempts :: nat
  dns_cache_entries :: nat
  dns_blocked_domains :: "string list"

definition dns_config_default :: dns_config where
  "dns_config_default = \<lparr>dns_upstreams = [], dns_timeout_ms = 2000, dns_attempts = 2, dns_cache_entries = 1024,
     dns_blocked_domains = []\<rparr>"

record server_peer_config =
  sp_name :: string
  sp_auth :: auth_mode
  sp_allowed_ips :: "string list"

record certificate_authority_config =
  ca_name :: string
  ca_ca_public_key :: string
  ca_local_identity_seed :: string
  ca_local_certificate :: string
  ca_default_allowed_ips :: "string list"
  ca_peer_overrides :: "(string \<times> string list) list"
  ca_revoked_subjects :: "string list"

record 'n peer_identity =
  pi_name :: string
  pi_allowed_ips :: "'n list"
  pi_auth :: auth_config

record server_config =
  sc_bind :: socket_addr
  sc_peers :: "server_peer_config list"
  sc_links :: "link_config list"
  sc_certificate_authority :: "certificate_authority_config option"
  sc_interface :: interface_config
  sc_handshake :: handshake_config
  sc_rekey :: rekey_config
  sc_forwarding :: forwarding_config
  sc_liveness :: liveness_config
  sc_dns :: dns_config
  sc_limits :: peer_limits_config
  sc_usage_history :: usage_history_config
  sc_obfuscation_key :: "string option"

section \<open>Peers and certificate authority\<close>

definition parse_nets :: "'n parsers \<Rightarrow> string \<Rightarrow> string list \<Rightarrow> config_error + 'n list" where
  "parse_nets ps msg = collect_all (\<lambda>prefix. ok_or (parse_net ps prefix) (Invalid msg))"

definition server_peer_validate :: "'n parsers \<Rightarrow> server_peer_config \<Rightarrow> config_error + unit" where
  "server_peer_validate ps c =
     and_then (require (\<not> (sp_name c = [] \<or> sp_allowed_ips c = []))
       (Invalid ''each server peer needs a name and at least one allowed_ips prefix'')) (\<lambda>_.
     and_then (to_auth_config ps (sp_auth c)) (\<lambda>_.
       check_nets ps ''peer allowed_ips must contain valid CIDR prefixes'' (sp_allowed_ips c)))"

definition server_peer_identity :: "'n parsers \<Rightarrow> server_peer_config \<Rightarrow> config_error + 'n peer_identity" where
  "server_peer_identity ps c =
     and_then (parse_nets ps ''peer allowed_ips must contain valid CIDR prefixes'' (sp_allowed_ips c)) (\<lambda>nets.
     and_then (to_auth_config ps (sp_auth c)) (\<lambda>auth.
       Inr \<lparr>pi_name = sp_name c, pi_allowed_ips = nets, pi_auth = auth\<rparr>))"

definition ca_validate :: "'n parsers \<Rightarrow> certificate_authority_config \<Rightarrow> config_error + unit" where
  "ca_validate ps c =
     and_then (decode_key32 ps (ca_ca_public_key c)) (\<lambda>_.
     and_then (decode_key32 ps (ca_local_identity_seed c)) (\<lambda>_.
     and_then (decode_certificate ps (ca_local_certificate c)) (\<lambda>_.
     and_then (check_all (\<lambda>subject. and_then (decode_key32 ps subject) (\<lambda>_. Inr ())) (ca_revoked_subjects c)) (\<lambda>_.
       check_all (check_nets ps ''certificate_authority allowed_ips must contain valid CIDR prefixes'')
         (ca_default_allowed_ips c # map snd (ca_peer_overrides c))))))"

definition ca_to_auth_config :: "'n parsers \<Rightarrow> certificate_authority_config \<Rightarrow> config_error + auth_config" where
  "ca_to_auth_config ps c =
     and_then (decode_key32 ps (ca_local_identity_seed c)) (\<lambda>seed.
     and_then (decode_certificate ps (ca_local_certificate c)) (\<lambda>cert.
     and_then (decode_key32 ps (ca_ca_public_key c)) (\<lambda>key. Inr (CfgCertificate seed cert key))))"

definition resolve_allowed_ips :: "'n parsers \<Rightarrow> certificate_authority_config \<Rightarrow> string \<Rightarrow> config_error + 'n list" where
  "resolve_allowed_ips ps c subject_hex =
     (let prefixes = (case map_of (ca_peer_overrides c) subject_hex of Some p \<Rightarrow> p | None \<Rightarrow> ca_default_allowed_ips c)
      in parse_nets ps ''certificate_authority allowed_ips must contain valid CIDR prefixes'' prefixes)"

definition eq_ignore_ascii_case :: "string \<Rightarrow> string \<Rightarrow> bool" where
  "eq_ignore_ascii_case a b \<longleftrightarrow> to_ascii_lowercase a = to_ascii_lowercase b"

definition is_revoked :: "certificate_authority_config \<Rightarrow> string \<Rightarrow> bool" where
  "is_revoked c subject_hex \<longleftrightarrow> list_ex (\<lambda>s. eq_ignore_ascii_case s subject_hex) (ca_revoked_subjects c)"

section \<open>Links\<close>

fun first_duplicate :: "string list \<Rightarrow> string list \<Rightarrow> string option" where
  "first_duplicate seen [] = None"
| "first_duplicate seen (x # xs) = (if x \<in> set seen then Some x else first_duplicate (x # seen) xs)"

definition known_name :: "server_config \<Rightarrow> string \<Rightarrow> bool" where
  "known_name c name \<longleftrightarrow>
     name \<in> set (map sp_name (sc_peers c)) \<or> (sc_certificate_authority c \<noteq> None \<and> starts_with ''cert:'' name)"

definition LINKS :: string where "LINKS = ''['' @ ''[links]'' @ '']''"

definition validate_link :: "server_config \<Rightarrow> link_config \<Rightarrow> config_error + unit" where
  "validate_link c link =
     (let symmetric = (between link \<noteq> []);
          directed = (receivers link \<noteq> [] \<or> transmitters link \<noteq> []);
          names = (if symmetric then between link else receivers link @ transmitters link)
      in
     and_then (require (symmetric \<noteq> directed)
       (Invalid (''each '' @ LINKS @ '' entry needs either `between` or both `receivers` and `transmitters`''))) (\<lambda>_.
     and_then (require (\<not> (directed \<and> (receivers link = [] \<or> transmitters link = [])))
       (Invalid (''directed '' @ LINKS @ '' entries need non-empty `receivers` and `transmitters`''))) (\<lambda>_.
     and_then (check_all (\<lambda>name. require (known_name c name) (UnknownLinkPeer name)) names) (\<lambda>_.
     and_then (require (\<not> (symmetric \<and> card (set names) < 2))
       (Invalid (''each '' @ LINKS @ '' entry needs `between` to name at least two distinct peers''))) (\<lambda>_.
     and_then (require (\<not> (directed \<and> (\<not> distinct (receivers link) \<or> \<not> distinct (transmitters link))))
       (Invalid (''directed '' @ LINKS @ '' receiver and transmitter lists must not contain duplicates''))) (\<lambda>_.
       require (\<not> (directed \<and> (\<exists>name \<in> set (receivers link). name \<in> set (transmitters link))))
         (Invalid (''directed '' @ LINKS @ '' entries cannot authorize a peer to itself''))))))))"

definition validate_links :: "server_config \<Rightarrow> config_error + unit" where
  "validate_links c =
     (case first_duplicate [] (map sp_name (sc_peers c)) of
        Some name \<Rightarrow> Inl (DuplicatePeerName name)
      | None \<Rightarrow> check_all (validate_link c) (sc_links c))"

section \<open>Server\<close>

definition strip_dot :: "string \<Rightarrow> string" where
  "strip_dot d = (if d \<noteq> [] \<and> last d = CHR ''.'' then butlast d else d)"

definition is_alnum_or_hyphen :: "char \<Rightarrow> bool" where
  "is_alnum_or_hyphen ch \<longleftrightarrow>
     (let n = of_char ch :: nat in 48 \<le> n \<and> n \<le> 57 \<or> 65 \<le> n \<and> n \<le> 90 \<or> 97 \<le> n \<and> n \<le> 122 \<or> n = 45)"

definition valid_label :: "string \<Rightarrow> bool" where
  "valid_label l \<longleftrightarrow> l \<noteq> [] \<and> length l \<le> 63 \<and> hd l \<noteq> CHR ''-'' \<and> last l \<noteq> CHR ''-'' \<and> list_all is_alnum_or_hyphen l"

definition valid_domain :: "string \<Rightarrow> bool" where
  "valid_domain name =
     (let d = strip_dot name in d \<noteq> [] \<and> length d \<le> 253 \<and> list_all valid_label (split_on (\<lambda>ch. ch = CHR ''.'') d))"

definition dns_checks :: "server_config \<Rightarrow> config_error + unit" where
  "dns_checks c =
     (let d = sc_dns c in
     and_then (require (\<not> (dns_upstreams d \<noteq> [] \<and> ic_address (sc_interface c) = None \<and> ic_addresses (sc_interface c) = []))
       (Invalid ''DNS upstreams require at least one configured tunnel interface address'')) (\<lambda>_.
     and_then (require (\<not> list_ex (\<lambda>u. sock_port u = 0) (dns_upstreams d)) (Invalid ''DNS upstream ports must not be zero'')) (\<lambda>_.
     and_then (require (100 \<le> dns_timeout_ms d \<and> dns_timeout_ms d \<le> 30000) (Invalid ''DNS timeout_ms must be between 100 and 30000'')) (\<lambda>_.
     and_then (require (1 \<le> dns_attempts d \<and> dns_attempts d \<le> 5) (Invalid ''DNS attempts must be between 1 and 5'')) (\<lambda>_.
     and_then (require (\<not> dns_cache_entries d > 65536) (Invalid ''DNS cache_entries must not exceed 65536'')) (\<lambda>_.
     and_then (require (\<not> (dns_blocked_domains d \<noteq> [] \<and> dns_upstreams d = []))
       (Invalid ''dns.blocked_domains requires at least one DNS upstream'')) (\<lambda>_.
       require (\<not> list_ex (\<lambda>x. \<not> valid_domain x) (dns_blocked_domains d))
         (Invalid ''dns.blocked_domains must contain valid DNS domain names''))))))))"

definition usage_checks :: "server_config \<Rightarrow> config_error + unit" where
  "usage_checks c =
     (let u = sc_usage_history c in
     and_then (require (\<not> (uh_enabled u \<and> (case uh_path u of None \<Rightarrow> True | Some p \<Rightarrow> p = [])))
       (Invalid ''usage_history.path is required when usage_history.enabled is true'')) (\<lambda>_.
       require (1 \<le> uh_retention_days u \<and> uh_retention_days u \<le> 3650)
         (Invalid ''usage_history.retention_days must be between 1 and 3650'')))"

definition server_validate :: "'n parsers \<Rightarrow> server_config \<Rightarrow> config_error + unit" where
  "server_validate ps c =
     and_then (validate_endpoint (sc_bind c)) (\<lambda>_.
     and_then (require (\<not> (sc_peers c = [] \<and> sc_certificate_authority c = None))
       (Invalid ''server needs `peers` (pinned-key) or `certificate_authority`'')) (\<lambda>_.
     and_then (check_all (server_peer_validate ps) (sc_peers c)) (\<lambda>_.
     and_then (case sc_certificate_authority c of None \<Rightarrow> Inr () | Some ca \<Rightarrow> ca_validate ps ca) (\<lambda>_.
     and_then (validate_links c) (\<lambda>_.
     and_then (interface_validate ps (sc_interface c)) (\<lambda>_.
     and_then (handshake_validate (sc_handshake c)) (\<lambda>_.
     and_then (rekey_validate (sc_rekey c)) (\<lambda>_.
     and_then (forwarding_validate ps (sc_forwarding c)) (\<lambda>_.
     and_then (liveness_validate (sc_liveness c)) (\<lambda>_.
     and_then (dns_checks c) (\<lambda>_. usage_checks c)))))))))))"

definition server_from_toml :: "'n parsers \<Rightarrow> (string \<Rightarrow> string + server_config) \<Rightarrow> string \<Rightarrow> config_error + server_config" where
  "server_from_toml ps toml input =
     and_then (map_err Parse (toml input)) (\<lambda>c. and_then (server_validate ps c) (\<lambda>_. Inr c))"

definition server_obfuscation_key_bytes :: "'n parsers \<Rightarrow> server_config \<Rightarrow> config_error + bytes option" where
  "server_obfuscation_key_bytes ps c = key_bytes ps (sc_obfuscation_key c)"

definition peer_identities :: "'n parsers \<Rightarrow> server_config \<Rightarrow> config_error + 'n peer_identity list" where
  "peer_identities ps c = (if sc_peers c \<noteq> [] then collect_all (server_peer_identity ps) (sc_peers c) else Inr [])"

section \<open>What validation guarantees\<close>

lemma first_duplicate_None: "first_duplicate seen xs = None \<longleftrightarrow> distinct xs \<and> set xs \<inter> set seen = {}"
  by (induction seen xs rule: first_duplicate.induct) auto

lemma check_nets_parse:
  assumes "check_nets ps msg prefixes = Inr ()"
  shows "\<exists>nets. parse_nets ps msg' prefixes = Inr nets \<and> length nets = length prefixes"
proof -
  have "\<exists>n. ok_or (parse_net ps x) (Invalid msg') = Inr n" if "x \<in> set prefixes" for x
    using assms that by (fastforce simp: check_nets_def)
  then have "\<exists>nets. parse_nets ps msg' prefixes = Inr nets" unfolding parse_nets_def by (rule collect_all_total)
  then obtain nets where "parse_nets ps msg' prefixes = Inr nets" ..
  then show ?thesis by (auto simp: parse_nets_def collect_all_Inr dest: arg_cong [of _ _ length])
qed

lemma peer_identity_ok:
  assumes "server_peer_validate ps c = Inr ()"
  shows "\<exists>i. server_peer_identity ps c = Inr i \<and> pi_name i = sp_name c \<and> pi_allowed_ips i \<noteq> []"
proof -
  have c: "sp_allowed_ips c \<noteq> []" "check_nets ps ''peer allowed_ips must contain valid CIDR prefixes'' (sp_allowed_ips c) = Inr ()"
    and auth: "\<exists>a. to_auth_config ps (sp_auth c) = Inr a"
    using assms by (auto simp: server_peer_validate_def)
  from check_nets_parse [OF c(2)] c(1) auth show ?thesis
    by (fastforce simp: server_peer_identity_def)
qed

lemma ca_usable:
  assumes "ca_validate ps ca = Inr ()"
  shows "\<exists>a. ca_to_auth_config ps ca = Inr a" and "\<exists>nets. resolve_allowed_ips ps ca subject_hex = Inr nets"
proof -
  show "\<exists>a. ca_to_auth_config ps ca = Inr a" using assms by (auto simp: ca_validate_def ca_to_auth_config_def)
  let ?m = "''certificate_authority allowed_ips must contain valid CIDR prefixes''"
  have all: "check_nets ps ?m p = Inr ()" if "p \<in> set (ca_default_allowed_ips ca # map snd (ca_peer_overrides ca))" for p
    using assms that by (auto simp: ca_validate_def)
  let ?p = "case map_of (ca_peer_overrides ca) subject_hex of Some p \<Rightarrow> p | None \<Rightarrow> ca_default_allowed_ips ca"
  have "?p \<in> set (ca_default_allowed_ips ca # map snd (ca_peer_overrides ca))"
    by (auto split: option.splits dest!: map_of_SomeD) force
  from check_nets_parse [OF all [OF this]] show "\<exists>nets. resolve_allowed_ips ps ca subject_hex = Inr nets"
    by (auto simp: resolve_allowed_ips_def Let_def)
qed

lemma decode_key32_length: "lawful_hex ps \<Longrightarrow> decode_key32 ps s = Inr k \<Longrightarrow> length k = 32"
  by (fastforce simp: decode_key32_def lawful_hex_def split: if_splits)

lemma decode_certificate_length: "lawful_hex ps \<Longrightarrow> decode_certificate ps s = Inr k \<Longrightarrow> length k = 112"
  by (fastforce simp: decode_certificate_def lawful_hex_def split: if_splits)

fun auth_sizes :: "auth_config \<Rightarrow> bool" where
  "auth_sizes (CfgPinnedKey seed key) \<longleftrightarrow> length seed = 32 \<and> length key = 32"
| "auth_sizes (CfgCertificate seed cert key) \<longleftrightarrow> length seed = 32 \<and> length cert = 112 \<and> length key = 32"

lemma auth_mode_sizes: "lawful_hex ps \<Longrightarrow> to_auth_config ps m = Inr a \<Longrightarrow> auth_sizes a"
  by (cases m) (auto dest: decode_key32_length decode_certificate_length)

lemma validate_link_names:
  assumes "validate_link c l = Inr ()"
  shows "set (between l) \<union> set (receivers l) \<union> set (transmitters l) \<subseteq> {n. known_name c n}"
    and "set (receivers l) \<inter> set (transmitters l) = {}"
    and "between l = [] \<longleftrightarrow> receivers l \<noteq> [] \<and> transmitters l \<noteq> []"
  using assms by (auto simp: validate_link_def Let_def split: if_splits)

lemma identities_ok:
  assumes "\<forall>c \<in> set cs. server_peer_validate ps c = Inr ()"
  shows "\<exists>ids. collect_all (server_peer_identity ps) cs = Inr ids \<and> map pi_name ids = map sp_name cs \<and>
    (\<forall>i \<in> set ids. pi_allowed_ips i \<noteq> [])"
  using assms
proof (induction cs)
  case (Cons c cs)
  then obtain ids where "collect_all (server_peer_identity ps) cs = Inr ids" "map pi_name ids = map sp_name cs"
    "\<forall>i \<in> set ids. pi_allowed_ips i \<noteq> []" by auto
  moreover obtain i where "server_peer_identity ps c = Inr i" "pi_name i = sp_name c" "pi_allowed_ips i \<noteq> []"
    using peer_identity_ok [of ps c] Cons.prems by auto
  ultimately show ?case by (intro exI [of _ "i # ids"]) simp
qed simp

lemma identity_sizes:
  assumes "lawful_hex ps" and "collect_all (server_peer_identity ps) cs = Inr ids" and "i \<in> set ids"
  shows "auth_sizes (pi_auth i)"
proof -
  have "Inr i \<in> set (map (server_peer_identity ps) cs)"
    using assms(3) unfolding assms(2) [unfolded collect_all_Inr] by simp
  then obtain c where "server_peer_identity ps c = Inr i" by auto
  then show ?thesis by (auto simp: server_peer_identity_def dest: auth_mode_sizes [OF assms(1)])
qed

section \<open>Properties\<close>

text \<open>
  C36. What validation of a server configuration guarantees: the identities of all peers can be built, in order, under their own distinct names, each with
  at least one network and keys of the right sizes; a certificate authority gives an authentication configuration, and allowed networks for every
  subject; and a link names only configured peers, or certificate subjects if there is an authority, and lists no peer as both its receiver and its
  transmitter.
\<close>

theorem server_config_sound:
  assumes "lawful_hex ps" and "server_validate ps c = Inr ()"
  shows "(\<exists>ids. peer_identities ps c = Inr ids \<and> map pi_name ids = map sp_name (sc_peers c) \<and> distinct (map pi_name ids) \<and>
      (\<forall>i \<in> set ids. pi_allowed_ips i \<noteq> [] \<and> auth_sizes (pi_auth i))) \<and>
    (\<forall>ca subject_hex. sc_certificate_authority c = Some ca \<longrightarrow>
      is_ok (ca_to_auth_config ps ca) \<and> is_ok (resolve_allowed_ips ps ca subject_hex)) \<and>
    (\<forall>l \<in> set (sc_links c). (\<forall>n \<in> set (between l) \<union> set (receivers l) \<union> set (transmitters l). known_name c n) \<and>
      set (receivers l) \<inter> set (transmitters l) = {})"
proof (intro conjI allI impI ballI)
  have peers: "\<forall>p \<in> set (sc_peers c). server_peer_validate ps p = Inr ()" and links: "validate_links c = Inr ()"
    and ca: "\<And>ca. sc_certificate_authority c = Some ca \<Longrightarrow> ca_validate ps ca = Inr ()"
    using assms(2) by (auto simp: server_validate_def)
  have dist: "distinct (map sp_name (sc_peers c))" and each: "\<And>l. l \<in> set (sc_links c) \<Longrightarrow> validate_link c l = Inr ()"
    using links by (auto simp: validate_links_def first_duplicate_None split: option.splits)
  obtain ids where ids: "collect_all (server_peer_identity ps) (sc_peers c) = Inr ids" "map pi_name ids = map sp_name (sc_peers c)"
    "\<forall>i \<in> set ids. pi_allowed_ips i \<noteq> []" using identities_ok [OF peers] by auto
  moreover have "peer_identities ps c = Inr ids" using ids by (auto simp: peer_identities_def)
  ultimately show "\<exists>ids. peer_identities ps c = Inr ids \<and> map pi_name ids = map sp_name (sc_peers c) \<and> distinct (map pi_name ids) \<and>
      (\<forall>i \<in> set ids. pi_allowed_ips i \<noteq> [] \<and> auth_sizes (pi_auth i))"
    using dist identity_sizes [OF assms(1) ids(1)] by auto
  show "is_ok (ca_to_auth_config ps x)" "is_ok (resolve_allowed_ips ps x s)" if "sc_certificate_authority c = Some x" for x s
    using ca_usable [OF ca [OF that]] by (auto simp: is_ok_iff)
  show "known_name c n" if "l \<in> set (sc_links c)" "n \<in> set (between l) \<union> set (receivers l) \<union> set (transmitters l)" for l n
    using validate_link_names(1) [OF each [OF that(1)]] that(2) by blast
  show "set (receivers l) \<inter> set (transmitters l) = {}" if "l \<in> set (sc_links c)" for l
    by (rule validate_link_names(2) [OF each [OF that]])
qed

definition ex_hex_key :: string where "ex_hex_key = replicate 64 (CHR ''a'')"

definition ex_server_config :: server_config where
  "ex_server_config =
     \<lparr>sc_bind = SockV4 0 51820,
      sc_peers = [\<lparr>sp_name = ''alice'', sp_auth = PinnedKeyMode ex_hex_key ex_hex_key, sp_allowed_ips = [''10.0.0.2/32'']\<rparr>,
                  \<lparr>sp_name = ''bob'', sp_auth = PinnedKeyMode ex_hex_key ex_hex_key, sp_allowed_ips = [''10.0.0.3/32'']\<rparr>],
      sc_links = [\<lparr>between = [], receivers = [''alice''], transmitters = [''bob'']\<rparr>],
      sc_certificate_authority = None,
      sc_interface = \<lparr>ic_name = None, ic_tap_name = None, ic_mtu = None, ic_mode = None, ic_address = None, ic_addresses = [], ic_dns_servers = None\<rparr>,
      sc_handshake = handshake_config_default, sc_rekey = rekey_config_default,
      sc_forwarding = \<lparr>fw_enabled = False, fw_backend = Auto, fw_external_interface = None, fw_tunnel_cidr = None, fw_tunnel_cidr_v6 = None\<rparr>,
      sc_liveness = liveness_default, sc_dns = dns_config_default, sc_limits = \<lparr>rx_mib_per_sec = 0, tx_mib_per_sec = 0\<rparr>,
      sc_usage_history = usage_history_default, sc_obfuscation_key = None\<rparr>"

lemma encode_replicate: "plain_hex_encode (replicate n 170) = replicate (2 * n) (CHR ''a'')"
proof (induction n)
  case (Suc n)
  have "nibble_char 10 = CHR ''a''" by code_simp
  then show ?case using Suc by (simp add: plain_hex_encode_def)
qed (simp add: plain_hex_encode_def)

lemma ex_hex_decodes: "decode_key32 plain_parsers ex_hex_key = Inr (replicate 32 170)"
  using decode_encode [of "replicate 32 170"] unfolding encode_replicate
  by (simp add: decode_key32_def plain_parsers_def ex_hex_key_def ok_or_def)

lemma ex_server_config_valid: "server_validate plain_parsers ex_server_config = Inr ()"
  by (simp add: server_validate_def ex_server_config_def validate_endpoint_def server_peer_validate_def ex_hex_decodes check_nets_def
      validate_links_def validate_link_def known_name_def interface_validate_def dns_server_list_def handshake_validate_def
      handshake_config_default_def rekey_validate_def forwarding_validate_def or_empty_def liveness_validate_def liveness_default_def
      dns_checks_def dns_config_default_def usage_checks_def usage_history_default_def Let_def)
     (simp add: plain_parsers_def)

theorem server_config_sound_witness: "\<exists>ids. peer_identities plain_parsers ex_server_config = Inr ids \<and> map pi_name ids = [''alice'', ''bob'']"
  using server_config_sound [OF plain_parsers_lawful ex_server_config_valid] by (auto simp: ex_server_config_def)

text \<open>
  Validation does not look at the obfuscation key: a configuration with a malformed key passes exactly when it passes without, and the server then fails
  when it reads the key.
\<close>

theorem obfuscation_key_unchecked:
  "server_validate ps (c\<lparr>sc_obfuscation_key := key\<rparr>) = server_validate ps c \<and>
   server_obfuscation_key_bytes ps (c\<lparr>sc_obfuscation_key := Some k\<rparr>) = and_then (decode_key32 ps k) (\<lambda>b. Inr (Some b))"
proof -
  have "validate_links (c\<lparr>sc_obfuscation_key := key\<rparr>) = validate_links c"
  proof -
    have "validate_link (c\<lparr>sc_obfuscation_key := key\<rparr>) = validate_link c"
      by (rule ext) (simp add: validate_link_def known_name_def)
    then show ?thesis by (simp add: validate_links_def split: option.split)
  qed
  then show ?thesis by (simp add: server_validate_def server_obfuscation_key_bytes_def key_bytes_def dns_checks_def usage_checks_def)
qed

text \<open>
  The two lists of a certificate authority treat letter case differently: a revoked subject written in upper case
  is recognised, but an override of allowed networks under the same spelling is ignored, and the subject gets
  the default networks.
\<close>

theorem ca_override_case_sensitive:
  "is_revoked (ca\<lparr>ca_revoked_subjects := [''AB'']\<rparr>) ''ab'' \<and>
   resolve_allowed_ips ps (ca\<lparr>ca_peer_overrides := [(''AB'', nets)]\<rparr>) ''ab'' = resolve_allowed_ips ps (ca\<lparr>ca_peer_overrides := []\<rparr>) ''ab''"
proof
  have "lower_char (CHR ''A'') = CHR ''a''" "lower_char (CHR ''B'') = CHR ''b''"
    "lower_char (CHR ''a'') = CHR ''a''" "lower_char (CHR ''b'') = CHR ''b''" by code_simp+
  then show "is_revoked (ca\<lparr>ca_revoked_subjects := [''AB'']\<rparr>) ''ab''"
    by (simp add: is_revoked_def eq_ignore_ascii_case_def)
qed (simp add: resolve_allowed_ips_def)

end
