(* ===== verification/Token_Bucket.thy ===== *)
theory Token_Bucket
  imports Prelude
begin

text \<open>
  The two token buckets of the program: the transmit bucket of a queued peer
  (\<^verbatim>\<open>RateBucket\<close> in \<^verbatim>\<open>crates/rvpn-transport/src/congestion.rs\<close>) and the receive limiter of an active peer
  (\<^verbatim>\<open>PeerRateLimiter\<close> in \<^verbatim>\<open>apps/rvpn-server/src/state.rs\<close>). They share a contract, stated once as the
  locale \<open>token_bucket\<close>. The 64-bit counters are naturals with the saturation of the code written
  out; the clock reading of a call is its argument.
\<close>

section \<open>Operations\<close>

text \<open>Nanoseconds in a second, the literal of the code.\<close>

definition NANOS :: nat where
  "NANOS = 1000000000"

definition u128_max :: nat where
  "u128_max = 2 ^ 128 - 1"

text \<open>The tokens earned in \<open>elapsed\<close> nanoseconds, and the refilled level, as both buckets compute them.\<close>

definition replenished :: "duration \<Rightarrow> nat \<Rightarrow> nat" where
  "replenished elapsed rate = min (min (elapsed * rate) u128_max div NANOS) u64_max"

definition refill :: "nat \<Rightarrow> nat \<Rightarrow> duration \<Rightarrow> nat \<Rightarrow> nat" where
  "refill cap tok elapsed rate = min cap (sat_add tok (replenished elapsed rate))"

record rate_bucket =
  rb_rate :: nat
  rb_capacity :: nat
  rb_tokens :: nat
  rb_updated :: instant

definition bucket_new :: "nat \<Rightarrow> instant \<Rightarrow> rate_bucket" where
  "bucket_new rate now =
     \<lparr>rb_rate = rate, rb_capacity = max rate 65535, rb_tokens = max rate 65535, rb_updated = now\<rparr>"

definition bucket_set_rate :: "rate_bucket \<Rightarrow> nat \<Rightarrow> instant \<Rightarrow> rate_bucket" where
  "bucket_set_rate b rate now =
     b\<lparr>rb_rate := rate, rb_capacity := max rate 65535, rb_tokens := min (rb_tokens b) (max rate 65535),
       rb_updated := now\<rparr>"

definition div_ceil :: "nat \<Rightarrow> nat \<Rightarrow> nat" where
  "div_ceil a b = (a + b - 1) div b"

definition consume_or_delay :: "rate_bucket \<Rightarrow> nat \<Rightarrow> instant \<Rightarrow> (duration + unit) \<times> rate_bucket" where
  "consume_or_delay b bs now =
     (let tok = refill (rb_capacity b) (rb_tokens b) (now - rb_updated b) (rb_rate b);
          b1 = b\<lparr>rb_tokens := tok, rb_updated := now\<rparr>
      in if tok \<ge> bs then (Inr (), b1\<lparr>rb_tokens := tok - bs\<rparr>)
         else (Inl (min (div_ceil (min ((bs - tok) * NANOS) u128_max) (rb_rate b)) u64_max), b1))"

record peer_rate_limiter =
  rl_rate :: nat
  rl_burst :: nat
  rl_tokens :: nat
  rl_updated :: instant

definition limiter_new :: "nat \<Rightarrow> instant \<Rightarrow> peer_rate_limiter" where
  "limiter_new rate now =
     \<lparr>rl_rate = rate, rl_burst = max rate 65535, rl_tokens = max rate 65535, rl_updated = now\<rparr>"

definition limiter_allow :: "peer_rate_limiter \<Rightarrow> nat \<Rightarrow> instant \<Rightarrow> bool \<times> peer_rate_limiter" where
  "limiter_allow l bs now =
     (if rl_rate l = 0 then (True, l)
      else
        let tok = refill (rl_burst l) (rl_tokens l) (now - rl_updated l) (rl_rate l);
            l1 = l\<lparr>rl_tokens := tok, rl_updated := now\<rparr>
        in if tok < bs then (False, l1) else (True, l1\<lparr>rl_tokens := tok - bs\<rparr>))"

text \<open>The bytes granted in a sequence of requests, each a time and a size.\<close>

fun granted :: "('s \<Rightarrow> nat \<Rightarrow> instant \<Rightarrow> bool \<times> 's) \<Rightarrow> 's \<Rightarrow> (instant \<times> nat) list \<Rightarrow> nat" where
  "granted ask s [] = 0"
| "granted ask s ((now, n) # reqs) =
     (case ask s n now of (ok, s') \<Rightarrow> (if ok then n else 0) + granted ask s' reqs)"

definition bucket_ask :: "rate_bucket \<Rightarrow> nat \<Rightarrow> instant \<Rightarrow> bool \<times> rate_bucket" where
  "bucket_ask b n now = (case consume_or_delay b n now of (r, b') \<Rightarrow> (is_ok r, b'))"

definition bucket_inv :: "rate_bucket \<Rightarrow> bool" where
  "bucket_inv b \<longleftrightarrow> 0 < rb_rate b \<and> rb_rate b \<le> u64_max \<and> rb_capacity b = max (rb_rate b) 65535 \<and> rb_tokens b \<le> rb_capacity b"

definition limiter_inv :: "peer_rate_limiter \<Rightarrow> bool" where
  "limiter_inv l \<longleftrightarrow> 0 < rl_rate l \<and> rl_burst l = max (rl_rate l) 65535 \<and> rl_tokens l \<le> rl_burst l"

section \<open>The contract of a token bucket\<close>

lemma refill_le: "refill cap tok elapsed rate \<le> tok + elapsed * rate div NANOS"
proof -
  have "replenished elapsed rate \<le> elapsed * rate div NANOS"
    by (simp add: replenished_def div_le_mono min.coboundedI1)
  then show ?thesis by (simp add: refill_def sat_add_def)
qed

lemma div_add_le: "a div k + b div k \<le> (a + b) div (k :: nat)"
  by (subst div_add1_eq) simp

lemma sorted_le_last: "sorted (x # xs) \<Longrightarrow> x \<le> last (x # xs)"
  by (cases xs rule: rev_cases) auto

lemma refill_cap [simp]: "refill cap tok elapsed rate \<le> cap" "refill cap tok elapsed rate - n \<le> cap"
  by (simp_all add: refill_def le_diff_conv min.coboundedI1 trans_le_add1)

locale token_bucket =
  fixes ask :: "'s \<Rightarrow> nat \<Rightarrow> instant \<Rightarrow> bool \<times> 's"
    and level :: "'s \<Rightarrow> nat" and stamp :: "'s \<Rightarrow> instant" and rate :: "'s \<Rightarrow> nat" and burst :: "'s \<Rightarrow> nat"
    and inv :: "'s \<Rightarrow> bool"
  assumes ask_level: "inv s \<Longrightarrow> ask s n now = (ok, s') \<Longrightarrow>
      level s' + (if ok then n else 0) \<le> level s + (now - stamp s) * rate s div NANOS"
    and ask_frame: "inv s \<Longrightarrow> ask s n now = (ok, s') \<Longrightarrow> inv s' \<and> stamp s' = now \<and> rate s' = rate s \<and> burst s' = burst s"
    and level_burst: "inv s \<Longrightarrow> level s \<le> burst s"
begin

lemma granted_level:
  "inv s \<Longrightarrow> sorted (stamp s # map fst reqs) \<Longrightarrow>
     granted ask s reqs \<le> level s + (last (stamp s # map fst reqs) - stamp s) * rate s div NANOS"
proof (induction reqs arbitrary: s)
  case (Cons req reqs)
  obtain now n where req: "req = (now, n)" by fastforce
  obtain ok s' where a: "ask s n now = (ok, s')" by fastforce
  note F = ask_frame [OF Cons.prems(1) a] and L = ask_level [OF Cons.prems(1) a]
  have IH: "granted ask s' reqs \<le> level s' + (last (now # map fst reqs) - now) * rate s div NANOS"
    using Cons.IH [of s'] F Cons.prems(2) req by simp
  have le: "stamp s \<le> now" "now \<le> last (now # map fst reqs)"
    using Cons.prems(2) req sorted_le_last [of now "map fst reqs"] by auto
  have "granted ask s (req # reqs) \<le> level s + ((now - stamp s) * rate s div NANOS +
      (last (now # map fst reqs) - now) * rate s div NANOS)"
    using a IH L req by simp
  also have "\<dots> \<le> level s + ((now - stamp s) * rate s + (last (now # map fst reqs) - now) * rate s) div NANOS"
    by (intro add_left_mono div_add_le)
  also have "(now - stamp s) * rate s + (last (now # map fst reqs) - now) * rate s =
      (last (now # map fst reqs) - stamp s) * rate s"
    using le by (simp only: add_mult_distrib [symmetric]) simp
  finally show ?case using req by simp
qed simp

lemma granted_burst:
  "inv s \<Longrightarrow> sorted (stamp s # map fst reqs) \<Longrightarrow>
     granted ask s reqs \<le> burst s + (last (stamp s # map fst reqs) - stamp s) * rate s div NANOS"
  using granted_level [of s reqs] level_burst [of s] by linarith

end

interpretation tb: token_bucket bucket_ask rb_tokens rb_updated rb_rate rb_capacity bucket_inv
proof
  fix s n now ok s' assume a: "bucket_inv s" "bucket_ask s n now = (ok, s')"
  let ?t = "refill (rb_capacity s) (rb_tokens s) (now - rb_updated s) (rb_rate s)"
  show "rb_tokens s' + (if ok then n else 0) \<le> rb_tokens s + (now - rb_updated s) * rb_rate s div NANOS"
    using a(2) refill_le [of "rb_capacity s" "rb_tokens s" "now - rb_updated s" "rb_rate s"]
    by (auto simp: bucket_ask_def consume_or_delay_def Let_def split: if_splits)
  show "bucket_inv s' \<and> rb_updated s' = now \<and> rb_rate s' = rb_rate s \<and> rb_capacity s' = rb_capacity s"
    using a by (auto simp: bucket_ask_def consume_or_delay_def bucket_inv_def Let_def split: if_splits)
qed (simp add: bucket_inv_def)

interpretation rl: token_bucket limiter_allow rl_tokens rl_updated rl_rate rl_burst limiter_inv
proof
  fix s n now ok s' assume a: "limiter_inv s" "limiter_allow s n now = (ok, s')"
  show "rl_tokens s' + (if ok then n else 0) \<le> rl_tokens s + (now - rl_updated s) * rl_rate s div NANOS"
    using a refill_le [of "rl_burst s" "rl_tokens s" "now - rl_updated s" "rl_rate s"]
    by (auto simp: limiter_allow_def limiter_inv_def Let_def split: if_splits)
  show "limiter_inv s' \<and> rl_updated s' = now \<and> rl_rate s' = rl_rate s \<and> rl_burst s' = rl_burst s"
    using a by (auto simp: limiter_allow_def limiter_inv_def Let_def split: if_splits)
qed (simp add: limiter_inv_def)

section \<open>Waiting for tokens\<close>

lemma div_ceil_times: "0 < b \<Longrightarrow> a \<le> div_ceil a b * b"
proof -
  assume b: "0 < b"
  define q m where "q = (a + b - 1) div b * b" and "m = (a + b - 1) mod b"
  have "a + b - 1 = q + m" by (simp add: q_def m_def)
  moreover have "m < b" using b by (simp add: m_def)
  ultimately have "a \<le> q" by linarith
  then show ?thesis by (simp add: div_ceil_def q_def)
qed

lemma div_ceil_le: "0 < b \<Longrightarrow> a \<le> k * b \<Longrightarrow> div_ceil a b \<le> k"
  by (simp add: div_ceil_def less_mult_imp_div_less flip: less_Suc_eq_le)

lemma NANOS_pos [simp]: "0 < NANOS"
  by (simp add: NANOS_def)

lemma replenished_ge:
  assumes "m * NANOS \<le> elapsed * rate" "m \<le> u64_max"
  shows "m \<le> replenished elapsed rate"
proof -
  have "m * NANOS \<le> u64_max * NANOS" using assms(2) by simp
  also have "\<dots> \<le> u128_max" by (simp add: u64_max_def u128_max_def NANOS_def)
  finally have "m * NANOS \<le> min (elapsed * rate) u128_max" using assms(1) by simp
  then have "m * NANOS div NANOS \<le> min (elapsed * rate) u128_max div NANOS" by (rule div_le_mono)
  then show ?thesis using assms(2) by (simp add: replenished_def)
qed

text \<open>The delay a bucket asks for is never cut off by saturation.\<close>

lemma delay_exact:
  assumes "bucket_inv b" "bs \<le> rb_capacity b"
  shows "min (div_ceil (min ((bs - tok) * NANOS) u128_max) (rb_rate b)) u64_max = div_ceil ((bs - tok) * NANOS) (rb_rate b)"
proof -
  have r: "0 < rb_rate b" "rb_rate b \<le> u64_max" "rb_capacity b = max (rb_rate b) 65535"
    using assms(1) by (auto simp: bucket_inv_def)
  have "bs - tok \<le> 65535 * rb_rate b" using assms(2) r by (auto simp: max_def split: if_splits)
  then have "(bs - tok) * NANOS \<le> (65535 * NANOS) * rb_rate b"
    by (metis mult.assoc mult.commute mult_le_mono1)
  then have "div_ceil ((bs - tok) * NANOS) (rb_rate b) \<le> 65535 * NANOS" using r(1) by (intro div_ceil_le) auto
  also have "\<dots> \<le> u64_max" by (simp add: NANOS_def u64_max_def)
  finally have d: "div_ceil ((bs - tok) * NANOS) (rb_rate b) \<le> u64_max" .
  have "bs - tok \<le> u64_max" using assms(2) r by (auto simp: max_def u64_max_def split: if_splits)
  then have "(bs - tok) * NANOS \<le> u64_max * NANOS" by simp
  also have "\<dots> \<le> u128_max" by (simp add: u64_max_def u128_max_def NANOS_def)
  finally show ?thesis using d by simp
qed

section \<open>Properties\<close>

text \<open>
  The transmit bucket of a peer never grants more than its burst capacity plus the configured
  rate over the elapsed time, whatever sizes are asked for at whatever times.
\<close>

theorem rate_bucket_conforms:
  assumes "bucket_inv b" "sorted (rb_updated b # map fst reqs)"
  shows "granted bucket_ask b reqs \<le>
    rb_capacity b + (last (rb_updated b # map fst reqs) - rb_updated b) * rb_rate b div NANOS"
  using assms by (rule tb.granted_burst)

theorem rate_bucket_conforms_witness:
  "granted bucket_ask (bucket_new 1000 0) [(0, 65000), (5, 600), (2000000000, 1500)] \<le> 67535"
proof -
  have "bucket_inv (bucket_new 1000 0)" by (simp add: bucket_inv_def bucket_new_def u64_max_def)
  from rate_bucket_conforms [OF this, of "[(0, 65000), (5, 600), (2000000000, 1500)]"] show ?thesis
    by (simp add: bucket_new_def NANOS_def)
qed

text \<open>
  A receive limiter with a rate never admits more than its burst plus the configured rate
  over the elapsed time.
\<close>

theorem rate_limiter_conforms:
  assumes "limiter_inv l" "sorted (rl_updated l # map fst reqs)"
  shows "granted limiter_allow l reqs \<le>
    rl_burst l + (last (rl_updated l # map fst reqs) - rl_updated l) * rl_rate l div NANOS"
  using assms by (rule rl.granted_burst)

theorem rate_limiter_conforms_witness:
  "granted limiter_allow (limiter_new 1000 0) [(0, 65000), (5, 600), (2000000000, 1500)] \<le> 67535"
proof -
  have "limiter_inv (limiter_new 1000 0)" by (simp add: limiter_inv_def limiter_new_def)
  from rate_limiter_conforms [OF this, of "[(0, 65000), (5, 600), (2000000000, 1500)]"] show ?thesis
    by (simp add: limiter_new_def NANOS_def)
qed

text \<open>
  When the transmit bucket asks a packet to wait, waiting that long (or longer) is enough: the
  same request is then granted.
\<close>

theorem rate_bucket_delay_suffices:
  assumes "bucket_inv b" "bs \<le> rb_capacity b" "consume_or_delay b bs now = (Inl delay, b')" "now + delay \<le> later"
  shows "fst (consume_or_delay b' bs later) = Inr ()"
proof -
  define tok where "tok = refill (rb_capacity b) (rb_tokens b) (now - rb_updated b) (rb_rate b)"
  have b': "b' = b\<lparr>rb_tokens := tok, rb_updated := now\<rparr>" "tok < bs"
    and d: "delay = div_ceil ((bs - tok) * NANOS) (rb_rate b)"
    using assms(3) delay_exact [OF assms(1,2)]
    by (auto simp: consume_or_delay_def Let_def tok_def split: if_splits)
  have r: "0 < rb_rate b" "bs \<le> u64_max"
    using assms(1,2) by (auto simp: bucket_inv_def max_def u64_max_def split: if_splits)
  have "(bs - tok) * NANOS \<le> delay * rb_rate b" unfolding d using r(1) by (rule div_ceil_times)
  also have "\<dots> \<le> (later - now) * rb_rate b" using assms(4) by (intro mult_le_mono1) linarith
  finally have "bs - tok \<le> replenished (later - now) (rb_rate b)" using r(2) by (intro replenished_ge) auto
  then have "bs \<le> refill (rb_capacity b) tok (later - now) (rb_rate b)"
    using assms(2) r(2) by (simp add: refill_def sat_add_def)
  then show ?thesis using b' by (simp add: consume_or_delay_def Let_def)
qed

theorem rate_bucket_delay_suffices_witness:
  "fst (consume_or_delay (snd (consume_or_delay ((bucket_new 1000 0)\<lparr>rb_tokens := 0\<rparr>) 1500 0)) 1500 1500000000) = Inr ()"
proof -
  let ?b = "(bucket_new 1000 0)\<lparr>rb_tokens := 0\<rparr>"
  have "bucket_inv ?b" by (simp add: bucket_inv_def bucket_new_def u64_max_def)
  moreover have "consume_or_delay ?b 1500 0 = (Inl 1500000000, snd (consume_or_delay ?b 1500 0))"
    by (simp add: consume_or_delay_def bucket_new_def refill_def replenished_def sat_add_def div_ceil_def
        u64_max_def u128_max_def NANOS_def)
  ultimately show ?thesis
    using rate_bucket_delay_suffices [of ?b 1500 0 1500000000 "snd (consume_or_delay ?b 1500 0)" 1500000000]
    by (simp add: bucket_new_def)
qed

text \<open>
  The limiter forgets fractions of a token: once it is empty, requests that arrive at intervals
  in which less than one byte is earned are all refused, for however long they continue, because
  each refusal moves the refill time forward.
\<close>

theorem rate_limiter_starves:
  assumes "limiter_inv l" "rl_tokens l = 0" "d * rl_rate l < NANOS" "0 < bs"
  shows "granted limiter_allow l (map (\<lambda>i. (rl_updated l + (i + 1) * d, bs)) [0..<n]) = 0"
proof -
  have "granted limiter_allow s (map (\<lambda>i. (t + (i + 1) * d, bs)) [0..<n]) = 0"
    if "limiter_inv s" "rl_tokens s = 0" "rl_rate s = rl_rate l" "rl_updated s = t" for s t
    using that
  proof (induction n arbitrary: s t)
    case (Suc n)
    let ?s = "s\<lparr>rl_tokens := 0, rl_updated := t + d\<rparr>"
    have "replenished d (rl_rate s) = 0" using assms(3) Suc.prems(3) by (simp add: replenished_def)
    then have step: "limiter_allow s bs (t + d) = (False, ?s)"
      using Suc.prems assms(4) by (simp add: limiter_allow_def limiter_inv_def refill_def sat_add_def)
    have "granted limiter_allow ?s (map (\<lambda>i. ((t + d) + (i + 1) * d, bs)) [0..<n]) = 0"
      using Suc.prems by (intro Suc.IH) (auto simp: limiter_inv_def)
    moreover have "map (\<lambda>i. (t + (i + 1) * d, bs)) [0..<Suc n] = (t + d, bs) # map (\<lambda>i. ((t + d) + (i + 1) * d, bs)) [0..<n]"
      by (simp add: map_upt_Suc add.assoc del: upt_Suc)
    ultimately show ?case using step by simp
  qed simp
  from this [OF assms(1,2) refl refl] show ?thesis .
qed

theorem rate_limiter_starves_witness:
  "granted limiter_allow ((limiter_new 1000 0)\<lparr>rl_tokens := 0\<rparr>) (map (\<lambda>i. (0 + (i + 1) * 999999, 1)) [0..<1000000]) = 0"
  using rate_limiter_starves [of "(limiter_new 1000 0)\<lparr>rl_tokens := 0\<rparr>" 999999 1 1000000]
  by (simp add: limiter_inv_def limiter_new_def NANOS_def)

end
