(* ===== verification/Packet.thy ===== *)
theory Packet
  imports Core_Types
begin

text \<open>
  The outer packet of \<^verbatim>\<open>crates/rvpn-protocol/src/packet.rs\<close>: a 30-byte header (version, kind,
  key phase, sequence number, session identifier) before the payload.
\<close>

section \<open>Header and packet\<close>

definition HEADER_LEN :: nat where
  "HEADER_LEN = 1 + 1 + 4 + 8 + SESSION_ID_LENGTH"

datatype packet_kind = Handshake | Data | Rekey | Close | DataTap | Keepalive

datatype protocol_error =
    TruncatedHeader
  | UnsupportedVersion u8 u8
  | UnknownPacketKind u8
  | InvalidHandshake

fun kind_byte :: "packet_kind \<Rightarrow> u8" where
  "kind_byte Handshake = 1"
| "kind_byte Data = 2"
| "kind_byte Rekey = 3"
| "kind_byte Close = 4"
| "kind_byte DataTap = 5"
| "kind_byte Keepalive = 6"

definition kind_try_from :: "u8 \<Rightarrow> protocol_error + packet_kind" where
  "kind_try_from v =
     (if v = 1 then Inr Handshake
      else if v = 2 then Inr Data
      else if v = 3 then Inr Rekey
      else if v = 4 then Inr Close
      else if v = 5 then Inr DataTap
      else if v = 6 then Inr Keepalive
      else Inl (UnknownPacketKind v))"

record header =
  kind :: packet_kind
  key_phase :: u32
  sequence :: u64
  session_id :: session_id

definition header_encode :: "header \<Rightarrow> bytes" where
  "header_encode h =
     [encoded PROTOCOL_VERSION, kind_byte (kind h)] @ to_be 4 (key_phase h) @
     to_be 8 (sequence h) @ into_bytes (session_id h)"

record packet =
  header :: header
  payload :: bytes

definition packet_encode :: "packet \<Rightarrow> bytes" where
  "packet_encode p = header_encode (header p) @ payload p"

text \<open>
  \<^verbatim>\<open>Packet::decode\<close>. The version is split only to report it; \<^verbatim>\<open>ProtocolVersion::new\<close> is called with
  the minor digits of the current version, so that its assertion cannot fail.
\<close>

definition packet_decode :: "bytes \<Rightarrow> protocol_error + packet" where
  "packet_decode input =
     (if length input < HEADER_LEN then Inl TruncatedHeader
      else
        let version = the (version_new (input ! 0) (minor_digits PROTOCOL_VERSION)) in
        if encoded version \<noteq> encoded PROTOCOL_VERSION
        then Inl (UnsupportedVersion (major version) (minor version))
        else and_then (kind_try_from (input ! 1)) (\<lambda>k.
          Inr \<lparr>header = \<lparr>kind = k, key_phase = from_be (slice 2 6 input),
                sequence = from_be (slice 6 14 input), session_id = SessionId (slice 14 30 input)\<rparr>,
               payload = drop 30 input\<rparr>))"

definition wf_header :: "header \<Rightarrow> bool" where
  "wf_header h \<longleftrightarrow> wf_session_id (session_id h)"

section \<open>Facts\<close>

lemma HEADER_LEN_eq [simp]: "HEADER_LEN = 30"
  by (simp add: HEADER_LEN_def SESSION_ID_LENGTH_def)

lemma kind_try_from_byte [simp]: "kind_try_from (kind_byte k) = Inr k"
  by (cases k) (simp_all add: kind_try_from_def)

lemma kind_try_from_Inr [simp]: "kind_try_from v = Inr k \<longleftrightarrow> v = kind_byte k"
  by (cases k) (auto simp: kind_try_from_def)

lemma length_header_encode [simp, wire_len]: "wf_header h \<Longrightarrow> length (header_encode h) = 30"
  by (simp add: header_encode_def wf_header_def)

lemma length_packet_encode: "wf_header (header pkt) \<Longrightarrow> length (packet_encode pkt) = 30 + length (payload pkt)"
  by (simp add: packet_encode_def header_encode_def wf_header_def)

lemma header_encode_inj:
  assumes "header_encode a = header_encode b"
  shows "a = b"
proof -
  have ph: "to_be 4 (key_phase a) = to_be 4 (key_phase b)"
    and sq: "to_be 8 (sequence a) = to_be 8 (sequence b)"
    and si: "into_bytes (session_id a) = into_bytes (session_id b)"
    and kd: "kind_byte (kind a) = kind_byte (kind b)"
    using assms by (simp_all add: header_encode_def)
  have "key_phase a = key_phase b" using arg_cong [OF ph, of "from_be :: bytes \<Rightarrow> u32"] by simp
  moreover have "sequence a = sequence b" using arg_cong [OF sq, of "from_be :: bytes \<Rightarrow> u64"] by simp
  moreover have "kind a = kind b" using kd by (metis kind_try_from_byte sum.inject(2))
  moreover have "session_id a = session_id b" using si by (rule session_id.expand)
  ultimately show ?thesis by simp
qed

lemma version_ne_31:
  "version_new v 1 = Some \<lparr>encoded = v, minor_digits = 1, major = v div 10, minor = v mod 10\<rparr>"
  by (simp add: version_new_def version_scale_def)

lemma packet_decode_encode:
  assumes "wf_header (header p)"
  shows "packet_decode (packet_encode p) = Inr p"
proof -
  define h where "h = header p"
  define bs where "bs = packet_encode p"
  have b: "bs = [31, kind_byte (kind h)] @ to_be 4 (key_phase h) @ to_be 8 (sequence h) @
      into_bytes (session_id h) @ payload p"
    by (simp add: bs_def packet_encode_def header_encode_def h_def)
  have len: "length (into_bytes (session_id h)) = 16" using assms by (simp add: wf_header_def h_def)
  have "slice 2 6 bs = to_be 4 (key_phase h)" "slice 6 14 bs = to_be 8 (sequence h)"
    "slice 14 30 bs = into_bytes (session_id h)" "drop 30 bs = payload p"
    "bs ! 0 = 31" "bs ! 1 = kind_byte (kind h)" "\<not> length bs < 30"
    using len by (simp_all add: b slice_def)
  then have "packet_decode bs = Inr \<lparr>header = h, payload = payload p\<rparr>"
    by (simp add: packet_decode_def version_ne_31)
  then show ?thesis by (simp add: bs_def h_def)
qed

lemma packet_encode_decode:
  assumes "packet_decode bs = Inr p"
  shows "packet_encode p = bs" and "wf_header (header p)"
proof -
  from assms have len: "30 \<le> length bs" and b0: "bs ! 0 = 31"
    and b1: "bs ! 1 = kind_byte (kind (header p))"
    and p: "key_phase (header p) = from_be (slice 2 6 bs)" "sequence (header p) = from_be (slice 6 14 bs)"
      "session_id (header p) = SessionId (slice 14 30 bs)" "payload p = drop 30 bs"
    by (auto simp: packet_decode_def version_ne_31 Let_def split: if_splits)
  have l: "length (slice 2 6 bs) = 4" "length (slice 6 14 bs) = 8" "length (slice 14 30 bs) = 16"
    using len by (simp_all add: length_slice)
  have "to_be 4 (from_be (slice 2 6 bs) :: u32) = slice 2 6 bs"
    "to_be 8 (from_be (slice 6 14 bs) :: u64) = slice 6 14 bs"
    using to_be_from_be [of "slice 2 6 bs", where 'a = 32] to_be_from_be [of "slice 6 14 bs", where 'a = 64] l
    by simp_all
  moreover have "bs = [bs ! 0, bs ! 1] @ slice 2 6 bs @ slice 6 14 bs @ slice 14 30 bs @ drop 30 bs"
    using len drop_1_2 [of bs] by simp
  ultimately show "packet_encode p = bs"
    using b0 b1 p by (simp add: packet_encode_def header_encode_def)
  show "wf_header (header p)" using p l by (simp add: wf_header_def)
qed

section \<open>Properties\<close>

text \<open>
  A byte string decodes to a packet exactly when it is the encoding of that packet: decoding
  inverts encoding, and every accepted datagram is in the one canonical form.
\<close>

theorem packet_wire_format:
  "packet_decode bs = Inr p \<longleftrightarrow> wf_header (header p) \<and> bs = packet_encode p"
  using packet_decode_encode [of p] packet_encode_decode [of bs p] by blast

end
