(* ===== verification/Handshake.thy ===== *)
theory Handshake
  imports Packet Crypto
begin

text \<open>
  The handshake messages of \<^verbatim>\<open>crates/rvpn-protocol/src/handshake.rs\<close>: proofs, the four messages and
  their wire format, the mac1 tag of an initiation, the transcript whose prefixes are signed and
  hashed, and the small state machine over sent and received messages. Fixed-size arrays are byte
  lists; \<open>wf_message\<close> states the lengths their Rust types fix.
\<close>

section \<open>Lengths and domains\<close>

definition PROOF_BODY_LEN :: nat where "PROOF_BODY_LEN = 1 + 112 + 64"
definition SEALED_PROOF_LEN :: nat where "SEALED_PROOF_LEN = PROOF_BODY_LEN + 16"
definition INITIATION_LEN :: nat where "INITIATION_LEN = 1 + 32 + 32 + 1 + 32 + 16"
definition RESPONSE_PUBLIC_LEN :: nat where "RESPONSE_PUBLIC_LEN = 1 + 32 + 32 + SESSION_ID_LENGTH"
definition RESPONSE_LEN :: nat where "RESPONSE_LEN = RESPONSE_PUBLIC_LEN + SEALED_PROOF_LEN"
definition FINISH_LEN :: nat where "FINISH_LEN = 1 + SEALED_PROOF_LEN"
definition COOKIE_REPLY_LEN :: nat where "COOKIE_REPLY_LEN = 1 + 32"

definition SERVER_AUTH_DOMAIN :: bytes where "SERVER_AUTH_DOMAIN = ascii ''/handshake/server''"
definition CLIENT_AUTH_DOMAIN :: bytes where "CLIENT_AUTH_DOMAIN = ascii ''/handshake/client''"
definition TRANSCRIPT_DOMAIN :: bytes where "TRANSCRIPT_DOMAIN = ascii ''/handshake/transcript''"

section \<open>Proofs of identity\<close>

datatype auth_proof =
    ProofPinnedKey bytes
  | ProofCertificate bytes bytes

fun proof_tag :: "auth_proof \<Rightarrow> u8" where
  "proof_tag (ProofPinnedKey sig) = 0"
| "proof_tag (ProofCertificate cert sig) = 1"

fun encode_body :: "auth_proof \<Rightarrow> bytes" where
  "encode_body (ProofPinnedKey sig) = proof_tag (ProofPinnedKey sig) # sig @ replicate 112 0"
| "encode_body (ProofCertificate cert sig) = proof_tag (ProofCertificate cert sig) # cert @ sig"

definition decode_body :: "bytes \<Rightarrow> protocol_error + auth_proof" where
  "decode_body bs =
     (if bs ! 0 = 0 then Inr (ProofPinnedKey (slice 1 65 bs))
      else if bs ! 0 = 1 then Inr (ProofCertificate (slice 1 113 bs) (slice 113 177 bs))
      else Inl InvalidHandshake)"

fun wf_proof :: "auth_proof \<Rightarrow> bool" where
  "wf_proof (ProofPinnedKey sig) \<longleftrightarrow> length sig = 64"
| "wf_proof (ProofCertificate cert sig) \<longleftrightarrow> length cert = 112 \<and> length sig = 64"

section \<open>Messages\<close>

datatype handshake_message =
    Initiation bytes bytes "bytes option" bytes
  | Response bytes bytes session_id bytes
  | Finish bytes
  | CookieReply bytes

definition mac1_input :: "bytes \<Rightarrow> bytes \<Rightarrow> bytes option \<Rightarrow> bytes" where
  "mac1_input public_key random cookie =
     1 # public_key @ random @
     (case cookie of Some c \<Rightarrow> 1 # c | None \<Rightarrow> 0 # replicate 32 0)"

definition compute_mac1 :: "prims \<Rightarrow> bytes \<Rightarrow> bytes \<Rightarrow> bytes \<Rightarrow> bytes option \<Rightarrow> bytes" where
  "compute_mac1 p key public_key random cookie = mac1_compute p key (mac1_input public_key random cookie)"

fun verify_mac1 :: "prims \<Rightarrow> handshake_message \<Rightarrow> bytes \<Rightarrow> bool" where
  "verify_mac1 p (Initiation public_key random cookie mac1) key =
     mac1_verify p key (mac1_input public_key random cookie) mac1"
| "verify_mac1 p _ key = False"

definition response_public_bytes :: "bytes \<Rightarrow> bytes \<Rightarrow> session_id \<Rightarrow> bytes" where
  "response_public_bytes public_key random sid = 2 # public_key @ random @ into_bytes sid"

fun message_encode :: "handshake_message \<Rightarrow> bytes" where
  "message_encode (Initiation public_key random cookie mac1) =
     1 # public_key @ random @
     (case cookie of Some c \<Rightarrow> 1 # c | None \<Rightarrow> 0 # replicate 32 0) @ mac1"
| "message_encode (Response public_key random sid sealed_proof) =
     2 # public_key @ random @ into_bytes sid @ sealed_proof"
| "message_encode (Finish sealed_proof) = 3 # sealed_proof"
| "message_encode (CookieReply cookie) = 4 # cookie"

definition message_decode :: "bytes \<Rightarrow> protocol_error + handshake_message" where
  "message_decode input =
     (if input = [] then Inl InvalidHandshake
      else if input ! 0 = 1 then
        (if length input \<noteq> INITIATION_LEN then Inl InvalidHandshake
         else Inr (Initiation (slice 1 33 input) (slice 33 65 input)
                (if input ! 65 = 1 then Some (slice 66 98 input) else None) (slice 98 114 input)))
      else if input ! 0 = 2 then
        (if length input \<noteq> RESPONSE_LEN then Inl InvalidHandshake
         else Inr (Response (slice 1 33 input) (slice 33 65 input) (SessionId (slice 65 81 input))
                (slice 81 274 input)))
      else if input ! 0 = 3 then
        (if length input \<noteq> FINISH_LEN then Inl InvalidHandshake
         else Inr (Finish (slice 1 194 input)))
      else if input ! 0 = 4 then
        (if length input \<noteq> COOKIE_REPLY_LEN then Inl InvalidHandshake
         else Inr (CookieReply (slice 1 33 input)))
      else Inl InvalidHandshake)"

fun wf_message :: "handshake_message \<Rightarrow> bool" where
  "wf_message (Initiation public_key random cookie mac1) \<longleftrightarrow>
     length public_key = 32 \<and> length random = 32 \<and> pred_option (\<lambda>c. length c = 32) cookie \<and> length mac1 = 16"
| "wf_message (Response public_key random sid sealed_proof) \<longleftrightarrow>
     length public_key = 32 \<and> length random = 32 \<and> wf_session_id sid \<and> length sealed_proof = 193"
| "wf_message (Finish sealed_proof) \<longleftrightarrow> length sealed_proof = 193"
| "wf_message (CookieReply cookie) \<longleftrightarrow> length cookie = 32"

fun is_initiation :: "handshake_message \<Rightarrow> bool" where
  "is_initiation (Initiation _ _ _ _) = True"
| "is_initiation _ = False"

fun is_response :: "handshake_message \<Rightarrow> bool" where
  "is_response (Response _ _ _ _) = True"
| "is_response _ = False"

fun is_finish :: "handshake_message \<Rightarrow> bool" where
  "is_finish (Finish _) = True"
| "is_finish _ = False"

section \<open>Transcript\<close>

record handshake_transcript =
  tr_initiation :: handshake_message
  tr_response :: "handshake_message option"

definition transcript_new :: "handshake_message \<Rightarrow> protocol_error + handshake_transcript" where
  "transcript_new ini =
     (if is_initiation ini then Inr \<lparr>tr_initiation = ini, tr_response = None\<rparr> else Inl InvalidHandshake)"

definition join :: "bytes \<Rightarrow> bytes list \<Rightarrow> bytes" where
  "join prefix parts = fold (\<lambda>part output. output @ part) parts prefix"

definition server_authentication_input ::
  "handshake_transcript \<Rightarrow> bytes \<Rightarrow> bytes \<Rightarrow> session_id \<Rightarrow> protocol_error + bytes" where
  "server_authentication_input t public_key random sid =
     Inr (join (domain SERVER_AUTH_DOMAIN)
       [message_encode (tr_initiation t), response_public_bytes public_key random sid])"

definition set_response ::
  "handshake_transcript \<Rightarrow> handshake_message \<Rightarrow> protocol_error + handshake_transcript" where
  "set_response t response =
     (if is_response response then Inr (t\<lparr>tr_response := Some response\<rparr>) else Inl InvalidHandshake)"

definition client_authentication_input :: "handshake_transcript \<Rightarrow> protocol_error + bytes" where
  "client_authentication_input t =
     (case tr_response t of
        None \<Rightarrow> Inl InvalidHandshake
      | Some response \<Rightarrow>
          Inr (join (domain CLIENT_AUTH_DOMAIN) [message_encode (tr_initiation t), message_encode response]))"

definition final_bytes :: "handshake_transcript \<Rightarrow> handshake_message \<Rightarrow> protocol_error + bytes" where
  "final_bytes t fin =
     (if \<not> is_finish fin then Inl InvalidHandshake
      else case tr_response t of
        None \<Rightarrow> Inl InvalidHandshake
      | Some response \<Rightarrow>
          Inr (join (domain TRANSCRIPT_DOMAIN)
            [message_encode (tr_initiation t), message_encode response, message_encode fin]))"

section \<open>Message order\<close>

datatype handshake_role = RoleInitiator | RoleResponder

datatype handshake_state = New handshake_role | AwaitingResponse | AwaitingFinish | Established

fun on_send :: "handshake_state \<Rightarrow> handshake_message \<Rightarrow> protocol_error + handshake_state" where
  "on_send (New RoleInitiator) (Initiation _ _ _ _) = Inr AwaitingResponse"
| "on_send AwaitingFinish (Response _ _ _ _) = Inr AwaitingFinish"
| "on_send AwaitingFinish (Finish _) = Inr Established"
| "on_send _ _ = Inl InvalidHandshake"

fun on_receive :: "handshake_state \<Rightarrow> handshake_message \<Rightarrow> protocol_error + handshake_state" where
  "on_receive (New RoleResponder) (Initiation _ _ _ _) = Inr AwaitingFinish"
| "on_receive AwaitingResponse (Response _ _ _ _) = Inr AwaitingFinish"
| "on_receive AwaitingFinish (Finish _) = Inr Established"
| "on_receive _ _ = Inl InvalidHandshake"

text \<open>A run feeds sent and received messages to the machine, which keeps its state on an error.\<close>

datatype handshake_event = Sent handshake_message | Received handshake_message

fun hs_step :: "handshake_state \<Rightarrow> handshake_event \<Rightarrow> protocol_error + handshake_state" where
  "hs_step s (Sent m) = on_send s m"
| "hs_step s (Received m) = on_receive s m"

fun hs_run :: "handshake_state \<Rightarrow> handshake_event list \<Rightarrow> handshake_state \<times> handshake_event list" where
  "hs_run s [] = (s, [])"
| "hs_run s (e # es) =
     (case hs_step s e of
        Inl _ \<Rightarrow> hs_run s es
      | Inr s' \<Rightarrow> (case hs_run s' es of (t, acc) \<Rightarrow> (t, e # acc)))"

section \<open>Facts\<close>

lemma handshake_lens [simp]:
  "PROOF_BODY_LEN = 177" "SEALED_PROOF_LEN = 193" "INITIATION_LEN = 114" "RESPONSE_PUBLIC_LEN = 81"
  "RESPONSE_LEN = 274" "FINISH_LEN = 194" "COOKIE_REPLY_LEN = 33"
  by (simp_all add: PROOF_BODY_LEN_def SEALED_PROOF_LEN_def INITIATION_LEN_def RESPONSE_PUBLIC_LEN_def
      RESPONSE_LEN_def FINISH_LEN_def COOKIE_REPLY_LEN_def SESSION_ID_LENGTH_def)

lemma length_encode_body [simp, wire_len]: "wf_proof pr \<Longrightarrow> length (encode_body pr) = 177"
  by (cases pr) auto

lemma decode_encode_body: "wf_proof pr \<Longrightarrow> decode_body (encode_body pr) = Inr pr"
  by (cases pr) (auto simp: decode_body_def slice_def)

lemma wf_decode_body: "length bs = 177 \<Longrightarrow> decode_body bs = Inr pr \<Longrightarrow> wf_proof pr"
  by (auto simp: decode_body_def length_slice split: if_splits)

lemma length_message_encode [wire_len]:
  "wf_message m \<Longrightarrow> length (message_encode m) =
     (case m of Initiation _ _ _ _ \<Rightarrow> INITIATION_LEN | Response _ _ _ _ \<Rightarrow> RESPONSE_LEN
      | Finish _ \<Rightarrow> FINISH_LEN | CookieReply _ \<Rightarrow> COOKIE_REPLY_LEN)"
  by (cases m) (auto split: option.splits)

lemma message_decode_encode:
  assumes "wf_message m"
  shows "message_decode (message_encode m) = Inr m"
proof (cases m)
  case (Initiation pk r c mac)
  with assms show ?thesis
    by (cases c) (auto simp: message_decode_def slice_def nth_append)
next
  case (Response pk r sid pf)
  then have "length (into_bytes sid) = 16" using assms by simp
  with Response assms show ?thesis
    by (auto simp: message_decode_def slice_def)
qed (use assms in \<open>auto simp: message_decode_def slice_def\<close>)

text \<open>An initiation decodes without a cookie whenever its flag octet is not 1.\<close>

definition canonical :: "bytes \<Rightarrow> bool" where
  "canonical bs \<longleftrightarrow> (bs ! 0 = 1 \<longrightarrow> bs ! 65 = 1 \<or> bs ! 65 = 0 \<and> slice 66 98 bs = replicate 32 0)"

lemma slice_full [simp]: "length xs = j \<Longrightarrow> slice i j xs = drop i xs"
  by (simp add: slice_def)

lemma Cons_drop: "i < length xs \<Longrightarrow> xs ! i # drop (Suc i) xs = drop i xs"
  by (rule Cons_nth_drop_Suc)

lemma message_encode_decode:
  assumes "message_decode bs = Inr m"
  shows "wf_message m" "canonical bs \<Longrightarrow> message_encode m = bs"
proof -
  have 0: "bs \<noteq> []" using assms by (auto simp: message_decode_def)
  then have c0: "bs ! 0 # drop 1 bs = bs" using Cons_drop [of 0 bs] by simp
  have c65: "bs ! 65 # drop 66 bs = drop 65 bs" if "length bs = 114"
    using that Cons_drop [of 65 bs] by simp
  show "wf_message m"
    using assms by (auto simp: message_decode_def length_slice split: if_splits)
  assume can: "canonical bs"
  consider (ini) "bs ! 0 = 1" "length bs = 114" "m = Initiation (slice 1 33 bs) (slice 33 65 bs)
        (if bs ! 65 = 1 then Some (slice 66 98 bs) else None) (slice 98 114 bs)"
    | (resp) "bs ! 0 = 2" "length bs = 274"
        "m = Response (slice 1 33 bs) (slice 33 65 bs) (SessionId (slice 65 81 bs)) (slice 81 274 bs)"
    | (fin) "bs ! 0 = 3" "length bs = 194" "m = Finish (slice 1 194 bs)"
    | (rep) "bs ! 0 = 4" "length bs = 33" "m = CookieReply (slice 1 33 bs)"
    using assms unfolding message_decode_def by (auto split: if_splits)
  then show "message_encode m = bs"
  proof cases
    case ini
    show ?thesis
    proof (cases "bs ! 65 = 1")
      case True
      have "message_encode m = 1 # slice 1 33 bs @ slice 33 65 bs @ (bs ! 65 # drop 66 bs)"
        using ini True by simp
      then show ?thesis using c65 c0 ini by simp
    next
      case False
      then have "message_encode m = 1 # slice 1 33 bs @ slice 33 65 bs @ (bs ! 65 # drop 66 bs)"
        using ini can slice_drop [of 66 98 bs] by (simp add: canonical_def)
      then show ?thesis using c65 c0 ini by simp
    qed
  qed (use c0 in simp_all)
qed

lemma join_simps [simp]: "join d [] = d" "join d (x # xs) = join (d @ x) xs"
  by (simp_all add: join_def)

lemma canonical_encode: "wf_message m \<Longrightarrow> canonical (message_encode m)"
  by (cases m) (auto simp: canonical_def slice_def nth_append split: option.splits)

subsection \<open>Order of messages\<close>

fun event_message :: "handshake_event \<Rightarrow> handshake_message" where
  "event_message (Sent m) = m"
| "event_message (Received m) = m"

lemma hs_step_Established [simp]: "hs_step Established e = Inl InvalidHandshake"
  by (cases e) auto

lemma hs_run_Established [simp]: "hs_run Established es = (Established, [])"
  by (induction es) auto

lemma hs_step_AwaitingFinish:
  "hs_step AwaitingFinish e = Inr s \<longleftrightarrow>
     (\<exists>m. e = Sent m \<and> is_response m \<and> s = AwaitingFinish) \<or> is_finish (event_message e) \<and> s = Established"
  by (cases e; cases "event_message e") auto

lemma hs_step_AwaitingResponse:
  "hs_step AwaitingResponse e = Inr s \<longleftrightarrow> (\<exists>m. e = Received m \<and> is_response m \<and> s = AwaitingFinish)"
  by (cases e; cases "event_message e") auto

lemma hs_step_New:
  "hs_step (New RoleInitiator) e = Inr s \<longleftrightarrow> (\<exists>m. e = Sent m \<and> is_initiation m \<and> s = AwaitingResponse)"
  "hs_step (New RoleResponder) e = Inr s \<longleftrightarrow> (\<exists>m. e = Received m \<and> is_initiation m \<and> s = AwaitingFinish)"
  by (cases e; cases "event_message e"; auto)+

lemmas hs_steps = hs_step_AwaitingFinish hs_step_AwaitingResponse hs_step_New

lemma hs_run_AwaitingFinish:
  "hs_run AwaitingFinish es = (Established, acc) \<Longrightarrow>
     \<exists>mids fin. acc = map Sent mids @ [fin] \<and> list_all is_response mids \<and> is_finish (event_message fin)"
proof (induction es arbitrary: acc)
  case (Cons e es)
  show ?case
  proof (cases "hs_step AwaitingFinish e")
    case (Inl x)
    with Cons show ?thesis by simp
  next
    case (Inr s)
    with Cons.prems obtain acc' where acc: "acc = e # acc'" "hs_run s es = (Established, acc')"
      by (auto split: prod.splits)
    from Inr consider m where "e = Sent m" "is_response m" "s = AwaitingFinish"
      | "is_finish (event_message e)" "s = Established" by (auto simp: hs_steps)
    then show ?thesis
    proof cases
      case (1 m)
      with Cons.IH acc obtain mids fin where "acc' = map Sent mids @ [fin]" "list_all is_response mids"
        "is_finish (event_message fin)" by blast
      with 1 acc show ?thesis by (intro exI [of _ "m # mids"] exI [of _ fin]) simp
    next
      case 2
      with acc show ?thesis by (intro exI [of _ "[]"] exI [of _ e]) simp
    qed
  qed
qed simp

lemma hs_run_AwaitingResponse:
  "hs_run AwaitingResponse es = (Established, acc) \<Longrightarrow>
     \<exists>resp mids fin. acc = Received resp # map Sent mids @ [fin] \<and> is_response resp \<and>
       list_all is_response mids \<and> is_finish (event_message fin)"
proof (induction es arbitrary: acc)
  case (Cons e es)
  then show ?case
    by (cases "hs_step AwaitingResponse e")
      (auto simp: hs_steps split: prod.splits dest!: hs_run_AwaitingFinish)
qed simp

section \<open>Properties\<close>

text \<open>
  A byte string decodes to a handshake message and is in canonical form exactly when it is the
  encoding of that message. The one freedom of the format is an initiation whose cookie flag is
  not 1, which decodes like one without a cookie.
\<close>

theorem handshake_wire_format:
  "message_decode bs = Inr m \<and> canonical bs \<longleftrightarrow> wf_message m \<and> bs = message_encode m"
  using message_encode_decode [of bs m] message_decode_encode [of m] canonical_encode [of m] by blast

text \<open>
  A handshake becomes established only through its messages in order: for an initiator, an
  initiation sent, a response received and a finish; for a responder, an initiation received and
  a finish, with responses sent (and resent) in between. The machine accepts the finish in either
  direction, whichever role it started in.
\<close>

theorem handshake_established_order:
  assumes "hs_run (New role) es = (Established, acc)"
  shows "\<exists>ini resp mids fin.
     acc = (case role of RoleInitiator \<Rightarrow> [Sent ini, Received resp] | RoleResponder \<Rightarrow> [Received ini]) @
           map Sent mids @ [fin] \<and>
     is_initiation ini \<and> is_response resp \<and> list_all is_response mids \<and> is_finish (event_message fin)"
  using assms
proof (induction es arbitrary: acc)
  case (Cons e es)
  have r: "is_response (Response [] [] ZERO [])" by simp
  show ?case
  proof (cases "hs_step (New role) e")
    case (Inl x)
    with Cons show ?thesis by simp
  next
    case (Inr s)
    with Cons.prems obtain acc' where acc: "acc = e # acc'" "hs_run s es = (Established, acc')"
      by (auto split: prod.splits)
    show ?thesis
    proof (cases role)
      case RoleInitiator
      with Inr acc show ?thesis
        by (fastforce simp: hs_steps dest: hs_run_AwaitingResponse)
    next
      case RoleResponder
      with Inr obtain m where "e = Received m" "is_initiation m" "s = AwaitingFinish" by (auto simp: hs_steps)
      moreover from this acc(2) obtain mids fin where "acc' = map Sent mids @ [fin]" "list_all is_response mids"
        "is_finish (event_message fin)" using hs_run_AwaitingFinish by blast
      ultimately show ?thesis using RoleResponder acc(1) r by (simp, blast)
    qed
  qed
qed simp

theorem handshake_established_order_witness:
  "\<exists>ini resp mids fin.
     [Received (Initiation [] [] None []), Sent (Response [] [] ZERO []), Received (Finish [])] =
       [Received ini] @ map Sent mids @ [fin] \<and>
     is_initiation ini \<and> is_response resp \<and> list_all is_response mids \<and> is_finish (event_message fin)"
  using handshake_established_order [of RoleResponder
      "[Received (Initiation [] [] None []), Received (CookieReply []), Sent (Response [] [] ZERO []), Received (Finish [])]"
      "[Received (Initiation [] [] None []), Sent (Response [] [] ZERO []), Received (Finish [])]"]
  by simp

end
