(* ===== verification/Replay.thy ===== *)
theory Replay
  imports Prelude
begin

text \<open>
  The anti-replay window of \<^verbatim>\<open>crates/rvpn-protocol/src/replay.rs\<close>: a ring of 32 words of 64 bits
  indexed by the sequence number modulo 2048, together with the highest sequence number accepted.
  The abstract specification is the set of accepted sequence numbers; the ring is shown to decide
  exactly as the set does, through the interface \<open>anti_replay\<close> that the protected session uses.
\<close>

section \<open>The ring buffer of the source\<close>

definition WORDS :: nat where
  "WORDS = 32"

definition WINDOW :: nat where
  "WINDOW = WORDS * 64"

datatype replay_error = Duplicate | TooOld

record replay_window =
  highest :: "u64 option"
  seen :: "u64 list"

definition replay_default :: replay_window where
  "replay_default = \<lparr>highest = None, seen = replicate WORDS 0\<rparr>"

definition rw_set_bit :: "replay_window \<Rightarrow> u64 \<Rightarrow> replay_window" where
  "rw_set_bit w sequence =
     (let idx = unat sequence mod WINDOW
      in w\<lparr>seen := (seen w)[idx div 64 := (seen w ! (idx div 64)) OR push_bit (idx mod 64) 1]\<rparr>)"

definition rw_test_bit :: "replay_window \<Rightarrow> u64 \<Rightarrow> bool" where
  "rw_test_bit w sequence =
     (let idx = unat sequence mod WINDOW
      in (seen w ! (idx div 64)) AND push_bit (idx mod 64) 1 \<noteq> 0)"

text \<open>The body of the clearing loop: the mask of \<open>bits_here\<close> bits from \<open>bit_offset\<close> up.\<close>

definition clear_mask :: "nat \<Rightarrow> nat \<Rightarrow> u64" where
  "clear_mask bits_here bit_offset =
     (if bits_here = 64 then - 1 else push_bit bit_offset (push_bit bits_here 1 - 1))"

function clear_loop :: "u64 list \<Rightarrow> nat \<Rightarrow> nat \<Rightarrow> nat \<Rightarrow> u64 list" where
  "clear_loop ws word bit_offset remaining =
     (if remaining > 0 then
        (let bits_here = min remaining (64 - bit_offset);
             ws' = ws[word := (ws ! word) AND NOT (clear_mask bits_here bit_offset)]
         in clear_loop ws' ((word + 1) mod WORDS) 0 (remaining - bits_here))
      else ws)"
  by pat_completeness auto
termination
  by (relation "measures [\<lambda>(ws, word, bit_offset, remaining). remaining,
                          \<lambda>(ws, word, bit_offset, remaining). bit_offset]") auto

declare clear_loop.simps [simp del]

definition clear_range :: "replay_window \<Rightarrow> u64 \<Rightarrow> u64 \<Rightarrow> replay_window" where
  "clear_range w high shift =
     (if shift = 0 then w
      else (let start = unat (high + 1) mod WINDOW
            in w\<lparr>seen := clear_loop (seen w) (start div 64) (start mod 64) (unat shift)\<rparr>))"

definition check_and_record :: "replay_window \<Rightarrow> u64 \<Rightarrow> (replay_error + unit) \<times> replay_window" where
  "check_and_record w sequence =
     (case highest w of
        None \<Rightarrow> (Inr (), rw_set_bit (w\<lparr>highest := Some sequence\<rparr>) sequence)
      | Some high \<Rightarrow>
          (if sequence > high then
             (let shift = sequence - high;
                  w1 = (if unat shift \<ge> WINDOW then w\<lparr>seen := replicate WORDS 0\<rparr>
                        else clear_range w high shift)
              in (Inr (), rw_set_bit (w1\<lparr>highest := Some sequence\<rparr>) sequence))
           else if unat (high - sequence) \<ge> WINDOW then (Inl TooOld, w)
           else if rw_test_bit w sequence then (Inl Duplicate, w)
           else (Inr (), rw_set_bit w sequence)))"

text \<open>A receiver feeds a sequence of numbers to a window: the verdicts, and the numbers accepted.\<close>

fun verdicts :: "('w \<Rightarrow> u64 \<Rightarrow> (replay_error + unit) \<times> 'w) \<Rightarrow> 'w \<Rightarrow> u64 list \<Rightarrow> (replay_error + unit) list" where
  "verdicts check w [] = []"
| "verdicts check w (s # ss) = (case check w s of (v, w') \<Rightarrow> v # verdicts check w' ss)"

fun accepted :: "('w \<Rightarrow> u64 \<Rightarrow> (replay_error + unit) \<times> 'w) \<Rightarrow> 'w \<Rightarrow> u64 list \<Rightarrow> u64 list" where
  "accepted check w [] = []"
| "accepted check w (s # ss) =
     (case check w s of (v, w') \<Rightarrow> if is_ok v then s # accepted check w' ss else accepted check w' ss)"

section \<open>The ring as a predicate on slots\<close>

definition ring :: "u64 list \<Rightarrow> nat \<Rightarrow> bool" where
  "ring ws i \<longleftrightarrow> bit (ws ! (i div 64)) (i mod 64)"

lemma WINDOW_eq [simp]: "WINDOW = 2048" and WORDS_eq [simp]: "WORDS = 32"
  by (simp_all add: WINDOW_def WORDS_def)

lemma ring_replicate [simp]: "i < 2048 \<Longrightarrow> \<not> ring (replicate 32 0) i"
  by (simp add: ring_def)

lemma bit_clear_mask:
  assumes "n \<le> 64 - off" "off < 64" "j < 64"
  shows "bit (clear_mask n off) j \<longleftrightarrow> off \<le> j \<and> j < off + n"
proof (cases "n = 64")
  case True
  with assms show ?thesis by (simp add: clear_mask_def)
next
  case False
  have "(push_bit n 1 - 1 :: u64) = mask n"
    by (simp add: push_bit_eq_mult mask_eq_exp_minus_1)
  with False assms show ?thesis
    by (auto simp: clear_mask_def bit_simps)
qed

lemma slot_eq_iff: "i div 64 = (k::nat) div 64 \<and> i mod 64 = k mod 64 \<longleftrightarrow> i = k"
  by (metis div_mult_mod_eq)

lemma ring_update:
  assumes "length ws = 32" "i < 2048" "k < 2048"
  shows "ring (ws[k div 64 := (ws ! (k div 64)) OR 2 ^ (k mod 64)]) i \<longleftrightarrow> i = k \<or> ring ws i"
proof (cases "i div 64 = k div 64")
  case True
  with assms have "i div 64 < length ws" by simp
  with True show ?thesis
    by (auto simp: ring_def bit_simps simp flip: slot_eq_iff [of i k])
next
  case False
  then show ?thesis by (auto simp: ring_def)
qed

lemma rw_test_bit_ring: "rw_test_bit w s \<longleftrightarrow> ring (seen w) (unat s mod 2048)"
  by (simp add: rw_test_bit_def ring_def Let_def and_exp_eq_0_iff_not_bit)

lemma ring_rw_set_bit:
  "length (seen w) = 32 \<Longrightarrow> i < 2048 \<Longrightarrow>
     ring (seen (rw_set_bit w s)) i \<longleftrightarrow> i = unat s mod 2048 \<or> ring (seen w) i"
  using ring_update [of "seen w" i "unat s mod 2048"]
  by (simp add: rw_set_bit_def Let_def del: mod_mod_cancel)

lemma rw_set_bit_fields [simp]:
  "length (seen (rw_set_bit w s)) = length (seen w)" "highest (rw_set_bit w s) = highest w"
  by (simp_all add: rw_set_bit_def Let_def)

lemma ring_clear_word:
  assumes "length ws = 32" "word < 32" "off < 64" "n \<le> 64 - off" "i < 2048"
  shows "ring (ws[word := (ws ! word) AND NOT (clear_mask n off)]) i \<longleftrightarrow>
           ring ws i \<and> \<not> (\<exists>k<n. i = word * 64 + off + k)"
proof (cases "i div 64 = word")
  case True
  have "(\<exists>k<n. i = word * 64 + off + k) \<longleftrightarrow> off \<le> i mod 64 \<and> i mod 64 < off + n"
  proof
    assume "\<exists>k<n. i = word * 64 + off + k"
    then obtain k where "k < n" "i = word * 64 + (off + k)" by auto
    moreover from this assms have "i mod 64 = off + k" by simp
    ultimately show "off \<le> i mod 64 \<and> i mod 64 < off + n" by simp
  next
    assume "off \<le> i mod 64 \<and> i mod 64 < off + n"
    moreover have "i = word * 64 + i mod 64" using True by (metis div_mult_mod_eq)
    ultimately show "\<exists>k<n. i = word * 64 + off + k"
      by (intro exI [of _ "i mod 64 - off"]) linarith
  qed
  with True assms show ?thesis
    by (simp add: ring_def bit_simps bit_clear_mask)
next
  case False
  have "i \<noteq> word * 64 + off + k" if "k < n" for k
  proof
    assume "i = word * 64 + off + k"
    then have "i = word * 64 + (off + k)" by simp
    moreover have "off + k < 64" using that assms by simp
    ultimately have "i div 64 = word" by simp
    with False show False ..
  qed
  with False show ?thesis by (auto simp: ring_def)
qed

lemma length_clear_loop [simp]: "length (clear_loop ws word off r) = length ws"
  by (induction ws word off r rule: clear_loop.induct) (subst clear_loop.simps, simp add: Let_def)

lemma ring_clear_loop:
  assumes "length ws = 32" "word < 32" "off < 64" "i < 2048"
  shows "ring (clear_loop ws word off r) i \<longleftrightarrow>
           ring ws i \<and> \<not> (\<exists>k<r. i = (word * 64 + off + k) mod 2048)"
  using assms
proof (induction ws word off r rule: clear_loop.induct)
  case (1 ws word off r)
  show ?case
  proof (cases "r > 0")
    case False
    then show ?thesis by (simp add: clear_loop.simps [of ws word off 0])
  next
    case True
    define n where "n = min r (64 - off)"
    define ws' where "ws' = ws[word := (ws ! word) AND NOT (clear_mask n off)]"
    have n: "n \<le> 64 - off" "n \<le> r" "r - n > 0 \<Longrightarrow> off + n = 64" using 1 by (auto simp: n_def)
    have len: "length ws' = 32" using 1 by (simp add: ws'_def)
    have IH: "ring (clear_loop ws' ((word + 1) mod 32) 0 (r - n)) i \<longleftrightarrow>
          ring ws' i \<and> \<not> (\<exists>k<r - n. i = (((word + 1) mod 32) * 64 + 0 + k) mod 2048)"
      using 1(1) [OF True n_def ws'_def] 1(2-) len by simp
    have shift: "(((word + 1) mod 32) * 64 + 0 + k) mod 2048 = (word * 64 + off + (n + k)) mod 2048"
      if "k < r - n" for k
    proof -
      have "off + n = 64" using n that by simp
      then have "word * 64 + off + (n + k) = (word + 1) * 64 + k" by simp
      moreover have "((word + 1) mod 32) * 64 = ((word + 1) * 64) mod 2048"
        by (simp add: mult_mod_right [of "word + 1" 32 64, simplified] mod_mult_mult2 [of "word + 1" 64 32, simplified])
      ultimately show ?thesis by (simp only: add_0_right mod_add_left_eq)
    qed
    have here: "(word * 64 + off + k) mod 2048 = word * 64 + off + k" if "k < n" for k
      using that n 1 by simp
    have split: "(\<exists>k<r. P k) \<longleftrightarrow> (\<exists>k<n. P k) \<or> (\<exists>k<r - n. P (n + k))" for P
    proof -
      have "P k \<Longrightarrow> k < r \<Longrightarrow> \<not> k < n \<Longrightarrow> k - n < r - n \<and> P (n + (k - n))" for k by simp
      then show ?thesis using n(2) by (metis add.commute less_diff_conv order_less_le_trans)
    qed
    have "clear_loop ws word off r = clear_loop ws' ((word + 1) mod 32) 0 (r - n)"
      using True by (subst clear_loop.simps) (simp add: Let_def n_def ws'_def)
    moreover have "ring ws' i \<longleftrightarrow> ring ws i \<and> \<not> (\<exists>k<n. i = word * 64 + off + k)"
      unfolding ws'_def using 1 n by (intro ring_clear_word) auto
    ultimately show ?thesis
      using IH shift here split [of "\<lambda>k. i = (word * 64 + off + k) mod 2048"] by auto
  qed
qed

section \<open>Refinement of the set of accepted numbers\<close>

text \<open>
  The specification keeps every accepted sequence number. A number is refused as too old when it
  is a whole window behind the highest accepted one, as a duplicate when it was accepted before.
\<close>

definition spec_verdict :: "nat set \<Rightarrow> nat \<Rightarrow> replay_error + unit" where
  "spec_verdict A s =
     (if A \<noteq> {} \<and> s + WINDOW \<le> Max A then Inl TooOld
      else if s \<in> A then Inl Duplicate else Inr ())"

definition spec_record :: "nat set \<Rightarrow> nat \<Rightarrow> nat set" where
  "spec_record A s = (if is_ok (spec_verdict A s) then insert s A else A)"

fun spec_verdicts :: "nat set \<Rightarrow> nat list \<Rightarrow> (replay_error + unit) list" where
  "spec_verdicts A [] = []"
| "spec_verdicts A (s # ss) = spec_verdict A s # spec_verdicts (spec_record A s) ss"

text \<open>
  The ring represents a set when the highest number is its maximum and every slot of the window
  holds the membership of the one number of the window that falls in that slot.
\<close>

definition replay_rep :: "replay_window \<Rightarrow> nat set \<Rightarrow> bool" where
  "replay_rep w A \<longleftrightarrow>
     length (seen w) = WORDS \<and> finite A \<and>
     (if A = {} then highest w = None \<and> (\<forall>i<WINDOW. \<not> ring (seen w) i)
      else highest w \<noteq> None \<and> unat (the (highest w)) = Max A \<and>
           (\<forall>q\<le>Max A. Max A < q + WINDOW \<longrightarrow> (ring (seen w) (q mod WINDOW) \<longleftrightarrow> q \<in> A)))"

lemma mod_window_inj:
  fixes q s m :: nat
  assumes "q \<le> m" "m < q + 2048" "s \<le> m" "m < s + 2048" "q mod 2048 = s mod 2048"
  shows "q = s"
proof -
  have *: "a = b" if "a \<le> b" "b < a + 2048" "b mod 2048 = a mod 2048" for a b :: nat
  proof -
    have "2048 dvd b - a" using that by (simp add: mod_eq_dvd_iff_nat)
    moreover have "b - a < 2048" using that by simp
    ultimately have "b - a = 0" using dvd_imp_le by fastforce
    with that show ?thesis by simp
  qed
  show ?thesis using assms * [of q s] * [of s q] by (cases "q \<le> s") auto
qed

lemma replay_rep_default: "replay_rep replay_default {}"
  by (simp add: replay_rep_def replay_default_def)

lemma replay_repD:
  assumes "replay_rep w A" "highest w = Some h"
  shows "A \<noteq> {}" "finite A" "Max A = unat h" "length (seen w) = 32"
    "\<And>q. q \<le> unat h \<Longrightarrow> unat h < q + 2048 \<Longrightarrow> ring (seen w) (q mod 2048) \<longleftrightarrow> q \<in> A"
    "\<And>q. q \<in> A \<Longrightarrow> q \<le> unat h"
  using assms by (auto simp: replay_rep_def split: if_splits)

lemma replay_rep_fresh:
  assumes "finite A" "\<forall>a\<in>A. a < unat s" "length (seen w) = 32"
    "\<And>q. q < unat s \<Longrightarrow> unat s < q + 2048 \<Longrightarrow> ring (seen w) (q mod 2048) \<longleftrightarrow> q \<in> A"
  shows "replay_rep (rw_set_bit (w\<lparr>highest := Some s\<rparr>) s) (insert (unat s) A)"
proof -
  have "Max (insert (unat s) A) = unat s"
    using assms by (intro Max_eqI) (auto intro: less_imp_le)
  moreover have "ring (seen (rw_set_bit (w\<lparr>highest := Some s\<rparr>) s)) (q mod 2048) \<longleftrightarrow> q \<in> insert (unat s) A"
    if "q \<le> unat s" "unat s < q + 2048" for q
  proof (cases "q = unat s")
    case True
    with assms show ?thesis by (simp add: ring_rw_set_bit)
  next
    case False
    then have "q mod 2048 \<noteq> unat s mod 2048" using mod_window_inj [of q "unat s" "unat s"] that by auto
    with False assms that show ?thesis by (simp add: ring_rw_set_bit)
  qed
  ultimately show ?thesis using assms by (simp add: replay_rep_def)
qed

lemma ring_clear_range:
  assumes "length (seen w) = 32" "unat h < unat s" "q < unat s" "unat s < q + 2048" "unat s - unat h < 2048"
  shows "ring (seen (clear_range w h (s - h))) (q mod 2048) \<longleftrightarrow> q \<le> unat h \<and> ring (seen w) (q mod 2048)"
proof -
  have sub: "unat (s - h) = unat s - unat h"
    using assms by (simp add: unat_sub word_le_nat_alt)
  then have nz: "s - h \<noteq> 0" using assms(2) by (metis diff_is_0_eq not_le unat_0)
  have "unat h < 2 ^ 64 - 1" using assms(2) unat_less_2p [of s] by simp
  then have suc: "unat (h + 1) = unat h + 1" by (subst unat_add_lem [THEN iffD1]) auto
  define st where "st = (unat h + 1) mod 2048"
  have "ring (seen (clear_range w h (s - h))) (q mod 2048) \<longleftrightarrow>
      ring (seen w) (q mod 2048) \<and>
      \<not> (\<exists>k<unat s - unat h. q mod 2048 = (st div 64 * 64 + st mod 64 + k) mod 2048)"
    using nz assms(1) by (simp add: clear_range_def sub suc Let_def st_def ring_clear_loop del: div_mult_mod_eq)
  moreover have "(st div 64 * 64 + st mod 64 + k) mod 2048 = (unat h + 1 + k) mod 2048" for k
    by (simp add: st_def mod_simps)
  moreover have "(\<exists>k<unat s - unat h. q mod 2048 = (unat h + 1 + k) mod 2048) \<longleftrightarrow> \<not> q \<le> unat h"
  proof
    assume "\<exists>k<unat s - unat h. q mod 2048 = (unat h + 1 + k) mod 2048"
    then obtain k where k: "k < unat s - unat h" "q mod 2048 = (unat h + 1 + k) mod 2048" by auto
    then have "q = unat h + 1 + k"
      using assms by (intro mod_window_inj [of q "unat s"]) auto
    then show "\<not> q \<le> unat h" by simp
  next
    assume "\<not> q \<le> unat h"
    then show "\<exists>k<unat s - unat h. q mod 2048 = (unat h + 1 + k) mod 2048"
      using assms by (intro exI [of _ "q - unat h - 1"]) auto
  qed
  ultimately show ?thesis by auto
qed

lemma clear_range_length [simp]: "length (seen (clear_range w h d)) = length (seen w)"
  by (simp add: clear_range_def Let_def)

lemma check_and_record_verdict:
  assumes "replay_rep w A"
  shows "fst (check_and_record w s) = spec_verdict A (unat s)"
proof (cases "highest w")
  case None
  with assms have "A = {}" by (auto simp: replay_rep_def split: if_splits)
  with None show ?thesis by (simp add: check_and_record_def spec_verdict_def)
next
  case (Some h)
  note D = replay_repD [OF assms Some]
  show ?thesis
  proof (cases "s > h")
    case True
    then have "unat s > unat h" by (simp add: word_less_nat_alt)
    with True D Some show ?thesis
      by (auto simp: check_and_record_def spec_verdict_def Let_def dest: D(6))
  next
    case False
    then have "unat (h - s) = unat h - unat s" "unat s \<le> unat h"
      by (simp_all add: unat_sub word_le_nat_alt not_less)
    with False D Some show ?thesis
      by (auto simp: check_and_record_def spec_verdict_def rw_test_bit_ring)
  qed
qed

lemma check_and_record_error:
  "fst (check_and_record w s) = Inl e \<Longrightarrow> snd (check_and_record w s) = w"
  by (auto simp: check_and_record_def Let_def split: option.splits if_splits)

lemma check_and_record_advance:
  assumes "replay_rep w A" "highest w = Some h" "s > h"
  shows "replay_rep (snd (check_and_record w s)) (insert (unat s) A)"
proof -
  note D = replay_repD [OF assms(1,2)]
  have gt: "unat s > unat h" "unat (s - h) = unat s - unat h"
    using assms(3) by (simp_all add: word_less_nat_alt unat_sub word_le_nat_alt)
  define w1 where "w1 = (if unat (s - h) \<ge> WINDOW then w\<lparr>seen := replicate WORDS 0\<rparr>
    else clear_range w h (s - h))"
  have "ring (seen w1) (q mod 2048) \<longleftrightarrow> q \<in> A" if "q < unat s" "unat s < q + 2048" for q
  proof (cases "unat (s - h) \<ge> WINDOW")
    case True
    with that gt have "unat h < q" by simp
    with D(6) True show ?thesis by (fastforce simp: w1_def)
  next
    case False
    with that gt D show ?thesis by (auto simp: w1_def ring_clear_range)
  qed
  then have "replay_rep (rw_set_bit (w1\<lparr>highest := Some s\<rparr>) s) (insert (unat s) A)"
    using D(2,4,6) gt by (intro replay_rep_fresh) (fastforce simp: w1_def)+
  then show ?thesis using assms by (simp add: check_and_record_def w1_def Let_def)
qed

lemma check_and_record_fill:
  assumes "replay_rep w A" "highest w = Some h" "\<not> s > h" "unat h < unat s + 2048"
  shows "replay_rep (rw_set_bit w s) (insert (unat s) A)"
proof -
  note D = replay_repD [OF assms(1,2)]
  have le: "unat s \<le> unat h" using assms(3) by (simp add: word_le_nat_alt not_less)
  then have "Max (insert (unat s) A) = unat h" using D by (simp add: max_def)
  moreover have "ring (seen (rw_set_bit w s)) (q mod 2048) \<longleftrightarrow> q \<in> insert (unat s) A"
    if "q \<le> unat h" "unat h < q + 2048" for q
    using D that mod_window_inj [OF that le assms(4)] by (auto simp: ring_rw_set_bit)
  ultimately show ?thesis using D assms(2) by (simp add: replay_rep_def)
qed

lemma check_and_record_rep:
  assumes "replay_rep w A"
  shows "replay_rep (snd (check_and_record w s)) (spec_record A (unat s))"
proof (cases "fst (check_and_record w s)")
  case (Inl e)
  then show ?thesis
    using assms check_and_record_verdict [OF assms, of s] check_and_record_error [OF Inl]
    by (simp add: spec_record_def)
next
  case (Inr u)
  then have rec: "spec_record A (unat s) = insert (unat s) A"
    using check_and_record_verdict [OF assms, of s] by (simp add: spec_record_def)
  show ?thesis
  proof (cases "highest w")
    case None
    then have "A = {}" "\<forall>i<2048. \<not> ring (seen w) i" "length (seen w) = 32"
      using assms by (auto simp: replay_rep_def split: if_splits)
    then have "replay_rep (rw_set_bit (w\<lparr>highest := Some s\<rparr>) s) (insert (unat s) A)"
      by (intro replay_rep_fresh) auto
    then show ?thesis using None rec by (simp add: check_and_record_def)
  next
    case (Some h)
    show ?thesis
    proof (cases "s > h")
      case True
      with Some assms rec show ?thesis by (simp add: check_and_record_advance)
    next
      case False
      then have "unat (h - s) = unat h - unat s"
        by (simp add: unat_sub word_le_nat_alt not_less)
      moreover have "unat (h - s) < 2048" "snd (check_and_record w s) = rw_set_bit w s"
        using Inr Some False by (auto simp: check_and_record_def split: if_splits)
      ultimately show ?thesis
        using check_and_record_fill [OF assms Some False] rec by simp
    qed
  qed
qed

section \<open>The interface of the window\<close>

text \<open>
  What a receiver relies on: a fresh window has accepted nothing, every check decides as the set
  of accepted numbers does and records the number in it, and a refused number changes nothing.
\<close>

locale anti_replay =
  fixes fresh :: 'w
    and check :: "'w \<Rightarrow> u64 \<Rightarrow> (replay_error + unit) \<times> 'w"
    and rep :: "'w \<Rightarrow> nat set \<Rightarrow> bool"
  assumes fresh_rep: "rep fresh {}"
    and verdict: "rep w A \<Longrightarrow> fst (check w s) = spec_verdict A (unat s)"
    and record_rep: "rep w A \<Longrightarrow> rep (snd (check w s)) (spec_record A (unat s))"
    and refuse: "fst (check w s) = Inl e \<Longrightarrow> snd (check w s) = w"
begin

lemma verdicts_spec: "rep w A \<Longrightarrow> verdicts check w ss = spec_verdicts A (map unat ss)"
proof (induction ss arbitrary: w A)
  case (Cons s ss)
  then show ?case
    using verdict [OF Cons.prems, of s] record_rep [OF Cons.prems, of s]
    by (cases "check w s") simp
qed simp

lemma accepted_new:
  assumes "rep w A" "fst (check w s) = Inr u"
  shows "unat s \<notin> A" "rep (snd (check w s)) (insert (unat s) A)"
  using assms verdict [OF assms(1), of s] record_rep [OF assms(1), of s]
  by (auto simp: spec_verdict_def spec_record_def split: if_splits)

lemma accepted_fresh:
  "rep w A \<Longrightarrow> distinct (accepted check w ss) \<and> unat ` set (accepted check w ss) \<inter> A = {}"
proof (induction ss arbitrary: w A)
  case (Cons s ss)
  obtain v w' where c: "check w s = (v, w')" by fastforce
  show ?case
  proof (cases v)
    case (Inl e)
    with Cons.IH [OF Cons.prems] refuse [of w s e] c show ?thesis by simp
  next
    case (Inr u)
    then have "unat s \<notin> A" "rep w' (insert (unat s) A)"
      using accepted_new [OF Cons.prems, of s u] c by auto
    with Cons.IH [of w' "insert (unat s) A"] c Inr show ?thesis by auto
  qed
qed simp

lemma in_window_accepted:
  "rep w A \<Longrightarrow> unat s \<notin> A \<Longrightarrow> (\<And>a. a \<in> A \<Longrightarrow> a < unat s + WINDOW) \<Longrightarrow> finite A \<Longrightarrow>
     fst (check w s) = Inr ()"
  by (metis Max_in linorder_not_less spec_verdict_def verdict)

end

interpretation rw: anti_replay replay_default check_and_record replay_rep
  by unfold_locales
    (auto intro: replay_rep_default check_and_record_verdict check_and_record_rep check_and_record_error)

section \<open>Properties\<close>

text \<open>
  C1. For every sequence of packet numbers, the ring buffer of 2048 bits returns exactly the
  verdicts of the specification that remembers every accepted number: too old when the number is
  at least 2048 behind the highest accepted, duplicate when it was accepted, accepted otherwise.
\<close>

theorem replay_window_refines_set:
  "verdicts check_and_record replay_default ss = spec_verdicts {} (map unat ss)"
  by (rule rw.verdicts_spec [OF rw.fresh_rep])

text \<open>
  No sequence number is accepted twice, whatever numbers a receiver is given and in
  whatever order.
\<close>

theorem replay_window_accepts_once:
  "distinct (accepted check_and_record replay_default ss)"
  using rw.accepted_fresh [OF rw.fresh_rep] by blast

end
