(* ===== verification/Session.thy ===== *)
theory Session
  imports Replay Packet Crypto
begin

text \<open>
  The protected session of \<^verbatim>\<open>crates/rvpn-protocol/src/session.rs\<close>: packets sealed under a nonce made
  of key phase and sequence number, opened against the replay window of the current phase or,
  for a grace period after a rekey, of the previous one.
\<close>

section \<open>State and operations\<close>

datatype session_error =
    HandshakeNotProtected
  | SequenceExhausted
  | UnexpectedSession
  | UnexpectedKeyPhase u32
  | SessCrypto crypto_error
  | SessReplay replay_error
  | SessProtocol protocol_error

record previous_phase =
  prev_key_phase :: u32
  prev_keys :: session_keys
  prev_replay :: replay_window
  prev_expires_at :: instant

record protected_session =
  ps_session_id :: session_id
  ps_key_phase :: u32
  next_send_sequence :: u64
  receive_replay :: replay_window
  ps_keys :: session_keys
  created_at :: instant
  previous :: "previous_phase option"

definition session_new :: "session_id \<Rightarrow> u32 \<Rightarrow> session_keys \<Rightarrow> instant \<Rightarrow> protected_session" where
  "session_new sid phase keys now =
     \<lparr>ps_session_id = sid, ps_key_phase = phase, next_send_sequence = 0, receive_replay = replay_default,
      ps_keys = keys, created_at = now, previous = None\<rparr>"

definition inherit_previous ::
  "protected_session \<Rightarrow> protected_session \<Rightarrow> duration \<Rightarrow> instant \<Rightarrow> protected_session" where
  "inherit_previous self prev grace_period now =
     (if grace_period = 0 then self
      else if ps_session_id prev = ps_session_id self \<and> ps_key_phase prev < ps_key_phase self then
        self\<lparr>previous := Some \<lparr>prev_key_phase = ps_key_phase prev, prev_keys = ps_keys prev,
               prev_replay = receive_replay prev, prev_expires_at = now + grace_period\<rparr>\<rparr>
      else self)"

definition should_rekey :: "protected_session \<Rightarrow> u64 \<Rightarrow> instant \<Rightarrow> bool" where
  "should_rekey s packet_limit now =
     (packet_limit > 0 \<and> next_send_sequence s \<ge> packet_limit \<or> now - created_at s \<ge> secs 120)"

definition should_rekey_with_policy :: "protected_session \<Rightarrow> u64 \<Rightarrow> duration option \<Rightarrow> instant \<Rightarrow> bool" where
  "should_rekey_with_policy s packet_limit time_limit now =
     (packet_limit > 0 \<and> next_send_sequence s \<ge> packet_limit \<or>
      (case time_limit of None \<Rightarrow> False | Some limit \<Rightarrow> now - created_at s \<ge> limit))"

definition session_seal ::
  "prims \<Rightarrow> protected_session \<Rightarrow> packet_kind \<Rightarrow> bytes \<Rightarrow> (session_error + packet) \<times> protected_session" where
  "session_seal p s k plaintext =
     (if k = Handshake then (Inl HandshakeNotProtected, s)
      else if next_send_sequence s = - 1 then (Inl SequenceExhausted, s)
      else
        let h = \<lparr>kind = k, key_phase = ps_key_phase s, sequence = next_send_sequence s,
                 session_id = ps_session_id s\<rparr> in
        case keys_seal p (ps_keys s) (packet_nonce (key_phase h) (sequence h)) (header_encode h) plaintext of
          Inl e \<Rightarrow> (Inl (SessCrypto e), s)
        | Inr c \<Rightarrow> (Inr \<lparr>header = h, payload = c\<rparr>,
                    s\<lparr>next_send_sequence := next_send_sequence s + 1\<rparr>))"

text \<open>Authenticate under one phase's keys, then check that phase's replay window.\<close>

definition open_phase ::
  "prims \<Rightarrow> session_keys \<Rightarrow> replay_window \<Rightarrow> packet \<Rightarrow> (session_error + bytes) \<times> replay_window" where
  "open_phase p keys w pkt =
     (case keys_open p keys (packet_nonce (key_phase (header pkt)) (sequence (header pkt)))
             (header_encode (header pkt)) (payload pkt) of
        Inl e \<Rightarrow> (Inl (SessCrypto e), w)
      | Inr plaintext \<Rightarrow>
          (case check_and_record w (sequence (header pkt)) of
             (Inl e, w') \<Rightarrow> (Inl (SessReplay e), w')
           | (Inr _, w') \<Rightarrow> (Inr plaintext, w')))"

definition session_open ::
  "prims \<Rightarrow> protected_session \<Rightarrow> packet \<Rightarrow> instant \<Rightarrow> (session_error + bytes) \<times> protected_session" where
  "session_open p s pkt now =
     (if kind (header pkt) = Handshake then (Inl HandshakeNotProtected, s)
      else if session_id (header pkt) \<noteq> ps_session_id s then (Inl UnexpectedSession, s)
      else if key_phase (header pkt) \<noteq> ps_key_phase s then
        (case previous s of
           Some prev \<Rightarrow>
             if prev_key_phase prev = key_phase (header pkt) \<and> now \<le> prev_expires_at prev then
               (case open_phase p (prev_keys prev) (prev_replay prev) pkt of
                  (r, w') \<Rightarrow> (r, s\<lparr>previous := Some (prev\<lparr>prev_replay := w'\<rparr>)\<rparr>))
             else (Inl (UnexpectedKeyPhase (key_phase (header pkt))), s)
         | None \<Rightarrow> (Inl (UnexpectedKeyPhase (key_phase (header pkt))), s))
      else
        (case open_phase p (ps_keys s) (receive_replay s) pkt of
           (r, w') \<Rightarrow> (r, s\<lparr>receive_replay := w'\<rparr>)))"

section \<open>Runs of a session\<close>

text \<open>A sender seals a list of messages; a receiver opens a list of packets at given times.\<close>

fun seal_run :: "prims \<Rightarrow> protected_session \<Rightarrow> (packet_kind \<times> bytes) list \<Rightarrow> packet list" where
  "seal_run p s [] = []"
| "seal_run p s ((k, m) # ms) =
     (case session_seal p s k m of
        (Inl e, s') \<Rightarrow> seal_run p s' ms
      | (Inr pkt, s') \<Rightarrow> pkt # seal_run p s' ms)"

fun open_run :: "prims \<Rightarrow> protected_session \<Rightarrow> (packet \<times> instant) list \<Rightarrow>
    ((u32 \<times> u64) \<times> bytes) list \<times> protected_session" where
  "open_run p s [] = ([], s)"
| "open_run p s ((pkt, now) # rest) =
     (case session_open p s pkt now of
        (Inl e, s') \<Rightarrow> open_run p s' rest
      | (Inr m, s') \<Rightarrow>
          (case open_run p s' rest of
             (ms, s'') \<Rightarrow> (((key_phase (header pkt), sequence (header pkt)), m) # ms, s'')))"

text \<open>Two ends with paired keys and the packets one of them seals, as a concrete instance.\<close>

definition ex_sid :: session_id where
  "ex_sid = SessionId (replicate 16 7)"

definition ex_keys_i :: session_keys where
  "ex_keys_i = \<lparr>send_key = replicate 32 1, receive_key = replicate 32 2\<rparr>"

definition ex_keys_r :: session_keys where
  "ex_keys_r = \<lparr>send_key = replicate 32 2, receive_key = replicate 32 1\<rparr>"

definition ex_messages :: "(packet_kind \<times> bytes) list" where
  "ex_messages = [(Data, [10]), (DataTap, [20, 21]), (Keepalive, [])]"

definition ex_packets :: "packet list" where
  "ex_packets = seal_run plain_prims (session_new ex_sid 3 ex_keys_i 0) ex_messages"

definition ex_arrivals :: "(packet \<times> instant) list" where
  "ex_arrivals = [(ex_packets ! 2, 5), (ex_packets ! 0, 6), (ex_packets ! 1, 9)]"

section \<open>Invariant\<close>

text \<open>
  The replay windows represent the sets \<open>A\<close> and \<open>B\<close> of numbers accepted in the current and in the
  previous phase, and the previous phase is an earlier one.
\<close>

definition session_rep :: "protected_session \<Rightarrow> nat set \<Rightarrow> nat set \<Rightarrow> bool" where
  "session_rep s A B \<longleftrightarrow>
     replay_rep (receive_replay s) A \<and>
     (case previous s of
        None \<Rightarrow> True
      | Some prev \<Rightarrow> prev_key_phase prev < ps_key_phase s \<and> replay_rep (prev_replay prev) B)"

definition session_inv :: "protected_session \<Rightarrow> bool" where
  "session_inv s \<longleftrightarrow> (\<exists>A B. session_rep s A B)"

text \<open>The sessions a program can hold, built from the operations above.\<close>

inductive session_reach :: "prims \<Rightarrow> protected_session \<Rightarrow> bool" for p where
  new: "session_reach p (session_new sid phase keys now)"
| inherit: "session_reach p s \<Longrightarrow> session_reach p old \<Longrightarrow> session_reach p (inherit_previous s old grace now)"
| seal: "session_reach p s \<Longrightarrow> session_reach p (snd (session_seal p s k m))"
| "open": "session_reach p s \<Longrightarrow> session_reach p (snd (session_open p s pkt now))"

lemma session_rep_new [simp]: "session_rep (session_new sid phase keys now) {} B"
  by (simp add: session_rep_def session_new_def replay_rep_default)

lemma session_rep_inherit:
  "session_rep s A B \<Longrightarrow> session_rep old A' B' \<Longrightarrow>
     \<exists>B''. session_rep (inherit_previous s old grace now) A B''"
  by (auto simp: session_rep_def inherit_previous_def split: if_splits)

lemma session_seal_receiver [simp]:
  "receive_replay (snd (session_seal p s k m)) = receive_replay s"
  "previous (snd (session_seal p s k m)) = previous s"
  "ps_key_phase (snd (session_seal p s k m)) = ps_key_phase s"
  "ps_session_id (snd (session_seal p s k m)) = ps_session_id s"
  "ps_keys (snd (session_seal p s k m)) = ps_keys s"
  by (auto simp: session_seal_def Let_def split: sum.split)

lemma session_rep_seal: "session_rep s A B \<Longrightarrow> session_rep (snd (session_seal p s k m)) A B"
  by (simp add: session_rep_def split: option.splits)

lemma open_phase_error:
  "open_phase p keys w pkt = (Inl e, w') \<Longrightarrow> w' = w"
  using check_and_record_error [of w "sequence (header pkt)"]
  by (auto simp: open_phase_def split: sum.splits prod.splits)

lemma open_phase_accept:
  assumes "open_phase p keys w pkt = (Inr m, w')" "replay_rep w A"
  shows "unat (sequence (header pkt)) \<notin> A" "replay_rep w' (insert (unat (sequence (header pkt))) A)"
    "keys_open p keys (packet_nonce (key_phase (header pkt)) (sequence (header pkt)))
       (header_encode (header pkt)) (payload pkt) = Inr m"
  using assms(1) rw.accepted_new [OF assms(2), of "sequence (header pkt)" "()"]
  by (auto simp: open_phase_def split: sum.splits prod.splits)

text \<open>A refused packet leaves the session as it was.\<close>

lemma session_open_error: "session_open p s pkt now = (Inl e, s') \<Longrightarrow> s' = s"
  by (auto simp: session_open_def split: if_splits option.splits prod.splits dest!: open_phase_error)

lemma session_open_frame:
  "session_open p s pkt now = (r, s') \<Longrightarrow>
     ps_key_phase s' = ps_key_phase s \<and> ps_session_id s' = ps_session_id s \<and> ps_keys s' = ps_keys s \<and>
     next_send_sequence s' = next_send_sequence s \<and>
     map_option prev_key_phase (previous s') = map_option prev_key_phase (previous s)"
  by (auto simp: session_open_def split: if_splits option.splits prod.splits)

text \<open>An accepted packet is authentic and new in its phase, and is recorded there.\<close>

lemma session_open_accept:
  assumes "session_open p s pkt now = (Inr m, s')" "session_rep s A B"
  obtains (current) "key_phase (header pkt) = ps_key_phase s" "unat (sequence (header pkt)) \<notin> A"
      "session_rep s' (insert (unat (sequence (header pkt))) A) B"
  | (previous) prev where "previous s = Some prev" "key_phase (header pkt) = prev_key_phase prev"
      "now \<le> prev_expires_at prev" "unat (sequence (header pkt)) \<notin> B"
      "session_rep s' A (insert (unat (sequence (header pkt))) B)"
proof (cases "key_phase (header pkt) = ps_key_phase s")
  case True
  with assms(1) obtain w' where w: "open_phase p (ps_keys s) (receive_replay s) pkt = (Inr m, w')"
    and s': "s' = s\<lparr>receive_replay := w'\<rparr>"
    by (auto simp: session_open_def split: if_splits prod.splits)
  from assms(2) have "replay_rep (receive_replay s) A" by (simp add: session_rep_def)
  from open_phase_accept [OF w this] True assms(2) s' show ?thesis
    by (intro current) (auto simp: session_rep_def split: option.splits)
next
  case False
  with assms(1) obtain prev w' where prev: "previous s = Some prev" "prev_key_phase prev = key_phase (header pkt)"
      "now \<le> prev_expires_at prev"
    and w: "open_phase p (prev_keys prev) (prev_replay prev) pkt = (Inr m, w')"
    and s': "s' = s\<lparr>previous := Some (prev\<lparr>prev_replay := w'\<rparr>)\<rparr>"
    by (auto simp: session_open_def split: if_splits prod.splits option.splits)
  from assms(2) prev have "replay_rep (prev_replay prev) B" by (simp add: session_rep_def)
  from open_phase_accept [OF w this] prev assms(2) s' show ?thesis
    by (intro previous) (auto simp: session_rep_def)
qed

lemma session_open_rep:
  assumes "session_rep s A B"
  shows "\<exists>A' B'. session_rep (snd (session_open p s pkt now)) A' B'"
proof (cases "session_open p s pkt now")
  case (Pair r s')
  show ?thesis
  proof (cases r)
    case (Inl e)
    with Pair assms session_open_error [of p s pkt now e s'] show ?thesis by auto
  next
    case (Inr m)
    with Pair have "session_open p s pkt now = (Inr m, s')" by simp
    from this assms show ?thesis
      by (rule session_open_accept) (use Pair in auto)
  qed
qed

lemma session_reach_inv: "session_reach p s \<Longrightarrow> session_inv s"
proof (induction rule: session_reach.induct)
  case (inherit s old grace now)
  then show ?case using session_rep_inherit unfolding session_inv_def by metis
qed (auto simp: session_inv_def intro: session_rep_new session_rep_seal session_open_rep)

section \<open>Each packet is delivered at most once\<close>

definition old_numbers :: "protected_session \<Rightarrow> nat set \<Rightarrow> nat set \<Rightarrow> (u32 \<times> u64) set" where
  "old_numbers s A B =
     {(k, q). k = ps_key_phase s \<and> unat q \<in> A \<or>
              map_option prev_key_phase (previous s) = Some k \<and> unat q \<in> B}"

lemma unat_eq_iff [simp]: "unat a = unat b \<longleftrightarrow> a = b"
  by (simp add: word_unat_eq_iff)

definition phases :: "protected_session \<Rightarrow> u32 set" where
  "phases s = insert (ps_key_phase s) (prev_key_phase ` set_option (previous s))"

lemma phases_open: "phases (snd (session_open p s pkt now)) = phases s"
proof -
  obtain r s' where o: "session_open p s pkt now = (r, s')" by fastforce
  from session_open_frame [OF this] have "ps_key_phase s' = ps_key_phase s"
    "map_option prev_key_phase (previous s') = map_option prev_key_phase (previous s)" by auto
  then show ?thesis using o by (simp add: phases_def flip: option.set_map)
qed

lemma old_numbers_step:
  assumes "session_open p s pkt now = (Inr m, s')" "session_rep s A B"
  obtains A' B' where "session_rep s' A' B'"
    "(key_phase (header pkt), sequence (header pkt)) \<notin> old_numbers s A B"
    "old_numbers s' A' B' = insert (key_phase (header pkt), sequence (header pkt)) (old_numbers s A B)"
proof -
  have frame: "ps_key_phase s' = ps_key_phase s" "map_option prev_key_phase (previous s') = map_option prev_key_phase (previous s)"
    using session_open_frame [OF assms(1)] by auto
  have lt: "map_option prev_key_phase (previous s) \<noteq> Some (ps_key_phase s)"
    using assms(2) by (auto simp: session_rep_def)
  from assms show ?thesis
  proof (rule session_open_accept)
    assume "key_phase (header pkt) = ps_key_phase s" "unat (sequence (header pkt)) \<notin> A"
      "session_rep s' (insert (unat (sequence (header pkt))) A) B"
    with frame lt show ?thesis
      by (intro that [of "insert (unat (sequence (header pkt))) A" B]) (auto simp: old_numbers_def)
  next
    fix prev
    assume "previous s = Some prev" "key_phase (header pkt) = prev_key_phase prev"
      "unat (sequence (header pkt)) \<notin> B" "session_rep s' A (insert (unat (sequence (header pkt))) B)"
    with frame lt show ?thesis
      by (intro that [of A "insert (unat (sequence (header pkt))) B"]) (auto simp: old_numbers_def)
  qed
qed

lemma open_run_once:
  assumes "session_rep s A B" "open_run p s xs = (ms, s')"
  obtains A' B' where "session_rep s' A' B'" "phases s' = phases s" "distinct (map fst ms)"
    "fst ` set ms \<inter> old_numbers s A B = {}" "old_numbers s' A' B' = fst ` set ms \<union> old_numbers s A B"
  using assms
proof (induction xs arbitrary: s A B ms thesis)
  case Nil
  then show ?case by auto
next
  case (Cons x xs)
  obtain pkt now where x: "x = (pkt, now)" by fastforce
  obtain r s1 where o: "session_open p s pkt now = (r, s1)" by fastforce
  have ph: "phases s1 = phases s" using phases_open [of p s pkt now] o by simp
  show ?case
  proof (cases r)
    case (Inl e)
    then have "s1 = s" using o session_open_error by blast
    with Cons.prems(3) x o Inl have "open_run p s xs = (ms, s')" by simp
    from Cons.IH [OF Cons.prems(1) Cons.prems(2) this] show ?thesis .
  next
    case (Inr m)
    with Cons.prems(3) x o obtain ms1 where run: "open_run p s1 xs = (ms1, s')"
      and ms: "ms = ((key_phase (header pkt), sequence (header pkt)), m) # ms1"
      by (auto split: prod.splits)
    from o Inr have "session_open p s pkt now = (Inr m, s1)" by simp
    then obtain A1 B1 where 1: "session_rep s1 A1 B1"
      "(key_phase (header pkt), sequence (header pkt)) \<notin> old_numbers s A B"
      "old_numbers s1 A1 B1 = insert (key_phase (header pkt), sequence (header pkt)) (old_numbers s A B)"
      using Cons.prems(2) old_numbers_step by blast
    from Cons.IH [OF _ 1(1) run] obtain A' B' where
      "session_rep s' A' B'" "phases s' = phases s1" "distinct (map fst ms1)"
      "fst ` set ms1 \<inter> old_numbers s1 A1 B1 = {}" "old_numbers s' A' B' = fst ` set ms1 \<union> old_numbers s1 A1 B1" .
    then show ?thesis using 1(2,3) ms ph by (intro Cons.prems(1) [of A' B']) auto
  qed
qed

lemma old_numbers_phases: "old_numbers s A B \<subseteq> phases s \<times> UNIV"
  by (auto simp: old_numbers_def phases_def)

lemma old_numbers_current:
  "session_rep s A B \<Longrightarrow> (ps_key_phase s, q) \<in> old_numbers s A B \<longleftrightarrow> unat q \<in> A"
  by (auto simp: old_numbers_def session_rep_def)

lemma session_rep_phases: "session_rep s A B \<Longrightarrow> k \<in> phases s \<Longrightarrow> k \<le> ps_key_phase s"
  by (auto simp: session_rep_def phases_def)

lemma ps_key_phase_inherit [simp]:
  "ps_key_phase (inherit_previous s old g now) = ps_key_phase s"
  by (simp add: inherit_previous_def)

lemma inherit_previous_fresh:
  assumes "session_rep old A B" "ps_key_phase old < phase"
    and s_def: "s = inherit_previous (session_new sid phase keys t) old grace now"
  shows "session_rep s {} A" "old_numbers s {} A \<subseteq> {ps_key_phase old} \<times> {q. unat q \<in> A}"
    "phases s \<subseteq> {phase, ps_key_phase old}"
    "ps_key_phase old \<in> phases s \<Longrightarrow> {ps_key_phase old} \<times> {q. unat q \<in> A} \<subseteq> old_numbers s {} A"
  using assms(1,2)
  by (auto simp: s_def session_rep_def inherit_previous_def session_new_def replay_rep_default old_numbers_def
      phases_def)

section \<open>Sealing and opening\<close>

lemma session_seal_Inr:
  assumes "session_seal p s k m = (Inr pkt, s')"
  shows "kind (header pkt) = k" "k \<noteq> Handshake" "key_phase (header pkt) = ps_key_phase s"
    "sequence (header pkt) = next_send_sequence s" "session_id (header pkt) = ps_session_id s"
    "next_send_sequence s \<noteq> - 1" "s' = s\<lparr>next_send_sequence := next_send_sequence s + 1\<rparr>"
    "crypt p True (send_key (ps_keys s)) (packet_nonce (key_phase (header pkt)) (sequence (header pkt)))
       (header_encode (header pkt)) m = Inr (payload pkt)"
  using assms by (auto simp: session_seal_def keys_seal_def Let_def split: if_splits sum.splits)

lemma unat_add_1: "(w :: u64) \<noteq> - 1 \<Longrightarrow> unat (w + 1) = unat w + 1"
  by (metis Suc_eq_plus1 add.commute unatSuc add_eq_0_iff)

lemma seal_run_sorted:
  "sorted_wrt (\<lambda>a b. sequence (header a) < sequence (header b)) (seal_run p s ms) \<and>
   (\<forall>pkt\<in>set (seal_run p s ms). next_send_sequence s \<le> sequence (header pkt) \<and>
      key_phase (header pkt) = ps_key_phase s)"
proof (induction p s ms rule: seal_run.induct)
  case (2 p s k m ms)
  obtain r s' where c: "session_seal p s k m = (r, s')" by fastforce
  show ?case
  proof (cases r)
    case (Inl e)
    then have "s' = s" using c by (auto simp: session_seal_def Let_def split: if_splits sum.splits)
    with 2 c Inl show ?thesis by simp
  next
    case (Inr pkt)
    note S = session_seal_Inr [OF c [unfolded Inr]]
    have "next_send_sequence s < next_send_sequence s'"
      using unat_add_1 [OF S(6)] S(7) by (simp add: word_less_nat_alt)
    then show ?thesis using 2(2) [OF c [symmetric]] Inr c S(3,4,7) by (fastforce intro: less_imp_le less_le_trans)
  qed
qed simp

lemma open_phase_paired:
  assumes "lawful_aead p" "replay_rep w A" "unat (sequence (header pkt)) \<notin> A"
    "\<And>a. a \<in> A \<Longrightarrow> a < unat (sequence (header pkt)) + WINDOW"
    "crypt p True (receive_key keys) (packet_nonce (key_phase (header pkt)) (sequence (header pkt)))
       (header_encode (header pkt)) m = Inr (payload pkt)"
  shows "\<exists>w'. open_phase p keys w pkt = (Inr m, w')"
proof -
  have "finite A" using assms(2) by (simp add: replay_rep_def)
  with assms(2-4) have "fst (check_and_record w (sequence (header pkt))) = Inr ()"
    by (intro rw.in_window_accepted) auto
  with assms(1,5) show ?thesis
    by (cases "check_and_record w (sequence (header pkt))")
      (auto simp: open_phase_def keys_open_def crypt_inverse)
qed

lemma session_open_paired:
  assumes "lawful_aead p" "session_rep s A B" "kind (header pkt) \<noteq> Handshake"
    "session_id (header pkt) = ps_session_id s" "key_phase (header pkt) = ps_key_phase s"
    "unat (sequence (header pkt)) \<notin> A" "\<And>a. a \<in> A \<Longrightarrow> a < unat (sequence (header pkt)) + WINDOW"
    "crypt p True (receive_key (ps_keys s)) (packet_nonce (key_phase (header pkt)) (sequence (header pkt)))
       (header_encode (header pkt)) m = Inr (payload pkt)"
  obtains s' where "session_open p s pkt now = (Inr m, s')"
    "session_rep s' (insert (unat (sequence (header pkt))) A) B"
proof -
  have rep: "replay_rep (receive_replay s) A" using assms(2) by (simp add: session_rep_def)
  from open_phase_paired [OF assms(1) rep assms(6,7,8)]
  obtain w' where w: "open_phase p (ps_keys s) (receive_replay s) pkt = (Inr m, w')" by auto
  show ?thesis
  proof (rule that)
    show "session_open p s pkt now = (Inr m, s\<lparr>receive_replay := w'\<rparr>)"
      using assms(3-5) w by (simp add: session_open_def)
    show "session_rep (s\<lparr>receive_replay := w'\<rparr>) (insert (unat (sequence (header pkt))) A) B"
      using assms(2) open_phase_accept(2) [OF w rep] by (simp add: session_rep_def split: option.splits)
  qed
qed

lemma session_seal_succeeds:
  assumes "lawful_aead p" "length (send_key (ps_keys s)) = 32" "k \<noteq> Handshake" "length m < AEAD_MAX"
    "unat (next_send_sequence s) + 1 < 2 ^ 64"
  obtains pkt where "session_seal p s k m = (Inr pkt, s\<lparr>next_send_sequence := next_send_sequence s + 1\<rparr>)"
proof -
  have "next_send_sequence s \<noteq> - 1" using assms(5) by (auto simp: unsigned_minus_1_eq_mask mask_eq_exp_minus_1)
  define h where "h = \<lparr>kind = k, key_phase = ps_key_phase s, sequence = next_send_sequence s,
    session_id = ps_session_id s\<rparr>"
  obtain c where "crypt p True (send_key (ps_keys s)) (packet_nonce (key_phase h) (sequence h)) (header_encode h) m = Inr c"
    using crypt_succeeds [OF assms(1,2,4)] by blast
  with assms(3) \<open>next_send_sequence s \<noteq> - 1\<close> show ?thesis
    by (intro that [of "\<lparr>header = h, payload = c\<rparr>"]) (simp add: session_seal_def keys_seal_def h_def)
qed

text \<open>What the \<open>i\<close>-th packet of a run carries.\<close>

definition sealed_as :: "prims \<Rightarrow> protected_session \<Rightarrow> nat \<Rightarrow> packet_kind \<times> bytes \<Rightarrow> packet \<Rightarrow> bool" where
  "sealed_as p s n msg pkt \<longleftrightarrow>
     kind (header pkt) = fst msg \<and> key_phase (header pkt) = ps_key_phase s \<and>
     session_id (header pkt) = ps_session_id s \<and> unat (sequence (header pkt)) = n \<and>
     crypt p True (send_key (ps_keys s)) (packet_nonce (key_phase (header pkt)) (sequence (header pkt)))
       (header_encode (header pkt)) (snd msg) = Inr (payload pkt)"

lemma seal_run_nth:
  assumes "lawful_aead p" "length (send_key (ps_keys s)) = 32"
    "\<forall>(k, m)\<in>set ms. k \<noteq> Handshake \<and> length m < AEAD_MAX"
    "unat (next_send_sequence s) + length ms < 2 ^ 64"
  shows "length (seal_run p s ms) = length ms \<and>
    (\<forall>i<length ms. sealed_as p s (unat (next_send_sequence s) + i) (ms ! i) (seal_run p s ms ! i))"
  using assms
proof (induction ms arbitrary: s)
  case (Cons x ms)
  obtain k m where x: "x = (k, m)" by fastforce
  define s' where "s' = s\<lparr>next_send_sequence := next_send_sequence s + 1\<rparr>"
  from Cons.prems obtain pkt where c: "session_seal p s k m = (Inr pkt, s')"
    unfolding s'_def by (auto simp: x elim!: session_seal_succeeds [where p = p and s = s and k = k and m = m])
  note S = session_seal_Inr [OF c]
  have n: "unat (next_send_sequence s') = unat (next_send_sequence s) + 1"
    using unat_add_1 [OF S(6)] by (simp add: s'_def)
  have IH: "length (seal_run p s' ms) = length ms \<and>
      (\<forall>i<length ms. sealed_as p s' (unat (next_send_sequence s') + i) (ms ! i) (seal_run p s' ms ! i))"
    using Cons.prems n by (intro Cons.IH) (auto simp: s'_def)
  have "sealed_as p s (unat (next_send_sequence s) + i) ((x # ms) ! i) (seal_run p s (x # ms) ! i)"
    if "i < length (x # ms)" for i
  proof (cases i)
    case 0
    then show ?thesis using S c x by (simp add: sealed_as_def)
  next
    case (Suc j)
    then show ?thesis using IH that n c x by (auto simp: sealed_as_def s'_def)
  qed
  then show ?case using IH c x by simp
qed simp

lemma open_run_any_order:
  assumes "lawful_aead p" "session_rep s A B" "distinct (map fst xs)" "A \<subseteq> {..<N}" "N \<le> WINDOW"
    and snd: "\<forall>(pkt, now)\<in>set xs. unat (sequence (header pkt)) < N \<and> unat (sequence (header pkt)) \<notin> A \<and>
       fst (f (unat (sequence (header pkt)))) \<noteq> Handshake \<and>
       sealed_as p t (unat (sequence (header pkt))) (f (unat (sequence (header pkt)))) pkt"
    and "inj_on (\<lambda>pkt. unat (sequence (header pkt))) (fst ` set xs)"
    and "ps_session_id t = ps_session_id s" "ps_key_phase t = ps_key_phase s"
      "send_key (ps_keys t) = receive_key (ps_keys s)"
  shows "fst (open_run p s xs) =
    map (\<lambda>(pkt, now). ((ps_key_phase s, sequence (header pkt)), snd (f (unat (sequence (header pkt)))))) xs"
  using assms
proof (induction xs arbitrary: s A)
  case (Cons x xs)
  obtain pkt now where x: "x = (pkt, now)" by fastforce
  let ?q = "unat (sequence (header pkt))"
  have q: "?q < N" "?q \<notin> A" "fst (f ?q) \<noteq> Handshake" "sealed_as p t ?q (f ?q) pkt"
    using Cons.prems(6) x by auto
  have win: "\<And>a. a \<in> A \<Longrightarrow> a < ?q + WINDOW" using Cons.prems(4,5) by fastforce
  obtain s' where o: "session_open p s pkt now = (Inr (snd (f ?q)), s')" and rep: "session_rep s' (insert ?q A) B"
    using q win Cons.prems(8-) unfolding sealed_as_def
    by (auto intro: session_open_paired [OF Cons.prems(1,2), of pkt "snd (f ?q)" now])
  have frame: "ps_session_id s' = ps_session_id s" "ps_key_phase s' = ps_key_phase s" "ps_keys s' = ps_keys s"
    using session_open_frame [OF o] by auto
  have "unat (sequence (header pkt')) \<noteq> ?q" if "(pkt', now') \<in> set xs" for pkt' now'
    using Cons.prems(3,7) that x by (force simp: inj_on_def)
  then have "fst (open_run p s' xs) =
      map (\<lambda>(pkt, now). ((ps_key_phase s', sequence (header pkt)), snd (f (unat (sequence (header pkt)))))) xs"
    using Cons.prems frame q(1) rep x by (intro Cons.IH [of s' "insert ?q A"]) (auto simp: inj_on_def)
  then show ?case using o x q(4) frame Cons.prems(9)
    by (auto simp: sealed_as_def split: prod.splits)
qed simp

section \<open>Properties\<close>

text \<open>
  C4. Every packet is delivered at most once, across a rekey: the numbers (key phase and sequence)
  of the packets a session accepts, followed by those its successor accepts, are pairwise
  different, when the successor has a later phase and inherits the predecessor's keys for the
  grace period, whatever packets arrive at either.
\<close>

theorem session_delivers_once:
  assumes "session_reach p old" "open_run p old xs = (ms, old')" "ps_key_phase old < phase"
    and "open_run p (inherit_previous (session_new sid phase keys t) old' grace now) ys = (ms', s')"
  shows "distinct (map fst (ms @ ms'))"
proof -
  obtain A B where "session_rep old A B" using session_reach_inv [OF assms(1)] by (auto simp: session_inv_def)
  from this assms(2) obtain A' B' where old': "session_rep old' A' B'" "phases old' = phases old"
    "distinct (map fst ms)" "fst ` set ms \<inter> old_numbers old A B = {}"
    "old_numbers old' A' B' = fst ` set ms \<union> old_numbers old A B" by (rule open_run_once)
  have "ps_key_phase old' \<le> ps_key_phase old"
    using session_rep_phases [OF \<open>session_rep old A B\<close>, of "ps_key_phase old'"] old'(2) by (auto simp: phases_def)
  moreover have "ps_key_phase old \<le> ps_key_phase old'"
    using session_rep_phases [OF old'(1), of "ps_key_phase old"] old'(2) by (auto simp: phases_def)
  ultimately have ph: "ps_key_phase old' = ps_key_phase old" by simp
  define s where "s = inherit_previous (session_new sid phase keys t) old' grace now"
  have "ps_key_phase old' < phase" using ph assms(3) by simp
  note F = inherit_previous_fresh [OF old'(1) this s_def]
  from F(1) assms(4) [folded s_def] obtain A2 B2 where new: "session_rep s' A2 B2" "phases s' = phases s"
    "distinct (map fst ms')" "fst ` set ms' \<inter> old_numbers s {} A' = {}"
    "old_numbers s' A2 B2 = fst ` set ms' \<union> old_numbers s {} A'" by (rule open_run_once)
  have "fst ` set ms \<inter> fst ` set ms' = {}"
  proof (rule ccontr)
    assume "\<not> ?thesis"
    then obtain k q where kq: "(k, q) \<in> fst ` set ms" "(k, q) \<in> fst ` set ms'" by auto
    have "(k, q) \<in> phases s \<times> UNIV" using kq(2) new(2,5) old_numbers_phases [of s' A2 B2] by blast
    then have k: "k \<in> phases s" by simp
    have kq': "(k, q) \<in> old_numbers old' A' B'" using kq(1) old'(5) by blast
    then have "k \<in> phases old'" using old_numbers_phases [of old' A' B'] by blast
    then have "k \<le> ps_key_phase old'" by (rule session_rep_phases [OF old'(1)])
    with k F(3) \<open>ps_key_phase old' < phase\<close> have keq: "k = ps_key_phase old'" by auto
    then have "unat q \<in> A'" using kq' old_numbers_current [OF old'(1)] by simp
    then have "(k, q) \<in> old_numbers s {} A'" using F(4) k keq by auto
    with kq(2) new(4) show False by blast
  qed
  with old'(3) new(3) show ?thesis by auto
qed

theorem session_delivers_once_witness:
  "distinct (map fst (fst (open_run plain_prims (session_new ex_sid 3 ex_keys_r 0) (ex_arrivals @ ex_arrivals)) @
     fst (open_run plain_prims (inherit_previous (session_new ex_sid 4 ex_keys_i 10)
       (snd (open_run plain_prims (session_new ex_sid 3 ex_keys_r 0) (ex_arrivals @ ex_arrivals))) 100 10) ex_arrivals)))"
proof -
  have "ps_key_phase (session_new ex_sid 3 ex_keys_r 0) < 4" by (simp add: session_new_def)
  from session_delivers_once [OF session_reach.new prod.collapse [symmetric] this prod.collapse [symmetric]]
  show ?thesis .
qed

text \<open>
  C18. No two packets a session seals carry the same nonce: the sequence numbers of a run grow, and
  the send counter never wraps.
\<close>

theorem seal_nonces_distinct:
  "distinct (map (\<lambda>pkt. packet_nonce (key_phase (header pkt)) (sequence (header pkt))) (seal_run p s ms))"
proof -
  have "distinct (map (\<lambda>pkt. sequence (header pkt)) (seal_run p s ms))"
    using seal_run_sorted [of p s ms] strict_sorted_iff [of "map (\<lambda>pkt. sequence (header pkt)) (seal_run p s ms)"]
    by (simp add: sorted_wrt_map)
  then show ?thesis by (auto simp: distinct_map inj_on_def)
qed

text \<open>
  C16. Up to 2048 messages sealed by one end are all delivered by the other, in whatever order their
  packets arrive: each packet opens to the message it was made from.
\<close>

theorem session_delivers_any_order:
  assumes "lawful_aead p" "send_key ki = receive_key kr" "length (send_key ki) = 32"
    "\<forall>(k, m)\<in>set ms. k \<noteq> Handshake \<and> length m < AEAD_MAX" "length ms \<le> WINDOW"
    "distinct (map fst xs)" "fst ` set xs \<subseteq> set (seal_run p (session_new sid phase ki t) ms)"
  shows "map snd (fst (open_run p (session_new sid phase kr t') xs)) =
           map (\<lambda>(pkt, now). snd (ms ! unat (sequence (header pkt)))) xs"
proof -
  let ?s = "session_new sid phase ki t" and ?r = "session_new sid phase kr t'"
  have new: "next_send_sequence ?s = 0" "ps_keys ?s = ki" "ps_session_id ?s = sid" "ps_key_phase ?s = phase"
    "ps_keys ?r = kr" "ps_session_id ?r = sid" "ps_key_phase ?r = phase"
    by (simp_all add: session_new_def)
  have run: "length (seal_run p ?s ms) = length ms"
    "\<And>i. i < length ms \<Longrightarrow> sealed_as p ?s i (ms ! i) (seal_run p ?s ms ! i)"
    using seal_run_nth [OF assms(1), of ?s ms] assms(3-5) new by auto
  have at: "unat (sequence (header pkt)) < length ms \<and> pkt = seal_run p ?s ms ! unat (sequence (header pkt)) \<and>
      sealed_as p ?s (unat (sequence (header pkt))) (ms ! unat (sequence (header pkt))) pkt"
    if "pkt \<in> fst ` set xs" for pkt
  proof -
    from that assms(7) obtain i where "i < length ms" "pkt = seal_run p ?s ms ! i"
      by (metis in_set_conv_nth run(1) subsetD)
    moreover from this run(2) [of i] have "unat (sequence (header pkt)) = i" by (simp add: sealed_as_def)
    ultimately show ?thesis using run(2) [of i] by simp
  qed
  then have "inj_on (\<lambda>pkt. unat (sequence (header pkt))) (fst ` set xs)" 
    by (intro inj_onI) metis
  moreover have "\<forall>(pkt, now)\<in>set xs. unat (sequence (header pkt)) < length ms \<and> unat (sequence (header pkt)) \<notin> {} \<and>
      fst (ms ! unat (sequence (header pkt))) \<noteq> Handshake \<and>
      sealed_as p ?s (unat (sequence (header pkt))) (ms ! unat (sequence (header pkt))) pkt"
  proof (clarify, intro conjI)
    fix pkt now assume "(pkt, now) \<in> set xs"
    then have "pkt \<in> fst ` set xs" by force
    note A = at [OF this]
    show "unat (sequence (header pkt)) < length ms" using A by simp
    then have "ms ! unat (sequence (header pkt)) \<in> set ms" by simp
    with assms(4) show "fst (ms ! unat (sequence (header pkt))) \<noteq> Handshake" by auto
    show "sealed_as p ?s (unat (sequence (header pkt))) (ms ! unat (sequence (header pkt))) pkt" using A by simp
  qed simp
  ultimately have "fst (open_run p ?r xs) =
      map (\<lambda>(pkt, now). ((ps_key_phase ?r, sequence (header pkt)), snd (ms ! unat (sequence (header pkt))))) xs"
    using assms(1,2,5,6) new by (intro open_run_any_order [where A = "{}" and B = "{}" and N = "length ms" and t = ?s]) auto
  then show ?thesis by (simp add: case_prod_beta)
qed

theorem session_delivers_any_order_witness:
  "map snd (fst (open_run plain_prims (session_new ex_sid 3 ex_keys_r 1) ex_arrivals)) = [[], [10], [20, 21]]"
proof -
  have seq: "map (\<lambda>pkt. sequence (header pkt)) ex_packets = [0, 1, 2]" "length ex_packets = 3"
    by (simp_all add: ex_packets_def ex_messages_def session_seal_def keys_seal_def crypt_def plain_prims_def Let_def
        session_new_def ex_keys_i_def)
  then have at: "sequence (header (ex_packets ! 0)) = 0" "sequence (header (ex_packets ! 1)) = 1"
    "sequence (header (ex_packets ! 2)) = 2"
    by (auto simp: list_eq_iff_nth_eq numeral_3_eq_3 nth_Cons' split: if_splits)
  then have "distinct (map fst ex_arrivals)" "fst ` set ex_arrivals \<subseteq> set ex_packets"
    using seq(2) by (auto simp: ex_arrivals_def)
  then show ?thesis
    using at session_delivers_any_order [OF lawfulD(3) [OF plain_prims_lawful], of ex_keys_i ex_keys_r ex_messages ex_arrivals ex_sid 3 0 1]
    by (simp add: ex_keys_i_def ex_keys_r_def ex_messages_def AEAD_MAX_def ex_arrivals_def ex_packets_def)
qed

text \<open>
  C17. A packet that opens is authentic: its payload is the encryption of the plaintext returned,
  under the receive key of the current phase, or of the previous phase before its grace period
  ends, with the packet's own header as associated data. A packet that does not open, because of
  its kind, session, phase, tag or sequence number, leaves the session unchanged.
\<close>

theorem session_open_authentic:
  assumes "lawful_aead p" "session_open p s pkt now = (r, s')"
  shows "case r of
      Inr m \<Rightarrow> \<exists>keys. (key_phase (header pkt) = ps_key_phase s \<and> keys = ps_keys s \<or>
          (\<exists>prev. previous s = Some prev \<and> key_phase (header pkt) = prev_key_phase prev \<and>
             now \<le> prev_expires_at prev \<and> keys = prev_keys prev)) \<and>
        session_id (header pkt) = ps_session_id s \<and> kind (header pkt) \<noteq> Handshake \<and>
        crypt p True (receive_key keys) (packet_nonce (key_phase (header pkt)) (sequence (header pkt)))
          (header_encode (header pkt)) m = Inr (payload pkt)
    | Inl e \<Rightarrow> s' = s"
proof (cases r)
  case (Inl e)
  with assms(2) show ?thesis using session_open_error by simp
next
  case (Inr m)
  have *: "crypt p True (receive_key keys) (packet_nonce (key_phase (header pkt)) (sequence (header pkt)))
      (header_encode (header pkt)) m = Inr (payload pkt)" if "open_phase p keys w pkt = (Inr m, w')" for keys w w'
    using that crypt_inverse [OF assms(1)] by (auto simp: open_phase_def keys_open_def split: sum.splits prod.splits)
  from assms(2) Inr obtain keys w w' where "open_phase p keys w pkt = (Inr m, w')"
    "key_phase (header pkt) = ps_key_phase s \<and> keys = ps_keys s \<or>
       (\<exists>prev. previous s = Some prev \<and> key_phase (header pkt) = prev_key_phase prev \<and>
          now \<le> prev_expires_at prev \<and> keys = prev_keys prev)"
    "session_id (header pkt) = ps_session_id s" "kind (header pkt) \<noteq> Handshake"
    by (auto simp: session_open_def split: if_splits option.splits prod.splits)
  with Inr * [OF this(1)] show ?thesis by simp blast
qed

theorem session_open_authentic_witness:
  "snd (session_open plain_prims (session_new ex_sid 3 ex_keys_i 0)
     \<lparr>header = \<lparr>kind = Data, key_phase = 2, sequence = 0, session_id = ex_sid\<rparr>, payload = [1]\<rparr> 0)
   = session_new ex_sid 3 ex_keys_i 0"
  using session_open_authentic [OF lawfulD(3) [OF plain_prims_lawful] prod.collapse [symmetric],
      of "session_new ex_sid 3 ex_keys_i 0"
        "\<lparr>header = \<lparr>kind = Data, key_phase = 2, sequence = 0, session_id = ex_sid\<rparr>, payload = [1]\<rparr>" 0]
  by (simp add: session_open_def session_new_def)

end
