(* ===== verification/Auth_Handshake.thy ===== *)
theory Auth_Handshake
  imports Handshake Session
begin

text \<open>
  The authenticated handshake of \<^verbatim>\<open>crates/rvpn-protocol/src/authenticated_handshake.rs\<close>: an ephemeral
  key agreement whose transcript each side signs, with the signatures sealed under keys derived
  from the agreement. Random draws, the wall clock (for certificates) and the monotonic clock
  (for the new session) are arguments. A slice copied into an array of another length panics in
  Rust; that outcome is the error \<open>HsPanic\<close>.
\<close>

section \<open>Operations\<close>

datatype handshake_error =
    HsCrypto crypto_error
  | HsProtocol protocol_error
  | HsUnexpectedMessage
  | HsUnexpectedSession
  | HsAuthenticationFailed
  | HsPanic

record initiator_handshake =
  ih_identity :: auth_identity
  ih_verifier :: auth_verifier
  ih_key_pair :: ephemeral_key_pair
  ih_initiation :: handshake_message

record responder_handshake =
  rh_verifier :: auth_verifier
  rh_shared_secret :: bytes
  rh_handshake_keys :: handshake_keys
  rh_transcript :: handshake_transcript
  rh_session_id :: session_id
  rh_key_phase :: u32

fun produce_proof :: "prims \<Rightarrow> auth_identity \<Rightarrow> bytes \<Rightarrow> auth_proof" where
  "produce_proof p (IdPinnedKey seed) data = ProofPinnedKey (ed25519_sign p seed data)"
| "produce_proof p (IdCertificate seed cert) data =
     ProofCertificate (certificate_encode cert) (ed25519_sign p seed data)"

fun verify_proof :: "prims \<Rightarrow> auth_verifier \<Rightarrow> bytes \<Rightarrow> auth_proof \<Rightarrow> u64 \<Rightarrow> handshake_error + bytes option" where
  "verify_proof p (VerPinnedKey expected) data (ProofPinnedKey sig) now =
     (if identity_verify p expected data sig then Inr (Some expected) else Inl HsAuthenticationFailed)"
| "verify_proof p (VerCertificate ca) data (ProofCertificate certificate signature) now =
     (let cert = certificate_decode certificate in
      if \<not> certificate_verify p cert ca now then Inl HsAuthenticationFailed
      else if \<not> identity_verify p (subject cert) data signature then Inl HsAuthenticationFailed
      else Inr (Some (subject cert)))"
| "verify_proof p _ data _ now = Inl HsAuthenticationFailed"

text \<open>\<^verbatim>\<open>copy_from_slice\<close> into an array of length \<open>n\<close>, and \<^verbatim>\<open>try_into\<close> a reference to one.\<close>

definition copy_array :: "nat \<Rightarrow> bytes \<Rightarrow> handshake_error + bytes" where
  "copy_array n bs = (if length bs = n then Inr bs else Inl HsPanic)"

definition try_array :: "nat \<Rightarrow> bytes \<Rightarrow> handshake_error + bytes" where
  "try_array n bs = (if length bs = n then Inr bs else Inl HsAuthenticationFailed)"

definition initiator_start ::
  "prims \<Rightarrow> auth_identity \<Rightarrow> auth_verifier \<Rightarrow> bytes option \<Rightarrow> bytes option \<Rightarrow>
   handshake_error + (initiator_handshake \<times> handshake_message)" where
  "initiator_start p identity verifier key_draw random_draw =
     and_then (map_err HsCrypto (ephemeral_generate p key_draw)) (\<lambda>key_pair.
     and_then (map_err HsCrypto (secret_random random_draw)) (\<lambda>random.
       let public_key = eph_public key_pair;
           mac1 = compute_mac1 p (verifier_mac1_key p verifier) public_key random None;
           initiation = Initiation public_key random None mac1
       in Inr (\<lparr>ih_identity = identity, ih_verifier = verifier, ih_key_pair = key_pair,
                ih_initiation = initiation\<rparr>, initiation)))"

definition attach_cookie :: "prims \<Rightarrow> initiator_handshake \<Rightarrow> bytes \<Rightarrow> initiator_handshake" where
  "attach_cookie p self cookie =
     (case ih_initiation self of
        Initiation public_key random _ _ \<Rightarrow>
          self\<lparr>ih_initiation := Initiation public_key random (Some cookie)
            (compute_mac1 p (verifier_mac1_key p (ih_verifier self)) public_key random (Some cookie))\<rparr>
      | _ \<Rightarrow> self)"

definition finish_for_session ::
  "prims \<Rightarrow> initiator_handshake \<Rightarrow> handshake_message \<Rightarrow> session_id \<Rightarrow> u32 \<Rightarrow> u64 \<Rightarrow> instant \<Rightarrow>
   handshake_error + (handshake_message \<times> protected_session \<times> bytes option)" where
  "finish_for_session p self response expected phase unix now =
     (case response of
        Response public_key random sid sealed_proof \<Rightarrow>
          if sid \<noteq> expected then Inl HsUnexpectedSession
          else
            let ini = message_encode (ih_initiation self) in
            and_then (map_err HsCrypto (agree p (ih_key_pair self) public_key)) (\<lambda>shared.
            and_then (map_err HsCrypto (handshake_keys_derive p shared
                (handshake_salt p ini (response_public_bytes public_key random sid)))) (\<lambda>keys.
            and_then (map_err (\<lambda>_. HsAuthenticationFailed) (open_response p keys ini sealed_proof)) (\<lambda>opened.
            and_then (try_array PROOF_BODY_LEN opened) (\<lambda>body.
            and_then (map_err HsProtocol (decode_body body)) (\<lambda>proof.
            and_then (map_err HsProtocol (transcript_new (ih_initiation self))) (\<lambda>transcript.
            and_then (map_err HsProtocol (server_authentication_input transcript public_key random sid)) (\<lambda>data.
            and_then (verify_proof p (ih_verifier self) data proof unix) (\<lambda>remote_identity.
            and_then (map_err HsProtocol (set_response transcript response)) (\<lambda>transcript.
            and_then (map_err HsProtocol (client_authentication_input transcript)) (\<lambda>finish_data.
              let client_proof = produce_proof p (ih_identity self) finish_data;
                  aad = ini @ message_encode response in
            and_then (map_err HsCrypto (seal_finish p keys aad (encode_body client_proof))) (\<lambda>sealed_finish.
            and_then (copy_array SEALED_PROOF_LEN sealed_finish) (\<lambda>sealed_finish.
              let fin = Finish sealed_finish in
            and_then (map_err HsProtocol (final_bytes transcript fin)) (\<lambda>final.
            and_then (map_err HsCrypto (session_keys_derive p shared (transcript_hash p final) Initiator)) (\<lambda>keys.
              Inr (fin, session_new sid phase keys now, remote_identity)))))))))))))))
      | _ \<Rightarrow> Inl HsUnexpectedMessage)"

definition initiator_finish ::
  "prims \<Rightarrow> initiator_handshake \<Rightarrow> handshake_message \<Rightarrow> u64 \<Rightarrow> instant \<Rightarrow>
   handshake_error + (handshake_message \<times> protected_session \<times> bytes option)" where
  "initiator_finish p self response unix now =
     (case response of
        Response _ _ sid _ \<Rightarrow> finish_for_session p self response sid 0 unix now
      | _ \<Rightarrow> Inl HsUnexpectedMessage)"

definition authenticates_response ::
  "prims \<Rightarrow> initiator_handshake \<Rightarrow> handshake_message \<Rightarrow> u64 \<Rightarrow> handshake_error + bool" where
  "authenticates_response p self response unix =
     (case response of
        Response public_key random sid sealed_proof \<Rightarrow>
          let ini = message_encode (ih_initiation self) in
          (case agree p (ih_key_pair self) public_key of Inl _ \<Rightarrow> Inr False | Inr shared \<Rightarrow>
          (case handshake_keys_derive p shared
              (handshake_salt p ini (response_public_bytes public_key random sid)) of
             Inl _ \<Rightarrow> Inr False | Inr keys \<Rightarrow>
          (case open_response p keys ini sealed_proof of Inl _ \<Rightarrow> Inr False | Inr opened \<Rightarrow>
          (case try_array PROOF_BODY_LEN opened of Inl _ \<Rightarrow> Inr False | Inr body \<Rightarrow>
          (case decode_body body of Inl _ \<Rightarrow> Inr False | Inr proof \<Rightarrow>
            and_then (map_err HsProtocol (transcript_new (ih_initiation self))) (\<lambda>transcript.
            and_then (map_err HsProtocol (server_authentication_input transcript public_key random sid)) (\<lambda>data.
              Inr (is_ok (verify_proof p (ih_verifier self) data proof unix)))))))))
      | _ \<Rightarrow> Inl HsUnexpectedMessage)"

definition accept_for_session ::
  "prims \<Rightarrow> auth_identity \<Rightarrow> auth_verifier \<Rightarrow> handshake_message \<Rightarrow> session_id \<Rightarrow> u32 \<Rightarrow>
   bytes option \<Rightarrow> bytes option \<Rightarrow> handshake_error + (responder_handshake \<times> handshake_message)" where
  "accept_for_session p identity verifier initiation sid phase key_draw random_draw =
     (case initiation of
        Initiation public_key _ _ _ \<Rightarrow>
          let ini = message_encode initiation in
          and_then (map_err HsCrypto (ephemeral_generate p key_draw)) (\<lambda>key_pair.
          and_then (map_err HsCrypto (agree p key_pair public_key)) (\<lambda>shared.
          and_then (map_err HsCrypto (secret_random random_draw)) (\<lambda>random.
            let eph_pub = eph_public key_pair in
          and_then (map_err HsCrypto (handshake_keys_derive p shared
              (handshake_salt p ini (response_public_bytes eph_pub random sid)))) (\<lambda>keys.
          and_then (map_err HsProtocol (transcript_new initiation)) (\<lambda>transcript.
          and_then (map_err HsProtocol (server_authentication_input transcript eph_pub random sid)) (\<lambda>data.
          and_then (map_err HsCrypto (seal_response p keys ini (encode_body (produce_proof p identity data)))) (\<lambda>sealed.
          and_then (copy_array SEALED_PROOF_LEN sealed) (\<lambda>sealed_proof.
            let response = Response eph_pub random sid sealed_proof in
          and_then (map_err HsProtocol (set_response transcript response)) (\<lambda>transcript.
            Inr (\<lparr>rh_verifier = verifier, rh_shared_secret = shared, rh_handshake_keys = keys,
                  rh_transcript = transcript, rh_session_id = sid, rh_key_phase = phase\<rparr>, response))))))))))
      | _ \<Rightarrow> Inl HsUnexpectedMessage)"

definition responder_accept ::
  "prims \<Rightarrow> auth_identity \<Rightarrow> auth_verifier \<Rightarrow> handshake_message \<Rightarrow> bytes option \<Rightarrow>
   bytes option \<Rightarrow> bytes option \<Rightarrow> handshake_error + (responder_handshake \<times> handshake_message)" where
  "responder_accept p identity verifier initiation sid_draw key_draw random_draw =
     and_then (map_err HsCrypto (secret_random sid_draw)) (\<lambda>sid.
       accept_for_session p identity verifier initiation (SessionId sid) 0 key_draw random_draw)"

definition responder_finish ::
  "prims \<Rightarrow> responder_handshake \<Rightarrow> handshake_message \<Rightarrow> u64 \<Rightarrow> instant \<Rightarrow>
   handshake_error + (protected_session \<times> bytes option)" where
  "responder_finish p self fin unix now =
     (case fin of
        Finish sealed_proof \<Rightarrow>
          (case tr_response (rh_transcript self) of
             None \<Rightarrow> Inl HsUnexpectedMessage
           | Some response \<Rightarrow>
               let aad = message_encode (tr_initiation (rh_transcript self)) @ message_encode response in
               and_then (map_err (\<lambda>_. HsAuthenticationFailed) (open_finish p (rh_handshake_keys self) aad sealed_proof)) (\<lambda>opened.
               and_then (try_array PROOF_BODY_LEN opened) (\<lambda>body.
               and_then (map_err HsProtocol (decode_body body)) (\<lambda>proof.
               and_then (map_err HsProtocol (client_authentication_input (rh_transcript self))) (\<lambda>data.
               and_then (verify_proof p (rh_verifier self) data proof unix) (\<lambda>remote_identity.
               and_then (map_err HsProtocol (final_bytes (rh_transcript self) fin)) (\<lambda>final.
               and_then (map_err HsCrypto (session_keys_derive p (rh_shared_secret self) (transcript_hash p final) Responder)) (\<lambda>keys.
                 Inr (session_new (rh_session_id self) (rh_key_phase self) keys now, remote_identity)))))))))
      | _ \<Rightarrow> Inl HsUnexpectedMessage)"

section \<open>Trust\<close>

text \<open>A verifier trusts an identity when it pins its key, or holds the key of the authority that
  certified it for the current time.\<close>

fun identity_key :: "prims \<Rightarrow> auth_identity \<Rightarrow> bytes" where
  "identity_key p (IdPinnedKey seed) = ed25519_public p seed"
| "identity_key p (IdCertificate seed cert) = ed25519_public p seed"

fun wf_identity :: "auth_identity \<Rightarrow> bool" where
  "wf_identity (IdPinnedKey seed) \<longleftrightarrow> length seed = 32"
| "wf_identity (IdCertificate seed cert) \<longleftrightarrow> length seed = 32 \<and> wf_certificate cert"

fun trusts :: "prims \<Rightarrow> auth_verifier \<Rightarrow> auth_identity \<Rightarrow> u64 \<Rightarrow> bool" where
  "trusts p (VerPinnedKey expected) (IdPinnedKey seed) unix \<longleftrightarrow> expected = ed25519_public p seed"
| "trusts p (VerCertificate ca) (IdCertificate seed cert) unix \<longleftrightarrow>
     certificate_verify p cert ca unix \<and> subject cert = ed25519_public p seed"
| "trusts p _ _ unix \<longleftrightarrow> False"

definition server_data :: "handshake_message \<Rightarrow> bytes \<Rightarrow> bytes \<Rightarrow> session_id \<Rightarrow> bytes" where
  "server_data ini public_key random sid =
     join (domain SERVER_AUTH_DOMAIN) [message_encode ini, response_public_bytes public_key random sid]"

definition client_data :: "handshake_message \<Rightarrow> handshake_message \<Rightarrow> bytes" where
  "client_data ini response =
     join (domain CLIENT_AUTH_DOMAIN) [message_encode ini, message_encode response]"

lemma wf_produce_proof:
  "lawful_sig p \<Longrightarrow> wf_identity i \<Longrightarrow> wf_proof (produce_proof p i data)"
  by (cases i) (auto simp: lawful_sig_def)

lemma verify_produced_proof:
  assumes "lawful_sig p" "wf_identity i" "trusts p v i unix"
  shows "verify_proof p v data (produce_proof p i data) unix = Inr (Some (identity_key p i))"
  using assms
  by (cases i; cases v) (auto simp: lawful_sig_def identity_verify_def certificate_decode_encode Let_def)

text \<open>What a verified proof shows: the key returned is the pinned key, or one certified by the
  authority at the time, and it signed the data.\<close>

definition vouched :: "prims \<Rightarrow> auth_verifier \<Rightarrow> bytes \<Rightarrow> u64 \<Rightarrow> bool" where
  "vouched p v key unix \<longleftrightarrow>
     (case v of
        VerPinnedKey expected \<Rightarrow> key = expected
      | VerCertificate ca \<Rightarrow> \<exists>cert. subject cert = key \<and> certificate_verify p cert ca unix)"

lemma verify_proof_Inr:
  assumes "verify_proof p v data pr unix = Inr r"
  shows "\<exists>key sig. r = Some key \<and> vouched p v key unix \<and> identity_verify p key data sig"
  using assms
  by (cases v; cases pr) (auto simp: vouched_def Let_def split: if_splits)

section \<open>The accepted response\<close>

lemma transcript_facts:
  "is_initiation ini \<Longrightarrow> transcript_new ini = Inr \<lparr>tr_initiation = ini, tr_response = None\<rparr>"
  "server_authentication_input \<lparr>tr_initiation = ini, tr_response = r\<rparr> pk rnd sid = Inr (server_data ini pk rnd sid)"
  "is_response resp \<Longrightarrow> set_response \<lparr>tr_initiation = ini, tr_response = r\<rparr> resp =
     Inr \<lparr>tr_initiation = ini, tr_response = Some resp\<rparr>"
  "client_authentication_input \<lparr>tr_initiation = ini, tr_response = Some resp\<rparr> = Inr (client_data ini resp)"
  by (simp_all add: transcript_new_def server_authentication_input_def set_response_def
      client_authentication_input_def server_data_def client_data_def)

lemma accept_Inr:
  assumes "accept_for_session p i v ini sid phase kd rd = Inr (rh, resp)"
  obtains pk0 r0 c0 mac0 kp shared random keys sealed where
    "ini = Initiation pk0 r0 c0 mac0" "ephemeral_generate p kd = Inr kp" "agree p kp pk0 = Inr shared"
    "rd = Some random"
    "handshake_keys_derive p shared (handshake_salt p (message_encode ini)
       (response_public_bytes (eph_public kp) random sid)) = Inr keys"
    "seal_response p keys (message_encode ini)
       (encode_body (produce_proof p i (server_data ini (eph_public kp) random sid))) = Inr sealed"
    "resp = Response (eph_public kp) random sid sealed"
    "rh = \<lparr>rh_verifier = v, rh_shared_secret = shared, rh_handshake_keys = keys,
       rh_transcript = \<lparr>tr_initiation = ini, tr_response = Some resp\<rparr>, rh_session_id = sid, rh_key_phase = phase\<rparr>"
proof (cases ini)
  case (Initiation pk0 r0 c0 mac0)
  with assms show ?thesis
    by (auto simp: accept_for_session_def transcript_facts secret_random_def copy_array_def Let_def
        split: option.splits if_splits intro: that)
qed (use assms in \<open>simp_all add: accept_for_session_def\<close>)

lemma ephemeral_generate_Inr:
  "ephemeral_generate p kd = Inr kp \<Longrightarrow> eph_public kp = x25519_public p (eph_secret kp)"
  by (auto simp: ephemeral_generate_def secret_random_def split: option.splits)

text \<open>An initiator's state is consistent when its initiation carries its own ephemeral key and the
  mac1 tag of the verifier's key.\<close>

definition initiator_inv :: "prims \<Rightarrow> initiator_handshake \<Rightarrow> bool" where
  "initiator_inv p ih \<longleftrightarrow>
     eph_public (ih_key_pair ih) = x25519_public p (eph_secret (ih_key_pair ih)) \<and>
     (\<exists>random cookie. ih_initiation ih = Initiation (eph_public (ih_key_pair ih)) random cookie
        (compute_mac1 p (verifier_mac1_key p (ih_verifier ih)) (eph_public (ih_key_pair ih)) random cookie))"

lemma initiator_inv_start:
  "initiator_start p i v kd rd = Inr (ih, ini) \<Longrightarrow>
     initiator_inv p ih \<and> ih_identity ih = i \<and> ih_verifier ih = v \<and> ini = ih_initiation ih"
  by (auto simp: initiator_start_def initiator_inv_def Let_def dest: ephemeral_generate_Inr)

lemma initiator_inv_attach_cookie:
  "initiator_inv p ih \<Longrightarrow> initiator_inv p (attach_cookie p ih cookie) \<and>
     ih_identity (attach_cookie p ih cookie) = ih_identity ih \<and>
     ih_verifier (attach_cookie p ih cookie) = ih_verifier ih \<and>
     ih_key_pair (attach_cookie p ih cookie) = ih_key_pair ih"
  by (auto simp: initiator_inv_def attach_cookie_def)

lemma finish_for_session_Inr:
  assumes "finish_for_session p ih resp sid phase unix now = Inr (fin, s, remote)"
  obtains pk random sealed_proof shared keys body pr sealed_finish skeys where
    "resp = Response pk random sid sealed_proof" "is_initiation (ih_initiation ih)"
    "agree p (ih_key_pair ih) pk = Inr shared"
    "handshake_keys_derive p shared (handshake_salt p (message_encode (ih_initiation ih))
       (response_public_bytes pk random sid)) = Inr keys"
    "open_response p keys (message_encode (ih_initiation ih)) sealed_proof = Inr body" "length body = 177"
    "decode_body body = Inr pr"
    "verify_proof p (ih_verifier ih) (server_data (ih_initiation ih) pk random sid) pr unix = Inr remote"
    "seal_finish p keys (message_encode (ih_initiation ih) @ message_encode resp)
       (encode_body (produce_proof p (ih_identity ih) (client_data (ih_initiation ih) resp))) = Inr sealed_finish"
    "length sealed_finish = 193" "fin = Finish sealed_finish"
    "session_keys_derive p shared (transcript_hash p (join (domain TRANSCRIPT_DOMAIN)
       [message_encode (ih_initiation ih), message_encode resp, message_encode fin])) Initiator = Inr skeys"
    "s = session_new sid phase skeys now"
proof (cases resp)
  case (Response pk random sid' sealed_proof)
  with assms show ?thesis
    by (cases "is_initiation (ih_initiation ih)")
      (auto simp: finish_for_session_def transcript_facts transcript_new_def try_array_def copy_array_def final_bytes_def Let_def
        split: if_splits intro: that)
qed (use assms in \<open>simp_all add: finish_for_session_def\<close>)

lemma finish_for_session_intro:
  assumes "resp = Response pk random sid sealed_proof" "is_initiation (ih_initiation ih)"
    "agree p (ih_key_pair ih) pk = Inr shared"
    "handshake_keys_derive p shared (handshake_salt p (message_encode (ih_initiation ih))
       (response_public_bytes pk random sid)) = Inr keys"
    "open_response p keys (message_encode (ih_initiation ih)) sealed_proof = Inr body" "length body = 177"
    "decode_body body = Inr pr"
    "verify_proof p (ih_verifier ih) (server_data (ih_initiation ih) pk random sid) pr unix = Inr remote"
    "lawful p" "length (i2r keys) = 32" "wf_identity (ih_identity ih)"
  obtains sealed_finish skeys where
    "finish_for_session p ih resp sid phase unix now =
       Inr (Finish sealed_finish, session_new sid phase skeys now, remote)"
    "seal_finish p keys (message_encode (ih_initiation ih) @ message_encode resp)
       (encode_body (produce_proof p (ih_identity ih) (client_data (ih_initiation ih) resp))) = Inr sealed_finish"
    "session_keys_derive p shared (transcript_hash p (join (domain TRANSCRIPT_DOMAIN)
       [message_encode (ih_initiation ih), message_encode resp, message_encode (Finish sealed_finish)])) Initiator = Inr skeys"
proof -
  let ?body = "encode_body (produce_proof p (ih_identity ih) (client_data (ih_initiation ih) resp))"
  have len: "length ?body = 177" using wf_produce_proof [OF lawfulD(5) [OF assms(9)] assms(11)] by simp
  then obtain sf where sf: "seal_finish p keys (message_encode (ih_initiation ih) @ message_encode resp) ?body = Inr sf"
    using crypt_succeeds [OF lawfulD(3) [OF assms(9)] assms(10), of ?body]
    by (auto simp: seal_finish_def AEAD_MAX_def)
  then have "length sf = 193"
    using crypt_length [OF lawfulD(3) [OF assms(9)]] len by (auto simp: seal_finish_def)
  moreover obtain skeys where "session_keys_derive p shared (transcript_hash p (join (domain TRANSCRIPT_DOMAIN)
       [message_encode (ih_initiation ih), message_encode resp, message_encode (Finish sf)])) Initiator = Inr skeys"
    using session_keys_derive_succeeds [OF lawfulD(1) [OF assms(9)]] by blast
  ultimately show ?thesis
    using assms sf
    by (intro that [of sf skeys])
      (simp_all add: finish_for_session_def transcript_facts try_array_def copy_array_def final_bytes_def)
qed

lemma responder_finish_intro:
  assumes "rh_transcript rh = \<lparr>tr_initiation = ini, tr_response = Some resp\<rparr>"
    "open_finish p (rh_handshake_keys rh) (message_encode ini @ message_encode resp) sealed = Inr body" "length body = 177"
    "decode_body body = Inr pr" "verify_proof p (rh_verifier rh) (client_data ini resp) pr unix = Inr remote"
    "session_keys_derive p (rh_shared_secret rh) (transcript_hash p (join (domain TRANSCRIPT_DOMAIN)
       [message_encode ini, message_encode resp, message_encode (Finish sealed)])) Responder = Inr skeys"
  shows "responder_finish p rh (Finish sealed) unix now =
    Inr (session_new (rh_session_id rh) (rh_key_phase rh) skeys now, remote)"
  using assms by (simp add: responder_finish_def try_array_def transcript_facts final_bytes_def)

lemma accept_succeeds:
  assumes "lawful p" "wf_identity i" "agree p \<lparr>eph_secret = ks, eph_public = x25519_public p ks\<rparr> pk0 = Inr shared"
  shows "\<exists>rh resp. accept_for_session p i v (Initiation pk0 r0 c0 mac0) sid phase (Some ks) (Some random) = Inr (rh, resp)"
proof -
  note L = lawfulD [OF assms(1)]
  let ?ini = "Initiation pk0 r0 c0 mac0"
  obtain keys where keys: "handshake_keys_derive p shared (handshake_salt p (message_encode ?ini)
      (response_public_bytes (x25519_public p ks) random sid)) = Inr keys" "length (r2i keys) = 32"
    using handshake_keys_derive_succeeds [OF L(1)] by blast
  let ?body = "encode_body (produce_proof p i (server_data ?ini (x25519_public p ks) random sid))"
  have len: "length ?body = 177" using wf_produce_proof [OF L(5) assms(2)] by simp
  then obtain sealed where "seal_response p keys (message_encode ?ini) ?body = Inr sealed"
    using crypt_succeeds [OF L(3) keys(2), of ?body] by (auto simp: seal_response_def AEAD_MAX_def)
  moreover from this have "length sealed = 193"
    using crypt_length [OF L(3)] len by (auto simp: seal_response_def)
  ultimately show ?thesis using keys assms(3)
    by (simp add: accept_for_session_def ephemeral_generate_def secret_random_def transcript_facts copy_array_def Let_def)
qed

text \<open>Two parties that pin each other's keys, as a concrete instance.\<close>

definition ex_initiator :: initiator_handshake where
  "ex_initiator = \<lparr>ih_identity = IdPinnedKey (replicate 32 1), ih_verifier = VerPinnedKey (replicate 32 2),
     ih_key_pair = \<lparr>eph_secret = replicate 32 3, eph_public = replicate 32 3\<rparr>,
     ih_initiation = Initiation (replicate 32 3) (replicate 32 4) None
       (compute_mac1 plain_prims (verifier_mac1_key plain_prims (VerPinnedKey (replicate 32 2)))
          (replicate 32 3) (replicate 32 4) None)\<rparr>"

lemma ex_initiator_inv: "initiator_inv plain_prims ex_initiator"
  by (simp add: initiator_inv_def ex_initiator_def plain_prims_def)

lemma ex_accept:
  "\<exists>rh resp. accept_for_session plain_prims (IdPinnedKey (replicate 32 2)) (VerPinnedKey (replicate 32 1))
     (ih_initiation ex_initiator) ex_sid 0 (Some (replicate 32 5)) (Some (replicate 32 6)) = Inr (rh, resp)"
proof -
  have "agree plain_prims \<lparr>eph_secret = replicate 32 5, eph_public = x25519_public plain_prims (replicate 32 5)\<rparr>
      (replicate 32 3) = Inr (replicate 32 8)"
    by (simp add: agree_def plain_prims_def zip_replicate Let_def list_all_iff)
  from accept_succeeds [OF plain_prims_lawful _ this] show ?thesis by (simp add: ex_initiator_def)
qed

lemma authenticates_total:
  "is_initiation (ih_initiation ih) \<Longrightarrow>
     \<exists>b. authenticates_response p ih (Response pk random sid sealed) unix = Inr b"
  by (auto simp: authenticates_response_def transcript_facts Let_def split: sum.splits)

lemma finish_of_authenticates:
  assumes "authenticates_response p ih (Response pk random sid sealed) unix = Inr True"
    "lawful p" "initiator_inv p ih" "wf_identity (ih_identity ih)"
  shows "is_ok (finish_for_session p ih (Response pk random sid sealed) sid phase unix now)"
proof -
  have ini: "is_initiation (ih_initiation ih)" using assms(3) by (auto simp: initiator_inv_def)
  with assms(1) obtain shared keys body pr remote where C:
    "agree p (ih_key_pair ih) pk = Inr shared"
    "handshake_keys_derive p shared (handshake_salt p (message_encode (ih_initiation ih))
       (response_public_bytes pk random sid)) = Inr keys"
    "open_response p keys (message_encode (ih_initiation ih)) sealed = Inr body" "length body = 177"
    "decode_body body = Inr pr"
    "verify_proof p (ih_verifier ih) (server_data (ih_initiation ih) pk random sid) pr unix = Inr remote"
    by (auto simp: authenticates_response_def transcript_facts Let_def try_array_def is_ok_iff
        split: sum.splits if_splits)
  have "length (i2r keys) = 32"
    using handshake_keys_derive_succeeds [OF lawfulD(1) [OF assms(2)], of shared] C(2) by (metis sum.inject(2))
  from refl ini C assms(2) this assms(4) show ?thesis
    by (rule finish_for_session_intro [where phase = phase and now = now]) (simp add: is_ok_iff)
qed

lemma authenticates_of_finish:
  assumes "finish_for_session p ih resp sid phase unix now = Inr (fin, s, remote)"
  shows "authenticates_response p ih resp unix = Inr True"
  using assms by (rule finish_for_session_Inr) (simp add: authenticates_response_def try_array_def transcript_facts)

section \<open>An honest run\<close>

lemma initiator_completes:
  assumes "lawful p" "initiator_inv p ih" "wf_identity (ih_identity ih)" "wf_identity i"
    and "accept_for_session p i v (ih_initiation ih) sid phase key_draw random_draw = Inr (rh, resp)"
    and "trusts p (ih_verifier ih) i unix"
  obtains shared keys sf skeys where
    "rh = \<lparr>rh_verifier = v, rh_shared_secret = shared, rh_handshake_keys = keys,
       rh_transcript = \<lparr>tr_initiation = ih_initiation ih, tr_response = Some resp\<rparr>, rh_session_id = sid, rh_key_phase = phase\<rparr>"
    "finish_for_session p ih resp sid phase unix now =
       Inr (Finish sf, session_new sid phase skeys now, Some (identity_key p i))"
    "seal_finish p keys (message_encode (ih_initiation ih) @ message_encode resp)
      (encode_body (produce_proof p (ih_identity ih) (client_data (ih_initiation ih) resp))) = Inr sf"
    "session_keys_derive p shared (transcript_hash p (join (domain TRANSCRIPT_DOMAIN)
       [message_encode (ih_initiation ih), message_encode resp, message_encode (Finish sf)])) Initiator = Inr skeys"
  using assms(5)
proof (rule accept_Inr)
  fix pk0 r0 c0 mac0 kp shared random keys sealed
  let ?ini = "message_encode (ih_initiation ih)"
  assume A: "ih_initiation ih = Initiation pk0 r0 c0 mac0" "ephemeral_generate p key_draw = Inr kp"
    "agree p kp pk0 = Inr shared"
    "handshake_keys_derive p shared (handshake_salt p ?ini (response_public_bytes (eph_public kp) random sid)) = Inr keys"
    "seal_response p keys ?ini (encode_body (produce_proof p i (server_data (ih_initiation ih) (eph_public kp) random sid))) = Inr sealed"
    "resp = Response (eph_public kp) random sid sealed"
    "rh = \<lparr>rh_verifier = v, rh_shared_secret = shared, rh_handshake_keys = keys,
       rh_transcript = \<lparr>tr_initiation = ih_initiation ih, tr_response = Some resp\<rparr>, rh_session_id = sid, rh_key_phase = phase\<rparr>"
  note L = lawfulD [OF assms(1)]
  have "pk0 = eph_public (ih_key_pair ih)" using assms(2) A(1) by (auto simp: initiator_inv_def)
  then have agree: "agree p (ih_key_pair ih) (eph_public kp) = Inr shared"
    using agree_symmetric [OF L(4), of "ih_key_pair ih" kp] ephemeral_generate_Inr [OF A(2)] A(3) assms(2)
    by (simp add: initiator_inv_def)
  let ?pr = "produce_proof p i (server_data (ih_initiation ih) (eph_public kp) random sid)"
  have opened: "open_response p keys ?ini sealed = Inr (encode_body ?pr)"
    using A(5) crypt_inverse [OF L(3)] by (simp add: seal_response_def open_response_def)
  have wf: "wf_proof ?pr" using wf_produce_proof [OF L(5) assms(4)] .
  have keys: "length (i2r keys) = 32"
    using handshake_keys_derive_succeeds [OF L(1), of shared] A(4) by (metis sum.inject(2))
  have ini: "is_initiation (ih_initiation ih)" using A(1) by simp
  from A(6) ini agree A(4) opened _ decode_encode_body [OF wf] verify_produced_proof [OF L(5) assms(4,6)] assms(1) keys(1) assms(3)
  show ?thesis
    by (rule finish_for_session_intro) (use wf A(7) that in auto)
qed

lemma responder_completes:
  assumes "lawful p" "wf_identity i" "trusts p (rh_verifier rh) i unix" "length (send_key skeys) = 32"
    and "rh_transcript rh = \<lparr>tr_initiation = ini, tr_response = Some resp\<rparr>"
    and "seal_finish p (rh_handshake_keys rh) (message_encode ini @ message_encode resp)
      (encode_body (produce_proof p i (client_data ini resp))) = Inr sf"
    and "session_keys_derive p (rh_shared_secret rh) (transcript_hash p (join (domain TRANSCRIPT_DOMAIN)
       [message_encode ini, message_encode resp, message_encode (Finish sf)])) Initiator = Inr skeys"
  obtains rkeys where
    "responder_finish p rh (Finish sf) unix now =
       Inr (session_new (rh_session_id rh) (rh_key_phase rh) rkeys now, Some (identity_key p i))"
    "send_key skeys = receive_key rkeys" "receive_key skeys = send_key rkeys" "length (send_key rkeys) = 32"
proof -
  note L = lawfulD [OF assms(1)]
  let ?pr = "produce_proof p i (client_data ini resp)"
  have wf: "wf_proof ?pr" using wf_produce_proof [OF L(5) assms(2)] .
  have opened: "open_finish p (rh_handshake_keys rh) (message_encode ini @ message_encode resp) sf = Inr (encode_body ?pr)"
    using assms(6) crypt_inverse [OF L(3)] by (simp add: seal_finish_def open_finish_def)
  obtain rkeys where rk: "session_keys_derive p (rh_shared_secret rh) (transcript_hash p (join (domain TRANSCRIPT_DOMAIN)
       [message_encode ini, message_encode resp, message_encode (Finish sf)])) Responder = Inr rkeys"
      "length (send_key rkeys) = 32"
    using session_keys_derive_succeeds [OF L(1)] by blast
  have "responder_finish p rh (Finish sf) unix now =
      Inr (session_new (rh_session_id rh) (rh_key_phase rh) rkeys now, Some (identity_key p i))"
    using responder_finish_intro [OF assms(5) opened _ decode_encode_body [OF wf]
        verify_produced_proof [OF L(5) assms(2,3)] rk(1)] wf by simp
  with that session_keys_derive_complementary [OF assms(7) rk(1)] rk(2) show ?thesis by blast
qed

lemma honest_run:
  assumes "lawful p" "initiator_inv p ih" "wf_identity (ih_identity ih)" "wf_identity i"
    and "accept_for_session p i v (ih_initiation ih) sid phase key_draw random_draw = Inr (rh, resp)"
    and "trusts p (ih_verifier ih) i unix" "trusts p v (ih_identity ih) unix'"
  obtains sf skeys rkeys where
    "finish_for_session p ih resp sid phase unix now =
       Inr (Finish sf, session_new sid phase skeys now, Some (identity_key p i))"
    "responder_finish p rh (Finish sf) unix' now' =
       Inr (session_new sid phase rkeys now', Some (identity_key p (ih_identity ih)))"
    "send_key skeys = receive_key rkeys" "receive_key skeys = send_key rkeys"
    "length (send_key skeys) = 32" "length (send_key rkeys) = 32"
  using assms(1-6)
proof (rule initiator_completes)
  fix shared keys sf skeys
  let ?rh = "\<lparr>rh_verifier = v, rh_shared_secret = shared, rh_handshake_keys = keys,
       rh_transcript = \<lparr>tr_initiation = ih_initiation ih, tr_response = Some resp\<rparr>, rh_session_id = sid, rh_key_phase = phase\<rparr>"
  assume F: "rh = ?rh"
    "finish_for_session p ih resp sid phase unix now =
       Inr (Finish sf, session_new sid phase skeys now, Some (identity_key p i))"
    "seal_finish p keys (message_encode (ih_initiation ih) @ message_encode resp)
      (encode_body (produce_proof p (ih_identity ih) (client_data (ih_initiation ih) resp))) = Inr sf"
    "session_keys_derive p shared (transcript_hash p (join (domain TRANSCRIPT_DOMAIN)
       [message_encode (ih_initiation ih), message_encode resp, message_encode (Finish sf)])) Initiator = Inr skeys"
  then have len: "length (send_key skeys) = 32"
    using session_keys_derive_succeeds [OF lawfulD(1) [OF assms(1)]] by (metis sum.inject(2))
  show ?thesis
    by (rule responder_completes [of p "ih_identity ih" ?rh unix' skeys "ih_initiation ih" resp sf now'])
      (use assms F len that in auto)
qed

section \<open>Properties\<close>

lemma ex_trust:
  "wf_identity (ih_identity ex_initiator)" "wf_identity (IdPinnedKey (replicate 32 2))"
  "trusts plain_prims (ih_verifier ex_initiator) (IdPinnedKey (replicate 32 2)) 100"
  "trusts plain_prims (VerPinnedKey (replicate 32 1)) (ih_identity ex_initiator) 100"
  "identity_key plain_prims (ih_identity ex_initiator) = replicate 32 1"
  "identity_key plain_prims (IdPinnedKey (replicate 32 2)) = replicate 32 2"
  by (simp_all add: ex_initiator_def plain_prims_def)

lemma ex_run:
  "\<exists>rh resp fin si sr.
     accept_for_session plain_prims (IdPinnedKey (replicate 32 2)) (VerPinnedKey (replicate 32 1))
       (ih_initiation ex_initiator) ex_sid 0 (Some (replicate 32 5)) (Some (replicate 32 6)) = Inr (rh, resp) \<and>
     finish_for_session plain_prims ex_initiator resp ex_sid 0 100 0 = Inr (fin, si, Some (replicate 32 2)) \<and>
     responder_finish plain_prims rh fin 100 0 = Inr (sr, Some (replicate 32 1))"
proof -
  obtain rh resp where a: "accept_for_session plain_prims (IdPinnedKey (replicate 32 2)) (VerPinnedKey (replicate 32 1))
     (ih_initiation ex_initiator) ex_sid 0 (Some (replicate 32 5)) (Some (replicate 32 6)) = Inr (rh, resp)"
    using ex_accept by blast
  show ?thesis
    by (rule honest_run [OF plain_prims_lawful ex_initiator_inv ex_trust(1,2) a ex_trust(3,4), of 0 0])
      (use a ex_trust(5,6) in auto)
qed

text \<open>
  C7. Two honest parties that trust each other complete the handshake: for every response a
  responder gives to the initiator's current initiation (with or without a cookie), the initiator
  finishes, the responder accepts the finish, each learns the other's identity key, and the two
  sessions have the same identifier and phase and complementary keys.
\<close>

theorem handshake_completes:
  assumes "lawful p" "initiator_inv p ih" "wf_identity (ih_identity ih)" "wf_identity i"
    and "accept_for_session p i v (ih_initiation ih) sid phase key_draw random_draw = Inr (rh, resp)"
    and "trusts p (ih_verifier ih) i unix" "trusts p v (ih_identity ih) unix'"
  shows "\<exists>fin si sr.
     finish_for_session p ih resp sid phase unix now = Inr (fin, si, Some (identity_key p i)) \<and>
     responder_finish p rh fin unix' now' = Inr (sr, Some (identity_key p (ih_identity ih))) \<and>
     ps_session_id si = sid \<and> ps_session_id sr = sid \<and> ps_key_phase si = phase \<and> ps_key_phase sr = phase \<and>
     send_key (ps_keys si) = receive_key (ps_keys sr) \<and> receive_key (ps_keys si) = send_key (ps_keys sr) \<and>
     length (send_key (ps_keys si)) = 32 \<and> length (send_key (ps_keys sr)) = 32"
  by (rule honest_run [OF assms, of now now']) (auto simp: session_new_def)

theorem handshake_completes_witness:
  "\<exists>rh resp fin si sr.
     accept_for_session plain_prims (IdPinnedKey (replicate 32 2)) (VerPinnedKey (replicate 32 1))
       (ih_initiation ex_initiator) ex_sid 0 (Some (replicate 32 5)) (Some (replicate 32 6)) = Inr (rh, resp) \<and>
     finish_for_session plain_prims ex_initiator resp ex_sid 0 100 0 = Inr (fin, si, Some (replicate 32 2)) \<and>
     responder_finish plain_prims rh fin 100 0 = Inr (sr, Some (replicate 32 1)) \<and>
     send_key (ps_keys si) = receive_key (ps_keys sr)"
proof -
  obtain rh resp where a: "accept_for_session plain_prims (IdPinnedKey (replicate 32 2)) (VerPinnedKey (replicate 32 1))
     (ih_initiation ex_initiator) ex_sid 0 (Some (replicate 32 5)) (Some (replicate 32 6)) = Inr (rh, resp)"
    using ex_accept by blast
  from handshake_completes [OF plain_prims_lawful ex_initiator_inv ex_trust(1,2) a ex_trust(3,4), of 0 0] a
  show ?thesis unfolding ex_trust(5,6) by blast
qed

lemma finish_for_session_vouched:
  assumes "finish_for_session p ih resp sid phase unix now = Inr (fin, s, remote)"
  shows "\<exists>pk random sealed key sig.
     resp = Response pk random sid sealed \<and> remote = Some key \<and> vouched p (ih_verifier ih) key unix \<and>
     identity_verify p key (server_data (ih_initiation ih) pk random sid) sig \<and>
     (\<exists>keys. s = session_new sid phase keys now)"
  using assms
proof (rule finish_for_session_Inr)
  fix pk random sealed pr skeys
  assume "resp = Response pk random sid sealed" "s = session_new sid phase skeys now"
    "verify_proof p (ih_verifier ih) (server_data (ih_initiation ih) pk random sid) pr unix = Inr remote"
  with verify_proof_Inr [OF this(3)] show ?thesis by auto
qed

text \<open>
  The initiator establishes a session only with a party its verifier vouches for, whose key
  signed this very exchange: the initiation sent, and the responder's ephemeral key, nonce and
  session identifier.
\<close>

theorem initiator_authenticates:
  assumes "finish_for_session p ih resp sid phase unix now = Inr (fin, s, remote)"
  shows "\<exists>pk random sealed key sig.
     resp = Response pk random sid sealed \<and> remote = Some key \<and> vouched p (ih_verifier ih) key unix \<and>
     identity_verify p key (server_data (ih_initiation ih) pk random sid) sig \<and> ps_session_id s = sid"
  using finish_for_session_vouched [OF assms] by (auto simp: session_new_def)

theorem initiator_authenticates_witness:
  "\<exists>resp key sig pk random sealed. resp = Response pk random ex_sid sealed \<and> key = replicate 32 2 \<and>
     identity_verify plain_prims key (server_data (ih_initiation ex_initiator) pk random ex_sid) sig"
proof -
  from ex_run obtain resp rh fin si where
    "finish_for_session plain_prims ex_initiator resp ex_sid 0 100 0 = Inr (fin, si, Some (replicate 32 2))" by blast
  from initiator_authenticates [OF this] show ?thesis by blast
qed

lemma responder_finish_vouched:
  assumes "responder_finish p rh fin unix now = Inr (s, remote)"
  shows "\<exists>resp key sig skeys.
     tr_response (rh_transcript rh) = Some resp \<and> remote = Some key \<and> vouched p (rh_verifier rh) key unix \<and>
     identity_verify p key (client_data (tr_initiation (rh_transcript rh)) resp) sig \<and>
     s = session_new (rh_session_id rh) (rh_key_phase rh) skeys now"
proof -
  obtain resp sealed where resp: "tr_response (rh_transcript rh) = Some resp" "fin = Finish sealed"
    using assms by (auto simp: responder_finish_def split: handshake_message.splits option.splits)
  have "client_authentication_input (rh_transcript rh) = Inr (client_data (tr_initiation (rh_transcript rh)) resp)"
    using resp by (simp add: client_authentication_input_def client_data_def)
  with assms resp show ?thesis
    by (auto simp: responder_finish_def Let_def try_array_def split: if_splits dest!: verify_proof_Inr)
qed

text \<open>
  The responder establishes a session only with a party its verifier vouches for, whose key
  signed the whole exchange: the initiation and the response.
\<close>

theorem responder_authenticates:
  assumes "responder_finish p rh fin unix now = Inr (s, remote)"
  shows "\<exists>resp key sig skeys.
     tr_response (rh_transcript rh) = Some resp \<and> remote = Some key \<and> vouched p (rh_verifier rh) key unix \<and>
     identity_verify p key (client_data (tr_initiation (rh_transcript rh)) resp) sig \<and>
     s = session_new (rh_session_id rh) (rh_key_phase rh) skeys now"
  by (rule responder_finish_vouched [OF assms])

theorem responder_authenticates_witness:
  "\<exists>(rh :: responder_handshake) resp key sig. tr_response (rh_transcript rh) = Some resp \<and> vouched plain_prims (rh_verifier rh) key 100 \<and>
     identity_verify plain_prims key (client_data (tr_initiation (rh_transcript rh)) resp) sig"
proof -
  from ex_run obtain rh fin sr where "responder_finish plain_prims rh fin 100 0 = Inr (sr, Some (replicate 32 1))"
    by blast
  from responder_authenticates [OF this] show ?thesis by (intro exI [of _ rh]) blast
qed

text \<open>
  The data each side signs determines the exchange, and the two sides never sign the same
  data, so that a signature cannot be moved to another exchange or reflected to its author.
\<close>

theorem signed_data_binds:
  assumes "wf_message ini" "wf_message ini'" "is_initiation ini" "is_initiation ini'"
    and "length pk = 32" "length pk' = 32" "length r = 32" "length r' = 32"
    and "wf_message resp" "wf_message resp'"
  shows "(server_data ini pk r sid = server_data ini' pk' r' sid' \<longrightarrow>
            ini = ini' \<and> pk = pk' \<and> r = r' \<and> sid = sid') \<and>
         (client_data ini resp = client_data ini' resp' \<longrightarrow> ini = ini' \<and> resp = resp') \<and>
         server_data ini pk r sid \<noteq> client_data ini' resp'"
proof -
  have l: "length (message_encode ini) = length (message_encode ini')"
    using assms(1-4) by (cases ini; cases ini') (simp_all add: length_message_encode del: message_encode.simps)
  have inj: "message_encode a = message_encode b \<Longrightarrow> a = b" if "wf_message a" "wf_message b" for a b
    using that message_decode_encode by (metis sum.inject(2))
  have "server_data ini pk r sid = server_data ini' pk' r' sid' \<longrightarrow> ini = ini' \<and> pk = pk' \<and> r = r' \<and> sid = sid'"
    using l inj [OF assms(1,2)] assms(5-8)
    by (auto simp: server_data_def response_public_bytes_def domain_eq simp del: message_encode.simps intro: session_id.expand)
  moreover have "client_data ini resp = client_data ini' resp' \<longrightarrow> ini = ini' \<and> resp = resp'"
    using l inj [OF assms(1,2)] inj [OF assms(9,10)] by (auto simp: client_data_def domain_eq)
  moreover have "server_data ini pk r sid \<noteq> client_data ini' resp'"
    by (simp add: server_data_def client_data_def domain_eq SERVER_AUTH_DOMAIN_def CLIENT_AUTH_DOMAIN_def ascii_def)
  ultimately show ?thesis by blast
qed

theorem signed_data_binds_witness:
  "client_data (Initiation (replicate 32 1) (replicate 32 2) None (replicate 16 3)) (Finish (replicate 193 0)) \<noteq>
   client_data (Initiation (replicate 32 1) (replicate 32 2) None (replicate 16 4)) (Finish (replicate 193 0))"
proof -
  have "replicate 16 3 \<noteq> (replicate 16 4 :: bytes)" by simp
  with signed_data_binds [of "Initiation (replicate 32 1) (replicate 32 2) None (replicate 16 3)"
      "Initiation (replicate 32 1) (replicate 32 2) None (replicate 16 4)" "replicate 32 5" "replicate 32 5"
      "replicate 32 5" "replicate 32 5" "Finish (replicate 193 0)" "Finish (replicate 193 0)" ex_sid ex_sid]
  show ?thesis by simp
qed

text \<open>The sealed proof always has the length of the array it is copied to, and nothing else panics.\<close>

lemma copy_sealed_no_panic:
  assumes "lawful p" and "crypt p True k n aad (encode_body (produce_proof p j data)) = Inr c" and "wf_identity j"
  shows "copy_array 193 c \<noteq> Inl HsPanic"
  using crypt_length [OF lawfulD(3) [OF assms(1)] assms(2)] wf_produce_proof [OF lawfulD(5) [OF assms(1)] assms(3)] by (simp add: copy_array_def)

lemma verify_proof_no_panic: "verify_proof p v data pr u \<noteq> Inl HsPanic"
  by (cases v; cases pr) (auto simp: Let_def)

lemma finish_no_panic:
  assumes "lawful p" and "wf_identity (ih_identity ih)"
  shows "finish_for_session p ih response expected phase unix now \<noteq> Inl HsPanic"
  by (cases response)
    (auto simp: finish_for_session_def and_then_Inl Let_def try_array_def verify_proof_no_panic seal_finish_def
      dest: copy_sealed_no_panic [OF assms(1) _ assms(2)] split: if_splits)

lemma accept_shape:
  assumes "accept_for_session p i v initiation sid phase kd rd = Inr (rh, resp)"
  shows "rh_session_id rh = sid" "rh_key_phase rh = phase" "rh_verifier rh = v" "\<exists>pk r sealed. resp = Response pk r sid sealed"
  using assms by (auto simp: accept_for_session_def Let_def split: handshake_message.splits)

lemma ex_forged: "\<not> is_ok (finish_for_session plain_prims ex_initiator (Response pk random sid []) sid phase unix now)"
proof -
  have "plain_open k n aad [] = None" for k n aad
    using plain_open_iff [of k n aad "[]"] by (cases "plain_open k n aad []") (auto simp: plain_tag_def)
  then have "\<exists>e. open_response plain_prims keys aad [] = Inl e" for keys aad
    by (simp add: open_response_def crypt_def plain_prims_def)
  then show ?thesis by (auto simp: is_ok_iff finish_for_session_def Let_def) (metis Inl_Inr_False)
qed

text \<open>
  C34. The check by which a client filters responses agrees with completing the handshake: it always gives a verdict, which is to pass
  exactly when the handshake finishes with the response, and finishing never panics.
\<close>

theorem authenticates_response_iff_finish:
  assumes "lawful p" "initiator_inv p ih" "wf_identity (ih_identity ih)"
  shows "authenticates_response p ih (Response pk random sid sealed) unix =
           Inr (is_ok (finish_for_session p ih (Response pk random sid sealed) sid phase unix now)) \<and>
         finish_for_session p ih (Response pk random sid sealed) sid phase unix now \<noteq> Inl HsPanic"
proof (cases "finish_for_session p ih (Response pk random sid sealed) sid phase unix now")
  case (Inr r)
  then obtain fin s remote where "finish_for_session p ih (Response pk random sid sealed) sid phase unix now = Inr (fin, s, remote)"
    by (cases r) auto
  then have "authenticates_response p ih (Response pk random sid sealed) unix = Inr True" by (rule authenticates_of_finish)
  with Inr show ?thesis by simp
next
  case (Inl e)
  have "is_initiation (ih_initiation ih)" using assms(2) by (auto simp: initiator_inv_def)
  then obtain b where b: "authenticates_response p ih (Response pk random sid sealed) unix = Inr b"
    using authenticates_total by blast
  have "\<not> b"
  proof
    assume b
    with b have "authenticates_response p ih (Response pk random sid sealed) unix = Inr True" by simp
    from finish_of_authenticates [OF this assms, of phase now] Inl show False by (auto simp: is_ok_iff)
  qed
  with b Inl finish_no_panic [OF assms(1,3), of "Response pk random sid sealed" sid phase unix now] show ?thesis by simp
qed

text \<open>The response of an honest server passes, the same response without its proof does not.\<close>

theorem authenticates_response_iff_finish_witness:
  "\<exists>pk random sealed. authenticates_response plain_prims ex_initiator (Response pk random ex_sid sealed) 100 = Inr True \<and>
     authenticates_response plain_prims ex_initiator (Response pk random ex_sid []) 100 = Inr False"
proof -
  obtain rh resp where a: "accept_for_session plain_prims (IdPinnedKey (replicate 32 2)) (VerPinnedKey (replicate 32 1))
     (ih_initiation ex_initiator) ex_sid 0 (Some (replicate 32 5)) (Some (replicate 32 6)) = Inr (rh, resp)"
    using ex_accept by blast
  obtain pk random sealed where resp: "resp = Response pk random ex_sid sealed" using accept_shape(4) [OF a] by blast
  note iff = authenticates_response_iff_finish [OF plain_prims_lawful ex_initiator_inv ex_trust(1), where phase = 0 and now = 0 and unix = 100]
  have "is_ok (finish_for_session plain_prims ex_initiator (Response pk random ex_sid sealed) ex_sid 0 100 0)"
    by (rule honest_run [OF plain_prims_lawful ex_initiator_inv ex_trust(1,2) a ex_trust(3,4), of 0 0]) (simp add: resp)
  then show ?thesis using iff [of pk random ex_sid sealed] iff [of pk random ex_sid "[]"] ex_forged by auto
qed

text \<open>
  No handshake operation panics: the sealed proof always has the length of the array it is
  copied to.
\<close>

theorem handshake_never_panics:
  assumes "lawful p" "wf_identity (ih_identity ih)" "wf_identity i"
  shows "finish_for_session p ih response expected phase unix now \<noteq> Inl HsPanic \<and>
         accept_for_session p i v initiation sid phase key_draw random_draw \<noteq> Inl HsPanic \<and>
         responder_finish p rh fin unix now \<noteq> Inl HsPanic"
proof -
  have "accept_for_session p i v initiation sid phase key_draw random_draw \<noteq> Inl HsPanic"
    by (cases initiation)
      (auto simp: accept_for_session_def and_then_Inl Let_def seal_response_def dest: copy_sealed_no_panic [OF assms(1) _ assms(3)])
  moreover have "responder_finish p rh fin unix now \<noteq> Inl HsPanic"
    by (cases fin)
      (auto simp: responder_finish_def and_then_Inl Let_def try_array_def verify_proof_no_panic split: option.splits if_splits)
  ultimately show ?thesis using finish_no_panic [OF assms(1,2)] by blast
qed

theorem handshake_never_panics_witness:
  "accept_for_session plain_prims (IdPinnedKey (replicate 32 2)) (VerPinnedKey []) (Initiation [1] [] None []) ex_sid 0
     (Some [5]) (Some []) \<noteq> Inl HsPanic"
  using handshake_never_panics [OF plain_prims_lawful ex_trust(1,2)] by blast

end
