(* ===== verification/Server_State.thy ===== *)
theory Server_State
  imports Server_Config Token_Bucket Auth_Handshake "HOL-Library.AList"
begin

text \<open>
  The server's peer state, \<^verbatim>\<open>apps/rvpn-server/src/state.rs\<close>: traffic counters, active peers, and the
  table of handshakes in progress with its count for each source address. Hash maps that the code iterates over or
  counts are association lists with distinct keys. Counters saturate at 64 bits.
\<close>

section \<open>Statistics and active peers\<close>

record peer_stats =
  rx_packets :: nat
  rx_payload_bytes :: nat
  rx_wire_bytes :: nat
  tx_packets :: nat
  tx_payload_bytes :: nat
  tx_wire_bytes :: nat
  dropped_packets :: nat
  rx_limited_drops :: nat
  tx_queue_drops :: nat
  queue_delay_samples :: nat
  queue_delay_total_micros :: nat
  queue_delay_max_micros :: nat
  rekeys :: nat

definition stats_default :: peer_stats where
  "stats_default = \<lparr>rx_packets = 0, rx_payload_bytes = 0, rx_wire_bytes = 0, tx_packets = 0, tx_payload_bytes = 0,
     tx_wire_bytes = 0, dropped_packets = 0, rx_limited_drops = 0, tx_queue_drops = 0, queue_delay_samples = 0,
     queue_delay_total_micros = 0, queue_delay_max_micros = 0, rekeys = 0\<rparr>"

definition record_rx :: "nat \<Rightarrow> nat \<Rightarrow> peer_stats \<Rightarrow> peer_stats" where
  "record_rx payload_len wire_len s = s\<lparr>rx_packets := sat_add (rx_packets s) 1,
     rx_payload_bytes := sat_add (rx_payload_bytes s) payload_len, rx_wire_bytes := sat_add (rx_wire_bytes s) wire_len\<rparr>"

definition record_tx :: "nat \<Rightarrow> nat \<Rightarrow> peer_stats \<Rightarrow> peer_stats" where
  "record_tx payload_len wire_len s = s\<lparr>tx_packets := sat_add (tx_packets s) 1,
     tx_payload_bytes := sat_add (tx_payload_bytes s) payload_len, tx_wire_bytes := sat_add (tx_wire_bytes s) wire_len\<rparr>"

definition record_drop :: "peer_stats \<Rightarrow> peer_stats" where
  "record_drop s = s\<lparr>dropped_packets := sat_add (dropped_packets s) 1\<rparr>"

definition record_rx_limited_drop :: "peer_stats \<Rightarrow> peer_stats" where
  "record_rx_limited_drop s = (let s = record_drop s in s\<lparr>rx_limited_drops := sat_add (rx_limited_drops s) 1\<rparr>)"

definition record_tx_queue_drop :: "peer_stats \<Rightarrow> peer_stats" where
  "record_tx_queue_drop s = (let s = record_drop s in s\<lparr>tx_queue_drops := sat_add (tx_queue_drops s) 1\<rparr>)"

definition record_queue_delay :: "duration \<Rightarrow> peer_stats \<Rightarrow> peer_stats" where
  "record_queue_delay delay s =
     (let micros = min (delay div 1000) u64_max
      in s\<lparr>queue_delay_samples := sat_add (queue_delay_samples s) 1,
           queue_delay_total_micros := sat_add (queue_delay_total_micros s) micros,
           queue_delay_max_micros := max (queue_delay_max_micros s) micros\<rparr>)"

definition record_rekey :: "peer_stats \<Rightarrow> peer_stats" where
  "record_rekey s = s\<lparr>rekeys := sat_add (rekeys s) 1\<rparr>"

record 'n active_peer =
  ap_identity :: "'n peer_identity"
  ap_session :: protected_session
  ap_endpoint :: socket_addr
  ap_last_rx :: instant
  ap_last_rekey_request :: "instant option"
  ap_stats :: peer_stats
  ap_rx_limiter :: peer_rate_limiter

type_synonym 'n active_map = "(session_id \<times> 'n active_peer) list"

definition active_peer_new :: "'n peer_identity \<Rightarrow> protected_session \<Rightarrow> socket_addr \<Rightarrow> nat \<Rightarrow> instant \<Rightarrow> 'n active_peer" where
  "active_peer_new identity session endpoint rx_rate now =
     \<lparr>ap_identity = identity, ap_session = session, ap_endpoint = endpoint, ap_last_rx = now, ap_last_rekey_request = None,
      ap_stats = stats_default, ap_rx_limiter = limiter_new rx_rate now\<rparr>"

definition same_peer :: "'n peer_identity \<Rightarrow> 'n peer_identity \<Rightarrow> bool" where
  "same_peer a b \<longleftrightarrow> pi_name a = pi_name b \<and> pi_allowed_ips a = pi_allowed_ips b"

section \<open>Handshakes in progress\<close>

datatype 'n pending_source =
    Known "'n peer_identity"
  | CertificateAuthority certificate_authority_config

record 'n pending_handshake =
  ph_source :: "'n pending_source"
  ph_handshake :: responder_handshake
  ph_endpoint :: socket_addr
  ph_packet :: packet
  ph_kind :: packet_kind
  ph_attempts :: nat

record 'n pending_handshakes =
  entries :: "(session_id \<times> 'n pending_handshake) list"
  per_source :: "socket_addr \<rightharpoonup> nat"

definition pending_new :: "'n pending_handshakes" where
  "pending_new = \<lparr>entries = [], per_source = Map.empty\<rparr>"

definition pending_len :: "'n pending_handshakes \<Rightarrow> nat" where
  "pending_len p = length (entries p)"

definition pending_contains :: "'n pending_handshakes \<Rightarrow> session_id \<Rightarrow> bool" where
  "pending_contains p sid \<longleftrightarrow> map_of (entries p) sid \<noteq> None"

definition pending_get :: "'n pending_handshakes \<Rightarrow> session_id \<Rightarrow> 'n pending_handshake option" where
  "pending_get p sid = map_of (entries p) sid"

definition count_for :: "'n pending_handshakes \<Rightarrow> socket_addr \<Rightarrow> nat" where
  "count_for p source = (case per_source p source of Some n \<Rightarrow> n | None \<Rightarrow> 0)"

definition decrement :: "socket_addr \<Rightarrow> (socket_addr \<rightharpoonup> nat) \<Rightarrow> (socket_addr \<rightharpoonup> nat)" where
  "decrement source counts =
     (case counts source of
        None \<Rightarrow> counts
      | Some n \<Rightarrow> if n - 1 = 0 then counts(source := None) else counts(source \<mapsto> n - 1))"

definition increment :: "socket_addr \<Rightarrow> (socket_addr \<rightharpoonup> nat) \<Rightarrow> (socket_addr \<rightharpoonup> nat)" where
  "increment source counts = counts(source \<mapsto> (case counts source of Some n \<Rightarrow> n | None \<Rightarrow> 0) + 1)"

definition pending_insert :: "'n pending_handshakes \<Rightarrow> session_id \<Rightarrow> 'n pending_handshake \<Rightarrow> 'n pending_handshakes" where
  "pending_insert p sid state =
     (let counts = (case map_of (entries p) sid of Some prev \<Rightarrow> decrement (ph_endpoint prev) (per_source p) | None \<Rightarrow> per_source p)
      in \<lparr>entries = AList.update sid state (entries p), per_source = increment (ph_endpoint state) counts\<rparr>)"

definition pending_remove :: "'n pending_handshakes \<Rightarrow> session_id \<Rightarrow> 'n pending_handshake option \<times> 'n pending_handshakes" where
  "pending_remove p sid =
     (case map_of (entries p) sid of
        None \<Rightarrow> (None, p)
      | Some state \<Rightarrow>
          (Some state, \<lparr>entries = AList.delete sid (entries p), per_source = decrement (ph_endpoint state) (per_source p)\<rparr>))"

definition pending_retain :: "('n pending_handshake \<Rightarrow> bool) \<Rightarrow> 'n pending_handshakes \<Rightarrow> 'n pending_handshakes" where
  "pending_retain keep p =
     \<lparr>entries = filter (\<lambda>(_, state). keep state) (entries p),
      per_source = fold (\<lambda>(_, state) counts. if keep state then counts else decrement (ph_endpoint state) counts) (entries p) (per_source p)\<rparr>"

section \<open>The counts are exact\<close>

definition source_count :: "(session_id \<times> 'n pending_handshake) list \<Rightarrow> socket_addr \<Rightarrow> nat" where
  "source_count es source = length (filter (\<lambda>(_, state). ph_endpoint state = source) es)"

definition counts_of :: "(socket_addr \<Rightarrow> nat) \<Rightarrow> (socket_addr \<rightharpoonup> nat)" where
  "counts_of f = (\<lambda>source. if f source = 0 then None else Some (f source))"

definition pending_inv :: "'n pending_handshakes \<Rightarrow> bool" where
  "pending_inv p \<longleftrightarrow> distinct (map fst (entries p)) \<and> per_source p = counts_of (source_count (entries p))"

lemma decrement_counts_of: "decrement s (counts_of f) = counts_of (f(s := f s - 1))"
  by (rule ext) (auto simp: decrement_def counts_of_def)

lemma increment_counts_of: "increment s (counts_of f) = counts_of (f(s := f s + 1))"
  by (rule ext) (auto simp: increment_def counts_of_def)

lemma source_count_Nil [simp]: "source_count [] = (\<lambda>_. 0)"
  by (rule ext) (simp add: source_count_def)

lemma source_count_Cons:
  "source_count ((sid, state) # es) = (source_count es)(ph_endpoint state := source_count es (ph_endpoint state) + 1)"
  by (rule ext) (simp add: source_count_def)

lemma count_for_exact: "pending_inv p \<Longrightarrow> count_for p source = source_count (entries p) source"
  by (simp add: pending_inv_def count_for_def counts_of_def)

lemma source_count_update:
  "source_count (AList.update sid state es) =
     (let old = (case map_of es sid of
                   Some prev \<Rightarrow> (source_count es)(ph_endpoint prev := source_count es (ph_endpoint prev) - 1)
                 | None \<Rightarrow> source_count es)
      in old(ph_endpoint state := old (ph_endpoint state) + 1))"
proof (induction es)
  case (Cons e es)
  obtain i st where e: "e = (i, st)" by fastforce
  have pos: "0 < source_count es (ph_endpoint prev)" if "map_of es sid = Some prev" for prev
    using map_of_SomeD [OF that] by (auto simp: source_count_def length_greater_0_conv filter_empty_conv)
  show ?case
  proof (cases "i = sid")
    case True
    then show ?thesis by (auto simp: e source_count_Cons Let_def fun_eq_iff)
  next
    case False
    then show ?thesis using Cons.IH pos
      by (fastforce simp: e source_count_Cons Let_def fun_eq_iff split: option.splits)
  qed
qed (simp add: source_count_Cons Let_def)

lemma source_count_delete:
  assumes "distinct (map fst es)" and "map_of es sid = Some prev"
  shows "source_count (AList.delete sid es) = (source_count es)(ph_endpoint prev := source_count es (ph_endpoint prev) - 1)"
  using assms
proof (induction es)
  case (Cons e es)
  obtain i st where e: "e = (i, st)" by fastforce
  show ?case
  proof (cases "i = sid")
    case True
    then have "AList.delete sid es = es" using Cons.prems e
      by (auto simp: AList.delete_eq filter_id_conv intro: rev_image_eqI)
    then show ?thesis using True Cons.prems e by (auto simp: source_count_Cons fun_eq_iff)
  next
    case False
    then have "map_of es sid = Some prev" using Cons.prems e by simp
    moreover from map_of_SomeD [OF this] have "0 < source_count es (ph_endpoint prev)"
      by (auto simp: source_count_def length_greater_0_conv filter_empty_conv)
    ultimately show ?thesis using Cons False e by (auto simp: source_count_Cons fun_eq_iff)
  qed
qed simp

lemma fold_retain:
  "fold (\<lambda>(_, state) counts. if keep state then counts else decrement (ph_endpoint state) counts) es
     (counts_of (\<lambda>s. source_count es s + g s)) =
   counts_of (\<lambda>s. source_count (filter (\<lambda>(_, state). keep state) es) s + g s)"
proof (induction es arbitrary: g)
  case (Cons e es)
  obtain i st where e: "e = (i, st)" by fastforce
  show ?case
  proof (cases "keep st")
    case True
    have "(\<lambda>s. source_count (e # es) s + g s) = (\<lambda>s. source_count es s + (g(ph_endpoint st := g (ph_endpoint st) + 1)) s)"
      "(\<lambda>s. source_count (e # filter (\<lambda>(_, state). keep state) es) s + g s) =
       (\<lambda>s. source_count (filter (\<lambda>(_, state). keep state) es) s + (g(ph_endpoint st := g (ph_endpoint st) + 1)) s)"
      by (auto simp: e source_count_Cons)
    then show ?thesis using True Cons.IH [of "g(ph_endpoint st := g (ph_endpoint st) + 1)"] by (simp add: e)
  next
    case False
    have "decrement (ph_endpoint st) (counts_of (\<lambda>s. source_count (e # es) s + g s)) = counts_of (\<lambda>s. source_count es s + g s)"
      unfolding decrement_counts_of by (rule arg_cong [of _ _ counts_of]) (auto simp: e source_count_Cons)
    then show ?thesis using False Cons.IH by (simp add: e)
  qed
qed simp

lemma pending_inv_new: "pending_inv pending_new"
  by (simp add: pending_inv_def pending_new_def counts_of_def)

lemma pending_inv_insert: "pending_inv p \<Longrightarrow> pending_inv (pending_insert p sid state)"
  by (auto simp: pending_inv_def pending_insert_def Let_def distinct_update source_count_update decrement_counts_of
      increment_counts_of split: option.splits)

lemma pending_inv_remove: "pending_inv p \<Longrightarrow> pending_inv (snd (pending_remove p sid))"
  by (auto simp: pending_inv_def pending_remove_def distinct_delete source_count_delete decrement_counts_of split: option.splits)

lemma pending_inv_retain: "pending_inv p \<Longrightarrow> pending_inv (pending_retain keep p)"
  using fold_retain [of keep "entries p" "\<lambda>_. 0"]
  by (auto simp: pending_inv_def pending_retain_def distinct_map_filter)

text \<open>Retransmission changes only the attempt counters of the entries.\<close>

definition bump_attempts :: "'n pending_handshakes \<Rightarrow> 'n pending_handshakes" where
  "bump_attempts p = p\<lparr>entries := map (\<lambda>(sid, state). (sid, state\<lparr>ph_attempts := ph_attempts state + 1\<rparr>)) (entries p)\<rparr>"

lemma bump_keys: "map fst (entries (bump_attempts p)) = map fst (entries p)"
  by (simp add: bump_attempts_def case_prod_beta comp_def)

lemma bump_counts: "source_count (entries (bump_attempts p)) = source_count (entries p)"
  by (rule ext) (simp add: bump_attempts_def source_count_def filter_map comp_def case_prod_unfold)

lemma pending_inv_bump: "pending_inv p \<Longrightarrow> pending_inv (bump_attempts p)"
  using bump_keys [of p] bump_counts [of p] by (simp add: pending_inv_def) (simp add: bump_attempts_def)

lemmas pending_inv_ops = pending_inv_new pending_inv_insert pending_inv_remove pending_inv_retain pending_inv_bump

section \<open>Active peers\<close>

text \<open>Every active peer is filed under the identifier of its session, and no two sessions belong to the same peer.\<close>

definition active_inv :: "'n active_map \<Rightarrow> bool" where
  "active_inv active \<longleftrightarrow>
     distinct (map fst active) \<and>
     (\<forall>sid peer. map_of active sid = Some peer \<longrightarrow> ps_session_id (ap_session peer) = sid) \<and>
     (\<forall>i a j b. map_of active i = Some a \<longrightarrow> map_of active j = Some b \<longrightarrow> same_peer (ap_identity a) (ap_identity b) \<longrightarrow> i = j)"

lemma active_inv_Nil [simp]: "active_inv []"
  by (simp add: active_inv_def)

lemma map_of_filter_Some: "distinct (map fst al) \<Longrightarrow> map_of (filter P al) i = Some a \<Longrightarrow> map_of al i = Some a"
  by (induction al) (auto split: if_splits intro: rev_image_eqI)

lemma active_invI:
  assumes "distinct (map fst active)" and "\<And>sid peer. map_of active sid = Some peer \<Longrightarrow> ps_session_id (ap_session peer) = sid"
    and "\<And>i a j b. map_of active i = Some a \<Longrightarrow> map_of active j = Some b \<Longrightarrow> same_peer (ap_identity a) (ap_identity b) \<Longrightarrow> i = j"
  shows "active_inv active"
  unfolding active_inv_def using assms by blast

lemma active_invD:
  assumes "active_inv active"
  shows "distinct (map fst active)" and "map_of active sid = Some peer \<Longrightarrow> ps_session_id (ap_session peer) = sid"
    and "map_of active i = Some a \<Longrightarrow> map_of active j = Some b \<Longrightarrow> same_peer (ap_identity a) (ap_identity b) \<Longrightarrow> i = j"
  using assms unfolding active_inv_def by blast+

lemma active_inv_filter:
  assumes "active_inv active"
  shows "active_inv (filter P active)"
proof (rule active_invI)
  note sub = map_of_filter_Some [OF active_invD(1) [OF assms], of P]
  show "distinct (map fst (filter P active))" using active_invD(1) [OF assms] by (rule distinct_map_filter)
  show "ps_session_id (ap_session peer) = sid" if "map_of (filter P active) sid = Some peer" for sid peer
    by (rule active_invD(2) [OF assms sub [OF that]])
  show "i = j" if "map_of (filter P active) i = Some a" "map_of (filter P active) j = Some b"
    "same_peer (ap_identity a) (ap_identity b)" for i a j b
    by (rule active_invD(3) [OF assms sub [OF that(1)] sub [OF that(2)] that(3)])
qed

text \<open>Changing a peer without touching its identity and the identifier of its session.\<close>

definition update_peer :: "session_id \<Rightarrow> ('n active_peer \<Rightarrow> 'n active_peer) \<Rightarrow> 'n active_map \<Rightarrow> 'n active_map" where
  "update_peer sid f active = map (\<lambda>(i, peer). (i, if i = sid then f peer else peer)) active"

definition update_all :: "('n active_peer \<Rightarrow> 'n active_peer) \<Rightarrow> 'n active_map \<Rightarrow> 'n active_map" where
  "update_all f active = map (\<lambda>(i, peer). (i, f peer)) active"

definition keeps_identity :: "('n active_peer \<Rightarrow> 'n active_peer) \<Rightarrow> bool" where
  "keeps_identity f \<longleftrightarrow>
     (\<forall>peer. ap_identity (f peer) = ap_identity peer \<and> ps_session_id (ap_session (f peer)) = ps_session_id (ap_session peer))"

lemma keys_update_peer [simp]: "map fst (update_peer sid f active) = map fst active"
  by (simp add: update_peer_def comp_def case_prod_unfold)

lemma keys_update_all [simp]: "map fst (update_all f active) = map fst active"
  by (simp add: update_all_def comp_def case_prod_unfold)

lemma map_of_update_peer: "map_of (update_peer sid f active) i = map_option (\<lambda>p. if i = sid then f p else p) (map_of active i)"
  by (induction active) (auto simp: update_peer_def)

lemma map_of_update_all: "map_of (update_all f active) i = map_option f (map_of active i)"
  by (induction active) (auto simp: update_all_def)

lemma active_inv_map:
  assumes "active_inv active" and "map fst active' = map fst active"
    and "\<And>i a'. map_of active' i = Some a' \<Longrightarrow> \<exists>a. map_of active i = Some a \<and> ap_identity a' = ap_identity a \<and>
      ps_session_id (ap_session a') = ps_session_id (ap_session a)"
  shows "active_inv active'"
proof (rule active_invI)
  show "distinct (map fst active')" unfolding assms(2) by (rule active_invD(1) [OF assms(1)])
  show "ps_session_id (ap_session peer) = sid" if "map_of active' sid = Some peer" for sid peer
    using assms(3) [OF that] active_invD(2) [OF assms(1)] by fastforce
  show "i = j" if "map_of active' i = Some a" "map_of active' j = Some b" "same_peer (ap_identity a) (ap_identity b)" for i a j b
    using assms(3) [OF that(1)] assms(3) [OF that(2)] that(3) active_invD(3) [OF assms(1)] by fastforce
qed

lemma active_inv_update_peer: "active_inv active \<Longrightarrow> keeps_identity f \<Longrightarrow> active_inv (update_peer sid f active)"
  by (erule active_inv_map) (auto simp: map_of_update_peer keeps_identity_def simp del: map_of_eq_Some_iff Some_eq_map_of_iff)

lemma active_inv_update_all: "active_inv active \<Longrightarrow> keeps_identity f \<Longrightarrow> active_inv (update_all f active)"
  by (erule active_inv_map) (auto simp: map_of_update_all keeps_identity_def simp del: map_of_eq_Some_iff Some_eq_map_of_iff)

lemma same_peer_sym: "same_peer a b \<Longrightarrow> same_peer b a"
  by (simp add: same_peer_def)

lemma active_inv_insert:
  assumes "active_inv active" and "ps_session_id (ap_session peer) = sid"
    and "\<And>i a. map_of active i = Some a \<Longrightarrow> same_peer (ap_identity a) (ap_identity peer) \<Longrightarrow> i = sid"
  shows "active_inv (AList.update sid peer active)"
proof (rule active_invI)
  note inv = active_invD [OF assms(1)]
  have look: "map_of (AList.update sid peer active) i = (if i = sid then Some peer else map_of active i)" for i
    by (simp add: update_conv')
  show "distinct (map fst (AList.update sid peer active))" using inv(1) by (rule distinct_update)
  show "ps_session_id (ap_session a) = i" if "map_of (AList.update sid peer active) i = Some a" for i a
  proof (cases "i = sid")
    case True
    then show ?thesis using that assms(2) unfolding look by simp
  next
    case False
    then have "map_of active i = Some a" using that unfolding look by simp
    then show ?thesis by (rule inv(2))
  qed
  show "i = j" if ij: "map_of (AList.update sid peer active) i = Some a" "map_of (AList.update sid peer active) j = Some b"
      "same_peer (ap_identity a) (ap_identity b)" for i a j b
  proof -
    have old: "x = sid" if "map_of (AList.update sid peer active) x = Some c" "same_peer (ap_identity c) (ap_identity peer)" for x c
      using that assms(3) [of x c] unfolding look by (cases "x = sid") auto
    consider "i = sid" "a = peer" | "j = sid" "b = peer" | "map_of active i = Some a" "map_of active j = Some b"
      using ij(1,2) unfolding look by (cases "i = sid"; cases "j = sid") auto
    then show ?thesis
    proof cases
      case 1
      then show ?thesis using old [OF ij(2)] same_peer_sym [OF ij(3)] by simp
    next
      case 2
      then show ?thesis using old [OF ij(1)] ij(3) by simp
    next
      case 3
      from inv(3) [OF this ij(3)] show ?thesis .
    qed
  qed
qed

end
