(* ===== verification/Cookie_Obfuscation.thy ===== *)
theory Cookie_Obfuscation
  imports Crypto
begin

text \<open>
  The stateless address cookie of \<^verbatim>\<open>crates/rvpn-crypto/src/cookie.rs\<close> and the datagram envelope of
  \<^verbatim>\<open>crates/rvpn-crypto/src/obfuscation.rs\<close>. The current time of a cookie is the argument the code
  passes; the three random draws of an envelope are arguments.
\<close>

section \<open>Cookies\<close>

definition COOKIE_LEN :: nat where "COOKIE_LEN = 32"
definition COOKIE_BUCKET_SECONDS :: u64 where "COOKIE_BUCKET_SECONDS = 60"

fun endpoint_bytes :: "socket_addr \<Rightarrow> bytes" where
  "endpoint_bytes (SockV4 ip port) = 4 # to_be 4 ip @ to_be 2 port"
| "endpoint_bytes (SockV6 ip port flow scope) = 6 # to_be 16 ip @ to_be 2 port"

definition cookie_input :: "socket_addr \<Rightarrow> bytes \<Rightarrow> bytes \<Rightarrow> u64 \<Rightarrow> bytes" where
  "cookie_input endpoint public_key random bucket =
     domain (ascii ''/handshake/cookie'') @ to_be 8 bucket @ endpoint_bytes endpoint @ public_key @ random"

definition cookie_compute :: "prims \<Rightarrow> bytes \<Rightarrow> socket_addr \<Rightarrow> bytes \<Rightarrow> bytes \<Rightarrow> u64 \<Rightarrow> bytes" where
  "cookie_compute p secret endpoint public_key random bucket =
     hmac_sha256 p secret (cookie_input endpoint public_key random bucket)"

definition cookie_mint :: "prims \<Rightarrow> bytes \<Rightarrow> socket_addr \<Rightarrow> bytes \<Rightarrow> bytes \<Rightarrow> u64 \<Rightarrow> bytes" where
  "cookie_mint p secret endpoint public_key random now =
     cookie_compute p secret endpoint public_key random (now div COOKIE_BUCKET_SECONDS)"

definition cookie_verify :: "prims \<Rightarrow> bytes \<Rightarrow> socket_addr \<Rightarrow> bytes \<Rightarrow> bytes \<Rightarrow> bytes \<Rightarrow> u64 \<Rightarrow> bool" where
  "cookie_verify p secret endpoint public_key random cookie now =
     (let bucket = now div COOKIE_BUCKET_SECONDS in
      if constant_time_eq COOKIE_LEN (cookie_compute p secret endpoint public_key random bucket) cookie then True
      else if bucket = 0 then False
      else constant_time_eq COOKIE_LEN (cookie_compute p secret endpoint public_key random (bucket - 1)) cookie)"

section \<open>Obfuscation envelope\<close>

definition MAX_PADDING :: nat where "MAX_PADDING = 96"
definition OBFUSCATION_OVERHEAD :: nat where "OBFUSCATION_OVERHEAD = NONCE_LEN + 1 + MAX_PADDING"

definition apply_keystream :: "prims \<Rightarrow> bytes \<Rightarrow> bytes \<Rightarrow> bytes \<Rightarrow> bytes" where
  "apply_keystream p key nonce body = map2 (XOR) body (chacha20 p key nonce (length body))"

definition cipher_new :: "bytes \<Rightarrow> bytes \<Rightarrow> crypto_error + unit" where
  "cipher_new key nonce = (if length key = 32 \<and> length nonce = NONCE_LEN then Inr () else Inl InvalidKey)"

definition obf_wrap ::
  "prims \<Rightarrow> bytes \<Rightarrow> bytes \<Rightarrow> bytes option \<Rightarrow> u8 option \<Rightarrow> (nat \<Rightarrow> bytes option) \<Rightarrow> crypto_error + bytes" where
  "obf_wrap p key inner nonce_draw selector_draw padding_draw =
     and_then (secret_random nonce_draw) (\<lambda>nonce.
     and_then (secret_random (map_option (\<lambda>b. [b]) selector_draw)) (\<lambda>pad_selector.
       let padding_len = unat (pad_selector ! 0) mod (MAX_PADDING + 1) in
     and_then (secret_random (padding_draw padding_len)) (\<lambda>padding.
       let body = of_nat padding_len # inner @ padding in
     and_then (cipher_new key nonce) (\<lambda>_.
       Inr (nonce @ apply_keystream p key nonce body)))))"

definition obf_unwrap :: "prims \<Rightarrow> bytes \<Rightarrow> bytes \<Rightarrow> crypto_error + bytes" where
  "obf_unwrap p key datagram =
     (if length datagram < NONCE_LEN + 1 then Inl ObfuscationTooShort
      else
        let nonce = take NONCE_LEN datagram; body = drop NONCE_LEN datagram in
        and_then (cipher_new key nonce) (\<lambda>_.
          let body = apply_keystream p key nonce body; padding_len = unat (body ! 0) in
          if length body < 1 + padding_len then Inl ObfuscationTooShort
          else Inr (slice 1 (length body - padding_len) body)))"

section \<open>Cookie facts\<close>

lemma COOKIE_LEN_eq [simp]: "COOKIE_LEN = 32"
  by (simp add: COOKIE_LEN_def)

lemma endpoint_bytes_eq:
  assumes "endpoint_bytes a @ xs = endpoint_bytes b @ ys"
  shows "sock_ip a = sock_ip b \<and> sock_port a = sock_port b \<and> xs = ys"
  using assms by (cases a; cases b) auto

text \<open>The input of the tag determines what it binds: the bucket, the address, the port and both keys.\<close>

lemma cookie_input_inj:
  assumes "cookie_input e pk r b = cookie_input e' pk' r' b'" "length pk = length pk'"
  shows "sock_ip e = sock_ip e'" "sock_port e = sock_port e'" "pk = pk'" "r = r'" "b = b'"
proof -
  have "b = b'" and tail: "endpoint_bytes e @ pk @ r = endpoint_bytes e' @ pk' @ r'"
    using assms(1) by (auto simp: cookie_input_def)
  then show "b = b'" by simp
  from endpoint_bytes_eq [OF tail] assms(2)
  show "sock_ip e = sock_ip e'" "sock_port e = sock_port e'" "pk = pk'" "r = r'" by auto
qed

lemma length_cookie_compute [simp]: "lawful_hash p \<Longrightarrow> length (cookie_compute p s e pk r b) = 32"
  by (simp add: cookie_compute_def lawful_hash_def)

lemma length_cookie_mint [simp]: "lawful_hash p \<Longrightarrow> length (cookie_mint p s e pk r b) = 32"
  by (simp add: cookie_mint_def)

lemma cookie_verify_iff:
  assumes "lawful_hash p" "length cookie = 32"
  shows "cookie_verify p s e pk r cookie now \<longleftrightarrow>
    (\<exists>b. cookie = cookie_compute p s e pk r b \<and> (b = now div 60 \<or> now div 60 \<noteq> 0 \<and> b = now div 60 - 1))"
  using assms by (auto simp: cookie_verify_def constant_time_eq_iff COOKIE_BUCKET_SECONDS_def Let_def)

lemma bucket_pred:
  fixes b :: u64
  assumes "b \<noteq> 0"
  shows "unat (b - 1) + 1 = unat b"
  using assms by (simp add: unat_minus_one unat_gt_0 Suc_leI)

lemma cookie_window_nat:
  fixes t n :: u64
  shows "(t div 60 = n div 60 \<or> n div 60 \<noteq> 0 \<and> t div 60 = n div 60 - 1) \<longleftrightarrow>
    unat t div 60 = unat n div 60 \<or> unat t div 60 + 1 = unat n div 60"
proof -
  have d: "unat (x div 60) = unat x div 60" for x :: u64 by (simp add: unat_div)
  have "t div 60 = n div 60 \<longleftrightarrow> unat t div 60 = unat n div 60"
    by (simp add: d word_unat_eq_iff)
  moreover have "n div 60 \<noteq> 0 \<and> t div 60 = n div 60 - 1 \<longleftrightarrow> unat t div 60 + 1 = unat n div 60"
  proof
    assume "n div 60 \<noteq> 0 \<and> t div 60 = n div 60 - 1"
    then show "unat t div 60 + 1 = unat n div 60" by (metis bucket_pred d)
  next
    assume a: "unat t div 60 + 1 = unat n div 60"
    then have nz: "n div 60 \<noteq> 0" by (metis add_is_0 d unat_0 zero_neq_one)
    from bucket_pred [OF nz] a have "unat (t div 60) = unat (n div 60 - 1)" by (simp add: d)
    then show "n div 60 \<noteq> 0 \<and> t div 60 = n div 60 - 1" using nz by (simp add: word_unat_eq_iff)
  qed
  ultimately show ?thesis by simp
qed

section \<open>Envelope facts\<close>

lemma xor_keystream_twice:
  "length ks = length bs \<Longrightarrow> map2 (XOR) (map2 (XOR) bs ks) ks = (bs :: bytes)"
  by (induction bs ks rule: list_induct2') (auto simp: xor.assoc)

lemma length_apply_keystream [simp]: "lawful_stream p \<Longrightarrow> length (apply_keystream p k n body) = length body"
  by (simp add: apply_keystream_def lawful_stream_def)

lemma apply_keystream_twice [simp]:
  "lawful_stream p \<Longrightarrow> apply_keystream p k n (apply_keystream p k n body) = body"
  by (simp add: apply_keystream_def lawful_stream_def xor_keystream_twice)

lemma obf_wrap_Inr:
  assumes "obf_wrap p key inner nd sd pd = Inr out"
  obtains nonce sel padding plen where "nd = Some nonce" "sd = Some sel" "plen = unat sel mod 97"
    "pd plen = Some padding" "length key = 32" "length nonce = 12"
    "out = nonce @ apply_keystream p key nonce (of_nat plen # inner @ padding)"
  using assms
  by (auto simp: obf_wrap_def secret_random_def cipher_new_def Let_def MAX_PADDING_def
      split: option.splits if_splits)

lemma obf_unwrap_body:
  assumes "lawful_stream p" "length key = 32" "length nonce = 12" "body \<noteq> []"
    "length body \<ge> 1 + unat (body ! 0)"
  shows "obf_unwrap p key (nonce @ apply_keystream p key nonce body) =
           Inr (slice 1 (length body - unat (body ! 0)) body)"
  using assms by (auto simp: obf_unwrap_def cipher_new_def Let_def Suc_le_eq)

lemma endpoint_bytes_cong:
  "sock_ip e = sock_ip e' \<Longrightarrow> sock_port e = sock_port e' \<Longrightarrow> endpoint_bytes e = endpoint_bytes e'"
  by (cases e; cases e') auto

lemma obf_unwrap_wrap:
  assumes "lawful_stream p" "\<And>n bs. padding_draw n = Some bs \<Longrightarrow> length bs = n"
    and "obf_wrap p key inner nonce_draw selector_draw padding_draw = Inr out"
  shows "obf_unwrap p key out = Inr inner \<and>
         length inner + 13 \<le> length out \<and> length out \<le> length inner + OBFUSCATION_OVERHEAD"
  using assms(3)
proof (rule obf_wrap_Inr)
  fix nonce sel padding plen
  assume w: "plen = unat sel mod 97" "padding_draw plen = Some padding" "length key = 32" "length nonce = 12"
    "out = nonce @ apply_keystream p key nonce (of_nat plen # inner @ padding)"
  have plen: "plen < 97" using w(1) by simp
  then have "unat (of_nat plen :: u8) = plen" by (simp add: unat_of_nat)
  moreover have "length padding = plen" using assms(2) w(2) by simp
  ultimately show ?thesis
    using w(3-) plen assms(1) obf_unwrap_body [of p key nonce "of_nat plen # inner @ padding"]
    by (simp add: OBFUSCATION_OVERHEAD_def MAX_PADDING_def slice_def)
qed

section \<open>Properties\<close>

text \<open>
  A datagram wrapped in the obfuscation envelope unwraps to the same bytes, for every draw of
  nonce, padding length and padding, and the envelope adds between 13 and \<^verbatim>\<open>OBFUSCATION_OVERHEAD\<close>
  (109) bytes.
\<close>

theorem obfuscation_round_trip:
  assumes "lawful_stream p" "\<And>n bs. padding_draw n = Some bs \<Longrightarrow> length bs = n"
    and "obf_wrap p key inner nonce_draw selector_draw padding_draw = Inr out"
  shows "obf_unwrap p key out = Inr inner \<and>
         length inner + 13 \<le> length out \<and> length out \<le> length inner + OBFUSCATION_OVERHEAD"
  by (rule obf_unwrap_wrap [OF assms])

theorem obfuscation_round_trip_witness:
  "obf_unwrap plain_prims (replicate 32 1)
     (replicate 12 5 @ apply_keystream plain_prims (replicate 32 1) (replicate 12 5) [6, 10, 20, 30, 0, 0, 0, 0, 0, 0])
   = Inr [10, 20, 30]"
proof -
  have "obf_wrap plain_prims (replicate 32 1) [10, 20, 30] (Some (replicate 12 5)) (Some 200) (\<lambda>n. Some (replicate n 0))
    = Inr (replicate 12 5 @ apply_keystream plain_prims (replicate 32 1) (replicate 12 5) [6, 10, 20, 30, 0, 0, 0, 0, 0, 0])"
    by code_simp
  from obfuscation_round_trip [OF lawfulD(2) [OF plain_prims_lawful] _ this] show ?thesis by simp
qed

text \<open>
  C30. A cookie is accepted exactly for the address, port, ephemeral key and nonce it was minted
  for, and exactly in its own and the following 60-second period, as long as the keyed hash does
  not collide on the inputs compared. The flow label and scope of an IPv6 address are not bound.
\<close>

theorem cookie_verify_binds:
  assumes "lawful_hash p" "length pk = length pk'"
    and "inj_on (hmac_sha256 p s) {cookie_input e pk r (t div 60), cookie_input e' pk' r' (now div 60),
           cookie_input e' pk' r' (now div 60 - 1)}"
  shows "cookie_verify p s e' pk' r' (cookie_mint p s e pk r t) now \<longleftrightarrow>
           sock_ip e = sock_ip e' \<and> sock_port e = sock_port e' \<and> pk = pk' \<and> r = r' \<and>
           (unat t div 60 = unat now div 60 \<or> unat t div 60 + 1 = unat now div 60)"
proof -
  have same: "cookie_mint p s e pk r t = cookie_compute p s e' pk' r' b \<longleftrightarrow>
      sock_ip e = sock_ip e' \<and> sock_port e = sock_port e' \<and> pk = pk' \<and> r = r' \<and> t div 60 = b"
    if "b = now div 60 \<or> b = now div 60 - 1" for b
  proof
    assume "cookie_mint p s e pk r t = cookie_compute p s e' pk' r' b"
    then have "cookie_input e pk r (t div 60) = cookie_input e' pk' r' b"
      using that assms(3) by (auto simp: cookie_mint_def cookie_compute_def COOKIE_BUCKET_SECONDS_def inj_on_def)
    from cookie_input_inj [OF this assms(2)]
    show "sock_ip e = sock_ip e' \<and> sock_port e = sock_port e' \<and> pk = pk' \<and> r = r' \<and> t div 60 = b" by simp
  next
    assume "sock_ip e = sock_ip e' \<and> sock_port e = sock_port e' \<and> pk = pk' \<and> r = r' \<and> t div 60 = b"
    then show "cookie_mint p s e pk r t = cookie_compute p s e' pk' r' b"
      by (simp add: cookie_mint_def cookie_compute_def cookie_input_def COOKIE_BUCKET_SECONDS_def
          endpoint_bytes_cong [of e e'])
  qed
  have "cookie_verify p s e' pk' r' (cookie_mint p s e pk r t) now \<longleftrightarrow>
      sock_ip e = sock_ip e' \<and> sock_port e = sock_port e' \<and> pk = pk' \<and> r = r' \<and>
      (t div 60 = now div 60 \<or> now div 60 \<noteq> 0 \<and> t div 60 = now div 60 - 1)"
    using assms(1) same by (auto simp: cookie_verify_iff)
  then show ?thesis by (simp add: cookie_window_nat)
qed

theorem cookie_verify_binds_witness:
  "cookie_verify plain_prims [1] (SockV4 5 53) [9] [8] (cookie_mint plain_prims [1] (SockV4 5 53) [9] [8] 100) 130"
proof -
  have "inj_on (hmac_sha256 plain_prims [1]) {cookie_input (SockV4 5 53) [9] [8] (100 div 60),
      cookie_input (SockV4 5 53) [9] [8] (130 div 60), cookie_input (SockV4 5 53) [9] [8] (130 div 60 - 1)}"
    by code_simp
  from cookie_verify_binds [OF lawfulD(1) [OF plain_prims_lawful] refl this] show ?thesis by simp
qed

end
