(* ===== verification/Server_Handshake.thy ===== *)
theory Server_Handshake
  imports Server_State Cookie_Obfuscation
begin

text \<open>
  The server's side of the handshake, \<^verbatim>\<open>apps/rvpn-server/src/handshake.rs\<close>: cookie challenges and their
  rate limit, answering initiations and rekeys, finishing a handshake, and retransmission. Datagrams
  given to the transport are returned as a list; the transport's own errors are only logged by this code.
  Random draws and clock readings are arguments.
\<close>

section \<open>Cookie challenges\<close>

definition MAX_PENDING_HANDSHAKES :: nat where "MAX_PENDING_HANDSHAKES = 4096"
definition REKEY_REQUEST_INTERVAL :: duration where "REKEY_REQUEST_INTERVAL = secs 5"
definition MIN_PENDING_HANDSHAKES_PER_SOURCE :: nat where "MIN_PENDING_HANDSHAKES_PER_SOURCE = 8"
definition COOKIE_SOURCE_LIMIT :: nat where "COOKIE_SOURCE_LIMIT = 4"
definition COOKIE_GLOBAL_LIMIT :: nat where "COOKIE_GLOBAL_LIMIT = 100"
definition COOKIE_SOURCE_CAPACITY :: nat where "COOKIE_SOURCE_CAPACITY = 8192"

record cookie_challenge_limiter =
  cl_sources :: "(ip_addr \<times> instant \<times> nat) list"
  cl_global_start :: "instant option"
  cl_global_count :: nat
  cl_last_prune :: "instant option"

definition cookie_limiter_default :: cookie_challenge_limiter where
  "cookie_limiter_default = \<lparr>cl_sources = [], cl_global_start = None, cl_global_count = 0, cl_last_prune = None\<rparr>"

definition prune_sources :: "instant \<Rightarrow> cookie_challenge_limiter \<Rightarrow> cookie_challenge_limiter" where
  "prune_sources now l =
     (if (case cl_last_prune l of None \<Rightarrow> True | Some prev \<Rightarrow> now - prev \<ge> secs 1) then
        l\<lparr>cl_sources := filter (\<lambda>(_, start, _). now - start < secs 1) (cl_sources l), cl_last_prune := Some now\<rparr>
      else l)"

definition source_challenge :: "ip_addr \<Rightarrow> instant \<Rightarrow> cookie_challenge_limiter \<Rightarrow> bool \<times> cookie_challenge_limiter" where
  "source_challenge ip now l =
     (case map_of (cl_sources l) ip of
        Some (start, n) \<Rightarrow>
          if now - start \<ge> secs 1 then (True, l\<lparr>cl_sources := AList.update ip (now, 1) (cl_sources l)\<rparr>)
          else if n \<ge> COOKIE_SOURCE_LIMIT then (False, l)
          else (True, l\<lparr>cl_sources := AList.update ip (start, n + 1) (cl_sources l)\<rparr>)
      | None \<Rightarrow>
          if length (cl_sources l) \<ge> COOKIE_SOURCE_CAPACITY then (False, l)
          else (True, l\<lparr>cl_sources := AList.update ip (now, 1) (cl_sources l)\<rparr>))"

definition global_challenge :: "instant \<Rightarrow> cookie_challenge_limiter \<Rightarrow> bool \<times> cookie_challenge_limiter" where
  "global_challenge now l =
     (case cl_global_start l of
        Some start \<Rightarrow>
          if now - start < secs 1 then
            if cl_global_count l \<ge> COOKIE_GLOBAL_LIMIT then (False, l)
            else (True, l\<lparr>cl_global_count := cl_global_count l + 1\<rparr>)
          else (True, l\<lparr>cl_global_start := Some now, cl_global_count := 1\<rparr>)
      | None \<Rightarrow> (True, l\<lparr>cl_global_start := Some now, cl_global_count := 1\<rparr>))"

definition challenge_allow :: "socket_addr \<Rightarrow> instant \<Rightarrow> cookie_challenge_limiter \<Rightarrow> bool \<times> cookie_challenge_limiter" where
  "challenge_allow endpoint now l0 =
     (case source_challenge (sock_ip endpoint) now (prune_sources now l0) of
        (False, l) \<Rightarrow> (False, l)
      | (True, l) \<Rightarrow> global_challenge now l)"

definition per_source_pending_limit :: "'n peer_identity list \<Rightarrow> certificate_authority_config option \<Rightarrow> nat" where
  "per_source_pending_limit identities ca =
     max (sat_mul (length identities + (if ca \<noteq> None then 1 else 0)) 2) MIN_PENDING_HANDSHAKES_PER_SOURCE"

section \<open>Sending\<close>

type_synonym obf_draw = "bytes option \<times> u8 option \<times> (nat \<Rightarrow> bytes option)"
type_synonym outgoing = "(socket_addr \<times> bytes) list"

fun wrap_wire :: "prims \<Rightarrow> bytes option \<Rightarrow> obf_draw \<Rightarrow> bytes \<Rightarrow> crypto_error + bytes" where
  "wrap_wire p None draw plain = Inr plain"
| "wrap_wire p (Some key) (nonce, selector, padding) plain = obf_wrap p key plain nonce selector padding"

definition hs_send_wire :: "prims \<Rightarrow> bytes option \<Rightarrow> obf_draw \<Rightarrow> socket_addr \<Rightarrow> bytes \<Rightarrow> outgoing" where
  "hs_send_wire p obf draw endpoint plain =
     (case wrap_wire p obf draw plain of Inl _ \<Rightarrow> [] | Inr wire \<Rightarrow> [(endpoint, wire)])"

definition challenge_or_admit ::
  "prims \<Rightarrow> bytes \<Rightarrow> bytes option \<Rightarrow> obf_draw \<Rightarrow> socket_addr \<Rightarrow> handshake_message \<Rightarrow> instant \<Rightarrow> u64 \<Rightarrow>
   cookie_challenge_limiter \<Rightarrow> bool \<times> outgoing \<times> cookie_challenge_limiter" where
  "challenge_or_admit p secret obf draw endpoint initiation now unix l =
     (case initiation of
        Initiation public_key random cookie _ \<Rightarrow>
          if (case cookie of Some c \<Rightarrow> cookie_verify p secret endpoint public_key random c unix | None \<Rightarrow> False) then (True, [], l)
          else
            (case challenge_allow endpoint now l of
               (False, l1) \<Rightarrow> (False, [], l1)
             | (True, l1) \<Rightarrow>
                 (let expected = cookie_mint p secret endpoint public_key random unix;
                      reply = \<lparr>header = \<lparr>kind = Handshake, key_phase = 0, sequence = 0, session_id = ZERO\<rparr>,
                               payload = message_encode (CookieReply expected)\<rparr>
                  in (False, hs_send_wire p obf draw endpoint (packet_encode reply), l1)))
      | _ \<Rightarrow> (False, [], l))"

section \<open>Answering\<close>

datatype server_hs_error = HsFailed handshake_error | NotAResponse | KeyPhaseExhausted | SealFailed session_error

type_synonym accept_draw = "bytes option \<times> bytes option \<times> bytes option \<times> obf_draw"

definition respond_initial ::
  "prims \<Rightarrow> bytes option \<Rightarrow> socket_addr \<Rightarrow> handshake_message \<Rightarrow> 'n pending_source \<Rightarrow> auth_config \<Rightarrow> accept_draw \<Rightarrow>
   'n pending_handshakes \<Rightarrow> (server_hs_error + unit) \<times> outgoing \<times> 'n pending_handshakes" where
  "respond_initial p obf endpoint initiation source auth draws pending =
     (case draws of (sid_draw, key_draw, random_draw, odraw) \<Rightarrow>
        (case responder_accept p (cfg_identity auth) (cfg_verifier auth) initiation sid_draw key_draw random_draw of
           Inl e \<Rightarrow> (Inl (HsFailed e), [], pending)
         | Inr (handshake, response) \<Rightarrow>
             (case response of
                Response _ _ sid _ \<Rightarrow>
                  (let pkt = \<lparr>header = \<lparr>kind = Handshake, key_phase = 0, sequence = 0, session_id = sid\<rparr>,
                              payload = message_encode response\<rparr>
                   in (Inr (), hs_send_wire p obf odraw endpoint (packet_encode pkt),
                       pending_insert pending sid
                         \<lparr>ph_source = source, ph_handshake = handshake, ph_endpoint = endpoint, ph_packet = pkt,
                          ph_kind = Handshake, ph_attempts = 1\<rparr>))
              | _ \<Rightarrow> (Inl NotAResponse, [], pending))))"

fun try_identities ::
  "prims \<Rightarrow> bytes option \<Rightarrow> socket_addr \<Rightarrow> handshake_message \<Rightarrow> nat \<Rightarrow> (nat \<Rightarrow> accept_draw) \<Rightarrow> nat \<Rightarrow> 'n peer_identity list \<Rightarrow>
   'n pending_handshakes \<Rightarrow> outgoing \<times> 'n pending_handshakes" where
  "try_identities p obf endpoint initiation limit draws i [] pending = ([], pending)"
| "try_identities p obf endpoint initiation limit draws i (identity # rest) pending =
     (if count_for pending endpoint \<ge> limit then ([], pending)
      else
        let (_, out, pending1) = respond_initial p obf endpoint initiation (Known identity) (pi_auth identity) (draws i) pending;
            (out2, pending2) = try_identities p obf endpoint initiation limit draws (i + 1) rest pending1
        in (out @ out2, pending2))"

definition begin_initial ::
  "prims \<Rightarrow> 'n parsers \<Rightarrow> bytes option \<Rightarrow> 'n peer_identity list \<Rightarrow> certificate_authority_config option \<Rightarrow> socket_addr \<Rightarrow>
   handshake_message \<Rightarrow> nat \<Rightarrow> (nat \<Rightarrow> accept_draw) \<Rightarrow> 'n pending_handshakes \<Rightarrow> outgoing \<times> 'n pending_handshakes" where
  "begin_initial p ps obf identities ca_cfg endpoint initiation limit draws pending =
     (if pending_len pending \<ge> MAX_PENDING_HANDSHAKES then ([], pending)
      else if count_for pending endpoint \<ge> limit then ([], pending)
      else
        let (out1, pending1) = try_identities p obf endpoint initiation limit draws 0 identities pending in
        if count_for pending1 endpoint < limit then
          (case ca_cfg of
             None \<Rightarrow> (out1, pending1)
           | Some ca \<Rightarrow>
               (case ca_to_auth_config ps ca of
                  Inl _ \<Rightarrow> (out1, pending1)
                | Inr auth \<Rightarrow>
                    (let (_, out2, pending2) =
                       respond_initial p obf endpoint initiation (CertificateAuthority ca) auth (draws (length identities)) pending1
                     in (out1 @ out2, pending2))))
        else (out1, pending1))"

definition begin_rekey ::
  "prims \<Rightarrow> bytes option \<Rightarrow> socket_addr \<Rightarrow> 'n active_peer \<Rightarrow> handshake_message \<Rightarrow> nat \<Rightarrow> accept_draw \<Rightarrow>
   'n pending_handshakes \<Rightarrow> (server_hs_error + unit) \<times> outgoing \<times> 'n pending_handshakes" where
  "begin_rekey p obf endpoint current initiation limit draws pending =
     (let sid = ps_session_id (ap_session current); phase0 = ps_key_phase (ap_session current);
          auth = pi_auth (ap_identity current)
      in if pending_contains pending sid then (Inr (), [], pending)
         else if count_for pending endpoint \<ge> limit then (Inr (), [], pending)
         else if phase0 = - 1 then (Inl KeyPhaseExhausted, [], pending)
         else
           (case draws of (_, key_draw, random_draw, odraw) \<Rightarrow>
              (case accept_for_session p (cfg_identity auth) (cfg_verifier auth) initiation sid (phase0 + 1) key_draw random_draw of
                 Inl e \<Rightarrow> (Inl (HsFailed e), [], pending)
               | Inr (handshake, response) \<Rightarrow>
                   (let pkt = \<lparr>header = \<lparr>kind = Rekey, key_phase = phase0, sequence = 0, session_id = sid\<rparr>,
                               payload = message_encode response\<rparr>
                    in (Inr (), hs_send_wire p obf odraw endpoint (packet_encode pkt),
                        pending_insert pending sid
                          \<lparr>ph_source = Known (ap_identity current), ph_handshake = handshake, ph_endpoint = endpoint,
                           ph_packet = pkt, ph_kind = Rekey, ph_attempts = 1\<rparr>)))))"

definition maybe_send_rekey ::
  "prims \<Rightarrow> bytes option \<Rightarrow> obf_draw \<Rightarrow> 'n active_peer \<Rightarrow> u64 \<Rightarrow> duration option \<Rightarrow> instant \<Rightarrow>
   (server_hs_error + unit) \<times> outgoing \<times> 'n active_peer" where
  "maybe_send_rekey p obf draw peer limit tlimit now =
     (if \<not> should_rekey_with_policy (ap_session peer) limit tlimit now then (Inr (), [], peer)
      else if (case ap_last_rekey_request peer of Some t \<Rightarrow> now - t < REKEY_REQUEST_INTERVAL | None \<Rightarrow> False) then (Inr (), [], peer)
      else
        (case session_seal p (ap_session peer) Rekey [] of
           (Inl e, s) \<Rightarrow> (Inl (SealFailed e), [], peer\<lparr>ap_session := s\<rparr>)
         | (Inr request, s) \<Rightarrow>
             (Inr (), hs_send_wire p obf draw (ap_endpoint peer) (packet_encode request),
              peer\<lparr>ap_session := s, ap_last_rekey_request := Some now\<rparr>)))"

section \<open>Finishing\<close>

text \<open>The identity under which a finished handshake is admitted.\<close>

fun admitted_identity :: "'n parsers \<Rightarrow> 'n pending_source \<Rightarrow> bytes option \<Rightarrow> 'n peer_identity option" where
  "admitted_identity ps (Known identity) remote = Some identity"
| "admitted_identity ps (CertificateAuthority ca) None = None"
| "admitted_identity ps (CertificateAuthority ca) (Some key) =
     (let subject_hex = hex_encode ps key in
      if is_revoked ca subject_hex then None
      else
        (case resolve_allowed_ips ps ca subject_hex of
           Inl _ \<Rightarrow> None
         | Inr nets \<Rightarrow>
             if nets = [] then None
             else
               (case ca_to_auth_config ps ca of
                  Inl _ \<Rightarrow> None
                | Inr auth \<Rightarrow> Some \<lparr>pi_name = ''cert:'' @ take 16 subject_hex, pi_allowed_ips = nets, pi_auth = auth\<rparr>)))"

definition install_session ::
  "'n peer_identity \<Rightarrow> protected_session \<Rightarrow> socket_addr \<Rightarrow> duration \<Rightarrow> nat \<Rightarrow> instant \<Rightarrow> 'n active_map \<Rightarrow>
   session_id list \<times> 'n active_map" where
  "install_session identity session endpoint grace rx_rate now active0 =
     (let sid = ps_session_id session;
          stale = (\<lambda>(i, existing). i \<noteq> sid \<and> same_peer (ap_identity existing) identity);
          evicted = map fst (filter stale active0);
          active = filter (\<lambda>e. \<not> stale e) active0;
          (session, stats, limiter) =
            (case map_of active sid of
               Some existing \<Rightarrow> (inherit_previous session (ap_session existing) grace now, record_rekey (ap_stats existing), ap_rx_limiter existing)
             | None \<Rightarrow> (session, stats_default, limiter_new rx_rate now));
          peer = (active_peer_new identity session endpoint rx_rate now)\<lparr>ap_stats := stats, ap_rx_limiter := limiter\<rparr>
      in (evicted, AList.update sid peer active))"

definition finish_pending ::
  "prims \<Rightarrow> 'n parsers \<Rightarrow> 'n pending_handshakes \<Rightarrow> 'n active_map \<Rightarrow> socket_addr \<Rightarrow> packet \<Rightarrow> duration \<Rightarrow> nat \<Rightarrow> u64 \<Rightarrow> instant \<Rightarrow>
   session_id list \<times> 'n pending_handshakes \<times> 'n active_map" where
  "finish_pending p ps pending active endpoint pkt grace rx_rate unix now =
     (case pending_get pending (session_id (header pkt)) of
        None \<Rightarrow> ([], pending, active)
      | Some expected \<Rightarrow>
          if ph_endpoint expected \<noteq> endpoint \<or> ph_kind expected \<noteq> kind (header pkt) then ([], pending, active)
          else
            (case pending_remove pending (session_id (header pkt)) of
               (None, pending1) \<Rightarrow> ([], pending1, active)
             | (Some state, pending1) \<Rightarrow>
                 (case message_decode (payload pkt) of
                    Inl _ \<Rightarrow> ([], pending1, active)
                  | Inr finish \<Rightarrow>
                      (case responder_finish p (ph_handshake state) finish unix now of
                         Inl _ \<Rightarrow> ([], pending1, active)
                       | Inr (session, remote) \<Rightarrow>
                           (case admitted_identity ps (ph_source state) remote of
                              None \<Rightarrow> ([], pending1, active)
                            | Some identity \<Rightarrow>
                                (let (evicted, active1) = install_session identity session endpoint grace rx_rate now active
                                 in (evicted, pending1, active1)))))))"

definition retransmit_pending ::
  "prims \<Rightarrow> bytes option \<Rightarrow> (nat \<Rightarrow> obf_draw) \<Rightarrow> handshake_config \<Rightarrow> 'n pending_handshakes \<Rightarrow> outgoing \<times> 'n pending_handshakes" where
  "retransmit_pending p obf draws policy pending =
     (let kept = pending_retain (\<lambda>state. ph_attempts state < retry_limit policy) pending;
          out = concat (map (\<lambda>(i, _, state). hs_send_wire p obf (draws i) (ph_endpoint state) (packet_encode (ph_packet state)))
                  (enumerate 0 (entries kept)))
      in (out, bump_attempts kept))"

section \<open>The rate of challenges\<close>

text \<open>
  A counter in windows of one second. Its view is the start of the window and the count in it, if a window is open.
  A step at time \<open>t\<close> keeps the view, forgets a window that is over, counts one more within the limit, or opens a new
  window when none is open or the old one is over. Then the steps counted between two times are bounded by
  the limit times the number of windows that fit.
\<close>

fun counted :: "('x \<Rightarrow> instant \<Rightarrow> 's \<Rightarrow> bool \<times> 's) \<Rightarrow> ('x \<times> instant) list \<Rightarrow> 's \<Rightarrow> nat" where
  "counted step [] s = 0"
| "counted step ((x, t) # xs) s = (case step x t s of (b, s') \<Rightarrow> (if b then 1 else 0) + counted step xs s')"

locale fixed_window =
  fixes inv :: "'s \<Rightarrow> bool" and view :: "'s \<Rightarrow> (instant \<times> nat) option" and step :: "'x \<Rightarrow> instant \<Rightarrow> 's \<Rightarrow> bool \<times> 's" and limit :: nat
  assumes step_cases: "inv s \<Longrightarrow> step x t s = (b, s') \<Longrightarrow>
      (\<not> b \<and> view s' = view s) \<or>
      (\<not> b \<and> view s' = None \<and> (\<exists>w c. view s = Some (w, c) \<and> t - w \<ge> secs 1)) \<or>
      (\<exists>w c. view s = Some (w, c) \<and> c < limit \<and> view s' = Some (w, c + 1)) \<or>
      (view s' = Some (t, 1) \<and> (\<forall>w c. view s = Some (w, c) \<longrightarrow> t - w \<ge> secs 1))"
    and step_inv: "inv s \<Longrightarrow> inv (snd (step x t s))"
    and limit_pos: "1 \<le> limit"
begin

definition bound :: "instant \<Rightarrow> instant \<Rightarrow> nat" where
  "bound t t' = limit * ((t' - t) div secs 1 + 1)"

lemma bound_later: "w + secs 1 \<le> t \<Longrightarrow> t \<le> t' \<Longrightarrow> limit + bound t t' \<le> bound w t'"
proof -
  assume *: "w + secs 1 \<le> t" "t \<le> t'"
  then have "(t' - t) div secs 1 + 1 = (t' - t + secs 1) div secs 1" by simp
  also have "\<dots> \<le> (t' - w) div secs 1" using * by (intro div_le_mono) simp
  finally have "limit * ((t' - t) div secs 1 + 1 + 1) \<le> limit * ((t' - w) div secs 1 + 1)" by (intro mult_le_mono2) simp
  then show ?thesis by (simp add: bound_def)
qed

lemma bound_mono: "w \<le> t \<Longrightarrow> bound t t' \<le> bound w t'"
  unfolding bound_def by (intro mult_le_mono2 add_le_mono1 div_le_mono) simp

definition used :: "'s \<Rightarrow> nat" where
  "used s = (case view s of None \<Rightarrow> 0 | Some (w, c) \<Rightarrow> c)"

definition since :: "'s \<Rightarrow> instant \<Rightarrow> instant" where
  "since s t = (case view s of None \<Rightarrow> t | Some (w, c) \<Rightarrow> w)"

lemma counted_bound:
  assumes "sorted (map snd xs)" and "\<And>x t. (x, t) \<in> set xs \<Longrightarrow> t0 \<le> t \<and> t \<le> t1" and "t0 \<le> t1"
    and "used s \<le> limit" and "since s t0 \<le> t0" and "inv s"
  shows "counted step xs s + used s \<le> bound (since s t0) t1"
  using assms
proof (induction xs arbitrary: s t0)
  case Nil
  then show ?case by (simp add: bound_def)
next
  case (Cons xt xs)
  obtain x t where xt: "xt = (x, t)" by fastforce
  obtain b s' where st: "step x t s = (b, s')" by fastforce
  have t: "t0 \<le> t" "t \<le> t1" using Cons.prems(2) [of x t] xt by auto
  have later: "\<And>y u. (y, u) \<in> set xs \<Longrightarrow> t \<le> u \<and> u \<le> t1"
    using Cons.prems(1,2) xt by (fastforce simp: image_iff)
  have IH: "counted step xs s' + used s' \<le> bound (since s' t) t1" if "used s' \<le> limit" "since s' t \<le> t"
    using Cons.IH [OF _ later t(2) that] Cons.prems(1) step_inv [OF Cons.prems(6), of x t] xt st by simp
  have split: "counted step (xt # xs) s = (if b then 1 else 0) + counted step xs s'" by (simp add: xt st)
  from step_cases [OF Cons.prems(6) st] show ?case
  proof (elim disjE exE conjE)
    assume "\<not> b" "view s' = view s"
    then have "used s' = used s" "since s' t = (if view s = None then t else since s t0)" by (auto simp: used_def since_def split: option.splits)
    then show ?thesis using IH Cons.prems(4,5) t split \<open>\<not> b\<close> bound_mono [OF t(1), of t1]
      by (cases "view s") (auto simp: since_def)
  next
    fix w c assume "\<not> b" "view s' = None" "view s = Some (w, c)" "t - w \<ge> secs 1"
    moreover from this have "w + secs 1 \<le> t" by linarith
    ultimately show ?thesis using IH Cons.prems(4,5) t split bound_later [of w t t1] by (simp add: used_def since_def)
  next
    fix w c assume "view s = Some (w, c)" "c < limit" "view s' = Some (w, c + 1)"
    then show ?thesis using IH Cons.prems(4,5) t split by (auto simp: used_def since_def)
  next
    assume new: "view s' = Some (t, 1)" "\<forall>w c. view s = Some (w, c) \<longrightarrow> t - w \<ge> secs 1"
    then have "counted step xs s' + 1 \<le> bound t t1" using IH limit_pos by (simp add: used_def since_def)
    moreover have "limit + bound t t1 \<le> bound w t1" if "view s = Some (w, c)" for w c
    proof -
      have "secs 1 \<le> t - w" using new(2) that by blast
      then have "w + secs 1 \<le> t" by linarith
      then show ?thesis by (rule bound_later [OF _ t(2)])
    qed
    ultimately show ?thesis using Cons.prems(4) split bound_mono [OF t(1), of t1]
      by (cases "view s") (auto simp: used_def since_def split: if_splits)
  qed
qed

lemma counted_from_start:
  assumes "inv s" and "view s = None" and "sorted (map snd xs)" and "\<And>x t. (x, t) \<in> set xs \<Longrightarrow> t0 \<le> t \<and> t \<le> t1" and "t0 \<le> t1"
  shows "counted step xs s \<le> limit * ((t1 - t0) div secs 1 + 1)"
  using counted_bound [where s = s, OF assms(3-5)] assms(1,2) by (simp add: used_def since_def bound_def)

end

definition global_view :: "cookie_challenge_limiter \<Rightarrow> (instant \<times> nat) option" where
  "global_view l = map_option (\<lambda>start. (start, cl_global_count l)) (cl_global_start l)"

definition source_step :: "ip_addr \<Rightarrow> socket_addr \<Rightarrow> instant \<Rightarrow> cookie_challenge_limiter \<Rightarrow> bool \<times> cookie_challenge_limiter" where
  "source_step ip endpoint now l = (case challenge_allow endpoint now l of (b, l') \<Rightarrow> (b \<and> sock_ip endpoint = ip, l'))"

lemma prune_keeps_global: "global_view (prune_sources now l) = global_view l"
  by (simp add: prune_sources_def global_view_def)

lemma source_keeps_global: "source_challenge ip now l = (b, l') \<Longrightarrow> global_view l' = global_view l"
  by (auto simp: source_challenge_def global_view_def split: option.splits if_splits)

lemma global_keeps_sources: "global_challenge now l = (b, l') \<Longrightarrow> cl_sources l' = cl_sources l"
  by (auto simp: global_challenge_def split: option.splits if_splits)

lemma global_cases:
  assumes "global_challenge now l = (b, l')"
  shows "(\<not> b \<and> global_view l' = global_view l) \<or>
    (\<exists>w c. global_view l = Some (w, c) \<and> c < COOKIE_GLOBAL_LIMIT \<and> global_view l' = Some (w, c + 1)) \<or>
    (global_view l' = Some (now, 1) \<and> (\<forall>w c. global_view l = Some (w, c) \<longrightarrow> now - w \<ge> secs 1))"
  using assms by (auto simp: global_challenge_def global_view_def split: option.splits if_splits)

interpretation chall: fixed_window "\<lambda>_. True" global_view challenge_allow COOKIE_GLOBAL_LIMIT
proof
  fix endpoint t l b l'
  assume run: "challenge_allow endpoint t l = (b, l')"
  obtain b1 l1 where s: "source_challenge (sock_ip endpoint) t (prune_sources t l) = (b1, l1)" by fastforce
  have v: "global_view l1 = global_view l" using source_keeps_global [OF s] prune_keeps_global by simp
  show "(\<not> b \<and> global_view l' = global_view l) \<or>
      (\<not> b \<and> global_view l' = None \<and> (\<exists>w c. global_view l = Some (w, c) \<and> t - w \<ge> secs 1)) \<or>
      (\<exists>w c. global_view l = Some (w, c) \<and> c < COOKIE_GLOBAL_LIMIT \<and> global_view l' = Some (w, c + 1)) \<or>
      (global_view l' = Some (t, 1) \<and> (\<forall>w c. global_view l = Some (w, c) \<longrightarrow> t - w \<ge> secs 1))"
  proof (cases b1)
    case True
    then have "global_challenge t l1 = (b, l')" using run s by (simp add: challenge_allow_def)
    from global_cases [OF this] show ?thesis unfolding v by blast
  next
    case False
    then show ?thesis using run s v by (simp add: challenge_allow_def)
  qed
qed (simp_all add: COOKIE_GLOBAL_LIMIT_def)

lemma prune_source_view:
  assumes "distinct (map fst (cl_sources l))"
  shows "map_of (cl_sources (prune_sources now l)) ip = map_of (cl_sources l) ip \<or>
    map_of (cl_sources (prune_sources now l)) ip = None \<and> (\<exists>w c. map_of (cl_sources l) ip = Some (w, c) \<and> now - w \<ge> secs 1)"
proof -
  have "map_of (filter (\<lambda>(_, start, _). now - start < secs 1) al) ip =
      (case map_of al ip of None \<Rightarrow> None | Some (w, c) \<Rightarrow> if now - w < secs 1 then Some (w, c) else None)"
    if "distinct (map fst al)" for al :: "(ip_addr \<times> instant \<times> nat) list"
    using that by (induction al) (auto split: option.splits intro: rev_image_eqI)
  from this [OF assms] show ?thesis by (auto simp: prune_sources_def split: option.splits)
qed

lemma sources_distinct:
  assumes "distinct (map fst (cl_sources l))"
  shows "distinct (map fst (cl_sources (snd (challenge_allow endpoint now l))))"
proof -
  obtain b1 l1 where s: "source_challenge (sock_ip endpoint) now (prune_sources now l) = (b1, l1)" by fastforce
  have "distinct (map fst (cl_sources (prune_sources now l)))" using assms by (simp add: prune_sources_def distinct_map_filter)
  then have d1: "distinct (map fst (cl_sources l1))"
    using s by (auto simp: source_challenge_def distinct_update split: option.splits if_splits)
  obtain b2 l2 where g: "global_challenge now l1 = (b2, l2)" by fastforce
  show ?thesis using d1 s g global_keeps_sources [OF g] by (cases b1) (simp_all add: challenge_allow_def)
qed

lemma source_cases:
  assumes "source_challenge ip' now l = (b, l')"
  shows "(\<not> (b \<and> ip' = ip) \<and> map_of (cl_sources l') ip = map_of (cl_sources l) ip) \<or>
    (\<exists>w c. map_of (cl_sources l) ip = Some (w, c) \<and> c < COOKIE_SOURCE_LIMIT \<and> map_of (cl_sources l') ip = Some (w, c + 1)) \<or>
    (map_of (cl_sources l') ip = Some (now, 1) \<and> (\<forall>w c. map_of (cl_sources l) ip = Some (w, c) \<longrightarrow> now - w \<ge> secs 1))"
  using assms by (auto simp: source_challenge_def update_conv' not_le split: option.splits if_splits) blast

interpretation source: fixed_window "\<lambda>l :: cookie_challenge_limiter. distinct (map fst (cl_sources l))" "\<lambda>l. map_of (cl_sources l) ip" "source_step ip" COOKIE_SOURCE_LIMIT for ip
proof
  fix endpoint t b and l l' :: cookie_challenge_limiter
  assume inv: "distinct (map fst (cl_sources l))" and run: "source_step ip endpoint t l = (b, l')"
  obtain b1 l1 where s: "source_challenge (sock_ip endpoint) t (prune_sources t l) = (b1, l1)" by fastforce
  obtain b2 l2 where g: "global_challenge t l1 = (b2, l2)" by fastforce
  have l': "cl_sources l' = cl_sources l1" "b \<longrightarrow> b1 \<and> sock_ip endpoint = ip"
    using run s g global_keeps_sources [OF g] by (cases b1; auto simp: source_step_def challenge_allow_def)+
  show "(\<not> b \<and> map_of (cl_sources l') ip = map_of (cl_sources l) ip) \<or>
      (\<not> b \<and> map_of (cl_sources l') ip = None \<and> (\<exists>w c. map_of (cl_sources l) ip = Some (w, c) \<and> t - w \<ge> secs 1)) \<or>
      (\<exists>w c. map_of (cl_sources l) ip = Some (w, c) \<and> c < COOKIE_SOURCE_LIMIT \<and> map_of (cl_sources l') ip = Some (w, c + 1)) \<or>
      (map_of (cl_sources l') ip = Some (t, 1) \<and> (\<forall>w c. map_of (cl_sources l) ip = Some (w, c) \<longrightarrow> t - w \<ge> secs 1))"
    using prune_source_view [OF inv, of t ip] source_cases [OF s, of ip] l'(2) unfolding l'(1) by auto
next
  fix endpoint t and l :: cookie_challenge_limiter
  assume "distinct (map fst (cl_sources l))"
  then show "distinct (map fst (cl_sources (snd (source_step ip endpoint t l))))"
    using sources_distinct [of l endpoint t] by (simp add: source_step_def case_prod_beta)
qed (simp add: COOKIE_SOURCE_LIMIT_def)

section \<open>The table of handshakes in progress stays bounded\<close>

definition within :: "nat \<Rightarrow> 'n pending_handshakes \<Rightarrow> bool" where
  "within limit p \<longleftrightarrow> pending_inv p \<and> (\<forall>source. count_for p source \<le> limit)"

lemma within_iff: "within limit p \<longleftrightarrow> pending_inv p \<and> (\<forall>source. source_count (entries p) source \<le> limit)"
  by (auto simp: within_def count_for_exact)

lemma within_new: "within limit pending_new"
  by (simp add: within_iff pending_inv_new) (simp add: pending_new_def)

lemma within_insert:
  assumes "within limit p" and "count_for p (ph_endpoint state) < limit"
  shows "within limit (pending_insert p sid state)"
proof -
  have inv: "pending_inv p" and le: "\<And>s. source_count (entries p) s \<le> limit" using assms(1) by (auto simp: within_iff)
  have lt: "source_count (entries p) (ph_endpoint state) < limit" using assms(2) count_for_exact [OF inv] by simp
  have "source_count (entries (pending_insert p sid state)) s \<le> limit" for s
    using le [of s] lt by (auto simp: pending_insert_def Let_def source_count_update split: option.splits)
  then show ?thesis using pending_inv_insert [OF inv] by (auto simp: within_iff)
qed

lemma source_count_le: "source_count (filter P es) s \<le> source_count es s"
  by (induction es) (auto simp: source_count_def)

lemma within_remove:
  assumes "within limit p"
  shows "within limit (snd (pending_remove p sid))"
proof -
  have inv: "pending_inv p" and le: "\<And>s. source_count (entries p) s \<le> limit" using assms by (auto simp: within_iff)
  have "source_count (AList.delete sid (entries p)) s \<le> limit" for s
    unfolding AList.delete_eq by (rule le_trans [OF source_count_le le])
  then have "source_count (entries (snd (pending_remove p sid))) s \<le> limit" for s
    using le by (simp add: pending_remove_def split: option.splits)
  then show ?thesis using pending_inv_remove [OF inv] by (auto simp: within_iff)
qed

lemma within_retransmit: "within limit p \<Longrightarrow> within limit (snd (retransmit_pending prims obf draws policy p))"
proof -
  assume "within limit p"
  then have inv: "pending_inv p" and le: "\<And>s. source_count (entries p) s \<le> limit" by (auto simp: within_iff)
  let ?k = "pending_retain (\<lambda>state. ph_attempts state < retry_limit policy) p"
  have "source_count (entries ?k) s \<le> limit" for s
    using le_trans [OF source_count_le le] by (simp add: pending_retain_def)
  then show ?thesis using pending_inv_bump [OF pending_inv_retain [OF inv]]
    by (simp add: within_iff retransmit_pending_def Let_def bump_counts)
qed

lemma within_respond_initial:
  assumes "within limit p" and "count_for p endpoint < limit"
  shows "within limit (snd (snd (respond_initial prims obf endpoint initiation source auth draws p)))"
  using within_insert [OF assms(1)] assms
  by (auto simp: respond_initial_def Let_def split: prod.splits sum.splits handshake_message.splits)

lemma within_try_identities:
  "within limit p \<Longrightarrow> within limit (snd (try_identities prims obf endpoint initiation limit draws i ids p))"
proof (induction ids arbitrary: i p)
  case (Cons identity ids)
  then show ?case
    by (simp add: Let_def case_prod_beta within_respond_initial not_le)
qed simp

lemma within_begin_initial:
  assumes "within limit p"
  shows "within limit (snd (begin_initial prims ps obf ids ca_cfg endpoint initiation limit draws p))"
  using within_respond_initial [OF within_try_identities [OF assms]] within_try_identities [OF assms] assms
  by (simp add: begin_initial_def Let_def case_prod_beta split: option.splits sum.splits)

lemma within_begin_rekey:
  assumes "within limit p"
  shows "within limit (snd (snd (begin_rekey prims obf endpoint current initiation limit draws p)))"
  using within_insert [OF assms] assms
  by (auto simp: begin_rekey_def Let_def not_le split: prod.splits sum.splits)

lemma within_finish:
  assumes "within limit p"
  shows "within limit (fst (snd (finish_pending prims ps p active endpoint pkt grace rx_rate unix now)))"
  using within_remove [OF assms, of "session_id (header pkt)"] assms
  by (auto simp: finish_pending_def split: option.splits prod.splits sum.splits)

section \<open>Who is admitted\<close>

text \<open>
  Every handshake in progress is filed under the session identifier it was accepted for, and verifies its peer with
  the verifier of the identity it was started for.
\<close>

fun source_verifier :: "'n parsers \<Rightarrow> 'n pending_source \<Rightarrow> auth_verifier option" where
  "source_verifier ps (Known identity) = Some (cfg_verifier (pi_auth identity))"
| "source_verifier ps (CertificateAuthority ca) =
     (case ca_to_auth_config ps ca of Inl _ \<Rightarrow> None | Inr auth \<Rightarrow> Some (cfg_verifier auth))"

definition entry_ok :: "'n parsers \<Rightarrow> session_id \<Rightarrow> 'n pending_handshake \<Rightarrow> bool" where
  "entry_ok ps sid state \<longleftrightarrow>
     rh_session_id (ph_handshake state) = sid \<and> session_id (header (ph_packet state)) = sid \<and>
     source_verifier ps (ph_source state) = Some (rh_verifier (ph_handshake state))"

definition pending_ok :: "'n parsers \<Rightarrow> 'n pending_handshakes \<Rightarrow> bool" where
  "pending_ok ps p \<longleftrightarrow> list_all (\<lambda>(sid, state). entry_ok ps sid state) (entries p)"

lemma responder_accept_shape:
  assumes "responder_accept p i v initiation sd kd rd = Inr (rh, Response pk r sid sealed)"
  shows "rh_session_id rh = sid" "rh_verifier rh = v"
proof -
  obtain b where "accept_for_session p i v initiation (SessionId b) 0 kd rd = Inr (rh, Response pk r sid sealed)"
    using assms by (auto simp: responder_accept_def)
  from accept_shape [OF this] show "rh_session_id rh = sid" "rh_verifier rh = v" by auto
qed

lemma all_update: "list_all (\<lambda>(k, v). P k v) al \<Longrightarrow> P k v \<Longrightarrow> list_all (\<lambda>(k, v). P k v) (AList.update k v al)"
  by (induction al) auto

lemma pending_ok_new: "pending_ok ps pending_new"
  by (simp add: pending_ok_def pending_new_def)

lemma pending_ok_insert: "pending_ok ps p \<Longrightarrow> entry_ok ps sid state \<Longrightarrow> pending_ok ps (pending_insert p sid state)"
  by (simp add: pending_ok_def pending_insert_def Let_def all_update)

lemma pending_ok_remove: "pending_ok ps p \<Longrightarrow> pending_ok ps (snd (pending_remove p sid))"
  by (auto simp: pending_ok_def pending_remove_def AList.delete_eq list_all_iff split: option.splits)

lemma pending_ok_retransmit: "pending_ok ps p \<Longrightarrow> pending_ok ps (snd (retransmit_pending prims obf draws policy p))"
  by (auto simp: pending_ok_def retransmit_pending_def Let_def bump_attempts_def pending_retain_def list_all_iff entry_ok_def)

lemma pending_ok_respond:
  assumes "pending_ok ps p" and "source_verifier ps source = Some (cfg_verifier auth)"
  shows "pending_ok ps (snd (snd (respond_initial prims obf endpoint initiation source auth draws p)))"
  using assms
  by (auto simp: respond_initial_def Let_def entry_ok_def responder_accept_shape
      split: prod.splits sum.splits handshake_message.splits intro!: pending_ok_insert)

lemma pending_ok_try_identities:
  "pending_ok ps p \<Longrightarrow> pending_ok ps (snd (try_identities prims obf endpoint initiation limit draws i ids p))"
proof (induction ids arbitrary: i p)
  case (Cons identity ids)
  then show ?case by (simp add: Let_def case_prod_beta pending_ok_respond)
qed simp

lemma pending_ok_begin_initial:
  assumes "pending_ok ps p"
  shows "pending_ok ps (snd (begin_initial prims ps obf ids ca_cfg endpoint initiation limit draws p))"
  using pending_ok_try_identities [OF assms] assms
  by (auto simp: begin_initial_def Let_def case_prod_beta pending_ok_respond split: option.splits sum.splits)

lemma pending_ok_begin_rekey:
  assumes "pending_ok ps p"
  shows "pending_ok ps (snd (snd (begin_rekey prims obf endpoint current initiation limit draws p)))"
  using assms
  by (auto simp: begin_rekey_def Let_def entry_ok_def accept_shape split: prod.splits sum.splits intro!: pending_ok_insert)

lemma pending_ok_finish:
  assumes "pending_ok ps p"
  shows "pending_ok ps (fst (snd (finish_pending prims ps p active endpoint pkt grace rx_rate unix now)))"
  using pending_ok_remove [OF assms, of "session_id (header pkt)"] assms
  by (auto simp: finish_pending_def split: option.splits prod.splits sum.splits)

lemmas pending_ok_ops = pending_ok_new pending_ok_begin_initial pending_ok_begin_rekey pending_ok_retransmit pending_ok_finish
lemmas within_ops = within_new within_begin_initial within_begin_rekey within_retransmit within_finish

text \<open>Installing a session evicts the other sessions of the same peer and files the new one.\<close>

lemma inherit_previous_id [simp]: "ps_session_id (inherit_previous s old grace now) = ps_session_id s"
  by (simp add: inherit_previous_def)

lemma install_session_shape:
  assumes "install_session identity session endpoint grace rx_rate now active = (evicted, active')"
  shows "evicted = map fst (filter (\<lambda>(i, a). i \<noteq> ps_session_id session \<and> same_peer (ap_identity a) identity) active)"
    and "\<exists>peer. active' = AList.update (ps_session_id session) peer
           (filter (\<lambda>(i, a). \<not> (i \<noteq> ps_session_id session \<and> same_peer (ap_identity a) identity)) active) \<and>
         ap_identity peer = identity \<and> ap_endpoint peer = endpoint \<and> ps_session_id (ap_session peer) = ps_session_id session \<and>
         ps_keys (ap_session peer) = ps_keys session \<and> ps_key_phase (ap_session peer) = ps_key_phase session"
  using assms
  by (auto simp: install_session_def Let_def active_peer_new_def inherit_previous_def case_prod_unfold split: option.splits)

lemma map_of_filter_key:
  assumes "distinct (map fst al)"
  shows "map_of (filter (\<lambda>(k, v). P k v) al) i = (case map_of al i of Some v \<Rightarrow> if P i v then Some v else None | None \<Rightarrow> None)"
  using assms by (induction al) (auto split: option.splits intro: rev_image_eqI)

lemma in_evicted:
  assumes "distinct (map fst active)"
  shows "i \<in> set (map fst (filter (\<lambda>(i, a). i \<noteq> sid \<and> same_peer (ap_identity a) identity) active)) \<longleftrightarrow>
    i \<noteq> sid \<and> (\<exists>a. map_of active i = Some a \<and> same_peer (ap_identity a) identity)"
  using assms by (force simp: image_iff)

lemma install_session_lookup:
  assumes inst: "install_session identity session endpoint grace rx_rate now active = (evicted, active')"
    and "active_inv active"
  shows "\<exists>peer. map_of active' (ps_session_id session) = Some peer \<and> ap_identity peer = identity \<and> ap_endpoint peer = endpoint \<and>
      ps_session_id (ap_session peer) = ps_session_id session \<and> ps_keys (ap_session peer) = ps_keys session \<and>
      ps_key_phase (ap_session peer) = ps_key_phase session"
    and "i \<noteq> ps_session_id session \<Longrightarrow> map_of active' i = (if i \<in> set evicted then None else map_of active i)"
    and "i \<in> set evicted \<longleftrightarrow> i \<noteq> ps_session_id session \<and> (\<exists>a. map_of active i = Some a \<and> same_peer (ap_identity a) identity)"
    and "active_inv active'"
proof -
  let ?sid = "ps_session_id session"
  let ?kept = "filter (\<lambda>(i, a). \<not> (i \<noteq> ?sid \<and> same_peer (ap_identity a) identity)) active"
  note d = active_invD(1) [OF assms(2)]
  obtain peer where a': "active' = AList.update ?sid peer ?kept"
    and peer: "ap_identity peer = identity" "ap_endpoint peer = endpoint" "ps_session_id (ap_session peer) = ?sid"
      "ps_keys (ap_session peer) = ps_keys session" "ps_key_phase (ap_session peer) = ps_key_phase session"
    using install_session_shape(2) [OF inst] by blast
  note kept = map_of_filter_key [OF d, of "\<lambda>i a. \<not> (i \<noteq> ?sid \<and> same_peer (ap_identity a) identity)"]
  note ev = in_evicted [OF d, of _ ?sid identity, folded install_session_shape(1) [OF inst]]
  show "\<exists>peer. map_of active' ?sid = Some peer \<and> ap_identity peer = identity \<and> ap_endpoint peer = endpoint \<and>
      ps_session_id (ap_session peer) = ?sid \<and> ps_keys (ap_session peer) = ps_keys session \<and>
      ps_key_phase (ap_session peer) = ps_key_phase session"
    using peer by (simp add: a' update_conv')
  show "i \<in> set evicted \<longleftrightarrow> i \<noteq> ?sid \<and> (\<exists>a. map_of active i = Some a \<and> same_peer (ap_identity a) identity)" by (rule ev)
  show "map_of active' i = (if i \<in> set evicted then None else map_of active i)" if "i \<noteq> ?sid"
    using that unfolding a' ev by (cases "map_of active i") (simp_all add: update_conv' kept [simplified])
  show "active_inv active'" unfolding a'
  proof (rule active_inv_insert)
    show "active_inv ?kept" by (rule active_inv_filter [OF assms(2)])
    show "ps_session_id (ap_session peer) = ?sid" by (rule peer(3))
    show "i = ?sid" if "map_of ?kept i = Some a" "same_peer (ap_identity a) (ap_identity peer)" for i a
      using that unfolding kept peer(1) by (auto split: option.splits if_splits)
  qed
qed

lemma finish_pending_cases:
  assumes "finish_pending p ps pending active endpoint pkt grace rx_rate unix now = (evicted, pending', active')"
  obtains (kept) "evicted = []" "active' = active" "pending' \<in> {pending, snd (pending_remove pending (session_id (header pkt)))}"
  | (installed) state fin session remote identity where
      "pending_get pending (session_id (header pkt)) = Some state" "ph_endpoint state = endpoint" "ph_kind state = kind (header pkt)"
      "message_decode (payload pkt) = Inr fin" "responder_finish p (ph_handshake state) fin unix now = Inr (session, remote)"
      "admitted_identity ps (ph_source state) remote = Some identity"
      "install_session identity session endpoint grace rx_rate now active = (evicted, active')"
      "pending' = snd (pending_remove pending (session_id (header pkt)))"
  using assms
  by (auto simp: finish_pending_def pending_remove_def pending_get_def
      split: option.splits prod.splits sum.splits if_splits simp del: map_of_eq_Some_iff Some_eq_map_of_iff)

lemma finish_pending_active_inv:
  assumes "finish_pending p ps pending active endpoint pkt grace rx_rate unix now = (evicted, pending', active')" and "active_inv active"
  shows "active_inv active'"
  using assms(1) by (cases rule: finish_pending_cases) (use assms(2) install_session_lookup(4) in auto)

lemma admitted_identity_auth:
  assumes "admitted_identity ps source (Some key) = Some identity" and "source_verifier ps source = Some v"
  shows "cfg_verifier (pi_auth identity) = v"
    and "source = Known i \<Longrightarrow> identity = i"
    and "source = CertificateAuthority ca \<Longrightarrow> \<not> is_revoked ca (hex_encode ps key) \<and> pi_allowed_ips identity \<noteq> [] \<and>
      resolve_allowed_ips ps ca (hex_encode ps key) = Inr (pi_allowed_ips identity)"
proof (atomize (full))
  show "cfg_verifier (pi_auth identity) = v \<and> (source = Known i \<longrightarrow> identity = i) \<and>
    (source = CertificateAuthority ca \<longrightarrow> \<not> is_revoked ca (hex_encode ps key) \<and> pi_allowed_ips identity \<noteq> [] \<and>
      resolve_allowed_ips ps ca (hex_encode ps key) = Inr (pi_allowed_ips identity))"
    using assms by (cases source) (auto simp: Let_def split: if_splits sum.splits)
qed

lemma pending_ok_get: "pending_ok ps p \<Longrightarrow> pending_get p sid = Some state \<Longrightarrow> entry_ok ps sid state"
  by (auto simp: pending_ok_def pending_get_def list_all_iff dest!: map_of_SomeD)

section \<open>Properties\<close>

text \<open>
  C5. A finish packet adds or changes an active peer only when it completes a handshake in progress for the same session
  identifier, from the endpoint that started it, with a signature over that exchange by a key the verifier of the
  peer's own configuration vouches for. When the handshake was begun through the certificate authority, the key is not revoked and the peer gets
  the non-empty networks the authority resolves for it; when it was begun for a known identity, which is how a configured peer connects and how any
  active peer changes its keys, the peer keeps exactly that identity.
\<close>

theorem finish_admits_only_verified:
  assumes run: "finish_pending p ps pending active endpoint pkt grace rx_rate unix now = (evicted, pending', active')"
    and "active_inv active" and "pending_ok ps pending"
    and new: "map_of active' sid = Some peer" "map_of active sid \<noteq> Some peer"
  shows "\<exists>state key resp sig.
     pending_get pending sid = Some state \<and> sid = session_id (header pkt) \<and> ph_endpoint state = endpoint \<and> ap_endpoint peer = endpoint \<and>
     vouched p (cfg_verifier (pi_auth (ap_identity peer))) key unix \<and>
     tr_response (rh_transcript (ph_handshake state)) = Some resp \<and>
     identity_verify p key (client_data (tr_initiation (rh_transcript (ph_handshake state))) resp) sig \<and>
     (\<forall>i. ph_source state = Known i \<longrightarrow> ap_identity peer = i) \<and>
     (\<forall>ca. ph_source state = CertificateAuthority ca \<longrightarrow> \<not> is_revoked ca (hex_encode ps key) \<and> pi_allowed_ips (ap_identity peer) \<noteq> [] \<and>
        resolve_allowed_ips ps ca (hex_encode ps key) = Inr (pi_allowed_ips (ap_identity peer)))"
  using run
proof (cases rule: finish_pending_cases)
  case kept
  then show ?thesis using new by simp
next
  case (installed state fin session remote identity)
  note ok = pending_ok_get [OF assms(3) installed(1), unfolded entry_ok_def]
  obtain resp key sig skeys where v: "tr_response (rh_transcript (ph_handshake state)) = Some resp" "remote = Some key"
    "vouched p (rh_verifier (ph_handshake state)) key unix"
    "identity_verify p key (client_data (tr_initiation (rh_transcript (ph_handshake state))) resp) sig"
    "session = session_new (rh_session_id (ph_handshake state)) (rh_key_phase (ph_handshake state)) skeys now"
    using responder_finish_vouched [OF installed(5)] by blast
  have sid: "ps_session_id session = session_id (header pkt)" using v(5) ok by (simp add: session_new_def)
  note look = install_session_lookup [OF installed(7) assms(2)]
  have "sid = session_id (header pkt)"
    by (rule ccontr) (use look(2) [of sid] new sid in \<open>auto split: if_splits\<close>)
  moreover from this have "ap_identity peer = identity" "ap_endpoint peer = endpoint" using look(1) new(1) sid by auto
  ultimately show ?thesis
    using admitted_identity_auth [OF installed(6) [unfolded v(2)] conjunct2 [OF conjunct2 [OF ok]]] installed(1,2) v(1,3,4) by auto
qed

text \<open>
  Finishing a handshake keeps at most one session for each peer: sessions stay filed under their own identifier, two
  sessions never belong to the same peer, exactly the other sessions of the admitted peer are evicted, and every other session
  is left as it was.
\<close>

theorem finish_replaces_stale_sessions:
  assumes run: "finish_pending p ps pending active endpoint pkt grace rx_rate unix now = (evicted, pending', active')"
    and "active_inv active" and "pending_ok ps pending"
  shows "active_inv active' \<and>
     (\<forall>i. i \<noteq> session_id (header pkt) \<longrightarrow> map_of active' i = (if i \<in> set evicted then None else map_of active i)) \<and>
     (\<forall>i \<in> set evicted. \<exists>a b. map_of active i = Some a \<and> map_of active' (session_id (header pkt)) = Some b \<and>
        i \<noteq> session_id (header pkt) \<and> same_peer (ap_identity a) (ap_identity b))"
  using run
proof (cases rule: finish_pending_cases)
  case kept
  then show ?thesis using assms(2) by simp
next
  case (installed state fin session remote identity)
  note ok = pending_ok_get [OF assms(3) installed(1), unfolded entry_ok_def]
  have sid: "ps_session_id session = session_id (header pkt)"
    using responder_finish_vouched [OF installed(5)] ok by (auto simp: session_new_def)
  note look = install_session_lookup [OF installed(7) assms(2), unfolded sid]
  show ?thesis using look(1,4) by (auto simp: look(2,3))
qed

definition ex_endpoint :: socket_addr where "ex_endpoint = SockV4 3232235777 40000"

definition ex_identity :: "(ip_addr \<times> nat) peer_identity" where
  "ex_identity = \<lparr>pi_name = ''alice'', pi_allowed_ips = [(V4 167772162, 32)], pi_auth = CfgPinnedKey (replicate 32 2) (replicate 32 1)\<rparr>"

definition ex_pending :: "responder_handshake \<Rightarrow> (ip_addr \<times> nat) pending_handshakes" where
  "ex_pending rh = pending_insert pending_new ex_sid
     \<lparr>ph_source = Known ex_identity, ph_handshake = rh, ph_endpoint = ex_endpoint,
      ph_packet = \<lparr>header = \<lparr>kind = Handshake, key_phase = 0, sequence = 0, session_id = ex_sid\<rparr>, payload = []\<rparr>,
      ph_kind = Handshake, ph_attempts = 1\<rparr>"

definition ex_finish_packet :: "handshake_message \<Rightarrow> packet" where
  "ex_finish_packet fin = \<lparr>header = \<lparr>kind = Handshake, key_phase = 0, sequence = 1, session_id = ex_sid\<rparr>, payload = message_encode fin\<rparr>"

lemma ex_finish_pending:
  "\<exists>rh fin peer pending'. pending_ok plain_parsers (ex_pending rh) \<and>
     finish_pending plain_prims plain_parsers (ex_pending rh) [] ex_endpoint (ex_finish_packet fin) 0 0 100 0 = ([], pending', [(ex_sid, peer)]) \<and>
     ap_identity peer = ex_identity"
proof -
  obtain rh resp fin si sr where
    a: "accept_for_session plain_prims (IdPinnedKey (replicate 32 2)) (VerPinnedKey (replicate 32 1))
       (ih_initiation ex_initiator) ex_sid 0 (Some (replicate 32 5)) (Some (replicate 32 6)) = Inr (rh, resp)" and
    f: "finish_for_session plain_prims ex_initiator resp ex_sid 0 100 0 = Inr (fin, si, Some (replicate 32 2))" and
    r: "responder_finish plain_prims rh fin 100 0 = Inr (sr, Some (replicate 32 1))"
    using ex_run by blast
  have "wf_message fin" using f by (rule finish_for_session_Inr) simp
  then have d: "message_decode (message_encode fin) = Inr fin" by (rule message_decode_encode)
  have ok: "pending_ok plain_parsers (ex_pending rh)" unfolding ex_pending_def
    by (rule pending_ok_insert [OF pending_ok_new]) (simp add: entry_ok_def accept_shape [OF a] ex_identity_def)
  have sid: "ps_session_id sr = ex_sid"
    using responder_finish_vouched [OF r] accept_shape(1) [OF a] by (auto simp: session_new_def)
  have "\<exists>peer pending'. finish_pending plain_prims plain_parsers (ex_pending rh) [] ex_endpoint (ex_finish_packet fin) 0 0 100 0 =
      ([], pending', [(ex_sid, peer)]) \<and> ap_identity peer = ex_identity"
    using d r sid by (simp add: finish_pending_def ex_pending_def ex_finish_packet_def pending_get_def pending_insert_def pending_new_def
        pending_remove_def install_session_def Let_def active_peer_new_def)
  with ok show ?thesis by blast
qed

theorem finish_admits_only_verified_witness:
  "\<exists>(state :: (ip_addr \<times> nat) pending_handshake) key. ph_endpoint state = ex_endpoint \<and>
     vouched plain_prims (cfg_verifier (pi_auth ex_identity)) key 100"
proof -
  obtain rh fin peer pending' where e: "pending_ok plain_parsers (ex_pending rh)"
    "finish_pending plain_prims plain_parsers (ex_pending rh) [] ex_endpoint (ex_finish_packet fin) 0 0 100 0 = ([], pending', [(ex_sid, peer)])"
    "ap_identity peer = ex_identity" using ex_finish_pending by blast
  show ?thesis using finish_admits_only_verified [OF e(2) _ e(1), of ex_sid peer] e(3) by auto
qed

theorem finish_replaces_stale_sessions_witness:
  "\<exists>(peer :: (ip_addr \<times> nat) active_peer). active_inv [(ex_sid, peer)] \<and> ap_identity peer = ex_identity"
proof -
  obtain rh fin peer pending' where e: "pending_ok plain_parsers (ex_pending rh)"
    "finish_pending plain_prims plain_parsers (ex_pending rh) [] ex_endpoint (ex_finish_packet fin) 0 0 100 0 = ([], pending', [(ex_sid, peer)])"
    "ap_identity peer = ex_identity" using ex_finish_pending by blast
  show ?thesis using finish_replaces_stale_sessions [OF e(2) _ e(1)] e(3) by auto
qed

text \<open>
  C29. Unauthenticated traffic makes the server send a bounded number of cookie challenges: over any requests between two
  times, at most a hundred for each started second in total, and at most four for each started second to one address.
\<close>

theorem challenges_rate_limited:
  assumes "sorted (map snd xs)" and "\<And>x t. (x, t) \<in> set xs \<Longrightarrow> t0 \<le> t \<and> t \<le> t1" and "t0 \<le> t1"
  shows "counted challenge_allow xs cookie_limiter_default \<le> 100 * ((t1 - t0) div secs 1 + 1) \<and>
    counted (source_step ip) xs cookie_limiter_default \<le> 4 * ((t1 - t0) div secs 1 + 1)"
  using chall.counted_from_start [OF _ _ assms, of cookie_limiter_default] source.counted_from_start [OF _ _ assms, of cookie_limiter_default ip]
  by (simp add: cookie_limiter_default_def global_view_def COOKIE_GLOBAL_LIMIT_def COOKIE_SOURCE_LIMIT_def)

definition ex_requests :: "(socket_addr \<times> instant) list" where
  "ex_requests = [(ex_endpoint, 0), (ex_endpoint, 1), (ex_endpoint, 2), (ex_endpoint, 3), (ex_endpoint, 4), (ex_endpoint, secs 1)]"

theorem challenges_rate_limited_witness:
  "counted (source_step (sock_ip ex_endpoint)) ex_requests cookie_limiter_default = 5 \<and>
   counted (source_step (sock_ip ex_endpoint)) ex_requests cookie_limiter_default \<le> 8"
proof
  show "counted (source_step (sock_ip ex_endpoint)) ex_requests cookie_limiter_default = 5"
    by (simp add: ex_requests_def source_step_def challenge_allow_def prune_sources_def source_challenge_def
        global_challenge_def cookie_limiter_default_def COOKIE_SOURCE_LIMIT_def COOKIE_GLOBAL_LIMIT_def COOKIE_SOURCE_CAPACITY_def)
  show "counted (source_step (sock_ip ex_endpoint)) ex_requests cookie_limiter_default \<le> 8"
    using challenges_rate_limited [of ex_requests 0 "secs 1" "sock_ip ex_endpoint"] by (force simp: ex_requests_def)
qed

end
