(* ===== verification/Ip_Packet.thy ===== *)
theory Ip_Packet
  imports Core_Types
begin

text \<open>
  The packet inspection of \<^verbatim>\<open>crates/rvpn-routing/src/packet.rs\<close>: validation of IPv4 and IPv6 headers,
  source and destination addresses of packets and Ethernet frames, the IPv4 header checksum and
  the decrement of the hop limit.
\<close>

section \<open>Operations\<close>

definition ETHERNET_HEADER_LEN :: nat where "ETHERNET_HEADER_LEN = 14"
definition ETHERTYPE_IPV4 :: u16 where "ETHERTYPE_IPV4 = 0x0800"
definition ETHERTYPE_ARP :: u16 where "ETHERTYPE_ARP = 0x0806"
definition ETHERTYPE_IPV6 :: u16 where "ETHERTYPE_IPV6 = 0x86DD"
definition IPV4_MIN_HEADER :: nat where "IPV4_MIN_HEADER = 20"
definition IPV6_HEADER :: nat where "IPV6_HEADER = 40"

text \<open>The 16-bit words of a header, an odd last octet padded with zero.\<close>

fun checksum_words :: "bytes \<Rightarrow> u16 list" where
  "checksum_words [] = []"
| "checksum_words [a] = [from_be [a, 0]]"
| "checksum_words (a # b # rest) = from_be [a, b] # checksum_words rest"

definition words_sum :: "u16 list \<Rightarrow> u32" where
  "words_sum ws = foldl (\<lambda>s w. s + ucast w) 0 ws"

function fold_carry :: "nat \<Rightarrow> nat" where
  "fold_carry s = (if s div 65536 \<noteq> 0 then fold_carry (s mod 65536 + s div 65536) else s)"
  by pat_completeness auto
termination
proof (relation "measure (\<lambda>n. n)")
  fix s :: nat
  assume "s div 65536 \<noteq> 0"
  then have "s div 65536 < s div 65536 * 65536" by simp
  then have "s mod 65536 + s div 65536 < s div 65536 * 65536 + s mod 65536" by linarith
  then show "(s mod 65536 + s div 65536, s) \<in> measure (\<lambda>n. n)" by simp
qed simp

declare fold_carry.simps [simp del]

definition ipv4_header_checksum :: "bytes \<Rightarrow> u16" where
  "ipv4_header_checksum hdr = NOT (of_nat (fold_carry (unat (words_sum (checksum_words hdr)))))"

definition nibble :: "u8 \<Rightarrow> u8" where
  "nibble b = drop_bit 4 b"

definition ipv4_header_len :: "bytes \<Rightarrow> nat" where
  "ipv4_header_len pkt = unat (pkt ! 0 AND 0x0f) * 4"

definition valid_ipv4 :: "bytes \<Rightarrow> bool" where
  "valid_ipv4 pkt =
     (if length pkt < IPV4_MIN_HEADER \<or> nibble (pkt ! 0) \<noteq> 4 then False
      else
        let header_len = ipv4_header_len pkt;
            total_len = unat (from_be [pkt ! 2, pkt ! 3] :: u16)
        in header_len \<ge> IPV4_MIN_HEADER \<and> header_len \<le> total_len \<and> total_len \<le> length pkt \<and>
           ipv4_header_checksum (take header_len pkt) = 0)"

text \<open>
  The walk over IPv6 extension headers, bounded by eight rounds. An index outside the packet
  would panic; it is \<open>None\<close>.
\<close>

definition get :: "bytes \<Rightarrow> nat \<Rightarrow> u8 option" where
  "get xs i = (if i < length xs then Some (xs ! i) else None)"

definition ext_length :: "bytes \<Rightarrow> nat \<Rightarrow> u8 \<Rightarrow> nat \<Rightarrow> (bool + nat) option" where
  "ext_length pkt stop next offset =
     (if next = 0 \<or> next = 43 \<or> next = 60 then
        (if offset + 2 > stop then Some (Inl False)
         else map_option (\<lambda>b. Inr ((unat b + 1) * 8)) (get pkt (offset + 1)))
      else if next = 44 then Some (Inr 8)
      else if next = 51 then
        (if offset + 2 > stop then Some (Inl False)
         else map_option (\<lambda>b. Inr ((unat b + 2) * 4)) (get pkt (offset + 1)))
      else Some (Inl True))"

fun ext_loop :: "nat \<Rightarrow> bytes \<Rightarrow> nat \<Rightarrow> u8 \<Rightarrow> nat \<Rightarrow> bool option" where
  "ext_loop 0 pkt stop next offset = Some (next \<notin> {0, 43, 44, 51, 60})"
| "ext_loop (Suc n) pkt stop next offset =
     (case ext_length pkt stop next offset of
        None \<Rightarrow> None
      | Some (Inl result) \<Rightarrow> Some result
      | Some (Inr len) \<Rightarrow>
          (if offset + len > stop then Some False
           else case get pkt offset of
             None \<Rightarrow> None
           | Some next' \<Rightarrow> ext_loop n pkt stop next' (offset + len)))"

definition valid_ipv6 :: "bytes \<Rightarrow> bool option" where
  "valid_ipv6 pkt =
     (if length pkt < IPV6_HEADER \<or> nibble (pkt ! 0) \<noteq> 6 then Some False
      else
        let payload_len = unat (from_be [pkt ! 4, pkt ! 5] :: u16);
            stop = IPV6_HEADER + payload_len
        in if stop > length pkt then Some False else ext_loop 8 pkt stop (pkt ! 6) IPV6_HEADER)"

definition packet_source :: "bytes \<Rightarrow> ip_addr option" where
  "packet_source pkt =
     (if pkt = [] then None
      else if nibble (pkt ! 0) = 4 \<and> valid_ipv4 pkt then Some (V4 (from_be (slice 12 16 pkt)))
      else if nibble (pkt ! 0) = 6 \<and> valid_ipv6 pkt = Some True then Some (V6 (from_be (slice 8 24 pkt)))
      else None)"

definition packet_destination :: "bytes \<Rightarrow> ip_addr option" where
  "packet_destination pkt =
     (if pkt = [] then None
      else if nibble (pkt ! 0) = 4 \<and> valid_ipv4 pkt then Some (V4 (from_be (slice 16 20 pkt)))
      else if nibble (pkt ! 0) = 6 \<and> valid_ipv6 pkt = Some True then Some (V6 (from_be (slice 24 40 pkt)))
      else None)"

definition ethernet_dst_mac :: "bytes \<Rightarrow> bytes option" where
  "ethernet_dst_mac frame = (if 6 \<le> length frame then Some (slice 0 6 frame) else None)"

definition ethernet_src_mac :: "bytes \<Rightarrow> bytes option" where
  "ethernet_src_mac frame = (if 12 \<le> length frame then Some (slice 6 12 frame) else None)"

definition ethertype :: "bytes \<Rightarrow> u16 option" where
  "ethertype frame = (if 14 \<le> length frame then Some (from_be (slice 12 14 frame)) else None)"

definition is_broadcast_or_multicast_mac :: "bytes \<Rightarrow> bool" where
  "is_broadcast_or_multicast_mac mac = (mac ! 0 AND 1 = 1)"

definition ethernet_payload_ip :: "bytes \<Rightarrow> bool \<Rightarrow> ip_addr option" where
  "ethernet_payload_ip frame is_dest =
     (if length frame < ETHERNET_HEADER_LEN then None
      else
        let pl = drop ETHERNET_HEADER_LEN frame in
        case ethertype frame of
          None \<Rightarrow> None
        | Some ty \<Rightarrow>
            if ty = ETHERTYPE_IPV4 \<and> pl \<noteq> [] \<and> nibble (pl ! 0) = 4 then
              (if is_dest then packet_destination pl else packet_source pl)
            else if ty = ETHERTYPE_IPV6 \<and> pl \<noteq> [] \<and> nibble (pl ! 0) = 6 then
              (if is_dest then packet_destination pl else packet_source pl)
            else if ty = ETHERTYPE_ARP then
              (if length pl < 28 \<or> slice 0 2 pl \<noteq> [0, 1] \<or> slice 2 4 pl \<noteq> to_be 2 ETHERTYPE_IPV4 \<or>
                  pl ! 4 \<noteq> 6 \<or> pl ! 5 \<noteq> 4 \<or> (from_be [pl ! 6, pl ! 7] :: u16) \<notin> {1, 2} \<or>
                  slice 6 12 frame \<noteq> slice 8 14 pl
               then None
               else let offset = (if is_dest then 24 else 14)
                    in Some (V4 (from_be (slice offset (offset + 4) pl))))
            else None)"

text \<open>The packet is changed in place only when the result is true.\<close>

definition decrement_hop_limit :: "bytes \<Rightarrow> bool \<times> bytes" where
  "decrement_hop_limit pkt =
     (if pkt = [] then (False, pkt)
      else if nibble (pkt ! 0) = 4 then
        (if length pkt < IPV4_MIN_HEADER then (False, pkt)
         else
           let header_len = ipv4_header_len pkt in
           if header_len < IPV4_MIN_HEADER \<or> length pkt < header_len then (False, pkt)
           else if pkt ! 8 \<le> 1 then (False, pkt)
           else
             let p1 = pkt[8 := pkt ! 8 - 1];
                 p2 = p1[10 := 0, 11 := 0];
                 cs = to_be 2 (ipv4_header_checksum (take header_len p2))
             in (True, p2[10 := cs ! 0, 11 := cs ! 1]))
      else if nibble (pkt ! 0) = 6 then
        (if length pkt < IPV6_HEADER \<or> pkt ! 7 \<le> 1 then (False, pkt)
         else (True, pkt[7 := pkt ! 7 - 1]))
      else (False, pkt))"

definition prepare_forward :: "bytes \<Rightarrow> bytes option" where
  "prepare_forward pkt = (case decrement_hop_limit pkt of (ok, q) \<Rightarrow> if ok then Some q else None)"

section \<open>Arithmetic of the checksum\<close>

lemma fold_carry_less: "fold_carry n < 65536"
  by (induction n rule: fold_carry.induct) (subst fold_carry.simps, auto)

lemma fold_carry_mod: "fold_carry n mod 65535 = n mod 65535"
proof (induction n rule: fold_carry.induct)
  case (1 n)
  show ?case
  proof (cases "n div 65536 \<noteq> 0")
    case True
    define q r where "q = n div 65536" and "r = n mod 65536"
    have "n = 65536 * q + r" by (simp add: q_def r_def)
    then have "n = r + q + 65535 * q" by simp
    then have "(r + q) mod 65535 = n mod 65535" by (simp only: mod_mult_self2)
    then have "(n mod 65536 + n div 65536) mod 65535 = n mod 65535" by (simp only: q_def r_def)
    then show ?thesis using 1 True by (subst fold_carry.simps) simp
  next
    case False
    then show ?thesis by (subst fold_carry.simps) simp
  qed
qed

lemma fold_carry_pos: "0 < n \<Longrightarrow> 0 < fold_carry n"
proof (induction n rule: fold_carry.induct)
  case (1 n)
  then show ?case by (subst fold_carry.simps) auto
qed

text \<open>A sum completed by its own complement folds to all ones.\<close>

lemma fold_carry_complement: "fold_carry (s + (65535 - fold_carry s)) = 65535"
proof -
  let ?t = "s + (65535 - fold_carry s)"
  have "?t mod 65535 = (fold_carry s + (65535 - fold_carry s)) mod 65535"
    using fold_carry_mod [of s] by (metis mod_add_left_eq)
  also have "fold_carry s + (65535 - fold_carry s) = 65535" using fold_carry_less [of s] by simp
  finally have m: "fold_carry ?t mod 65535 = 0" by (simp add: fold_carry_mod)
  have "0 < ?t"
  proof (cases "s = 0")
    case True
    then show ?thesis by (simp add: fold_carry.simps)
  qed simp
  then have pos: "0 < fold_carry ?t" by (rule fold_carry_pos)
  have one: "x = 65535" if x: "x mod 65535 = 0" "0 < x" "x < 65536" for x :: nat
  proof -
    obtain k where k: "x = 65535 * k" using x(1) unfolding mod_eq_0_iff_dvd by (rule dvdE)
    with x(2,3) have "k = 1" by (cases k) auto
    with k show ?thesis by simp
  qed
  show ?thesis by (rule one [OF m pos fold_carry_less])
qed

lemma checksum_words_append:
  "even (length xs) \<Longrightarrow> checksum_words (xs @ ys) = checksum_words xs @ checksum_words ys"
  by (induction xs rule: checksum_words.induct) auto

lemma length_checksum_words: "length (checksum_words xs) = (length xs + 1) div 2"
  by (induction xs rule: checksum_words.induct) auto

lemma words_sum_append: "words_sum (ws @ [w]) = words_sum ws + ucast w"
  by (simp add: words_sum_def)

lemma unat_words_sum:
  "length ws \<le> 30 \<Longrightarrow> unat (words_sum ws) = sum_list (map unat ws) \<and> sum_list (map unat ws) \<le> 65535 * length ws"
proof (induction ws rule: rev_induct)
  case Nil
  then show ?case by (simp add: words_sum_def)
next
  case (snoc w ws)
  have w: "unat w < 65536" using unat_less_2p [of w] by simp
  have c: "unat (ucast w :: u32) = unat w" using w by (simp add: unsigned_ucast_eq take_bit_nat_eq_self)
  have IH: "unat (words_sum ws) = sum_list (map unat ws)" "sum_list (map unat ws) \<le> 65535 * length ws"
    using snoc by auto
  then have "unat (words_sum ws) + unat (ucast w :: u32) < 2 ^ LENGTH(32)"
    using w c snoc.prems by simp
  then have "unat (words_sum ws + ucast w) = unat (words_sum ws) + unat (ucast w :: u32)"
    by (rule unat_add_lem [THEN iffD1])
  with IH w c show ?case by (simp add: words_sum_append)
qed

lemma checksum_eq:
  assumes "length hdr \<le> 60"
  shows "unat (ipv4_header_checksum hdr) = 65535 - fold_carry (sum_list (map unat (checksum_words hdr)))"
proof -
  have "unat (words_sum (checksum_words hdr)) = sum_list (map unat (checksum_words hdr))"
    using unat_words_sum [of "checksum_words hdr"] assms by (simp add: length_checksum_words)
  moreover have "unat (NOT (of_nat n :: u16)) = 65535 - n" if "n < 65536" for n
  proof -
    have "NOT (of_nat n :: u16) = - 1 - of_nat n" by (simp add: not_eq_complement)
    moreover have "unat (- 1 - of_nat n :: u16) = unat (- 1 :: u16) - unat (of_nat n :: u16)"
      by (rule unat_sub) simp
    ultimately show ?thesis
      using that by (simp add: unat_of_nat unsigned_minus_1_eq_mask mask_eq_exp_minus_1)
  qed
  ultimately show ?thesis using fold_carry_less by (simp add: ipv4_header_checksum_def)
qed

lemma list_update_pair:
  "12 \<le> length xs \<Longrightarrow> xs[10 := a, 11 := b] = take 10 xs @ [a, b] @ drop 12 xs"
  by (simp add: upd_conv_take_nth_drop [of 10] upd_conv_take_nth_drop [of 11] take_update_swap min_def)

lemma to_be_2: "to_be 2 (c :: u16) = [ucast (drop_bit 8 c), ucast c]"
  by (simp add: numeral_2_eq_2)

text \<open>Writing the checksum of a header into its checksum field makes the header check to zero.\<close>

lemma checksum_written:
  assumes "12 \<le> length h" "length h \<le> 60"
  defines "h0 \<equiv> h[10 := 0, 11 := 0]"
  defines "cs \<equiv> to_be 2 (ipv4_header_checksum h0)"
  shows "ipv4_header_checksum (h0[10 := cs ! 0, 11 := cs ! 1]) = 0"
proof -
  let ?c = "ipv4_header_checksum h0" and ?S = "\<lambda>xs. sum_list (map unat (checksum_words xs))"
  define h1 where "h1 = h0[10 := cs ! 0, 11 := cs ! 1]"
  have h0: "h0 = take 10 h @ [0, 0] @ drop 12 h" using assms(1) by (simp add: h0_def list_update_pair)
  have "h1 = take 10 h0 @ [cs ! 0, cs ! 1] @ drop 12 h0"
    using assms(1) by (simp add: h1_def list_update_pair h0_def)
  then have h1: "h1 = take 10 h @ cs @ drop 12 h"
    using assms(1) by (simp add: h0 cs_def to_be_2)
  obtain x y where cs: "cs = [x, y]" by (simp add: cs_def to_be_2)
  then have c: "from_be [x, y] = ?c" using from_be_to_be_full [of 2 ?c] by (simp add: cs_def)
  have "?S h1 = ?S h0 + unat ?c"
    using assms(1) cs c by (simp add: h0 h1 checksum_words_append from_be_def [of "[0, 0]"])
  also have "\<dots> = ?S h0 + (65535 - fold_carry (?S h0))"
    using checksum_eq [of h0] assms(2) by (simp add: h0_def)
  finally have "fold_carry (?S h1) = 65535" by (simp only: fold_carry_complement)
  moreover have "length h1 \<le> 60" using assms(2) by (simp add: h1_def h0_def)
  ultimately have "unat (ipv4_header_checksum h1) = 0" using checksum_eq [of h1] by simp
  then show ?thesis by (simp add: h1_def unat_eq_zero)
qed

section \<open>Bounds of the extension header walk\<close>

lemma ext_loop_no_panic: "stop \<le> length pkt \<Longrightarrow> ext_loop n pkt stop nxt off \<noteq> None"
proof (induction n arbitrary: nxt off)
  case (Suc n)
  then show ?case
    by (auto simp: ext_length_def get_def split: option.splits sum.splits if_splits)
qed simp

lemma valid_ipv6_total: "valid_ipv6 pkt \<noteq> None"
  by (simp add: valid_ipv6_def Let_def ext_loop_no_panic del: not_None_eq)

lemma ext_loop_update:
  "8 \<le> off \<Longrightarrow> ext_loop n (pkt[7 := v]) stop nxt off = ext_loop n pkt stop nxt off"
proof (induction n arbitrary: nxt off)
  case (Suc n)
  then have "ext_length (pkt[7 := v]) stop nxt off = ext_length pkt stop nxt off" "get (pkt[7 := v]) off = get pkt off"
    by (simp_all add: ext_length_def get_def)
  with Suc show ?case by (auto split: option.splits sum.splits)
qed simp

lemma slice_update [simp]: "i < a \<Longrightarrow> slice a b (xs[i := v]) = slice a b xs"
  by (simp add: slice_def)

section \<open>Forwarding\<close>

definition hop_limit :: "bytes \<Rightarrow> u8" where
  "hop_limit pkt = (if nibble (pkt ! 0) = 4 then pkt ! 8 else pkt ! 7)"

lemma ip_lens [simp]: "IPV4_MIN_HEADER = 20" "IPV6_HEADER = 40" "ETHERNET_HEADER_LEN = 14"
  by (simp_all add: IPV4_MIN_HEADER_def IPV6_HEADER_def ETHERNET_HEADER_LEN_def)

lemma ipv4_header_len_le: "ipv4_header_len pkt \<le> 60"
proof -
  have "pkt ! 0 AND 0x0f = take_bit 4 (pkt ! 0)"
    by (simp add: take_bit_eq_mask mask_eq_exp_minus_1)
  then have "unat (pkt ! 0 AND 0x0f) = take_bit 4 (unat (pkt ! 0))"
    by (simp add: unsigned_take_bit_eq)
  then have "unat (pkt ! 0 AND 0x0f) < 16" by (simp add: take_bit_eq_mod)
  then show ?thesis by (simp add: ipv4_header_len_def)
qed

lemma decrement_ipv4:
  assumes "nibble (pkt ! 0) = 4" "valid_ipv4 pkt" "pkt ! 8 > 1"
  obtains q where "decrement_hop_limit pkt = (True, q)" "valid_ipv4 q" "length q = length pkt"
    "q ! 0 = pkt ! 0" "q ! 8 = pkt ! 8 - 1" "drop 12 q = drop 12 pkt"
proof -
  let ?n = "ipv4_header_len pkt"
  have v: "20 \<le> length pkt" "20 \<le> ?n" "?n \<le> length pkt"
    "?n \<le> unat (from_be [pkt ! 2, pkt ! 3] :: u16)" "unat (from_be [pkt ! 2, pkt ! 3] :: u16) \<le> length pkt"
    using assms(2) by (auto simp: valid_ipv4_def Let_def split: if_splits)
  define p2 where "p2 = pkt[8 := pkt ! 8 - 1, 10 := 0, 11 := 0]"
  define cs where "cs = to_be 2 (ipv4_header_checksum (take ?n p2))"
  define q where "q = p2[10 := cs ! 0, 11 := cs ! 1]"
  let ?h = "take ?n (pkt[8 := pkt ! 8 - 1])"
  have t: "take ?n p2 = ?h[10 := 0, 11 := 0]" "take ?n q = (take ?n p2)[10 := cs ! 0, 11 := cs ! 1]"
    by (simp_all add: p2_def q_def take_update_swap)
  have "ipv4_header_checksum (take ?n q) = 0"
    unfolding t(2) cs_def t(1) using v ipv4_header_len_le [of pkt] by (intro checksum_written) auto
  moreover have q: "length q = length pkt" "q ! 0 = pkt ! 0" "q ! 2 = pkt ! 2" "q ! 3 = pkt ! 3"
    "q ! 8 = pkt ! 8 - 1" "drop 12 q = drop 12 pkt"
    using v(1) by (simp_all add: q_def p2_def)
  moreover have "ipv4_header_len q = ?n" using q by (simp add: ipv4_header_len_def)
  ultimately have "valid_ipv4 q" using v assms(1) by (simp add: valid_ipv4_def)
  moreover have "decrement_hop_limit pkt = (True, q)"
    using v assms(1,3) by (auto simp: decrement_hop_limit_def Let_def q_def p2_def cs_def)
  ultimately show ?thesis using q that by blast
qed

lemma decrement_ipv6:
  assumes "nibble (pkt ! 0) = 6" "valid_ipv6 pkt = Some True" "pkt ! 7 > 1"
  obtains q where "decrement_hop_limit pkt = (True, q)" "valid_ipv6 q = Some True" "length q = length pkt"
    "q ! 0 = pkt ! 0" "q ! 7 = pkt ! 7 - 1" "drop 8 q = drop 8 pkt"
proof -
  have v: "40 \<le> length pkt" using assms(2) by (auto simp: valid_ipv6_def split: if_splits)
  define q where "q = pkt[7 := pkt ! 7 - 1]"
  have q: "length q = length pkt" "q ! 0 = pkt ! 0" "q ! 4 = pkt ! 4" "q ! 5 = pkt ! 5" "q ! 6 = pkt ! 6"
    "q ! 7 = pkt ! 7 - 1" "drop 8 q = drop 8 pkt"
    using v by (simp_all add: q_def)
  have "valid_ipv6 q = valid_ipv6 pkt"
  proof -
    have "ext_loop 8 q stop nxt 40 = ext_loop 8 pkt stop nxt 40" for stop nxt
      by (simp add: q_def ext_loop_update)
    then show ?thesis unfolding valid_ipv6_def q(1-5) by (simp add: Let_def)
  qed
  moreover have "decrement_hop_limit pkt = (True, q)"
    using v assms(1,3) by (auto simp: decrement_hop_limit_def q_def)
  ultimately show ?thesis using q assms(2) that by simp
qed

lemma slice_of_drop: "k \<le> a \<Longrightarrow> slice a b xs = take (b - a) (drop (a - k) (drop k xs))"
  by (simp add: slice_def)

lemma slice_cong_drop: "drop k xs = drop k ys \<Longrightarrow> k \<le> a \<Longrightarrow> slice a b xs = slice a b ys"
  by (simp add: slice_of_drop)

text \<open>An IPv4 packet of 28 octets from 10.42.0.2 to 10.42.0.3 with hop limit 64, as a concrete input.\<close>

definition ex_ipv4 :: bytes where
  "ex_ipv4 = [0x45, 0, 0, 28, 0, 0, 0, 0, 64, 17, 0x66, 0x79, 10, 42, 0, 2, 10, 42, 0, 3, 0, 0, 0, 0, 0, 0, 0, 0]"

lemma ex_ipv4_source: "packet_source ex_ipv4 = Some (V4 0x0A2A0002)"
  by (simp add: ex_ipv4_def packet_source_def valid_ipv4_def ipv4_header_len_def nibble_def from_be_def
      ipv4_header_checksum_def words_sum_def fold_carry.simps slice_def Let_def)

section \<open>Properties\<close>

text \<open>
  C25. Forwarding a valid packet is refused exactly when its hop limit is 0 or 1. Otherwise the
  packet forwarded is again valid, checksum included, with the same addresses and length and the
  hop limit one less.
\<close>

theorem prepare_forward_correct:
  assumes "packet_source pkt = Some src"
  shows "case prepare_forward pkt of
      None \<Rightarrow> hop_limit pkt \<le> 1
    | Some q \<Rightarrow> hop_limit pkt > 1 \<and> hop_limit q = hop_limit pkt - 1 \<and> length q = length pkt \<and>
        packet_source q = Some src \<and> packet_destination q = packet_destination pkt"
proof -
  have ne: "pkt \<noteq> []" using assms by (auto simp: packet_source_def)
  consider (v4) "nibble (pkt ! 0) = 4" "valid_ipv4 pkt" | (v6) "nibble (pkt ! 0) = 6" "valid_ipv6 pkt = Some True"
    using assms by (auto simp: packet_source_def split: if_splits)
  then show ?thesis
  proof cases
    case v4
    show ?thesis
    proof (cases "pkt ! 8 > 1")
      case True
      with v4 obtain q where q: "decrement_hop_limit pkt = (True, q)" "valid_ipv4 q" "length q = length pkt"
        "q ! 0 = pkt ! 0" "q ! 8 = pkt ! 8 - 1" "drop 12 q = drop 12 pkt" by (rule decrement_ipv4)
      have "slice 12 16 q = slice 12 16 pkt" "slice 16 20 q = slice 16 20 pkt"
        using slice_cong_drop [OF q(6)] by simp_all
      moreover have "q \<noteq> []" using q(3) ne by auto
      ultimately show ?thesis
        using q(1-5) v4 True ne assms
        by (simp add: prepare_forward_def hop_limit_def packet_source_def packet_destination_def)
    next
      case False
      with v4 ne show ?thesis
        by (auto simp: prepare_forward_def decrement_hop_limit_def hop_limit_def Let_def)
    qed
  next
    case v6
    show ?thesis
    proof (cases "pkt ! 7 > 1")
      case True
      with v6 obtain q where q: "decrement_hop_limit pkt = (True, q)" "valid_ipv6 q = Some True" "length q = length pkt"
        "q ! 0 = pkt ! 0" "q ! 7 = pkt ! 7 - 1" "drop 8 q = drop 8 pkt" by (rule decrement_ipv6)
      have "slice 8 24 q = slice 8 24 pkt" "slice 24 40 q = slice 24 40 pkt"
        using slice_cong_drop [OF q(6)] by simp_all
      moreover have "q \<noteq> []" using q(3) ne by auto
      ultimately show ?thesis
        using q(1-5) v6 True ne assms
        by (simp add: prepare_forward_def hop_limit_def packet_source_def packet_destination_def)
    next
      case False
      with v6 ne show ?thesis
        by (auto simp: prepare_forward_def decrement_hop_limit_def hop_limit_def Let_def)
    qed
  qed
qed

theorem prepare_forward_correct_witness:
  "\<exists>q. prepare_forward ex_ipv4 = Some q \<and> hop_limit q = 63 \<and> packet_source q = Some (V4 0x0A2A0002)"
proof -
  have "hop_limit ex_ipv4 = 64" by (simp add: hop_limit_def ex_ipv4_def nibble_def)
  with prepare_forward_correct [OF ex_ipv4_source] show ?thesis
    by (cases "prepare_forward ex_ipv4") (auto simp: ex_ipv4_source word_le_nat_alt)
qed

text \<open>
  C40. The validation of an IPv6 packet never reads outside the packet: the walk over the
  extension headers ends with a verdict for every byte string.
\<close>

theorem ipv6_validation_total: "\<exists>b. valid_ipv6 pkt = Some b"
  using valid_ipv6_total by simp

end
