(* ===== verification/Router.thy ===== *)
theory Router
  imports Ip_Packet "HOL-Library.Product_Lexorder"
begin

text \<open>
  The peer router of \<^verbatim>\<open>crates/rvpn-routing/src/router.rs\<close>: which peer may send to which, source
  address filtering, longest-prefix ownership of addresses and learned MAC addresses.

  Networks come from the external crate \<^verbatim>\<open>ipnet\<close>: their type is a parameter, and their operations
  \<^verbatim>\<open>contains\<close> and \<^verbatim>\<open>prefix_len\<close> are the fields of a record argument. The map of peers is an
  association list with distinct keys, in arbitrary order, because the code iterates over it.
\<close>

section \<open>State\<close>

record 'n net_ops =
  net_contains :: "'n \<Rightarrow> ip_addr \<Rightarrow> bool"
  net_prefix_len :: "'n \<Rightarrow> u8"

definition MAX_MACS_PER_PEER :: nat where "MAX_MACS_PER_PEER = 16"

datatype drop_reason =
    Malformed
  | UnsupportedEthertype
  | SourceNotAllowed
  | InvalidSourceMac
  | MacConflict
  | TooManyMacs
  | NoLink
  | Hairpin
  | UnknownSession

fun as_str :: "drop_reason \<Rightarrow> string" where
  "as_str Malformed = ''malformed packet''"
| "as_str UnsupportedEthertype = ''unsupported ethertype''"
| "as_str SourceNotAllowed = ''unauthorized source address''"
| "as_str InvalidSourceMac = ''invalid source MAC''"
| "as_str MacConflict = ''source MAC belongs to another peer''"
| "as_str TooManyMacs = ''too many source MACs for one peer''"
| "as_str NoLink = ''no link between source and destination peers''"
| "as_str Hairpin = ''destination is the sending peer''"
| "as_str UnknownSession = ''unknown session''"

record delivery =
  del_local :: bool
  del_peers :: "session_id list"

definition delivery_local :: delivery where
  "delivery_local = \<lparr>del_local = True, del_peers = []\<rparr>"

definition to_peer :: "session_id \<Rightarrow> delivery" where
  "to_peer s = \<lparr>del_local = False, del_peers = [s]\<rparr>"

datatype verdict = Drop drop_reason | Forward delivery

type_synonym links = "(string \<times> string) set"

fun group_edges :: "string list \<Rightarrow> links" where
  "group_edges [] = {}"
| "group_edges (a # rest) =
     fold (\<lambda>b edges. if a \<noteq> b then insert (b, a) (insert (a, b) edges) else edges) rest (group_edges rest)"

definition links_from_groups :: "string list list \<Rightarrow> links" where
  "links_from_groups groups = (\<Union>g\<in>set groups. group_edges g)"

definition links_from_directed_pairs :: "(string \<times> string) list \<Rightarrow> links" where
  "links_from_directed_pairs pairs = set pairs"

definition links_linked :: "links \<Rightarrow> string \<Rightarrow> string \<Rightarrow> bool" where
  "links_linked edges a b \<longleftrightarrow> a \<noteq> b \<and> (a, b) \<in> edges"

record 'n peer_entry =
  pe_name :: string
  allowed_ips :: "'n list"
  linked :: "session_id set"
  pe_macs :: "bytes set"

definition source_allowed :: "'n net_ops \<Rightarrow> 'n peer_entry \<Rightarrow> ip_addr \<Rightarrow> bool" where
  "source_allowed ops pe src \<longleftrightarrow> allowed_ips pe \<noteq> [] \<and> list_ex (\<lambda>net. net_contains ops net src) (allowed_ips pe)"

record 'n router =
  r_links :: links
  r_peers :: "(session_id \<times> 'n peer_entry) list"
  r_table :: "('n \<times> session_id) list"
  r_macs :: "bytes \<rightharpoonup> session_id"

section \<open>Operations\<close>

definition router_new :: "links \<Rightarrow> 'n router" where
  "router_new ls = \<lparr>r_links = ls, r_peers = [], r_table = [], r_macs = Map.empty\<rparr>"

definition table_key :: "'n net_ops \<Rightarrow> 'n \<times> session_id \<Rightarrow> nat \<times> session_id" where
  "table_key ops e = (255 - unat (net_prefix_len ops (fst e)), snd e)"

definition table_entries :: "(session_id \<times> 'n peer_entry) list \<Rightarrow> ('n \<times> session_id) list" where
  "table_entries peers = concat (map (\<lambda>(id, pe). map (\<lambda>net. (net, id)) (allowed_ips pe)) peers)"

definition rebuild_table :: "'n net_ops \<Rightarrow> 'n router \<Rightarrow> 'n router" where
  "rebuild_table ops r = r\<lparr>r_table := sort_key (table_key ops) (table_entries (r_peers r))\<rparr>"

definition update_peers ::
  "(session_id \<Rightarrow> 'n peer_entry \<Rightarrow> 'n peer_entry) \<Rightarrow> (session_id \<times> 'n peer_entry) list \<Rightarrow> (session_id \<times> 'n peer_entry) list" where
  "update_peers f peers = map (\<lambda>(id, pe). (id, f id pe)) peers"

definition replace_links :: "'n router \<Rightarrow> links \<Rightarrow> 'n router" where
  "replace_links r ls =
     (let names = map (\<lambda>(id, pe). (id, pe_name pe)) (r_peers r)
      in r\<lparr>r_links := ls,
           r_peers := update_peers (\<lambda>id pe.
             pe\<lparr>linked := set (map fst (filter (\<lambda>(other_id, name). other_id \<noteq> id \<and> links_linked ls (pe_name pe) name) names))\<rparr>)
             (r_peers r)\<rparr>)"

definition unregister :: "'n net_ops \<Rightarrow> 'n router \<Rightarrow> session_id \<Rightarrow> 'n router" where
  "unregister ops r s =
     (case map_of (r_peers r) s of
        None \<Rightarrow> r
      | Some pe \<Rightarrow>
          rebuild_table ops
            (r\<lparr>r_peers := update_peers (\<lambda>id other. other\<lparr>linked := linked other - {s}\<rparr>)
                 (filter (\<lambda>e. fst e \<noteq> s) (r_peers r)),
               r_macs := (\<lambda>mac. if mac \<in> pe_macs pe \<and> r_macs r mac = Some s then None else r_macs r mac)\<rparr>))"

definition register :: "'n net_ops \<Rightarrow> 'n router \<Rightarrow> session_id \<Rightarrow> string \<Rightarrow> 'n list \<Rightarrow> 'n router" where
  "register ops r0 s name ips =
     (let r = unregister ops r0 s;
          others = update_peers (\<lambda>id other.
            if links_linked (r_links r) name (pe_name other) then other\<lparr>linked := insert s (linked other)\<rparr> else other)
            (r_peers r);
          lk = set (map fst (filter (\<lambda>(id, other). links_linked (r_links r) name (pe_name other)) (r_peers r)))
      in rebuild_table ops
           (r\<lparr>r_peers := (s, \<lparr>pe_name = name, allowed_ips = ips, linked = lk, pe_macs = {}\<rparr>) # others\<rparr>))"

definition router_contains :: "'n router \<Rightarrow> session_id \<Rightarrow> bool" where
  "router_contains r s \<longleftrightarrow> map_of (r_peers r) s \<noteq> None"

definition router_name :: "'n router \<Rightarrow> session_id \<Rightarrow> string option" where
  "router_name r s = map_option pe_name (map_of (r_peers r) s)"

definition router_len :: "'n router \<Rightarrow> nat" where
  "router_len r = length (r_peers r)"

definition owner :: "'n net_ops \<Rightarrow> 'n router \<Rightarrow> ip_addr \<Rightarrow> session_id option" where
  "owner ops r address = map_option snd (List.find (\<lambda>(net, id). net_contains ops net address) (r_table r))"

definition route_ip :: "'n net_ops \<Rightarrow> 'n router \<Rightarrow> session_id \<Rightarrow> bytes \<Rightarrow> verdict" where
  "route_ip ops r from_id pkt =
     (case map_of (r_peers r) from_id of
        None \<Rightarrow> Drop UnknownSession
      | Some peer \<Rightarrow>
          (case (packet_source pkt, packet_destination pkt) of
             (Some src, Some dst) \<Rightarrow>
               if \<not> source_allowed ops peer src then Drop SourceNotAllowed
               else (case owner ops r dst of
                       None \<Rightarrow> Forward delivery_local
                     | Some target \<Rightarrow>
                         if target = from_id then Drop Hairpin
                         else if target \<in> linked peer then Forward (to_peer target)
                         else Drop NoLink)
           | _ \<Rightarrow> Drop Malformed))"

text \<open>The learning step of \<^verbatim>\<open>route_frame\<close>: the source MAC is claimed by the sender or refused.\<close>

definition learn_mac :: "'n router \<Rightarrow> session_id \<Rightarrow> 'n peer_entry \<Rightarrow> bytes \<Rightarrow> drop_reason + 'n router" where
  "learn_mac r from_id peer src_mac =
     (case r_macs r src_mac of
        Some o_id \<Rightarrow> if o_id \<noteq> from_id then Inl MacConflict else Inr r
      | None \<Rightarrow>
          if card (pe_macs peer) \<ge> MAX_MACS_PER_PEER then Inl TooManyMacs
          else Inr (r\<lparr>r_peers := update_peers (\<lambda>id pe.
                        if id = from_id then pe\<lparr>pe_macs := insert src_mac (pe_macs pe)\<rparr> else pe) (r_peers r),
                      r_macs := (r_macs r)(src_mac \<mapsto> from_id)\<rparr>))"

definition deliver_frame :: "'n router \<Rightarrow> session_id \<Rightarrow> session_id set \<Rightarrow> bytes \<Rightarrow> verdict" where
  "deliver_frame r from_id lk dst_mac =
     (if is_broadcast_or_multicast_mac dst_mac then
        Forward \<lparr>del_local = True, del_peers = filter (\<lambda>id. id \<noteq> from_id \<and> id \<in> lk) (map fst (r_peers r))\<rparr>
      else
        (case r_macs r dst_mac of
           Some target \<Rightarrow>
             if target = from_id then Drop Hairpin
             else if target \<in> lk then Forward (to_peer target)
             else Drop NoLink
         | None \<Rightarrow> Forward delivery_local))"

definition route_frame :: "'n net_ops \<Rightarrow> 'n router \<Rightarrow> session_id \<Rightarrow> bytes \<Rightarrow> verdict \<times> 'n router" where
  "route_frame ops r from_id frame =
     (case map_of (r_peers r) from_id of
        None \<Rightarrow> (Drop UnknownSession, r)
      | Some peer \<Rightarrow>
          (case (ethernet_dst_mac frame, ethernet_src_mac frame, ethertype frame) of
             (Some dst_mac, Some src_mac, Some ty) \<Rightarrow>
               if is_broadcast_or_multicast_mac src_mac then (Drop InvalidSourceMac, r)
               else if ty \<notin> {ETHERTYPE_IPV4, ETHERTYPE_IPV6, ETHERTYPE_ARP} then (Drop UnsupportedEthertype, r)
               else (case ethernet_payload_ip frame False of
                       None \<Rightarrow> (Drop Malformed, r)
                     | Some source_ip \<Rightarrow>
                         if \<not> source_allowed ops peer source_ip then (Drop SourceNotAllowed, r)
                         else (case learn_mac r from_id peer src_mac of
                                 Inl reason \<Rightarrow> (Drop reason, r)
                               | Inr r' \<Rightarrow> (deliver_frame r' from_id (linked peer) dst_mac, r')))
           | _ \<Rightarrow> (Drop Malformed, r)))"

definition route_from_local_ip :: "'n net_ops \<Rightarrow> 'n router \<Rightarrow> bytes \<Rightarrow> session_id option" where
  "route_from_local_ip ops r pkt =
     (case packet_destination pkt of None \<Rightarrow> None | Some dst \<Rightarrow> owner ops r dst)"

definition route_from_local_frame :: "'n net_ops \<Rightarrow> 'n router \<Rightarrow> bytes \<Rightarrow> session_id list" where
  "route_from_local_frame ops r frame =
     (case ethernet_dst_mac frame of
        None \<Rightarrow> []
      | Some dst_mac \<Rightarrow>
          if is_broadcast_or_multicast_mac dst_mac then map fst (r_peers r)
          else (case r_macs r dst_mac of
                  Some target \<Rightarrow> [target]
                | None \<Rightarrow>
                    (case (case ethernet_payload_ip frame True of None \<Rightarrow> None | Some ip \<Rightarrow> owner ops r ip) of
                       Some target \<Rightarrow> [target]
                     | None \<Rightarrow> map fst (r_peers r))))"

text \<open>IPv4 networks as address and prefix length, and a router with two linked peers, as a concrete instance.\<close>

definition ex_ops :: "(u32 \<times> nat) net_ops" where
  "ex_ops = \<lparr>net_contains = \<lambda>(net, len) a. case a of V4 w \<Rightarrow> drop_bit (32 - len) w = drop_bit (32 - len) net | V6 _ \<Rightarrow> False,
     net_prefix_len = \<lambda>(net, len). of_nat len\<rparr>"

definition ex_a :: session_id where "ex_a = SessionId (replicate 16 1)"
definition ex_b :: session_id where "ex_b = SessionId (replicate 16 2)"

definition ex_frame :: bytes where
  "ex_frame = [2, 0, 0, 0, 0, 9, 2, 0, 0, 0, 0, 1, 8, 0] @ ex_ipv4"

definition ex_router :: "links \<Rightarrow> (u32 \<times> nat) router" where
  "ex_router ls = register ex_ops (register ex_ops (router_new ls) ex_a ''a'' [(0x0A2A0002, 32)]) ex_b ''b'' [(0x0A2A0003, 32)]"

section \<open>Invariant\<close>

declare map_of_eq_Some_iff [simp del] Some_eq_map_of_iff [simp del]

text \<open>
  Sessions are distinct, the table is the sorted list of allowed networks, the MAC table and the
  peers' MAC sets agree (so a MAC has one owner), no peer owns more than 16 MACs or a group
  address, and links lead to other registered sessions.
\<close>

definition peer_ok :: "session_id set \<Rightarrow> session_id \<Rightarrow> 'n peer_entry \<Rightarrow> bool" where
  "peer_ok ids s pe \<longleftrightarrow>
     finite (pe_macs pe) \<and> card (pe_macs pe) \<le> MAX_MACS_PER_PEER \<and>
     (\<forall>mac\<in>pe_macs pe. \<not> is_broadcast_or_multicast_mac mac) \<and> linked pe \<subseteq> ids - {s}"

definition router_inv :: "'n net_ops \<Rightarrow> 'n router \<Rightarrow> bool" where
  "router_inv ops r \<longleftrightarrow>
     distinct (map fst (r_peers r)) \<and>
     r_table r = sort_key (table_key ops) (table_entries (r_peers r)) \<and>
     (\<forall>mac s. r_macs r mac = Some s \<longleftrightarrow> (\<exists>pe. map_of (r_peers r) s = Some pe \<and> mac \<in> pe_macs pe)) \<and>
     (\<forall>s pe. map_of (r_peers r) s = Some pe \<longrightarrow> peer_ok (dom (map_of (r_peers r))) s pe)"

inductive router_reach :: "'n net_ops \<Rightarrow> 'n router \<Rightarrow> bool" for ops where
  new: "router_reach ops (router_new ls)"
| replace: "router_reach ops r \<Longrightarrow> router_reach ops (replace_links r ls)"
| register: "router_reach ops r \<Longrightarrow> router_reach ops (register ops r s name ips)"
| unregister: "router_reach ops r \<Longrightarrow> router_reach ops (unregister ops r s)"
| frame: "router_reach ops r \<Longrightarrow> router_reach ops (snd (route_frame ops r s bs))"

lemma map_of_update_peers [simp]: "map_of (update_peers f ps) s = map_option (f s) (map_of ps s)"
  by (induction ps) (auto simp: update_peers_def)

lemma keys_update_peers [simp]: "map fst (update_peers f ps) = map fst ps"
  by (induction ps) (auto simp: update_peers_def)

lemma dom_update_peers [simp]: "dom (map_of (update_peers f ps)) = dom (map_of ps)"
  by (auto simp: dom_def)

lemma table_entries_update_peers [simp]:
  "(\<And>id pe. allowed_ips (f id pe) = allowed_ips pe) \<Longrightarrow> table_entries (update_peers f ps) = table_entries ps"
  by (induction ps) (auto simp: update_peers_def table_entries_def)

lemma rebuild_table_simps [simp]:
  "r_links (rebuild_table ops r) = r_links r" "r_peers (rebuild_table ops r) = r_peers r"
  "r_macs (rebuild_table ops r) = r_macs r"
  "r_table (rebuild_table ops r) = sort_key (table_key ops) (table_entries (r_peers r))"
  by (simp_all add: rebuild_table_def)

lemma router_inv_new: "router_inv ops (router_new ls)"
  by (simp add: router_inv_def router_new_def table_entries_def)

definition link_targets :: "links \<Rightarrow> (session_id \<times> 'n peer_entry) list \<Rightarrow> session_id \<Rightarrow> string \<Rightarrow> session_id set" where
  "link_targets ls peers s name =
     {id. id \<noteq> s \<and> (\<exists>pe. (id, pe) \<in> set peers \<and> links_linked ls name (pe_name pe))}"

lemma link_targets_filter:
  "set (map fst (filter (\<lambda>(other_id, name'). other_id \<noteq> s \<and> links_linked ls name name')
     (map (\<lambda>(id, pe). (id, pe_name pe)) peers))) = link_targets ls peers s name"
  by (induction peers) (auto simp: link_targets_def)

lemma link_targets_subset: "link_targets ls peers s name \<subseteq> dom (map_of peers) - {s}"
  by (force simp: link_targets_def dom_map_of_conv_image_fst)

lemma link_targetsD:
  "x \<in> link_targets ls peers s name \<Longrightarrow> x \<noteq> s \<and> (\<exists>pe. map_of peers x = Some pe)"
  using link_targets_subset by fastforce

lemma replace_links_peers [simp]:
  "map_of (r_peers (replace_links r ls)) s =
     map_option (\<lambda>pe. pe\<lparr>linked := link_targets ls (r_peers r) s (pe_name pe)\<rparr>) (map_of (r_peers r) s)"
  unfolding replace_links_def Let_def link_targets_filter by simp

lemma replace_links_simps [simp]:
  "map fst (r_peers (replace_links r ls)) = map fst (r_peers r)" "dom (map_of (r_peers (replace_links r ls))) = dom (map_of (r_peers r))"
  "r_table (replace_links r ls) = r_table r" "r_macs (replace_links r ls) = r_macs r" "r_links (replace_links r ls) = ls"
  "table_entries (r_peers (replace_links r ls)) = table_entries (r_peers r)"
  by (simp_all add: replace_links_def Let_def)

lemma router_inv_replace_links: "router_inv ops r \<Longrightarrow> router_inv ops (replace_links r ls)"
  by (auto simp: router_inv_def peer_ok_def dest: link_targetsD)

lemma router_invD:
  assumes "router_inv ops r"
  shows "distinct (map fst (r_peers r))"
    "r_table r = sort_key (table_key ops) (table_entries (r_peers r))"
    "\<And>mac s pe. map_of (r_peers r) s = Some pe \<Longrightarrow> mac \<in> pe_macs pe \<Longrightarrow> r_macs r mac = Some s"
    "\<And>mac s. r_macs r mac = Some s \<Longrightarrow> \<exists>pe. map_of (r_peers r) s = Some pe \<and> mac \<in> pe_macs pe"
    "\<And>s pe. map_of (r_peers r) s = Some pe \<Longrightarrow> peer_ok (dom (map_of (r_peers r))) s pe"
  using assms by (auto simp: router_inv_def)

lemma unregister_absent [simp]: "map_of (r_peers r) s = None \<Longrightarrow> unregister ops r s = r"
  by (simp add: unregister_def)

lemma unregister_simps:
  assumes "map_of (r_peers r) s = Some pe"
  shows "map_of (r_peers (unregister ops r s)) k =
      (if k = s then None else map_option (\<lambda>other. other\<lparr>linked := linked other - {s}\<rparr>) (map_of (r_peers r) k))"
    "r_macs (unregister ops r s) mac = (if mac \<in> pe_macs pe \<and> r_macs r mac = Some s then None else r_macs r mac)"
    "r_links (unregister ops r s) = r_links r"
    "map fst (r_peers (unregister ops r s)) = filter (\<lambda>i. i \<noteq> s) (map fst (r_peers r))"
    "r_table (unregister ops r s) = sort_key (table_key ops) (table_entries (r_peers (unregister ops r s)))"
  using assms by (simp_all add: unregister_def map_of_filter_fst filter_map o_def)

lemma unregister_links [simp]: "r_links (unregister ops r s) = r_links r"
  by (cases "map_of (r_peers r) s") (simp_all add: unregister_simps)

lemma router_inv_unregister:
  assumes "router_inv ops r"
  shows "router_inv ops (unregister ops r s)" and "map_of (r_peers (unregister ops r s)) s = None"
    and "\<And>mac. r_macs (unregister ops r s) mac \<noteq> Some s"
proof -
  have "router_inv ops (unregister ops r s) \<and> map_of (r_peers (unregister ops r s)) s = None \<and>
      (\<forall>mac. r_macs (unregister ops r s) mac \<noteq> Some s)"
  proof (cases "map_of (r_peers r) s")
    case None
    with assms show ?thesis by (auto simp: router_inv_def)
  next
    case (Some pe)
    note U = unregister_simps [OF Some, of ops]
    have d: "distinct (map fst (r_peers (unregister ops r s)))"
      using assms by (simp add: U(4) router_inv_def)
    have m: "r_macs (unregister ops r s) mac = Some s' \<longleftrightarrow>
        (\<exists>pe'. map_of (r_peers (unregister ops r s)) s' = Some pe' \<and> mac \<in> pe_macs pe')" for mac s'
    proof (cases "s' = s")
      case True
      have "mac \<in> pe_macs pe" if "r_macs r mac = Some s"
        using router_invD(4) [OF assms that] Some by simp
      then show ?thesis using True by (auto simp: U(1,2))
    next
      case False
      have "r_macs r mac = Some s' \<longleftrightarrow> (\<exists>q. map_of (r_peers r) s' = Some q \<and> mac \<in> pe_macs q)"
        using assms by (simp add: router_inv_def)
      with False show ?thesis by (auto simp: U(1,2))
    qed
    have p: "peer_ok (dom (map_of (r_peers (unregister ops r s)))) s' pe'"
      if "map_of (r_peers (unregister ops r s)) s' = Some pe'" for s' pe'
    proof -
      from that obtain q where q: "map_of (r_peers r) s' = Some q" "pe' = q\<lparr>linked := linked q - {s}\<rparr>"
        by (auto simp: U(1) split: if_splits)
      have "dom (map_of (r_peers (unregister ops r s))) = dom (map_of (r_peers r)) - {s}"
        by (auto simp: dom_def U(1))
      moreover have "peer_ok (dom (map_of (r_peers r))) s' q" using assms q by (simp add: router_inv_def)
      ultimately show ?thesis using q(2) by (auto simp: peer_ok_def)
    qed
    show ?thesis using d m p U(1,5) by (simp add: router_inv_def)
  qed
  then show "router_inv ops (unregister ops r s)" "map_of (r_peers (unregister ops r s)) s = None"
    "\<And>mac. r_macs (unregister ops r s) mac \<noteq> Some s" by auto
qed

definition registered_entry :: "'n net_ops \<Rightarrow> 'n router \<Rightarrow> session_id \<Rightarrow> string \<Rightarrow> 'n list \<Rightarrow> 'n peer_entry" where
  "registered_entry ops r s name ips =
     \<lparr>pe_name = name, allowed_ips = ips, linked = link_targets (r_links r) (r_peers (unregister ops r s)) s name,
      pe_macs = {}\<rparr>"

lemma register_simps:
  assumes "map_of (r_peers (unregister ops r s)) s = None"
  shows "map_of (r_peers (register ops r s name ips)) k =
      (if k = s then Some (registered_entry ops r s name ips)
       else map_option (\<lambda>other. if links_linked (r_links r) name (pe_name other)
          then other\<lparr>linked := insert s (linked other)\<rparr> else other) (map_of (r_peers (unregister ops r s)) k))"
    "r_macs (register ops r s name ips) = r_macs (unregister ops r s)"
    "r_links (register ops r s name ips) = r_links r"
    "map fst (r_peers (register ops r s name ips)) = s # map fst (r_peers (unregister ops r s))"
    "r_table (register ops r s name ips) = sort_key (table_key ops) (table_entries (r_peers (register ops r s name ips)))"
proof -
  have "set (map fst (filter (\<lambda>(id, other). links_linked ls name (pe_name other)) ps)) = link_targets ls ps s name"
    if "s \<notin> fst ` set ps" for ls :: links and ps :: "(session_id \<times> 'a peer_entry) list"
    using that by (induction ps) (auto simp: link_targets_def)
  moreover have "s \<notin> fst ` set (r_peers (unregister ops r s))" using assms by (simp add: map_of_eq_None_iff)
  ultimately have lk: "set (map fst (filter (\<lambda>(id, other). links_linked (r_links r) name (pe_name other))
      (r_peers (unregister ops r s)))) = link_targets (r_links r) (r_peers (unregister ops r s)) s name" by blast
  show "map_of (r_peers (register ops r s name ips)) k =
      (if k = s then Some (registered_entry ops r s name ips)
       else map_option (\<lambda>other. if links_linked (r_links r) name (pe_name other)
          then other\<lparr>linked := insert s (linked other)\<rparr> else other) (map_of (r_peers (unregister ops r s)) k))"
    unfolding register_def Let_def unregister_links lk by (simp add: registered_entry_def)
qed (simp_all add: register_def Let_def)

lemma router_inv_register:
  assumes "router_inv ops r"
  shows "router_inv ops (register ops r s name ips)"
proof -
  let ?u = "unregister ops r s" and ?r = "register ops r s name ips"
  have u: "router_inv ops ?u" "map_of (r_peers ?u) s = None" "\<And>mac. r_macs ?u mac \<noteq> Some s"
    using router_inv_unregister [OF assms] by auto
  note R = register_simps [OF u(2), of name ips]
  have dom: "dom (map_of (r_peers ?r)) = insert s (dom (map_of (r_peers ?u)))"
    using R(4) by (simp add: dom_map_of_conv_image_fst) (metis image_set list.set_map list.simps(15))
  have "distinct (map fst (r_peers ?r))"
    using router_invD(1) [OF u(1)] u(2) by (simp add: R(4) map_of_eq_None_iff)
  moreover have "r_macs ?r mac = Some s' \<longleftrightarrow> (\<exists>pe. map_of (r_peers ?r) s' = Some pe \<and> mac \<in> pe_macs pe)" for mac s'
  proof (cases "s' = s")
    case True
    then show ?thesis using u(3) by (auto simp: R(1,2) registered_entry_def)
  next
    case False
    have "r_macs ?u mac = Some s' \<longleftrightarrow> (\<exists>pe. map_of (r_peers ?u) s' = Some pe \<and> mac \<in> pe_macs pe)"
      using u(1) by (simp add: router_inv_def)
    with False show ?thesis by (cases "map_of (r_peers ?u) s'") (auto simp: R(1,2))
  qed
  moreover have "peer_ok (dom (map_of (r_peers ?r))) s' pe" if "map_of (r_peers ?r) s' = Some pe" for s' pe
  proof (cases "s' = s")
    case True
    with that show ?thesis unfolding dom
      using link_targets_subset [of "r_links r" "r_peers ?u" s name]
      by (auto simp: R(1) registered_entry_def peer_ok_def)
  next
    case False
    with that obtain q where q: "map_of (r_peers ?u) s' = Some q"
      "pe = (if links_linked (r_links r) name (pe_name q) then q\<lparr>linked := insert s (linked q)\<rparr> else q)"
      by (auto simp: R(1))
    from router_invD(5) [OF u(1) q(1)] q(2) False show ?thesis unfolding dom by (auto simp: peer_ok_def)
  qed
  ultimately show ?thesis using R(5) by (simp add: router_inv_def)
qed

lemma learn_mac_simps:
  assumes "learn_mac r from_id peer src_mac = Inr r'" "map_of (r_peers r) from_id = Some peer"
  shows "map_of (r_peers r') k =
      (if k = from_id then Some (if r_macs r src_mac = None then peer\<lparr>pe_macs := insert src_mac (pe_macs peer)\<rparr> else peer)
       else map_of (r_peers r) k)"
    "r_macs r' = (r_macs r)(src_mac \<mapsto> from_id)"
    "map fst (r_peers r') = map fst (r_peers r)" "r_table r' = r_table r" "r_links r' = r_links r"
    "table_entries (r_peers r') = table_entries (r_peers r)"
    "r_macs r src_mac = None \<or> r_macs r src_mac = Some from_id"
    "r_macs r src_mac = None \<Longrightarrow> card (pe_macs peer) < 16"
  using assms
  by (auto simp: learn_mac_def MAX_MACS_PER_PEER_def fun_upd_idem_iff option.map_ident_strong
      split: option.splits if_splits)

lemma router_inv_learn_mac:
  assumes "router_inv ops r" "learn_mac r from_id peer src_mac = Inr r'" "map_of (r_peers r) from_id = Some peer"
    "\<not> is_broadcast_or_multicast_mac src_mac"
  shows "router_inv ops r'"
proof -
  note L = learn_mac_simps [OF assms(2,3)] and I = router_invD [OF assms(1)]
  have dom: "dom (map_of (r_peers r')) = dom (map_of (r_peers r))" using assms(3) by (auto simp: dom_def L(1))
  have "r_macs r' mac = Some s' \<longleftrightarrow> (\<exists>pe. map_of (r_peers r') s' = Some pe \<and> mac \<in> pe_macs pe)" for mac s'
  proof (cases "r_macs r src_mac")
    case None
    then have "\<And>s pe. map_of (r_peers r) s = Some pe \<Longrightarrow> src_mac \<notin> pe_macs pe" using I(3) by fastforce
    with None I(3,4) assms(3) show ?thesis by (auto simp: L(1,2) split: if_splits) fastforce+
  next
    case (Some x)
    then have "x = from_id" using L(7) by auto
    then have "r_macs r' = r_macs r" "map_of (r_peers r') = map_of (r_peers r)"
      using Some assms(3) by (auto simp: L(1,2) fun_eq_iff)
    with assms(1) show ?thesis by (simp add: router_inv_def)
  qed
  moreover have "peer_ok (dom (map_of (r_peers r'))) s' pe" if "map_of (r_peers r') s' = Some pe" for s' pe
    using that I(5) [OF assms(3)] I(5) [of s' pe] L(8) assms(4) unfolding dom
    by (auto simp: L(1) peer_ok_def MAX_MACS_PER_PEER_def card_insert_if split: if_splits)
  ultimately show ?thesis using I(1,2) L(3,4,6) by (simp add: router_inv_def)
qed

lemma route_frame_cases:
  assumes "route_frame ops r from_id frame = (v, r')"
  obtains (dropped) reason where "v = Drop reason" "r' = r"
  | (learned) peer dst_mac src_mac src where
      "map_of (r_peers r) from_id = Some peer" "ethernet_dst_mac frame = Some dst_mac"
      "ethernet_src_mac frame = Some src_mac" "\<not> is_broadcast_or_multicast_mac src_mac"
      "ethernet_payload_ip frame False = Some src" "source_allowed ops peer src"
      "learn_mac r from_id peer src_mac = Inr r'" "v = deliver_frame r' from_id (linked peer) dst_mac"
  using assms
  by (auto simp: route_frame_def split: option.splits if_splits sum.splits)

lemma router_inv_route_frame:
  assumes "router_inv ops r"
  shows "router_inv ops (snd (route_frame ops r s bs))"
proof (cases "route_frame ops r s bs")
  case (Pair v r')
  then show ?thesis
    by (rule route_frame_cases) (use assms Pair in \<open>auto intro: router_inv_learn_mac\<close>)
qed

lemma router_reach_inv: "router_reach ops r \<Longrightarrow> router_inv ops r"
  by (induction rule: router_reach.induct)
    (auto intro: router_inv_new router_inv_replace_links router_inv_register router_inv_unregister router_inv_route_frame)

section \<open>Longest prefix\<close>

lemma table_entries_iff:
  "distinct (map fst peers) \<Longrightarrow>
     (net, s) \<in> set (table_entries peers) \<longleftrightarrow> (\<exists>pe. map_of peers s = Some pe \<and> net \<in> set (allowed_ips pe))"
  by (auto simp: table_entries_def map_of_eq_Some_iff)

lemma owner_Some:
  assumes "router_inv ops r" "owner ops r a = Some s"
  obtains net pe where "map_of (r_peers r) s = Some pe" "net \<in> set (allowed_ips pe)" "net_contains ops net a"
    "\<And>s' pe' net'. map_of (r_peers r) s' = Some pe' \<Longrightarrow> net' \<in> set (allowed_ips pe') \<Longrightarrow> net_contains ops net' a \<Longrightarrow>
       net_prefix_len ops net' < net_prefix_len ops net \<or> net_prefix_len ops net' = net_prefix_len ops net \<and> s \<le> s'"
proof -
  note I = router_invD [OF assms(1)]
  from assms(2) obtain net where f: "List.find (\<lambda>(net, id). net_contains ops net a) (r_table r) = Some (net, s)"
    by (auto simp: owner_def)
  have mem: "(n, i) \<in> set (r_table r) \<longleftrightarrow> (\<exists>pe. map_of (r_peers r) i = Some pe \<and> n \<in> set (allowed_ips pe))" for n i
    by (simp add: I(2) table_entries_iff [OF I(1)])
  have sorted: "sorted_wrt (\<lambda>x y. table_key ops x \<le> table_key ops y) (r_table r)"
    using sorted_sort_key [of "table_key ops" "table_entries (r_peers r)"] by (simp add: I(2) sorted_map)
  from find_SomeD [OF f] have fs: "(net, s) \<in> set (r_table r)" "net_contains ops net a" by auto
  then obtain pe where pe: "map_of (r_peers r) s = Some pe" "net \<in> set (allowed_ips pe)" using mem by blast
  show ?thesis
  proof (rule that [OF pe fs(2)])
    fix s' pe' net'
    assume "map_of (r_peers r) s' = Some pe'" "net' \<in> set (allowed_ips pe')" "net_contains ops net' a"
    then have "(net', s') = (net, s) \<or> table_key ops (net, s) \<le> table_key ops (net', s')"
      using find_sorted_least [OF sorted f, of "(net', s')"] mem by auto
    then have "table_key ops (net, s) \<le> table_key ops (net', s')" by auto
    moreover have "unat (net_prefix_len ops n) \<le> 255" for n using unat_less_2p [of "net_prefix_len ops n"] by simp
    ultimately show "net_prefix_len ops net' < net_prefix_len ops net \<or>
        net_prefix_len ops net' = net_prefix_len ops net \<and> s \<le> s'"
      by (auto simp: table_key_def less_eq_prod_def word_less_nat_alt word_unat_eq_iff)
        (metis diff_le_mono2 diff_diff_cancel le_neq_implies_less nat_le_linear)+
  qed
qed

lemma owner_None:
  assumes "router_inv ops r"
  shows "owner ops r a = None \<longleftrightarrow>
    (\<forall>s pe net. map_of (r_peers r) s = Some pe \<longrightarrow> net \<in> set (allowed_ips pe) \<longrightarrow> \<not> net_contains ops net a)"
proof -
  note I = router_invD [OF assms]
  have "owner ops r a = None \<longleftrightarrow> (\<forall>e\<in>set (r_table r). \<not> net_contains ops (fst e) a)"
    by (auto simp: owner_def find_None_iff_all case_prod_beta)
  also have "\<dots> \<longleftrightarrow> (\<forall>net s. (net, s) \<in> set (table_entries (r_peers r)) \<longrightarrow> \<not> net_contains ops net a)"
    by (auto simp: I(2))
  finally show ?thesis by (auto simp: table_entries_iff [OF I(1)])
qed

section \<open>Links\<close>

lemma group_edges_fold:
  "(x, y) \<in> fold (\<lambda>b edges. if a \<noteq> b then insert (b, a) (insert (a, b) edges) else edges) bs E \<longleftrightarrow>
     (x, y) \<in> E \<or> x \<noteq> y \<and> (x = a \<and> y \<in> set bs \<or> y = a \<and> x \<in> set bs)"
  by (induction bs arbitrary: E) auto

lemma group_edges_iff: "(x, y) \<in> group_edges g \<longleftrightarrow> x \<noteq> y \<and> x \<in> set g \<and> y \<in> set g"
  by (induction g) (auto simp: group_edges_fold)

definition links_exact :: "'n router \<Rightarrow> bool" where
  "links_exact r \<longleftrightarrow>
     (\<forall>s pe. map_of (r_peers r) s = Some pe \<longrightarrow> linked pe = link_targets (r_links r) (r_peers r) s (pe_name pe))"

lemma link_targets_iff:
  "distinct (map fst ps) \<Longrightarrow>
     x \<in> link_targets ls ps s name \<longleftrightarrow> x \<noteq> s \<and> (\<exists>pe. map_of ps x = Some pe \<and> links_linked ls name (pe_name pe))"
  by (auto simp: link_targets_def map_of_eq_Some_iff)

lemma links_exact_unregister:
  assumes "router_inv ops r" "links_exact r"
  shows "links_exact (unregister ops r s)"
proof (cases "map_of (r_peers r) s")
  case None
  with assms show ?thesis by simp
next
  case (Some pe0)
  note U = unregister_simps [OF Some, of ops]
  have d: "distinct (map fst (r_peers r))" "distinct (map fst (r_peers (unregister ops r s)))"
    using router_invD(1) assms(1) router_inv_unregister by blast+
  show ?thesis unfolding links_exact_def
  proof (intro allI impI set_eqI)
    fix k pe x assume k: "map_of (r_peers (unregister ops r s)) k = Some pe"
    then obtain q where q: "map_of (r_peers r) k = Some q" "pe = q\<lparr>linked := linked q - {s}\<rparr>" "k \<noteq> s"
      by (auto simp: U(1) split: if_splits)
    with assms(2) have "linked q = link_targets (r_links r) (r_peers r) k (pe_name q)" by (simp add: links_exact_def)
    then show "x \<in> linked pe \<longleftrightarrow> x \<in> link_targets (r_links (unregister ops r s)) (r_peers (unregister ops r s)) k (pe_name pe)"
      using q by (cases "map_of (r_peers r) x") (auto simp: link_targets_iff d U(1))
  qed
qed

lemma links_exact_register:
  assumes "router_inv ops r" "links_exact r" "sym (r_links r)"
  shows "links_exact (register ops r s name ips)"
proof -
  let ?u = "unregister ops r s"
  have u: "router_inv ops ?u" "map_of (r_peers ?u) s = None" using router_inv_unregister [OF assms(1)] by auto
  note R = register_simps [OF u(2), of name ips]
  have d: "distinct (map fst (r_peers ?u))" "distinct (map fst (r_peers (register ops r s name ips)))"
    using router_invD(1) u(1) router_inv_register [OF assms(1)] by blast+
  have ex: "links_exact ?u" using links_exact_unregister [OF assms(1,2)] .
  have flip: "links_linked (r_links r) a b \<longleftrightarrow> links_linked (r_links r) b a" for a b
    using assms(3) by (auto simp: links_linked_def sym_def)
  show ?thesis unfolding links_exact_def
  proof (intro allI impI set_eqI)
    fix k pe x assume k: "map_of (r_peers (register ops r s name ips)) k = Some pe"
    show "x \<in> linked pe \<longleftrightarrow> x \<in> link_targets (r_links (register ops r s name ips)) (r_peers (register ops r s name ips)) k (pe_name pe)"
    proof (cases "k = s")
      case True
      with k show ?thesis
        by (cases "map_of (r_peers ?u) x") (auto simp: R(1,3) registered_entry_def link_targets_iff d u(2))
    next
      case False
      with k obtain q where q: "map_of (r_peers ?u) k = Some q"
        "pe = (if links_linked (r_links r) name (pe_name q) then q\<lparr>linked := insert s (linked q)\<rparr> else q)"
        by (auto simp: R(1))
      with ex have "linked q = link_targets (r_links r) (r_peers ?u) k (pe_name q)" by (simp add: links_exact_def)
      with q False flip show ?thesis
        by (cases "map_of (r_peers ?u) x") (auto simp: R(1,3) registered_entry_def link_targets_iff d u(2))
    qed
  qed
qed

lemma links_exact_replace:
  assumes "router_inv ops r"
  shows "links_exact (replace_links r ls)"
proof -
  have d: "distinct (map fst (r_peers r))" "distinct (map fst (r_peers (replace_links r ls)))"
    using router_invD(1) assms router_inv_replace_links by blast+
  show ?thesis unfolding links_exact_def by (auto simp: link_targets_iff d(1) link_targets_iff [OF d(2)])
qed

section \<open>A concrete router\<close>

lemma ex_sessions: "ex_a \<le> ex_b" "\<not> ex_b \<le> ex_a" "ex_a \<noteq> ex_b" "ex_b \<noteq> ex_a"
  by (simp_all add: ex_a_def ex_b_def less_eq_session_id_def numeral_eq_Suc)

lemma ex_router_reach: "router_reach ex_ops (ex_router ls)"
  unfolding ex_router_def by (intro router_reach.intros)

lemma ex_router_peers:
  "r_peers (ex_router ls) =
     [(ex_b, \<lparr>pe_name = ''b'', allowed_ips = [(0x0A2A0003, 32)],
         linked = (if links_linked ls ''b'' ''a'' then {ex_a} else {}), pe_macs = {}\<rparr>),
      (ex_a, \<lparr>pe_name = ''a'', allowed_ips = [(0x0A2A0002, 32)],
         linked = (if links_linked ls ''b'' ''a'' then {ex_b} else {}), pe_macs = {}\<rparr>)]"
  using ex_sessions
  by (simp add: ex_router_def register_def router_new_def update_peers_def Let_def rebuild_table_def Collect_conv_if)

lemma ex_router_table: "r_table (ex_router ls) = [((0x0A2A0002, 32), ex_a), ((0x0A2A0003, 32), ex_b)]"
  using router_invD(2) [OF router_reach_inv [OF ex_router_reach [of ls]]] ex_sessions
  by (simp add: ex_router_peers table_entries_def table_key_def ex_ops_def)

lemma ex_router_route:
  "route_ip ex_ops (ex_router {(''a'', ''b''), (''b'', ''a'')}) ex_a ex_ipv4 = Forward (to_peer ex_b)"
proof -
  have "packet_destination ex_ipv4 = Some (V4 0x0A2A0003)"
    using ex_ipv4_source
    by (auto simp: packet_source_def packet_destination_def slice_def ex_ipv4_def from_be_def nibble_def split: if_splits)
  then show ?thesis
    using ex_sessions
    by (simp add: route_ip_def ex_router_peers ex_ipv4_source source_allowed_def owner_def ex_router_table
        links_linked_def ex_ops_def)
qed

lemma ex_router_frame: "fst (route_frame ex_ops (ex_router {}) ex_a ex_frame) = Forward delivery_local"
proof -
  have "ethernet_payload_ip ex_frame False = packet_source ex_ipv4" "ethertype ex_frame = Some ETHERTYPE_IPV4"
    by (simp_all add: ethernet_payload_ip_def ex_frame_def ethertype_def slice_def from_be_def ETHERTYPE_IPV4_def
        ex_ipv4_def nibble_def)
  moreover have "ethernet_src_mac ex_frame = Some [2, 0, 0, 0, 0, 1]" "ethernet_dst_mac ex_frame = Some [2, 0, 0, 0, 0, 9]"
    by (simp_all add: ethernet_src_mac_def ethernet_dst_mac_def ex_frame_def slice_def)
  moreover have "r_macs (ex_router {}) = Map.empty"
    using ex_sessions by (simp add: ex_router_def register_def router_new_def Let_def rebuild_table_def)
  ultimately show ?thesis
    using ex_sessions
    by (simp add: route_frame_def ex_router_peers ex_ipv4_source source_allowed_def ex_ops_def learn_mac_def
        deliver_frame_def is_broadcast_or_multicast_mac_def MAX_MACS_PER_PEER_def)
qed

section \<open>Properties\<close>

text \<open>
  Every router a server can build by registering, unregistering, replacing the link policy and
  routing frames satisfies the invariant: one owner per MAC address, at most 16 addresses per
  peer, links only between registered sessions, and a table sorted by prefix length.
\<close>

theorem router_invariant:
  assumes "router_reach ops r"
  shows "router_inv ops r"
  using assms by (rule router_reach_inv)

theorem router_invariant_witness:
  "router_inv \<lparr>net_contains = \<lambda>n a. True, net_prefix_len = \<lambda>n. 8\<rparr>
     (register \<lparr>net_contains = \<lambda>n a. True, net_prefix_len = \<lambda>n. 8\<rparr> (router_new {}) ZERO ''a'' [()])"
  by (intro router_invariant router_reach.register router_reach.new)

text \<open>
  C14. A packet from a peer is forwarded only if its source address lies in that peer's allowed
  networks; it goes to another peer only over a link from the sender, and only to the peer that
  owns the longest allowed prefix containing the destination (the smaller session identifier on
  a tie); it goes to the local interface only when no peer's network contains the destination.
\<close>

theorem route_ip_isolation:
  assumes "router_reach ops r" "route_ip ops r from_id pkt = Forward d"
  shows "\<exists>peer src dst. map_of (r_peers r) from_id = Some peer \<and> packet_source pkt = Some src \<and>
     packet_destination pkt = Some dst \<and> source_allowed ops peer src \<and>
     (d = delivery_local \<and>
        (\<forall>s pe net. map_of (r_peers r) s = Some pe \<longrightarrow> net \<in> set (allowed_ips pe) \<longrightarrow> \<not> net_contains ops net dst) \<or>
      (\<exists>t pe net. d = to_peer t \<and> t \<noteq> from_id \<and> t \<in> linked peer \<and> map_of (r_peers r) t = Some pe \<and>
         net \<in> set (allowed_ips pe) \<and> net_contains ops net dst \<and>
         (\<forall>s' pe' net'. map_of (r_peers r) s' = Some pe' \<longrightarrow> net' \<in> set (allowed_ips pe') \<longrightarrow>
            net_contains ops net' dst \<longrightarrow>
            net_prefix_len ops net' < net_prefix_len ops net \<or>
            net_prefix_len ops net' = net_prefix_len ops net \<and> t \<le> s')))"
proof -
  have inv: "router_inv ops r" using assms(1) by (rule router_reach_inv)
  from assms(2) obtain peer src dst where p: "map_of (r_peers r) from_id = Some peer"
    "packet_source pkt = Some src" "packet_destination pkt = Some dst" "source_allowed ops peer src"
    and v: "owner ops r dst = None \<and> d = delivery_local \<or>
      (\<exists>t. owner ops r dst = Some t \<and> t \<noteq> from_id \<and> t \<in> linked peer \<and> d = to_peer t)"
    by (auto simp: route_ip_def split: option.splits if_splits)
  from v show ?thesis
  proof (elim disjE exE conjE)
    assume "owner ops r dst = None" "d = delivery_local"
    with p owner_None [OF inv, of dst] show ?thesis by blast
  next
    fix t assume t: "owner ops r dst = Some t" "t \<noteq> from_id" "t \<in> linked peer" "d = to_peer t"
    from inv t(1) show ?thesis by (rule owner_Some) (use p t in blast)
  qed
qed

theorem route_ip_isolation_witness:
  "\<exists>peer. map_of (r_peers (ex_router {(''a'', ''b''), (''b'', ''a'')})) ex_a = Some peer \<and>
     source_allowed ex_ops peer (V4 0x0A2A0002) \<and> ex_b \<in> linked peer"
  using route_ip_isolation [OF ex_router_reach ex_router_route] ex_ipv4_source
  by (auto simp: to_peer_def delivery_local_def)

text \<open>
  C23. A frame from a peer is forwarded only if its source address is allowed and its source MAC
  belongs to that peer from then on; it reaches only other registered peers the sender has a
  link to; and no frame changes the owner of a MAC address that already has one.
\<close>

theorem route_frame_isolation:
  assumes "router_reach ops r" "route_frame ops r from_id frame = (v, r')"
  shows "(\<forall>mac s. r_macs r mac = Some s \<longrightarrow> r_macs r' mac = Some s) \<and>
    (\<forall>d. v = Forward d \<longrightarrow>
       (\<exists>peer src src_mac. map_of (r_peers r) from_id = Some peer \<and> ethernet_payload_ip frame False = Some src \<and>
          source_allowed ops peer src \<and> ethernet_src_mac frame = Some src_mac \<and> r_macs r' src_mac = Some from_id \<and>
          set (del_peers d) \<subseteq> (linked peer - {from_id}) \<inter> dom (map_of (r_peers r))))"
  using assms(2)
proof (rule route_frame_cases)
  fix reason assume "v = Drop reason" "r' = r"
  then show ?thesis by simp
next
  fix peer dst_mac src_mac src
  assume p: "map_of (r_peers r) from_id = Some peer" "ethernet_src_mac frame = Some src_mac"
    "ethernet_payload_ip frame False = Some src" "source_allowed ops peer src"
    "learn_mac r from_id peer src_mac = Inr r'" "v = deliver_frame r' from_id (linked peer) dst_mac"
  note L = learn_mac_simps [OF p(5,1)]
  have "peer_ok (dom (map_of (r_peers r))) from_id peer"
    using router_invD(5) [OF router_reach_inv [OF assms(1)] p(1)] .
  then have lk: "linked peer \<subseteq> dom (map_of (r_peers r)) - {from_id}" by (simp add: peer_ok_def)
  have "set (del_peers d) \<subseteq> linked peer - {from_id}" if "v = Forward d" for d
    using that unfolding p(6)
    by (auto simp: deliver_frame_def to_peer_def delivery_local_def split: if_splits option.splits)
  with lk L(2,7) p show ?thesis by auto
qed

theorem route_frame_isolation_witness:
  "r_macs (snd (route_frame ex_ops (ex_router {}) ex_a ex_frame)) [2, 0, 0, 0, 0, 1] = Some ex_a"
proof -
  have mac: "ethernet_src_mac ex_frame = Some [2, 0, 0, 0, 0, 1]"
    by (simp add: ethernet_src_mac_def ex_frame_def slice_def)
  from route_frame_isolation [OF ex_router_reach prod.collapse [symmetric], of "{}" ex_a ex_frame]
  show ?thesis using ex_router_frame mac by auto
qed

text \<open>
  Unregistering a session removes every trace of it: it is not registered, owns no MAC address
  and no IP address, and no other peer has a link to it.
\<close>

theorem unregister_removes_session:
  assumes "router_reach ops r"
  shows "\<not> router_contains (unregister ops r s) s \<and> r_macs (unregister ops r s) mac \<noteq> Some s \<and>
    owner ops (unregister ops r s) a \<noteq> Some s \<and>
    (\<forall>s' pe. map_of (r_peers (unregister ops r s)) s' = Some pe \<longrightarrow> s \<notin> linked pe)"
proof -
  note U = router_inv_unregister [OF router_reach_inv [OF assms], of s]
  have "owner ops (unregister ops r s) a \<noteq> Some s"
  proof
    assume "owner ops (unregister ops r s) a = Some s"
    with U(1) show False by (rule owner_Some) (use U(2) in simp)
  qed
  moreover have "s \<notin> linked pe" if "map_of (r_peers (unregister ops r s)) s' = Some pe" for s' pe
    using router_invD(5) [OF U(1) that] U(2) by (auto simp: peer_ok_def)
  ultimately show ?thesis using U(2,3) by (simp add: router_contains_def)
qed

theorem unregister_removes_session_witness:
  "\<not> router_contains (unregister ex_ops (ex_router {}) ex_a) ex_a"
  using unregister_removes_session [OF ex_router_reach] by blast

text \<open>
  After the link policy is replaced, each peer may send to exactly the other registered
  peers the policy links its name to; and registering a session keeps the links exact when the
  policy is symmetric.
\<close>

theorem links_follow_policy:
  assumes "router_reach ops r"
  shows "links_exact (replace_links r ls) \<and>
         (sym ls \<longrightarrow> links_exact (register ops (replace_links r ls) s name ips))"
proof -
  have inv: "router_inv ops (replace_links r ls)" using router_reach_inv [OF assms] by (rule router_inv_replace_links)
  have ex: "links_exact (replace_links r ls)" by (rule links_exact_replace [OF router_reach_inv [OF assms]])
  with links_exact_register [OF inv ex] show ?thesis by simp
qed

theorem links_follow_policy_witness:
  "links_exact (register ex_ops (replace_links (ex_router {}) {(''a'', ''b''), (''b'', ''a'')}) ZERO ''c'' [])"
  using links_follow_policy [OF ex_router_reach, of "{}" "{(''a'', ''b''), (''b'', ''a'')}"] by (simp add: sym_def)

text \<open>
  Registration does not follow a directed policy. When only \<open>a\<close> may send to \<open>b\<close>, then with \<open>a\<close>
  registered first the link is missing, and with \<open>b\<close> registered first it exists in both
  directions, so that \<open>b\<close> may send to \<open>a\<close>; replacing the policy by itself repairs both.
\<close>

theorem register_ignores_direction:
  "linked (the (map_of (r_peers (ex_router {(''a'', ''b'')})) ex_a)) = {} \<and>
   linked (the (map_of (r_peers (ex_router {(''b'', ''a'')})) ex_a)) = {ex_b} \<and>
   \<not> links_linked {(''b'', ''a'')} ''a'' ''b'' \<and>
   linked (the (map_of (r_peers (replace_links (ex_router {(''a'', ''b'')}) {(''a'', ''b'')})) ex_a)) = {ex_b} \<and>
   linked (the (map_of (r_peers (replace_links (ex_router {(''b'', ''a'')}) {(''b'', ''a'')})) ex_a)) = {}"
  using ex_sessions by (simp add: ex_router_peers links_linked_def flip: link_targets_filter)

text \<open>
  The links built from groups connect exactly the different names that share a group, in
  both directions.
\<close>

theorem links_from_groups_iff:
  "links_linked (links_from_groups groups) a b \<longleftrightarrow> a \<noteq> b \<and> (\<exists>g. g \<in> set groups \<and> a \<in> set g \<and> b \<in> set g)"
  by (auto simp: links_linked_def links_from_groups_def group_edges_iff)

end
