(* ===== verification/Transport_Base.thy ===== *)
theory Transport_Base
  imports Core_Types
begin

text \<open>
  The small parts of \<^verbatim>\<open>crates/rvpn-transport/src\<close>: errors, delivery options, configuration,
  traffic counters, the keepalive scheduler and the receive buffer pool. An I/O error is represented
  by its raw OS error number. Random draws are arguments, with None for a failed draw.
\<close>

section \<open>Errors, delivery options and configuration\<close>

type_synonym io_error = "int option"

datatype transport_error =
    Io io_error
  | DatagramTooLarge nat nat
  | InvalidDatagramSize nat nat
  | MissingRemoteAddress
  | UnsupportedDeliveryMode
  | InvalidEventCapacity
  | PathMtuExceededError nat nat
  | Backpressure

datatype reliability = Unreliable | Reliable
datatype ordering = Unordered | Ordered

record delivery_mode =
  reliability :: reliability
  ordering :: ordering

definition UNRELIABLE :: delivery_mode where "UNRELIABLE = \<lparr>reliability = Unreliable, ordering = Unordered\<rparr>"
definition RELIABLE :: delivery_mode where "RELIABLE = \<lparr>reliability = Reliable, ordering = Unordered\<rparr>"
definition ORDERED :: delivery_mode where "ORDERED = \<lparr>reliability = Unreliable, ordering = Ordered\<rparr>"

datatype priority = Low | Normal | High | Critical

record send_options =
  delivery :: delivery_mode
  priority :: priority
  timeout :: "duration option"
  max_retries :: "u8 option"

definition MAX_UDP_PAYLOAD_SIZE :: nat where "MAX_UDP_PAYLOAD_SIZE = 65507"

record transport_config =
  local_address :: socket_addr
  remote_address :: "socket_addr option"
  max_datagram_size :: nat

definition transport_config_new :: "socket_addr \<Rightarrow> transport_config" where
  "transport_config_new local_addr = \<lparr>local_address = local_addr, remote_address = None, max_datagram_size = 1200\<rparr>"

definition transport_config_validate :: "transport_config \<Rightarrow> transport_error + unit" where
  "transport_config_validate c =
     (if max_datagram_size c = 0 \<or> max_datagram_size c > MAX_UDP_PAYLOAD_SIZE
      then Inl (InvalidDatagramSize (max_datagram_size c) MAX_UDP_PAYLOAD_SIZE) else Inr ())"

section \<open>Counters\<close>

record transport_metrics =
  bytes_sent :: u64
  bytes_received :: u64
  packets_sent :: u64
  packets_received :: u64
  packets_dropped_oversized :: u64
  packets_dropped_backpressure :: u64
  send_errors :: u64
  congestion_events :: u64
  keepalives_sent :: u64
  keepalives_skipped :: u64
  mtu_changes :: u64

definition metrics_new :: transport_metrics where
  "metrics_new = \<lparr>bytes_sent = 0, bytes_received = 0, packets_sent = 0, packets_received = 0,
     packets_dropped_oversized = 0, packets_dropped_backpressure = 0, send_errors = 0, congestion_events = 0,
     keepalives_sent = 0, keepalives_skipped = 0, mtu_changes = 0\<rparr>"

definition record_sent :: "nat \<Rightarrow> transport_metrics \<Rightarrow> transport_metrics" where
  "record_sent n m = m\<lparr>bytes_sent := bytes_sent m + of_nat n, packets_sent := packets_sent m + 1\<rparr>"

definition record_received :: "nat \<Rightarrow> transport_metrics \<Rightarrow> transport_metrics" where
  "record_received n m = m\<lparr>bytes_received := bytes_received m + of_nat n, packets_received := packets_received m + 1\<rparr>"

definition record_dropped_oversized :: "transport_metrics \<Rightarrow> transport_metrics" where
  "record_dropped_oversized m = m\<lparr>packets_dropped_oversized := packets_dropped_oversized m + 1\<rparr>"

definition record_dropped_backpressure :: "transport_metrics \<Rightarrow> transport_metrics" where
  "record_dropped_backpressure m = m\<lparr>packets_dropped_backpressure := packets_dropped_backpressure m + 1\<rparr>"

definition record_send_error :: "transport_metrics \<Rightarrow> transport_metrics" where
  "record_send_error m = m\<lparr>send_errors := send_errors m + 1\<rparr>"

definition record_congestion_event :: "transport_metrics \<Rightarrow> transport_metrics" where
  "record_congestion_event m = m\<lparr>congestion_events := congestion_events m + 1\<rparr>"

definition record_keepalive_sent :: "transport_metrics \<Rightarrow> transport_metrics" where
  "record_keepalive_sent m = m\<lparr>keepalives_sent := keepalives_sent m + 1\<rparr>"

definition record_keepalive_skipped :: "transport_metrics \<Rightarrow> transport_metrics" where
  "record_keepalive_skipped m = m\<lparr>keepalives_skipped := keepalives_skipped m + 1\<rparr>"

definition record_mtu_change :: "transport_metrics \<Rightarrow> transport_metrics" where
  "record_mtu_change m = m\<lparr>mtu_changes := mtu_changes m + 1\<rparr>"

lemmas metrics_defs = record_sent_def record_received_def record_dropped_oversized_def
  record_dropped_backpressure_def record_send_error_def record_mtu_change_def

section \<open>Keepalive\<close>

definition as_millis :: "duration \<Rightarrow> int" where "as_millis d = int (d div 1000000)"

definition random_keepalive_len :: "u8 option \<Rightarrow> nat" where
  "random_keepalive_len draw = (case draw of Some b \<Rightarrow> unat (b mod 49) | None \<Rightarrow> 0)"

definition random_keepalive_payload :: "u8 option \<Rightarrow> bytes" where
  "random_keepalive_payload draw = replicate (random_keepalive_len draw) 0"

text \<open>Milliseconds are mathematical integers: the intervals the program configures stay far below
  the range of i64.\<close>

definition jitter_interval :: "duration \<Rightarrow> u8 \<Rightarrow> u64 option \<Rightarrow> duration" where
  "jitter_interval interval jitter_pct draw =
     (if jitter_pct = 0 then interval
      else
        let interval_ms = as_millis interval;
            max_delta = interval_ms * uint jitter_pct div 100
        in if max_delta = 0 then interval
           else case draw of
             None \<Rightarrow> interval
           | Some rand_val \<Rightarrow>
               (let span = max_delta * 2 + 1;
                    delta = uint rand_val mod span - max_delta
                in millis (nat (max (interval_ms + delta) 1))))"

record keepalive_scheduler =
  ka_interval :: duration
  ka_jitter_pct :: u8
  ka_epoch :: instant
  next_due_ms :: int

definition keepalive_with_jitter :: "duration \<Rightarrow> u8 \<Rightarrow> instant \<Rightarrow> u64 option \<Rightarrow> keepalive_scheduler" where
  "keepalive_with_jitter interval pct now draw =
     \<lparr>ka_interval = interval, ka_jitter_pct = pct, ka_epoch = now,
      next_due_ms = min (as_millis (jitter_interval interval pct draw)) (2 ^ 63 - 1)\<rparr>"

definition keepalive_new :: "duration \<Rightarrow> instant \<Rightarrow> keepalive_scheduler" where
  "keepalive_new interval now = keepalive_with_jitter interval 0 now None"

definition record_activity :: "keepalive_scheduler \<Rightarrow> instant \<Rightarrow> u64 option \<Rightarrow> keepalive_scheduler" where
  "record_activity k now draw =
     k\<lparr>next_due_ms := as_millis (now - ka_epoch k) + as_millis (jitter_interval (ka_interval k) (ka_jitter_pct k) draw)\<rparr>"

definition next_due_delay :: "keepalive_scheduler \<Rightarrow> instant \<Rightarrow> duration" where
  "next_due_delay k now = millis (nat (max (next_due_ms k - as_millis (now - ka_epoch k)) 0))"

text \<open>One turn of the loop of \<^verbatim>\<open>wait_for_due\<close>: the deadline it sleeps until, and whether it
  returns when it wakes at \<^verbatim>\<open>now\<close>.\<close>

definition wait_deadline :: "keepalive_scheduler \<Rightarrow> instant" where
  "wait_deadline k = ka_epoch k + millis (nat (max (next_due_ms k) 0))"

definition wait_returns :: "keepalive_scheduler \<Rightarrow> instant \<Rightarrow> bool" where
  "wait_returns k now \<longleftrightarrow> as_millis (now - ka_epoch k) \<ge> next_due_ms k"

lemma random_keepalive_len_bound: "random_keepalive_len draw \<le> 48"
proof (cases draw)
  case (Some b)
  have "unat (b mod 49) = unat b mod 49" by (simp add: unat_mod)
  then show ?thesis using Some by (simp add: random_keepalive_len_def)
qed (simp add: random_keepalive_len_def)

lemma as_millis_millis [simp]: "as_millis (millis n) = int n"
  by (simp add: as_millis_def)

lemma jitter_interval_bounds:
  assumes "unat jitter_pct \<le> 100"
  shows "(100 - uint jitter_pct) * as_millis interval \<le> 100 * as_millis (jitter_interval interval jitter_pct draw) \<and>
    100 * as_millis (jitter_interval interval jitter_pct draw) \<le> (100 + uint jitter_pct) * as_millis interval"
proof -
  define i p d where "i = as_millis interval" and "p = uint jitter_pct" and "d = i * p div 100"
  have "p = int (unat jitter_pct)" by (simp add: p_def)
  then have ip: "0 \<le> p" "p \<le> 100" using assms by linarith+
  have i: "0 \<le> i" by (simp add: i_def as_millis_def)
  have pi: "0 \<le> i * p" "i * p \<le> i * 100" using ip i by (simp_all add: mult_left_mono)
  have dist: "(100 - p) * i = 100 * i - i * p" "(100 + p) * i = 100 * i + i * p"
    by (simp_all add: algebra_simps)
  show ?thesis
  proof (cases "jitter_pct = 0 \<or> d = 0 \<or> draw = None")
    case True
    then have "jitter_interval interval jitter_pct draw = interval"
      by (auto simp: jitter_interval_def Let_def d_def i_def p_def)
    then show ?thesis using pi by (simp add: dist flip: i_def p_def)
  next
    case False
    then obtain v where v: "draw = Some v" and pct: "jitter_pct \<noteq> 0" "d \<noteq> 0" by auto
    have d: "0 < d" "100 * d \<le> i * p" using pct(2) pi by (auto simp: d_def)
    define r where "r = uint v mod (d * 2 + 1)"
    have r: "0 \<le> r" "r < d * 2 + 1" using d(1) unfolding r_def by (intro pos_mod_sign pos_mod_bound; linarith)+
    have "jitter_interval interval jitter_pct draw = millis (nat (max (i + (r - d)) 1))"
      using pct by (simp add: jitter_interval_def Let_def v d_def i_def p_def r_def)
    then have "as_millis (jitter_interval interval jitter_pct draw) = max (i + (r - d)) 1"
      by (simp add: max_def)
    moreover have "100 * i - i * p \<le> 100 * max (i + (r - d)) 1" "100 * max (i + (r - d)) 1 \<le> 100 * i + i * p"
      using d r pi by (cases "i + (r - d) \<le> 1"; simp add: max_def)+
    ultimately show ?thesis by (simp add: dist flip: i_def p_def)
  qed
qed

lemma keepalive_sleep_suffices: "ka_epoch k \<le> now \<Longrightarrow> wait_deadline k \<le> now \<Longrightarrow> wait_returns k now"
proof -
  assume *: "ka_epoch k \<le> now" "wait_deadline k \<le> now"
  then have "nat (max (next_due_ms k) 0) * 1000000 \<le> now - ka_epoch k" by (simp add: wait_deadline_def)
  then have "nat (max (next_due_ms k) 0) \<le> (now - ka_epoch k) div 1000000"
    by (simp add: less_eq_div_iff_mult_less_eq)
  then show ?thesis by (simp add: wait_returns_def as_millis_def)
qed

section \<open>Buffer pool\<close>

text \<open>
  A \<^verbatim>\<open>BytesMut\<close> is its length and its capacity. \<^verbatim>\<open>reserve\<close> belongs to the \<^verbatim>\<open>bytes\<close> crate
  and is a parameter that maps length, capacity and the requested amount to the new capacity.
\<close>

record bytes_mut =
  buf_len :: nat
  buf_capacity :: nat

type_synonym reserve_fn = "nat \<Rightarrow> nat \<Rightarrow> nat \<Rightarrow> nat"

text \<open>The documented contract: afterwards at least the requested amount of bytes fits behind the
  current length, and the capacity never shrinks.\<close>

definition reserve_contract :: "reserve_fn \<Rightarrow> bool" where
  "reserve_contract rsv \<longleftrightarrow> (\<forall>len cap additional. len \<le> cap \<longrightarrow> len + additional \<le> rsv len cap additional \<and> cap \<le> rsv len cap additional)"

definition buf_reserve :: "reserve_fn \<Rightarrow> nat \<Rightarrow> bytes_mut \<Rightarrow> bytes_mut" where
  "buf_reserve rsv additional b = b\<lparr>buf_capacity := rsv (buf_len b) (buf_capacity b) additional\<rparr>"

record buffer_pool =
  pool_capacity :: nat
  max_pooled :: nat
  idle :: "bytes_mut list"

definition pool_new :: "nat \<Rightarrow> nat \<Rightarrow> buffer_pool" where
  "pool_new cap maxp = \<lparr>pool_capacity = cap, max_pooled = maxp, idle = []\<rparr>"

definition acquire :: "reserve_fn \<Rightarrow> buffer_pool \<Rightarrow> bytes_mut \<times> buffer_pool" where
  "acquire rsv p =
     (if idle p = [] then (\<lparr>buf_len = 0, buf_capacity = pool_capacity p\<rparr>, p)
      else
        let buf = (last (idle p))\<lparr>buf_len := 0\<rparr>;
            buf = (if buf_capacity buf < pool_capacity p then buf_reserve rsv (pool_capacity p - buf_capacity buf) buf else buf)
        in (buf, p\<lparr>idle := butlast (idle p)\<rparr>))"

definition release :: "bytes_mut \<Rightarrow> buffer_pool \<Rightarrow> buffer_pool" where
  "release buf p =
     (if buf_capacity buf < pool_capacity p then p
      else if length (idle p) < max_pooled p then p\<lparr>idle := idle p @ [buf\<lparr>buf_len := 0\<rparr>]\<rparr> else p)"

definition idle_len :: "buffer_pool \<Rightarrow> nat" where "idle_len p = length (idle p)"

definition pool_inv :: "buffer_pool \<Rightarrow> bool" where
  "pool_inv p \<longleftrightarrow> idle_len p \<le> max_pooled p \<and> (\<forall>b \<in> set (idle p). pool_capacity p \<le> buf_capacity b \<and> buf_len b = 0)"

lemma pool_inv_new: "pool_inv (pool_new cap maxp)"
  by (simp add: pool_inv_def pool_new_def idle_len_def)

lemma pool_inv_release: "pool_inv p \<Longrightarrow> pool_inv (release b p)"
  by (auto simp: pool_inv_def release_def idle_len_def)

lemma release_capacity [simp]: "pool_capacity (release b p) = pool_capacity p"
  by (simp add: release_def)

lemma acquire_spec:
  assumes "pool_inv p"
  shows "pool_inv (snd (acquire rsv p)) \<and> buf_len (fst (acquire rsv p)) = 0 \<and>
    pool_capacity p \<le> buf_capacity (fst (acquire rsv p)) \<and> pool_capacity (snd (acquire rsv p)) = pool_capacity p"
proof (cases "idle p = []")
  case False
  then have le: "pool_capacity p \<le> buf_capacity (last (idle p))"
    using assms by (simp add: pool_inv_def)
  then have "acquire rsv p = ((last (idle p))\<lparr>buf_len := 0\<rparr>, p\<lparr>idle := butlast (idle p)\<rparr>)"
    using False by (simp add: acquire_def Let_def)
  then show ?thesis
    using assms le by (auto simp: pool_inv_def idle_len_def dest: in_set_butlastD)
qed (use assms in \<open>simp add: acquire_def\<close>)

end
