(* ===== verification/Fair_Queue.thy ===== *)
theory Fair_Queue
  imports Token_Bucket Transport_Base "HOL-Library.AList"
begin

text \<open>
  The outbound fair queue of \<^verbatim>\<open>crates/rvpn-transport/src/congestion.rs\<close>: one FIFO per peer, served by
  deficit round robin under an optional rate bucket. The queue handle and its receiver share one
  state, so that both are the record \<^verbatim>\<open>outbound_queue\<close>. The hash map of peers is an association list
  with distinct keys. A receive call is a sequence of passes over the rotation; a pass reads the clock
  once and ends in a packet, in closing, or in one of the three ways of waiting.
\<close>

section \<open>State\<close>

definition DRR_QUANTUM :: nat where "DRR_QUANTUM = 1500"
definition MAX_PEER_QUEUE :: nat where "MAX_PEER_QUEUE = 256"
definition MAX_TRACKED_PEERS :: nat where "MAX_TRACKED_PEERS = 8192"

record queued_datagram =
  qd_peer :: socket_addr
  qd_payload :: bytes
  qd_peer_key :: "bytes option"
  qd_queue_delay :: duration
  qd_enqueued_at :: instant

datatype queue_key = Endpoint socket_addr | Stable bytes

record peer_queue =
  packets :: "queued_datagram list"
  deficit :: nat
  in_round :: bool
  rate_bucket :: "rate_bucket option"
  last_activity :: instant

record outbound_queue =
  q_capacity :: nat
  per_peer_capacity :: nat
  q_rate :: nat
  queued_mirror :: nat
  q_peers :: "(queue_key \<times> peer_queue) list"
  rotation :: "queue_key list"
  queued :: nat

section \<open>Operations of the sender\<close>

definition peer_queue_new :: "nat option \<Rightarrow> instant \<Rightarrow> peer_queue" where
  "peer_queue_new rate now =
     \<lparr>packets = [], deficit = 0, in_round = False, rate_bucket = map_option (\<lambda>r. bucket_new r now) rate, last_activity = now\<rparr>"

definition queue_new_with_rate :: "nat \<Rightarrow> nat \<Rightarrow> outbound_queue" where
  "queue_new_with_rate cap0 rate =
     (let cap = max cap0 1
      in \<lparr>q_capacity = cap, per_peer_capacity = min cap MAX_PEER_QUEUE, q_rate = rate, queued_mirror = 0,
          q_peers = [], rotation = [], queued = 0\<rparr>)"

definition reshape :: "nat \<Rightarrow> instant \<Rightarrow> peer_queue \<Rightarrow> peer_queue" where
  "reshape rate now pq =
     pq\<lparr>rate_bucket :=
       (if rate = 0 then None
        else case rate_bucket pq of Some b \<Rightarrow> Some (bucket_set_rate b rate now) | None \<Rightarrow> Some (bucket_new rate now))\<rparr>"

definition set_rate_bytes_per_sec :: "outbound_queue \<Rightarrow> nat \<Rightarrow> instant \<Rightarrow> outbound_queue" where
  "set_rate_bytes_per_sec q rate now = q\<lparr>q_rate := rate, q_peers := map (\<lambda>(k, pq). (k, reshape rate now pq)) (q_peers q)\<rparr>"

definition retain_active :: "instant \<Rightarrow> (queue_key \<times> peer_queue) list \<Rightarrow> (queue_key \<times> peer_queue) list" where
  "retain_active now = filter (\<lambda>(_, pq). packets pq \<noteq> [] \<or> now - last_activity pq < secs 1)"

definition queue_entry :: "queue_key \<Rightarrow> socket_addr \<Rightarrow> bytes \<Rightarrow> instant \<Rightarrow> queued_datagram" where
  "queue_entry key endpoint payload now =
     \<lparr>qd_peer = endpoint, qd_payload = payload,
      qd_peer_key = (case key of Stable k \<Rightarrow> Some k | Endpoint _ \<Rightarrow> None), qd_queue_delay = 0, qd_enqueued_at = now\<rparr>"

definition entry_or_new :: "outbound_queue \<Rightarrow> queue_key \<Rightarrow> instant \<Rightarrow> peer_queue" where
  "entry_or_new q key now =
     (case map_of (q_peers q) key of
        Some pq \<Rightarrow> pq
      | None \<Rightarrow> peer_queue_new (if q_rate q \<noteq> 0 then Some (q_rate q) else None) now)"

definition push_packet :: "outbound_queue \<Rightarrow> queue_key \<Rightarrow> peer_queue \<Rightarrow> queued_datagram \<Rightarrow> instant \<Rightarrow> outbound_queue" where
  "push_packet q key pq p now =
     q\<lparr>q_peers := AList.update key (pq\<lparr>packets := packets pq @ [p], last_activity := now\<rparr>) (q_peers q),
       rotation := (if packets pq = [] then rotation q @ [key] else rotation q),
       queued := queued q + 1, queued_mirror := queued_mirror q + 1\<rparr>"

definition try_enqueue_keyed ::
  "outbound_queue \<Rightarrow> queue_key \<Rightarrow> socket_addr \<Rightarrow> bytes \<Rightarrow> instant \<Rightarrow> (transport_error + unit) \<times> outbound_queue" where
  "try_enqueue_keyed q0 key endpoint payload now =
     (let q = q0\<lparr>q_peers := retain_active now (q_peers q0)\<rparr> in
      if queued q \<ge> q_capacity q then (Inl Backpressure, q)
      else if map_of (q_peers q) key = None \<and> length (q_peers q) \<ge> MAX_TRACKED_PEERS then (Inl Backpressure, q)
      else
        let pq = entry_or_new q key now;
            q = q\<lparr>q_peers := AList.update key pq (q_peers q)\<rparr>
        in if length (packets pq) \<ge> per_peer_capacity q then (Inl Backpressure, q)
           else (Inr (), push_packet q key pq (queue_entry key endpoint payload now) now))"

definition try_enqueue ::
  "outbound_queue \<Rightarrow> socket_addr \<Rightarrow> bytes \<Rightarrow> instant \<Rightarrow> (transport_error + unit) \<times> outbound_queue" where
  "try_enqueue q peer payload now = try_enqueue_keyed q (Endpoint peer) peer payload now"

definition try_enqueue_for_peer ::
  "outbound_queue \<Rightarrow> bytes \<Rightarrow> socket_addr \<Rightarrow> bytes \<Rightarrow> instant \<Rightarrow> (transport_error + unit) \<times> outbound_queue" where
  "try_enqueue_for_peer q peer_key endpoint payload now = try_enqueue_keyed q (Stable peer_key) endpoint payload now"

section \<open>Operations of the receiver\<close>

definition start_round :: "peer_queue \<Rightarrow> peer_queue" where
  "start_round pq =
     (if in_round pq then pq else pq\<lparr>deficit := sat_add (deficit pq) DRR_QUANTUM, in_round := True\<rparr>)"

definition front_size :: "peer_queue \<Rightarrow> nat" where
  "front_size pq = (case packets pq of [] \<Rightarrow> 0 | p # _ \<Rightarrow> length (qd_payload p))"

definition charge :: "peer_queue \<Rightarrow> nat \<Rightarrow> instant \<Rightarrow> (duration + unit) \<times> peer_queue" where
  "charge pq sz now =
     (case rate_bucket pq of
        None \<Rightarrow> (Inr (), pq)
      | Some b \<Rightarrow> (let (res, b') = consume_or_delay b sz now in (res, pq\<lparr>rate_bucket := Some b'\<rparr>)))"

definition put_back :: "queue_key \<Rightarrow> queue_key list \<Rightarrow> peer_queue \<Rightarrow> outbound_queue \<Rightarrow> outbound_queue" where
  "put_back key rest pq q =
     q\<lparr>q_peers := AList.update key (pq\<lparr>in_round := False\<rparr>) (q_peers q), rotation := rest @ [key]\<rparr>"

definition pop_packet :: "queue_key \<Rightarrow> queue_key list \<Rightarrow> peer_queue \<Rightarrow> instant \<Rightarrow> outbound_queue \<Rightarrow> queued_datagram option \<times> outbound_queue" where
  "pop_packet key rest pq0 now q =
     (let sz = front_size pq0;
          packet = (case packets pq0 of [] \<Rightarrow> None | p # _ \<Rightarrow> Some (p\<lparr>qd_queue_delay := now - qd_enqueued_at p\<rparr>));
          pq = pq0\<lparr>deficit := deficit pq0 - sz, packets := tl (packets pq0), last_activity := now\<rparr>;
          q1 = (if packets pq = [] then
                  let pq = pq\<lparr>in_round := False, deficit := 0\<rparr> in
                  q\<lparr>rotation := rest,
                    q_peers := (if rate_bucket pq = None then AList.delete key (q_peers q) else AList.update key pq (q_peers q))\<rparr>
                else if front_size pq \<le> deficit pq then
                  q\<lparr>rotation := key # rest, q_peers := AList.update key pq (q_peers q)\<rparr>
                else
                  q\<lparr>rotation := rest @ [key], q_peers := AList.update key (pq\<lparr>in_round := False\<rparr>) (q_peers q)\<rparr>)
      in (packet, if packet = None then q1 else q1\<lparr>queued := queued q1 - 1, queued_mirror := queued_mirror q1 - 1\<rparr>))"

fun recv_visit :: "nat \<Rightarrow> instant \<Rightarrow> duration option \<Rightarrow> bool \<Rightarrow> outbound_queue \<Rightarrow>
    (queued_datagram option \<times> duration option \<times> bool) \<times> outbound_queue" where
  "recv_visit 0 now wait_for yielded q = ((None, wait_for, yielded), q)"
| "recv_visit (Suc n) now wait_for yielded q =
     (case rotation q of
        [] \<Rightarrow> ((None, wait_for, yielded), q)
      | key # rest \<Rightarrow>
          (case map_of (q_peers q) key of
             None \<Rightarrow> recv_visit n now wait_for yielded (q\<lparr>rotation := rest\<rparr>)
           | Some pq0 \<Rightarrow>
               (let pq = start_round pq0; sz = front_size pq in
                if sz > deficit pq then recv_visit n now wait_for True (put_back key rest pq q)
                else
                  case charge pq sz now of
                    (Inl delay, pq1) \<Rightarrow>
                      recv_visit n now (Some (case wait_for of None \<Rightarrow> delay | Some old \<Rightarrow> min old delay)) yielded
                        (put_back key rest pq1 q)
                  | (Inr _, pq1) \<Rightarrow>
                      (case pop_packet key rest pq1 now q of
                         (Some p, q1) \<Rightarrow> ((Some p, wait_for, yielded), q1)
                       | (None, q1) \<Rightarrow> recv_visit n now wait_for yielded q1))))"

datatype recv_outcome = Packet queued_datagram | Closed | SleepUpTo duration | YieldNow | AwaitNotified

definition recv_pass :: "bool \<Rightarrow> instant \<Rightarrow> outbound_queue \<Rightarrow> recv_outcome \<times> outbound_queue" where
  "recv_pass sender_dropped now q0 =
     (case recv_visit (length (rotation q0)) now None False q0 of
        ((Some p, _), q) \<Rightarrow> (Packet p, q)
      | ((None, wait_for, yielded), q) \<Rightarrow>
          (if queued q = 0 \<and> sender_dropped then Closed
           else case wait_for of Some d \<Rightarrow> SleepUpTo d | None \<Rightarrow> if yielded then YieldNow else AwaitNotified, q))"

text \<open>The receive call waits between passes; the instants at which it wakes are its argument.\<close>

fun recv_loop :: "instant list \<Rightarrow> outbound_queue \<Rightarrow> queued_datagram option \<times> outbound_queue" where
  "recv_loop [] q = (None, q)"
| "recv_loop (now # nows) q =
     (case recv_pass False now q of
        (Packet p, q1) \<Rightarrow> (Some p, q1)
      | (_, q1) \<Rightarrow> recv_loop nows q1)"

section \<open>Contents and invariant\<close>

definition contents :: "(queue_key \<times> peer_queue) list \<Rightarrow> queue_key \<Rightarrow> queued_datagram list" where
  "contents al k = (case map_of al k of None \<Rightarrow> [] | Some pq \<Rightarrow> packets pq)"

definition backlog :: "(queue_key \<times> peer_queue) list \<Rightarrow> nat" where
  "backlog al = (\<Sum>(_, pq) \<leftarrow> al. length (packets pq))"

definition packet_key :: "queued_datagram \<Rightarrow> queue_key" where
  "packet_key p = (case qd_peer_key p of Some k \<Rightarrow> Stable k | None \<Rightarrow> Endpoint (qd_peer p))"

definition pq_ok :: "queue_key \<Rightarrow> peer_queue \<Rightarrow> bool" where
  "pq_ok k pq \<longleftrightarrow>
     (packets pq = [] \<longrightarrow> deficit pq = 0 \<and> \<not> in_round pq) \<and>
     (in_round pq \<longrightarrow> front_size pq \<le> deficit pq) \<and>
     (\<forall>p \<in> set (packets pq). packet_key p = k)"

definition fq_inv :: "outbound_queue \<Rightarrow> bool" where
  "fq_inv q \<longleftrightarrow>
     distinct (map fst (q_peers q)) \<and>
     distinct (rotation q) \<and> set (rotation q) = {k. contents (q_peers q) k \<noteq> []} \<and>
     queued q = backlog (q_peers q) \<and> queued_mirror q = queued q \<and> queued q \<le> q_capacity q \<and>
     per_peer_capacity q = min (q_capacity q) MAX_PEER_QUEUE \<and> 1 \<le> q_capacity q \<and>
     length (q_peers q) \<le> MAX_TRACKED_PEERS \<and>
     (\<forall>k. length (contents (q_peers q) k) \<le> per_peer_capacity q) \<and>
     (\<forall>k pq. map_of (q_peers q) k = Some pq \<longrightarrow> pq_ok k pq)"

lemma contents_update [simp]: "contents (AList.update k pq al) = (contents al)(k := packets pq)"
  by (rule ext) (simp add: contents_def update_conv')

lemma contents_delete [simp]: "contents (AList.delete k al) = (contents al)(k := [])"
  by (rule ext) (simp add: contents_def delete_conv')

lemma backlog_update: "backlog (AList.update k pq al) + length (contents al k) = backlog al + length (packets pq)"
  by (induction al) (auto simp: backlog_def contents_def)

lemma backlog_delete:
  assumes "distinct (map fst al)"
  shows "backlog (AList.delete k al) + length (contents al k) = backlog al"
  using assms
proof (induction al)
  case (Cons e al)
  then show ?case
    by (cases e) (auto simp: backlog_def contents_def AList.delete_eq map_of_eq_None_iff filter_id_conv
        intro: rev_image_eqI split: option.splits)
qed (simp add: backlog_def contents_def)

lemma contents_le_backlog: "length (contents al k) \<le> backlog al"
  by (induction al) (auto simp: backlog_def contents_def)

lemma backlog_pos:
  assumes "distinct (map fst al)" and "0 < backlog al"
  shows "\<exists>k. contents al k \<noteq> []"
proof -
  have "0 < backlog al \<Longrightarrow> \<exists>e \<in> set al. packets (snd e) \<noteq> []"
    by (induction al) (auto simp: backlog_def)
  then obtain k pq where "(k, pq) \<in> set al" "packets pq \<noteq> []" using assms(2) by auto
  then have "contents al k \<noteq> []" using assms(1) by (simp add: contents_def)
  then show ?thesis ..
qed

lemma retain_active_lookup:
  "distinct (map fst al) \<Longrightarrow>
   map_of (retain_active now al) k =
     (case map_of al k of Some pq \<Rightarrow> if packets pq \<noteq> [] \<or> now - last_activity pq < secs 1 then Some pq else None | None \<Rightarrow> None)"
  by (induction al) (auto simp: retain_active_def split: option.splits intro: rev_image_eqI)

lemma retain_active_keeps:
  assumes "distinct (map fst al)"
  shows "contents (retain_active now al) = contents al" "backlog (retain_active now al) = backlog al"
    "distinct (map fst (retain_active now al))" "length (retain_active now al) \<le> length al"
proof -
  show "contents (retain_active now al) = contents al"
    by (rule ext) (simp add: contents_def retain_active_lookup [OF assms] split: option.splits)
  show "backlog (retain_active now al) = backlog al"
    by (induction al) (auto simp: backlog_def retain_active_def)
  show "distinct (map fst (retain_active now al))"
    using assms by (simp add: retain_active_def distinct_map_filter)
  show "length (retain_active now al) \<le> length al"
    by (simp add: retain_active_def)
qed

section \<open>The operations keep the invariant\<close>

lemma fq_inv_new: "fq_inv (queue_new_with_rate cap rate)"
  by (simp add: fq_inv_def queue_new_with_rate_def Let_def contents_def backlog_def)

lemma fq_inv_retain:
  assumes "fq_inv q"
  shows "fq_inv (q\<lparr>q_peers := retain_active now (q_peers q)\<rparr>)"
proof -
  have d: "distinct (map fst (q_peers q))" using assms by (simp add: fq_inv_def)
  show ?thesis using assms retain_active_keeps [OF d, of now]
    by (auto simp: fq_inv_def retain_active_lookup [OF d] split: option.splits if_splits)
qed

lemma length_update: "length (AList.update k v al) = (if map_of al k = None then Suc (length al) else length al)"
  by (induction al) auto

lemma fq_inv_update:
  assumes "fq_inv q" and "pq_ok k pq" and "length (packets pq) \<le> per_peer_capacity q"
    and "distinct rot" and "set rot = {j. ((contents (q_peers q))(k := packets pq)) j \<noteq> []}"
    and "n + length (contents (q_peers q) k) = queued q + length (packets pq)" and "n \<le> q_capacity q"
    and "map_of (q_peers q) k \<noteq> None \<or> length (q_peers q) < MAX_TRACKED_PEERS" and "m = n"
  shows "fq_inv (q\<lparr>q_peers := AList.update k pq (q_peers q), rotation := rot, queued := n, queued_mirror := m\<rparr>)"
  using assms backlog_update [of k pq "q_peers q"]
  by (auto simp: fq_inv_def distinct_update length_update update_conv')

lemma fq_inv_ok: "fq_inv q \<Longrightarrow> map_of (q_peers q) k = Some pq \<Longrightarrow> pq_ok k pq"
  by (simp add: fq_inv_def)

lemma queue_entry_key:
  "(\<And>e. key = Endpoint e \<Longrightarrow> e = endpoint) \<Longrightarrow> packet_key (queue_entry key endpoint payload now) = key"
  by (cases key) (simp_all add: packet_key_def queue_entry_def)

lemma pq_ok_append:
  assumes "pq_ok k pq" and "packet_key p = k"
  shows "pq_ok k (pq\<lparr>packets := packets pq @ [p], last_activity := now\<rparr>)"
  using assms by (cases "packets pq") (auto simp: pq_ok_def front_size_def)

lemma pq_ok_new: "pq_ok k (peer_queue_new rate now)"
  by (simp add: pq_ok_def peer_queue_new_def)

lemma entry_or_new_ok:
  assumes "fq_inv q"
  shows "packets (entry_or_new q key now) = contents (q_peers q) key" "pq_ok key (entry_or_new q key now)"
  using assms
  by (auto simp: entry_or_new_def contents_def fq_inv_def pq_ok_new split: option.splits)
     (simp_all add: peer_queue_new_def)

lemma push_packet_inv:
  assumes inv: "fq_inv q" and pq: "pq_ok key pq" "packets pq = contents (q_peers q) key" and p: "packet_key p = key"
    and room: "queued q < q_capacity q" "length (packets pq) < per_peer_capacity q"
      "map_of (q_peers q) key \<noteq> None \<or> length (q_peers q) < MAX_TRACKED_PEERS"
  shows "fq_inv (push_packet q key pq p now)"
proof -
  have "fq_inv (q\<lparr>q_peers := AList.update key (pq\<lparr>packets := packets pq @ [p], last_activity := now\<rparr>) (q_peers q),
      rotation := (if packets pq = [] then rotation q @ [key] else rotation q),
      queued := queued q + 1, queued_mirror := queued_mirror q + 1\<rparr>)"
    by (rule fq_inv_update [OF inv pq_ok_append [OF pq(1) p]]) (use inv pq room in \<open>auto simp: fq_inv_def\<close>)
  then show ?thesis by (simp add: push_packet_def)
qed

text \<open>An enqueue either appends its packet to the queue of its key, or reports backpressure and
  changes the contents of no queue.\<close>

lemma enqueue_cases:
  assumes inv: "fq_inv q" and run: "try_enqueue_keyed q key endpoint payload now = (res, q')"
  obtains (full) r where "fq_inv r" "contents (q_peers r) = contents (q_peers q)" "res = Inl Backpressure" "q' = r"
  | (pushed) r pq where "fq_inv r" "contents (q_peers r) = contents (q_peers q)" "pq_ok key pq" "packets pq = contents (q_peers r) key"
      "queued r < q_capacity r" "length (packets pq) < per_peer_capacity r" "map_of (q_peers r) key \<noteq> None"
      "res = Inr ()" "q' = push_packet r key pq (queue_entry key endpoint payload now) now"
proof -
  define r where "r = q\<lparr>q_peers := retain_active now (q_peers q)\<rparr>"
  define pq where "pq = entry_or_new r key now"
  define u where "u = r\<lparr>q_peers := AList.update key pq (q_peers r)\<rparr>"
  have r: "fq_inv r" unfolding r_def by (rule fq_inv_retain [OF inv])
  have cr: "contents (q_peers r) = contents (q_peers q)"
    using inv by (simp add: r_def retain_active_keeps fq_inv_def)
  note pq = entry_or_new_ok [OF r, of key now, folded pq_def]
  have run': "(res, q') =
    (if queued r \<ge> q_capacity r \<or> map_of (q_peers r) key = None \<and> length (q_peers r) \<ge> MAX_TRACKED_PEERS then (Inl Backpressure, r)
     else if length (packets pq) \<ge> per_peer_capacity u then (Inl Backpressure, u)
     else (Inr (), push_packet u key pq (queue_entry key endpoint payload now) now))"
    using run unfolding try_enqueue_keyed_def Let_def r_def [symmetric] pq_def [symmetric] u_def [symmetric]
    by (auto split: if_splits)
  show thesis
  proof (cases "queued r \<ge> q_capacity r \<or> map_of (q_peers r) key = None \<and> length (q_peers r) \<ge> MAX_TRACKED_PEERS")
    case True
    then show thesis using full r cr run' by simp
  next
    case False
    have "fq_inv (r\<lparr>q_peers := AList.update key pq (q_peers r), rotation := rotation r, queued := queued r, queued_mirror := queued_mirror r\<rparr>)"
      by (rule fq_inv_update [OF r pq(2)]) (use False r pq in \<open>auto simp: fq_inv_def\<close>)
    then have u: "fq_inv u" by (simp add: u_def)
    have "contents (q_peers u) = contents (q_peers q)" using pq(1) cr by (auto simp: u_def)
    then show thesis using False full [OF u] pushed [OF u _ pq(2)] pq(1) run'
      by (cases "length (packets pq) \<ge> per_peer_capacity u") (auto simp: u_def update_conv')
  qed
qed

lemma push_packet_contents:
  "packets pq = contents (q_peers q) key \<Longrightarrow>
   contents (q_peers (push_packet q key pq p now)) = (contents (q_peers q))(key := contents (q_peers q) key @ [p])"
  by (simp add: push_packet_def)

lemma enqueue_spec:
  assumes inv: "fq_inv q" and key: "\<And>e. key = Endpoint e \<Longrightarrow> e = endpoint"
    and run: "try_enqueue_keyed q key endpoint payload now = (res, q')"
  shows "fq_inv q' \<and>
    (case res of
       Inl e \<Rightarrow> e = Backpressure \<and> contents (q_peers q') = contents (q_peers q)
     | Inr _ \<Rightarrow> contents (q_peers q') =
         (contents (q_peers q))(key := contents (q_peers q) key @ [queue_entry key endpoint payload now]))"
  using inv run
proof (cases rule: enqueue_cases)
  case (pushed r pq)
  then show ?thesis
    using push_packet_inv [OF pushed(1,3,4) queue_entry_key [OF key]] push_packet_contents [OF pushed(4)] by simp
qed simp

lemma set_rate_spec:
  assumes "fq_inv q"
  shows "fq_inv (set_rate_bytes_per_sec q rate now)"
    and "contents (q_peers (set_rate_bytes_per_sec q rate now)) = contents (q_peers q)"
proof -
  let ?f = "\<lambda>(k :: queue_key, pq). (k, reshape rate now pq)"
  have keep: "packets (reshape rate now pq) = packets pq" "pq_ok k (reshape rate now pq) = pq_ok k pq" for k pq
    by (simp_all add: reshape_def pq_ok_def front_size_def)
  have look: "map_of (map ?f al) k = map_option (reshape rate now) (map_of al k)" for al k
    by (simp add: map_of_map)
  have cont: "contents (map ?f al) = contents al" for al
    by (rule ext) (simp add: contents_def look keep split: option.splits)
  have "backlog (map ?f al) = backlog al" for al by (induction al) (auto simp: backlog_def keep)
  moreover have "map fst (map ?f al) = map fst al" for al by (induction al) auto
  ultimately show "fq_inv (set_rate_bytes_per_sec q rate now)"
    using assms by (auto simp: fq_inv_def set_rate_bytes_per_sec_def look cont keep simp del: map_map)
  show "contents (q_peers (set_rate_bytes_per_sec q rate now)) = contents (q_peers q)"
    by (simp add: set_rate_bytes_per_sec_def cont)
qed

lemma front_size_Cons: "packets pq = p # ps \<Longrightarrow> front_size pq = length (qd_payload p)"
  by (simp add: front_size_def)

lemma start_round_keeps [simp]:
  "packets (start_round pq) = packets pq" "rate_bucket (start_round pq) = rate_bucket pq" "in_round (start_round pq)"
  "front_size (start_round pq) = front_size pq"
  by (simp_all add: start_round_def front_size_def)

lemma charge_keeps:
  assumes "charge pq sz now = (r, pq')"
  shows "packets pq' = packets pq" "deficit pq' = deficit pq" "in_round pq' = in_round pq"
    "rate_bucket pq' = None \<longleftrightarrow> rate_bucket pq = None"
  using assms by (auto simp: charge_def split: option.splits prod.splits)

lemma put_back_spec:
  assumes inv: "fq_inv q" and rot: "rotation q = key # rest" and pq: "packets pq = contents (q_peers q) key"
  shows "fq_inv (put_back key rest pq q)" and "contents (q_peers (put_back key rest pq q)) = contents (q_peers q)"
    and "rotation (put_back key rest pq q) = rest @ [key]"
    and "length (rotation (put_back key rest pq q)) = length (rotation q)"
proof -
  have ne: "contents (q_peers q) key \<noteq> []" using inv rot by (auto simp: fq_inv_def)
  then have some: "map_of (q_peers q) key \<noteq> None" by (simp add: contents_def split: option.splits)
  have "pq_ok key (pq\<lparr>in_round := False\<rparr>)"
    using inv pq ne some by (auto simp: fq_inv_def pq_ok_def contents_def)
  moreover have "fq_inv (q\<lparr>q_peers := AList.update key (pq\<lparr>in_round := False\<rparr>) (q_peers q), rotation := rest @ [key],
      queued := queued q, queued_mirror := queued_mirror q\<rparr>)"
    by (rule fq_inv_update [OF inv calculation]) (use inv rot pq some in \<open>auto simp: fq_inv_def\<close>)
  ultimately show "fq_inv (put_back key rest pq q)" by (simp add: put_back_def)
  show "contents (q_peers (put_back key rest pq q)) = contents (q_peers q)" using pq by (auto simp: put_back_def)
  show "rotation (put_back key rest pq q) = rest @ [key]" "length (rotation (put_back key rest pq q)) = length (rotation q)"
    using rot by (simp_all add: put_back_def)
qed

lemma fq_inv_delete:
  assumes "fq_inv q" and "rotation q = key # rest"
    and "n + length (contents (q_peers q) key) = queued q" and "m = n"
  shows "fq_inv (q\<lparr>q_peers := AList.delete key (q_peers q), rotation := rest, queued := n, queued_mirror := m\<rparr>)"
proof -
  have d: "distinct (map fst (q_peers q))" using assms(1) by (simp add: fq_inv_def)
  have "length (AList.delete key (q_peers q)) \<le> length (q_peers q)" by (rule length_delete_le)
  then show ?thesis using assms backlog_delete [OF d, of key]
    by (auto simp: fq_inv_def distinct_delete delete_conv')
qed

text \<open>Taking a packet removes the oldest packet of the peer at the front of the rotation.\<close>

lemma pop_packet_contents:
  "contents (q_peers (snd (pop_packet key rest pq now q))) = (contents (q_peers q))(key := tl (packets pq))"
  by (simp add: pop_packet_def Let_def)

lemma pop_packet_inv:
  assumes inv: "fq_inv q" and rot: "rotation q = key # rest" and c: "contents (q_peers q) key = p # ps"
    and pq: "packets pq = p # ps" "in_round pq"
  shows "fq_inv (snd (pop_packet key rest pq now q))"
proof -
  have some: "map_of (q_peers q) key \<noteq> None" using c by (simp add: contents_def split: option.splits)
  then have keys: "\<forall>x \<in> set ps. packet_key x = key"
    using inv c by (auto simp: fq_inv_def pq_ok_def contents_def)
  have n: "queued q - 1 + length (contents (q_peers q) key) = queued q + length ps" "queued q - 1 \<le> q_capacity q"
    using c inv contents_le_backlog [of "q_peers q" key] by (auto simp: fq_inv_def)
  have lps: "length ps \<le> per_peer_capacity q" using inv c by (metis Suc_leD fq_inv_def length_Cons)
  have upd: "fq_inv (q\<lparr>rotation := rot', q_peers := AList.update key x (q_peers q), queued := queued q - 1, queued_mirror := queued_mirror q - 1\<rparr>)"
    if "pq_ok key x" "packets x = ps" "distinct rot'" "set rot' = {j. ((contents (q_peers q))(key := ps)) j \<noteq> []}" for x rot'
    using fq_inv_update [OF inv that(1), of rot' "queued q - 1" "queued_mirror q - 1"] that n lps some inv
    by (simp add: fq_inv_def)
  have rots: "distinct (key # rest)" "set (key # rest) = {j. contents (q_peers q) j \<noteq> []}"
    using inv rot by (auto simp: fq_inv_def)
  show ?thesis
  proof (cases "ps = []")
    case True
    have del: "fq_inv (q\<lparr>rotation := rest, q_peers := AList.delete key (q_peers q), queued := queued q - 1, queued_mirror := queued_mirror q - 1\<rparr>)"
      using fq_inv_delete [OF inv rot, of "queued q - 1" "queued_mirror q - 1"] n c True inv by (simp add: fq_inv_def)
    show ?thesis
    proof (cases "rate_bucket pq = None")
      case True
      then show ?thesis using del \<open>ps = []\<close> pq by (simp add: pop_packet_def Let_def)
    next
      case False
      let ?x = "pq\<lparr>packets := [], last_activity := now, in_round := False, deficit := 0\<rparr>"
      have "set rest = {j. ((contents (q_peers q))(key := ps)) j \<noteq> []}" using rots True by auto
      then have "fq_inv (q\<lparr>rotation := rest, q_peers := AList.update key ?x (q_peers q), queued := queued q - 1, queued_mirror := queued_mirror q - 1\<rparr>)"
        using rots(1) True by (intro upd) (simp_all add: pq_ok_def)
      then show ?thesis using True False pq by (auto simp: pop_packet_def Let_def)
    qed
  next
    case False
    define x where "x = pq\<lparr>deficit := deficit pq - front_size pq, packets := ps, last_activity := now\<rparr>"
    have x: "packets x = ps" by (simp add: x_def)
    have rest: "set (key # rest) = {j. ((contents (q_peers q))(key := ps)) j \<noteq> []}" using rots c False by auto
    show ?thesis
    proof (cases "front_size x \<le> deficit x")
      case True
      then have "pq_ok key x" using keys False x by (simp add: pq_ok_def)
      then show ?thesis using upd [OF _ x rots(1) rest] True False pq
        by (simp add: pop_packet_def Let_def x_def)
    next
      case nofit: False
      have "pq_ok key (x\<lparr>in_round := False\<rparr>)" using keys False x by (simp add: pq_ok_def)
      then show ?thesis using upd [of "x\<lparr>in_round := False\<rparr>" "rest @ [key]"] rots rest nofit False pq x
        by (simp add: pop_packet_def Let_def x_def)
    qed
  qed
qed

definition datagram :: "queued_datagram \<Rightarrow> queue_key \<times> socket_addr \<times> bytes" where
  "datagram p = (packet_key p, qd_peer p, qd_payload p)"

definition took :: "(queue_key \<times> peer_queue) list \<Rightarrow> queued_datagram \<Rightarrow> (queue_key \<times> peer_queue) list \<Rightarrow> bool" where
  "took al p al' \<longleftrightarrow>
     (\<exists>p0. datagram p = datagram p0 \<and> contents al (packet_key p) = p0 # contents al' (packet_key p)) \<and>
     (\<forall>k. k \<noteq> packet_key p \<longrightarrow> contents al' k = contents al k)"

lemma took_cong: "contents al = contents al2 \<Longrightarrow> took al p al' = took al2 p al'"
  by (simp add: took_def)

lemma pop_packet_took:
  assumes inv: "fq_inv q" and rot: "rotation q = key # rest" and pq: "packets pq = contents (q_peers q) key" "in_round pq"
  obtains p q' where "pop_packet key rest pq now q = (Some p, q')" "fq_inv q'" "took (q_peers q) p (q_peers q')"
proof -
  have "contents (q_peers q) key \<noteq> []" using inv rot by (auto simp: fq_inv_def)
  then obtain p0 ps where c: "contents (q_peers q) key = p0 # ps" by (cases "contents (q_peers q) key") auto
  have key: "packet_key p0 = key" using inv c by (fastforce simp: fq_inv_def pq_ok_def contents_def split: option.splits)
  define p where "p = p0\<lparr>qd_queue_delay := now - qd_enqueued_at p0\<rparr>"
  obtain q' where q': "pop_packet key rest pq now q = (Some p, q')"
    using pq c by (simp add: pop_packet_def Let_def p_def)
  have "packet_key p = key" "datagram p = datagram p0" using key
    by (simp_all add: p_def packet_key_def datagram_def split: option.splits)
  then have "took (q_peers q) p (q_peers q')"
    using pop_packet_contents [of key rest pq now q] q' pq c by (simp add: took_def)
  moreover have "fq_inv q'" using pop_packet_inv [OF inv rot c, of pq now] pq c q' by simp
  ultimately show thesis using that q' by blast
qed

lemma recv_visit_spec:
  assumes "fq_inv q" and "recv_visit n now w y q = ((res, w', y'), q')"
  shows "fq_inv q' \<and>
    (case res of None \<Rightarrow> contents (q_peers q') = contents (q_peers q) | Some p \<Rightarrow> took (q_peers q) p (q_peers q'))"
  using assms
proof (induction n arbitrary: w y q)
  case (Suc n)
  show ?case
  proof (cases "rotation q")
    case Nil
    then show ?thesis using Suc.prems by auto
  next
    case (Cons key rest)
    have "contents (q_peers q) key \<noteq> []" using Suc.prems(1) Cons by (auto simp: fq_inv_def)
    then obtain pq0 where look: "map_of (q_peers q) key = Some pq0" and pk: "packets pq0 = contents (q_peers q) key"
      by (auto simp: contents_def split: option.splits)
    define pq where "pq = start_round pq0"
    have pq: "packets pq = contents (q_peers q) key" "in_round pq" by (simp_all add: pq_def pk)
    obtain r pq1 where ch: "charge pq (front_size pq) now = (r, pq1)" by fastforce
    note ck = charge_keeps [OF ch]
    have pq1: "packets pq1 = contents (q_peers q) key" "in_round pq1" using pq ck by simp_all
    note pb = put_back_spec [OF Suc.prems(1) Cons]
    obtain p q1 where pop: "pop_packet key rest pq1 now q = (Some p, q1)" "fq_inv q1" "took (q_peers q) p (q_peers q1)"
      using pop_packet_took [OF Suc.prems(1) Cons pq1] by metis
    consider (poor) "deficit pq < front_size pq"
      | (delayed) d where "\<not> deficit pq < front_size pq" "r = Inl d"
      | (popped) "\<not> deficit pq < front_size pq" "r = Inr ()" by (cases r) auto
    then show ?thesis
    proof cases
      case poor
      then have "recv_visit n now w True (put_back key rest pq q) = ((res, w', y'), q')"
        using Suc.prems(2) Cons look by (simp add: Let_def flip: pq_def)
      from Suc.IH [OF pb(1) [OF pq(1)] this] show ?thesis
        using pb(2) [OF pq(1)] by (simp add: took_def cong: option.case_cong)
    next
      case delayed
      then obtain w1 where "recv_visit n now w1 y (put_back key rest pq1 q) = ((res, w', y'), q')"
        using Suc.prems(2) Cons look ch by (simp add: Let_def flip: pq_def)
      from Suc.IH [OF pb(1) [OF pq1(1)] this] show ?thesis
        using pb(2) [OF pq1(1)] by (simp add: took_def cong: option.case_cong)
    next
      case popped
      then show ?thesis using Suc.prems(2) Cons look ch \<open>pop_packet key rest pq1 now q = (Some p, q1)\<close>
          \<open>fq_inv q1\<close> \<open>took (q_peers q) p (q_peers q1)\<close>
        by (auto simp: Let_def simp flip: pq_def)
    qed
  qed
qed auto

section \<open>Keyed FIFO service\<close>

text \<open>
  What a keyed queue promises: a step accepts some items and delivers some, and for every key the items
  delivered followed by those left are the items that were there followed by those accepted. The
  promise then holds for every run of steps.
\<close>

fun run_ops :: "('op \<Rightarrow> 'q \<Rightarrow> ('d list \<times> 'd list) \<times> 'q) \<Rightarrow> 'op list \<Rightarrow> 'q \<Rightarrow> ('d list \<times> 'd list) \<times> 'q" where
  "run_ops step [] q = (([], []), q)"
| "run_ops step (op # ops) q =
     (let ((acc, del), q1) = step op q; ((accs, dels), q2) = run_ops step ops q1 in ((acc @ accs, del @ dels), q2))"

locale keyed_fifo =
  fixes inv :: "'q \<Rightarrow> bool" and items :: "'q \<Rightarrow> 'k \<Rightarrow> 'd list" and key :: "'d \<Rightarrow> 'k"
    and step :: "'op \<Rightarrow> 'q \<Rightarrow> ('d list \<times> 'd list) \<times> 'q"
  assumes step_inv: "inv q \<Longrightarrow> inv (snd (step op q))"
    and step_fifo: "inv q \<Longrightarrow> step op q = ((acc, del), q') \<Longrightarrow>
      filter (\<lambda>d. key d = k) del @ items q' k = items q k @ filter (\<lambda>d. key d = k) acc"
begin

lemma run_inv: "inv q \<Longrightarrow> inv (snd (run_ops step ops q))"
proof (induction ops arbitrary: q)
  case (Cons op ops)
  have "inv (snd (run_ops step ops (snd (step op q))))" by (rule Cons.IH [OF step_inv [OF Cons.prems]])
  then show ?case by (simp add: Let_def case_prod_beta)
qed simp

lemma run_fifo:
  assumes "inv q" and "run_ops step ops q = ((acc, del), q')"
  shows "filter (\<lambda>d. key d = k) del @ items q' k = items q k @ filter (\<lambda>d. key d = k) acc"
  using assms
proof (induction ops arbitrary: q acc del)
  case (Cons op ops)
  obtain a1 d1 q1 where s: "step op q = ((a1, d1), q1)" by (metis surj_pair)
  obtain a2 d2 where r: "run_ops step ops q1 = ((a2, d2), q')" and eq: "acc = a1 @ a2" "del = d1 @ d2"
    using Cons.prems(2) s by (auto simp: Let_def split: prod.splits)
  have "inv q1" using step_inv [OF Cons.prems(1), of op] s by simp
  from Cons.IH [OF this r] show ?case
    using step_fifo [OF Cons.prems(1) s, of k] eq by (metis append_assoc filter_append)
qed simp

end

datatype fq_op =
    Enqueue socket_addr bytes instant
  | EnqueueFor bytes socket_addr bytes instant
  | SetRate nat instant
  | Recv bool instant

fun fq_step :: "fq_op \<Rightarrow> outbound_queue \<Rightarrow>
    ((queue_key \<times> socket_addr \<times> bytes) list \<times> (queue_key \<times> socket_addr \<times> bytes) list) \<times> outbound_queue" where
  "fq_step (Enqueue peer payload now) q =
     (case try_enqueue q peer payload now of
        (Inr _, q') \<Rightarrow> (([(Endpoint peer, peer, payload)], []), q') | (Inl _, q') \<Rightarrow> (([], []), q'))"
| "fq_step (EnqueueFor k endpoint payload now) q =
     (case try_enqueue_for_peer q k endpoint payload now of
        (Inr _, q') \<Rightarrow> (([(Stable k, endpoint, payload)], []), q') | (Inl _, q') \<Rightarrow> (([], []), q'))"
| "fq_step (SetRate rate now) q = (([], []), set_rate_bytes_per_sec q rate now)"
| "fq_step (Recv dropped now) q =
     (case recv_pass dropped now q of (Packet p, q') \<Rightarrow> (([], [datagram p]), q') | (_, q') \<Rightarrow> (([], []), q'))"

abbreviation queue_items :: "outbound_queue \<Rightarrow> queue_key \<Rightarrow> (queue_key \<times> socket_addr \<times> bytes) list" where
  "queue_items q k \<equiv> map datagram (contents (q_peers q) k)"

lemma recv_pass_spec:
  assumes "fq_inv q" and "recv_pass dropped now q = (out, q')"
  shows "fq_inv q' \<and>
    (case out of Packet p \<Rightarrow> took (q_peers q) p (q_peers q') | _ \<Rightarrow> contents (q_peers q') = contents (q_peers q))"
proof -
  obtain res w y q1 where v: "recv_visit (length (rotation q)) now None False q = ((res, w, y), q1)"
    by (metis surj_pair)
  show ?thesis using assms(2) recv_visit_spec [OF assms(1) v] v
    by (auto simp: recv_pass_def split: option.splits if_splits)
qed

lemma enqueue_step:
  assumes "fq_inv q" and "\<And>e. key = Endpoint e \<Longrightarrow> e = endpoint"
    and "try_enqueue_keyed q key endpoint payload now = (res, q')"
  shows "fq_inv q'" and "queue_items q' k = queue_items q k @ (if k = key \<and> is_ok res then [(key, endpoint, payload)] else [])"
proof -
  have "packet_key (queue_entry key endpoint payload now) = key"
    using assms(2) by (rule queue_entry_key)
  then have "datagram (queue_entry key endpoint payload now) = (key, endpoint, payload)"
    by (simp add: datagram_def queue_entry_def)
  then show "fq_inv q'" "queue_items q' k = queue_items q k @ (if k = key \<and> is_ok res then [(key, endpoint, payload)] else [])"
    using enqueue_spec [OF assms] by (auto split: sum.splits)
qed

lemma took_items:
  "took (q_peers q) p (q_peers q') \<Longrightarrow>
   (if packet_key p = k then [datagram p] else []) @ queue_items q' k = queue_items q k"
  by (auto simp: took_def)

lemma fq_step_spec:
  assumes "fq_inv q" and "fq_step op q = ((acc, del), q')"
  shows "fq_inv q' \<and> filter (\<lambda>d. fst d = k) del @ queue_items q' k = queue_items q k @ filter (\<lambda>d. fst d = k) acc"
proof (cases op)
  case (Enqueue peer payload now)
  obtain res q1 where t: "try_enqueue_keyed q (Endpoint peer) peer payload now = (res, q1)" by fastforce
  note enqueue_step [OF assms(1) _ t, simplified]
  with assms(2) Enqueue t show ?thesis by (cases res) (auto simp: try_enqueue_def)
next
  case (EnqueueFor i endpoint payload now)
  obtain res q1 where t: "try_enqueue_keyed q (Stable i) endpoint payload now = (res, q1)" by fastforce
  note enqueue_step [OF assms(1) _ t, simplified]
  with assms(2) EnqueueFor t show ?thesis by (cases res) (auto simp: try_enqueue_for_peer_def)
next
  case (SetRate rate now)
  then show ?thesis using assms set_rate_spec [OF assms(1)] by auto
next
  case (Recv dropped now)
  obtain out q1 where r: "recv_pass dropped now q = (out, q1)" by fastforce
  note sp = recv_pass_spec [OF assms(1) r]
  show ?thesis
  proof (cases out)
    case (Packet p)
    then show ?thesis using assms(2) Recv r sp took_items [of q p q1 k] by (auto simp: datagram_def)
  qed (use assms(2) Recv r sp in auto)
qed

interpretation fq: keyed_fifo fq_inv queue_items fst fq_step
  using fq_step_spec by unfold_locales (metis surj_pair snd_conv, blast)

section \<open>Progress\<close>

definition unlimited :: "outbound_queue \<Rightarrow> bool" where
  "unlimited q \<longleftrightarrow> (\<forall>(k, pq) \<in> set (q_peers q). rate_bucket pq = None)"

definition credit :: "outbound_queue \<Rightarrow> queue_key \<Rightarrow> nat" where
  "credit q k = (case map_of (q_peers q) k of None \<Rightarrow> 0 | Some pq \<Rightarrow> deficit pq)"

definition head_size :: "outbound_queue \<Rightarrow> queue_key \<Rightarrow> nat" where
  "head_size q k = (case contents (q_peers q) k of [] \<Rightarrow> 0 | p # _ \<Rightarrow> length (qd_payload p))"

lemma head_size_front: "map_of (q_peers q) k = Some pq \<Longrightarrow> head_size q k = front_size pq"
  by (simp add: head_size_def front_size_def contents_def)

text \<open>A pass over the first queues of the rotation that takes no packet gives each of them a quantum,
  and leaves each with a packet that is still larger than its deficit.\<close>

lemma set_update_subset: "set (AList.update k v al) \<subseteq> insert (k, v) (set al)"
  by (induction al) auto

lemma unlimited_put_back:
  "unlimited q \<Longrightarrow> rate_bucket pq = None \<Longrightarrow> unlimited (put_back key rest pq q)"
  using set_update_subset [of key "pq\<lparr>in_round := False\<rparr>" "q_peers q"]
  by (fastforce simp: unlimited_def put_back_def)

lemma credit_put_back: "credit (put_back key rest pq q) = (credit q)(key := deficit pq)"
  by (rule ext) (simp add: credit_def put_back_def update_conv')

lemma visit_without_packet:
  assumes "fq_inv q" and "unlimited q" and "n \<le> length (rotation q)"
    and "recv_visit n now w y q = ((None, w', y'), q')"
  shows "unlimited q' \<and>
    (\<forall>k. credit q' k = (if k \<in> set (take n (rotation q)) then sat_add (credit q k) DRR_QUANTUM else credit q k)) \<and>
    (\<forall>k \<in> set (take n (rotation q)). credit q' k < head_size q k)"
  using assms
proof (induction n arbitrary: w y q)
  case (Suc n)
  obtain key rest where rot: "rotation q = key # rest" using Suc.prems(3) by (cases "rotation q") auto
  have d: "key \<notin> set rest" using Suc.prems(1) rot by (simp add: fq_inv_def)
  have "contents (q_peers q) key \<noteq> []" using Suc.prems(1) rot by (auto simp: fq_inv_def)
  then obtain pq0 where look: "map_of (q_peers q) key = Some pq0" and pk: "packets pq0 = contents (q_peers q) key"
    by (auto simp: contents_def split: option.splits)
  define pq where "pq = start_round pq0"
  have pq: "packets pq = contents (q_peers q) key" "in_round pq" "rate_bucket pq = None" "front_size pq = head_size q key"
    using Suc.prems(2) map_of_SomeD [OF look] by (auto simp: pq_def pk head_size_front [OF look] unlimited_def)
  obtain p q1 where pop: "pop_packet key rest pq now q = (Some p, q1)"
    using pop_packet_took [OF Suc.prems(1) rot pq(1,2)] by metis
  have poor: "deficit pq < front_size pq"
    using Suc.prems(4) rot look pop pq(3) by (auto simp: Let_def charge_def simp flip: pq_def split: if_splits)
  then have "\<not> in_round pq0"
    using fq_inv_ok [OF Suc.prems(1) look] by (auto simp: pq_def start_round_def pq_ok_def)
  then have cr: "deficit pq = sat_add (credit q key) DRR_QUANTUM" by (simp add: pq_def start_round_def credit_def look)
  have step: "recv_visit n now w True (put_back key rest pq q) = ((None, w', y'), q')"
    using Suc.prems(4) rot look poor by (simp add: Let_def flip: pq_def)
  note pb = put_back_spec [OF Suc.prems(1) rot pq(1)]
  have "n \<le> length rest" using Suc.prems(3) rot by simp
  then have "take n (rotation (put_back key rest pq q)) = take n rest" and n: "n \<le> length (rotation (put_back key rest pq q))"
    using pb(3) by simp_all
  note IH = Suc.IH [OF pb(1) unlimited_put_back [OF Suc.prems(2) pq(3)] n step, unfolded this]
  have hs: "head_size (put_back key rest pq q) = head_size q" by (rule ext) (simp add: head_size_def pb(2))
  have "key \<notin> set (take n rest)" using d by (meson in_set_takeD)
  with IH show ?case using cr poor pq(4) rot by (auto simp: hs credit_put_back)
qed simp

lemma pass_without_packet:
  assumes "fq_inv q" and "unlimited q" and "recv_pass False now q = (out, q')" and "\<And>p. out \<noteq> Packet p"
    and "k \<in> set (rotation q)"
  shows "fq_inv q'" and "unlimited q'" and "contents (q_peers q') = contents (q_peers q)"
    and "credit q' k = sat_add (credit q k) DRR_QUANTUM" and "credit q' k < head_size q k"
proof -
  obtain w y where v: "recv_visit (length (rotation q)) now None False q = ((None, w, y), q')"
    using assms(3,4) by (auto simp: recv_pass_def split: prod.splits option.splits)
  show "fq_inv q'" "contents (q_peers q') = contents (q_peers q)" using recv_visit_spec [OF assms(1) v] by simp_all
  show "unlimited q'" "credit q' k = sat_add (credit q k) DRR_QUANTUM" "credit q' k < head_size q k"
    using visit_without_packet [OF assms(1,2) _ v] assms(5) by auto
qed

lemma recv_loop_progress:
  assumes "fq_inv q" and "unlimited q" and "contents (q_peers q) k \<noteq> []" and "nows \<noteq> []"
    and "head_size q k \<le> credit q k + DRR_QUANTUM * length nows" and "head_size q k \<le> u64_max"
  shows "\<exists>p. fst (recv_loop nows q) = Some p"
  using assms
proof (induction nows arbitrary: q)
  case (Cons now nows)
  obtain out q1 where pass: "recv_pass False now q = (out, q1)" by fastforce
  show ?case
  proof (cases "\<exists>p. out = Packet p")
    case False
    have rot: "k \<in> set (rotation q)" using Cons.prems(1,3) by (simp add: fq_inv_def)
    have none: "\<And>p. out \<noteq> Packet p" using False by blast
    note np = pass_without_packet [OF Cons.prems(1,2) pass none rot]
    have hs: "head_size q1 k = head_size q k" using np(3) by (simp add: head_size_def)
    have cr: "credit q1 k = credit q k + DRR_QUANTUM"
      using np(4,5) Cons.prems(6) by (auto simp: sat_add_def min_def split: if_splits)
    have "nows \<noteq> []" using np(5) cr Cons.prems(5) by auto
    then have "\<exists>p. fst (recv_loop nows q1) = Some p"
      using Cons.IH [OF np(1,2)] np(3) Cons.prems hs cr by simp
    then show ?thesis using pass False by (cases out) auto
  qed (use pass in auto)
qed simp

lemma q_capacity_visit: "q_capacity (snd (recv_visit n now w y q)) = q_capacity q"
proof (induction n now w y q rule: recv_visit.induct)
  case (2 n now w y q)
  have "q_capacity (put_back key rest pq r) = q_capacity r" "q_capacity (snd (pop_packet key rest pq now r)) = q_capacity r"
    for key rest pq r
    by (simp_all add: put_back_def pop_packet_def Let_def)
  with 2 show ?case
    by (auto simp: Let_def split: list.splits option.splits prod.splits sum.splits) (metis snd_conv)+
qed simp

lemma q_capacity_step: "q_capacity (snd (fq_step op q)) = q_capacity q"
proof (cases op)
  case (Recv dropped now)
  then show ?thesis
    using q_capacity_visit [of "length (rotation q)" now None False q]
    by (auto simp: recv_pass_def split: prod.splits option.splits recv_outcome.splits)
qed (auto simp: try_enqueue_def try_enqueue_for_peer_def try_enqueue_keyed_def push_packet_def
  set_rate_bytes_per_sec_def Let_def split: prod.splits sum.splits)

lemma q_capacity_run: "q_capacity (snd (run_ops fq_step ops q)) = q_capacity q"
  by (induction ops arbitrary: q) (simp_all add: Let_def case_prod_beta q_capacity_step)

section \<open>Properties\<close>

text \<open>
  C19. The queue is a FIFO per peer that neither loses nor invents a datagram: after any sequence of
  enqueues, rate changes and receive passes, and for every peer key, the datagrams delivered followed by
  those still queued are exactly the datagrams accepted, in the order in which they were accepted.
\<close>

theorem fair_queue_fifo:
  "case run_ops fq_step ops (queue_new_with_rate cap rate) of
     ((accepted, delivered), q) \<Rightarrow>
       filter (\<lambda>d. fst d = k) delivered @ queue_items q k = filter (\<lambda>d. fst d = k) accepted"
proof -
  have "queue_items (queue_new_with_rate cap rate) k = []"
    by (simp add: queue_new_with_rate_def contents_def Let_def)
  then show ?thesis using fq.run_fifo [OF fq_inv_new, of ops cap rate _ _ _ k] by (simp split: prod.splits)
qed

text \<open>
  C27. After any sequence of operations the number of queued datagrams is at most the capacity (and the
  counter the sender reads is exact), no peer has more than 256 of them, at most 8192 peers are tracked,
  and the rotation lists exactly the peers with queued datagrams, each once.
\<close>

theorem fair_queue_bounded:
  "let q = snd (run_ops fq_step ops (queue_new_with_rate cap rate)) in
     queued_mirror q = (\<Sum>(_, pq) \<leftarrow> q_peers q. length (packets pq)) \<and> queued_mirror q \<le> max cap 1 \<and>
     length (contents (q_peers q) k) \<le> 256 \<and> length (q_peers q) \<le> 8192 \<and>
     distinct (rotation q) \<and> set (rotation q) = {k. contents (q_peers q) k \<noteq> []}"
proof -
  have "q_capacity (snd (run_ops fq_step ops (queue_new_with_rate cap rate))) = max cap 1"
    by (simp add: q_capacity_run) (simp add: queue_new_with_rate_def Let_def)
  then show ?thesis
    using fq.run_inv [OF fq_inv_new, of ops cap rate]
    unfolding Let_def fq_inv_def backlog_def MAX_PEER_QUEUE_def MAX_TRACKED_PEERS_def
    by (metis min.boundedE)
qed

text \<open>
  C28. The receiver makes progress: when some datagram is queued, no peer is rate limited and every queued
  datagram has at most \<open>1500 * n\<close> bytes, a receive call returns a datagram within \<open>n\<close> passes.
\<close>

theorem fair_queue_progress:
  assumes "q = snd (run_ops fq_step ops (queue_new_with_rate cap rate))"
    and "queued q > 0" and "unlimited q" and "0 < length nows"
    and "\<forall>(_, pq) \<in> set (q_peers q). \<forall>p \<in> set (packets pq). length (qd_payload p) \<le> 1500 * length nows"
    and "1500 * length nows \<le> u64_max"
  shows "\<exists>p. fst (recv_loop nows q) = Some p"
proof -
  have inv: "fq_inv q" unfolding assms(1) by (rule fq.run_inv [OF fq_inv_new])
  then obtain k where k: "contents (q_peers q) k \<noteq> []"
    using backlog_pos [of "q_peers q"] assms(2) by (auto simp: fq_inv_def)
  then obtain pq p ps where pq: "map_of (q_peers q) k = Some pq" "packets pq = p # ps"
    by (cases "contents (q_peers q) k") (auto simp: contents_def split: option.splits)
  then have "head_size q k \<le> 1500 * length nows"
    using assms(5) map_of_SomeD [OF pq(1)] by (fastforce simp: head_size_def contents_def)
  then show ?thesis
    using assms(3,4,6) k by (intro recv_loop_progress [OF inv]) (auto simp: DRR_QUANTUM_def)
qed

definition ex_addr :: socket_addr where "ex_addr = SockV4 1 9000"

theorem fair_queue_progress_witness:
  "\<exists>p. fst (recv_loop [5] (snd (fq_step (Enqueue ex_addr [1, 2, 3] 0) (queue_new_with_rate 4 0)))) = Some p"
proof -
  have "snd (fq_step (Enqueue ex_addr [1, 2, 3] 0) (queue_new_with_rate 4 0))
      = snd (run_ops fq_step [Enqueue ex_addr [1, 2, 3] 0] (queue_new_with_rate 4 0))"
    by (simp add: Let_def split: prod.splits)
  then show ?thesis
    by (rule fair_queue_progress)
      (simp_all add: ex_addr_def queue_new_with_rate_def Let_def try_enqueue_def try_enqueue_keyed_def retain_active_def
        MAX_TRACKED_PEERS_def MAX_PEER_QUEUE_def entry_or_new_def peer_queue_new_def push_packet_def queue_entry_def
        unlimited_def u64_max_def)
qed

end
