(* ===== verification/Mtu.thy ===== *)
theory Mtu
  imports Prelude
begin

text \<open>
  The adaptive path MTU of \<^verbatim>\<open>crates/rvpn-transport/src/mtu.rs\<close>. Sizes are naturals, the two
  counters keep their 32 bits, and the clock reading of a call is its argument.
\<close>

section \<open>State and operations\<close>

definition DEFAULT_PATH_MTU :: nat where "DEFAULT_PATH_MTU = 1500"

definition default_udp_payload_mtu :: "bool \<Rightarrow> nat" where
  "default_udp_payload_mtu outer_is_ipv6 = DEFAULT_PATH_MTU - 8 - (if outer_is_ipv6 then 40 else 20)"

datatype mtu_change_reason = PathMtuExceeded | SustainedInstability | ProbeUp | ProbeReverted

record adaptive_mtu =
  target_mtu :: nat
  minimum_mtu :: nat
  maximum_mtu :: nat
  effective_mtu :: nat
  consecutive_failures :: u32
  consecutive_successes :: u32
  last_change :: instant
  probe_candidate :: "nat option"
  probe_started :: "instant option"

record mtu_snapshot =
  snap_target_mtu :: nat
  snap_effective_mtu :: nat
  snap_minimum_mtu :: nat
  snap_maximum_mtu :: nat
  snap_probing :: bool

definition FAILURE_THRESHOLD :: u32 where "FAILURE_THRESHOLD = 5"
definition SUCCESS_THRESHOLD :: u32 where "SUCCESS_THRESHOLD = 64"
definition MIN_CHANGE_INTERVAL :: duration where "MIN_CHANGE_INTERVAL = secs 5"
definition PROBE_EVALUATION_WINDOW :: duration where "PROBE_EVALUATION_WINDOW = secs 3"
definition PROBE_SUCCESS_THRESHOLD :: u32 where "PROBE_SUCCESS_THRESHOLD = 16"

definition step_down :: "nat \<Rightarrow> nat" where "step_down current = current * 9 div 10"
definition step_up :: "nat \<Rightarrow> nat" where "step_up gap = max (gap * 1 div 8) 1"

definition mtu_new :: "nat \<Rightarrow> nat \<Rightarrow> instant \<Rightarrow> adaptive_mtu" where
  "mtu_new target0 minimum0 now =
     (let target = max target0 1; minimum = max (min minimum0 target) 1
      in \<lparr>target_mtu = target, minimum_mtu = minimum, maximum_mtu = target, effective_mtu = target,
          consecutive_failures = 0, consecutive_successes = 0, last_change = now,
          probe_candidate = None, probe_started = None\<rparr>)"

definition snapshot :: "adaptive_mtu \<Rightarrow> mtu_snapshot" where
  "snapshot m =
     \<lparr>snap_target_mtu = target_mtu m, snap_effective_mtu = effective_mtu m, snap_minimum_mtu = minimum_mtu m,
      snap_maximum_mtu = maximum_mtu m, snap_probing = (probe_candidate m \<noteq> None)\<rparr>"

definition record_success :: "adaptive_mtu \<Rightarrow> instant \<Rightarrow> mtu_change_reason option \<times> adaptive_mtu" where
  "record_success m0 now =
     (let m = m0\<lparr>consecutive_failures := 0, consecutive_successes := consecutive_successes m0 + 1\<rparr> in
      case probe_candidate m of
        Some candidate \<Rightarrow>
          (let started = (case probe_started m of Some t \<Rightarrow> t | None \<Rightarrow> now) in
           if consecutive_successes m \<ge> PROBE_SUCCESS_THRESHOLD \<and> now - started \<ge> PROBE_EVALUATION_WINDOW then
             (Some ProbeUp, m\<lparr>effective_mtu := candidate, probe_candidate := None, probe_started := None,
                              consecutive_successes := 0, last_change := now\<rparr>)
           else (None, m))
      | None \<Rightarrow>
          if consecutive_successes m \<ge> SUCCESS_THRESHOLD \<and> now - last_change m \<ge> MIN_CHANGE_INTERVAL \<and>
             effective_mtu m < target_mtu m
          then
            (let gap = target_mtu m - effective_mtu m;
                 candidate = min (effective_mtu m + step_up gap) (target_mtu m)
             in (None, m\<lparr>probe_candidate := Some candidate, probe_started := Some now, consecutive_successes := 0\<rparr>))
          else (None, m))"

definition record_path_failure :: "adaptive_mtu \<Rightarrow> instant \<Rightarrow> mtu_change_reason option \<times> adaptive_mtu" where
  "record_path_failure m0 now =
     (let m = m0\<lparr>consecutive_successes := 0\<rparr> in
      if probe_candidate m \<noteq> None then
        (Some ProbeReverted, m\<lparr>probe_candidate := None, probe_started := None, consecutive_failures := 0, last_change := now\<rparr>)
      else
        let m = m\<lparr>consecutive_failures := consecutive_failures m + 1\<rparr> in
        if consecutive_failures m \<ge> FAILURE_THRESHOLD \<and> now - last_change m \<ge> MIN_CHANGE_INTERVAL then
          (let reduced = max (step_down (effective_mtu m)) (minimum_mtu m);
               m1 = m\<lparr>consecutive_failures := 0, last_change := now\<rparr>
           in if reduced < effective_mtu m then (Some SustainedInstability, m1\<lparr>effective_mtu := reduced\<rparr>)
              else (None, m1))
        else (None, m))"

definition record_oversized :: "adaptive_mtu \<Rightarrow> nat \<Rightarrow> instant \<Rightarrow> mtu_change_reason option \<times> adaptive_mtu" where
  "record_oversized m0 attempted now =
     (let m = m0\<lparr>consecutive_failures := 0, consecutive_successes := 0, probe_candidate := None, probe_started := None\<rparr> in
      if now - last_change m < MIN_CHANGE_INTERVAL then (None, m)
      else
        let ceiling = max (attempted - 1) (minimum_mtu m);
            stepped = max (step_down (effective_mtu m)) (minimum_mtu m);
            reduced = max (min stepped ceiling) (minimum_mtu m);
            m1 = m\<lparr>last_change := now\<rparr>
        in if reduced < effective_mtu m then (Some PathMtuExceeded, m1\<lparr>effective_mtu := reduced\<rparr>) else (None, m1))"

section \<open>Invariant\<close>

definition mtu_inv :: "adaptive_mtu \<Rightarrow> bool" where
  "mtu_inv m \<longleftrightarrow>
     1 \<le> minimum_mtu m \<and> minimum_mtu m \<le> effective_mtu m \<and> effective_mtu m \<le> target_mtu m \<and>
     maximum_mtu m = target_mtu m \<and>
     (probe_candidate m = None \<longleftrightarrow> probe_started m = None) \<and>
     (\<forall>c. probe_candidate m = Some c \<longrightarrow> effective_mtu m < c \<and> c \<le> target_mtu m)"

inductive mtu_reach :: "adaptive_mtu \<Rightarrow> bool" where
  new: "mtu_reach (mtu_new target minimum now)"
| success: "mtu_reach m \<Longrightarrow> mtu_reach (snd (record_success m now))"
| failure: "mtu_reach m \<Longrightarrow> mtu_reach (snd (record_path_failure m now))"
| oversized: "mtu_reach m \<Longrightarrow> mtu_reach (snd (record_oversized m attempted now))"

lemma mtu_inv_new: "mtu_inv (mtu_new target minimum now)"
  by (auto simp: mtu_inv_def mtu_new_def Let_def)

lemma mtu_inv_success: "mtu_inv m \<Longrightarrow> mtu_inv (snd (record_success m now))"
  by (auto simp: mtu_inv_def record_success_def step_up_def Let_def split: option.splits)

lemma mtu_inv_failure: "mtu_inv m \<Longrightarrow> mtu_inv (snd (record_path_failure m now))"
  by (auto simp: mtu_inv_def record_path_failure_def Let_def)

lemma mtu_inv_oversized: "mtu_inv m \<Longrightarrow> mtu_inv (snd (record_oversized m attempted now))"
  by (auto simp: mtu_inv_def record_oversized_def Let_def)

lemmas mtu_inv_ops = mtu_inv_new mtu_inv_success mtu_inv_failure mtu_inv_oversized

lemma mtu_reach_inv: "mtu_reach m \<Longrightarrow> mtu_inv m"
  by (induction rule: mtu_reach.induct) (auto intro: mtu_inv_ops)

definition reason_exact :: "adaptive_mtu \<Rightarrow> mtu_change_reason option \<times> adaptive_mtu \<Rightarrow> bool" where
  "reason_exact m out \<longleftrightarrow>
     (effective_mtu m < effective_mtu (snd out) \<longleftrightarrow> fst out = Some ProbeUp) \<and>
     (effective_mtu (snd out) < effective_mtu m \<longleftrightarrow> fst out = Some PathMtuExceeded \<or> fst out = Some SustainedInstability)"

lemma reason_success: "mtu_inv m \<Longrightarrow> reason_exact m (record_success m now)"
  by (auto simp: reason_exact_def mtu_inv_def record_success_def Let_def split: option.splits)

lemma reason_failure: "reason_exact m (record_path_failure m now)"
  by (auto simp: reason_exact_def record_path_failure_def Let_def)

lemma reason_oversized: "reason_exact m (record_oversized m attempted now)"
  by (auto simp: reason_exact_def record_oversized_def Let_def)

section \<open>Properties\<close>

text \<open>
  Whatever successes, failures and rejected sizes are recorded, the effective MTU stays
  between the minimum and the configured target, and a probe always tries a size above the
  effective MTU and not above the target.
\<close>

theorem mtu_stays_in_bounds:
  assumes "mtu_reach m"
  shows "1 \<le> minimum_mtu m \<and> minimum_mtu m \<le> effective_mtu m \<and> effective_mtu m \<le> target_mtu m \<and>
    pred_option (\<lambda>c. effective_mtu m < c \<and> c \<le> target_mtu m) (probe_candidate m)"
  using mtu_reach_inv [OF assms] by (auto simp: mtu_inv_def option.pred_set)

theorem mtu_stays_in_bounds_witness:
  "effective_mtu (snd (record_oversized (mtu_new 1400 576 0) 1400 (secs 6))) \<le> 1400"
  using mtu_stays_in_bounds [OF mtu_reach.oversized [OF mtu_reach.new], of 1400 576 0 1400 "secs 6"]
  by (simp add: record_oversized_def mtu_new_def Let_def split: if_splits)

text \<open>
  The reason an operation reports tells exactly how it changed the effective MTU: it grows only
  by a confirmed probe, shrinks only when a size was rejected or failures persisted, and is
  unchanged otherwise.
\<close>

theorem mtu_reason_exact:
  assumes "mtu_reach m"
    and "op \<in> {record_success m now, record_path_failure m now, record_oversized m attempted now}"
  shows "(effective_mtu m < effective_mtu (snd op) \<longleftrightarrow> fst op = Some ProbeUp) \<and>
    (effective_mtu (snd op) < effective_mtu m \<longleftrightarrow> fst op = Some PathMtuExceeded \<or> fst op = Some SustainedInstability)"
  using assms(2) reason_success reason_failure reason_oversized mtu_reach_inv [OF assms(1)]
  by (elim insertE) (simp_all add: reason_exact_def)

theorem mtu_reason_exact_witness:
  "effective_mtu (snd (record_oversized (mtu_new 1400 576 0) 1400 (secs 6))) < 1400"
proof -
  let ?op = "record_oversized (mtu_new 1400 576 0) 1400 (secs 6)"
  have mem: "?op \<in> {record_success (mtu_new 1400 576 0) (secs 6), record_path_failure (mtu_new 1400 576 0) (secs 6), ?op}"
    by (rule insertI2, rule insertI2, rule insertI1)
  have fst: "fst ?op = Some PathMtuExceeded"
    by (simp add: record_oversized_def mtu_new_def step_down_def MIN_CHANGE_INTERVAL_def)
  have "effective_mtu (mtu_new 1400 576 0) = 1400" by (simp add: mtu_new_def)
  then show ?thesis using mtu_reason_exact [OF mtu_reach.new mem] fst by metis
qed

end
