(* ===== verification/Transport.thy ===== *)
theory Transport
  imports Transport_Base Mtu
begin

text \<open>
  The UDP transport of \<^verbatim>\<open>crates/rvpn-transport/src/transport.rs\<close> and the event loop of
  \<^verbatim>\<open>events.rs\<close>. The socket belongs to the operating system: what a system call returns is an argument,
  and a sending operation also returns the datagrams it hands to the socket. The clock reading
  and the random draw of the keepalive jitter are arguments as well.
\<close>

section \<open>State\<close>

record transport_packet =
  tp_peer :: socket_addr
  tp_payload :: bytes
  tp_received_at :: instant

record recv_meta =
  rm_peer :: socket_addr
  rm_len :: nat
  rm_received_at :: instant

record transport_tuning =
  tune_minimum_mtu :: "nat option"
  tune_keepalive_interval :: duration
  tune_receive_pool_size :: nat
  tune_keepalive_jitter_pct :: u8

definition tuning_default :: transport_tuning where
  "tuning_default = \<lparr>tune_minimum_mtu = None, tune_keepalive_interval = secs 25, tune_receive_pool_size = 8,
     tune_keepalive_jitter_pct = 20\<rparr>"

record udp_transport =
  t_config :: transport_config
  t_metrics :: transport_metrics
  t_mtu :: adaptive_mtu
  t_pool :: buffer_pool
  t_keepalive :: keepalive_scheduler

type_synonym wire = "(socket_addr option \<times> bytes) list"

section \<open>Opening\<close>

definition open_with_tuning ::
  "transport_config \<Rightarrow> transport_tuning \<Rightarrow> io_error + unit \<Rightarrow> io_error + unit \<Rightarrow> instant \<Rightarrow> u64 option \<Rightarrow>
   transport_error + udp_transport" where
  "open_with_tuning config tuning bind_result connect_result now draw =
     and_then (transport_config_validate config) (\<lambda>_.
     and_then (map_err Io bind_result) (\<lambda>_.
     and_then (case remote_address config of Some _ \<Rightarrow> map_err Io connect_result | None \<Rightarrow> Inr ()) (\<lambda>_.
       let target = max_datagram_size config;
           minimum = (case tune_minimum_mtu tuning of Some m \<Rightarrow> m | None \<Rightarrow> min target 576)
       in Inr \<lparr>t_config = config, t_metrics = metrics_new, t_mtu = mtu_new target minimum now,
               t_pool = pool_new (target + 1) (max (tune_receive_pool_size tuning) 1),
               t_keepalive = keepalive_with_jitter (tune_keepalive_interval tuning) (tune_keepalive_jitter_pct tuning) now draw\<rparr>)))"

section \<open>Sending\<close>

definition ensure_supported :: "send_options \<Rightarrow> transport_error + unit" where
  "ensure_supported opts = (if delivery opts \<noteq> UNRELIABLE then Inl UnsupportedDeliveryMode else Inr ())"

definition note_oversized :: "nat \<Rightarrow> instant \<Rightarrow> udp_transport \<Rightarrow> udp_transport" where
  "note_oversized attempted now t =
     (let (changed, m) = record_oversized (t_mtu t) attempted now;
          ms = record_dropped_oversized (t_metrics t)
      in t\<lparr>t_mtu := m, t_metrics := (if changed \<noteq> None then record_mtu_change ms else ms)\<rparr>)"

definition drop_if_oversized :: "bytes \<Rightarrow> instant \<Rightarrow> udp_transport \<Rightarrow> bool \<times> udp_transport" where
  "drop_if_oversized payload now t =
     (if length payload \<le> effective_mtu (t_mtu t) then (False, t)
      else (True, note_oversized (length payload) now t))"

definition on_send_success :: "nat \<Rightarrow> instant \<Rightarrow> u64 option \<Rightarrow> udp_transport \<Rightarrow> udp_transport" where
  "on_send_success n now draw t =
     (let ms = record_sent n (t_metrics t);
          (changed, m) = record_success (t_mtu t) now
      in t\<lparr>t_metrics := (if changed \<noteq> None then record_mtu_change ms else ms),
           t_keepalive := record_activity (t_keepalive t) now draw, t_mtu := m\<rparr>)"

definition EMSGSIZE :: int where "EMSGSIZE = 90"

definition is_message_too_long :: "io_error \<Rightarrow> bool" where
  "is_message_too_long err \<longleftrightarrow> err = Some EMSGSIZE"

definition on_send_error :: "io_error \<Rightarrow> nat \<Rightarrow> instant \<Rightarrow> udp_transport \<Rightarrow> transport_error \<times> udp_transport" where
  "on_send_error err attempted now t0 =
     (let t = t0\<lparr>t_metrics := record_send_error (t_metrics t0)\<rparr> in
      if is_message_too_long err then
        (let t1 = note_oversized attempted now t in (PathMtuExceededError attempted (effective_mtu (t_mtu t1)), t1))
      else (Io err, t))"

definition transmit ::
  "socket_addr option \<Rightarrow> bytes \<Rightarrow> (bytes \<Rightarrow> io_error + nat) \<Rightarrow> instant \<Rightarrow> u64 option \<Rightarrow> udp_transport \<Rightarrow>
   (transport_error + nat) \<times> wire \<times> udp_transport" where
  "transmit dest payload sock now draw t0 =
     (case drop_if_oversized payload now t0 of
        (True, t) \<Rightarrow> (Inr 0, [], t)
      | (False, t) \<Rightarrow>
          (case sock payload of
             Inr n \<Rightarrow> (Inr n, [(dest, payload)], on_send_success n now draw t)
           | Inl err \<Rightarrow> (let (te, t1) = on_send_error err (length payload) now t in (Inl te, [(dest, payload)], t1))))"

definition transport_send ::
  "bytes \<Rightarrow> send_options \<Rightarrow> (bytes \<Rightarrow> io_error + nat) \<Rightarrow> instant \<Rightarrow> u64 option \<Rightarrow> udp_transport \<Rightarrow>
   (transport_error + nat) \<times> wire \<times> udp_transport" where
  "transport_send payload opts sock now draw t =
     (case ensure_supported opts of
        Inl e \<Rightarrow> (Inl e, [], t)
      | Inr _ \<Rightarrow>
          if remote_address (t_config t) = None then (Inl MissingRemoteAddress, [], t)
          else transmit None payload sock now draw t)"

definition transport_send_to ::
  "socket_addr \<Rightarrow> bytes \<Rightarrow> send_options \<Rightarrow> (bytes \<Rightarrow> io_error + nat) \<Rightarrow> instant \<Rightarrow> u64 option \<Rightarrow> udp_transport \<Rightarrow>
   (transport_error + nat) \<times> wire \<times> udp_transport" where
  "transport_send_to peer payload opts sock now draw t =
     (case ensure_supported opts of
        Inl e \<Rightarrow> (Inl e, [], t)
      | Inr _ \<Rightarrow> transmit (Some peer) payload sock now draw t)"

definition report_path_failure :: "instant \<Rightarrow> udp_transport \<Rightarrow> udp_transport" where
  "report_path_failure now t = t\<lparr>t_mtu := snd (record_path_failure (t_mtu t) now)\<rparr>"

definition report_dropped_backpressure :: "udp_transport \<Rightarrow> udp_transport" where
  "report_dropped_backpressure t = t\<lparr>t_metrics := record_dropped_backpressure (t_metrics t)\<rparr>"

section \<open>Receiving\<close>

text \<open>One result of the socket: an error, or a datagram with its sender, of which the call reads
  as much as the buffer holds.\<close>

type_synonym recv_result = "io_error + bytes \<times> socket_addr"

definition receive_from ::
  "reserve_fn \<Rightarrow> recv_result \<Rightarrow> instant \<Rightarrow> udp_transport \<Rightarrow> (transport_error + transport_packet) \<times> udp_transport" where
  "receive_from rsv r now t =
     (let cap = pool_capacity (t_pool t); maximum = cap - 1;
          (buf, pool) = acquire rsv (t_pool t); t1 = t\<lparr>t_pool := pool\<rparr>
      in case r of
           Inl err \<Rightarrow> (Inl (Io err), t1)
         | Inr (datagram, peer) \<Rightarrow>
             (let data = take cap datagram in
              if length data > maximum then
                (Inl (DatagramTooLarge (length data) maximum),
                 t1\<lparr>t_pool := release (buf\<lparr>buf_len := cap\<rparr>) pool, t_metrics := record_dropped_oversized (t_metrics t1)\<rparr>)
              else
                (Inr \<lparr>tp_peer = peer, tp_payload = data, tp_received_at = now\<rparr>,
                 t1\<lparr>t_metrics := record_received (length data) (t_metrics t1)\<rparr>)))"

text \<open>The receive loop skips oversized datagrams. Its results are those the socket gives, in turn;
  None means that it is still waiting when they are used up.\<close>

fun transport_receive ::
  "reserve_fn \<Rightarrow> recv_result list \<Rightarrow> instant \<Rightarrow> u64 option \<Rightarrow> udp_transport \<Rightarrow>
   (transport_error + transport_packet) option \<times> udp_transport" where
  "transport_receive rsv [] now draw t = (None, t)"
| "transport_receive rsv (r # rs) now draw t =
     (case receive_from rsv r now t of
        (Inr p, t1) \<Rightarrow> (Some (Inr p), t1\<lparr>t_keepalive := record_activity (t_keepalive t1) now draw\<rparr>)
      | (Inl (DatagramTooLarge n m), t1) \<Rightarrow> transport_receive rsv rs now draw t1
      | (Inl e, t1) \<Rightarrow> (Some (Inl e), t1))"

text \<open>Receiving into the caller's buffer. Setting the length of a buffer beyond its capacity is
  undefined behaviour, \<open>Undefined\<close> below.\<close>

datatype into_result = Undefined | Pending | Failed transport_error | Received recv_meta

definition grow_buffer :: "reserve_fn \<Rightarrow> nat \<Rightarrow> bytes_mut \<Rightarrow> bytes_mut" where
  "grow_buffer rsv cap buf =
     (if buf_capacity buf < cap then buf_reserve rsv (cap - buf_capacity buf) buf else buf)"

fun receive_into_loop ::
  "nat \<Rightarrow> recv_result list \<Rightarrow> instant \<Rightarrow> u64 option \<Rightarrow> bytes_mut \<Rightarrow> udp_transport \<Rightarrow> into_result \<times> bytes_mut \<times> udp_transport" where
  "receive_into_loop maximum [] now draw buf t =
     (if buf_capacity buf < maximum + 1 then (Undefined, buf, t) else (Pending, buf\<lparr>buf_len := maximum + 1\<rparr>, t))"
| "receive_into_loop maximum (Inl err # rs) now draw buf t =
     (if buf_capacity buf < maximum + 1 then (Undefined, buf, t)
      else (Failed (Io err), buf\<lparr>buf_len := maximum + 1\<rparr>, t))"
| "receive_into_loop maximum (Inr (datagram, peer) # rs) now draw buf t =
     (if buf_capacity buf < maximum + 1 then (Undefined, buf, t)
      else
        let n = length (take (maximum + 1) datagram) in
        if n > maximum then
          receive_into_loop maximum rs now draw (buf\<lparr>buf_len := 0\<rparr>) (t\<lparr>t_metrics := record_dropped_oversized (t_metrics t)\<rparr>)
        else
          (Received \<lparr>rm_peer = peer, rm_len = n, rm_received_at = now\<rparr>, buf\<lparr>buf_len := n\<rparr>,
           t\<lparr>t_metrics := record_received n (t_metrics t), t_keepalive := record_activity (t_keepalive t) now draw\<rparr>))"

definition receive_into ::
  "reserve_fn \<Rightarrow> recv_result list \<Rightarrow> instant \<Rightarrow> u64 option \<Rightarrow> bytes_mut \<Rightarrow> udp_transport \<Rightarrow> into_result \<times> bytes_mut \<times> udp_transport" where
  "receive_into rsv rs now draw buf t =
     (let maximum = max_datagram_size (t_config t)
      in receive_into_loop maximum rs now draw (grow_buffer rsv (maximum + 1) buf) t)"

section \<open>Events\<close>

datatype transport_event =
    PacketReceived transport_packet
  | DatagramDropped nat nat
  | ReceiveFailed transport_error

definition next_event :: "reserve_fn \<Rightarrow> recv_result \<Rightarrow> instant \<Rightarrow> u64 option \<Rightarrow> udp_transport \<Rightarrow> transport_event \<times> udp_transport" where
  "next_event rsv r now draw t =
     (case receive_from rsv r now t of
        (Inr p, t1) \<Rightarrow> (PacketReceived p, t1\<lparr>t_keepalive := record_activity (t_keepalive t1) now draw\<rparr>)
      | (Inl (DatagramTooLarge n m), t1) \<Rightarrow> (DatagramDropped n m, t1)
      | (Inl e, t1) \<Rightarrow> (ReceiveFailed e, t1))"

text \<open>The task ends after a failed receive, or when the channel is closed, which it is after
  \<^verbatim>\<open>room\<close> events here.\<close>

fun event_loop :: "reserve_fn \<Rightarrow> recv_result list \<Rightarrow> nat \<Rightarrow> instant \<Rightarrow> u64 option \<Rightarrow> udp_transport \<Rightarrow> transport_event list \<times> udp_transport" where
  "event_loop rsv [] room now draw t = ([], t)"
| "event_loop rsv (r # rs) room now draw t =
     (let (ev, t1) = next_event rsv r now draw t in
      case room of
        0 \<Rightarrow> ([], t1)
      | Suc room' \<Rightarrow>
          (case ev of
             ReceiveFailed _ \<Rightarrow> ([ev], t1)
           | _ \<Rightarrow> (let (evs, t2) = event_loop rsv rs room' now draw t1 in (ev # evs, t2))))"

definition event_transport_new :: "nat \<Rightarrow> transport_error + unit" where
  "event_transport_new cap = (if cap = 0 then Inl InvalidEventCapacity else Inr ())"

section \<open>Invariant\<close>

definition t_inv :: "udp_transport \<Rightarrow> bool" where
  "t_inv t \<longleftrightarrow>
     mtu_inv (t_mtu t) \<and> target_mtu (t_mtu t) = max_datagram_size (t_config t) \<and>
     1 \<le> max_datagram_size (t_config t) \<and> max_datagram_size (t_config t) \<le> MAX_UDP_PAYLOAD_SIZE \<and>
     pool_inv (t_pool t) \<and> pool_capacity (t_pool t) = max_datagram_size (t_config t) + 1"

inductive transport_reach :: "udp_transport \<Rightarrow> bool" where
  opened: "open_with_tuning config tuning bind_result connect_result now draw = Inr t \<Longrightarrow> transport_reach t"
| send: "transport_reach t \<Longrightarrow> transport_send payload opts sock now draw t = (res, sent, t') \<Longrightarrow> transport_reach t'"
| send_to: "transport_reach t \<Longrightarrow> transport_send_to peer payload opts sock now draw t = (res, sent, t') \<Longrightarrow> transport_reach t'"
| path_failure: "transport_reach t \<Longrightarrow> transport_reach (report_path_failure now t)"
| backpressure: "transport_reach t \<Longrightarrow> transport_reach (report_dropped_backpressure t)"
| receive: "transport_reach t \<Longrightarrow> transport_receive rsv rs now draw t = (out, t') \<Longrightarrow> transport_reach t'"
| receive_into: "transport_reach t \<Longrightarrow> receive_into rsv rs now draw buf t = (out2, buf', t') \<Longrightarrow> transport_reach t'"
| event: "transport_reach t \<Longrightarrow> next_event rsv r now draw t = (ev, t') \<Longrightarrow> transport_reach t'"

lemma targets_kept:
  "target_mtu (snd (record_success m now)) = target_mtu m"
  "target_mtu (snd (record_oversized m n now)) = target_mtu m"
  "target_mtu (snd (record_path_failure m now)) = target_mtu m"
  by (auto simp: record_success_def record_oversized_def record_path_failure_def Let_def split: option.splits)

lemma new_parts: "target_mtu (mtu_new a b now) = max a 1" "pool_capacity (pool_new a b) = a"
  by (simp_all add: mtu_new_def pool_new_def Let_def)

lemma t_inv_opened: "open_with_tuning config tuning b c now draw = Inr t \<Longrightarrow> t_inv t"
  by (auto simp: open_with_tuning_def transport_config_validate_def t_inv_def mtu_inv_new pool_inv_new Let_def new_parts
      split: if_splits)

lemma t_inv_note_oversized: "t_inv t \<Longrightarrow> t_inv (note_oversized n now t)"
  using mtu_inv_oversized [of "t_mtu t" n now] targets_kept(2) [of "t_mtu t" n now]
  by (simp add: t_inv_def note_oversized_def Let_def case_prod_beta)

lemma t_inv_success: "t_inv t \<Longrightarrow> t_inv (on_send_success n now draw t)"
  using mtu_inv_success [of "t_mtu t" now] targets_kept(1) [of "t_mtu t" now]
  by (simp add: t_inv_def on_send_success_def Let_def case_prod_beta)

lemma t_inv_metrics: "t_inv (t\<lparr>t_metrics := ms\<rparr>) = t_inv t" "t_inv (t\<lparr>t_keepalive := k\<rparr>) = t_inv t"
  by (simp_all add: t_inv_def)

lemma t_inv_error: "t_inv t \<Longrightarrow> t_inv (snd (on_send_error err n now t))"
  by (auto simp: on_send_error_def Let_def t_inv_metrics intro: t_inv_note_oversized)

lemma t_inv_transmit: "t_inv t \<Longrightarrow> transmit dest payload sock now draw t = (res, sent, t') \<Longrightarrow> t_inv t'"
  using t_inv_error [of t _ "length payload" now]
  by (auto simp: transmit_def drop_if_oversized_def t_inv_note_oversized t_inv_success
      split: if_splits sum.splits prod.splits) (metis snd_conv)

lemma transmit_wire: "transmit dest payload sock now draw t = (res, sent, t') \<Longrightarrow>
  sent = (if length payload \<le> effective_mtu (t_mtu t) then [(dest, payload)] else [])"
  by (auto simp: transmit_def drop_if_oversized_def Let_def split: if_splits sum.splits prod.splits)

lemma t_inv_receive_from:
  assumes "t_inv t" and "receive_from rsv r now t = (res, t')"
  shows "t_inv t'" and "t_config t' = t_config t"
proof -
  have "pool_inv (t_pool t)" using assms(1) by (simp add: t_inv_def)
  from acquire_spec [OF this, of rsv] assms
  show "t_inv t'" "t_config t' = t_config t"
    by (auto simp: receive_from_def Let_def t_inv_def pool_inv_release split: sum.splits prod.splits if_splits)
qed

lemma t_inv_receive: "t_inv t \<Longrightarrow> transport_receive rsv rs now draw t = (res, t') \<Longrightarrow> t_inv t'"
proof (induction rsv rs now draw t arbitrary: res rule: transport_receive.induct)
  case (2 rsv r rs now draw t)
  obtain r1 t1 where f: "receive_from rsv r now t = (r1, t1)" by fastforce
  note t1 = t_inv_receive_from [OF 2(2) f]
  show ?case using 2 f t1 by (auto simp: t_inv_metrics split: sum.splits transport_error.splits)
qed simp

lemma t_inv_into_loop: "t_inv t \<Longrightarrow> receive_into_loop maximum rs now draw buf t = (res, buf', t') \<Longrightarrow> t_inv t'"
  by (induction maximum rs now draw buf t rule: receive_into_loop.induct)
     (auto simp: Let_def t_inv_metrics split: if_splits)

lemma transport_reach_inv: "transport_reach t \<Longrightarrow> t_inv t"
proof (induction rule: transport_reach.induct)
  case (path_failure t now)
  then show ?case using mtu_inv_failure [of "t_mtu t" now] targets_kept(3) [of "t_mtu t" now]
    by (simp add: t_inv_def report_path_failure_def)
next
  case (event t rsv r now draw ev t')
  obtain r1 t1 where f: "receive_from rsv r now t = (r1, t1)" by fastforce
  note t1 = t_inv_receive_from [OF event.IH f]
  show ?case using event f t1 by (auto simp: next_event_def t_inv_metrics split: sum.splits transport_error.splits)
qed (auto simp: t_inv_opened transport_send_def transport_send_to_def report_dropped_backpressure_def t_inv_metrics
  receive_into_def Let_def dest: t_inv_transmit t_inv_receive t_inv_into_loop split: sum.splits if_splits)

lemma receive_from_big:
  assumes "t_inv t" and "length d > max_datagram_size (t_config t)"
  obtains n m t1 where "receive_from rsv (Inr (d, peer)) now t = (Inl (DatagramTooLarge n m), t1)" "t_inv t1"
    "t_config t1 = t_config t" "packets_dropped_oversized (t_metrics t1) = packets_dropped_oversized (t_metrics t) + 1"
proof -
  obtain r t1 where f: "receive_from rsv (Inr (d, peer)) now t = (r, t1)" by fastforce
  have cap: "pool_capacity (t_pool t) = max_datagram_size (t_config t) + 1" using assms(1) by (simp add: t_inv_def)
  show thesis using that [of _ _ t1] t_inv_receive_from [OF assms(1) f] f assms(2) cap
    by (auto simp: receive_from_def Let_def record_dropped_oversized_def split: prod.splits)
qed

lemma receive_from_fits:
  assumes "t_inv t" and "length d \<le> max_datagram_size (t_config t)"
  obtains t1 where "receive_from rsv (Inr (d, peer)) now t = (Inr \<lparr>tp_peer = peer, tp_payload = d, tp_received_at = now\<rparr>, t1)"
    "packets_dropped_oversized (t_metrics t1) = packets_dropped_oversized (t_metrics t)"
proof -
  have cap: "pool_capacity (t_pool t) = max_datagram_size (t_config t) + 1" using assms(1) by (simp add: t_inv_def)
  obtain buf pool where "acquire rsv (t_pool t) = (buf, pool)" by fastforce
  then show thesis using that assms(2) cap
    by (simp add: receive_from_def Let_def record_received_def)
qed

lemma receive_skips:
  assumes "t_inv t" and "\<forall>(d, _) \<in> set big. length d > max_datagram_size (t_config t)"
    and "length datagram \<le> max_datagram_size (t_config t)"
  shows "\<exists>t'. transport_receive rsv (map Inr big @ [Inr (datagram, peer)]) now draw t =
      (Some (Inr \<lparr>tp_peer = peer, tp_payload = datagram, tp_received_at = now\<rparr>), t') \<and>
    packets_dropped_oversized (t_metrics t') = packets_dropped_oversized (t_metrics t) + of_nat (length big)"
  using assms
proof (induction big arbitrary: t)
  case Nil
  obtain t1 where "receive_from rsv (Inr (datagram, peer)) now t =
      (Inr \<lparr>tp_peer = peer, tp_payload = datagram, tp_received_at = now\<rparr>, t1)"
    "packets_dropped_oversized (t_metrics t1) = packets_dropped_oversized (t_metrics t)"
    using receive_from_fits [OF Nil(1,3)] by metis
  then show ?case by simp
next
  case (Cons b big)
  obtain d a where b: "b = (d, a)" by fastforce
  have "length d > max_datagram_size (t_config t)" using Cons.prems(2) b by simp
  from receive_from_big [OF Cons.prems(1) this, of rsv a now] obtain n m t1 where
    f: "receive_from rsv (Inr (d, a)) now t = (Inl (DatagramTooLarge n m), t1)" "t_inv t1" "t_config t1 = t_config t"
      "packets_dropped_oversized (t_metrics t1) = packets_dropped_oversized (t_metrics t) + 1" by metis
  from Cons.IH [OF f(2)] Cons.prems f show ?case by (auto simp: b)
qed

section \<open>Properties\<close>

text \<open>
  No operation hands the socket a datagram above the effective MTU, which never exceeds the configured
  maximum; a larger payload is dropped with result 0, and a delivery mode other than unreliable and
  unordered is refused, in both cases without using the socket.
\<close>

theorem transport_send_bounds:
  assumes "transport_reach t"
    and "(transport_send payload opts sock now draw t = (res, sent, t') \<and> remote_address (t_config t) \<noteq> None) \<or>
      transport_send_to peer payload opts sock now draw t = (res, sent, t')"
  shows "(\<forall>(dest, d) \<in> set sent. d = payload \<and> length d \<le> max_datagram_size (t_config t)) \<and>
    max_datagram_size (t_config t) \<le> 65507 \<and>
    (delivery opts \<noteq> UNRELIABLE \<longrightarrow> res = Inl UnsupportedDeliveryMode \<and> sent = []) \<and>
    (delivery opts = UNRELIABLE \<and> length payload > effective_mtu (t_mtu t) \<longrightarrow> res = Inr 0 \<and> sent = []) \<and>
    (delivery opts = UNRELIABLE \<and> length payload \<le> effective_mtu (t_mtu t) \<longrightarrow> map snd sent = [payload])"
proof -
  have inv: "t_inv t" by (rule transport_reach_inv [OF assms(1)])
  then have eff: "effective_mtu (t_mtu t) \<le> max_datagram_size (t_config t)" "max_datagram_size (t_config t) \<le> 65507"
    by (auto simp: t_inv_def mtu_inv_def MAX_UDP_PAYLOAD_SIZE_def)
  obtain dest where d: "(case ensure_supported opts of Inl e \<Rightarrow> (Inl e, [], t) | Inr _ \<Rightarrow> transmit dest payload sock now draw t) = (res, sent, t')"
    using assms(2) by (auto simp: transport_send_def transport_send_to_def split: sum.splits)
  show ?thesis
  proof (cases "delivery opts = UNRELIABLE")
    case True
    then have tr: "transmit dest payload sock now draw t = (res, sent, t')" using d by (simp add: ensure_supported_def)
    have "res = Inr 0" if "length payload > effective_mtu (t_mtu t)"
      using tr that by (simp add: transmit_def drop_if_oversized_def)
    then show ?thesis using transmit_wire [OF tr] True eff by auto
  qed (use d eff in \<open>auto simp: ensure_supported_def\<close>)
qed

text \<open>
  Receiving skips datagrams above the configured maximum, counting each of them, and returns the first
  datagram that fits, whole and with its sender.
\<close>

theorem transport_receive_skips_oversized:
  assumes "transport_reach t" and "\<forall>(d, _) \<in> set big. length d > max_datagram_size (t_config t)"
    and "length datagram \<le> max_datagram_size (t_config t)"
  shows "fst (transport_receive rsv (map Inr big @ [Inr (datagram, peer)]) now draw t) =
      Some (Inr \<lparr>tp_peer = peer, tp_payload = datagram, tp_received_at = now\<rparr>) \<and>
    packets_dropped_oversized (t_metrics (snd (transport_receive rsv (map Inr big @ [Inr (datagram, peer)]) now draw t))) =
      packets_dropped_oversized (t_metrics t) + of_nat (length big)"
  using receive_skips [OF transport_reach_inv [OF assms(1)] assms(2,3), of rsv peer now draw] by auto

text \<open>
  Receiving into a caller's buffer can set the length of the buffer beyond its capacity: the space that
  is missing is reserved relative to the capacity, but \<^verbatim>\<open>reserve\<close> counts from the length. With a maximum of 1200
  bytes, an empty buffer with room for 800 bytes may keep its 800 bytes, and the 1201 bytes of the call overrun it.
\<close>

theorem receive_into_overruns:
  "reserve_contract (\<lambda>len cap additional. max cap (len + additional)) \<and>
   fst (receive_into (\<lambda>len cap additional. max cap (len + additional)) rs now draw \<lparr>buf_len = 0, buf_capacity = 800\<rparr>
     (t\<lparr>t_config := (t_config t)\<lparr>max_datagram_size := 1200\<rparr>\<rparr>)) = Undefined"
proof
  show "reserve_contract (\<lambda>len cap additional. max cap (len + additional))" by (simp add: reserve_contract_def)
  have loop: "fst (receive_into_loop 1200 rs now draw buf t) = Undefined" if "buf_capacity buf < 1201" for buf t
    using that by (cases "(1200 :: nat, rs, now, draw, buf, t)" rule: receive_into_loop.cases) auto
  show "fst (receive_into (\<lambda>len cap additional. max cap (len + additional)) rs now draw \<lparr>buf_len = 0, buf_capacity = 800\<rparr>
     (t\<lparr>t_config := (t_config t)\<lparr>max_datagram_size := 1200\<rparr>\<rparr>)) = Undefined"
    by (simp add: receive_into_def grow_buffer_def buf_reserve_def loop)
qed

definition ex_peer :: socket_addr where "ex_peer = SockV4 1 9000"

definition ex_transport :: udp_transport where
  "ex_transport = (case open_with_tuning ((transport_config_new ex_peer)\<lparr>max_datagram_size := 4\<rparr>) tuning_default (Inr ()) (Inr ()) 0 None of
     Inr t \<Rightarrow> t | Inl _ \<Rightarrow> \<lparr>t_config = transport_config_new ex_peer, t_metrics = metrics_new, t_mtu = mtu_new 1 1 0, t_pool = pool_new 1 1,
       t_keepalive = keepalive_new 0 0\<rparr>)"

lemma ex_transport_reach: "transport_reach ex_transport"
proof -
  have "open_with_tuning ((transport_config_new ex_peer)\<lparr>max_datagram_size := 4\<rparr>) tuning_default (Inr ()) (Inr ()) 0 None = Inr ex_transport"
    by (simp add: ex_transport_def open_with_tuning_def transport_config_validate_def transport_config_new_def MAX_UDP_PAYLOAD_SIZE_def Let_def)
  then show ?thesis by (rule transport_reach.opened)
qed

definition ex_opts :: send_options where
  "ex_opts = \<lparr>delivery = UNRELIABLE, priority = Normal, timeout = None, max_retries = None\<rparr>"

lemma ex_opts_unreliable: "delivery ex_opts = UNRELIABLE" by (simp add: ex_opts_def)

lemma ex_transport_parts: "max_datagram_size (t_config ex_transport) = 4" "effective_mtu (t_mtu ex_transport) = 4"
  by (simp_all add: ex_transport_def open_with_tuning_def transport_config_validate_def transport_config_new_def
      MAX_UDP_PAYLOAD_SIZE_def Let_def mtu_new_def)

theorem transport_send_bounds_witness:
  "fst (snd (transport_send_to ex_peer [1, 2, 3, 4, 5] ex_opts (\<lambda>d. Inr (length d)) 0 None ex_transport)) = [] \<and>
   map snd (fst (snd (transport_send_to ex_peer [1, 2, 3] ex_opts (\<lambda>d. Inr (length d)) 0 None ex_transport))) = [[1, 2, 3]]"
proof
  obtain r1 s1 t1 where 1: "transport_send_to ex_peer [1, 2, 3, 4, 5] ex_opts (\<lambda>d. Inr (length d)) 0 None ex_transport = (r1, s1, t1)"
    by (metis surj_pair)
  obtain r2 s2 t2 where 2: "transport_send_to ex_peer [1, 2, 3] ex_opts (\<lambda>d. Inr (length d)) 0 None ex_transport = (r2, s2, t2)"
    by (metis surj_pair)
  show "fst (snd (transport_send_to ex_peer [1, 2, 3, 4, 5] ex_opts (\<lambda>d. Inr (length d)) 0 None ex_transport)) = []"
    using transport_send_bounds [OF ex_transport_reach disjI2 [OF 1]] by (simp add: 1 ex_opts_unreliable ex_transport_parts)
  show "map snd (fst (snd (transport_send_to ex_peer [1, 2, 3] ex_opts (\<lambda>d. Inr (length d)) 0 None ex_transport))) = [[1, 2, 3]]"
    using transport_send_bounds [OF ex_transport_reach disjI2 [OF 2]] by (simp add: 2 ex_opts_unreliable ex_transport_parts)
qed

theorem transport_receive_skips_oversized_witness:
  "fst (transport_receive (\<lambda>len cap n. max cap (len + n)) (map Inr [(replicate 9 0, ex_peer)] @ [Inr ([7, 8], ex_peer)]) 3 None ex_transport) =
     Some (Inr \<lparr>tp_peer = ex_peer, tp_payload = [7, 8], tp_received_at = 3\<rparr>)"
  using transport_receive_skips_oversized [OF ex_transport_reach, of "[(replicate 9 0, ex_peer)]" "[7, 8]" "\<lambda>len cap n. max cap (len + n)" ex_peer 3 None]
  by (simp add: ex_transport_parts)

end
