(* ===== verification/Server_Tunnel.thy ===== *)
theory Server_Tunnel
  imports Server_Handshake Router Fair_Queue Transport
begin

text \<open>
  The server's data plane, \<^verbatim>\<open>apps/rvpn-server/src/tunnel.rs\<close> without its event loop: sealing and queueing
  for a peer, routing a decrypted packet, registering sessions with the router, and the link policy of a configuration.
  Calls that leave the server state are returned in order as effects: a datagram given to the UDP
  transport, a drop reported to it, a packet written to the local TUN or TAP device. Errors of those calls are only
  logged. One clock reading serves a whole handler.
\<close>

section \<open>Sending to a peer\<close>

datatype effect =
    Wire socket_addr bytes
  | DroppedBackpressure
  | ToTun bytes
  | ToTap bytes
  | KeepaliveSent

abbreviation wires :: "outgoing \<Rightarrow> effect list" where
  "wires out \<equiv> map (\<lambda>(endpoint, bs). Wire endpoint bs) out"

text \<open>What does not change while the server runs. The hash function of the standard library is the field
  \<open>se_hasher\<close>: what was hashed before, then a name and its networks.\<close>

record 'n server_env =
  se_prims :: prims
  se_parsers :: "'n parsers"
  se_ops :: "'n net_ops"
  se_hasher :: "bytes \<Rightarrow> string \<Rightarrow> 'n list \<Rightarrow> u64"
  se_obfuscation :: "bytes option"
  se_cookie_key :: bytes
  se_tun :: bool
  se_tap :: bool
  se_packet_limit :: u64
  se_time_limit :: "duration option"
  se_grace :: duration
  se_rx_rate :: nat
  se_idle_timeout :: "duration option"

definition peer_queue_key :: "'n server_env \<Rightarrow> 'n peer_identity \<Rightarrow> bytes" where
  "peer_queue_key env identity =
     to_be 8 (se_hasher env [] (pi_name identity) (pi_allowed_ips identity)) @
     to_be 8 (se_hasher env [1] (pi_name identity) (pi_allowed_ips identity))"

text \<open>Sending one datagram on the transport; a path failure the socket reports lowers the path MTU.\<close>

definition options_default :: send_options where
  "options_default = \<lparr>delivery = UNRELIABLE, priority = Normal, timeout = None, max_retries = None\<rparr>"

definition send_wire ::
  "socket_addr \<Rightarrow> bytes \<Rightarrow> (bytes \<Rightarrow> io_error + nat) \<Rightarrow> instant \<Rightarrow> u64 option \<Rightarrow> udp_transport \<Rightarrow>
   (transport_error + nat) \<times> wire \<times> udp_transport" where
  "send_wire peer bs sock now draw t =
     (case transport_send_to peer bs options_default sock now draw t of
        (Inr n, out, t1) \<Rightarrow> (Inr n, out, t1)
      | (Inl (PathMtuExceededError attempted mtu), out, t1) \<Rightarrow>
          (Inl (PathMtuExceededError attempted mtu), out, report_path_failure now t1)
      | (Inl e, out, t1) \<Rightarrow> (Inl e, out, t1))"

definition is_data :: "packet_kind \<Rightarrow> bool" where
  "is_data k \<longleftrightarrow> k = Data \<or> k = DataTap"

definition seal_and_queue ::
  "'n server_env \<Rightarrow> obf_draw \<Rightarrow> instant \<Rightarrow> packet_kind \<Rightarrow> bytes \<Rightarrow> 'n active_peer \<Rightarrow> outbound_queue \<Rightarrow>
   nat option \<times> effect list \<times> 'n active_peer \<times> outbound_queue" where
  "seal_and_queue env draw now k plaintext peer q =
     (case session_seal (se_prims env) (ap_session peer) k plaintext of
        (Inl _, s) \<Rightarrow> (None, [], peer\<lparr>ap_session := s\<rparr>, q)
      | (Inr pkt, s) \<Rightarrow>
          (let peer = peer\<lparr>ap_session := s\<rparr> in
           case wrap_wire (se_prims env) (se_obfuscation env) draw (packet_encode pkt) of
             Inl _ \<Rightarrow> (None, [], peer, q)
           | Inr bs \<Rightarrow>
               (case try_enqueue_for_peer q (peer_queue_key env (ap_identity peer)) (ap_endpoint peer) bs now of
                  (Inl _, q1) \<Rightarrow>
                    (None, [DroppedBackpressure],
                     if is_data k then peer\<lparr>ap_stats := record_tx_queue_drop (ap_stats peer)\<rparr> else peer, q1)
                | (Inr _, q1) \<Rightarrow> (Some (length bs), [], peer, q1))))"

definition maybe_rekey :: "'n server_env \<Rightarrow> obf_draw \<Rightarrow> instant \<Rightarrow> 'n active_peer \<Rightarrow> effect list \<times> 'n active_peer" where
  "maybe_rekey env draw now peer =
     (case maybe_send_rekey (se_prims env) (se_obfuscation env) draw peer (se_packet_limit env) (se_time_limit env) now of
        (_, out, peer1) \<Rightarrow> (wires out, peer1))"

definition send_to ::
  "'n server_env \<Rightarrow> (nat \<Rightarrow> obf_draw) \<Rightarrow> nat \<Rightarrow> instant \<Rightarrow> session_id \<Rightarrow> packet_kind \<Rightarrow> bytes \<Rightarrow>
   'n active_map \<Rightarrow> outbound_queue \<Rightarrow> effect list \<times> 'n active_map \<times> outbound_queue" where
  "send_to env draws i now sid k plaintext active q =
     (case map_of active sid of
        None \<Rightarrow> ([], active, q)
      | Some peer \<Rightarrow>
          (let (out1, peer1) = maybe_rekey env (draws (2 * i)) now peer;
               (sent, out2, peer2, q1) = seal_and_queue env (draws (2 * i + 1)) now k plaintext peer1 q;
               peer3 = (case sent of
                          Some n \<Rightarrow> peer2\<lparr>ap_stats := record_tx (length plaintext) n (ap_stats peer2)\<rparr>
                        | None \<Rightarrow> peer2)
           in (out1 @ out2, update_peer sid (\<lambda>_. peer3) active, q1)))"

definition inject_ip :: "'n server_env \<Rightarrow> bytes \<Rightarrow> effect list" where
  "inject_ip env pkt = (if se_tun env then [ToTun pkt] else [])"

definition inject_frame :: "'n server_env \<Rightarrow> bytes \<Rightarrow> effect list" where
  "inject_frame env frame = (if se_tap env then [ToTap frame] else if se_tun env then [ToTun frame] else [])"

section \<open>Routing a decrypted packet\<close>

fun send_targets ::
  "'n server_env \<Rightarrow> (nat \<Rightarrow> obf_draw) \<Rightarrow> nat \<Rightarrow> instant \<Rightarrow> packet_kind \<Rightarrow> bytes \<Rightarrow> session_id list \<Rightarrow>
   'n active_map \<Rightarrow> outbound_queue \<Rightarrow> effect list \<times> 'n active_map \<times> outbound_queue" where
  "send_targets env draws i now k plaintext [] active q = ([], active, q)"
| "send_targets env draws i now k plaintext (target # rest) active q =
     (case (if k = DataTap then Some (DataTap, plaintext) else map_option (\<lambda>forwarded. (Data, forwarded)) (prepare_forward plaintext)) of
        None \<Rightarrow> send_targets env draws (i + 1) now k plaintext rest active q
      | Some (k', bs) \<Rightarrow>
          (let (out1, active1, q1) = send_to env draws i now target k' bs active q;
               (out2, active2, q2) = send_targets env draws (i + 1) now k plaintext rest active1 q1
           in (out1 @ out2, active2, q2)))"

definition routed :: "'n server_env \<Rightarrow> 'n router \<Rightarrow> session_id \<Rightarrow> packet_kind \<Rightarrow> bytes \<Rightarrow> verdict \<times> 'n router" where
  "routed env router sid k plaintext =
     (if k = DataTap then route_frame (se_ops env) router sid plaintext else (route_ip (se_ops env) router sid plaintext, router))"

definition injected :: "'n server_env \<Rightarrow> packet_kind \<Rightarrow> delivery \<Rightarrow> bytes \<Rightarrow> effect list" where
  "injected env k d plaintext =
     (if del_local d then if k = DataTap then inject_frame env plaintext else inject_ip env plaintext else [])"

definition rx_charge :: "nat \<Rightarrow> instant \<Rightarrow> 'n active_peer \<Rightarrow> bool \<times> 'n active_peer" where
  "rx_charge n now peer = (let (ok, l) = limiter_allow (ap_rx_limiter peer) n now in (ok, peer\<lparr>ap_rx_limiter := l\<rparr>))"

definition route_inbound ::
  "'n server_env \<Rightarrow> (nat \<Rightarrow> obf_draw) \<Rightarrow> instant \<Rightarrow> session_id \<Rightarrow> packet_kind \<Rightarrow> bytes \<Rightarrow> nat \<Rightarrow>
   'n router \<Rightarrow> 'n active_map \<Rightarrow> outbound_queue \<Rightarrow> effect list \<times> 'n router \<times> 'n active_map \<times> outbound_queue" where
  "route_inbound env draws now sid k plaintext wire_bytes router active q =
     (let (verdict, router1) = routed env router sid k plaintext in
      case verdict of
        Drop _ \<Rightarrow> ([], router1, update_peer sid (\<lambda>peer. peer\<lparr>ap_stats := record_drop (ap_stats peer)\<rparr>) active, q)
      | Forward d \<Rightarrow>
          (let allowed = (case map_of active sid of Some peer \<Rightarrow> fst (rx_charge (length plaintext) now peer) | None \<Rightarrow> True);
               active1 = update_peer sid (\<lambda>peer. snd (rx_charge (length plaintext) now peer)) active
           in if \<not> allowed then
                ([], router1, update_peer sid (\<lambda>peer. peer\<lparr>ap_stats := record_rx_limited_drop (ap_stats peer)\<rparr>) active1, q)
              else
                let active2 = update_peer sid (\<lambda>peer. peer\<lparr>ap_stats := record_rx (length plaintext) wire_bytes (ap_stats peer)\<rparr>) active1;
                    (out, active3, q1) = send_targets env draws 0 now k plaintext (del_peers d) active2 q
                in (out @ injected env k d plaintext, router1, active3, q1)))"

section \<open>Registration and links\<close>

definition register_new_peers :: "'n net_ops \<Rightarrow> 'n active_map \<Rightarrow> 'n router \<Rightarrow> 'n router" where
  "register_new_peers ops active router =
     fold (\<lambda>(sid, peer) r.
        if router_contains r sid then r
        else register ops r sid (pi_name (ap_identity peer)) (pi_allowed_ips (ap_identity peer))) active router"

fun symmetric_pairs :: "string list \<Rightarrow> (string \<times> string) list" where
  "symmetric_pairs [] = []"
| "symmetric_pairs (a # rest) = concat (map (\<lambda>b. [(a, b), (b, a)]) rest) @ symmetric_pairs rest"

definition link_pairs :: "link_config \<Rightarrow> (string \<times> string) list" where
  "link_pairs link =
     symmetric_pairs (between link) @
     concat (map (\<lambda>transmitter. map (\<lambda>receiver. (transmitter, receiver)) (receivers link)) (transmitters link))"

definition links_for_config :: "server_config \<Rightarrow> links" where
  "links_for_config config = links_from_directed_pairs (concat (map link_pairs (sc_links config)))"

section \<open>Closing\<close>

text \<open>\<^verbatim>\<open>close_all\<close> of \<^verbatim>\<open>state.rs\<close>: every session seals a close packet; one that cannot be obfuscated goes out plain.\<close>

definition close_peer :: "'n server_env \<Rightarrow> obf_draw \<Rightarrow> 'n active_peer \<Rightarrow> effect list \<times> 'n active_peer" where
  "close_peer env draw peer =
     (case session_seal (se_prims env) (ap_session peer) Close [] of
        (Inl _, s) \<Rightarrow> ([], peer\<lparr>ap_session := s\<rparr>)
      | (Inr pkt, s) \<Rightarrow>
          (let plain = packet_encode pkt;
               bs = (case wrap_wire (se_prims env) (se_obfuscation env) draw plain of Inl _ \<Rightarrow> plain | Inr w \<Rightarrow> w)
           in ([Wire (ap_endpoint peer) bs], peer\<lparr>ap_session := s\<rparr>)))"

fun for_peers :: "(nat \<Rightarrow> 'n active_peer \<Rightarrow> effect list \<times> 'n active_peer) \<Rightarrow> nat \<Rightarrow> 'n active_map \<Rightarrow> effect list \<times> 'n active_map" where
  "for_peers f i [] = ([], [])"
| "for_peers f i ((sid, peer) # rest) =
     (let (out1, peer1) = f i peer; (out2, rest1) = for_peers f (i + 1) rest in (out1 @ out2, (sid, peer1) # rest1))"

definition close_all :: "'n server_env \<Rightarrow> (nat \<Rightarrow> obf_draw) \<Rightarrow> 'n active_map \<Rightarrow> effect list \<times> 'n active_map" where
  "close_all env draws active = for_peers (\<lambda>i peer. close_peer env (draws i) peer) 0 active"

section \<open>Sessions keep their peers\<close>

text \<open>What handling traffic leaves alone: which sessions exist, whose they are and where they send to.\<close>

definition same_owner :: "'n active_peer \<Rightarrow> 'n active_peer \<Rightarrow> bool" where
  "same_owner a b \<longleftrightarrow>
     ap_identity b = ap_identity a \<and> ps_session_id (ap_session b) = ps_session_id (ap_session a) \<and> ap_endpoint b = ap_endpoint a"

definition evolves :: "'n active_map \<Rightarrow> 'n active_map \<Rightarrow> bool" where
  "evolves active active' \<longleftrightarrow> map fst active' = map fst active \<and> rel_fun (=) (rel_option same_owner) (map_of active) (map_of active')"

lemma same_owner_refl [simp]: "same_owner a a"
  by (simp add: same_owner_def)

lemma same_owner_trans: "same_owner a b \<Longrightarrow> same_owner b c \<Longrightarrow> same_owner a c"
  by (simp add: same_owner_def)

lemma evolves_refl [simp]: "evolves active active"
  by (simp add: evolves_def rel_fun_def option.rel_refl)

lemma evolves_trans: "evolves a b \<Longrightarrow> evolves b c \<Longrightarrow> evolves a c"
proof -
  have "transp (rel_option same_owner)" by (rule option.rel_transp) (rule transpI, rule same_owner_trans)
  then show "evolves a b \<Longrightarrow> evolves b c \<Longrightarrow> evolves a c" by (auto simp: evolves_def rel_fun_def dest: transpD)
qed

lemma evolves_keys: "evolves active active' \<Longrightarrow> map_of active' i = None \<longleftrightarrow> map_of active i = None"
  by (auto simp: evolves_def map_of_eq_None_iff simp flip: set_map)

lemma evolvesD: "evolves active active' \<Longrightarrow> map_of active i = Some a \<Longrightarrow> \<exists>b. map_of active' i = Some b \<and> same_owner a b"
  by (auto simp: evolves_def rel_fun_def option_rel_Some1 dest!: spec [of _ i])

lemma evolvesD2: "evolves active active' \<Longrightarrow> map_of active' i = Some b \<Longrightarrow> \<exists>a. map_of active i = Some a \<and> same_owner a b"
  by (auto simp: evolves_def rel_fun_def option_rel_Some2 dest!: spec [of _ i])

lemma evolves_active_inv: "evolves active active' \<Longrightarrow> active_inv active \<Longrightarrow> active_inv active'"
proof (rule active_inv_map)
  assume e: "evolves active active'"
  then show "map fst active' = map fst active" by (simp add: evolves_def)
  show "\<exists>a. map_of active i = Some a \<and> ap_identity a' = ap_identity a \<and> ps_session_id (ap_session a') = ps_session_id (ap_session a)"
    if "map_of active' i = Some a'" for i a'
    using evolvesD2 [OF e that] by (auto simp: same_owner_def)
qed

lemma evolves_update_peer:
  assumes "\<And>peer. map_of active sid = Some peer \<Longrightarrow> same_owner peer (f peer)"
  shows "evolves active (update_peer sid f active)"
  using assms by (auto simp: evolves_def rel_fun_def map_of_update_peer rel_option_iff split: option.splits)

lemma seal_session_id [simp]: "ps_session_id (snd (session_seal p s k m)) = ps_session_id s"
  by (auto simp: session_seal_def Let_def split: sum.splits)

lemma seal_keeps_id: "session_seal p s k m = (r, s') \<Longrightarrow> ps_session_id s' = ps_session_id s"
  using seal_session_id [of p s k m] by simp

lemma open_session_id [simp]: "ps_session_id (snd (session_open p s pkt now)) = ps_session_id s"
  by (auto simp: session_open_def split: sum.splits option.splits prod.splits)

lemma maybe_rekey_spec:
  assumes "maybe_rekey env draw now peer = (out, peer')"
  shows "same_owner peer peer'" and "e \<in> set out \<Longrightarrow> \<exists>bs. e = Wire (ap_endpoint peer) bs"
  using assms
  by (auto simp: maybe_rekey_def maybe_send_rekey_def same_owner_def hs_send_wire_def seal_keeps_id
      split: prod.splits if_splits sum.splits)

lemma seal_and_queue_spec:
  assumes "seal_and_queue env draw now k plaintext peer q = (sent, out, peer', q')" and "fq_inv q"
  shows "same_owner peer peer'" and "set out \<subseteq> {DroppedBackpressure}" and "fq_inv q'"
    and "\<exists>new. queue_items q' key = queue_items q key @ new \<and>
      (\<forall>d \<in> set new. \<exists>bs. d = (Stable (peer_queue_key env (ap_identity peer)), ap_endpoint peer, bs))"
proof -
  have "same_owner peer peer' \<and> set out \<subseteq> {DroppedBackpressure} \<and> fq_inv q' \<and>
     (\<exists>new. queue_items q' key = queue_items q key @ new \<and>
        (\<forall>d \<in> set new. \<exists>bs. d = (Stable (peer_queue_key env (ap_identity peer)), ap_endpoint peer, bs)))"
  proof (cases "session_seal (se_prims env) (ap_session peer) k plaintext")
    case (Pair r s)
    have s: "ps_session_id s = ps_session_id (ap_session peer)"
      using Pair by (rule seal_keeps_id)
    show ?thesis
    proof (cases r)
      case (Inl e)
      then show ?thesis using assms Pair s by (auto simp: seal_and_queue_def same_owner_def)
    next
      case (Inr pkt)
      show ?thesis
      proof (cases "wrap_wire (se_prims env) (se_obfuscation env) draw (packet_encode pkt)")
        case (Inl e)
        then show ?thesis using assms Pair Inr s by (auto simp: seal_and_queue_def same_owner_def)
      next
        case wire: (Inr bs)
        obtain res q1 where t: "try_enqueue_keyed q (Stable (peer_queue_key env (ap_identity peer))) (ap_endpoint peer) bs now = (res, q1)"
          by fastforce
        note E = enqueue_step [OF assms(2) _ t, simplified]
        show ?thesis using assms(1) Pair Inr wire t s E(1) E(2) [of key]
          by (cases res) (auto simp: seal_and_queue_def Let_def try_enqueue_for_peer_def same_owner_def split: if_splits)
      qed
    qed
  qed
  then show "same_owner peer peer'" "set out \<subseteq> {DroppedBackpressure}" "fq_inv q'"
    "\<exists>new. queue_items q' key = queue_items q key @ new \<and>
      (\<forall>d \<in> set new. \<exists>bs. d = (Stable (peer_queue_key env (ap_identity peer)), ap_endpoint peer, bs))" by blast+
qed

text \<open>Everything sent or queued goes to the endpoints of given sessions, queued under the key of their peer.\<close>

definition queue_grows :: "'n server_env \<Rightarrow> 'n active_map \<Rightarrow> session_id set \<Rightarrow> outbound_queue \<Rightarrow> outbound_queue \<Rightarrow> bool" where
  "queue_grows env active T q q' \<longleftrightarrow>
     (\<forall>key. \<exists>new. queue_items q' key = queue_items q key @ new \<and>
        (\<forall>d \<in> set new. \<exists>t \<in> T. \<exists>peer bs. map_of active t = Some peer \<and>
           d = (Stable (peer_queue_key env (ap_identity peer)), ap_endpoint peer, bs)))"

definition effects_to :: "'n active_map \<Rightarrow> session_id set \<Rightarrow> effect list \<Rightarrow> bool" where
  "effects_to active T out \<longleftrightarrow>
     (\<forall>e \<in> set out. e = DroppedBackpressure \<or> (\<exists>t \<in> T. \<exists>peer bs. map_of active t = Some peer \<and> e = Wire (ap_endpoint peer) bs))"

lemma queue_grows_refl [simp]: "queue_grows env active T q q"
  by (simp add: queue_grows_def)

lemma queue_grows_trans:
  assumes "queue_grows env active T q q1" and "queue_grows env active T q1 q2"
  shows "queue_grows env active T q q2"
  unfolding queue_grows_def
proof
  fix key
  obtain n1 n2 where "queue_items q1 key = queue_items q key @ n1" "queue_items q2 key = queue_items q1 key @ n2"
    "\<forall>d \<in> set n1 \<union> set n2. \<exists>t \<in> T. \<exists>peer bs. map_of active t = Some peer \<and>
           d = (Stable (peer_queue_key env (ap_identity peer)), ap_endpoint peer, bs)"
    using assms unfolding queue_grows_def by (meson UnE)
  then show "\<exists>new. queue_items q2 key = queue_items q key @ new \<and>
        (\<forall>d \<in> set new. \<exists>t \<in> T. \<exists>peer bs. map_of active t = Some peer \<and>
           d = (Stable (peer_queue_key env (ap_identity peer)), ap_endpoint peer, bs))"
    by (intro exI [of _ "n1 @ n2"]) (simp del: map_append)
qed

lemma queue_grows_back:
  assumes "evolves active active'" and "queue_grows env active' T q q'"
  shows "queue_grows env active T q q'"
  unfolding queue_grows_def
proof
  fix key
  obtain new where n: "queue_items q' key = queue_items q key @ new"
    "\<forall>d \<in> set new. \<exists>t \<in> T. \<exists>peer bs. map_of active' t = Some peer \<and>
           d = (Stable (peer_queue_key env (ap_identity peer)), ap_endpoint peer, bs)"
    using assms(2) unfolding queue_grows_def by blast
  have "\<exists>t \<in> T. \<exists>peer bs. map_of active t = Some peer \<and> d = (Stable (peer_queue_key env (ap_identity peer)), ap_endpoint peer, bs)"
    if "d \<in> set new" for d
    using n(2) that evolvesD2 [OF assms(1)] by (fastforce simp: same_owner_def)
  with n(1) show "\<exists>new. queue_items q' key = queue_items q key @ new \<and>
        (\<forall>d \<in> set new. \<exists>t \<in> T. \<exists>peer bs. map_of active t = Some peer \<and>
           d = (Stable (peer_queue_key env (ap_identity peer)), ap_endpoint peer, bs))" by blast
qed

lemma queue_grows_mono: "queue_grows env active S q q' \<Longrightarrow> S \<subseteq> T \<Longrightarrow> queue_grows env active T q q'"
  unfolding queue_grows_def by (meson subsetD)

lemma effects_to_back: "evolves active active' \<Longrightarrow> effects_to active' T out \<Longrightarrow> effects_to active T out"
  unfolding effects_to_def by (fastforce dest: evolvesD2 simp: same_owner_def)

lemma effects_to_mono: "effects_to active S out \<Longrightarrow> S \<subseteq> T \<Longrightarrow> effects_to active T out"
  unfolding effects_to_def by blast

lemma effects_to_append [simp]: "effects_to active T (a @ b) \<longleftrightarrow> effects_to active T a \<and> effects_to active T b"
  unfolding effects_to_def by auto

lemma effects_to_Nil [simp]: "effects_to active T []"
  by (simp add: effects_to_def)

lemma send_to_spec:
  assumes "send_to env draws i now sid k plaintext active q = (out, active', q')" and "fq_inv q"
  shows "evolves active active' \<and> fq_inv q' \<and> queue_grows env active {sid} q q' \<and> effects_to active {sid} out"
proof (cases "map_of active sid")
  case None
  then show ?thesis using assms by (simp add: send_to_def)
next
  case (Some peer)
  obtain out1 peer1 where r: "maybe_rekey env (draws (2 * i)) now peer = (out1, peer1)" by fastforce
  obtain sent out2 peer2 q1 where s: "seal_and_queue env (draws (2 * i + 1)) now k plaintext peer1 q = (sent, out2, peer2, q1)"
    by (metis surj_pair)
  note R = maybe_rekey_spec [OF r] and S = seal_and_queue_spec [OF s assms(2)]
  define peer3 where "peer3 = (case sent of Some n \<Rightarrow> peer2\<lparr>ap_stats := record_tx (length plaintext) n (ap_stats peer2)\<rparr> | None \<Rightarrow> peer2)"
  have eq: "out = out1 @ out2" "active' = update_peer sid (\<lambda>_. peer3) active" "q' = q1"
    using assms(1) Some r s by (simp_all add: send_to_def peer3_def)
  have "same_owner peer peer3"
    using same_owner_trans [OF R(1) S(1)] by (auto simp: peer3_def same_owner_def split: option.splits)
  then have "evolves active active'" unfolding eq using Some by (intro evolves_update_peer) simp
  moreover have "effects_to active {sid} out"
    using R(2) S(2) Some unfolding eq effects_to_def by auto
  moreover have "queue_grows env active {sid} q q'"
    using S(4) R(1) Some unfolding queue_grows_def eq same_owner_def by simp
  ultimately show ?thesis using S(3) eq(3) by simp
qed

lemma send_targets_spec:
  assumes "send_targets env draws i now k plaintext ts active q = (out, active', q')" and "fq_inv q"
  shows "evolves active active' \<and> fq_inv q' \<and> queue_grows env active (set ts) q q' \<and> effects_to active (set ts) out"
  using assms
proof (induction ts arbitrary: i active q out active' q')
  case (Cons t ts)
  let ?f = "if k = DataTap then Some (DataTap, plaintext) else map_option (\<lambda>forwarded. (Data, forwarded)) (prepare_forward plaintext)"
  show ?case
  proof (cases ?f)
    case None
    have "send_targets env draws (i + 1) now k plaintext ts active q = (out, active', q')" using Cons.prems(1) None by simp
    from Cons.IH [OF this Cons.prems(2)] show ?thesis by (auto intro: queue_grows_mono effects_to_mono)
  next
    case (Some x)
    obtain k' bs where x: "?f = Some (k', bs)" using Some by (cases x) simp
    obtain out1 active1 q1 where s: "send_to env draws i now t k' bs active q = (out1, active1, q1)" by (metis surj_pair)
    obtain out2 where r: "send_targets env draws (i + 1) now k plaintext ts active1 q1 = (out2, active', q')" "out = out1 @ out2"
      using Cons.prems(1) x s by (auto simp del: if_split_asm split: prod.splits)
    note S = send_to_spec [OF s Cons.prems(2)]
    then have R: "evolves active1 active' \<and> fq_inv q' \<and> queue_grows env active1 (set ts) q1 q' \<and> effects_to active1 (set ts) out2"
      using Cons.IH [OF r(1)] by simp
    have "queue_grows env active (set (t # ts)) q1 q'"
      using R S by (auto intro: queue_grows_mono queue_grows_back)
    moreover have "queue_grows env active (set (t # ts)) q q1" using S by (auto intro: queue_grows_mono)
    moreover have "effects_to active (set (t # ts)) out"
      using S R unfolding r(2) by (auto intro: effects_to_mono effects_to_back)
    ultimately show ?thesis using S R by (auto intro: queue_grows_trans evolves_trans)
  qed
qed simp

section \<open>What routing does\<close>

lemma rx_charge_owner [simp]: "same_owner peer (snd (rx_charge n now peer))"
  by (simp add: rx_charge_def same_owner_def case_prod_unfold Let_def)

lemma stats_owner [simp]: "same_owner peer (peer\<lparr>ap_stats := x\<rparr>)"
  by (simp add: same_owner_def)

lemma route_inbound_cases:
  assumes "route_inbound env draws now sid k plaintext wire_bytes router active q = (out, router', active', q')"
  obtains (dropped) "out = []" "q' = q" "evolves active active'" "router' = snd (routed env router sid k plaintext)"
  | (forwarded) d active1 out1 where "routed env router sid k plaintext = (Forward d, router')" "evolves active active1"
      "send_targets env draws 0 now k plaintext (del_peers d) active1 q = (out1, active', q')"
      "out = out1 @ injected env k d plaintext"
proof -
  obtain v router1 where r: "routed env router sid k plaintext = (v, router1)" by fastforce
  let ?stats = "\<lambda>f peer. (peer :: 'a active_peer)\<lparr>ap_stats := f (ap_stats peer)\<rparr>"
  let ?charged = "update_peer sid (\<lambda>peer. snd (rx_charge (length plaintext) now peer)) active"
  have ev: "evolves active (update_peer sid (?stats record_drop) active)" by (rule evolves_update_peer) simp
  have ch: "evolves active ?charged" by (rule evolves_update_peer) simp
  have ev3: "evolves active (update_peer sid (?stats f) ?charged)" for f
    by (rule evolves_trans [OF ch evolves_update_peer]) simp
  let ?allowed = "case map_of active sid of Some peer \<Rightarrow> fst (rx_charge (length plaintext) now peer) | None \<Rightarrow> True"
  consider (drop) reason where "v = Drop reason" | (limited) d where "v = Forward d" "\<not> ?allowed" | (ok) d where "v = Forward d" "?allowed"
    by (cases v) auto
  then show ?thesis
  proof cases
    case drop
    have "route_inbound env draws now sid k plaintext wire_bytes router active q =
        ([], router1, update_peer sid (?stats record_drop) active, q)"
      by (simp add: route_inbound_def r drop)
    then show ?thesis using dropped r ev assms by simp
  next
    case limited
    have "route_inbound env draws now sid k plaintext wire_bytes router active q =
        ([], router1, update_peer sid (?stats record_rx_limited_drop) ?charged, q)"
      by (simp only: route_inbound_def r limited Let_def prod.case verdict.case not_False_eq_True if_True)
    then show ?thesis using dropped r ev3 assms by simp
  next
    case ok
    let ?a = "update_peer sid (?stats (record_rx (length plaintext) wire_bytes)) ?charged"
    obtain out1 a2 q2 where t: "send_targets env draws 0 now k plaintext (del_peers d) ?a q = (out1, a2, q2)" using prod_cases3 by blast
    have "route_inbound env draws now sid k plaintext wire_bytes router active q = (out1 @ injected env k d plaintext, router1, a2, q2)"
      using ok(2) t by (simp add: route_inbound_def r ok(1) Let_def)
    then have "out = out1 @ injected env k d plaintext" "router' = router1" "active' = a2" "q' = q2" using assms by simp_all
    then show ?thesis using forwarded [OF _ ev3] r ok(1) t by blast
  qed
qed

definition forwarded_to ::
  "'n server_env \<Rightarrow> 'n active_map \<Rightarrow> packet_kind \<Rightarrow> bytes \<Rightarrow> verdict \<Rightarrow> outbound_queue \<Rightarrow> outbound_queue \<Rightarrow> effect list \<Rightarrow> bool" where
  "forwarded_to env active k plaintext verdict q q' out \<longleftrightarrow>
     (\<exists>d out1. verdict = Forward d \<and> queue_grows env active (set (del_peers d)) q q' \<and>
        out = out1 @ injected env k d plaintext \<and> effects_to active (set (del_peers d)) out1)"

lemma route_inbound_spec:
  assumes "route_inbound env draws now sid k plaintext wire_bytes router active q = (out, router', active', q')" and "fq_inv q"
  shows "evolves active active' \<and> fq_inv q' \<and> router' = snd (routed env router sid k plaintext) \<and>
    (out = [] \<and> q' = q \<or> forwarded_to env active k plaintext (fst (routed env router sid k plaintext)) q q' out)"
  using assms(1)
proof (cases rule: route_inbound_cases)
  case dropped
  then show ?thesis using assms(2) by simp
next
  case (forwarded d active1 out1)
  note S = send_targets_spec [OF forwarded(3) assms(2)]
  have "evolves active active'" by (rule evolves_trans [OF forwarded(2)]) (use S in simp)
  moreover have "queue_grows env active (set (del_peers d)) q q'" by (rule queue_grows_back [OF forwarded(2)]) (use S in simp)
  moreover have "effects_to active (set (del_peers d)) out1" by (rule effects_to_back [OF forwarded(2)]) (use S in simp)
  moreover have "fst (routed env router sid k plaintext) = Forward d" "router' = snd (routed env router sid k plaintext)"
    by (simp_all add: forwarded(1))
  ultimately show ?thesis using S forwarded(4) unfolding forwarded_to_def by blast
qed

section \<open>Registered sessions\<close>

definition registered :: "'n router \<Rightarrow> session_id \<Rightarrow> (string \<times> 'n list) option" where
  "registered r sid = map_option (\<lambda>pe. (pe_name pe, allowed_ips pe)) (map_of (r_peers r) sid)"

definition owners :: "'n active_map \<Rightarrow> session_id \<Rightarrow> (string \<times> 'n list) option" where
  "owners active sid = map_option (\<lambda>peer. (pi_name (ap_identity peer), pi_allowed_ips (ap_identity peer))) (map_of active sid)"

lemma registered_new [simp]: "registered (router_new ls) = Map.empty"
  by (rule ext) (simp add: registered_def router_new_def)

lemma registered_replace_links [simp]: "registered (replace_links r ls) = registered r"
  by (rule ext) (simp add: registered_def option.map_comp comp_def)

lemma registered_unregister: "registered (unregister ops r s) = (registered r)(s := None)"
proof (cases "map_of (r_peers r) s")
  case (Some pe)
  show ?thesis by (rule ext) (simp add: registered_def unregister_simps [OF Some] option.map_comp comp_def)
qed (auto simp: registered_def fun_eq_iff)

lemma registered_register:
  assumes "router_inv ops r"
  shows "registered (register ops r s name ips) = (registered r)(s \<mapsto> (name, ips))"
proof -
  note R = register_simps(1) [OF router_inv_unregister(2) [OF assms]]
  have "registered (register ops r s name ips) k = ((registered (unregister ops r s))(s \<mapsto> (name, ips))) k" for k
    by (cases "map_of (r_peers (unregister ops r s)) k") (auto simp: registered_def R registered_entry_def)
  then show ?thesis unfolding registered_unregister by auto
qed

lemma registered_route_frame [simp]: "registered (snd (route_frame ops r s bs)) = registered r"
proof (cases "route_frame ops r s bs")
  case (Pair v r')
  then show ?thesis
  proof (cases rule: route_frame_cases)
    case (learned peer dst_mac src_mac src)
    then show ?thesis using Pair
      by (auto simp: learn_mac_def registered_def fun_eq_iff option.map_comp comp_def split: option.splits if_splits intro!: option.map_cong0)
  qed (simp add: Pair)
qed

lemma registered_routed [simp]: "registered (snd (routed env r sid k plaintext)) = registered r"
  by (simp add: routed_def)

lemma router_inv_routed: "router_inv (se_ops env) r \<Longrightarrow> router_inv (se_ops env) (snd (routed env r sid k plaintext))"
  by (simp add: routed_def router_inv_route_frame)

lemma contains_registered: "router_contains r sid \<longleftrightarrow> registered r sid \<noteq> None"
  by (simp add: router_contains_def registered_def)

lemma register_new_peers_spec:
  assumes "router_inv ops r" and "distinct (map fst active)"
  shows "router_inv ops (register_new_peers ops active r)"
    and "registered (register_new_peers ops active r) = owners active ++ registered r"
proof -
  have "router_inv ops (register_new_peers ops active r) \<and> registered (register_new_peers ops active r) = owners active ++ registered r"
    using assms
  proof (induction active arbitrary: r)
    case Nil
    then show ?case by (simp add: register_new_peers_def owners_def map_add_def)
  next
    case (Cons e active)
    obtain sid peer where e: "e = (sid, peer)" by fastforce
    let ?r = "if router_contains r sid then r else register ops r sid (pi_name (ap_identity peer)) (pi_allowed_ips (ap_identity peer))"
    have inv: "router_inv ops ?r" using Cons.prems(1) by (simp add: router_inv_register)
    have step: "register_new_peers ops (e # active) r = register_new_peers ops active ?r" by (simp add: register_new_peers_def e)
    have "map_of active sid = None" using Cons.prems(2) e by (simp add: map_of_eq_None_iff)
    then have "owners active ++ registered ?r = owners (e # active) ++ registered r"
      using Cons.prems(1) e
      by (auto simp: fun_eq_iff map_add_def owners_def registered_register contains_registered split: option.splits)
    then show ?case using Cons.IH [OF inv] Cons.prems(2) step by simp
  qed
  then show "router_inv ops (register_new_peers ops active r)" "registered (register_new_peers ops active r) = owners active ++ registered r"
    by blast+
qed

lemma evolves_owners: "evolves active active' \<Longrightarrow> owners active' = owners active"
proof
  fix i assume e: "evolves active active'"
  show "owners active' i = owners active i"
    by (cases "map_of active i") (use evolves_keys [OF e, of i] evolvesD [OF e, of i] in \<open>auto simp: owners_def same_owner_def\<close>)
qed

text \<open>The link policy of a configuration: the pairs of each group in both directions, and from transmitters to receivers.\<close>

lemma symmetric_pairs_linked: "a \<noteq> b \<Longrightarrow> (a, b) \<in> set (symmetric_pairs xs) \<longleftrightarrow> a \<in> set xs \<and> b \<in> set xs"
  by (induction xs) auto

lemma links_for_config_iff:
  "links_linked (links_for_config config) a b \<longleftrightarrow>
     a \<noteq> b \<and> (\<exists>l \<in> set (sc_links config). a \<in> set (between l) \<and> b \<in> set (between l) \<or> a \<in> set (transmitters l) \<and> b \<in> set (receivers l))"
  by (auto simp: links_linked_def links_for_config_def links_from_directed_pairs_def link_pairs_def symmetric_pairs_linked)

end
