(* ===== verification/Server_Loop.thy ===== *)
theory Server_Loop
  imports Server_Tunnel
begin

text \<open>
  The event loop of the server, \<^verbatim>\<open>run_server_loop\<close> of \<^verbatim>\<open>apps/rvpn-server/src/tunnel.rs\<close>: its state, one handler for
  each arm of the select that changes it, the dispatch of a datagram, and reloading the configuration. A handler
  returns whether the loop goes on, its effects in order, and the next state.
\<close>

section \<open>State\<close>

record 'n server_state =
  sv_config :: server_config
  sv_identities :: "'n peer_identity list"
  sv_ca :: "certificate_authority_config option"
  sv_limit :: nat
  sv_active :: "'n active_map"
  sv_pending :: "'n pending_handshakes"
  sv_router :: "'n router"
  sv_cookies :: cookie_challenge_limiter
  sv_queue :: outbound_queue
  sv_recv_errors :: nat

datatype loop_error = WrapFailed crypto_error | ReceiveFailed | DeviceFailed

type_synonym 'n stepped = "(loop_error + unit) \<times> effect list \<times> 'n server_state"

definition mib_rate :: "nat \<Rightarrow> nat" where
  "mib_rate mib = sat_mul mib (1024 * 1024)"

text \<open>The settings the loop reads once, when it starts.\<close>

definition loop_env :: "'n server_env \<Rightarrow> server_config \<Rightarrow> 'n server_env" where
  "loop_env env config =
     env\<lparr>se_packet_limit := of_nat (packet_limit (sc_rekey config)), se_time_limit := time_limit (sc_rekey config),
         se_grace := grace_period (sc_rekey config), se_rx_rate := mib_rate (rx_mib_per_sec (sc_limits config)),
         se_idle_timeout := liveness_timeout (sc_liveness config)\<rparr>"

definition server_start :: "server_config \<Rightarrow> 'n peer_identity list \<Rightarrow> certificate_authority_config option \<Rightarrow> 'n server_state" where
  "server_start config ids ca =
     \<lparr>sv_config = config, sv_identities = ids, sv_ca = ca, sv_limit = per_source_pending_limit ids ca, sv_active = [],
      sv_pending = pending_new, sv_router = router_new (links_for_config config), sv_cookies = cookie_limiter_default,
      sv_queue = queue_new_with_rate 1024 (mib_rate (tx_mib_per_sec (sc_limits config))), sv_recv_errors = 0\<rparr>"

section \<open>Datagrams\<close>

definition handle_initial ::
  "'n server_env \<Rightarrow> socket_addr \<Rightarrow> packet \<Rightarrow> instant \<Rightarrow> u64 \<Rightarrow> obf_draw \<Rightarrow> (nat \<Rightarrow> accept_draw) \<Rightarrow> 'n server_state \<Rightarrow> effect list \<times> 'n server_state" where
  "handle_initial env endpoint pkt now unix draw adraws st =
     (case message_decode (payload pkt) of
        Inr (Initiation pk r c m) \<Rightarrow>
          (let initiation = Initiation pk r c m in
           case challenge_or_admit (se_prims env) (se_cookie_key env) (se_obfuscation env) draw endpoint initiation now unix (sv_cookies st) of
             (True, out, l) \<Rightarrow>
               (let (out1, pending) = begin_initial (se_prims env) (se_parsers env) (se_obfuscation env) (sv_identities st) (sv_ca st)
                      endpoint initiation (sv_limit st) adraws (sv_pending st)
                in (wires (out @ out1), st\<lparr>sv_cookies := l, sv_pending := pending\<rparr>))
           | (False, out, l) \<Rightarrow> (wires out, st\<lparr>sv_cookies := l\<rparr>))
      | _ \<Rightarrow> ([], st))"

definition send_keepalive :: "'n server_env \<Rightarrow> obf_draw \<Rightarrow> 'n active_peer \<Rightarrow> (crypto_error + effect list) \<times> 'n active_peer" where
  "send_keepalive env draw peer =
     (case session_seal (se_prims env) (ap_session peer) Keepalive [] of
        (Inl _, s) \<Rightarrow> (Inr [], peer\<lparr>ap_session := s\<rparr>)
      | (Inr ack, s) \<Rightarrow>
          (case wrap_wire (se_prims env) (se_obfuscation env) draw (packet_encode ack) of
             Inl e \<Rightarrow> (Inl e, peer\<lparr>ap_session := s\<rparr>)
           | Inr bs \<Rightarrow> (Inr [Wire (ap_endpoint peer) bs], peer\<lparr>ap_session := s\<rparr>)))"

definition handle_finish ::
  "'n server_env \<Rightarrow> socket_addr \<Rightarrow> packet \<Rightarrow> instant \<Rightarrow> u64 \<Rightarrow> obf_draw \<Rightarrow> 'n server_state \<Rightarrow> 'n stepped" where
  "handle_finish env endpoint pkt now unix draw st =
     (let sid = session_id (header pkt);
          (evicted, pending, active) = finish_pending (se_prims env) (se_parsers env) (sv_pending st) (sv_active st) endpoint pkt
            (se_grace env) (se_rx_rate env) unix now;
          router = register_new_peers (se_ops env) active (fold (\<lambda>s r. unregister (se_ops env) r s) evicted (sv_router st));
          st1 = st\<lparr>sv_active := active, sv_pending := pending, sv_router := router\<rparr>
      in case map_of active sid of
           None \<Rightarrow> (Inr (), [], st1)
         | Some peer \<Rightarrow>
             if ap_endpoint peer \<noteq> endpoint then (Inr (), [], st1)
             else
               (let (res, peer1) = send_keepalive env draw peer;
                    st2 = st1\<lparr>sv_active := update_peer sid (\<lambda>_. peer1) active\<rparr>
                in case res of Inl e \<Rightarrow> (Inl (WrapFailed e), [], st2) | Inr out \<Rightarrow> (Inr (), out, st2)))"

definition handle_rekey ::
  "'n server_env \<Rightarrow> socket_addr \<Rightarrow> packet \<Rightarrow> accept_draw \<Rightarrow> 'n server_state \<Rightarrow> effect list \<times> 'n server_state" where
  "handle_rekey env endpoint pkt adraw st =
     (case map_of (sv_active st) (session_id (header pkt)) of
        None \<Rightarrow> ([], st)
      | Some current \<Rightarrow>
          if endpoint \<noteq> ap_endpoint current then ([], st)
          else if ps_key_phase (ap_session current) \<noteq> key_phase (header pkt) then ([], st)
          else
            (case message_decode (payload pkt) of
               Inr (Initiation pk r c m) \<Rightarrow>
                 (let (_, out, pending) = begin_rekey (se_prims env) (se_obfuscation env) endpoint current (Initiation pk r c m)
                        (sv_limit st) adraw (sv_pending st)
                  in (wires out, st\<lparr>sv_pending := pending\<rparr>))
             | _ \<Rightarrow> ([], st)))"

definition handle_keepalive ::
  "'n server_env \<Rightarrow> socket_addr \<Rightarrow> packet \<Rightarrow> instant \<Rightarrow> obf_draw \<Rightarrow> 'n server_state \<Rightarrow> effect list \<times> 'n server_state" where
  "handle_keepalive env endpoint pkt now draw st =
     (let sid = session_id (header pkt) in
      case map_of (sv_active st) sid of
        None \<Rightarrow> ([], st)
      | Some peer \<Rightarrow>
          (case session_open (se_prims env) (ap_session peer) pkt now of
             (Inl _, s) \<Rightarrow> ([], st\<lparr>sv_active := update_peer sid (\<lambda>_. peer\<lparr>ap_session := s\<rparr>) (sv_active st)\<rparr>)
           | (Inr _, s) \<Rightarrow>
               (let peer1 = peer\<lparr>ap_session := s, ap_last_rx := now, ap_endpoint := endpoint\<rparr>;
                    (res, peer2) = send_keepalive env draw peer1
                in (case res of Inl _ \<Rightarrow> [] | Inr out \<Rightarrow> out,
                    st\<lparr>sv_active := update_peer sid (\<lambda>_. peer2) (sv_active st)\<rparr>))))"

definition handle_data ::
  "'n server_env \<Rightarrow> socket_addr \<Rightarrow> packet \<Rightarrow> nat \<Rightarrow> instant \<Rightarrow> (nat \<Rightarrow> obf_draw) \<Rightarrow> 'n server_state \<Rightarrow> effect list \<times> 'n server_state" where
  "handle_data env endpoint pkt wire_bytes now draws st =
     (let sid = session_id (header pkt); k = kind (header pkt) in
      case map_of (sv_active st) sid of
        None \<Rightarrow> ([], st)
      | Some peer \<Rightarrow>
          (case session_open (se_prims env) (ap_session peer) pkt now of
             (Inl _, s) \<Rightarrow> ([], st\<lparr>sv_active := update_peer sid (\<lambda>_. peer\<lparr>ap_session := s\<rparr>) (sv_active st)\<rparr>)
           | (Inr plaintext, s) \<Rightarrow>
               (let peer1 = peer\<lparr>ap_session := s, ap_last_rx := now\<rparr> in
                if k = Close then
                  ([], st\<lparr>sv_active := filter (\<lambda>(i, _). i \<noteq> sid) (sv_active st), sv_router := unregister (se_ops env) (sv_router st) sid\<rparr>)
                else if k = Data \<and> plaintext = [] then
                  ([], st\<lparr>sv_active := update_peer sid (\<lambda>_. peer1) (sv_active st)\<rparr>)
                else
                  let active = update_peer sid (\<lambda>_. peer1\<lparr>ap_endpoint := endpoint\<rparr>) (sv_active st);
                      (out, router, active1, q) = route_inbound env draws now sid k plaintext wire_bytes (sv_router st) active (sv_queue st)
                  in (out, st\<lparr>sv_router := router, sv_active := active1, sv_queue := q\<rparr>))))"

definition ok_step :: "effect list \<times> 'n server_state \<Rightarrow> 'n stepped" where
  "ok_step r = (Inr (), fst r, snd r)"

definition unwrap_wire :: "'n server_env \<Rightarrow> bytes \<Rightarrow> crypto_error + bytes" where
  "unwrap_wire env bs = (case se_obfuscation env of Some key \<Rightarrow> obf_unwrap (se_prims env) key bs | None \<Rightarrow> Inr bs)"

definition dispatch ::
  "'n server_env \<Rightarrow> socket_addr \<Rightarrow> packet \<Rightarrow> nat \<Rightarrow> instant \<Rightarrow> u64 \<Rightarrow> (nat \<Rightarrow> obf_draw) \<Rightarrow> (nat \<Rightarrow> accept_draw) \<Rightarrow> 'n server_state \<Rightarrow> 'n stepped" where
  "dispatch env endpoint pkt wire_bytes now unix draws adraws st =
     (let k = kind (header pkt); sq = sequence (header pkt) in
      if k = Handshake \<and> sq = 0 \<and> session_id (header pkt) = ZERO then ok_step (handle_initial env endpoint pkt now unix (draws 0) adraws st)
      else if (k = Handshake \<or> k = Rekey) \<and> sq = 1 then handle_finish env endpoint pkt now unix (draws 0) st
      else if k = Rekey then ok_step (handle_rekey env endpoint pkt (adraws 0) st)
      else if k = Keepalive then ok_step (handle_keepalive env endpoint pkt now (draws 0) st)
      else if k = Data \<or> k = DataTap \<or> k = Close then ok_step (handle_data env endpoint pkt wire_bytes now draws st)
      else ok_step ([], st))"

definition handle_datagram ::
  "'n server_env \<Rightarrow> socket_addr \<Rightarrow> bytes \<Rightarrow> instant \<Rightarrow> u64 \<Rightarrow> (nat \<Rightarrow> obf_draw) \<Rightarrow> (nat \<Rightarrow> accept_draw) \<Rightarrow> 'n server_state \<Rightarrow> 'n stepped" where
  "handle_datagram env endpoint bs now unix draws adraws st0 =
     (let st = st0\<lparr>sv_recv_errors := 0\<rparr> in
      case unwrap_wire env bs of
        Inl _ \<Rightarrow> ok_step ([], st)
      | Inr plain \<Rightarrow>
          (case packet_decode plain of
             Inl _ \<Rightarrow> ok_step ([], st)
           | Inr pkt \<Rightarrow> dispatch env endpoint pkt (length bs) now unix draws adraws st))"

definition MAX_CONSECUTIVE_RECV_ERRORS :: nat where "MAX_CONSECUTIVE_RECV_ERRORS = 50"

definition handle_receive_error :: "'n server_state \<Rightarrow> 'n stepped" where
  "handle_receive_error st0 =
     (let st = st0\<lparr>sv_recv_errors := sv_recv_errors st0 + 1\<rparr>
      in (if sv_recv_errors st \<ge> MAX_CONSECUTIVE_RECV_ERRORS then Inl ReceiveFailed else Inr (), [], st))"

section \<open>Timers, devices and the queue\<close>

definition handle_retransmit :: "'n server_env \<Rightarrow> (nat \<Rightarrow> obf_draw) \<Rightarrow> 'n server_state \<Rightarrow> effect list \<times> 'n server_state" where
  "handle_retransmit env draws st =
     (let (out, pending) = retransmit_pending (se_prims env) (se_obfuscation env) draws (sc_handshake (sv_config st)) (sv_pending st)
      in (wires out, st\<lparr>sv_pending := pending\<rparr>))"

definition handle_sweep :: "'n server_env \<Rightarrow> instant \<Rightarrow> 'n server_state \<Rightarrow> effect list \<times> 'n server_state" where
  "handle_sweep env now st =
     (case se_idle_timeout env of
        None \<Rightarrow> ([], st)
      | Some limit \<Rightarrow>
          (let stale = map fst (filter (\<lambda>(_, peer). now - ap_last_rx peer > limit) (sv_active st))
           in ([], st\<lparr>sv_active := filter (\<lambda>(i, _). i \<notin> set stale) (sv_active st),
                      sv_router := fold (\<lambda>s r. unregister (se_ops env) r s) stale (sv_router st)\<rparr>)))"

definition handle_keepalive_due :: "'n server_env \<Rightarrow> (nat \<Rightarrow> obf_draw) \<Rightarrow> 'n server_state \<Rightarrow> effect list \<times> 'n server_state" where
  "handle_keepalive_due env draws st =
     (let (out, active) = for_peers (\<lambda>i peer. case send_keepalive env (draws i) peer of
            (Inl _, peer1) \<Rightarrow> ([], peer1) | (Inr out, peer1) \<Rightarrow> (out, peer1)) 0 (sv_active st)
      in (out @ [KeepaliveSent], st\<lparr>sv_active := active\<rparr>))"

definition note_queue_delay :: "'n server_env \<Rightarrow> queued_datagram \<Rightarrow> 'n active_map \<Rightarrow> 'n active_map" where
  "note_queue_delay env d active =
     (case qd_peer_key d of
        None \<Rightarrow> active
      | Some key \<Rightarrow>
          (case List.find (\<lambda>(_, peer). peer_queue_key env (ap_identity peer) = key) active of
             None \<Rightarrow> active
           | Some (sid, _) \<Rightarrow>
               update_peer sid (\<lambda>peer. peer\<lparr>ap_stats := record_queue_delay (qd_queue_delay d) (ap_stats peer)\<rparr>) active))"

definition handle_dequeue :: "'n server_env \<Rightarrow> instant \<Rightarrow> 'n server_state \<Rightarrow> effect list \<times> 'n server_state" where
  "handle_dequeue env now st =
     (case recv_pass False now (sv_queue st) of
        (Packet d, q) \<Rightarrow>
          ([Wire (qd_peer d) (qd_payload d)], st\<lparr>sv_queue := q, sv_active := note_queue_delay env d (sv_active st)\<rparr>)
      | (_, q) \<Rightarrow> ([], st\<lparr>sv_queue := q\<rparr>))"

definition handle_tun :: "'n server_env \<Rightarrow> bytes \<Rightarrow> instant \<Rightarrow> (nat \<Rightarrow> obf_draw) \<Rightarrow> 'n server_state \<Rightarrow> effect list \<times> 'n server_state" where
  "handle_tun env pkt now draws st =
     (case route_from_local_ip (se_ops env) (sv_router st) pkt of
        None \<Rightarrow> ([], st)
      | Some target \<Rightarrow>
          (let (out, active, q) = send_to env draws 0 now target Data pkt (sv_active st) (sv_queue st)
           in (out, st\<lparr>sv_active := active, sv_queue := q\<rparr>)))"

definition handle_tap :: "'n server_env \<Rightarrow> bytes \<Rightarrow> instant \<Rightarrow> (nat \<Rightarrow> obf_draw) \<Rightarrow> 'n server_state \<Rightarrow> effect list \<times> 'n server_state" where
  "handle_tap env frame now draws st =
     (let (out, active, q) = send_targets env draws 0 now DataTap frame (route_from_local_frame (se_ops env) (sv_router st) frame)
            (sv_active st) (sv_queue st)
      in (out, st\<lparr>sv_active := active, sv_queue := q\<rparr>))"

section \<open>Reloading\<close>

text \<open>
  The code compares the serialised forms of two configurations. Serialisation writes every field, lists in their order and a
  hash map in its iteration order, so equal bytes mean equal values here, the association list of the hash map included.
\<close>

datatype reload_error = ReloadConfig config_error | StartupOnly | DnsFailed

definition static_projection where
  "static_projection (c :: server_config) = (sc_bind c, sc_interface c, sc_handshake c, sc_rekey c, sc_forwarding c, sc_liveness c, sc_obfuscation_key c, sc_usage_history c)"

definition auth_projection where
  "auth_projection (c :: server_config) = (sc_peers c, sc_certificate_authority c)"

definition drop_all_peers :: "'n server_env \<Rightarrow> (nat \<Rightarrow> obf_draw) \<Rightarrow> 'n server_state \<Rightarrow> effect list \<times> 'n server_state" where
  "drop_all_peers env draws st =
     (let (out, active) = close_all env draws (sv_active st)
      in (out, st\<lparr>sv_active := [], sv_pending := pending_new,
                  sv_router := fold (\<lambda>s r. unregister (se_ops env) r s) (map fst active) (sv_router st)\<rparr>))"

definition apply_limits :: "server_config \<Rightarrow> instant \<Rightarrow> 'n server_state \<Rightarrow> 'n server_state" where
  "apply_limits candidate now st =
     st\<lparr>sv_queue := set_rate_bytes_per_sec (sv_queue st) (mib_rate (tx_mib_per_sec (sc_limits candidate))) now,
        sv_active := update_all (\<lambda>peer. peer\<lparr>ap_rx_limiter := limiter_new (mib_rate (rx_mib_per_sec (sc_limits candidate))) now\<rparr>) (sv_active st)\<rparr>"

definition reload_config ::
  "'n server_env \<Rightarrow> config_error + server_config \<Rightarrow> bool \<Rightarrow> instant \<Rightarrow> (nat \<Rightarrow> obf_draw) \<Rightarrow> 'n server_state \<Rightarrow>
   (reload_error + bool) \<times> effect list \<times> 'n server_state" where
  "reload_config env loaded dns_ok now draws st =
     (case loaded of
        Inl e \<Rightarrow> (Inl (ReloadConfig e), [], st)
      | Inr candidate \<Rightarrow>
          (let config = sv_config st;
               auth_changed = (auth_projection config \<noteq> auth_projection candidate);
               links_changed = (sc_links config \<noteq> sc_links candidate);
               dns_changed = (sc_dns config \<noteq> sc_dns candidate);
               limits_changed = (sc_limits config \<noteq> sc_limits candidate)
           in if static_projection config \<noteq> static_projection candidate then (Inl StartupOnly, [], st)
              else if \<not> auth_changed \<and> \<not> links_changed \<and> \<not> dns_changed \<and> \<not> limits_changed then (Inr False, [], st)
              else
                (case peer_identities (se_parsers env) candidate of
                   Inl e \<Rightarrow> (Inl (ReloadConfig e), [], st)
                 | Inr ids \<Rightarrow>
                     if dns_changed \<and> \<not> dns_ok then (Inl DnsFailed, [], st)
                     else
                       let (out, st1) = (if auth_changed then drop_all_peers env draws st else ([], st));
                           st2 = (if links_changed then st1\<lparr>sv_router := replace_links (sv_router st1) (links_for_config candidate)\<rparr> else st1);
                           st3 = (if limits_changed then apply_limits candidate now st2 else st2);
                           ca = sc_certificate_authority candidate
                       in (Inr True, out,
                           st3\<lparr>sv_identities := ids, sv_ca := ca, sv_limit := per_source_pending_limit ids ca, sv_config := candidate\<rparr>))))"

section \<open>The loop\<close>

datatype server_event =
    Datagram socket_addr bytes instant u64 "nat \<Rightarrow> obf_draw" "nat \<Rightarrow> accept_draw"
  | ReceiveError
  | Reload "config_error + server_config" bool instant "nat \<Rightarrow> obf_draw"
  | Retransmit "nat \<Rightarrow> obf_draw"
  | Sweep instant
  | KeepaliveDue "nat \<Rightarrow> obf_draw"
  | Dequeue instant
  | FromTun bytes instant "nat \<Rightarrow> obf_draw"
  | FromTap bytes instant "nat \<Rightarrow> obf_draw"
  | DeviceError
  | DeviceInvalid

fun server_step :: "'n server_env \<Rightarrow> server_event \<Rightarrow> 'n server_state \<Rightarrow> 'n stepped" where
  "server_step env (Datagram endpoint bs now unix draws adraws) st = handle_datagram env endpoint bs now unix draws adraws st"
| "server_step env ReceiveError st = handle_receive_error st"
| "server_step env (Reload loaded dns_ok now draws) st =
     (case reload_config env loaded dns_ok now draws st of (_, out, st1) \<Rightarrow> (Inr (), out, st1))"
| "server_step env (Retransmit draws) st = ok_step (handle_retransmit env draws st)"
| "server_step env (Sweep now) st = ok_step (handle_sweep env now st)"
| "server_step env (KeepaliveDue draws) st = ok_step (handle_keepalive_due env draws st)"
| "server_step env (Dequeue now) st = ok_step (handle_dequeue env now st)"
| "server_step env (FromTun pkt now draws) st = ok_step (handle_tun env pkt now draws st)"
| "server_step env (FromTap frame now draws) st = ok_step (handle_tap env frame now draws st)"
| "server_step env DeviceError st = (Inl DeviceFailed, [], st)"
| "server_step env DeviceInvalid st = (Inr (), [], st)"

section \<open>Invariant\<close>

text \<open>
  Sessions and router agree: each active session is registered under the name and networks of its peer, and no other session is.
  A handshake in progress for an active session is a rekey of that session's peer.
\<close>

definition pending_known :: "'n active_map \<Rightarrow> 'n pending_handshakes \<Rightarrow> bool" where
  "pending_known active p \<longleftrightarrow>
     (\<forall>sid state a. pending_get p sid = Some state \<longrightarrow> map_of active sid = Some a \<longrightarrow> ph_source state = Known (ap_identity a))"

definition peers_inv :: "'n net_ops \<Rightarrow> 'n active_map \<Rightarrow> 'n pending_handshakes \<Rightarrow> 'n router \<Rightarrow> bool" where
  "peers_inv ops active p r \<longleftrightarrow> active_inv active \<and> router_inv ops r \<and> registered r = owners active \<and> pending_known active p"

definition config_inv :: "'n server_env \<Rightarrow> 'n server_state \<Rightarrow> bool" where
  "config_inv env st \<longleftrightarrow>
     peer_identities (se_parsers env) (sv_config st) = Inr (sv_identities st) \<and> sv_ca st = sc_certificate_authority (sv_config st) \<and>
     sv_limit st = per_source_pending_limit (sv_identities st) (sv_ca st)"

definition server_inv :: "'n server_env \<Rightarrow> 'n server_state \<Rightarrow> bool" where
  "server_inv env st \<longleftrightarrow>
     peers_inv (se_ops env) (sv_active st) (sv_pending st) (sv_router st) \<and> pending_ok (se_parsers env) (sv_pending st) \<and>
     within (sv_limit st) (sv_pending st) \<and> fq_inv (sv_queue st) \<and> config_inv env st"

lemma pending_knownI:
  "(\<And>sid state a. pending_get p sid = Some state \<Longrightarrow> map_of active sid = Some a \<Longrightarrow> ph_source state = Known (ap_identity a)) \<Longrightarrow>
   pending_known active p"
  unfolding pending_known_def by blast

lemma pending_knownD:
  "pending_known active p \<Longrightarrow> pending_get p sid = Some state \<Longrightarrow> map_of active sid = Some a \<Longrightarrow> ph_source state = Known (ap_identity a)"
  unfolding pending_known_def by blast

lemma peers_inv_map:
  assumes inv: "peers_inv ops active p r" and keys: "map fst active' = map fst active"
    and same: "\<And>i b. map_of active' i = Some b \<Longrightarrow> \<exists>a. map_of active i = Some a \<and> ap_identity b = ap_identity a \<and>
      ps_session_id (ap_session b) = ps_session_id (ap_session a)"
  shows "peers_inv ops active' p r"
proof -
  have "owners active' = owners active"
  proof
    fix i
    have "map_of active' i = None \<longleftrightarrow> map_of active i = None" using arg_cong [OF keys, of set] by (simp add: map_of_eq_None_iff)
    then show "owners active' i = owners active i" using same [of i] by (cases "map_of active' i") (auto simp: owners_def)
  qed
  moreover have "pending_known active' p"
  proof (rule pending_knownI)
    fix sid state b assume "pending_get p sid = Some state" "map_of active' sid = Some b"
    then show "ph_source state = Known (ap_identity b)" using same inv pending_knownD unfolding peers_inv_def by metis
  qed
  ultimately show ?thesis using inv active_inv_map [OF _ keys same] unfolding peers_inv_def by simp
qed

lemma peers_inv_evolves: "peers_inv ops active p r \<Longrightarrow> evolves active active' \<Longrightarrow> peers_inv ops active' p r"
  by (erule peers_inv_map) (auto simp: same_owner_def evolves_def [THEN iffD1, THEN conjunct1] dest: evolvesD2)

lemma peers_inv_set_peer:
  assumes "peers_inv ops active p r" and "map_of active sid = Some peer" and "ap_identity peer' = ap_identity peer"
    and "ps_session_id (ap_session peer') = ps_session_id (ap_session peer)"
  shows "peers_inv ops (update_peer sid (\<lambda>_. peer') active) p r"
  using assms(1) by (rule peers_inv_map) (use assms(2-4) in \<open>auto simp: map_of_update_peer split: if_splits\<close>)

lemma peers_inv_router:
  "peers_inv ops active p r \<Longrightarrow> router_inv ops r' \<Longrightarrow> registered r' = registered r \<Longrightarrow> peers_inv ops active p r'"
  by (simp add: peers_inv_def)

lemma peers_inv_pending: "peers_inv ops active p r \<Longrightarrow> pending_known active p' \<Longrightarrow> peers_inv ops active p' r"
  by (simp add: peers_inv_def)

lemma unregister_all_spec:
  assumes "router_inv ops r"
  shows "router_inv ops (fold (\<lambda>s r. unregister ops r s) sids r) \<and>
    registered (fold (\<lambda>s r. unregister ops r s) sids r) = (\<lambda>i. if i \<in> set sids then None else registered r i)"
  using assms
  by (induction sids arbitrary: r) (auto simp: fun_eq_iff registered_unregister router_inv_unregister)

lemma owners_filter:
  assumes "distinct (map fst active)"
  shows "owners (filter (\<lambda>(i, _). i \<notin> S) active) = (\<lambda>i. if i \<in> S then None else owners active i)"
  by (rule ext) (simp add: owners_def map_of_filter_key [OF assms, of "\<lambda>i _. i \<notin> S"] split: option.splits)

lemma peers_inv_remove:
  assumes "peers_inv ops active p r"
  shows "peers_inv ops (filter (\<lambda>(i, _). i \<notin> set sids) active) p (fold (\<lambda>s r. unregister ops r s) sids r)"
proof -
  have inv: "active_inv active" "router_inv ops r" "registered r = owners active" "pending_known active p"
    using assms by (simp_all add: peers_inv_def)
  note d = active_invD(1) [OF inv(1)]
  have "pending_known (filter (\<lambda>(i, _). i \<notin> set sids) active) p"
    by (rule pending_knownI) (use pending_knownD [OF inv(4)] map_of_filter_Some [OF d] in blast)
  then show ?thesis
    using unregister_all_spec [OF inv(2), of sids, unfolded inv(3)] active_inv_filter [OF inv(1)]
    by (simp add: peers_inv_def owners_filter [OF d])
qed

text \<open>Handshakes in progress stay known to the active peers.\<close>

lemma pending_get_insert: "pending_get (pending_insert p sid state) i = (if i = sid then Some state else pending_get p i)"
  by (simp add: pending_get_def pending_insert_def Let_def update_conv')

lemma pending_get_remove: "pending_get (snd (pending_remove p sid)) i = (if i = sid then None else pending_get p i)"
  by (auto simp: pending_get_def pending_remove_def delete_conv' split: option.splits)

lemma pending_get_retransmit:
  assumes "pending_inv p" and "pending_get (snd (retransmit_pending prims obf draws policy p)) i = Some state'"
  shows "\<exists>state. pending_get p i = Some state \<and> ph_source state' = ph_source state"
proof -
  let ?k = "pending_retain (\<lambda>state. ph_attempts state < retry_limit policy) p"
  have "map_of (map (\<lambda>(sid, state). (sid, f state)) al) i = map_option f (map_of al i)" for f :: "'a pending_handshake \<Rightarrow> 'a pending_handshake" and al :: "(session_id \<times> 'a pending_handshake) list"
    by (induction al) auto
  then obtain state where st: "map_of (entries ?k) i = Some state" "ph_source state' = ph_source state"
    using assms(2) by (auto simp: pending_get_def retransmit_pending_def Let_def bump_attempts_def)
  have "map_of (entries p) i = Some state"
    by (rule map_of_filter_Some [of _ "\<lambda>(_, state). ph_attempts state < retry_limit policy"])
      (use assms(1) st(1) in \<open>simp_all add: pending_inv_def pending_retain_def\<close>)
  then show ?thesis using st(2) by (simp add: pending_get_def)
qed

lemma pending_known_insert:
  assumes "pending_known active p" and "\<And>a. map_of active sid = Some a \<Longrightarrow> ph_source state = Known (ap_identity a)"
  shows "pending_known active (pending_insert p sid state)"
  by (rule pending_knownI) (use assms pending_knownD in \<open>auto simp: pending_get_insert split: if_splits\<close>)

lemma pending_known_retransmit:
  assumes "pending_known active p" and "pending_inv p"
  shows "pending_known active (snd (retransmit_pending prims obf draws policy p))"
proof (rule pending_knownI)
  fix sid state a assume "pending_get (snd (retransmit_pending prims obf draws policy p)) sid = Some state" "map_of active sid = Some a"
  then show "ph_source state = Known (ap_identity a)"
    using pending_get_retransmit [OF assms(2)] pending_knownD [OF assms(1)] by metis
qed

definition fresh :: "'n active_map \<Rightarrow> accept_draw \<Rightarrow> bool" where
  "fresh active d \<longleftrightarrow> (case fst d of Some b \<Rightarrow> map_of active (SessionId b) = None | None \<Rightarrow> True)"

lemma pending_known_respond:
  assumes "pending_known active p" and "fresh active d"
  shows "pending_known active (snd (snd (respond_initial prims obf endpoint initiation source auth d p)))"
proof -
  have "map_of active sid = None" if acc: "responder_accept prims i v initiation (fst d) kd rd = Inr (rh, Response pk r sid sealed)"
    for i v kd rd rh pk r sid sealed
  proof -
    obtain b where b: "fst d = Some b" "accept_for_session prims i v initiation (SessionId b) 0 kd rd = Inr (rh, Response pk r sid sealed)"
      using acc by (cases "fst d") (simp_all add: responder_accept_def secret_random_def)
    then show ?thesis using accept_shape(4) [OF b(2)] assms(2) by (auto simp: fresh_def)
  qed
  then show ?thesis using assms(1)
    by (auto simp: respond_initial_def Let_def split: prod.splits sum.splits handshake_message.splits intro!: pending_known_insert)
qed

lemma pending_known_try_identities:
  assumes "\<And>j. fresh active (draws j)"
  shows "pending_known active p \<Longrightarrow> pending_known active (snd (try_identities prims obf endpoint initiation limit draws i ids p))"
proof (induction ids arbitrary: i p)
  case (Cons identity ids)
  then show ?case by (simp add: Let_def case_prod_beta pending_known_respond [OF _ assms])
qed simp

lemma pending_known_begin_initial:
  assumes "pending_known active p" and "\<And>j. fresh active (draws j)"
  shows "pending_known active (snd (begin_initial prims ps obf ids ca_cfg endpoint initiation limit draws p))"
  using pending_known_try_identities [OF assms(2,1)] assms(1)
  by (auto simp: begin_initial_def Let_def case_prod_beta pending_known_respond [OF _ assms(2)] split: option.splits sum.splits)

lemma pending_known_begin_rekey:
  assumes "pending_known active p" and "active_inv active" and "map_of active sid = Some current"
  shows "pending_known active (snd (snd (begin_rekey prims obf endpoint current initiation limit draws p)))"
  using assms active_invD(2) [OF assms(2,3)]
  by (auto simp: begin_rekey_def Let_def split: prod.splits sum.splits intro!: pending_known_insert)

text \<open>Finishing a handshake keeps sessions and router in agreement.\<close>

lemma finish_peers_inv:
  assumes inv: "peers_inv ops active p r" and "pending_ok ps p"
    and run: "finish_pending prims ps p active endpoint pkt grace rx_rate unix now = (evicted, p', active')"
  shows "peers_inv ops active' p' (register_new_peers ops active' (fold (\<lambda>s r. unregister ops r s) evicted r))"
proof -
  let ?sid = "session_id (header pkt)" and ?u = "fold (\<lambda>s r. unregister ops r s) evicted r"
  have a: "active_inv active" "router_inv ops r" "registered r = owners active" "pending_known active p"
    using inv by (simp_all add: peers_inv_def)
  have u: "router_inv ops ?u" "registered ?u = (\<lambda>i. if i \<in> set evicted then None else owners active i)"
    using unregister_all_spec [OF a(2), of evicted, unfolded a(3)] by simp_all
  have a': "active_inv active'" by (rule finish_pending_active_inv [OF run a(1)])
  note reg = register_new_peers_spec [OF u(1) active_invD(1) [OF a']]
  have pget: "pending_get p i = Some state" if "pending_get p' i = Some state" for i state
    using run by (cases rule: finish_pending_cases) (use that in \<open>auto simp: pending_get_remove split: if_splits\<close>)
  have own: "owners active' ++ registered ?u = owners active' \<and> pending_known active' p'"
    using run
  proof (cases rule: finish_pending_cases)
    case kept
    have "pending_known active' p'"
      by (rule pending_knownI) (use kept(2) pending_knownD [OF a(4) pget] in simp)
    moreover have "owners active' ++ registered ?u = owners active'"
      using u(2) kept(1,2) by (auto simp: map_add_def fun_eq_iff split: option.splits)
    ultimately show ?thesis by blast
  next
    case (installed state fin session remote identity)
    have sid: "ps_session_id session = ?sid"
      using responder_finish_vouched [OF installed(5)] pending_ok_get [OF assms(2) installed(1)]
      by (auto simp: session_new_def entry_ok_def)
    note look = install_session_lookup [OF installed(7) a(1), unfolded sid]
    obtain peer where peer: "map_of active' ?sid = Some peer" "ap_identity peer = identity" using look(1) by blast
    have same: "identity = ap_identity b" if "map_of active ?sid = Some b" for b
      using installed(6) pending_knownD [OF a(4) installed(1) that] by simp
    have "(owners active' ++ registered ?u) i = owners active' i" for i
    proof (cases "i = ?sid")
      case True
      then show ?thesis using same peer by (cases "map_of active ?sid") (auto simp: map_add_def u(2) owners_def)
    next
      case False
      then show ?thesis using look(2) [OF False] by (auto simp: map_add_def u(2) owners_def split: option.splits)
    qed
    moreover have "pending_known active' p'"
    proof (rule pending_knownI)
      fix i st b assume i: "pending_get p' i = Some st" "map_of active' i = Some b"
      then have "i \<noteq> ?sid" using installed(8) by (auto simp: pending_get_remove)
      then have "map_of active i = Some b" using look(2) i(2) by (simp split: if_splits)
      then show "ph_source st = Known (ap_identity b)" using pending_knownD [OF a(4) pget [OF i(1)]] by simp
    qed
    ultimately show ?thesis by blast
  qed
  then show ?thesis using reg a' unfolding peers_inv_def by simp
qed

section \<open>Every handler keeps the invariant\<close>

lemma server_invD:
  assumes "server_inv env st"
  shows "peers_inv (se_ops env) (sv_active st) (sv_pending st) (sv_router st)" "pending_ok (se_parsers env) (sv_pending st)"
    "within (sv_limit st) (sv_pending st)" "fq_inv (sv_queue st)" "config_inv env st" "active_inv (sv_active st)"
    "router_inv (se_ops env) (sv_router st)" "registered (sv_router st) = owners (sv_active st)"
    "pending_known (sv_active st) (sv_pending st)" "pending_inv (sv_pending st)"
  using assms by (simp_all add: server_inv_def peers_inv_def within_def)

lemma config_inv_frame [simp]:
  "config_inv env (st\<lparr>sv_active := a\<rparr>) = config_inv env st" "config_inv env (st\<lparr>sv_pending := p\<rparr>) = config_inv env st"
  "config_inv env (st\<lparr>sv_router := r\<rparr>) = config_inv env st" "config_inv env (st\<lparr>sv_cookies := l\<rparr>) = config_inv env st"
  "config_inv env (st\<lparr>sv_queue := q\<rparr>) = config_inv env st" "config_inv env (st\<lparr>sv_recv_errors := n\<rparr>) = config_inv env st"
  by (simp_all add: config_inv_def)

lemma server_inv_pending:
  assumes "server_inv env st" "pending_ok (se_parsers env) p" "within (sv_limit st) p" "pending_known (sv_active st) p"
  shows "server_inv env (st\<lparr>sv_pending := p\<rparr>)"
  using assms peers_inv_pending [OF server_invD(1) [OF assms(1)] assms(4)] by (simp add: server_inv_def)

lemma server_inv_cookies [simp]: "server_inv env (st\<lparr>sv_cookies := l\<rparr>) = server_inv env st"
  by (simp add: server_inv_def)

lemma server_inv_recv_errors [simp]: "server_inv env (st\<lparr>sv_recv_errors := n\<rparr>) = server_inv env st"
  by (simp add: server_inv_def)

lemma server_inv_set_peer:
  assumes "server_inv env st" "map_of (sv_active st) sid = Some peer" "ap_identity peer' = ap_identity peer"
    "ps_session_id (ap_session peer') = ps_session_id (ap_session peer)"
  shows "server_inv env (st\<lparr>sv_active := update_peer sid (\<lambda>_. peer') (sv_active st)\<rparr>)"
  using assms(1) peers_inv_set_peer [OF server_invD(1) [OF assms(1)] assms(2-4)] by (simp add: server_inv_def)

lemma inv_initial:
  assumes "server_inv env st" and "\<And>i. fresh (sv_active st) (adraws i)"
  shows "server_inv env (snd (handle_initial env endpoint pkt now unix draw adraws st))"
proof -
  note D = server_invD [OF assms(1)]
  have "server_inv env (st\<lparr>sv_pending := snd (begin_initial (se_prims env) (se_parsers env) obf ids ca_cfg endpoint ini (sv_limit st) adraws (sv_pending st))\<rparr>)"
    for obf ids ca_cfg ini
    by (rule server_inv_pending [OF assms(1) pending_ok_begin_initial [OF D(2)] within_begin_initial [OF D(3)]
          pending_known_begin_initial [OF D(9) assms(2)]])
  from this [THEN iffD2 [OF server_inv_cookies]] show ?thesis using assms(1)
    by (auto simp: handle_initial_def Let_def case_prod_unfold split: sum.splits handshake_message.splits bool.splits
        simp del: server_inv_cookies) (auto simp: server_inv_def)
qed

lemma send_keepalive_owner:
  assumes "send_keepalive env draw peer = (res, peer')"
  shows "same_owner peer peer'" and "res = Inr out \<Longrightarrow> e \<in> set out \<Longrightarrow> \<exists>bs. e = Wire (ap_endpoint peer) bs"
  using assms by (auto simp: send_keepalive_def same_owner_def seal_keeps_id split: prod.splits sum.splits)

lemma inv_finish:
  assumes "server_inv env st"
  shows "server_inv env (snd (snd (handle_finish env endpoint pkt now unix draw st)))"
proof -
  note D = server_invD [OF assms]
  let ?sid = "session_id (header pkt)"
  obtain evicted p' active' where run: "finish_pending (se_prims env) (se_parsers env) (sv_pending st) (sv_active st) endpoint pkt
      (se_grace env) (se_rx_rate env) unix now = (evicted, p', active')" by (metis surj_pair)
  define r' where "r' = register_new_peers (se_ops env) active' (fold (\<lambda>s r. unregister (se_ops env) r s) evicted (sv_router st))"
  define st1 where "st1 = st\<lparr>sv_active := active', sv_pending := p', sv_router := r'\<rparr>"
  have "within (sv_limit st) p'" "pending_ok (se_parsers env) p'"
    using within_finish [OF D(3), of "se_prims env" "se_parsers env" "sv_active st" endpoint pkt "se_grace env" "se_rx_rate env" unix now]
      pending_ok_finish [OF D(2), of "se_prims env" "sv_active st" endpoint pkt "se_grace env" "se_rx_rate env" unix now] run by simp_all
  then have inv: "server_inv env st1"
    using D(4,5) finish_peers_inv [OF D(1,2) run] by (simp add: server_inv_def st1_def r'_def config_inv_def)
  show ?thesis
  proof (cases "map_of active' ?sid")
    case None
    then show ?thesis using inv run by (simp add: handle_finish_def st1_def r'_def)
  next
    case (Some peer)
    obtain res peer1 where k: "send_keepalive env draw peer = (res, peer1)" by fastforce
    have "server_inv env (st1\<lparr>sv_active := update_peer ?sid (\<lambda>_. peer1) (sv_active st1)\<rparr>)"
      by (rule server_inv_set_peer [OF inv, of _ peer]) (use Some send_keepalive_owner(1) [OF k] in \<open>simp_all add: st1_def same_owner_def\<close>)
    then show ?thesis using inv run Some k
      by (auto simp: handle_finish_def Let_def st1_def r'_def split: sum.splits)
  qed
qed

lemma inv_rekey:
  assumes "server_inv env st"
  shows "server_inv env (snd (handle_rekey env endpoint pkt adraw st))"
proof -
  note D = server_invD [OF assms]
  have "server_inv env (st\<lparr>sv_pending := snd (snd (begin_rekey (se_prims env) obf endpoint current ini (sv_limit st) adraw (sv_pending st)))\<rparr>)"
    if "map_of (sv_active st) sid = Some current" for obf current ini sid
    by (rule server_inv_pending [OF assms pending_ok_begin_rekey [OF D(2)] within_begin_rekey [OF D(3)]
          pending_known_begin_rekey [OF D(9,6) that]])
  then show ?thesis using assms
    by (auto simp: handle_rekey_def Let_def case_prod_unfold split: option.splits sum.splits handshake_message.splits)
qed

lemma inv_keepalive:
  assumes "server_inv env st"
  shows "server_inv env (snd (handle_keepalive env endpoint pkt now draw st))"
proof (cases "map_of (sv_active st) (session_id (header pkt))")
  case None
  then show ?thesis using assms by (simp add: handle_keepalive_def)
next
  case (Some peer)
  obtain res s where o: "session_open (se_prims env) (ap_session peer) pkt now = (res, s)" by fastforce
  have s: "ps_session_id s = ps_session_id (ap_session peer)" using open_session_id [of "se_prims env" "ap_session peer" pkt now] o by simp
  let ?peer1 = "peer\<lparr>ap_session := s, ap_last_rx := now, ap_endpoint := endpoint\<rparr>"
  obtain k peer2 where k: "send_keepalive env draw ?peer1 = (k, peer2)" by fastforce
  have "server_inv env (st\<lparr>sv_active := update_peer (session_id (header pkt)) (\<lambda>_. peer2) (sv_active st)\<rparr>)"
    "server_inv env (st\<lparr>sv_active := update_peer (session_id (header pkt)) (\<lambda>_. peer\<lparr>ap_session := s\<rparr>) (sv_active st)\<rparr>)"
    by (rule server_inv_set_peer [OF assms Some], use s send_keepalive_owner(1) [OF k] in \<open>simp_all add: same_owner_def\<close>)+
  then show ?thesis using Some o k by (cases res) (simp_all add: handle_keepalive_def Let_def)
qed

lemma inv_traffic:
  assumes "server_inv env st" "evolves (sv_active st) active'" "fq_inv q'" "router_inv (se_ops env) r'" "registered r' = registered (sv_router st)"
  shows "server_inv env (st\<lparr>sv_active := active', sv_router := r', sv_queue := q'\<rparr>)"
  using assms(1,3) peers_inv_router [OF peers_inv_evolves [OF server_invD(1) [OF assms(1)] assms(2)] assms(4,5)]
  by (simp add: server_inv_def)

lemma inv_data:
  assumes "server_inv env st"
  shows "server_inv env (snd (handle_data env endpoint pkt wire_bytes now draws st))"
proof (cases "map_of (sv_active st) (session_id (header pkt))")
  case None
  then show ?thesis using assms by (simp add: handle_data_def)
next
  case (Some peer)
  let ?sid = "session_id (header pkt)"
  note D = server_invD [OF assms]
  obtain res s where o: "session_open (se_prims env) (ap_session peer) pkt now = (res, s)" by fastforce
  have s: "ps_session_id s = ps_session_id (ap_session peer)" using open_session_id [of "se_prims env" "ap_session peer" pkt now] o by simp
  have set_peer: "server_inv env (st\<lparr>sv_active := update_peer ?sid (\<lambda>_. peer') (sv_active st)\<rparr>)"
    if "ap_identity peer' = ap_identity peer" "ap_session peer' = s" for peer'
    by (rule server_inv_set_peer [OF assms Some]) (use s that in simp_all)
  show ?thesis
  proof (cases res)
    case (Inl e)
    then show ?thesis using Some o set_peer by (simp add: handle_data_def)
  next
    case (Inr plaintext)
    define active1 where "active1 = update_peer ?sid (\<lambda>_. peer\<lparr>ap_session := s, ap_last_rx := now, ap_endpoint := endpoint\<rparr>) (sv_active st)"
    have inv1: "server_inv env (st\<lparr>sv_active := active1\<rparr>)" unfolding active1_def by (rule set_peer) simp_all
    obtain out r' active' q' where rt: "route_inbound env draws now ?sid (kind (header pkt)) plaintext wire_bytes (sv_router st) active1 (sv_queue st) =
        (out, r', active', q')" by (metis surj_pair)
    note R = route_inbound_spec [OF rt D(4)]
    have "server_inv env ((st\<lparr>sv_active := active1\<rparr>)\<lparr>sv_active := active', sv_router := r', sv_queue := q'\<rparr>)"
      by (rule inv_traffic [OF inv1]) (use R D(7) router_inv_routed in simp_all)
    then have inv2: "server_inv env (st\<lparr>sv_router := r', sv_active := active', sv_queue := q'\<rparr>)" by (simp add: server_inv_def)
    have rem: "filter (\<lambda>(i, _). i \<noteq> ?sid) (sv_active st) = filter (\<lambda>(i, _). i \<notin> set [?sid]) (sv_active st)" by (rule filter_cong) auto
    have inv3: "server_inv env (st\<lparr>sv_active := filter (\<lambda>(i, _). i \<noteq> ?sid) (sv_active st), sv_router := unregister (se_ops env) (sv_router st) ?sid\<rparr>)"
      using peers_inv_remove [OF D(1), of "[?sid]"] D(2-5) unfolding rem by (simp add: server_inv_def)
    show ?thesis using Some o Inr inv2 inv3 rt set_peer
      by (simp add: handle_data_def Let_def active1_def [symmetric])
  qed
qed

lemma for_peers_evolves:
  assumes "\<And>i peer. same_owner peer (snd (f i peer))"
  shows "evolves active (snd (for_peers f i active))"
proof (induction active arbitrary: i)
  case (Cons e active)
  obtain sid peer where e: "e = (sid, peer)" by fastforce
  show ?case using Cons [of "i + 1"] assms [of peer i]
    by (auto simp: e evolves_def rel_fun_def case_prod_unfold Let_def)
qed simp

lemma note_queue_delay_evolves: "evolves active (note_queue_delay env d active)"
  by (auto simp: note_queue_delay_def split: option.splits intro!: evolves_update_peer)

lemma inv_others:
  assumes "server_inv env st"
  shows "server_inv env (snd (handle_retransmit env draws st))"
    and "server_inv env (snd (handle_sweep env now st))"
    and "server_inv env (snd (handle_keepalive_due env draws st))"
    and "server_inv env (snd (handle_dequeue env now st))"
    and "server_inv env (snd (handle_tun env pkt now draws st))"
    and "server_inv env (snd (handle_tap env pkt now draws st))"
    and "server_inv env (snd (snd (handle_receive_error st)))"
proof -
  note D = server_invD [OF assms]
  have peers: "server_inv env (st\<lparr>sv_active := active', sv_queue := q'\<rparr>)" if "evolves (sv_active st) active'" "fq_inv q'" for active' q'
    using assms that(2) peers_inv_evolves [OF D(1) that(1)] by (simp add: server_inv_def)
  show "server_inv env (snd (handle_retransmit env draws st))"
    using server_inv_pending [OF assms pending_ok_retransmit [OF D(2)] within_retransmit [OF D(3)] pending_known_retransmit [OF D(9,10)]]
    by (simp add: handle_retransmit_def case_prod_unfold Let_def)
  show "server_inv env (snd (handle_sweep env now st))"
    using assms peers_inv_remove [OF D(1)] D(2-5)
    by (simp add: handle_sweep_def Let_def server_inv_def split: option.splits del: set_map set_filter)
  show "server_inv env (snd (handle_keepalive_due env draws st))"
  proof -
    let ?f = "\<lambda>i peer. case send_keepalive env (draws i) peer of (Inl _, peer1) \<Rightarrow> ([], peer1) | (Inr out, peer1) \<Rightarrow> (out, peer1)"
    have "same_owner peer (snd (?f i peer))" for i peer
      using send_keepalive_owner(1) [of env "draws i" peer] by (auto split: prod.splits sum.splits)
    from for_peers_evolves [of ?f, OF this] show ?thesis
      using assms peers_inv_evolves [OF D(1)] by (simp add: handle_keepalive_due_def case_prod_unfold Let_def server_inv_def)
  qed
  obtain o1 q1 where rq: "recv_pass False now (sv_queue st) = (o1, q1)" by fastforce
  have "fq_inv q1" using recv_pass_spec [OF D(4) rq] by simp
  then show "server_inv env (snd (handle_dequeue env now st))"
    using rq peers [OF evolves_refl] peers [OF note_queue_delay_evolves]
    by (cases o1) (simp_all add: handle_dequeue_def, simp_all add: server_inv_def)
  have sent: "server_inv env (snd (case x of (out, active, q) \<Rightarrow> (out, st\<lparr>sv_active := active, sv_queue := q\<rparr>)))"
    if "evolves (sv_active st) (fst (snd x))" "fq_inv (snd (snd x))" for x :: "effect list \<times> 'a active_map \<times> outbound_queue"
    using that peers by (simp add: case_prod_unfold)
  show "server_inv env (snd (handle_tun env pkt now draws st))"
  proof (cases "route_from_local_ip (se_ops env) (sv_router st) pkt")
    case (Some target)
    obtain out active' q' where t: "send_to env draws 0 now target Data pkt (sv_active st) (sv_queue st) = (out, active', q')"
      using prod_cases3 by blast
    show ?thesis using sent [of "(out, active', q')"] send_to_spec [OF t D(4)] Some by (simp add: handle_tun_def t)
  qed (simp add: handle_tun_def assms)
  show "server_inv env (snd (handle_tap env pkt now draws st))"
  proof -
    obtain out active' q' where t: "send_targets env draws 0 now DataTap pkt (route_from_local_frame (se_ops env) (sv_router st) pkt)
        (sv_active st) (sv_queue st) = (out, active', q')" using prod_cases3 by blast
    show ?thesis using sent [of "(out, active', q')"] send_targets_spec [OF t D(4)] by (simp add: handle_tap_def t)
  qed
  show "server_inv env (snd (snd (handle_receive_error st)))"
    using assms by (simp add: handle_receive_error_def Let_def)
qed

lemma close_all_keys: "map fst (snd (close_all env draws active)) = map fst active"
proof -
  have "map fst (snd (for_peers f i active)) = map fst active" for f :: "nat \<Rightarrow> 'a active_peer \<Rightarrow> effect list \<times> 'a active_peer" and i
    by (induction active arbitrary: i) (auto simp: case_prod_unfold Let_def)
  then show ?thesis by (simp add: close_all_def)
qed

lemma inv_drop_all:
  assumes "server_inv env st" and "drop_all_peers env draws st = (out, st')"
  shows "server_inv env st'" "sv_active st' = []" "sv_pending st' = pending_new"
proof -
  note D = server_invD [OF assms(1)]
  obtain o1 a1 where c: "close_all env draws (sv_active st) = (o1, a1)" by fastforce
  have keys: "map fst a1 = map fst (sv_active st)" using close_all_keys [of env draws "sv_active st"] c by simp
  have st': "st' = st\<lparr>sv_active := [], sv_pending := pending_new,
      sv_router := fold (\<lambda>s r. unregister (se_ops env) r s) (map fst (sv_active st)) (sv_router st)\<rparr>"
    using assms(2) c keys by (simp add: drop_all_peers_def)
  have none: "filter (\<lambda>(i, _). i \<notin> set (map fst (sv_active st))) (sv_active st) = []" by (auto simp: filter_empty_conv image_iff)
  have "peers_inv (se_ops env) [] pending_new (fold (\<lambda>s r. unregister (se_ops env) r s) (map fst (sv_active st)) (sv_router st))"
    using peers_inv_remove [OF D(1), of "map fst (sv_active st)"] unfolding none by (simp add: peers_inv_def pending_known_def)
  then show "server_inv env st'" using D(4,5) by (simp add: server_inv_def st' pending_ok_new within_new)
  show "sv_active st' = []" "sv_pending st' = pending_new" by (simp_all add: st')
qed

lemma inv_links: "server_inv env st \<Longrightarrow> server_inv env (st\<lparr>sv_router := replace_links (sv_router st) ls\<rparr>)"
  using peers_inv_router [of "se_ops env" "sv_active st" "sv_pending st" "sv_router st"]
  by (simp add: server_inv_def router_inv_replace_links peers_inv_def)

lemma inv_limits: "server_inv env st \<Longrightarrow> server_inv env (apply_limits candidate now st)"
proof -
  assume inv: "server_inv env st"
  let ?a = "update_all (\<lambda>peer. peer\<lparr>ap_rx_limiter := limiter_new (mib_rate (rx_mib_per_sec (sc_limits candidate))) now\<rparr>) (sv_active st)"
  have "peers_inv (se_ops env) ?a (sv_pending st) (sv_router st)"
    using server_invD(1) [OF inv] by (rule peers_inv_map) (auto simp: map_of_update_all)
  then show ?thesis using inv set_rate_spec(1) by (simp add: apply_limits_def server_inv_def)
qed

lemma apply_limits_keeps [simp]:
  "sv_pending (apply_limits candidate now st) = sv_pending st" "sv_router (apply_limits candidate now st) = sv_router st"
  "sv_config (apply_limits candidate now st) = sv_config st" "sv_identities (apply_limits candidate now st) = sv_identities st"
  "sv_ca (apply_limits candidate now st) = sv_ca st" "sv_limit (apply_limits candidate now st) = sv_limit st"
  by (simp_all add: apply_limits_def)

lemma inv_new_config:
  assumes "server_inv env st" and ids: "peer_identities (se_parsers env) candidate = Inr ids"
    and same: "sv_pending st = pending_new \<or> auth_projection (sv_config st) = auth_projection candidate"
  shows "server_inv env (st\<lparr>sv_identities := ids, sv_ca := sc_certificate_authority candidate,
     sv_limit := per_source_pending_limit ids (sc_certificate_authority candidate), sv_config := candidate\<rparr>)"
proof -
  note D = server_invD [OF assms(1)]
  have "within (per_source_pending_limit ids (sc_certificate_authority candidate)) (sv_pending st)"
    using same
  proof
    assume eq: "auth_projection (sv_config st) = auth_projection candidate"
    then have "peer_identities (se_parsers env) (sv_config st) = peer_identities (se_parsers env) candidate"
      by (simp add: auth_projection_def peer_identities_def)
    then show ?thesis using D(3,5) ids eq by (simp add: config_inv_def auth_projection_def)
  qed (simp add: within_new)
  then show ?thesis using assms(1) ids by (simp add: server_inv_def config_inv_def)
qed

lemma inv_reload:
  assumes "server_inv env st"
  shows "server_inv env (snd (snd (reload_config env loaded dns_ok now draws st)))"
proof (cases "\<exists>candidate ids. loaded = Inr candidate \<and> peer_identities (se_parsers env) candidate = Inr ids")
  case True
  then obtain candidate ids where c: "loaded = Inr candidate" "peer_identities (se_parsers env) candidate = Inr ids" by blast
  let ?auth = "auth_projection (sv_config st) \<noteq> auth_projection candidate"
  obtain out st1 where s1: "(if ?auth then drop_all_peers env draws st else ([], st)) = (out, st1)" by fastforce
  have inv1: "server_inv env st1 \<and> (sv_pending st1 = pending_new \<or> auth_projection (sv_config st1) = auth_projection candidate)"
    using s1 assms inv_drop_all [OF assms, of draws] by (auto split: if_splits)
  define st2 where "st2 = (if sc_links (sv_config st) \<noteq> sc_links candidate
      then st1\<lparr>sv_router := replace_links (sv_router st1) (links_for_config candidate)\<rparr> else st1)"
  define st3 where "st3 = (if sc_limits (sv_config st) \<noteq> sc_limits candidate then apply_limits candidate now st2 else st2)"
  have "server_inv env st3 \<and> (sv_pending st3 = pending_new \<or> auth_projection (sv_config st3) = auth_projection candidate)"
    using inv1 by (simp add: st3_def st2_def inv_limits inv_links)
  then have "server_inv env (st3\<lparr>sv_identities := ids, sv_ca := sc_certificate_authority candidate,
     sv_limit := per_source_pending_limit ids (sc_certificate_authority candidate), sv_config := candidate\<rparr>)"
    using inv_new_config [OF _ c(2)] by blast
  then show ?thesis using assms c s1 unfolding reload_config_def Let_def
    by (simp add: st2_def [symmetric]) (simp add: st3_def split: if_splits)
next
  case False
  then show ?thesis using assms by (auto simp: reload_config_def Let_def split: sum.splits)
qed

section \<open>Reachable states\<close>

text \<open>
  The states of a running server. The session identifiers drawn for new handshakes are 16 random bytes each; a
  draw that hits the identifier of an active session is excluded.
\<close>

definition event_fresh :: "server_event \<Rightarrow> 'n server_state \<Rightarrow> bool" where
  "event_fresh ev st \<longleftrightarrow> (case ev of Datagram _ _ _ _ _ adraws \<Rightarrow> (\<forall>i. fresh (sv_active st) (adraws i)) | _ \<Rightarrow> True)"

inductive server_reach :: "'n server_env \<Rightarrow> 'n server_state \<Rightarrow> bool" for env where
  start: "peer_identities (se_parsers env) config = Inr ids \<Longrightarrow> server_reach env (server_start config ids (sc_certificate_authority config))"
| step: "server_reach env st \<Longrightarrow> event_fresh ev st \<Longrightarrow> server_step env ev st = (res, out, st') \<Longrightarrow> server_reach env st'"

lemma ok_step_state [simp]: "snd (snd (ok_step r)) = snd r"
  by (simp add: ok_step_def)

lemma inv_dispatch:
  assumes "server_inv env st" and "\<And>i. fresh (sv_active st) (adraws i)"
  shows "server_inv env (snd (snd (dispatch env endpoint pkt wire_bytes now unix draws adraws st)))"
  using inv_initial [OF assms] inv_finish [OF assms(1)] inv_rekey [OF assms(1)] inv_keepalive [OF assms(1)] inv_data [OF assms(1)] assms(1)
  unfolding dispatch_def Let_def by (simp split: if_splits)

lemma inv_datagram:
  assumes "server_inv env st" and "\<And>i. fresh (sv_active st) (adraws i)"
  shows "server_inv env (snd (snd (handle_datagram env endpoint bs now unix draws adraws st)))"
  using inv_dispatch [of env "st\<lparr>sv_recv_errors := 0\<rparr>"] assms
  by (simp add: handle_datagram_def Let_def split: sum.splits)

lemma inv_step:
  assumes "server_inv env st" and "event_fresh ev st"
  shows "server_inv env (snd (snd (server_step env ev st)))"
proof (cases ev)
  case (Datagram endpoint bs now unix draws adraws)
  then show ?thesis using inv_datagram [OF assms(1)] assms(2) by (simp add: event_fresh_def)
next
  case (Reload loaded dns_ok now draws)
  then show ?thesis using inv_reload [OF assms(1), of loaded dns_ok now draws] by (simp add: case_prod_unfold)
qed (use inv_others [OF assms(1)] assms(1) in simp_all)

lemma server_reach_inv: "server_reach env st \<Longrightarrow> server_inv env st"
proof (induction rule: server_reach.induct)
  case (start config ids)
  then show ?case
    by (simp add: server_start_def server_inv_def peers_inv_def router_inv_new owners_def pending_known_def pending_get_def
        pending_ok_new within_new fq_inv_new config_inv_def fun_eq_iff)
next
  case (step st ev res out st')
  then show ?case using inv_step [of env st ev] by simp
qed

end
