(* ===== verification/Server_Safety.thy ===== *)
theory Server_Safety
  imports Server_Loop
begin

text \<open>
  What the running server guarantees, over every state its event loop can reach: consistency of its tables, what reaches the
  local device and other peers, what unauthenticated datagrams can do, and what reloading does.
\<close>

section \<open>Effects of a datagram\<close>

lemma datagram_cases:
  assumes "server_step env (Datagram endpoint bs now unix draws adraws) st = (res, out, st')"
  obtains (ignored) "res = Inr ()" "out = []" "st' = st\<lparr>sv_recv_errors := 0\<rparr>"
  | (packet) plain pkt where "unwrap_wire env bs = Inr plain" "packet_decode plain = Inr pkt"
      "dispatch env endpoint pkt (length bs) now unix draws adraws (st\<lparr>sv_recv_errors := 0\<rparr>) = (res, out, st')"
  using assms by (auto simp: handle_datagram_def Let_def ok_step_def split: sum.splits)

lemma dispatch_cases:
  assumes "dispatch env endpoint pkt wire_bytes now unix draws adraws st = (res, out, st')"
  obtains (initial) "kind (header pkt) = Handshake" "sequence (header pkt) = 0" "session_id (header pkt) = ZERO"
      "handle_initial env endpoint pkt now unix (draws 0) adraws st = (out, st')"
  | (finish) "kind (header pkt) = Handshake \<or> kind (header pkt) = Rekey" "sequence (header pkt) = 1"
      "handle_finish env endpoint pkt now unix (draws 0) st = (res, out, st')"
  | (rekey) "kind (header pkt) = Rekey" "handle_rekey env endpoint pkt (adraws 0) st = (out, st')"
  | (keepalive) "kind (header pkt) = Keepalive" "handle_keepalive env endpoint pkt now (draws 0) st = (out, st')"
  | (data) "kind (header pkt) = Data \<or> kind (header pkt) = DataTap \<or> kind (header pkt) = Close"
      "handle_data env endpoint pkt wire_bytes now draws st = (out, st')"
  | (unused) "out = []" "st' = st" "kind (header pkt) = Handshake"
  using assms
  by (cases "kind (header pkt)") (auto simp: dispatch_def Let_def ok_step_def split: if_splits)

lemma keepalive_wire: "fst (send_keepalive env draw peer) = Inr out \<Longrightarrow> e \<in> set out \<Longrightarrow> \<exists>bs. e = Wire (ap_endpoint peer) bs"
  using send_keepalive_owner(2) [OF prod.collapse [symmetric]] by blast

lemma finish_effects:
  assumes "handle_finish env endpoint pkt now unix draw st = (res, out, st')" and "e \<in> set out"
  shows "\<exists>bs. e = Wire endpoint bs"
  using assms by (auto simp: handle_finish_def Let_def case_prod_unfold split: option.splits sum.splits if_splits dest: keepalive_wire)

lemma keepalive_effects:
  assumes "handle_keepalive env endpoint pkt now draw st = (out, st')" and "e \<in> set out"
  shows "\<exists>bs. e = Wire endpoint bs"
  using assms
  by (auto simp: handle_keepalive_def Let_def case_prod_unfold split: option.splits sum.splits if_splits dest!: keepalive_wire)

lemma data_cases:
  assumes "handle_data env endpoint pkt wire_bytes now draws st = (out, st')" and "kind (header pkt) \<noteq> Close" and "server_inv env st"
  obtains (quiet) "out = []" "sv_queue st' = sv_queue st"
  | (forwarded) peer plaintext s active1 where "map_of (sv_active st) (session_id (header pkt)) = Some peer"
      "session_open (se_prims env) (ap_session peer) pkt now = (Inr plaintext, s)"
      "active1 = update_peer (session_id (header pkt)) (\<lambda>_. peer\<lparr>ap_session := s, ap_last_rx := now, ap_endpoint := endpoint\<rparr>) (sv_active st)"
      "forwarded_to env active1 (kind (header pkt)) plaintext (fst (routed env (sv_router st) (session_id (header pkt)) (kind (header pkt)) plaintext))
         (sv_queue st) (sv_queue st') out"
proof (cases "map_of (sv_active st) (session_id (header pkt))")
  case None
  then show ?thesis using assms(1) quiet by (simp add: handle_data_def)
next
  case (Some peer)
  let ?sid = "session_id (header pkt)" and ?k = "kind (header pkt)"
  obtain res s where o: "session_open (se_prims env) (ap_session peer) pkt now = (res, s)" by fastforce
  show ?thesis
  proof (cases "\<exists>plaintext. res = Inr plaintext \<and> \<not> (?k = Data \<and> plaintext = [])")
    case False
    then show ?thesis using assms(1,2) Some o quiet by (cases res) (auto simp: handle_data_def)
  next
    case True
    then obtain plaintext where pt: "res = Inr plaintext" "\<not> (?k = Data \<and> plaintext = [])" by blast
    let ?a = "update_peer ?sid (\<lambda>_. peer\<lparr>ap_session := s, ap_last_rx := now, ap_endpoint := endpoint\<rparr>) (sv_active st)"
    obtain out1 r' active' q' where rt: "route_inbound env draws now ?sid ?k plaintext wire_bytes (sv_router st) ?a (sv_queue st) =
        (out1, r', active', q')" by (metis surj_pair)
    have eq: "out = out1" "sv_queue st' = q'" using assms(1,2) Some o pt rt by (auto simp: handle_data_def Let_def)
    show ?thesis using route_inbound_spec [OF rt server_invD(4) [OF assms(3)]] quiet forwarded [OF Some o [unfolded pt(1)] refl] eq by blast
  qed
qed

section \<open>Senders and receivers of forwarded traffic\<close>

definition source_of :: "packet_kind \<Rightarrow> bytes \<Rightarrow> ip_addr option" where
  "source_of k plaintext = (if k = DataTap then ethernet_payload_ip plaintext False else packet_source plaintext)"

text \<open>
  A packet carries \<open>plaintext\<close> of an active peer: it opens under the peer's session, and its source address is the peer's. The
  targets of a sender are the other active peers its router entry links to.
\<close>

definition authorised :: "'n server_env \<Rightarrow> 'n server_state \<Rightarrow> packet \<Rightarrow> instant \<Rightarrow> 'n active_peer \<Rightarrow> bytes \<Rightarrow> bool" where
  "authorised env st pkt now peer plaintext \<longleftrightarrow>
     map_of (sv_active st) (session_id (header pkt)) = Some peer \<and>
     fst (session_open (se_prims env) (ap_session peer) pkt now) = Inr plaintext \<and>
     (\<exists>src net. source_of (kind (header pkt)) plaintext = Some src \<and> net \<in> set (pi_allowed_ips (ap_identity peer)) \<and> net_contains (se_ops env) net src)"

definition target_of :: "'n server_state \<Rightarrow> session_id \<Rightarrow> 'n active_peer \<Rightarrow> bool" where
  "target_of st sid target \<longleftrightarrow>
     (\<exists>pe t. map_of (r_peers (sv_router st)) sid = Some pe \<and> t \<in> linked pe \<and> t \<noteq> sid \<and> map_of (sv_active st) t = Some target)"

lemma deliver_targets: "deliver_frame r sid lk mac = Forward d \<Longrightarrow> set (del_peers d) \<subseteq> lk - {sid}"
  by (auto simp: deliver_frame_def to_peer_def delivery_local_def split: if_splits option.splits)

lemma routed_entry:
  assumes "fst (routed env r sid k plaintext) = Forward d"
  shows "\<exists>pe src. map_of (r_peers r) sid = Some pe \<and> source_of k plaintext = Some src \<and> source_allowed (se_ops env) pe src \<and>
    set (del_peers d) \<subseteq> linked pe - {sid}"
proof (cases "k = DataTap")
  case True
  obtain v r' where f: "route_frame (se_ops env) r sid plaintext = (v, r')" by fastforce
  from f show ?thesis
  proof (cases rule: route_frame_cases)
    case dropped
    then show ?thesis using assms f True by (simp add: routed_def)
  next
    case (learned peer dst_mac src_mac src)
    then show ?thesis using assms f True deliver_targets [of r' sid "linked peer" dst_mac d] by (auto simp: routed_def source_of_def)
  qed
next
  case False
  then show ?thesis using assms
    by (auto simp: routed_def source_of_def route_ip_def to_peer_def delivery_local_def split: option.splits if_splits)
qed

lemma sender_allowed:
  assumes "server_inv env st" and "map_of (sv_active st) sid = Some peer" and "fst (routed env (sv_router st) sid k plaintext) = Forward d"
  shows "\<exists>pe src net. map_of (r_peers (sv_router st)) sid = Some pe \<and> set (del_peers d) \<subseteq> linked pe - {sid} \<and>
    source_of k plaintext = Some src \<and> net \<in> set (pi_allowed_ips (ap_identity peer)) \<and> net_contains (se_ops env) net src"
proof -
  obtain pe src where pe: "map_of (r_peers (sv_router st)) sid = Some pe" "source_of k plaintext = Some src"
    "source_allowed (se_ops env) pe src" "set (del_peers d) \<subseteq> linked pe - {sid}" using routed_entry [OF assms(3)] by blast
  have "registered (sv_router st) sid = owners (sv_active st) sid" using server_invD(8) [OF assms(1)] by simp
  then have "allowed_ips pe = pi_allowed_ips (ap_identity peer)" using pe(1) assms(2) by (simp add: registered_def owners_def)
  then show ?thesis using pe by (auto simp: source_allowed_def list_ex_iff)
qed

lemma injected_local: "e \<in> set (injected env k d plaintext) \<Longrightarrow> e = ToTun plaintext \<or> e = ToTap plaintext"
  by (auto simp: injected_def inject_ip_def inject_frame_def split: if_splits)

lemma effects_to_wire: "effects_to active T out \<Longrightarrow> e \<in> set out \<Longrightarrow> e \<noteq> ToTun b \<and> e \<noteq> ToTap b"
  by (auto simp: effects_to_def)

lemma wires_wire: "e \<in> set (wires out) \<Longrightarrow> e \<noteq> ToTun b \<and> e \<noteq> ToTap b"
  by auto

lemma initial_effects: "handle_initial env endpoint pkt now unix draw adraws st = (out, st') \<Longrightarrow> e \<in> set out \<Longrightarrow> e \<noteq> ToTun b \<and> e \<noteq> ToTap b"
  by (auto simp: handle_initial_def Let_def case_prod_unfold split: sum.splits handshake_message.splits if_splits bool.splits)

lemma rekey_effects: "handle_rekey env endpoint pkt adraw st = (out, st') \<Longrightarrow> e \<in> set out \<Longrightarrow> e \<noteq> ToTun b \<and> e \<noteq> ToTap b"
  by (auto simp: handle_rekey_def Let_def case_prod_unfold split: sum.splits handshake_message.splits if_splits option.splits)

lemma server_inv_reset: "server_inv env st \<Longrightarrow> server_inv env (st\<lparr>sv_recv_errors := 0\<rparr>)"
  by simp

section \<open>Links between peers\<close>

text \<open>
  All changes to the router but a new policy keep the links exact when the policy is symmetric.
\<close>

definition links_kept :: "'n net_ops \<Rightarrow> 'n router \<Rightarrow> 'n router \<Rightarrow> bool" where
  "links_kept ops r r' \<longleftrightarrow> r_links r' = r_links r \<and>
     (router_inv ops r \<longrightarrow> router_inv ops r' \<and> (sym (r_links r) \<longrightarrow> links_exact r \<longrightarrow> links_exact r'))"

lemma links_kept_refl [simp]: "links_kept ops r r"
  by (simp add: links_kept_def)

lemma links_kept_trans: "links_kept ops r r1 \<Longrightarrow> links_kept ops r1 r2 \<Longrightarrow> links_kept ops r r2"
  by (simp add: links_kept_def)

lemma links_kept_fold: "(\<And>x r. links_kept ops r (f x r)) \<Longrightarrow> links_kept ops r (fold f xs r)"
  by (induction xs arbitrary: r) (auto intro: links_kept_trans)

lemma links_kept_unregister: "links_kept ops r (unregister ops r s)"
  by (simp add: links_kept_def router_inv_unregister(1) links_exact_unregister)

lemma links_kept_unregister_all: "links_kept ops r (fold (\<lambda>s r. unregister ops r s) sids r)"
  by (rule links_kept_fold) (rule links_kept_unregister)

lemma links_kept_register: "links_kept ops r (register ops r s name ips)"
proof -
  have "r_links (register ops r s name ips) = r_links r" by (simp add: register_def Let_def)
  then show ?thesis by (simp add: links_kept_def router_inv_register links_exact_register)
qed

lemma links_kept_register_new: "links_kept ops r (register_new_peers ops active r)"
  unfolding register_new_peers_def by (rule links_kept_fold) (auto simp: case_prod_unfold links_kept_register)

lemma links_kept_learn:
  assumes "learn_mac r sid peer mac = Inr r'" and "map_of (r_peers r) sid = Some peer" and inv: "router_inv ops r" and ex: "links_exact r"
  shows "links_exact r'"
proof -
  note L = learn_mac_simps [OF assms(1,2)]
  have d: "distinct (map fst (r_peers r))" "distinct (map fst (r_peers r'))" using router_invD(1) [OF inv] L(3) by simp_all
  have same: "map_option (\<lambda>pe. (pe_name pe, linked pe)) (map_of (r_peers r') k) = map_option (\<lambda>pe. (pe_name pe, linked pe)) (map_of (r_peers r) k)" for k
    using L(1) [of k] assms(2) by auto
  have names: "map_option pe_name (map_of (r_peers r') k) = map_option pe_name (map_of (r_peers r) k)" for k
    using arg_cong [OF same [of k], of "map_option fst"] by (simp add: option.map_comp comp_def)
  have targets: "link_targets ls (r_peers r') k name = link_targets ls (r_peers r) k name" for ls k name
  proof (rule set_eqI)
    fix x show "x \<in> link_targets ls (r_peers r') k name \<longleftrightarrow> x \<in> link_targets ls (r_peers r) k name"
      using names [of x] by (cases "map_of (r_peers r) x"; cases "map_of (r_peers r') x") (auto simp: link_targets_iff [OF d(1)] link_targets_iff [OF d(2)])
  qed
  show ?thesis unfolding links_exact_def targets L(5)
  proof (intro allI impI)
    fix k pe assume "map_of (r_peers r') k = Some pe"
    with same [of k] obtain q where "map_of (r_peers r) k = Some q" "pe_name pe = pe_name q" "linked pe = linked q"
      by (cases "map_of (r_peers r) k") auto
    then show "linked pe = link_targets (r_links r) (r_peers r) k (pe_name pe)" using ex by (simp add: links_exact_def)
  qed
qed

lemma links_kept_routed: "links_kept (se_ops env) r (snd (routed env r sid k plaintext))"
proof (cases "k = DataTap")
  case True
  obtain v r' where f: "route_frame (se_ops env) r sid plaintext = (v, r')" by fastforce
  from f have "links_kept (se_ops env) r r'"
  proof (cases rule: route_frame_cases)
    case (learned peer dst_mac src_mac src)
    then show ?thesis using links_kept_learn [OF learned(7,1)] learn_mac_simps(5) [OF learned(7,1)] router_inv_route_frame [of "se_ops env" r sid plaintext] f
      by (simp add: links_kept_def)
  qed simp
  then show ?thesis using True f by (simp add: routed_def)
qed (simp add: routed_def)

definition links_inv :: "'n server_state \<Rightarrow> bool" where
  "links_inv st \<longleftrightarrow> r_links (sv_router st) = links_for_config (sv_config st) \<and>
     (sym (links_for_config (sv_config st)) \<longrightarrow> links_exact (sv_router st))"

lemma links_inv_kept:
  assumes "links_inv st" "server_inv env st" "links_kept (se_ops env) (sv_router st) (sv_router st')" "sv_config st' = sv_config st"
  shows "links_inv st'"
  using assms(1,3,4) server_invD(7) [OF assms(2)] by (auto simp: links_inv_def links_kept_def)

lemma handler_routers:
  "sv_router (snd (handle_initial env endpoint pkt now unix draw adraws st)) = sv_router st"
  "sv_router (snd (handle_rekey env endpoint pkt adraw st)) = sv_router st"
  "sv_router (snd (handle_keepalive env endpoint pkt now draw st)) = sv_router st"
  by (auto simp: handle_initial_def handle_rekey_def handle_keepalive_def Let_def case_prod_unfold
      split: option.splits sum.splits handshake_message.splits bool.splits)

lemma handler_configs:
  "sv_config (snd (handle_initial env endpoint pkt now unix draw adraws st)) = sv_config st"
  "sv_config (snd (handle_rekey env endpoint pkt adraw st)) = sv_config st"
  "sv_config (snd (handle_keepalive env endpoint pkt now draw st)) = sv_config st"
  "sv_config (snd (snd (handle_finish env endpoint pkt now unix draw st))) = sv_config st"
  "sv_config (snd (handle_data env endpoint pkt n now draws st)) = sv_config st"
  by (auto simp: handle_initial_def handle_rekey_def handle_keepalive_def handle_finish_def handle_data_def Let_def case_prod_unfold
      split: option.splits sum.splits handshake_message.splits bool.splits)

lemma timer_frames:
  "sv_router (snd (handle_retransmit env draws st)) = sv_router st" "sv_config (snd (handle_retransmit env draws st)) = sv_config st"
  "sv_router (snd (handle_keepalive_due env draws st)) = sv_router st" "sv_config (snd (handle_keepalive_due env draws st)) = sv_config st"
  "sv_router (snd (handle_dequeue env now st)) = sv_router st" "sv_config (snd (handle_dequeue env now st)) = sv_config st"
  "sv_router (snd (handle_tun env pkt now draws st)) = sv_router st" "sv_config (snd (handle_tun env pkt now draws st)) = sv_config st"
  "sv_router (snd (handle_tap env pkt now draws st)) = sv_router st" "sv_config (snd (handle_tap env pkt now draws st)) = sv_config st"
  "sv_router (snd (snd (handle_receive_error st))) = sv_router st" "sv_config (snd (snd (handle_receive_error st))) = sv_config st"
  "sv_config (snd (handle_sweep env now st)) = sv_config st"
  by (auto simp: handle_retransmit_def handle_keepalive_due_def handle_dequeue_def handle_tun_def handle_tap_def handle_receive_error_def
      handle_sweep_def Let_def case_prod_unfold split: option.splits recv_outcome.splits)

lemma links_kept_data: "links_kept (se_ops env) (sv_router st) (sv_router (snd (handle_data env endpoint pkt n now draws st)))"
proof -
  have r: "fst (snd (route_inbound env draws now sid k plaintext n router active q)) = snd (routed env router sid k plaintext)"
    for draws sid k plaintext n router active q
    by (auto simp: route_inbound_def Let_def case_prod_unfold split: verdict.splits)
  have "sv_router (snd (handle_data env endpoint pkt n now draws st)) \<in>
      insert (sv_router st) (insert (unregister (se_ops env) (sv_router st) (session_id (header pkt)))
        (range (\<lambda>plaintext. snd (routed env (sv_router st) (session_id (header pkt)) (kind (header pkt)) plaintext))))"
    by (auto simp: handle_data_def Let_def case_prod_unfold r split: option.splits sum.splits)
  then show ?thesis using links_kept_unregister links_kept_routed by auto
qed

lemma links_kept_finish: "links_kept (se_ops env) (sv_router st) (sv_router (snd (snd (handle_finish env endpoint pkt now unix draw st))))"
  by (auto simp: handle_finish_def Let_def case_prod_unfold split: option.splits sum.splits
      intro!: links_kept_trans [OF links_kept_unregister_all links_kept_register_new])

lemma links_kept_sweep: "links_kept (se_ops env) (sv_router st) (sv_router (snd (handle_sweep env now st)))"
  by (auto simp: handle_sweep_def Let_def split: option.splits intro: links_kept_unregister_all)

lemma links_dispatch:
  "links_kept (se_ops env) (sv_router st) (sv_router (snd (snd (dispatch env endpoint pkt n now unix draws adraws st))))"
  "sv_config (snd (snd (dispatch env endpoint pkt n now unix draws adraws st))) = sv_config st"
  unfolding dispatch_def Let_def by (simp_all add: handler_routers handler_configs links_kept_data links_kept_finish split: if_splits)

lemma links_step:
  assumes "server_inv env st" and "links_inv st" and "\<And>loaded dns_ok now draws. ev \<noteq> Reload loaded dns_ok now draws"
  shows "links_inv (snd (snd (server_step env ev st)))"
proof (rule links_inv_kept [OF assms(2,1)])
  show "links_kept (se_ops env) (sv_router st) (sv_router (snd (snd (server_step env ev st))))"
    by (cases ev) (use assms(3) links_dispatch(1) [of env "st\<lparr>sv_recv_errors := 0\<rparr>"] in
        \<open>simp_all add: timer_frames links_kept_sweep handle_datagram_def Let_def split: sum.splits\<close>)
  show "sv_config (snd (snd (server_step env ev st))) = sv_config st"
    by (cases ev) (use assms(3) in \<open>simp_all add: timer_frames links_dispatch(2) handle_datagram_def Let_def split: sum.splits\<close>)
qed

lemma drop_all_router:
  "sv_router (snd (drop_all_peers env draws st)) = fold (\<lambda>s r. unregister (se_ops env) r s) (map fst (sv_active st)) (sv_router st)"
  "sv_config (snd (drop_all_peers env draws st)) = sv_config st"
  by (simp_all add: drop_all_peers_def case_prod_unfold Let_def close_all_keys)

lemma links_reload:
  assumes "server_inv env st" and "links_inv st"
  shows "links_inv (snd (snd (reload_config env loaded dns_ok now draws st)))"
proof -
  define r1 where "r1 c = (if auth_projection (sv_config st) \<noteq> auth_projection c
      then fold (\<lambda>s r. unregister (se_ops env) r s) (map fst (sv_active st)) (sv_router st) else sv_router st)" for c :: server_config
  let ?st' = "snd (snd (reload_config env loaded dns_ok now draws st))"
  consider "?st' = st"
    | candidate where "sv_config ?st' = candidate" "sv_router ?st' = (if sc_links (sv_config st) \<noteq> sc_links candidate
         then replace_links (r1 candidate) (links_for_config candidate) else r1 candidate)"
    by (cases loaded) (auto simp: reload_config_def Let_def case_prod_unfold drop_all_router r1_def split: sum.splits)
  then show ?thesis
  proof cases
    case 1
    then show ?thesis using assms(2) by simp
  next
    case (2 candidate)
    have k: "links_kept (se_ops env) (sv_router st) (r1 candidate)" by (simp add: r1_def links_kept_unregister_all)
    then have inv: "router_inv (se_ops env) (r1 candidate)" using server_invD(7) [OF assms(1)] by (simp add: links_kept_def)
    show ?thesis
    proof (cases "sc_links (sv_config st) = sc_links candidate")
      case True
      then have "links_for_config (sv_config st) = links_for_config candidate" by (simp add: links_for_config_def)
      then show ?thesis using 2 True k assms(2) server_invD(7) [OF assms(1)] by (auto simp: links_inv_def links_kept_def)
    next
      case False
      then show ?thesis using 2 links_exact_replace [OF inv] by (simp add: links_inv_def)
    qed
  qed
qed

lemma server_reach_links: "server_reach env st \<Longrightarrow> links_inv st"
proof (induction rule: server_reach.induct)
  case (start config ids)
  then show ?case by (simp add: links_inv_def server_start_def links_exact_def router_new_def)
next
  case (step st ev res out st')
  note inv = server_reach_inv [OF step(1)]
  show ?case
  proof (cases "\<exists>loaded dns_ok now draws. ev = Reload loaded dns_ok now draws")
    case True
    then obtain loaded dns_ok now draws where ev: "ev = Reload loaded dns_ok now draws" by blast
    show ?thesis using links_reload [OF inv step.IH, of loaded dns_ok now draws] step(3) by (simp add: ev case_prod_unfold)
  next
    case False
    then have "\<And>loaded dns_ok now draws. ev \<noteq> Reload loaded dns_ok now draws" by blast
    from links_step [OF inv step.IH this] show ?thesis using step(3) by simp
  qed
qed

text \<open>With a symmetric policy, peers are linked exactly when the configuration links their names.\<close>

lemma linked_names:
  assumes "server_reach env st" and "sym (links_for_config (sv_config st))" and "map_of (sv_active st) sid = Some peer" and "target_of st sid target"
  shows "links_linked (links_for_config (sv_config st)) (pi_name (ap_identity peer)) (pi_name (ap_identity target))"
proof -
  note inv = server_reach_inv [OF assms(1)]
  obtain pe t where t: "map_of (r_peers (sv_router st)) sid = Some pe" "t \<in> linked pe" "map_of (sv_active st) t = Some target"
    using assms(4) by (auto simp: target_of_def)
  have l: "r_links (sv_router st) = links_for_config (sv_config st)" "links_exact (sv_router st)"
    using server_reach_links [OF assms(1)] assms(2) by (simp_all add: links_inv_def)
  have reg: "registered (sv_router st) i = owners (sv_active st) i" for i using server_invD(8) [OF inv] by simp
  have "t \<in> link_targets (links_for_config (sv_config st)) (r_peers (sv_router st)) sid (pe_name pe)"
    using l t(1,2) by (simp add: links_exact_def)
  then obtain q where "map_of (r_peers (sv_router st)) t = Some q" "links_linked (links_for_config (sv_config st)) (pe_name pe) (pe_name q)"
    using link_targets_iff router_invD(1) [OF server_invD(7) [OF inv]] by blast
  then show ?thesis using reg [of t] reg [of sid] assms(3) t(1,3) by (simp add: registered_def owners_def)
qed

lemma handler_queues:
  "sv_queue (snd (handle_initial env endpoint pkt now unix draw adraws st)) = sv_queue st"
  "sv_queue (snd (handle_rekey env endpoint pkt adraw st)) = sv_queue st"
  "sv_queue (snd (handle_keepalive env endpoint pkt now draw st)) = sv_queue st"
  "sv_queue (snd (snd (handle_finish env endpoint pkt now unix draw st))) = sv_queue st"
  by (auto simp: handle_initial_def handle_rekey_def handle_keepalive_def handle_finish_def Let_def case_prod_unfold
      split: option.splits sum.splits handshake_message.splits bool.splits)

lemma dispatch_queue:
  assumes "dispatch env endpoint pkt n now unix draws adraws st = (res, out, st')"
  shows "sv_queue st' = sv_queue st \<or> handle_data env endpoint pkt n now draws st = (out, st') \<and> kind (header pkt) \<noteq> Close"
  using assms
proof (cases rule: dispatch_cases)
  case data
  then show ?thesis by (cases "kind (header pkt) = Close") (auto simp: handle_data_def Let_def split: option.splits prod.splits sum.splits)
qed (use handler_queues [of env endpoint pkt] in \<open>metis snd_conv\<close>)+

lemma data_forwarding:
  assumes inv: "server_inv env st" and "handle_data env endpoint pkt n now draws st = (out, st')" and "kind (header pkt) \<noteq> Close"
  shows "\<exists>new. queue_items (sv_queue st') key = queue_items (sv_queue st) key @ new \<and>
    (\<forall>x \<in> set new. \<exists>peer plaintext target w. authorised env st pkt now peer plaintext \<and> target_of st (session_id (header pkt)) target \<and>
       x = (Stable (peer_queue_key env (ap_identity target)), ap_endpoint target, w))"
  using assms(2,3,1)
proof (cases rule: data_cases)
  case quiet
  then show ?thesis by (intro exI [of _ "[]"]) simp
next
  case (forwarded peer plaintext s active1)
  let ?sid = "session_id (header pkt)" and ?k = "kind (header pkt)"
  obtain d where d: "fst (routed env (sv_router st) ?sid ?k plaintext) = Forward d"
    "queue_grows env active1 (set (del_peers d)) (sv_queue st) (sv_queue st')" using forwarded(4) by (auto simp: forwarded_to_def)
  obtain pe src net where pe: "map_of (r_peers (sv_router st)) ?sid = Some pe" "set (del_peers d) \<subseteq> linked pe - {?sid}"
    "source_of ?k plaintext = Some src" "net \<in> set (pi_allowed_ips (ap_identity peer))" "net_contains (se_ops env) net src"
    using sender_allowed [OF inv forwarded(1) d(1)] by blast
  have auth: "authorised env st pkt now peer plaintext" using forwarded(1,2) pe(3-5) by (auto simp: authorised_def)
  obtain new where new: "queue_items (sv_queue st') key = queue_items (sv_queue st) key @ new"
    "\<forall>x \<in> set new. \<exists>t \<in> set (del_peers d). \<exists>p w. map_of active1 t = Some p \<and>
       x = (Stable (peer_queue_key env (ap_identity p)), ap_endpoint p, w)"
    using d(2) unfolding queue_grows_def by blast
  have act: "map_of active1 t = map_of (sv_active st) t" if "t \<noteq> ?sid" for t
    using that by (simp add: forwarded(3) map_of_update_peer option.map_ident)
  have "\<exists>target w. target_of st ?sid target \<and> x = (Stable (peer_queue_key env (ap_identity target)), ap_endpoint target, w)"
    if mem: "x \<in> set new" for x
  proof -
    obtain t p w where t: "t \<in> set (del_peers d)" "map_of active1 t = Some p"
      "x = (Stable (peer_queue_key env (ap_identity p)), ap_endpoint p, w)" using new(2) mem by blast
    then have "t \<in> linked pe" "t \<noteq> ?sid" using pe(2) by auto
    then show ?thesis using t act pe(1) by (auto simp: target_of_def)
  qed
  then show ?thesis using new(1) auth by (intro exI [of _ new]) blast
qed

lemma authorised_reset [simp]: "authorised env (st\<lparr>sv_recv_errors := n\<rparr>) = authorised env st"
  by (simp add: fun_eq_iff authorised_def)

lemma target_of_reset [simp]: "target_of (st\<lparr>sv_recv_errors := n\<rparr>) = target_of st"
  by (simp add: fun_eq_iff target_of_def)

section \<open>Datagrams that authenticate nothing\<close>

lemma update_peer_same:
  assumes "distinct (map fst active)" and "map_of active sid = Some peer"
  shows "update_peer sid (\<lambda>_. peer) active = active"
  unfolding update_peer_def
proof (rule map_idI)
  fix e assume e: "e \<in> set active"
  show "(case e of (i, p) \<Rightarrow> (i, if i = sid then peer else p)) = e"
    using map_of_is_SomeI [OF assms(1), of "fst e" "snd e"] e assms(2) by (auto simp: case_prod_unfold prod_eq_iff)
qed

lemma set_same_session:
  assumes "server_inv env st" and "map_of (sv_active st) sid = Some peer" and "session_open p (ap_session peer) pkt now = (Inl e, s)"
  shows "st\<lparr>sv_active := update_peer sid (\<lambda>_. peer\<lparr>ap_session := s\<rparr>) (sv_active st)\<rparr> = st"
proof -
  have "peer\<lparr>ap_session := s\<rparr> = peer" using session_open_error [OF assms(3)] by simp
  then show ?thesis using update_peer_same [OF active_invD(1) [OF server_invD(6) [OF assms(1)]] assms(2)] by simp
qed

lemma closed_packet_ignored:
  assumes "server_inv env st" and "\<And>peer m. map_of (sv_active st) (session_id (header pkt)) = Some peer \<Longrightarrow>
      fst (session_open (se_prims env) (ap_session peer) pkt now) \<noteq> Inr m"
  shows "handle_data env endpoint pkt n now draws st = ([], st)" and "handle_keepalive env endpoint pkt now draw st = ([], st)"
proof -
  have "handle_data env endpoint pkt n now draws st = ([], st) \<and> handle_keepalive env endpoint pkt now draw st = ([], st)"
  proof (cases "map_of (sv_active st) (session_id (header pkt))")
    case None
    then show ?thesis by (simp add: handle_data_def handle_keepalive_def)
  next
    case (Some peer)
    obtain e s where o: "session_open (se_prims env) (ap_session peer) pkt now = (Inl e, s)"
      using assms(2) [OF Some] by (cases "session_open (se_prims env) (ap_session peer) pkt now"; cases "fst (session_open (se_prims env) (ap_session peer) pkt now)") auto
    show ?thesis using set_same_session [OF assms(1) Some o] Some o by (simp add: handle_data_def handle_keepalive_def)
  qed
  then show "handle_data env endpoint pkt n now draws st = ([], st)" "handle_keepalive env endpoint pkt now draw st = ([], st)" by blast+
qed

lemma challenge_reply:
  assumes "challenge_or_admit p secret None draw endpoint (Initiation pk r c m) now unix l = (False, out, l')" and "lawful_hash p"
  shows "out = [] \<or> (\<exists>reply. out = [(endpoint, reply)] \<and> length reply = 63)"
  using assms
  by (auto simp: challenge_or_admit_def Let_def hs_send_wire_def packet_encode_def header_encode_def ZERO_def SESSION_ID_LENGTH_def
      split: if_splits prod.splits bool.splits)

lemma initiation_length: "message_decode bs = Inr (Initiation pk r c m) \<Longrightarrow> length bs = 114"
  by (auto simp: message_decode_def split: if_splits)

section \<open>Where a session sends to\<close>

text \<open>The packet proves its sender: it opens under the session, or it completes a handshake in progress for it.\<close>

definition proves :: "'n server_env \<Rightarrow> 'n server_state \<Rightarrow> packet \<Rightarrow> instant \<Rightarrow> u64 \<Rightarrow> protected_session \<Rightarrow> bool" where
  "proves env st pkt now unix session \<longleftrightarrow>
     (\<exists>m. fst (session_open (se_prims env) session pkt now) = Inr m) \<or>
     (\<exists>state fin r. pending_get (sv_pending st) (session_id (header pkt)) = Some state \<and> message_decode (payload pkt) = Inr fin \<and>
        responder_finish (se_prims env) (ph_handshake state) fin unix now = Inr r)"

lemma same_owner_endpoint: "same_owner a b \<Longrightarrow> ap_endpoint b = ap_endpoint a"
  by (simp add: same_owner_def)

lemma send_keepalive_endpoint [simp]: "ap_endpoint (snd (send_keepalive env d p)) = ap_endpoint p"
  using send_keepalive_owner(1) [of env d p "fst (send_keepalive env d p)" "snd (send_keepalive env d p)"] by (simp add: same_owner_def)

lemma keepalive_endpoint:
  assumes "handle_keepalive env endpoint pkt now draw st = (out, st')" and "map_of (sv_active st) sid = Some a"
    and "map_of (sv_active st') sid = Some b" and "ap_endpoint b \<noteq> ap_endpoint a"
  shows "ap_endpoint b = endpoint \<and> session_id (header pkt) = sid \<and> (\<exists>m. fst (session_open (se_prims env) (ap_session a) pkt now) = Inr m)"
  using assms
  by (cases "sid = session_id (header pkt)")
    (auto simp: handle_keepalive_def Let_def case_prod_unfold map_of_update_peer option.map_ident split: option.splits sum.splits)

lemma data_endpoint:
  assumes "handle_data env endpoint pkt n now draws st = (out, st')" and "map_of (sv_active st) sid = Some a" and "server_inv env st"
    and "map_of (sv_active st') sid = Some b" and "ap_endpoint b \<noteq> ap_endpoint a"
  shows "ap_endpoint b = endpoint \<and> session_id (header pkt) = sid \<and> (\<exists>m. fst (session_open (se_prims env) (ap_session a) pkt now) = Inr m)"
proof (cases "map_of (sv_active st) (session_id (header pkt))")
  case None
  then show ?thesis using assms by (simp add: handle_data_def)
next
  case (Some peer)
  let ?sid = "session_id (header pkt)"
  obtain res s where o: "session_open (se_prims env) (ap_session peer) pkt now = (res, s)" by fastforce
  show ?thesis
  proof (cases "\<exists>plaintext. res = Inr plaintext \<and> kind (header pkt) \<noteq> Close \<and> \<not> (kind (header pkt) = Data \<and> plaintext = [])")
    case False
    have "map_of (filter (\<lambda>(i, _). i \<noteq> ?sid) (sv_active st)) sid = Some x \<Longrightarrow> map_of (sv_active st) sid = Some x" for x
      by (rule map_of_filter_Some [OF active_invD(1) [OF server_invD(6) [OF assms(3)]]])
    then show ?thesis using assms(1,2,4,5) Some o False
      by (cases res) (auto simp: handle_data_def Let_def map_of_update_peer split: if_splits)
  next
    case True
    then obtain plaintext where pt: "res = Inr plaintext" "kind (header pkt) \<noteq> Close" "\<not> (kind (header pkt) = Data \<and> plaintext = [])" by blast
    let ?a = "update_peer ?sid (\<lambda>_. peer\<lparr>ap_session := s, ap_last_rx := now, ap_endpoint := endpoint\<rparr>) (sv_active st)"
    obtain out1 r' active' q' where rt: "route_inbound env draws now ?sid (kind (header pkt)) plaintext n (sv_router st) ?a (sv_queue st) =
        (out1, r', active', q')" by (metis surj_pair)
    have "sv_active st' = active'" using assms(1) Some o pt rt by (auto simp: handle_data_def Let_def)
    moreover have "evolves ?a active'" using route_inbound_spec [OF rt server_invD(4) [OF assms(3)]] by blast
    ultimately obtain c where "map_of ?a sid = Some c" "same_owner c b" using evolvesD2 assms(4) by blast
    then show ?thesis using assms(2,5) Some o pt(1) same_owner_endpoint by (auto simp: map_of_update_peer split: if_splits)
  qed
qed

lemma finish_endpoint:
  assumes "handle_finish env endpoint pkt now unix draw st = (res, out, st')" and "map_of (sv_active st) sid = Some a" and "server_inv env st"
    and "map_of (sv_active st') sid = Some b" and "ap_endpoint b \<noteq> ap_endpoint a"
  shows "ap_endpoint b = endpoint \<and> session_id (header pkt) = sid \<and> proves env st pkt now unix (ap_session a)"
proof -
  let ?sid = "session_id (header pkt)"
  note D = server_invD [OF assms(3)]
  obtain evicted p' active' where run: "finish_pending (se_prims env) (se_parsers env) (sv_pending st) (sv_active st) endpoint pkt
      (se_grace env) (se_rx_rate env) unix now = (evicted, p', active')" by (metis surj_pair)
  have "\<exists>c. map_of active' sid = Some c \<and> ap_endpoint c = ap_endpoint b"
    using assms(1,4) run
    by (auto simp: handle_finish_def Let_def case_prod_unfold map_of_update_peer split: option.splits sum.splits if_splits)
  then obtain c where c: "map_of active' sid = Some c" "ap_endpoint c = ap_endpoint b" by blast
  from run show ?thesis
  proof (cases rule: finish_pending_cases)
    case kept
    then show ?thesis using c assms(2,5) by simp
  next
    case (installed state fin session remote identity)
    have id: "ps_session_id session = ?sid"
      using responder_finish_vouched [OF installed(5)] pending_ok_get [OF D(2) installed(1)] by (auto simp: session_new_def entry_ok_def)
    note look = install_session_lookup [OF installed(7) D(6), unfolded id]
    have "sid = ?sid" by (rule ccontr) (use look(2) [of sid] c assms(2,5) in \<open>auto split: if_splits\<close>)
    then show ?thesis using look(1) c installed(1,4,5) by (auto simp: proves_def)
  qed
qed

section \<open>Properties\<close>

text \<open>
  C9. In every reachable state of the server its tables agree: each active session is filed under its own identifier and no peer
  has two; the router knows exactly the active sessions, each with the name and networks of its peer, one owner for each
  MAC address and links only between registered sessions; handshakes in progress are counted exactly and within the
  limit for their source; and the outbound queue is consistent.
\<close>

theorem server_invariant:
  assumes "server_reach env st"
  shows "active_inv (sv_active st) \<and> router_inv (se_ops env) (sv_router st) \<and> registered (sv_router st) = owners (sv_active st) \<and>
    pending_inv (sv_pending st) \<and> (\<forall>source. count_for (sv_pending st) source \<le> per_source_pending_limit (sv_identities st) (sv_ca st)) \<and>
    fq_inv (sv_queue st)"
  using server_invD [OF server_reach_inv [OF assms]] by (simp add: within_def config_inv_def)

text \<open>
  C10. Whatever a datagram makes the server write to its local device is the plaintext of that datagram, which authenticated
  and was not a replay under an active session, and whose source address lies in the networks allowed to that session's peer.
\<close>

theorem local_delivery_authentic:
  assumes reach: "server_reach env st"
    and run: "server_step env (Datagram endpoint bs now unix draws adraws) st = (res, out, st')"
    and out: "ToTun b \<in> set out \<or> ToTap b \<in> set out"
  shows "\<exists>plain pkt peer. unwrap_wire env bs = Inr plain \<and> packet_decode plain = Inr pkt \<and> authorised env st pkt now peer b"
  using run
proof (cases rule: datagram_cases)
  case ignored
  then show ?thesis using out by simp
next
  case (packet plain pkt)
  let ?st = "st\<lparr>sv_recv_errors := 0\<rparr>"
  have inv: "server_inv env ?st" by (rule server_inv_reset [OF server_reach_inv [OF reach]])
  from packet(3) show ?thesis
  proof (cases rule: dispatch_cases)
    case data
    have "kind (header pkt) \<noteq> Close"
      using data(2) out by (auto simp: handle_data_def Let_def split: option.splits prod.splits sum.splits)
    from data(2) this inv show ?thesis
    proof (cases rule: data_cases)
      case quiet
      then show ?thesis using out by simp
    next
      case (forwarded peer plaintext s active1)
      then obtain d out1 where d: "fst (routed env (sv_router st) (session_id (header pkt)) (kind (header pkt)) plaintext) = Forward d"
        "out = out1 @ injected env (kind (header pkt)) d plaintext" "effects_to active1 (set (del_peers d)) out1"
        by (auto simp: forwarded_to_def)
      have "b = plaintext" using out d(2) by (auto dest: effects_to_wire [OF d(3)] injected_local)
      then have "authorised env st pkt now peer b"
        using forwarded(1,2) sender_allowed [OF server_reach_inv [OF reach] _ d(1)] unfolding authorised_def by fastforce
      then show ?thesis using packet(1,2) by blast
    qed
  next
    case initial
    then show ?thesis using out initial_effects [OF initial(4)] by blast
  next
    case finish
    then show ?thesis using out finish_effects [OF finish(3)] by blast
  next
    case rekey
    then show ?thesis using out rekey_effects [OF rekey(2)] by blast
  next
    case keepalive
    then show ?thesis using out keepalive_effects [OF keepalive(2)] by blast
  next
    case unused
    then show ?thesis using out by simp
  qed
qed

text \<open>
  C3. Whatever a datagram adds to the outbound queue is for another active peer that the router's entry of the sender lists as linked, under that
  peer's queue key and current endpoint; the datagram authenticated under the sender's session and carries a source address the
  sender is allowed. When the configured links are symmetric, the configuration links the names of the two peers; for directed links the
  router's entries depend on the order in which peers registered.
\<close>

theorem forwarding_isolated:
  assumes reach: "server_reach env st"
    and run: "server_step env (Datagram endpoint bs now unix draws adraws) st = (res, out, st')"
  shows "\<exists>new. queue_items (sv_queue st') key = queue_items (sv_queue st) key @ new \<and>
    (\<forall>x \<in> set new. \<exists>plain pkt peer plaintext target w.
       unwrap_wire env bs = Inr plain \<and> packet_decode plain = Inr pkt \<and> authorised env st pkt now peer plaintext \<and>
       target_of st (session_id (header pkt)) target \<and> x = (Stable (peer_queue_key env (ap_identity target)), ap_endpoint target, w) \<and>
       (sym (links_for_config (sv_config st)) \<longrightarrow>
          links_linked (links_for_config (sv_config st)) (pi_name (ap_identity peer)) (pi_name (ap_identity target))))"
proof -
  have same: ?thesis if "sv_queue st' = sv_queue st" using that by (intro exI [of _ "[]"]) simp
  from run show ?thesis
  proof (cases rule: datagram_cases)
    case (packet plain pkt)
    from dispatch_queue [OF packet(3)] show ?thesis
    proof
      assume "sv_queue st' = sv_queue (st\<lparr>sv_recv_errors := 0\<rparr>)"
      then show ?thesis by (intro same) simp
    next
      assume h: "handle_data env endpoint pkt (length bs) now draws (st\<lparr>sv_recv_errors := 0\<rparr>) = (out, st') \<and> kind (header pkt) \<noteq> Close"
      obtain new where new: "queue_items (sv_queue st') key = queue_items (sv_queue st) key @ new"
        "\<forall>x \<in> set new. \<exists>peer plaintext target w. authorised env st pkt now peer plaintext \<and> target_of st (session_id (header pkt)) target \<and>
           x = (Stable (peer_queue_key env (ap_identity target)), ap_endpoint target, w)"
        using data_forwarding [OF server_inv_reset [OF server_reach_inv [OF reach]] conjunct1 [OF h] conjunct2 [OF h], of key]
        unfolding authorised_reset target_of_reset by auto
      have "links_linked (links_for_config (sv_config st)) (pi_name (ap_identity peer)) (pi_name (ap_identity target))"
        if "authorised env st pkt now peer plaintext" "target_of st (session_id (header pkt)) target" "sym (links_for_config (sv_config st))"
        for peer plaintext target
        by (rule linked_names [OF reach that(3) _ that(2)]) (use that(1) in \<open>simp add: authorised_def\<close>)
      then show ?thesis using new packet(1,2) by (intro exI [of _ new]) blast
    qed
  qed (simp add: same)
qed

text \<open>
  C21. A data, close or keepalive packet that does not open under the session it names changes nothing and is not answered: the server
  sends nothing, writes nothing to a device, and only its counter of receive errors is reset.
\<close>

theorem unauthenticated_ignored:
  assumes reach: "server_reach env st" and pkt: "unwrap_wire env bs = Inr plain" "packet_decode plain = Inr pkt"
    and kind: "kind (header pkt) \<in> {Data, DataTap, Close, Keepalive}"
    and closed: "\<And>peer m. map_of (sv_active st) (session_id (header pkt)) = Some peer \<Longrightarrow> fst (session_open (se_prims env) (ap_session peer) pkt now) \<noteq> Inr m"
  shows "server_step env (Datagram endpoint bs now unix draws adraws) st = (Inr (), [], st\<lparr>sv_recv_errors := 0\<rparr>)"
proof -
  let ?st = "st\<lparr>sv_recv_errors := 0\<rparr>"
  have inv: "server_inv env ?st" by (rule server_inv_reset [OF server_reach_inv [OF reach]])
  note ignored = closed_packet_ignored [OF inv, of pkt now]
  have "handle_data env endpoint pkt (length bs) now draws ?st = ([], ?st)" "handle_keepalive env endpoint pkt now (draws 0) ?st = ([], ?st)"
    using ignored closed by simp_all
  then show ?thesis using pkt kind by (auto simp: handle_datagram_def dispatch_def ok_step_def)
qed

text \<open>
  C22. The address a session sends to changes only to the sender of a datagram that authenticates: one that opens under the session, or
  completes a handshake in progress for it.
\<close>

theorem endpoint_change_authenticated:
  assumes reach: "server_reach env st" and run: "server_step env (Datagram endpoint bs now unix draws adraws) st = (res, out, st')"
    and peers: "map_of (sv_active st) sid = Some a" "map_of (sv_active st') sid = Some b" and moved: "ap_endpoint b \<noteq> ap_endpoint a"
  shows "ap_endpoint b = endpoint \<and>
    (\<exists>plain pkt. unwrap_wire env bs = Inr plain \<and> packet_decode plain = Inr pkt \<and> session_id (header pkt) = sid \<and> proves env st pkt now unix (ap_session a))"
  using run
proof (cases rule: datagram_cases)
  case ignored
  then show ?thesis using peers moved by simp
next
  case (packet plain pkt)
  let ?st = "st\<lparr>sv_recv_errors := 0\<rparr>"
  have inv: "server_inv env ?st" by (rule server_inv_reset [OF server_reach_inv [OF reach]])
  have p: "map_of (sv_active ?st) sid = Some a" using peers(1) by simp
  have pr: "proves env st pkt now unix (ap_session a)" if "proves env ?st pkt now unix (ap_session a)" using that by (simp add: proves_def)
  from packet(3) have "ap_endpoint b = endpoint \<and> session_id (header pkt) = sid \<and> proves env st pkt now unix (ap_session a)"
  proof (cases rule: dispatch_cases)
    case initial
    then show ?thesis using p peers(2) moved by (auto simp: handle_initial_def Let_def split: sum.splits handshake_message.splits prod.splits bool.splits)
  next
    case finish
    then show ?thesis using finish_endpoint [OF finish(3) p inv peers(2) moved] pr by blast
  next
    case rekey
    then show ?thesis using p peers(2) moved by (auto simp: handle_rekey_def Let_def split: option.splits sum.splits handshake_message.splits prod.splits if_splits)
  next
    case keepalive
    then show ?thesis using keepalive_endpoint [OF keepalive(2) p peers(2) moved] by (auto simp: proves_def)
  next
    case data
    then show ?thesis using data_endpoint [OF data(2) p inv peers(2) moved] by (auto simp: proves_def)
  next
    case unused
    then show ?thesis using p peers(2) moved by simp
  qed
  then show ?thesis using packet(1,2) by blast
qed

text \<open>
  C20. An initiation without a valid cookie leaves no trace but in the limiter of challenges: no handshake is put in progress, at most one
  datagram is sent, to the sender, and without obfuscation it is shorter than the request.
\<close>

theorem initiation_without_cookie:
  assumes pkt: "unwrap_wire env bs = Inr plain" "packet_decode plain = Inr pkt"
    and initial: "kind (header pkt) = Handshake" "sequence (header pkt) = 0" "session_id (header pkt) = ZERO"
    and msg: "message_decode (payload pkt) = Inr (Initiation pk r c m)"
    and cookie: "\<And>ck. c = Some ck \<Longrightarrow> \<not> cookie_verify (se_prims env) (se_cookie_key env) endpoint pk r ck unix"
    and law: "lawful_hash (se_prims env)"
  shows "\<exists>out l. server_step env (Datagram endpoint bs now unix draws adraws) st = (Inr (), out, st\<lparr>sv_recv_errors := 0, sv_cookies := l\<rparr>) \<and>
    (out = [] \<or> (\<exists>reply. out = [Wire endpoint reply] \<and> (se_obfuscation env = None \<longrightarrow> length reply < length bs)))"
proof -
  obtain admitted out l where c: "challenge_or_admit (se_prims env) (se_cookie_key env) (se_obfuscation env) (draws 0) endpoint (Initiation pk r c m) now unix
      (sv_cookies st) = (admitted, out, l)" using prod_cases3 by blast
  have out: "\<not> admitted \<and> (out = [] \<or> (\<exists>reply. out = [(endpoint, reply)]))"
    using c cookie by (auto simp: challenge_or_admit_def Let_def hs_send_wire_def split: option.splits if_splits prod.splits bool.splits sum.splits)
  have len: "length reply < length bs" if "out = [(endpoint, reply)]" "se_obfuscation env = None" for reply
  proof -
    have "length bs = 30 + length (payload pkt)"
      using packet_encode_decode [OF pkt(2)] pkt(1) that(2) length_packet_encode [of pkt] by (simp add: unwrap_wire_def)
    moreover have "length reply = 63"
      using challenge_reply [of "se_prims env" "se_cookie_key env" "draws 0" endpoint pk r c m now unix "sv_cookies st" out l, OF _ law] c out that by simp
    ultimately show ?thesis using initiation_length [OF msg] by simp
  qed
  have "server_step env (Datagram endpoint bs now unix draws adraws) st = (Inr (), wires out, st\<lparr>sv_recv_errors := 0, sv_cookies := l\<rparr>)"
    using pkt initial msg c out by (simp add: handle_datagram_def dispatch_def handle_initial_def ok_step_def)
  then show ?thesis using out len by auto
qed

text \<open>What a peer keeps over a reload that does not touch authentication: everything but its rate limiter.\<close>

definition kept :: "session_id \<times> 'n active_peer \<Rightarrow> session_id \<times> 'n active_peer" where
  "kept e = (fst e, (snd e)\<lparr>ap_rx_limiter := limiter_new 0 0\<rparr>)"

lemma kept_limits: "map kept (sv_active (apply_limits c now st)) = map kept (sv_active st)"
  by (simp add: apply_limits_def update_all_def kept_def case_prod_unfold)

text \<open>
  Reloading is all or nothing: when it is refused or finds nothing changed, the server goes on as before. Otherwise the settings
  that are fixed at start are unchanged and the candidate is in force with its identities, authority and limits. If peers or the authority
  changed, no session and no handshake in progress is left; if not, every session is kept and nothing is sent.
\<close>

theorem reload_effect:
  "case reload_config env loaded dns_ok now draws st of (res, out, st') \<Rightarrow>
    (if res = Inr True then
      (\<exists>candidate ids. loaded = Inr candidate \<and> peer_identities (se_parsers env) candidate = Inr ids \<and>
         static_projection (sv_config st) = static_projection candidate \<and> sv_config st' = candidate \<and> sv_identities st' = ids \<and>
         sv_ca st' = sc_certificate_authority candidate \<and> sv_limit st' = per_source_pending_limit ids (sc_certificate_authority candidate) \<and>
         (if auth_projection (sv_config st) = auth_projection candidate
          then out = [] \<and> map kept (sv_active st') = map kept (sv_active st) \<and> sv_pending st' = sv_pending st
          else sv_active st' = [] \<and> sv_pending st' = pending_new))
    else out = [] \<and> st' = st)"
proof (cases loaded)
  case (Inr candidate)
  show ?thesis
  proof (cases "auth_projection (sv_config st) = auth_projection candidate")
    case True
    then show ?thesis using Inr by (auto simp: reload_config_def Let_def kept_limits split: sum.splits if_splits)
  next
    case False
    then show ?thesis using Inr
      by (auto simp: reload_config_def Let_def drop_all_peers_def apply_limits_def update_all_def split: sum.splits if_splits prod.splits)
  qed
qed (simp add: reload_config_def)

text \<open>
  The comparison that decides whether sessions are dropped depends on the iteration order of the overrides of the authority, a hash map: two
  configurations with the same overrides, in another order, count as a change of authentication, and a reload drops every session.
\<close>

theorem reload_order_sensitive:
  assumes "sc_certificate_authority (sv_config st) = Some (ca\<lparr>ca_peer_overrides := [a, b]\<rparr>)" and "fst a \<noteq> fst b"
    and "peer_identities (se_parsers env) (sv_config st) = Inr ids"
    and "candidate = (sv_config st)\<lparr>sc_certificate_authority := Some (ca\<lparr>ca_peer_overrides := [b, a]\<rparr>)\<rparr>"
  shows "map_of [a, b] = map_of [b, a] \<and> fst (reload_config env (Inr candidate) dns_ok now draws st) = Inr True \<and>
    sv_active (snd (snd (reload_config env (Inr candidate) dns_ok now draws st))) = []"
proof (intro conjI)
  show "map_of [a, b] = map_of [b, a]" using assms(2) by (cases a; cases b) (auto simp: fun_upd_twist)
  have "ca\<lparr>ca_peer_overrides := [a, b]\<rparr> \<noteq> ca\<lparr>ca_peer_overrides := [b, a]\<rparr>"
  proof
    assume "ca\<lparr>ca_peer_overrides := [a, b]\<rparr> = ca\<lparr>ca_peer_overrides := [b, a]\<rparr>"
    from arg_cong [OF this, of "\<lambda>c. fst (hd (ca_peer_overrides c))"] show False using assms(2) by simp
  qed
  then have ch: "auth_projection (sv_config st) \<noteq> auth_projection candidate" using assms(1,4) by (simp add: auth_projection_def)
  moreover have "static_projection (sv_config st) = static_projection candidate" "sc_links (sv_config st) = sc_links candidate"
    "sc_dns (sv_config st) = sc_dns candidate" "sc_limits (sv_config st) = sc_limits candidate" "peer_identities (se_parsers env) candidate = Inr ids"
    using assms(3,4) by (auto simp: static_projection_def peer_identities_def split: if_splits)
  ultimately show "fst (reload_config env (Inr candidate) dns_ok now draws st) = Inr True"
    "sv_active (snd (snd (reload_config env (Inr candidate) dns_ok now draws st))) = []"
    by (simp_all add: reload_config_def drop_all_peers_def Let_def case_prod_beta)
qed

end
