(* ===== verification/Client_Handshake.thy ===== *)
theory Client_Handshake
  imports Server_Handshake Transport_Base Config
begin

text \<open>
  The client's side of the handshake, \<^verbatim>\<open>apps/rvpn-client/src/handshake.rs\<close>. What the awaited calls give is an argument: a script with
  one entry for each turn of a receiving loop, and the result of each send. The datagrams given to the transport are returned in order. A
  script that ends while the code still waits gives the result \<open>Blocked\<close>.
\<close>

section \<open>Environment\<close>

record client_env =
  ce_prims :: prims
  ce_server :: socket_addr
  ce_auth :: auth_config
  ce_obfuscation :: "bytes option"
  ce_policy :: handshake_config

datatype establish_error =
    EsHandshake handshake_error
  | EsCrypto crypto_error
  | EsTransport transport_error
  | EsKeyPhaseExhausted
  | EsResponseTimeout
  | EsFinishTimeout

text \<open>
  One turn of a receiving loop: the time since the wait began when the remaining time is computed, and what the timed receive gives if it
  is called. An arrival has its sender, its bytes, and the wall clock and the monotonic clock while it is handled.
\<close>

datatype recv_event = Arrived socket_addr bytes u64 instant | RecvFailed transport_error | Elapsed

type_synonym turn = "duration \<times> recv_event"

text \<open>Random draws for the \<open>n\<close>-th datagram sent and whether sending it fails, and the clocks when the response is processed.\<close>

record client_io =
  io_start :: "bytes option \<times> bytes option"
  io_draw :: "nat \<Rightarrow> obf_draw"
  io_sent :: "nat \<Rightarrow> transport_error option"
  io_finish :: "u64 \<times> instant"

datatype 'a awaited = Got 'a | TimedOut | Erred establish_error | Blocked

section \<open>Sending and receiving\<close>

definition client_send :: "client_env \<Rightarrow> client_io \<Rightarrow> packet \<Rightarrow> bytes list \<Rightarrow> (establish_error + unit) \<times> bytes list" where
  "client_send env io pkt out =
     (case wrap_wire (ce_prims env) (ce_obfuscation env) (io_draw io (length out)) (packet_encode pkt) of
        Inl e \<Rightarrow> (Inl (EsCrypto e), out)
      | Inr wire \<Rightarrow>
          (case io_sent io (length out) of
             Some e \<Rightarrow> (Inl (EsTransport e), out @ [wire])
           | None \<Rightarrow> (Inr (), out @ [wire])))"

definition client_unwrap :: "client_env \<Rightarrow> bytes \<Rightarrow> crypto_error + bytes" where
  "client_unwrap env bs = (case ce_obfuscation env of Some key \<Rightarrow> obf_unwrap (ce_prims env) key bs | None \<Rightarrow> Inr bs)"

text \<open>The packet a datagram carries, if it comes from the server and decodes.\<close>

definition server_packet :: "client_env \<Rightarrow> socket_addr \<Rightarrow> bytes \<Rightarrow> packet option" where
  "server_packet env peer bs =
     (if peer \<noteq> ce_server env then None
      else case client_unwrap env bs of
        Inl _ \<Rightarrow> None
      | Inr plain \<Rightarrow> (case packet_decode plain of Inl _ \<Rightarrow> None | Inr pkt \<Rightarrow> Some pkt))"

section \<open>Waiting for the response\<close>

datatype response_verdict = Ignore | Accept handshake_message | Resend bytes | Abort establish_error

definition response_action ::
  "client_env \<Rightarrow> packet_kind \<Rightarrow> session_id option \<Rightarrow> initiator_handshake \<Rightarrow> u64 \<Rightarrow> packet \<Rightarrow> response_verdict" where
  "response_action env k old ih unix pkt =
     (if kind (header pkt) = k \<and> (case old of None \<Rightarrow> True | Some sid \<Rightarrow> session_id (header pkt) = sid) then
        (case message_decode (payload pkt) of
           Inr (Response public_key random advertised sealed_proof) \<Rightarrow>
             if session_id (header pkt) = advertised then
               (case authenticates_response (ce_prims env) ih (Response public_key random advertised sealed_proof) unix of
                  Inl e \<Rightarrow> Abort (EsHandshake e)
                | Inr authentic \<Rightarrow> if authentic then Accept (Response public_key random advertised sealed_proof) else Ignore)
             else Ignore
         | Inr (CookieReply cookie) \<Rightarrow> Resend cookie
         | _ \<Rightarrow> Ignore)
      else Ignore)"

definition initiation_with :: "packet \<Rightarrow> initiator_handshake \<Rightarrow> packet" where
  "initiation_with pkt ih = pkt\<lparr>payload := message_encode (ih_initiation ih)\<rparr>"

text \<open>The state of the wait: the handshake and the packet that is retransmitted.\<close>

type_synonym waiting = "initiator_handshake \<times> packet"

fun await_response ::
  "client_env \<Rightarrow> client_io \<Rightarrow> packet_kind \<Rightarrow> session_id option \<Rightarrow> turn list \<Rightarrow> waiting \<Rightarrow> bytes list \<Rightarrow>
   handshake_message awaited \<times> turn list \<times> waiting \<times> bytes list" where
  "await_response env io k old [] w out = (Blocked, [], w, out)"
| "await_response env io k old ((elapsed, ev) # rest) w out =
     (if millis (retry_jitter_ms (ce_policy env)) - elapsed = 0 then (TimedOut, rest, w, out)
      else case ev of
        Elapsed \<Rightarrow> (TimedOut, rest, w, out)
      | RecvFailed e \<Rightarrow> (Erred (EsTransport e), rest, w, out)
      | Arrived peer bs unix _ \<Rightarrow>
          (case server_packet env peer bs of
             None \<Rightarrow> await_response env io k old rest w out
           | Some pkt \<Rightarrow>
               (case response_action env k old (fst w) unix pkt of
                  Ignore \<Rightarrow> await_response env io k old rest w out
                | Accept response \<Rightarrow> (Got response, rest, w, out)
                | Abort e \<Rightarrow> (Erred e, rest, w, out)
                | Resend cookie \<Rightarrow>
                    (let ih = attach_cookie (ce_prims env) (fst w) cookie; initiation = initiation_with (snd w) ih in
                     case client_send env io initiation out of
                       (Inl e, out1) \<Rightarrow> (Erred e, rest, (ih, initiation), out1)
                     | (Inr _, out1) \<Rightarrow> await_response env io k old rest (ih, initiation) out1))))"

fun response_attempts ::
  "client_env \<Rightarrow> client_io \<Rightarrow> packet_kind \<Rightarrow> session_id option \<Rightarrow> nat \<Rightarrow> turn list \<Rightarrow> waiting \<Rightarrow> bytes list \<Rightarrow>
   handshake_message awaited \<times> turn list \<times> waiting \<times> bytes list" where
  "response_attempts env io k old 0 script w out = (Erred EsResponseTimeout, script, w, out)"
| "response_attempts env io k old (Suc n) script w out =
     (case client_send env io (snd w) out of
        (Inl e, out1) \<Rightarrow> (Erred e, script, w, out1)
      | (Inr _, out1) \<Rightarrow>
          (case await_response env io k old script w out1 of
             (TimedOut, rest, w1, out2) \<Rightarrow> response_attempts env io k old n rest w1 out2
           | result \<Rightarrow> result))"

section \<open>Waiting for the acknowledgement\<close>

fun await_ack ::
  "client_env \<Rightarrow> turn list \<Rightarrow> protected_session \<Rightarrow> protected_session awaited \<times> turn list \<times> protected_session" where
  "await_ack env [] s = (Blocked, [], s)"
| "await_ack env ((elapsed, ev) # rest) s =
     (if millis (max (retry_interval_ms (ce_policy env)) 1 + retry_jitter_ms (ce_policy env)) - elapsed = 0 then (TimedOut, rest, s)
      else case ev of
        Elapsed \<Rightarrow> (TimedOut, rest, s)
      | RecvFailed e \<Rightarrow> (Erred (EsTransport e), rest, s)
      | Arrived peer bs _ now \<Rightarrow>
          (case server_packet env peer bs of
             None \<Rightarrow> await_ack env rest s
           | Some pkt \<Rightarrow>
               if session_id (header pkt) \<noteq> ps_session_id s \<or> kind (header pkt) \<noteq> Keepalive then await_ack env rest s
               else
                 (case session_open (ce_prims env) s pkt now of
                    (Inr _, s1) \<Rightarrow> (Got s1, rest, s1)
                  | (Inl _, s1) \<Rightarrow> await_ack env rest s1)))"

fun finish_attempts ::
  "client_env \<Rightarrow> client_io \<Rightarrow> packet \<Rightarrow> nat \<Rightarrow> turn list \<Rightarrow> protected_session \<Rightarrow> bytes list \<Rightarrow>
   protected_session awaited \<times> turn list \<times> bytes list" where
  "finish_attempts env io pkt 0 script s out = (Erred EsFinishTimeout, script, out)"
| "finish_attempts env io pkt (Suc n) script s out =
     (case client_send env io pkt out of
        (Inl e, out1) \<Rightarrow> (Erred e, script, out1)
      | (Inr _, out1) \<Rightarrow>
          (case await_ack env script s of
             (TimedOut, rest, s1) \<Rightarrow> finish_attempts env io pkt n rest s1 out1
           | (result, rest, _) \<Rightarrow> (result, rest, out1)))"

section \<open>Establishing a session\<close>

definition establish_target :: "protected_session option \<Rightarrow> establish_error + (packet_kind \<times> session_id \<times> u32)" where
  "establish_target old =
     (case old of
        Some session \<Rightarrow>
          if ps_key_phase session = - 1 then Inl EsKeyPhaseExhausted
          else Inr (Rekey, ps_session_id session, ps_key_phase session + 1)
      | None \<Rightarrow> Inr (Handshake, ZERO, 0))"

definition finish_response ::
  "client_env \<Rightarrow> initiator_handshake \<Rightarrow> handshake_message \<Rightarrow> protected_session option \<Rightarrow> session_id \<Rightarrow> u32 \<Rightarrow> u64 \<times> instant \<Rightarrow>
   handshake_error + (handshake_message \<times> protected_session \<times> bytes option)" where
  "finish_response env ih response old sid phase clock =
     (case old of
        Some _ \<Rightarrow> finish_for_session (ce_prims env) ih response sid phase (fst clock) (snd clock)
      | None \<Rightarrow> initiator_finish (ce_prims env) ih response (fst clock) (snd clock))"

definition response_session :: "handshake_message \<Rightarrow> session_id" where
  "response_session response = (case response of Response _ _ sid _ \<Rightarrow> sid | _ \<Rightarrow> ZERO)"

definition establish ::
  "client_env \<Rightarrow> client_io \<Rightarrow> protected_session option \<Rightarrow> turn list \<Rightarrow> protected_session awaited \<times> turn list \<times> bytes list" where
  "establish env io old script =
     (case initiator_start (ce_prims env) (cfg_identity (ce_auth env)) (cfg_verifier (ce_auth env)) (fst (io_start io)) (snd (io_start io)) of
        Inl e \<Rightarrow> (Erred (EsHandshake e), script, [])
      | Inr (ih0, initiation) \<Rightarrow>
          (case establish_target old of
             Inl e \<Rightarrow> (Erred e, script, [])
           | Inr (k, sid, phase) \<Rightarrow>
               (let old_phase = (case old of Some session \<Rightarrow> ps_key_phase session | None \<Rightarrow> 0);
                    pkt = \<lparr>header = \<lparr>kind = k, key_phase = old_phase, sequence = 0, session_id = sid\<rparr>, payload = message_encode initiation\<rparr>
                in case response_attempts env io k (map_option ps_session_id old) (retry_limit (ce_policy env)) script (ih0, pkt) [] of
                     (Got response, rest, (ih, _), out) \<Rightarrow>
                       (case finish_response env ih response old sid phase (io_finish io) of
                          Inl e \<Rightarrow> (Erred (EsHandshake e), rest, out)
                        | Inr (fin, session, _) \<Rightarrow>
                            (let fpkt = \<lparr>header = \<lparr>kind = k, key_phase = old_phase, sequence = 1, session_id = response_session response\<rparr>,
                                        payload = message_encode fin\<rparr>
                             in finish_attempts env io fpkt (retry_limit (ce_policy env)) rest session out))
                   | (TimedOut, rest, _, out) \<Rightarrow> (TimedOut, rest, out)
                   | (Erred e, rest, _, out) \<Rightarrow> (Erred e, rest, out)
                   | (Blocked, rest, _, out) \<Rightarrow> (Blocked, rest, out))))"

text \<open>\<^verbatim>\<open>maybe_rekey\<close>: whether a rekey happened, and the session after it.\<close>

definition client_maybe_rekey ::
  "client_env \<Rightarrow> client_io \<Rightarrow> rekey_config \<Rightarrow> instant \<Rightarrow> turn list \<Rightarrow> protected_session \<Rightarrow>
   bool awaited \<times> turn list \<times> bytes list \<times> protected_session" where
  "client_maybe_rekey env io rekey now script session =
     (if \<not> should_rekey_with_policy session (of_nat (packet_limit rekey)) (time_limit rekey) now then (Got False, script, [], session)
      else case establish env io (Some session) script of
        (Got session1, rest, out) \<Rightarrow> (Got True, rest, out, session1)
      | (TimedOut, rest, out) \<Rightarrow> (TimedOut, rest, out, session)
      | (Erred e, rest, out) \<Rightarrow> (Erred e, rest, out, session)
      | (Blocked, rest, out) \<Rightarrow> (Blocked, rest, out, session))"

section \<open>What the loops return\<close>

lemma response_action_Accept:
  "response_action env k old ih unix pkt = Accept response \<Longrightarrow>
     authenticates_response (ce_prims env) ih response unix = Inr True \<and> response_session response = session_id (header pkt) \<and>
     kind (header pkt) = k \<and> (\<forall>sid. old = Some sid \<longrightarrow> session_id (header pkt) = sid) \<and> is_response response"
  by (auto simp: response_action_def response_session_def split: if_splits option.splits sum.splits handshake_message.splits bool.splits)

text \<open>The handshake evolves only by attaching cookies, and the packet that is sent carries its current initiation.\<close>

definition same_initiator :: "prims \<Rightarrow> packet_kind \<Rightarrow> waiting \<Rightarrow> waiting \<Rightarrow> bool" where
  "same_initiator p k w0 w \<longleftrightarrow>
     (initiator_inv p (fst w0) \<longrightarrow> initiator_inv p (fst w)) \<and> ih_identity (fst w) = ih_identity (fst w0) \<and>
     ih_verifier (fst w) = ih_verifier (fst w0) \<and> ih_key_pair (fst w) = ih_key_pair (fst w0) \<and> header (snd w) = header (snd w0)"

lemma same_initiator_refl [simp]: "same_initiator p k w w"
  by (simp add: same_initiator_def)

lemma same_initiator_trans: "same_initiator p k a b \<Longrightarrow> same_initiator p k b c \<Longrightarrow> same_initiator p k a c"
  by (simp add: same_initiator_def)

lemma attach_cookie_fields [simp]:
  "ih_identity (attach_cookie p ih c) = ih_identity ih" "ih_verifier (attach_cookie p ih c) = ih_verifier ih"
  "ih_key_pair (attach_cookie p ih c) = ih_key_pair ih"
  by (simp_all add: attach_cookie_def split: handshake_message.splits)

lemma same_initiator_cookie: "same_initiator p k w (attach_cookie p (fst w) c, initiation_with (snd w) ih)"
  using initiator_inv_attach_cookie by (auto simp: same_initiator_def initiation_with_def)

text \<open>A response the client accepts authenticates under its current initiation, and answers for the session it rekeys.\<close>

definition answers :: "client_env \<Rightarrow> session_id option \<Rightarrow> initiator_handshake \<Rightarrow> handshake_message \<Rightarrow> bool" where
  "answers env old ih response \<longleftrightarrow>
     (\<exists>unix. authenticates_response (ce_prims env) ih response unix = Inr True) \<and> is_response response \<and>
     (\<forall>sid. old = Some sid \<longrightarrow> response_session response = sid)"

lemma client_send_out: "client_send env io pkt out = (r, out') \<Longrightarrow> length out' \<le> Suc (length out) \<and> take (length out) out' = out"
  by (auto simp: client_send_def split: sum.splits option.splits)

definition waited ::
  "client_env \<Rightarrow> packet_kind \<Rightarrow> session_id option \<Rightarrow> turn list \<Rightarrow> waiting \<Rightarrow> nat \<Rightarrow>
   handshake_message awaited \<times> turn list \<times> waiting \<times> bytes list \<Rightarrow> bool" where
  "waited env k old script w sent result \<longleftrightarrow>
     (case result of (r, rest, w', out') \<Rightarrow>
        same_initiator (ce_prims env) k w w' \<and> (\<exists>used. script = used @ rest \<and> length out' \<le> sent + length used) \<and>
        (\<forall>response. r = Got response \<longrightarrow> answers env old (fst w') response))"

lemma waited_now:
  "\<exists>used. script = used @ rest \<and> length out \<le> sent + length used \<Longrightarrow> (\<And>response. r = Got response \<Longrightarrow> answers env old (fst w) response) \<Longrightarrow>
   waited env k old script w sent (r, rest, w, out)"
  by (simp add: waited_def)

lemma waited_later:
  assumes "waited env k old rest w' sent' result" and "same_initiator (ce_prims env) k w w'" and "sent' \<le> Suc sent"
  shows "waited env k old (t # rest) w sent result"
proof -
  obtain r rest' w1 out' where r: "result = (r, rest', w1, out')" using prod_cases4 by blast
  obtain used where u: "rest = used @ rest'" "length out' \<le> sent' + length used" using assms(1) by (auto simp: waited_def r)
  have "t # rest = (t # used) @ rest'" "length out' \<le> sent + length (t # used)" using u assms(3) by simp_all
  then show ?thesis using assms(1) same_initiator_trans [OF assms(2)] by (auto simp: waited_def r)
qed

lemma await_response_waited: "waited env k old script w (length out) (await_response env io k old script w out)"
proof (induction env io k old script w out rule: await_response.induct)
  case (2 env io k old elapsed ev rest w out)
  let ?t = "(elapsed, ev)"
  have one: "\<exists>used. ?t # rest = used @ rest \<and> length out' \<le> length out + length used" if "length out' \<le> Suc (length out)" for out' :: "bytes list"
    using that by (intro exI [of _ "[?t]"]) simp
  show ?case
  proof (cases "millis (retry_jitter_ms (ce_policy env)) - elapsed = 0")
    case True
    then show ?thesis using one by (auto intro!: waited_now)
  next
    case wait: False
    show ?thesis
    proof (cases ev)
      case (Arrived peer bs unix now)
      show ?thesis
      proof (cases "server_packet env peer bs")
        case None
        then show ?thesis using 2(1) [OF wait Arrived None] wait Arrived by (auto intro: waited_later)
      next
        case (Some pkt)
        show ?thesis
        proof (cases "response_action env k old (fst w) unix pkt")
          case (Resend c)
          let ?ih = "attach_cookie (ce_prims env) (fst w) c"
          note c = same_initiator_cookie [of "ce_prims env" k w c ?ih]
          obtain sr out1 where s: "client_send env io (initiation_with (snd w) ?ih) out = (sr, out1)" by fastforce
          then have len: "length out1 \<le> Suc (length out)" using client_send_out by blast
          show ?thesis
          proof (cases sr)
            case (Inl e)
            then show ?thesis using wait Arrived Some Resend s one [OF len] c by (simp add: Let_def waited_def)
          next
            case (Inr u)
            then show ?thesis
              using 2(3) [OF wait Arrived Some Resend refl refl s [symmetric] Inr] wait Arrived Some Resend s waited_later [OF _ c len]
              by (simp add: Let_def)
          qed
        next
          case Ignore
          then show ?thesis using 2(2) [OF wait Arrived Some Ignore] wait Arrived Some by (auto intro: waited_later)
        next
          case (Accept response)
          then show ?thesis using wait Arrived Some one response_action_Accept [OF Accept] by (auto intro!: waited_now simp: answers_def)
        qed (use wait Arrived Some one in \<open>auto intro!: waited_now\<close>)
      qed
    qed (use wait one in \<open>auto intro!: waited_now\<close>)
  qed
qed (simp add: waited_def)

lemma waited_sent: "waited env k old script w sent result \<Longrightarrow> sent \<le> sent' \<Longrightarrow> waited env k old script w sent' result"
  unfolding waited_def by (fastforce split: prod.splits)

lemma waited_append:
  assumes "waited env k old script w sent (r, rest, w', out)" and "waited env k old rest w' (length out + n) result"
  shows "waited env k old script w (sent + n) result"
proof -
  obtain r' rest' w1 out' where r: "result = (r', rest', w1, out')" using prod_cases4 by blast
  obtain u1 where u1: "script = u1 @ rest" "length out \<le> sent + length u1" using assms(1) by (auto simp: waited_def)
  obtain u2 where u2: "rest = u2 @ rest'" "length out' \<le> length out + n + length u2" using assms(2) by (auto simp: waited_def r)
  have "script = (u1 @ u2) @ rest' \<and> length out' \<le> sent + n + length (u1 @ u2)" using u1 u2 by simp
  then show ?thesis using assms same_initiator_trans unfolding waited_def r by blast
qed

lemma response_attempts_spec:
  "waited env k old script w (length out + n) (response_attempts env io k old n script w out) \<and>
   fst (response_attempts env io k old n script w out) \<noteq> TimedOut"
proof (induction n arbitrary: script w out)
  case 0
  show ?case by (simp add: waited_def)
next
  case (Suc n)
  obtain sr out1 where s: "client_send env io (snd w) out = (sr, out1)" by fastforce
  then have len: "length out1 \<le> Suc (length out)" using client_send_out by blast
  show ?case
  proof (cases sr)
    case (Inl e)
    then show ?thesis using s len by (simp add: waited_def)
  next
    case (Inr u)
    obtain r rest w1 out2 where a: "await_response env io k old script w out1 = (r, rest, w1, out2)" using prod_cases4 by blast
    have w: "waited env k old script w (Suc (length out)) (r, rest, w1, out2)"
      using waited_sent [OF await_response_waited [of env k old script w out1 io] len] by (simp add: a)
    show ?thesis using Suc.IH [of rest w1 out2] s Inr a w waited_sent [OF w] waited_append [OF w]
      by (cases r) simp_all
  qed
qed

text \<open>The session after an arrival that acknowledges the handshake. Every other arrival leaves the wait as it was.\<close>

definition acked :: "client_env \<Rightarrow> protected_session \<Rightarrow> socket_addr \<Rightarrow> bytes \<Rightarrow> instant \<Rightarrow> protected_session option" where
  "acked env s peer bs now =
     (case server_packet env peer bs of
        None \<Rightarrow> None
      | Some pkt \<Rightarrow>
          if session_id (header pkt) \<noteq> ps_session_id s \<or> kind (header pkt) \<noteq> Keepalive then None
          else (case session_open (ce_prims env) s pkt now of (Inr _, s1) \<Rightarrow> Some s1 | (Inl _, _) \<Rightarrow> None))"

lemma await_ack_step:
  "await_ack env ((elapsed, ev) # rest) s =
     (if millis (max (retry_interval_ms (ce_policy env)) 1 + retry_jitter_ms (ce_policy env)) - elapsed = 0 then (TimedOut, rest, s)
      else case ev of
        Elapsed \<Rightarrow> (TimedOut, rest, s)
      | RecvFailed e \<Rightarrow> (Erred (EsTransport e), rest, s)
      | Arrived peer bs _ now \<Rightarrow> (case acked env s peer bs now of Some s1 \<Rightarrow> (Got s1, rest, s1) | None \<Rightarrow> await_ack env rest s))"
  by (auto simp: acked_def split: option.splits prod.splits sum.splits recv_event.splits dest!: session_open_error)

lemma acked_Some:
  assumes "acked env s peer bs now = Some s1"
  shows "peer = ce_server env \<and> (\<exists>pkt m. server_packet env peer bs = Some pkt \<and> kind (header pkt) = Keepalive \<and>
    session_open (ce_prims env) s pkt now = (Inr m, s1))"
proof -
  obtain pkt where pkt: "server_packet env peer bs = Some pkt" using assms by (auto simp: acked_def split: option.splits)
  then have "peer = ce_server env" by (simp add: server_packet_def split: if_splits)
  with pkt assms show ?thesis by (auto simp: acked_def split: if_splits prod.splits sum.splits)
qed

lemma await_ack_Got:
  "await_ack env script s = (Got s', rest, s1) \<Longrightarrow>
     \<exists>elapsed peer bs unix now. (elapsed, Arrived peer bs unix now) \<in> set script \<and> acked env s peer bs now = Some s'"
proof (induction script)
  case (Cons t script)
  then show ?case
    by (cases t) (auto simp del: await_ack.simps(2) simp: await_ack_step split: if_splits recv_event.splits option.splits; blast)
qed simp

lemma await_ack_session:
  "await_ack env script s = (r, rest, s') \<Longrightarrow> (\<forall>g. r \<noteq> Got g) \<Longrightarrow> s' = s \<and> set rest \<subseteq> set script"
proof (induction script)
  case (Cons t script)
  then show ?case
    by (cases t) (auto simp del: await_ack.simps(2) simp: await_ack_step split: if_splits recv_event.splits option.splits)
qed simp

lemma finish_attempts_Got:
  "finish_attempts env io pkt n script s out = (Got s', rest, out') \<Longrightarrow>
     \<exists>elapsed peer bs unix now. (elapsed, Arrived peer bs unix now) \<in> set script \<and> acked env s peer bs now = Some s'"
proof (induction n arbitrary: script out)
  case (Suc n)
  obtain sr out1 where s: "client_send env io pkt out = (sr, out1)" by fastforce
  obtain r rest1 s1 where a: "await_ack env script s = (r, rest1, s1)" using prod_cases3 by blast
  show ?case
  proof (cases sr)
    case (Inr u)
    show ?thesis
    proof (cases r)
      case (Got g)
      then show ?thesis using Suc.prems s Inr a await_ack_Got [of env script s g rest1 s1] by simp
    next
      case TimedOut
      then have "s1 = s" "set rest1 \<subseteq> set script" using await_ack_session [OF a] by simp_all
      then show ?thesis using Suc.IH [of rest1 out1] Suc.prems s Inr a TimedOut by (simp add: subset_iff) blast
    qed (use Suc.prems s Inr a in simp_all)
  qed (use Suc.prems s in simp)
qed simp

lemma finish_attempts_sent: "length (snd (snd (finish_attempts env io pkt n script s out))) \<le> length out + n"
proof (induction n arbitrary: script s out)
  case (Suc n)
  obtain sr out1 where s: "client_send env io pkt out = (sr, out1)" by fastforce
  then have len: "length out1 \<le> Suc (length out)" using client_send_out by blast
  obtain r rest1 s1 where a: "await_ack env script s = (r, rest1, s1)" using prod_cases3 by blast
  show ?case using s len a Suc.IH [of rest1 s1 out1] by (cases sr; cases r) auto
qed simp

lemma no_response_without_jitter:
  assumes "retry_jitter_ms (ce_policy env) = 0"
  shows "fst (response_attempts env io k old n script w out) \<noteq> Got response"
proof (induction n arbitrary: script w out)
  case (Suc n)
  have a: "await_response env io k old script w out1 = (if script = [] then (Blocked, [], w, out1) else (TimedOut, tl script, w, out1))" for out1
    using assms by (cases script) auto
  show ?case using Suc.IH by (auto simp: a split: prod.splits sum.splits)
qed simp

text \<open>How \<^const>\<open>establish\<close> returns a session.\<close>

lemma establish_Got:
  assumes "establish env io old script = (Got s, rest, out)"
  obtains ih0 ini k sid phase pkt response rest1 ih pkt' out1 fin session remote fpkt where
    "initiator_start (ce_prims env) (cfg_identity (ce_auth env)) (cfg_verifier (ce_auth env)) (fst (io_start io)) (snd (io_start io)) = Inr (ih0, ini)"
    "establish_target old = Inr (k, sid, phase)"
    "response_attempts env io k (map_option ps_session_id old) (retry_limit (ce_policy env)) script (ih0, pkt) [] = (Got response, rest1, (ih, pkt'), out1)"
    "finish_response env ih response old sid phase (io_finish io) = Inr (fin, session, remote)"
    "finish_attempts env io fpkt (retry_limit (ce_policy env)) rest1 session out1 = (Got s, rest, out)"
  using assms
  by (auto simp: establish_def Let_def split: sum.splits prod.splits awaited.splits)

lemma finish_response_session:
  assumes "finish_response env ih response old sid phase clock = Inr (fin, session, remote)" and "establish_target old = Inr (k, sid, phase)"
  obtains pk random sealed key sig where "response = Response pk random (ps_session_id session) sealed"
    "vouched (ce_prims env) (ih_verifier ih) key (fst clock)"
    "identity_verify (ce_prims env) key (server_data (ih_initiation ih) pk random (ps_session_id session)) sig"
    "session = session_new (ps_session_id session) (ps_key_phase session) (ps_keys session) (snd clock)"
    "case old of None \<Rightarrow> ps_key_phase session = 0 | Some before \<Rightarrow> ps_session_id session = ps_session_id before \<and> ps_key_phase session = ps_key_phase before + 1"
proof -
  obtain sid' where f: "finish_for_session (ce_prims env) ih response sid' phase (fst clock) (snd clock) = Inr (fin, session, remote)"
    "\<forall>before. old = Some before \<longrightarrow> sid' = sid"
    using assms by (auto simp: finish_response_def initiator_finish_def establish_target_def split: option.splits handshake_message.splits)
  from finish_for_session_vouched [OF f(1)] obtain pk random sealed key sig keys where
    F: "response = Response pk random sid' sealed" "vouched (ce_prims env) (ih_verifier ih) key (fst clock)"
    "identity_verify (ce_prims env) key (server_data (ih_initiation ih) pk random sid') sig" "session = session_new sid' phase keys (snd clock)"
    by blast
  then have id: "ps_session_id session = sid'" "ps_key_phase session = phase" "ps_keys session = keys" by (simp_all add: session_new_def)
  have "case old of None \<Rightarrow> phase = 0 | Some before \<Rightarrow> sid' = ps_session_id before \<and> phase = ps_key_phase before + 1"
    using assms(2) f(2) by (auto simp: establish_target_def split: option.splits if_splits)
  then show ?thesis using that F unfolding id by blast
qed

text \<open>
  A session is established only with a server the client's verifier vouches for, whose key signed the exchange with the ephemeral key drawn
  for it, and only after the server acknowledged it under the new keys.
\<close>

lemma establish_authentic:
  assumes "establish env io old script = (Got s, rest, out)"
  shows "\<exists>ih pk random key sig s0 t elapsed bs unix now ack m.
    ih_verifier ih = cfg_verifier (ce_auth env) \<and> initiator_inv (ce_prims env) ih \<and> Some (eph_secret (ih_key_pair ih)) = fst (io_start io) \<and>
    vouched (ce_prims env) (cfg_verifier (ce_auth env)) key (fst (io_finish io)) \<and>
    identity_verify (ce_prims env) key (server_data (ih_initiation ih) pk random (ps_session_id s)) sig \<and>
    (elapsed, Arrived (ce_server env) bs unix now) \<in> set script \<and> server_packet env (ce_server env) bs = Some ack \<and> kind (header ack) = Keepalive \<and>
    s0 = session_new (ps_session_id s) (ps_key_phase s) (ps_keys s) t \<and> session_open (ce_prims env) s0 ack now = (Inr m, s) \<and>
    (case old of None \<Rightarrow> ps_key_phase s = 0 | Some before \<Rightarrow> ps_session_id s = ps_session_id before \<and> ps_key_phase s = ps_key_phase before + 1)"
  using assms
proof (rule establish_Got)
  fix ih0 ini k sid phase pkt response rest1 ih pkt' out1 fin session remote fpkt
  assume A: "initiator_start (ce_prims env) (cfg_identity (ce_auth env)) (cfg_verifier (ce_auth env)) (fst (io_start io)) (snd (io_start io)) = Inr (ih0, ini)"
    "establish_target old = Inr (k, sid, phase)"
    "response_attempts env io k (map_option ps_session_id old) (retry_limit (ce_policy env)) script (ih0, pkt) [] = (Got response, rest1, (ih, pkt'), out1)"
    "finish_response env ih response old sid phase (io_finish io) = Inr (fin, session, remote)"
    "finish_attempts env io fpkt (retry_limit (ce_policy env)) rest1 session out1 = (Got s, rest, out)"
  have w: "same_initiator (ce_prims env) k (ih0, pkt) (ih, pkt')" "set rest1 \<subseteq> set script"
    using response_attempts_spec [of env k "map_option ps_session_id old" script "(ih0, pkt)" "[]" "retry_limit (ce_policy env)" io]
    unfolding A(3) by (auto simp: waited_def)
  have ih: "initiator_inv (ce_prims env) ih" "ih_verifier ih = cfg_verifier (ce_auth env)" "Some (eph_secret (ih_key_pair ih)) = fst (io_start io)"
    using initiator_inv_start [OF A(1)] A(1) w(1)
    by (auto simp: same_initiator_def initiator_start_def ephemeral_generate_def secret_random_def Let_def split: option.splits)
  obtain elapsed peer bs unix now where ack: "(elapsed, Arrived peer bs unix now) \<in> set rest1" "acked env session peer bs now = Some s"
    using finish_attempts_Got [OF A(5)] by blast
  obtain pkt0 m where o: "peer = ce_server env" "server_packet env peer bs = Some pkt0" "kind (header pkt0) = Keepalive"
    "session_open (ce_prims env) session pkt0 now = (Inr m, s)" using acked_Some [OF ack(2)] by blast
  have same: "ps_session_id s = ps_session_id session" "ps_key_phase s = ps_key_phase session" "ps_keys s = ps_keys session"
    using session_open_frame [OF o(4)] by simp_all
  from A(4,2) show ?thesis
  proof (rule finish_response_session)
    fix pk random sealed key sig
    assume F: "vouched (ce_prims env) (ih_verifier ih) key (fst (io_finish io))"
      "identity_verify (ce_prims env) key (server_data (ih_initiation ih) pk random (ps_session_id session)) sig"
      "session = session_new (ps_session_id session) (ps_key_phase session) (ps_keys session) (snd (io_finish io))"
      "case old of None \<Rightarrow> ps_key_phase session = 0 | Some before \<Rightarrow> ps_session_id session = ps_session_id before \<and> ps_key_phase session = ps_key_phase before + 1"
    have mem: "(elapsed, Arrived (ce_server env) bs unix now) \<in> set script" using ack(1) w(2) o(1) by auto
    show ?thesis
      by (rule exI [of _ ih], rule exI [of _ pk], rule exI [of _ random], rule exI [of _ key], rule exI [of _ sig], rule exI [of _ session],
          rule exI [of _ "snd (io_finish io)"], rule exI [of _ elapsed], rule exI [of _ bs], rule exI [of _ unix], rule exI [of _ now],
          rule exI [of _ pkt0], rule exI [of _ m])
        (use F ih o mem same in \<open>simp split: option.splits\<close>)
  qed
qed

end
