(* ===== verification/Gui_State.thy ===== *)
theory Gui_State
  imports Transport_Base Mtu
begin

text \<open>
  The connection state the client shows to its user, \<^verbatim>\<open>crates/rvpn-core/src/state.rs\<close>. Strings are their UTF-8 octets. The
  mutex around it serialises the operations, each of which is one function here.
\<close>

section \<open>State\<close>

record gui_state =
  gs_connected :: bool
  gs_server :: string
  gs_uptime :: duration
  gs_session_id :: string
  gs_key_phase :: u32
  gs_bytes_tx :: nat
  gs_bytes_rx :: nat
  gs_packets_tx :: nat
  gs_packets_rx :: nat
  gs_configured_mtu :: nat
  gs_effective_mtu :: nat
  gs_mtu_state :: string
  gs_last_mtu_change :: "string option"
  gs_mtu_changes :: u64
  gs_send_errors :: u64
  gs_dropped_oversized :: u64
  gs_dropped_backpressure :: u64
  gs_keepalives_sent :: u64

definition gui_default :: gui_state where
  "gui_default =
     \<lparr>gs_connected = False, gs_server = [], gs_uptime = 0, gs_session_id = [CHR 0xE2, CHR 0x80, CHR 0x94], gs_key_phase = 0,
      gs_bytes_tx = 0, gs_bytes_rx = 0, gs_packets_tx = 0, gs_packets_rx = 0, gs_configured_mtu = 0, gs_effective_mtu = 0,
      gs_mtu_state = ''Unknown'', gs_last_mtu_change = None, gs_mtu_changes = 0, gs_send_errors = 0, gs_dropped_oversized = 0,
      gs_dropped_backpressure = 0, gs_keepalives_sent = 0\<rparr>"

record gui_snapshot =
  snap_connected :: bool
  snap_server :: string
  snap_uptime :: duration
  snap_session_id :: string
  snap_key_phase :: u32
  snap_bytes_tx :: nat
  snap_bytes_rx :: nat
  snap_packets_tx :: nat
  snap_packets_rx :: nat
  snap_configured_mtu :: nat
  snap_path_mtu :: nat
  snap_mtu_state :: string
  snap_last_mtu_change :: "string option"
  snap_mtu_changes :: u64
  snap_send_errors :: u64
  snap_dropped_oversized :: u64
  snap_dropped_backpressure :: u64
  snap_keepalives_sent :: u64

definition gui_snapshot_of :: "gui_state \<Rightarrow> gui_snapshot" where
  "gui_snapshot_of g =
     \<lparr>snap_connected = gs_connected g, snap_server = gs_server g, snap_uptime = gs_uptime g, snap_session_id = gs_session_id g,
      snap_key_phase = gs_key_phase g, snap_bytes_tx = gs_bytes_tx g, snap_bytes_rx = gs_bytes_rx g, snap_packets_tx = gs_packets_tx g,
      snap_packets_rx = gs_packets_rx g, snap_configured_mtu = gs_configured_mtu g, snap_path_mtu = gs_effective_mtu g,
      snap_mtu_state = gs_mtu_state g, snap_last_mtu_change = gs_last_mtu_change g, snap_mtu_changes = gs_mtu_changes g,
      snap_send_errors = gs_send_errors g, snap_dropped_oversized = gs_dropped_oversized g,
      snap_dropped_backpressure = gs_dropped_backpressure g, snap_keepalives_sent = gs_keepalives_sent g\<rparr>"

section \<open>Operations\<close>

definition set_server :: "string \<Rightarrow> gui_state \<Rightarrow> gui_state" where
  "set_server server g = g\<lparr>gs_server := server\<rparr>"

definition gui_connected :: "string \<Rightarrow> nat \<Rightarrow> gui_state \<Rightarrow> gui_state" where
  "gui_connected sid mtu g = g\<lparr>gs_connected := True, gs_session_id := sid, gs_configured_mtu := mtu\<rparr>"

definition disconnected :: "gui_state \<Rightarrow> gui_state" where
  "disconnected g = g\<lparr>gs_connected := False\<rparr>"

definition set_uptime :: "duration \<Rightarrow> gui_state \<Rightarrow> gui_state" where
  "set_uptime d g = g\<lparr>gs_uptime := d\<rparr>"

definition set_key_phase :: "u32 \<Rightarrow> gui_state \<Rightarrow> gui_state" where
  "set_key_phase phase g = g\<lparr>gs_key_phase := phase\<rparr>"

definition gui_record_tx :: "nat \<Rightarrow> gui_state \<Rightarrow> gui_state" where
  "gui_record_tx n g = g\<lparr>gs_bytes_tx := sat_add (gs_bytes_tx g) n, gs_packets_tx := sat_add (gs_packets_tx g) 1\<rparr>"

definition gui_record_rx :: "nat \<Rightarrow> gui_state \<Rightarrow> gui_state" where
  "gui_record_rx n g = g\<lparr>gs_bytes_rx := sat_add (gs_bytes_rx g) n, gs_packets_rx := sat_add (gs_packets_rx g) 1\<rparr>"

definition mtu_state_text :: "mtu_snapshot \<Rightarrow> string" where
  "mtu_state_text mtu =
     (if snap_probing mtu then ''Probing'' else if snap_effective_mtu mtu < snap_maximum_mtu mtu then ''Reduced'' else ''Stable'')"

definition update_transport :: "transport_metrics \<Rightarrow> mtu_snapshot \<Rightarrow> gui_state \<Rightarrow> gui_state" where
  "update_transport metrics mtu g =
     g\<lparr>gs_effective_mtu := snap_effective_mtu mtu, gs_mtu_state := mtu_state_text mtu, gs_mtu_changes := mtu_changes metrics,
       gs_send_errors := send_errors metrics, gs_dropped_oversized := packets_dropped_oversized metrics,
       gs_dropped_backpressure := packets_dropped_backpressure metrics, gs_keepalives_sent := keepalives_sent metrics\<rparr>"

fun reason_text :: "mtu_change_reason \<Rightarrow> string" where
  "reason_text PathMtuExceeded = ''Path MTU exceeded''"
| "reason_text SustainedInstability = ''Sustained instability''"
| "reason_text ProbeUp = ''MTU probe succeeded''"
| "reason_text ProbeReverted = ''MTU probe reverted''"

definition set_mtu_change_reason :: "mtu_change_reason \<Rightarrow> gui_state \<Rightarrow> gui_state" where
  "set_mtu_change_reason reason g = g\<lparr>gs_last_mtu_change := Some (reason_text reason)\<rparr>"

section \<open>Formatting\<close>

definition format_duration :: "duration \<Rightarrow> string" where
  "format_duration d =
     (let total_seconds = d div secs 1; hours = total_seconds div 3600; minutes = (total_seconds mod 3600) div 60; seconds = total_seconds mod 60
      in if hours > 0 then dec hours @ ''h '' @ dec minutes @ ''m '' @ dec seconds @ ''s''
         else if minutes > 0 then dec minutes @ ''m '' @ dec seconds @ ''s''
         else dec seconds @ ''s'')"

end
