(* ===== verification/Client_Tunnel.thy ===== *)
theory Client_Tunnel
  imports Client_Handshake Gui_State Server_Tunnel "HOL-Library.Sublist"
begin

text \<open>
  The data plane of the client, \<^verbatim>\<open>run_data_plane\<close> of \<^verbatim>\<open>apps/rvpn-client/src/tunnel.rs\<close>: its state and one handler for each arm of the
  select. A handshake inside an arm runs to its end before the loop goes on, so an arm takes the inputs of that handshake. A
  handler returns how the loop goes on, its effects in order and the next state.
\<close>

section \<open>State\<close>

datatype data_plane_exit = Shutdown | ServerClosed | LinkLost

datatype tunnel_error =
    TunnelSession session_error
  | TunnelCrypto crypto_error
  | TunnelReceive transport_error
  | TunnelDevice
  | TunnelSignal

text \<open>\<open>Stuck\<close>: a handshake inside the arm still waits when its inputs end.\<close>

datatype progress = Continue | Exit data_plane_exit | Fail tunnel_error | Stuck

record tunnel_env =
  te_client :: client_env
  te_rekey :: rekey_config
  te_liveness :: "duration option"
  te_tun :: bool
  te_tap :: bool

record tunnel_state =
  ts_session :: protected_session
  ts_started :: instant
  ts_last_rx :: instant
  ts_queue :: outbound_queue
  ts_gui :: "gui_state option"

type_synonym tunnel_step = "progress \<times> effect list \<times> tunnel_state"

definition tunnel_start :: "protected_session \<Rightarrow> instant \<Rightarrow> gui_state option \<Rightarrow> tunnel_state" where
  "tunnel_start session now gui =
     \<lparr>ts_session = session, ts_started = now, ts_last_rx = now, ts_queue = queue_new_with_rate 256 0, ts_gui = gui\<rparr>"

definition gui_update :: "(gui_state \<Rightarrow> gui_state) \<Rightarrow> tunnel_state \<Rightarrow> tunnel_state" where
  "gui_update f st = st\<lparr>ts_gui := map_option f (ts_gui st)\<rparr>"

definition mark_disconnected :: "tunnel_state \<Rightarrow> tunnel_state" where
  "mark_disconnected = gui_update disconnected"

definition server_wires :: "tunnel_env \<Rightarrow> bytes list \<Rightarrow> effect list" where
  "server_wires env out = map (Wire (ce_server (te_client env))) out"

definition tunnel_wrap :: "tunnel_env \<Rightarrow> obf_draw \<Rightarrow> packet \<Rightarrow> crypto_error + bytes" where
  "tunnel_wrap env draw pkt = wrap_wire (ce_prims (te_client env)) (ce_obfuscation (te_client env)) draw (packet_encode pkt)"

section \<open>Timers and shutdown\<close>

definition on_shutdown :: "tunnel_env \<Rightarrow> bool \<Rightarrow> obf_draw \<Rightarrow> tunnel_state \<Rightarrow> tunnel_step" where
  "on_shutdown env signal_ok draw st =
     (if \<not> signal_ok then (Fail TunnelSignal, [], st)
      else case session_seal (ce_prims (te_client env)) (ts_session st) Close [] of
        (Inl e, s) \<Rightarrow> (Fail (TunnelSession e), [], st\<lparr>ts_session := s\<rparr>)
      | (Inr pkt, s) \<Rightarrow>
          (case tunnel_wrap env draw pkt of
             Inl e \<Rightarrow> (Fail (TunnelCrypto e), [], st\<lparr>ts_session := s\<rparr>)
           | Inr w \<Rightarrow> (Exit Shutdown, server_wires env [w], mark_disconnected (st\<lparr>ts_session := s\<rparr>))))"

definition on_telemetry :: "transport_metrics \<Rightarrow> mtu_snapshot \<Rightarrow> instant \<Rightarrow> tunnel_state \<Rightarrow> tunnel_step" where
  "on_telemetry metrics mtu now st =
     (Continue, [],
      gui_update (\<lambda>g.
        let g1 = set_uptime (now - ts_started st) g;
            g2 = (if gs_mtu_changes g1 < mtu_changes metrics then set_mtu_change_reason PathMtuExceeded g1 else g1)
        in set_key_phase (ps_key_phase (ts_session st)) (update_transport metrics mtu g2)) st)"

definition on_liveness :: "tunnel_env \<Rightarrow> instant \<Rightarrow> tunnel_state \<Rightarrow> tunnel_step" where
  "on_liveness env now st =
     (case te_liveness env of
        Some limit \<Rightarrow> if now - ts_last_rx st > limit then (Exit LinkLost, [], mark_disconnected st) else (Continue, [], st)
      | None \<Rightarrow> (Continue, [], st))"

text \<open>
  The rekey at the start of an arm. A completed one counts as received traffic; a failed one ends the data plane.
\<close>

definition rekey_first :: "tunnel_env \<Rightarrow> client_io \<Rightarrow> turn list \<Rightarrow> instant \<Rightarrow> instant \<Rightarrow> tunnel_state \<Rightarrow> bool \<times> tunnel_step" where
  "rekey_first env io script now later st =
     (case client_maybe_rekey (te_client env) io (te_rekey env) now script (ts_session st) of
        (Got rotated, _, out, s) \<Rightarrow>
          (rotated, Continue, server_wires env out, if rotated then st\<lparr>ts_session := s, ts_last_rx := later\<rparr> else st)
      | (Blocked, _, out, s) \<Rightarrow> (False, Stuck, server_wires env out, st)
      | (_, _, out, s) \<Rightarrow> (False, Exit LinkLost, server_wires env out, mark_disconnected st))"

definition on_rekey_check :: "tunnel_env \<Rightarrow> client_io \<Rightarrow> turn list \<Rightarrow> instant \<Rightarrow> instant \<Rightarrow> tunnel_state \<Rightarrow> tunnel_step" where
  "on_rekey_check env io script now later st =
     (case rekey_first env io script now later st of
        (rotated, r, out, st1) \<Rightarrow> (r, out, if rotated then gui_update (set_key_phase (ps_key_phase (ts_session st1))) st1 else st1))"

definition on_keepalive_due :: "tunnel_env \<Rightarrow> obf_draw \<Rightarrow> bool \<Rightarrow> tunnel_state \<Rightarrow> tunnel_step" where
  "on_keepalive_due env draw sent st =
     (case session_seal (ce_prims (te_client env)) (ts_session st) Keepalive [] of
        (Inl _, s) \<Rightarrow> (Continue, [], st\<lparr>ts_session := s\<rparr>)
      | (Inr pkt, s) \<Rightarrow>
          (case tunnel_wrap env draw pkt of
             Inl _ \<Rightarrow> (Continue, [], st\<lparr>ts_session := s\<rparr>)
           | Inr w \<Rightarrow> (Continue, server_wires env [w] @ (if sent then [KeepaliveSent] else []), st\<lparr>ts_session := s\<rparr>)))"

section \<open>Traffic\<close>

definition on_dequeue :: "instant \<Rightarrow> tunnel_state \<Rightarrow> tunnel_step" where
  "on_dequeue now st =
     (case recv_pass False now (ts_queue st) of
        (Packet d, q) \<Rightarrow> (Continue, [Wire (qd_peer d) (qd_payload d)], st\<lparr>ts_queue := q\<rparr>)
      | (_, q) \<Rightarrow> (Continue, [], st\<lparr>ts_queue := q\<rparr>))"

text \<open>Sealing a packet of the local device and queueing it.\<close>

definition seal_outbound :: "tunnel_env \<Rightarrow> obf_draw \<Rightarrow> instant \<Rightarrow> packet_kind \<Rightarrow> bytes \<Rightarrow> tunnel_state \<Rightarrow> tunnel_step" where
  "seal_outbound env draw now k plaintext st =
     (case session_seal (ce_prims (te_client env)) (ts_session st) k plaintext of
        (Inl e, s) \<Rightarrow> (Fail (TunnelSession e), [], st\<lparr>ts_session := s\<rparr>)
      | (Inr pkt, s) \<Rightarrow>
          (case tunnel_wrap env draw pkt of
             Inl e \<Rightarrow> (Fail (TunnelCrypto e), [], st\<lparr>ts_session := s\<rparr>)
           | Inr w \<Rightarrow>
               (case try_enqueue (ts_queue st) (ce_server (te_client env)) w now of
                  (Inl _, q) \<Rightarrow> (Continue, [DroppedBackpressure], st\<lparr>ts_session := s, ts_queue := q\<rparr>)
                | (Inr _, q) \<Rightarrow> (Continue, [], st\<lparr>ts_session := s, ts_queue := q\<rparr>))))"

text \<open>The arms of the TUN and the TAP device differ only in the kind of packet.\<close>

definition on_device ::
  "tunnel_env \<Rightarrow> client_io \<Rightarrow> turn list \<Rightarrow> instant \<Rightarrow> instant \<Rightarrow> obf_draw \<Rightarrow> packet_kind \<Rightarrow> bytes option \<Rightarrow> tunnel_state \<Rightarrow> tunnel_step" where
  "on_device env io script now later draw k received st =
     (case received of
        None \<Rightarrow> (Fail TunnelDevice, [], st)
      | Some bs \<Rightarrow>
          (case rekey_first env io script now later (gui_update (gui_record_tx (length bs)) st) of
             (_, Continue, out1, st1) \<Rightarrow> (case seal_outbound env draw later k bs st1 of (r, out2, st2) \<Rightarrow> (r, out1 @ out2, st2))
           | (_, r, out1, st1) \<Rightarrow> (r, out1, st1)))"

definition device_target :: "tunnel_env \<Rightarrow> packet_kind \<Rightarrow> bytes \<Rightarrow> effect list" where
  "device_target env k plaintext =
     (if k = DataTap then if te_tap env then [ToTap plaintext] else if te_tun env then [ToTun plaintext] else []
      else if te_tun env then [ToTun plaintext] else if te_tap env then [ToTap plaintext] else [])"

definition on_data :: "tunnel_env \<Rightarrow> packet \<Rightarrow> instant \<Rightarrow> bool \<Rightarrow> tunnel_state \<Rightarrow> tunnel_step" where
  "on_data env pkt now device_ok st =
     (case session_open (ce_prims (te_client env)) (ts_session st) pkt now of
        (Inl _, s) \<Rightarrow> (Continue, [], st\<lparr>ts_session := s\<rparr>)
      | (Inr plaintext, s) \<Rightarrow>
          (let st1 = st\<lparr>ts_session := s, ts_last_rx := now\<rparr>; out = device_target env (kind (header pkt)) plaintext in
           if plaintext = [] \<or> out = [] then (Continue, [], st1)
           else if \<not> device_ok then (Fail TunnelDevice, out, st1)
           else (Continue, out, gui_update (gui_record_rx (length plaintext)) st1)))"

definition on_rekey_request :: "tunnel_env \<Rightarrow> client_io \<Rightarrow> turn list \<Rightarrow> packet \<Rightarrow> instant \<Rightarrow> instant \<Rightarrow> tunnel_state \<Rightarrow> tunnel_step" where
  "on_rekey_request env io script pkt now later st =
     (case session_open (ce_prims (te_client env)) (ts_session st) pkt now of
        (Inl _, s) \<Rightarrow> (Continue, [], st\<lparr>ts_session := s\<rparr>)
      | (Inr _, s) \<Rightarrow>
          (let st1 = st\<lparr>ts_session := s\<rparr> in
           case establish (te_client env) io (Some s) script of
             (Got s1, _, out) \<Rightarrow>
               (Continue, server_wires env out, gui_update (set_key_phase (ps_key_phase s1)) (st1\<lparr>ts_session := s1, ts_last_rx := later\<rparr>))
           | (Blocked, _, out) \<Rightarrow> (Stuck, server_wires env out, st1)
           | (_, _, out) \<Rightarrow> (Exit LinkLost, server_wires env out, mark_disconnected st1)))"

definition on_control :: "tunnel_env \<Rightarrow> packet \<Rightarrow> instant \<Rightarrow> tunnel_state \<Rightarrow> tunnel_step" where
  "on_control env pkt now st =
     (case session_open (ce_prims (te_client env)) (ts_session st) pkt now of
        (Inl _, s) \<Rightarrow> (Continue, [], st\<lparr>ts_session := s\<rparr>)
      | (Inr _, s) \<Rightarrow>
          if kind (header pkt) = Close then (Exit ServerClosed, [], mark_disconnected (st\<lparr>ts_session := s\<rparr>))
          else (Continue, [], st\<lparr>ts_session := s, ts_last_rx := now\<rparr>))"

definition on_datagram ::
  "tunnel_env \<Rightarrow> client_io \<Rightarrow> turn list \<Rightarrow> instant \<Rightarrow> instant \<Rightarrow> bool \<Rightarrow> transport_error + (socket_addr \<times> bytes) \<Rightarrow> tunnel_state \<Rightarrow> tunnel_step" where
  "on_datagram env io script now later device_ok received st =
     (case received of
        Inl e \<Rightarrow> (Fail (TunnelReceive e), [], st)
      | Inr (peer, bs) \<Rightarrow>
          (case server_packet (te_client env) peer bs of
             None \<Rightarrow> (Continue, [], st)
           | Some pkt \<Rightarrow>
               (case kind (header pkt) of
                  Data \<Rightarrow> on_data env pkt now device_ok st
                | DataTap \<Rightarrow> on_data env pkt now device_ok st
                | Keepalive \<Rightarrow> on_control env pkt now st
                | Close \<Rightarrow> on_control env pkt now st
                | Rekey \<Rightarrow> on_rekey_request env io script pkt now later st
                | Handshake \<Rightarrow> (Continue, [], st))))"

section \<open>The loop\<close>

datatype tunnel_event =
    ShutdownSignal bool obf_draw
  | Telemetry transport_metrics mtu_snapshot instant
  | LivenessCheck instant
  | RekeyCheck client_io "turn list" instant instant
  | KeepaliveTimer obf_draw bool
  | Queued instant
  | TunPacket client_io "turn list" instant instant obf_draw "bytes option"
  | TapFrame client_io "turn list" instant instant obf_draw "bytes option"
  | FromServer client_io "turn list" instant instant bool "transport_error + (socket_addr \<times> bytes)"

fun tunnel_step :: "tunnel_env \<Rightarrow> tunnel_event \<Rightarrow> tunnel_state \<Rightarrow> tunnel_step" where
  "tunnel_step env (ShutdownSignal signal_ok draw) st = on_shutdown env signal_ok draw st"
| "tunnel_step env (Telemetry metrics mtu now) st = on_telemetry metrics mtu now st"
| "tunnel_step env (LivenessCheck now) st = on_liveness env now st"
| "tunnel_step env (RekeyCheck io script now later) st = on_rekey_check env io script now later st"
| "tunnel_step env (KeepaliveTimer draw sent) st = on_keepalive_due env draw sent st"
| "tunnel_step env (Queued now) st = on_dequeue now st"
| "tunnel_step env (TunPacket io script now later draw received) st = on_device env io script now later draw Data received st"
| "tunnel_step env (TapFrame io script now later draw received) st = on_device env io script now later draw DataTap received st"
| "tunnel_step env (FromServer io script now later device_ok received) st = on_datagram env io script now later device_ok received st"

fun run_data_plane :: "tunnel_env \<Rightarrow> tunnel_event list \<Rightarrow> tunnel_state \<Rightarrow> progress \<times> effect list \<times> tunnel_state" where
  "run_data_plane env [] st = (Continue, [], st)"
| "run_data_plane env (ev # evs) st =
     (case tunnel_step env ev st of
        (Continue, out1, st1) \<Rightarrow> (case run_data_plane env evs st1 of (r, out2, st2) \<Rightarrow> (r, out1 @ out2, st2))
      | result \<Rightarrow> result)"

section \<open>What the session has accepted\<close>

text \<open>
  The packets accepted so far, by phase and number: each is of an earlier phase, or is recorded in the replay window. A client's session keeps no
  keys of an earlier phase.
\<close>

definition known :: "protected_session \<Rightarrow> (u32 \<times> u64) set \<Rightarrow> bool" where
  "known s acc \<longleftrightarrow>
     previous s = None \<and> (\<exists>A. session_rep s A {} \<and> (\<forall>(ph, q) \<in> acc. ph < ps_key_phase s \<or> ph = ps_key_phase s \<and> unat q \<in> A))"

definition packet_id :: "packet \<Rightarrow> u32 \<times> u64" where
  "packet_id pkt = (key_phase (header pkt), sequence (header pkt))"

lemma known_seal: "known s acc \<Longrightarrow> session_seal p s k m = (r, s') \<Longrightarrow> known s' acc"
  using session_rep_seal [of s _ "{}" p k m] session_seal_receiver [of p s k m] by (auto simp: known_def)

lemma known_refused: "known s acc \<Longrightarrow> session_open p s pkt now = (Inl e, s') \<Longrightarrow> known s' acc"
  using session_open_error by blast

lemma known_open:
  assumes "known s acc" and "session_open p s pkt now = (Inr m, s')"
  shows "packet_id pkt \<notin> acc" "known s' (insert (packet_id pkt) acc)"
proof -
  obtain A where A: "previous s = None" "session_rep s A {}" "\<forall>(ph, q) \<in> acc. ph < ps_key_phase s \<or> ph = ps_key_phase s \<and> unat q \<in> A"
    using assms(1) by (auto simp: known_def)
  have frame: "ps_key_phase s' = ps_key_phase s" "previous s' = None" using session_open_frame [OF assms(2)] A(1) by simp_all
  from assms(2) A(2) have "packet_id pkt \<notin> acc \<and> known s' (insert (packet_id pkt) acc)"
  proof (cases rule: session_open_accept)
    case current
    show ?thesis
    proof
      show "packet_id pkt \<notin> acc" using A(3) current(1,2) by (auto simp: packet_id_def)
      show "known s' (insert (packet_id pkt) acc)" unfolding known_def frame
        using current A(3) by (intro conjI exI [of _ "insert (unat (sequence (header pkt))) A"]) (auto simp: packet_id_def)
    qed
  next
    case (previous prev)
    then show ?thesis using A(1) by simp
  qed
  then show "packet_id pkt \<notin> acc" "known s' (insert (packet_id pkt) acc)" by blast+
qed

lemma known_new: "known (session_new sid phase keys now) {}"
  unfolding known_def by (intro conjI exI [of _ "{}"] session_rep_new) (simp_all add: session_new_def)

lemma known_establish:
  assumes "known s acc" and "establish env io (Some s) script = (Got s', rest, out)"
  shows "known s' acc" "ps_key_phase s' = ps_key_phase s + 1" "ps_session_id s' = ps_session_id s"
proof -
  obtain s0 t ack m now where e: "s0 = session_new (ps_session_id s') (ps_key_phase s') (ps_keys s') t"
    "session_open (ce_prims env) s0 ack now = (Inr m, s')" "ps_session_id s' = ps_session_id s" "ps_key_phase s' = ps_key_phase s + 1"
    using establish_authentic [OF assms(2)] by auto
  show "ps_key_phase s' = ps_key_phase s + 1" "ps_session_id s' = ps_session_id s" using e(3,4) by simp_all
  obtain k sid phase where "establish_target (Some s) = Inr (k, sid, phase)" using assms(2) by (rule establish_Got)
  then have "ps_key_phase s \<noteq> - 1" by (auto simp: establish_target_def)
  then have "1 + ps_key_phase s \<noteq> 0" by (metis add.commute add_eq_0_iff)
  then have less: "ps_key_phase s < ps_key_phase s'" unfolding e(4) by (simp add: word_less_nat_alt unatSuc add.commute)
  have "known s' {packet_id ack}" using known_open(2) [OF known_new e(2) [unfolded e(1)]] by simp
  then obtain A where A: "previous s' = None" "session_rep s' A {}" by (auto simp: known_def)
  have "ph < ps_key_phase s'" if "(ph, q) \<in> acc" for ph q
    using assms(1) that less by (fastforce simp: known_def)
  then show "known s' acc" unfolding known_def using A by blast
qed

section \<open>Every arm keeps what was accepted\<close>

text \<open>What effects write to the local devices.\<close>

fun device_write :: "effect \<Rightarrow> bytes list" where
  "device_write (ToTun b) = [b]"
| "device_write (ToTap b) = [b]"
| "device_write _ = []"

definition device_writes :: "effect list \<Rightarrow> bytes list" where
  "device_writes out = concat (map device_write out)"

lemma device_writes_simps [simp]:
  "device_writes [] = []" "device_writes (e # out) = device_write e @ device_writes out" "device_writes (a @ b) = device_writes a @ device_writes b"
  by (simp_all add: device_writes_def)

lemma device_writes_wires [simp]: "device_writes (server_wires env out) = []"
  by (induction out) (simp_all add: server_wires_def)

text \<open>The packet an event lets the session accept.\<close>

fun arrival :: "tunnel_env \<Rightarrow> tunnel_event \<Rightarrow> (packet \<times> instant) option" where
  "arrival env (FromServer io script now later device_ok (Inr (peer, bs))) = map_option (\<lambda>pkt. (pkt, now)) (server_packet (te_client env) peer bs)"
| "arrival env _ = None"

definition accepted_packet :: "tunnel_env \<Rightarrow> tunnel_event \<Rightarrow> tunnel_state \<Rightarrow> (packet \<times> bytes) option" where
  "accepted_packet env ev st =
     (case arrival env ev of
        None \<Rightarrow> None
      | Some (pkt, now) \<Rightarrow>
          if kind (header pkt) = Handshake then None
          else (case fst (session_open (ce_prims (te_client env)) (ts_session st) pkt now) of Inr m \<Rightarrow> Some (pkt, m) | Inl _ \<Rightarrow> None))"

lemma gui_update_fields [simp]:
  "ts_session (gui_update f st) = ts_session st" "ts_last_rx (gui_update f st) = ts_last_rx st" "ts_queue (gui_update f st) = ts_queue st"
  by (simp_all add: gui_update_def)

lemma mark_disconnected_fields [simp]:
  "ts_session (mark_disconnected st) = ts_session st" "ts_last_rx (mark_disconnected st) = ts_last_rx st"
  by (simp_all add: mark_disconnected_def)

lemma maybe_rekey_known:
  assumes "known s acc" and "client_maybe_rekey env io rekey now script s = (r, rest, out, s')"
  shows "known s' acc" "(r \<noteq> Got True \<longrightarrow> s' = s) \<and> (r = Got True \<longrightarrow> ps_key_phase s' = ps_key_phase s + 1)"
  using assms known_establish [OF assms(1)]
  by (auto simp: client_maybe_rekey_def split: if_splits prod.splits awaited.splits)

lemma rekey_first_known:
  assumes "known (ts_session st) acc" and "rekey_first env io script now later st = (rotated, r, out, st')"
  shows "known (ts_session st') acc" "ts_last_rx st' \<noteq> ts_last_rx st \<Longrightarrow> ps_key_phase (ts_session st') = ps_key_phase (ts_session st) + 1"
    "r \<in> {Continue, Stuck, Exit LinkLost}" "\<exists>bs. out = server_wires env bs"
proof -
  obtain a rest out' s where m: "client_maybe_rekey (te_client env) io (te_rekey env) now script (ts_session st) = (a, rest, out', s)" using prod_cases4 by blast
  note k = maybe_rekey_known [OF assms(1) m]
  show "known (ts_session st') acc" "ts_last_rx st' \<noteq> ts_last_rx st \<Longrightarrow> ps_key_phase (ts_session st') = ps_key_phase (ts_session st) + 1"
    "r \<in> {Continue, Stuck, Exit LinkLost}" "\<exists>bs. out = server_wires env bs"
    using assms m k by (cases a; auto simp: rekey_first_def split: if_splits)+
qed

lemma seal_outbound_known:
  assumes "known (ts_session st) acc" and "seal_outbound env draw now k bs st = (r, out, st')"
  shows "known (ts_session st') acc" "ts_last_rx st' = ts_last_rx st" "\<forall>e. r \<noteq> Exit e" "device_writes out = []"
    "ps_key_phase (ts_session st') = ps_key_phase (ts_session st)"
proof -
  obtain a s where m: "session_seal (ce_prims (te_client env)) (ts_session st) k bs = (a, s)" by fastforce
  have "known s acc" "ps_key_phase s = ps_key_phase (ts_session st)"
    using known_seal [OF assms(1) m] session_seal_receiver(3) [of "ce_prims (te_client env)" "ts_session st" k bs] m by simp_all
  then show "known (ts_session st') acc" "ts_last_rx st' = ts_last_rx st" "\<forall>e. r \<noteq> Exit e" "device_writes out = []"
    "ps_key_phase (ts_session st') = ps_key_phase (ts_session st)"
    using assms(2) m by (auto simp: seal_outbound_def split: sum.splits prod.splits)
qed

text \<open>What a step may do when it accepts nothing, and when it accepts a packet.\<close>

definition quiet_step :: "(u32 \<times> u64) set \<Rightarrow> tunnel_state \<Rightarrow> tunnel_step \<Rightarrow> bool" where
  "quiet_step acc st result \<longleftrightarrow>
     (case result of (r, out, st') \<Rightarrow>
        known (ts_session st') acc \<and> device_writes out = [] \<and> r \<noteq> Exit ServerClosed \<and>
        (ts_last_rx st' \<noteq> ts_last_rx st \<longrightarrow> ps_key_phase (ts_session st') = ps_key_phase (ts_session st) + 1))"

definition accepting_step :: "(u32 \<times> u64) set \<Rightarrow> packet \<Rightarrow> bytes \<Rightarrow> tunnel_step \<Rightarrow> bool" where
  "accepting_step acc pkt m result \<longleftrightarrow>
     (case result of (r, out, st') \<Rightarrow>
        packet_id pkt \<notin> acc \<and> known (ts_session st') (insert (packet_id pkt) acc) \<and>
        (device_writes out = [] \<or> device_writes out = [m] \<and> m \<noteq> [] \<and> kind (header pkt) \<in> {Data, DataTap}) \<and>
        (r = Exit ServerClosed \<longrightarrow> kind (header pkt) = Close))"

lemma quiet_device:
  assumes "known (ts_session st) acc"
  shows "quiet_step acc st (on_device env io script now later draw k received st)"
proof (cases received)
  case (Some bs)
  let ?st = "gui_update (gui_record_tx (length bs)) st"
  have k: "known (ts_session ?st) acc" using assms by simp
  obtain rot r out1 st1 where f: "rekey_first env io script now later ?st = (rot, r, out1, st1)" using prod_cases4 by blast
  note F = rekey_first_known [OF k f]
  obtain r2 out2 st2 where o: "seal_outbound env draw later k bs st1 = (r2, out2, st2)" using prod_cases3 by blast
  note S = seal_outbound_known [OF F(1) o]
  show ?thesis using F S f o Some by (auto simp: on_device_def quiet_step_def)
qed (use assms in \<open>simp add: on_device_def quiet_step_def\<close>)

lemma quiet_rekey_check:
  assumes "known (ts_session st) acc"
  shows "quiet_step acc st (on_rekey_check env io script now later st)"
proof -
  obtain rot r out1 st1 where f: "rekey_first env io script now later st = (rot, r, out1, st1)" using prod_cases4 by blast
  show ?thesis using rekey_first_known [OF assms f] f by (auto simp: on_rekey_check_def quiet_step_def)
qed

lemma quiet_keepalive_due:
  assumes "known (ts_session st) acc"
  shows "quiet_step acc st (on_keepalive_due env draw sent st)"
  using known_seal [OF assms] assms
  by (auto simp: on_keepalive_due_def quiet_step_def split: prod.splits sum.splits)

lemma quiet_shutdown:
  assumes "known (ts_session st) acc"
  shows "quiet_step acc st (on_shutdown env signal_ok draw st)"
  using known_seal [OF assms] assms
  by (auto simp: on_shutdown_def quiet_step_def split: prod.splits sum.splits)

lemma quiet_other:
  assumes "known (ts_session st) acc"
  shows "quiet_step acc st (on_telemetry metrics mtu now st)" "quiet_step acc st (on_liveness env now st)" "quiet_step acc st (on_dequeue now st)"
  using assms by (auto simp: on_telemetry_def on_liveness_def on_dequeue_def quiet_step_def split: option.splits prod.splits recv_outcome.splits)

lemma data_step:
  assumes "known (ts_session st) acc" and "session_open (ce_prims (te_client env)) (ts_session st) pkt now = (res, s)" and "kind (header pkt) \<in> {Data, DataTap}"
  shows "res = Inl e \<Longrightarrow> quiet_step acc st (on_data env pkt now device_ok st)"
    "res = Inr m \<Longrightarrow> accepting_step acc pkt m (on_data env pkt now device_ok st)"
  using assms known_refused [OF assms(1)] known_open [OF assms(1)]
  by (auto simp: on_data_def quiet_step_def accepting_step_def device_target_def Let_def split: if_splits)

lemma control_step:
  assumes "known (ts_session st) acc" and "session_open (ce_prims (te_client env)) (ts_session st) pkt now = (res, s)"
  shows "res = Inl e \<Longrightarrow> quiet_step acc st (on_control env pkt now st)"
    "res = Inr m \<Longrightarrow> accepting_step acc pkt m (on_control env pkt now st)"
  using assms known_refused [OF assms(1)] known_open [OF assms(1)]
  by (auto simp: on_control_def quiet_step_def accepting_step_def)

lemma rekey_request_step:
  assumes "known (ts_session st) acc" and "session_open (ce_prims (te_client env)) (ts_session st) pkt now = (res, s)"
  shows "res = Inl e \<Longrightarrow> quiet_step acc st (on_rekey_request env io script pkt now later st)"
    "res = Inr m \<Longrightarrow> accepting_step acc pkt m (on_rekey_request env io script pkt now later st)"
proof -
  show "res = Inl e \<Longrightarrow> quiet_step acc st (on_rekey_request env io script pkt now later st)"
    using assms known_refused [OF assms(1)] by (auto simp: on_rekey_request_def quiet_step_def)
  assume r: "res = Inr m"
  note k = known_open [OF assms(1) assms(2) [unfolded r]]
  obtain a rest out where e: "establish (te_client env) io (Some s) script = (a, rest, out)" using prod_cases3 by blast
  show "accepting_step acc pkt m (on_rekey_request env io script pkt now later st)"
    using k known_establish(1) [OF k(2)] assms(2) r e
    by (cases a) (auto simp: on_rekey_request_def accepting_step_def Let_def)
qed

lemma tunnel_step_sound:
  assumes "known (ts_session st) acc"
  shows "case accepted_packet env ev st of None \<Rightarrow> quiet_step acc st (tunnel_step env ev st) | Some (pkt, m) \<Rightarrow> accepting_step acc pkt m (tunnel_step env ev st)"
proof (cases "\<exists>io script now later ok peer bs. ev = FromServer io script now later ok (Inr (peer, bs))")
  case False
  then have "accepted_packet env ev st = None" by (auto simp: accepted_packet_def elim!: arrival.elims split: option.splits)
  moreover have "quiet_step acc st (tunnel_step env ev st)"
    using False assms quiet_device [OF assms] quiet_rekey_check [OF assms] quiet_keepalive_due [OF assms] quiet_shutdown [OF assms] quiet_other [OF assms]
    by (cases ev) (auto simp: on_datagram_def quiet_step_def split: sum.splits)
  ultimately show ?thesis by simp
next
  case True
  then obtain io script now later ok peer bs where ev: "ev = FromServer io script now later ok (Inr (peer, bs))" by blast
  show ?thesis
  proof (cases "server_packet (te_client env) peer bs")
    case None
    then show ?thesis using assms by (simp add: ev accepted_packet_def on_datagram_def quiet_step_def)
  next
    case (Some pkt)
    obtain res s where o: "session_open (ce_prims (te_client env)) (ts_session st) pkt now = (res, s)" by fastforce
    show ?thesis
      using data_step [OF assms o, of _ ok] control_step [OF assms o] rekey_request_step [OF assms o, of _ io script later] assms
      by (cases "kind (header pkt)"; cases res) (auto simp: ev Some o accepted_packet_def on_datagram_def quiet_step_def)
  qed
qed

section \<open>Properties\<close>

text \<open>The packets accepted while the loop runs, with their plaintexts, in order.\<close>

fun accepted_run :: "tunnel_env \<Rightarrow> tunnel_event list \<Rightarrow> tunnel_state \<Rightarrow> (packet \<times> bytes) list" where
  "accepted_run env [] st = []"
| "accepted_run env (ev # evs) st =
     (case accepted_packet env ev st of None \<Rightarrow> [] | Some x \<Rightarrow> [x]) @
     (case tunnel_step env ev st of (Continue, _, st1) \<Rightarrow> accepted_run env evs st1 | _ \<Rightarrow> [])"

lemma run_accepts_once:
  "known (ts_session st) acc \<Longrightarrow>
     distinct (map (packet_id \<circ> fst) (accepted_run env evs st)) \<and> set (map (packet_id \<circ> fst) (accepted_run env evs st)) \<inter> acc = {} \<and>
     subseq (device_writes (fst (snd (run_data_plane env evs st)))) (map snd (accepted_run env evs st))"
proof (induction evs arbitrary: st acc)
  case (Cons ev evs)
  obtain r out1 st1 where s: "tunnel_step env ev st = (r, out1, st1)" using prod_cases3 by blast
  note T = tunnel_step_sound [OF Cons.prems, of env ev, unfolded s]
  show ?case
  proof (cases "accepted_packet env ev st")
    case None
    then have k: "known (ts_session st1) acc" "device_writes out1 = []" using T by (simp_all add: quiet_step_def)
    show ?thesis using Cons.IH [OF k(1)] s None k(2) by (cases r) (auto split: prod.splits)
  next
    case (Some x)
    obtain pkt m where x: "x = (pkt, m)" by fastforce
    have k: "packet_id pkt \<notin> acc" "known (ts_session st1) (insert (packet_id pkt) acc)" "device_writes out1 = [] \<or> device_writes out1 = [m]"
      using T Some x by (auto simp: accepting_step_def)
    note IH = Cons.IH [OF k(2)]
    show ?thesis using IH s Some x k(1,3) by (cases r) (auto split: prod.splits)
  qed
qed simp

lemma establish_known:
  assumes "establish env io None script = (Got s, rest, out)"
  shows "known s {}"
proof -
  obtain s0 t ack m now where e: "s0 = session_new (ps_session_id s) (ps_key_phase s) (ps_keys s) t" "session_open (ce_prims env) s0 ack now = (Inr m, s)"
    using establish_authentic [OF assms] by auto
  have "known s {packet_id ack}" using known_open(2) [OF known_new e(2) [unfolded e(1)]] by simp
  then show ?thesis by (auto simp: known_def)
qed

text \<open>
  C15. From the session a client established, through any sequence of events and rekeys of its data plane, each packet is accepted at most once
  and what is written to the local devices is, in order, the plaintext of accepted packets, each at most once.
\<close>

theorem client_delivers_once:
  assumes "establish (te_client env) io None script = (Got s, rest, out)"
  shows "distinct (map (packet_id \<circ> fst) (accepted_run env evs (tunnel_start s now gui))) \<and>
    subseq (device_writes (fst (snd (run_data_plane env evs (tunnel_start s now gui))))) (map snd (accepted_run env evs (tunnel_start s now gui)))"
  using run_accepts_once [of "tunnel_start s now gui" "{}" env evs] establish_known [OF assms] by (simp add: tunnel_start_def)

text \<open>
  How an arm ends the data plane or moves the time of the last received packet: the rekey an event runs, with the inputs the event brings, and
  its result.
\<close>

definition due_rekey :: "tunnel_env \<Rightarrow> client_io \<Rightarrow> turn list \<Rightarrow> instant \<Rightarrow> tunnel_state \<Rightarrow> protected_session awaited option" where
  "due_rekey env io script now st =
     (if should_rekey_with_policy (ts_session st) (of_nat (packet_limit (te_rekey env))) (time_limit (te_rekey env)) now
      then Some (fst (establish (te_client env) io (Some (ts_session st)) script)) else None)"

fun rekey_attempt :: "tunnel_env \<Rightarrow> tunnel_event \<Rightarrow> tunnel_state \<Rightarrow> protected_session awaited option" where
  "rekey_attempt env (RekeyCheck io script now later) st = due_rekey env io script now st"
| "rekey_attempt env (TunPacket io script now later draw (Some bs)) st = due_rekey env io script now st"
| "rekey_attempt env (TapFrame io script now later draw (Some bs)) st = due_rekey env io script now st"
| "rekey_attempt env (FromServer io script now later device_ok (Inr (peer, bs))) st =
     (case server_packet (te_client env) peer bs of
        Some pkt \<Rightarrow>
          (if kind (header pkt) = Rekey then
             (case session_open (ce_prims (te_client env)) (ts_session st) pkt now of
                (Inr _, s) \<Rightarrow> Some (fst (establish (te_client env) io (Some s) script))
              | _ \<Rightarrow> None)
           else None)
      | None \<Rightarrow> None)"
| "rekey_attempt env _ st = None"

definition rekey_lost :: "protected_session awaited option \<Rightarrow> bool" where
  "rekey_lost a \<longleftrightarrow> a = Some TimedOut \<or> (\<exists>e. a = Some (Erred e))"

lemma rekey_lost_simps [simp]:
  "\<not> rekey_lost None" "rekey_lost (Some TimedOut)" "rekey_lost (Some (Erred e))" "\<not> rekey_lost (Some Blocked)" "\<not> rekey_lost (Some (Got s))"
  by (simp_all add: rekey_lost_def)

lemma due_rekey_gui [simp]: "due_rekey env io script now (gui_update f st) = due_rekey env io script now st"
  by (simp add: due_rekey_def)

lemma seal_outbound_frame:
  assumes "seal_outbound env draw now k bs st = (r, out, st')"
  shows "ps_keys (ts_session st') = ps_keys (ts_session st)" "ts_last_rx st' = ts_last_rx st" "r \<noteq> Exit e"
proof -
  obtain a s where m: "session_seal (ce_prims (te_client env)) (ts_session st) k bs = (a, s)" by fastforce
  have "ps_keys s = ps_keys (ts_session st)"
    using session_seal_receiver(3,5) [of "ce_prims (te_client env)" "ts_session st" k bs] m by simp
  then show "ps_keys (ts_session st') = ps_keys (ts_session st)" "ts_last_rx st' = ts_last_rx st" "r \<noteq> Exit e"
    using assms m by (auto simp: seal_outbound_def split: prod.splits sum.splits)
qed

lemma rekey_first_result:
  assumes "rekey_first env io script now later st = (rotated, r, out, st')"
  shows "(r = Exit e) = (e = LinkLost \<and> rekey_lost (due_rekey env io script now st))"
    and "ts_last_rx st' \<noteq> ts_last_rx st \<Longrightarrow> due_rekey env io script now st = Some (Got (ts_session st'))"
proof -
  obtain a rest out1 where e: "establish (te_client env) io (Some (ts_session st)) script = (a, rest, out1)" using prod_cases3 by blast
  show "(r = Exit e) = (e = LinkLost \<and> rekey_lost (due_rekey env io script now st))"
    using assms e by (cases a) (auto simp: rekey_first_def client_maybe_rekey_def due_rekey_def split: if_splits)
  show "ts_last_rx st' \<noteq> ts_last_rx st \<Longrightarrow> due_rekey env io script now st = Some (Got (ts_session st'))"
    using assms e by (cases a) (auto simp: rekey_first_def client_maybe_rekey_def due_rekey_def split: if_splits)
qed

lemma device_result:
  assumes "on_device env io script now later draw k (Some bs) st = (r, out, st')"
  shows "(r = Exit e) = (e = LinkLost \<and> rekey_lost (due_rekey env io script now st))"
    and "ts_last_rx st' \<noteq> ts_last_rx st \<Longrightarrow> \<exists>s. due_rekey env io script now st = Some (Got s) \<and> ps_keys (ts_session st') = ps_keys s"
proof -
  let ?st = "gui_update (gui_record_tx (length bs)) st"
  obtain rot r1 out1 st1 where f: "rekey_first env io script now later ?st = (rot, r1, out1, st1)" using prod_cases4 by blast
  note F = rekey_first_result [OF f, unfolded due_rekey_gui gui_update_fields]
  obtain r2 out2 st2 where o: "seal_outbound env draw later k bs st1 = (r2, out2, st2)" using prod_cases3 by blast
  note same = seal_outbound_frame [OF o]
  show "(r = Exit e) = (e = LinkLost \<and> rekey_lost (due_rekey env io script now st))"
    using assms f o same(3) F(1) by (cases r1) (auto simp: on_device_def)
  show "ts_last_rx st' \<noteq> ts_last_rx st \<Longrightarrow> \<exists>s. due_rekey env io script now st = Some (Got s) \<and> ps_keys (ts_session st') = ps_keys s"
    using assms f o same(1,2) F(2) by (cases r1) (auto simp: on_device_def)
qed

lemma datagram_result:
  assumes "on_datagram env io script now later ok received st = (r, out, st')" and "ev = FromServer io script now later ok received"
  shows "(r = Exit ServerClosed) = (\<exists>pkt m. accepted_packet env ev st = Some (pkt, m) \<and> kind (header pkt) = Close)"
    and "(r = Exit LinkLost) = rekey_lost (rekey_attempt env ev st)" and "r \<noteq> Exit Shutdown"
    and "ts_last_rx st' \<noteq> ts_last_rx st \<Longrightarrow> accepted_packet env ev st \<noteq> None"
proof -
  have "((r = Exit ServerClosed) = (\<exists>pkt m. accepted_packet env ev st = Some (pkt, m) \<and> kind (header pkt) = Close)) \<and>
    ((r = Exit LinkLost) = rekey_lost (rekey_attempt env ev st)) \<and> r \<noteq> Exit Shutdown \<and>
    (ts_last_rx st' \<noteq> ts_last_rx st \<longrightarrow> accepted_packet env ev st \<noteq> None)"
  proof (cases received)
    case (Inl e)
    then show ?thesis using assms by (auto simp: on_datagram_def accepted_packet_def)
  next
    case (Inr x)
    then obtain peer bs where rec: "received = Inr (peer, bs)" by (cases x) auto
    show ?thesis
    proof (cases "server_packet (te_client env) peer bs")
      case None
      then show ?thesis using assms rec by (auto simp: on_datagram_def accepted_packet_def)
    next
      case (Some pkt)
      obtain res s where o: "session_open (ce_prims (te_client env)) (ts_session st) pkt now = (res, s)" by fastforce
      obtain a rest out1 where e: "establish (te_client env) io (Some s) script = (a, rest, out1)" using prod_cases3 by blast
      show ?thesis
        using assms rec Some o e
        by (cases "kind (header pkt)"; cases res; cases a)
          (auto simp: on_datagram_def accepted_packet_def on_data_def on_control_def on_rekey_request_def Let_def split: if_splits)
    qed
  qed
  then show "(r = Exit ServerClosed) = (\<exists>pkt m. accepted_packet env ev st = Some (pkt, m) \<and> kind (header pkt) = Close)"
    "(r = Exit LinkLost) = rekey_lost (rekey_attempt env ev st)" "r \<noteq> Exit Shutdown"
    "ts_last_rx st' \<noteq> ts_last_rx st \<Longrightarrow> accepted_packet env ev st \<noteq> None" by blast+
qed

text \<open>
  C24. The client gives up a session exactly for cause. It shuts down exactly when it is told to and can send a sealed close, which it does; it
  reports the server closed exactly when an authenticated close arrived; and the link lost exactly when a liveness check finds that nothing
  authenticated came within the configured limit, or when the rekey that this very event runs, because one is due or the server asked for it with
  an authenticated packet, times out or fails. The time of the last received packet moves only when a packet authenticates or a rekey completes.
\<close>

theorem client_exit_justified:
  assumes "tunnel_step env ev st = (r, out, st')"
  shows "(r = Exit Shutdown \<longleftrightarrow> (\<exists>draw pkt s w. ev = ShutdownSignal True draw \<and>
        session_seal (ce_prims (te_client env)) (ts_session st) Close [] = (Inr pkt, s) \<and> tunnel_wrap env draw pkt = Inr w \<and> out = server_wires env [w])) \<and>
    (r = Exit ServerClosed \<longleftrightarrow> (\<exists>pkt m. accepted_packet env ev st = Some (pkt, m) \<and> kind (header pkt) = Close)) \<and>
    (r = Exit LinkLost \<longleftrightarrow>
       (\<exists>now limit. ev = LivenessCheck now \<and> te_liveness env = Some limit \<and> limit < now - ts_last_rx st) \<or> rekey_lost (rekey_attempt env ev st)) \<and>
    (ts_last_rx st' \<noteq> ts_last_rx st \<longrightarrow> accepted_packet env ev st \<noteq> None \<or>
       (\<exists>s. rekey_attempt env ev st = Some (Got s) \<and> ps_keys (ts_session st') = ps_keys s))"
proof (cases ev)
  case (ShutdownSignal ok draw)
  then show ?thesis using assms
    by (auto simp: on_shutdown_def accepted_packet_def simp del: split_paired_Ex split: if_splits prod.splits sum.splits)
next
  case (RekeyCheck io script now later)
  obtain rot r1 out1 st1 where f: "rekey_first env io script now later st = (rot, r1, out1, st1)" using prod_cases4 by blast
  show ?thesis using assms RekeyCheck f rekey_first_result [OF f] by (auto simp: on_rekey_check_def accepted_packet_def split: if_splits)
next
  case (TunPacket io script now later draw received)
  then show ?thesis using assms device_result [of env io script now later draw Data _ st r out st']
    by (cases received) (auto simp: accepted_packet_def on_device_def [of _ _ _ _ _ _ _ None])
next
  case (TapFrame io script now later draw received)
  then show ?thesis using assms device_result [of env io script now later draw DataTap _ st r out st']
    by (cases received) (auto simp: accepted_packet_def on_device_def [of _ _ _ _ _ _ _ None])
next
  case (FromServer io script now later ok received)
  then show ?thesis using assms datagram_result [OF _ FromServer, of env st r out st'] by auto
qed (use assms in \<open>auto simp: accepted_packet_def on_telemetry_def on_liveness_def on_dequeue_def on_keepalive_due_def
      split: option.splits prod.splits recv_outcome.splits sum.splits if_splits\<close>)

end
