(* ===== verification/Connection.thy ===== *)
theory Connection
  imports Client_Handshake Client_Tunnel Server_Safety
begin

text \<open>
  The client and the server together: the datagrams of \<^verbatim>\<open>establish\<close> of the client are the input of the server's event loop and the
  server's answers are the client's input. An honest client connects, the two ends hold the same session, and its packets arrive.
\<close>

section \<open>Datagrams between the two\<close>

text \<open>A datagram carries a packet when either end unwraps and decodes it to that packet. The draws of an envelope have the lengths drawn.\<close>

definition carries :: "prims \<Rightarrow> bytes option \<Rightarrow> bytes \<Rightarrow> packet \<Rightarrow> bool" where
  "carries p obf w pkt \<longleftrightarrow>
     wf_header (header pkt) \<and> (case obf of Some key \<Rightarrow> obf_unwrap p key w | None \<Rightarrow> Inr w) = Inr (packet_encode pkt)"

definition draw_ok :: "bytes option \<Rightarrow> obf_draw \<Rightarrow> bool" where
  "draw_ok obf draw \<longleftrightarrow>
     (case obf of
        None \<Rightarrow> True
      | Some key \<Rightarrow> length key = 32 \<and> (\<exists>nonce sel pad. draw = (Some nonce, Some sel, pad) \<and> length nonce = 12 \<and>
          (\<forall>n. \<exists>bs. pad n = Some bs \<and> length bs = n)))"

lemma wrap_carries:
  assumes "lawful p" and "draw_ok obf draw" and "wf_header (header pkt)"
  obtains w where "wrap_wire p obf draw (packet_encode pkt) = Inr w" "carries p obf w pkt"
proof (cases obf)
  case None
  then show ?thesis using that assms(3) by (simp add: carries_def)
next
  case (Some key)
  obtain nonce sel pad where d: "draw = (Some nonce, Some sel, pad)" "length key = 32" "length nonce = 12"
    "\<And>n. \<exists>bs. pad n = Some bs \<and> length bs = n" using assms(2) Some by (auto simp: draw_ok_def)
  have len: "length bs = n" if "pad n = Some bs" for n bs using d(4) [of n] that by auto
  obtain w where w: "obf_wrap p key (packet_encode pkt) (Some nonce) (Some sel) pad = Inr w"
    using d(2,3) d(4) [of "unat sel mod Suc MAX_PADDING"]
    by (auto simp: obf_wrap_def secret_random_def cipher_new_def Let_def NONCE_LEN_def)
  then show ?thesis using that [of w] obf_unwrap_wrap [OF lawfulD(2) [OF assms(1)] len w] assms(3)
    by (simp add: carries_def Some d(1))
qed

lemma server_carries:
  assumes "carries (se_prims env) (se_obfuscation env) w pkt"
  shows "server_step env (Datagram c w now unix draws adraws) st =
    dispatch env c pkt (length w) now unix draws adraws (st\<lparr>sv_recv_errors := 0\<rparr>)"
  using assms packet_decode_encode [of pkt] by (simp add: carries_def handle_datagram_def unwrap_wire_def)

lemma client_carries:
  assumes "carries (ce_prims env) (ce_obfuscation env) w pkt"
  shows "server_packet env (ce_server env) w = Some pkt"
  using assms packet_decode_encode [of pkt] by (simp add: carries_def server_packet_def client_unwrap_def)

definition initial_packet :: "handshake_message \<Rightarrow> session_id \<Rightarrow> u64 \<Rightarrow> packet" where
  "initial_packet m sid n = \<lparr>header = \<lparr>kind = Handshake, key_phase = 0, sequence = n, session_id = sid\<rparr>, payload = message_encode m\<rparr>"

lemma initial_packet_simps [simp]:
  "kind (header (initial_packet m sid n)) = Handshake" "sequence (header (initial_packet m sid n)) = n"
  "session_id (header (initial_packet m sid n)) = sid" "payload (initial_packet m sid n) = message_encode m"
  "wf_header (header (initial_packet m sid n)) = wf_session_id sid"
  by (simp_all add: initial_packet_def wf_header_def)

section \<open>The server's answers\<close>

text \<open>To an initiation without a cookie, within the limits.\<close>

lemma challenge_step:
  assumes "lawful (se_prims env)" and "draw_ok (se_obfuscation env) (draws 0)"
    and "carries (se_prims env) (se_obfuscation env) w (initial_packet (Initiation pk r None m) ZERO 0)" and "wf_message (Initiation pk r None m)"
    and "challenge_allow c now (sv_cookies st) = (True, l)"
  obtains reply where
    "server_step env (Datagram c w now unix draws adraws) st = (Inr (), [Wire c reply], st\<lparr>sv_recv_errors := 0, sv_cookies := l\<rparr>)"
    "carries (se_prims env) (se_obfuscation env) reply
       (initial_packet (CookieReply (cookie_mint (se_prims env) (se_cookie_key env) c pk r unix)) ZERO 0)"
proof -
  let ?reply = "initial_packet (CookieReply (cookie_mint (se_prims env) (se_cookie_key env) c pk r unix)) ZERO 0"
  obtain reply where w: "wrap_wire (se_prims env) (se_obfuscation env) (draws 0) (packet_encode ?reply) = Inr reply"
    "carries (se_prims env) (se_obfuscation env) reply ?reply"
    using wrap_carries [OF assms(1,2), of ?reply] by auto
  have "challenge_or_admit (se_prims env) (se_cookie_key env) (se_obfuscation env) (draws 0) c (Initiation pk r None m) now unix (sv_cookies st) =
      (False, [(c, reply)], l)"
    using assms(5) w(1) by (simp add: challenge_or_admit_def hs_send_wire_def initial_packet_def)
  then show ?thesis
    using that [OF _ w(2)] server_carries [OF assms(3)] message_decode_encode [OF assms(4)]
    by (simp add: dispatch_def handle_initial_def ok_step_def)
qed

text \<open>To an initiation with its cookie: the configured peers are answered in order, and the handshake with each stays in progress.\<close>

definition awaiting :: "'n peer_identity \<Rightarrow> socket_addr \<Rightarrow> handshake_message \<Rightarrow> session_id \<Rightarrow> responder_handshake \<Rightarrow> 'n pending_handshake" where
  "awaiting identity c resp sid rh =
     \<lparr>ph_source = Known identity, ph_handshake = rh, ph_endpoint = c, ph_packet = initial_packet resp sid 0, ph_kind = Handshake, ph_attempts = 1\<rparr>"

lemma respond_step:
  assumes "lawful p" and "draw_ok obf od" and "wf_session_id (SessionId sid)"
    and "accept_for_session p (cfg_identity (pi_auth identity)) (cfg_verifier (pi_auth identity)) initiation (SessionId sid) 0 kd rd = Inr (rh, resp)"
  obtains w where "carries p obf w (initial_packet resp (SessionId sid) 0)"
    "respond_initial p obf c initiation (Known identity) (pi_auth identity) (Some sid, kd, rd, od) =
       (\<lambda>pending. (Inr (), [(c, w)], pending_insert pending (SessionId sid) (awaiting identity c resp (SessionId sid) rh)))"
proof -
  obtain pk r sealed where resp: "resp = Response pk r (SessionId sid) sealed" using accept_shape(4) [OF assms(4)] by blast
  obtain w where w: "wrap_wire p obf od (packet_encode (initial_packet resp (SessionId sid) 0)) = Inr w" "carries p obf w (initial_packet resp (SessionId sid) 0)"
    using wrap_carries [OF assms(1,2), of "initial_packet resp (SessionId sid) 0"] assms(3) by auto
  then show ?thesis using that [OF w(2)] assms(4)
    by (simp add: respond_initial_def responder_accept_def secret_random_def resp hs_send_wire_def initial_packet_def awaiting_def fun_eq_iff)
qed

lemma pending_get_respond:
  assumes "fst d \<noteq> Some b" and "pending_get pending (SessionId b) = Some state"
  shows "pending_get (snd (snd (respond_initial p obf c initiation source auth d pending))) (SessionId b) = Some state"
proof -
  have ne: False if "responder_accept p i v initiation (fst d) kd rd = Inr (rh, Response pk r (SessionId b) sealed)" for i v kd rd rh pk r sealed
    using that assms(1) accept_shape(4) by (fastforce simp: responder_accept_def secret_random_def split: option.splits)
  obtain sd kd rd od where d: "d = (sd, kd, rd, od)" using prod_cases4 by blast
  show ?thesis using assms(2)
    by (auto simp: respond_initial_def d Let_def pending_get_insert split: sum.splits handshake_message.splits dest: ne [unfolded d fst_conv])
qed

lemma pending_get_try_identities:
  assumes "\<And>j. j \<ge> i \<Longrightarrow> fst (draws j) \<noteq> Some b"
  shows "pending_get pending (SessionId b) = Some state \<Longrightarrow>
    pending_get (snd (try_identities p obf c initiation limit draws i ids pending)) (SessionId b) = Some state"
  using assms
proof (induction ids arbitrary: i pending)
  case (Cons identity ids)
  then show ?case by (simp add: Let_def case_prod_beta pending_get_respond)
qed simp

text \<open>Every answer adds at most one handshake in progress for the address, and a failed draw none.\<close>

lemma count_for_insert: "count_for (pending_insert pending sid state) c \<le> Suc (count_for pending c)"
  by (auto simp: count_for_def pending_insert_def Let_def increment_def decrement_def split: option.splits)

lemma count_for_respond: "count_for (snd (snd (respond_initial p obf c initiation source auth d pending))) c' \<le> Suc (count_for pending c')"
  using count_for_insert by (auto simp: respond_initial_def Let_def split: prod.splits sum.splits handshake_message.splits)

lemma respond_no_draw: "fst d = None \<Longrightarrow> snd (snd (respond_initial p obf c initiation source auth d pending)) = pending"
  by (cases d) (simp add: respond_initial_def responder_accept_def secret_random_def)

lemma try_identities_no_draw: "(\<And>j. j \<ge> i \<Longrightarrow> fst (draws j) = None) \<Longrightarrow> snd (try_identities p obf c initiation limit draws i ids pending) = pending"
  by (induction ids arbitrary: i) (simp_all add: Let_def case_prod_beta respond_no_draw)

lemma try_identities_append:
  assumes "count_for pending c + length before < limit"
  obtains out1 pending1 where
    "try_identities p obf c initiation limit draws i (before @ ids) pending =
       (case try_identities p obf c initiation limit draws (i + length before) ids pending1 of (out2, pending2) \<Rightarrow> (out1 @ out2, pending2))"
    "count_for pending1 c \<le> count_for pending c + length before"
    "(\<And>j. j < i + length before \<Longrightarrow> fst (draws j) = None) \<Longrightarrow> pending1 = pending"
  using assms
proof (induction before arbitrary: thesis i pending)
  case Nil
  show ?case by (rule Nil.prems(1) [of "[]" pending]) simp_all
next
  case (Cons x before)
  let ?r = "respond_initial p obf c initiation (Known x) (pi_auth x) (draws i) pending"
  have le: "count_for (snd (snd ?r)) c \<le> Suc (count_for pending c)" by (rule count_for_respond)
  then have "count_for (snd (snd ?r)) c + length before < limit" using Cons.prems(2) by simp
  from Cons.IH [OF _ this, of "Suc i"] obtain out1 pending1 where
    t: "try_identities p obf c initiation limit draws (Suc i) (before @ ids) (snd (snd ?r)) =
       (case try_identities p obf c initiation limit draws (Suc i + length before) ids pending1 of (out2, pending2) \<Rightarrow> (out1 @ out2, pending2))"
    "count_for pending1 c \<le> count_for (snd (snd ?r)) c + length before"
    "(\<And>j. j < Suc i + length before \<Longrightarrow> fst (draws j) = None) \<Longrightarrow> pending1 = snd (snd ?r)" by blast
  show ?case
  proof (rule Cons.prems(1) [of "fst (snd ?r) @ out1" pending1])
    show "try_identities p obf c initiation limit draws i ((x # before) @ ids) pending =
        (case try_identities p obf c initiation limit draws (i + length (x # before)) ids pending1 of (out2, pending2) \<Rightarrow> ((fst (snd ?r) @ out1) @ out2, pending2))"
      using Cons.prems(2) t(1) by (simp add: Let_def case_prod_beta)
    show "count_for pending1 c \<le> count_for pending c + length (x # before)" using t(2) le by simp
    show "pending1 = pending" if "\<And>j. j < i + length (x # before) \<Longrightarrow> fst (draws j) = None"
      using t(3) that respond_no_draw [of "draws i"] by simp
  qed
qed

lemma answers_own_peer:
  assumes "respond_initial p obf c ini (Known identity) (pi_auth identity) (adraws (length before)) = (\<lambda>pending. (Inr (), [(c, w')], pending_insert pending (SessionId sid) state))"
    and "pending_len pending < MAX_PENDING_HANDSHAKES" and "count_for pending c + length before < limit"
    and "\<And>j. j \<noteq> length before \<Longrightarrow> fst (adraws j) \<noteq> Some sid"
  obtains earlier more pending' where
    "begin_initial p ps obf (before @ identity # others) ca c ini limit adraws pending = (earlier @ (c, w') # more, pending')"
    "pending_get pending' (SessionId sid) = Some state"
    "(\<And>j. j \<noteq> length before \<Longrightarrow> fst (adraws j) = None) \<Longrightarrow> pending' = pending_insert pending (SessionId sid) state"
proof -
  let ?n = "length before"
  obtain out1 pending1 where t: "try_identities p obf c ini limit adraws 0 (before @ identity # others) pending =
       (case try_identities p obf c ini limit adraws ?n (identity # others) pending1 of (out2, pending2) \<Rightarrow> (out1 @ out2, pending2))"
    "count_for pending1 c \<le> count_for pending c + ?n" "(\<And>j. j < ?n \<Longrightarrow> fst (adraws j) = None) \<Longrightarrow> pending1 = pending"
    using try_identities_append [OF assms(3), of p obf ini adraws 0 "identity # others"] by auto
  let ?mid = "pending_insert pending1 (SessionId sid) state"
  obtain out2 pending2 where t2: "try_identities p obf c ini limit adraws (Suc ?n) others ?mid = (out2, pending2)" by fastforce
  have all: "try_identities p obf c ini limit adraws 0 (before @ identity # others) pending = (out1 @ (c, w') # out2, pending2)"
    using t(1,2) t2 assms(1,3) by simp
  have get: "pending_get pending2 (SessionId sid) = Some state"
    using pending_get_try_identities [of "Suc ?n" adraws sid ?mid state p obf c ini limit others] assms(4) t2
    by (simp add: pending_get_insert)
  have none: "pending2 = pending_insert pending (SessionId sid) state" if "\<And>j. j \<noteq> ?n \<Longrightarrow> fst (adraws j) = None"
    using try_identities_no_draw [of "Suc ?n" adraws p obf c ini limit others ?mid] that t(3) t2 by simp
  let ?b = "begin_initial p ps obf (before @ identity # others) ca c ini limit adraws pending"
  have last: "length (before @ identity # others) \<noteq> ?n" by simp
  have "\<exists>more. fst ?b = out1 @ (c, w') # more" "pending_get (snd ?b) (SessionId sid) = Some state"
    "(\<And>j. j \<noteq> ?n \<Longrightarrow> fst (adraws j) = None) \<Longrightarrow> snd ?b = pending_insert pending (SessionId sid) state"
    using assms(2,3) get pending_get_respond [OF assms(4) [OF last] get] none respond_no_draw [of "adraws (length (before @ identity # others))"]
    by (auto simp: begin_initial_def all Let_def case_prod_beta simp del: try_identities.simps split: option.splits sum.splits)
  then show ?thesis using that [of out1] by (metis prod.collapse)
qed

lemma admit_step:
  assumes "lawful (se_prims env)" and "draw_ok (se_obfuscation env) od" and "wf_session_id (SessionId sid)"
    and "carries (se_prims env) (se_obfuscation env) w (initial_packet ini ZERO 0)" and "ini = Initiation pk r (Some cookie) m" and "wf_message ini"
    and "cookie_verify (se_prims env) (se_cookie_key env) c pk r cookie unix"
    and "sv_identities st = before @ identity # others" and "pending_len (sv_pending st) < MAX_PENDING_HANDSHAKES"
    and "count_for (sv_pending st) c + length before < sv_limit st"
    and "adraws (length before) = (Some sid, kd, rd, od)" and "\<And>j. j \<noteq> length before \<Longrightarrow> fst (adraws j) \<noteq> Some sid"
    and "accept_for_session (se_prims env) (cfg_identity (pi_auth identity)) (cfg_verifier (pi_auth identity)) ini (SessionId sid) 0 kd rd = Inr (rh, resp)"
  obtains earlier w' more pending where
    "server_step env (Datagram c w now unix draws adraws) st = (Inr (), earlier @ Wire c w' # more, st\<lparr>sv_recv_errors := 0, sv_pending := pending\<rparr>)"
    "carries (se_prims env) (se_obfuscation env) w' (initial_packet resp (SessionId sid) 0)"
    "pending_get pending (SessionId sid) = Some (awaiting identity c resp (SessionId sid) rh)"
    "(\<forall>j. j \<noteq> length before \<longrightarrow> fst (adraws j) = None) \<longrightarrow>
       pending = pending_insert (sv_pending st) (SessionId sid) (awaiting identity c resp (SessionId sid) rh)"
proof -
  let ?p = "se_prims env" and ?state = "awaiting identity c resp (SessionId sid) rh"
  obtain w' where w': "carries ?p (se_obfuscation env) w' (initial_packet resp (SessionId sid) 0)"
    "respond_initial ?p (se_obfuscation env) c ini (Known identity) (pi_auth identity) (Some sid, kd, rd, od) =
       (\<lambda>pending. (Inr (), [(c, w')], pending_insert pending (SessionId sid) ?state))"
    using respond_step [OF assms(1,2,3,13)] by blast
  obtain earlier more pending where b:
    "begin_initial ?p (se_parsers env) (se_obfuscation env) (before @ identity # others) (sv_ca st) c ini (sv_limit st) adraws (sv_pending st) = (earlier @ (c, w') # more, pending)"
    "pending_get pending (SessionId sid) = Some ?state"
    "(\<And>j. j \<noteq> length before \<Longrightarrow> fst (adraws j) = None) \<Longrightarrow> pending = pending_insert (sv_pending st) (SessionId sid) ?state"
    by (rule answers_own_peer [of ?p "se_obfuscation env" c ini identity adraws before w' sid ?state "sv_pending st" "sv_limit st" "se_parsers env" others "sv_ca st"])
      (use w'(2) assms(9-12) in simp_all)
  have "challenge_or_admit ?p (se_cookie_key env) (se_obfuscation env) (draws 0) c ini now unix (sv_cookies st) = (True, [], sv_cookies st)"
    using assms(5,7) by (simp add: challenge_or_admit_def)
  then have "server_step env (Datagram c w now unix draws adraws) st =
      (Inr (), wires earlier @ Wire c w' # wires more, st\<lparr>sv_recv_errors := 0, sv_pending := pending\<rparr>)"
    using b(1) server_carries [OF assms(4)] message_decode_encode [OF assms(6)] assms(5,8)
    by (simp add: dispatch_def handle_initial_def ok_step_def)
  then show ?thesis using that [OF _ w'(1) b(2)] b(3) by blast
qed

text \<open>To the finish of a handshake in progress, for a session identifier not in use.\<close>

lemma install_new_session:
  assumes "install_session identity session c grace rx_rate now active = (evicted, active')" and "active_inv active"
    and "map_of active (ps_session_id session) = None"
  shows "map_of active' (ps_session_id session) = Some (active_peer_new identity session c rx_rate now)"
proof -
  have "map_of (filter (\<lambda>e. \<not> (case e of (i, existing) \<Rightarrow> i \<noteq> ps_session_id session \<and> same_peer (ap_identity existing) identity)) active)
      (ps_session_id session) = None"
    using assms(3) by (auto simp: map_of_eq_None_iff)
  then show ?thesis using assms(1) by (auto simp: install_session_def Let_def active_peer_new_def update_conv')
qed

text \<open>What changes at the server when a session joins: its handshake is no longer in progress, and all other sessions but former ones of the same peer stay.\<close>

definition joined :: "'n server_state \<Rightarrow> session_id \<Rightarrow> 'n peer_identity \<Rightarrow> 'n server_state \<Rightarrow> bool" where
  "joined st sid identity st' \<longleftrightarrow>
     sv_config st' = sv_config st \<and> sv_identities st' = sv_identities st \<and> sv_limit st' = sv_limit st \<and> sv_cookies st' = sv_cookies st \<and>
     sv_queue st' = sv_queue st \<and> sv_pending st' = snd (pending_remove (sv_pending st) sid) \<and>
     (\<forall>x a. x \<noteq> sid \<longrightarrow> map_of (sv_active st') x = Some a \<longrightarrow> map_of (sv_active st) x = Some a) \<and>
     (\<forall>x a. x \<noteq> sid \<longrightarrow> map_of (sv_active st) x = Some a \<longrightarrow> \<not> same_peer (ap_identity a) identity \<longrightarrow> map_of (sv_active st') x = Some a)"

lemma install_session_others:
  assumes "install_session identity session c grace rx_rate now active = (evicted, active')" and "active_inv active" and "x \<noteq> ps_session_id session"
  shows "map_of active' x = (case map_of active x of Some a \<Rightarrow> if same_peer (ap_identity a) identity then None else Some a | None \<Rightarrow> None)"
proof -
  have d: "distinct (map fst active)" using assms(2) by (simp add: active_inv_def)
  let ?f = "filter (\<lambda>e. \<not> (case e of (i, existing) \<Rightarrow> i \<noteq> ps_session_id session \<and> same_peer (ap_identity existing) identity)) active"
  have "map_of active' x = map_of ?f x" using assms(1,3) by (auto simp: install_session_def Let_def update_conv' case_prod_beta)
  also have "\<dots> = (case map_of active x of Some a \<Rightarrow> if same_peer (ap_identity a) identity then None else Some a | None \<Rightarrow> None)"
    using d assms(3) by (induction active) (auto simp: map_of_eq_None_iff split: option.splits)
  finally show ?thesis .
qed

lemma finish_step:
  assumes "lawful (se_prims env)" and "draw_ok (se_obfuscation env) (draws 0)" and "active_inv (sv_active st)"
    and "carries (se_prims env) (se_obfuscation env) w (initial_packet fin sid 1)" and "wf_message fin" and "wf_session_id sid"
    and "pending_get (sv_pending st) sid = Some (awaiting identity c resp sid rh)" and "map_of (sv_active st) sid = None"
    and "responder_finish (se_prims env) rh fin unix now = Inr (session_new sid 0 keys now, remote)" and "length (send_key keys) = 32"
  obtains w' ack st' where "server_step env (Datagram c w now unix draws adraws) st = (Inr (), [Wire c w'], st')"
    "carries (se_prims env) (se_obfuscation env) w' ack"
    "session_seal (se_prims env) (session_new sid 0 keys now) Keepalive [] = (Inr ack, (session_new sid 0 keys now)\<lparr>next_send_sequence := 1\<rparr>)"
    "map_of (sv_active st') sid = Some (active_peer_new identity ((session_new sid 0 keys now)\<lparr>next_send_sequence := 1\<rparr>) c (se_rx_rate env) now)"
    "joined st sid identity st'"
proof -
  let ?p = "se_prims env" and ?s = "session_new sid 0 keys now" and ?st = "st\<lparr>sv_recv_errors := 0\<rparr>"
  let ?peer = "active_peer_new identity ?s c (se_rx_rate env) now"
  obtain ack where ack: "session_seal ?p ?s Keepalive [] = (Inr ack, ?s\<lparr>next_send_sequence := 1\<rparr>)"
    using session_seal_succeeds [OF lawfulD(3) [OF assms(1)], of ?s Keepalive "[]"] assms(10) by (auto simp: session_new_def AEAD_MAX_def)
  then have wf: "wf_header (header ack)" using session_seal_Inr assms(6) by (fastforce simp: wf_header_def session_new_def)
  obtain w' where w': "wrap_wire ?p (se_obfuscation env) (draws 0) (packet_encode ack) = Inr w'" "carries ?p (se_obfuscation env) w' ack"
    using wrap_carries [OF assms(1,2) wf] by blast
  obtain evicted active' where inst: "install_session identity ?s c (se_grace env) (se_rx_rate env) now (sv_active st) = (evicted, active')" by fastforce
  then have look: "map_of active' sid = Some ?peer"
    using install_new_session [OF inst assms(3)] assms(8) by (simp add: session_new_def)
  have run: "finish_pending ?p (se_parsers env) (sv_pending st) (sv_active st) c (initial_packet fin sid 1) (se_grace env) (se_rx_rate env) unix now =
      (evicted, snd (pending_remove (sv_pending st) sid), active')"
    using assms(7,9) message_decode_encode [OF assms(5)] inst
    by (auto simp: finish_pending_def pending_get_def pending_remove_def awaiting_def)
  have "send_keepalive env (draws 0) ?peer = (Inr [Wire c w'], ?peer\<lparr>ap_session := ?s\<lparr>next_send_sequence := 1\<rparr>\<rparr>)"
    using ack w'(1) by (simp add: send_keepalive_def active_peer_new_def)
  moreover have "ps_session_id ?s = sid" by (simp add: session_new_def)
  note others = install_session_others [OF inst assms(3), unfolded this]
  ultimately show ?thesis
    using that [OF _ w'(2) ack] server_carries [OF assms(4), of c now unix draws adraws st] run look
    by (simp add: dispatch_def handle_finish_def active_peer_new_def map_of_update_peer joined_def others split: option.splits if_splits)
qed

section \<open>The client's run\<close>

definition in_time :: "client_env \<Rightarrow> duration \<Rightarrow> duration \<Rightarrow> duration \<Rightarrow> bool" where
  "in_time env t1 t2 t3 \<longleftrightarrow>
     0 < retry_limit (ce_policy env) \<and> t1 < millis (retry_jitter_ms (ce_policy env)) \<and> t2 < millis (retry_jitter_ms (ce_policy env)) \<and>
     t3 < millis (max (retry_interval_ms (ce_policy env)) 1 + retry_jitter_ms (ce_policy env))"

lemma client_send_ok:
  "wrap_wire (ce_prims env) (ce_obfuscation env) (io_draw io (length out)) (packet_encode pkt) = Inr w \<Longrightarrow> io_sent io (length out) = None \<Longrightarrow>
   client_send env io pkt out = (Inr (), out @ [w])"
  by (simp add: client_send_def)

lemma cookie_turn:
  assumes "carries (ce_prims env) (ce_obfuscation env) bs (initial_packet (CookieReply cookie) ZERO 0)" and "length cookie = 32"
    and "t < millis (retry_jitter_ms (ce_policy env))" and "ih1 = attach_cookie (ce_prims env) ih cookie"
    and "client_send env io (initial_packet (ih_initiation ih1) ZERO 0) out = (Inr (), out1)"
  shows "await_response env io Handshake None ((t, Arrived (ce_server env) bs unix now) # rest) (ih, initial_packet ini ZERO 0) out =
    await_response env io Handshake None rest (ih1, initial_packet (ih_initiation ih1) ZERO 0) out1"
proof -
  have "response_action env Handshake None ih unix (initial_packet (CookieReply cookie) ZERO 0) = Resend cookie"
    using message_decode_encode [of "CookieReply cookie"] assms(2) by (simp add: response_action_def)
  moreover have "initiation_with (initial_packet ini ZERO 0) ih1 = initial_packet (ih_initiation ih1) ZERO 0"
    by (simp add: initiation_with_def initial_packet_def)
  ultimately show ?thesis using client_carries [OF assms(1)] assms(3-5) by (simp add: Let_def)
qed

lemma response_turn:
  assumes "carries (ce_prims env) (ce_obfuscation env) bs (initial_packet resp sid 0)" and "resp = Response pk r sid sealed" and "wf_message resp"
    and "t < millis (retry_jitter_ms (ce_policy env))" and "authenticates_response (ce_prims env) ih resp unix = Inr True"
  shows "await_response env io Handshake None ((t, Arrived (ce_server env) bs unix now) # rest) (ih, pkt) out = (Got resp, rest, (ih, pkt), out)"
proof -
  have "response_action env Handshake None ih unix (initial_packet resp sid 0) = Accept resp"
    using message_decode_encode [OF assms(3)] assms(2,5) by (simp add: response_action_def)
  then show ?thesis using client_carries [OF assms(1)] assms(4) by simp
qed

lemma client_run:
  assumes "initiator_start (ce_prims env) (cfg_identity (ce_auth env)) (cfg_verifier (ce_auth env)) (fst (io_start io)) (snd (io_start io)) = Inr (ih, ini)"
    and "ih1 = attach_cookie (ce_prims env) ih cookie" and "length cookie = 32" and sent: "\<And>n. io_sent io n = None"
    and "wrap_wire (ce_prims env) (ce_obfuscation env) (io_draw io 0) (packet_encode (initial_packet ini ZERO 0)) = Inr w1"
    and "wrap_wire (ce_prims env) (ce_obfuscation env) (io_draw io 1) (packet_encode (initial_packet (ih_initiation ih1) ZERO 0)) = Inr w2"
    and "wrap_wire (ce_prims env) (ce_obfuscation env) (io_draw io 2) (packet_encode (initial_packet fin sid 1)) = Inr w3"
    and "carries (ce_prims env) (ce_obfuscation env) reply (initial_packet (CookieReply cookie) ZERO 0)"
    and "carries (ce_prims env) (ce_obfuscation env) wr (initial_packet resp sid 0)" and resp: "resp = Response pk r sid sealed" and "wf_message resp"
    and "authenticates_response (ce_prims env) ih1 resp unix2 = Inr True"
    and fin: "finish_for_session (ce_prims env) ih1 resp sid 0 (fst (io_finish io)) (snd (io_finish io)) = Inr (fin, session, remote)"
    and "carries (ce_prims env) (ce_obfuscation env) wa ack" and "session_id (header ack) = ps_session_id session" and "kind (header ack) = Keepalive"
    and "session_open (ce_prims env) session ack now3 = (Inr m, s)" and time: "in_time env t1 t2 t3"
  shows "establish env io None [(t1, Arrived (ce_server env) reply unix1 now1), (t2, Arrived (ce_server env) wr unix2 now2),
      (t3, Arrived (ce_server env) wa unix3 now3)] = (Got s, [], [w1, w2, w3])"
proof -
  let ?t3 = "(t3, Arrived (ce_server env) wa unix3 now3)"
  obtain n where n: "retry_limit (ce_policy env) = Suc n" using time by (auto simp: in_time_def gr0_conv_Suc)
  have s: "client_send env io (initial_packet ini ZERO 0) [] = (Inr (), [w1])"
    "client_send env io (initial_packet (ih_initiation ih1) ZERO 0) [w1] = (Inr (), [w1, w2])"
    "client_send env io (initial_packet fin sid 1) [w1, w2] = (Inr (), [w1, w2, w3])"
    using assms(5-7) sent client_send_ok [of env io "[]"] client_send_ok [of env io "[w1]"] client_send_ok [of env io "[w1, w2]"]
    by (simp_all add: numeral_2_eq_2)
  have t: "t1 < millis (retry_jitter_ms (ce_policy env))" "t2 < millis (retry_jitter_ms (ce_policy env))"
    "t3 < millis (max (retry_interval_ms (ce_policy env)) 1 + retry_jitter_ms (ce_policy env))" using time by (simp_all add: in_time_def)
  have "response_attempts env io Handshake None (Suc n) [(t1, Arrived (ce_server env) reply unix1 now1), (t2, Arrived (ce_server env) wr unix2 now2), ?t3]
      (ih, initial_packet ini ZERO 0) [] = (Got resp, [?t3], (ih1, initial_packet (ih_initiation ih1) ZERO 0), [w1, w2])"
    using cookie_turn [OF assms(8,3) t(1) assms(2) s(2)] response_turn [OF assms(9) resp assms(11) t(2) assms(12)] s(1)
    by (simp del: await_response.simps(2))
  moreover have "acked env session (ce_server env) wa now3 = Some s"
    using client_carries [OF assms(14)] assms(15-17) by (simp add: acked_def)
  then have "finish_attempts env io (initial_packet fin sid 1) (Suc n) [?t3] session [w1, w2] = (Got s, [], [w1, w2, w3])"
    using s(3) t(3) by (simp add: await_ack_step del: await_ack.simps(2))
  moreover have "initiator_finish (ce_prims env) ih1 resp (fst (io_finish io)) (snd (io_finish io)) = Inr (fin, session, remote)"
    using fin by (simp add: initiator_finish_def resp)
  ultimately show ?thesis using assms(1)
    by (simp add: establish_def establish_target_def finish_response_def n resp response_session_def initial_packet_def del: response_attempts.simps finish_attempts.simps)
qed

section \<open>Connecting\<close>

definition paired :: "protected_session \<Rightarrow> protected_session \<Rightarrow> bool" where
  "paired a b \<longleftrightarrow>
     ps_session_id a = ps_session_id b \<and> ps_key_phase a = ps_key_phase b \<and> send_key (ps_keys a) = receive_key (ps_keys b) \<and>
     receive_key (ps_keys a) = send_key (ps_keys b) \<and> length (send_key (ps_keys a)) = 32 \<and> length (send_key (ps_keys b)) = 32"

definition mutual_trust :: "prims \<Rightarrow> auth_config \<Rightarrow> auth_config \<Rightarrow> u64 set \<Rightarrow> bool" where
  "mutual_trust p client server U \<longleftrightarrow>
     wf_identity (cfg_identity client) \<and> wf_identity (cfg_identity server) \<and>
     (\<forall>unix \<in> U. trusts p (cfg_verifier client) (cfg_identity server) unix \<and> trusts p (cfg_verifier server) (cfg_identity client) unix)"

text \<open>The server has room for the client, which is the peer at position \<open>i\<close> of its configuration, and both use the same envelope.\<close>

definition connectable :: "client_env \<Rightarrow> 'n server_env \<Rightarrow> socket_addr \<Rightarrow> instant \<Rightarrow> 'n server_state \<Rightarrow> nat \<Rightarrow> 'n peer_identity \<Rightarrow> bool" where
  "connectable env senv c now st i identity \<longleftrightarrow>
     lawful (se_prims senv) \<and> ce_prims env = se_prims senv \<and> ce_obfuscation env = se_obfuscation senv \<and> active_inv (sv_active st) \<and>
     i < length (sv_identities st) \<and> sv_identities st ! i = identity \<and> pending_len (sv_pending st) < MAX_PENDING_HANDSHAKES \<and>
     count_for (sv_pending st) c + i < sv_limit st \<and> fst (challenge_allow c now (sv_cookies st))"

definition client_draws_ok :: "client_env \<Rightarrow> client_io \<Rightarrow> bytes \<Rightarrow> bytes \<Rightarrow> bool" where
  "client_draws_ok env io secret random \<longleftrightarrow>
     io_start io = (Some secret, Some random) \<and> length secret = 32 \<and> length random = 32 \<and>
     (\<forall>n. draw_ok (ce_obfuscation env) (io_draw io n) \<and> io_sent io n = None)"

definition server_draws_ok :: "'n server_env \<Rightarrow> 'n server_state \<Rightarrow> nat \<Rightarrow> (nat \<Rightarrow> accept_draw) \<Rightarrow> bytes \<Rightarrow> bytes \<Rightarrow> bytes \<Rightarrow> bool" where
  "server_draws_ok senv st i adraws sid secret random \<longleftrightarrow>
     (\<exists>od. adraws i = (Some sid, Some secret, Some random, od) \<and> draw_ok (se_obfuscation senv) od) \<and> length sid = 16 \<and> length secret = 32 \<and>
     length random = 32 \<and> (\<forall>j. j \<noteq> i \<longrightarrow> fst (adraws j) \<noteq> Some sid) \<and> map_of (sv_active st) (SessionId sid) = None"

lemma length_compute_mac1: "lawful_hash p \<Longrightarrow> length (compute_mac1 p key pk r c) = 16"
  by (simp add: compute_mac1_def mac1_compute_def lawful_hash_def MAC1_LEN_def)

lemma start_shape:
  assumes "lawful p" and "length secret = 32"
  obtains ih pk mac where "initiator_start p i v (Some secret) (Some random) = Inr (ih, Initiation pk random None mac)"
    "ih_initiation ih = Initiation pk random None mac" "pk = x25519_public p secret" "length pk = 32" "length mac = 16"
  using assms length_compute_mac1 [OF lawfulD(1) [OF assms(1)]] lawfulD(4) [OF assms(1)]
  by (auto simp: initiator_start_def ephemeral_generate_def secret_random_def Let_def lawful_dh_def intro: that)

lemma accept_wf:
  assumes "accept_for_session p i v ini sid phase (Some secret) (Some random) = Inr (rh, resp)" and "lawful p" and "length secret = 32"
    and "length random = 32" and "wf_session_id sid"
  shows "wf_message resp"
  using assms(1,3-5) lawfulD(4) [OF assms(2)]
  by (auto simp: accept_for_session_def ephemeral_generate_def secret_random_def copy_array_def Let_def lawful_dh_def
      split: handshake_message.splits if_splits)

lemma finish_wf: "finish_for_session p ih resp sid phase unix now = Inr (fin, s, remote) \<Longrightarrow> wf_message fin"
  by (auto simp: finish_for_session_def copy_array_def Let_def split: handshake_message.splits if_splits)

lemma open_first:
  assumes "lawful p" and "session_seal p (session_new sid phase rkeys now) Keepalive [] = (Inr ack, s')" and "receive_key skeys = send_key rkeys"
  obtains s where "session_open p (session_new sid phase skeys now0) ack now1 = (Inr [], s)" "session_id (header ack) = sid" "kind (header ack) = Keepalive"
    "session_rep s {0} {}"
proof -
  note S = session_seal_Inr [OF assms(2)]
  show ?thesis
    by (rule session_open_paired [OF lawfulD(3) [OF assms(1)] session_rep_new, of ack sid phase skeys now0 "[]" now1 "{}"])
      (use S assms(3) that in \<open>auto simp: session_new_def\<close>)
qed

lemma cookie_still_valid:
  assumes "lawful_hash p" and "unat unix1 div 60 = unat unix2 div 60 \<or> unat unix1 div 60 + 1 = unat unix2 div 60"
  shows "cookie_verify p key c pk r (cookie_mint p key c pk r unix1) unix2"
  using assms cookie_window_nat [of unix1 unix2]
  by (auto simp: cookie_verify_iff cookie_mint_def COOKIE_BUCKET_SECONDS_def)

text \<open>Both ends of the cryptographic exchange, for an initiation with its cookie.\<close>

lemma exchange:
  assumes "lawful p" and "mutual_trust p client server {unix_c, unix_f, unix3}" and "initiator_inv p ih"
    and "ih_identity ih = cfg_identity client" and "ih_verifier ih = cfg_verifier client" and "ih_initiation ih = Initiation pk random c mac"
    and "agree p \<lparr>eph_secret = secret', eph_public = x25519_public p secret'\<rparr> pk = Inr shared"
    and "length secret' = 32" and "length random' = 32" and "wf_session_id sid"
  obtains rh resp fin skeys rkeys pk' r' sealed remote remote' where
    "accept_for_session p (cfg_identity server) (cfg_verifier server) (ih_initiation ih) sid 0 (Some secret') (Some random') = Inr (rh, resp)"
    "resp = Response pk' r' sid sealed" "wf_message resp" "authenticates_response p ih resp unix_c = Inr True"
    "finish_for_session p ih resp sid 0 unix_f now = Inr (fin, session_new sid 0 skeys now, remote)" "wf_message fin"
    "responder_finish p rh fin unix3 now3 = Inr (session_new sid 0 rkeys now3, remote')"
    "send_key skeys = receive_key rkeys" "receive_key skeys = send_key rkeys" "length (send_key skeys) = 32" "length (send_key rkeys) = 32"
proof -
  have T: "wf_identity (ih_identity ih)" "wf_identity (cfg_identity server)"
    "trusts p (ih_verifier ih) (cfg_identity server) unix_c" "trusts p (ih_verifier ih) (cfg_identity server) unix_f"
    "trusts p (cfg_verifier server) (ih_identity ih) unix3" using assms(2,4,5) by (simp_all add: mutual_trust_def)
  obtain rh resp where acc: "accept_for_session p (cfg_identity server) (cfg_verifier server) (ih_initiation ih) sid 0 (Some secret') (Some random') = Inr (rh, resp)"
    using accept_succeeds [OF assms(1) T(2) assms(7)] assms(6) by metis
  obtain pk' r' sealed where resp: "resp = Response pk' r' sid sealed" using accept_shape(4) [OF acc] by blast
  have auth: "authenticates_response p ih resp unix_c = Inr True"
    by (rule initiator_completes [OF assms(1,3) T(1,2) acc T(3), of now]) (rule authenticates_of_finish)
  from honest_run [OF assms(1,3) T(1,2) acc T(4,5), of now now3] obtain sf skeys rkeys where H:
    "finish_for_session p ih resp sid 0 unix_f now = Inr (Finish sf, session_new sid 0 skeys now, Some (identity_key p (cfg_identity server)))"
    "responder_finish p rh (Finish sf) unix3 now3 = Inr (session_new sid 0 rkeys now3, Some (identity_key p (ih_identity ih)))"
    "send_key skeys = receive_key rkeys" "receive_key skeys = send_key rkeys" "length (send_key skeys) = 32" "length (send_key rkeys) = 32" by blast
  show ?thesis by (rule that [OF acc resp accept_wf [OF acc assms(1,8,9,10)] auth H(1) finish_wf [OF H(1)] H(2-6)])
qed

lemma connects:
  assumes conn: "connectable env senv c now1 st i identity"
    and trust: "mutual_trust (se_prims senv) (ce_auth env) (pi_auth identity) {unix_c, fst (io_finish io), unix3}"
    and cdraws: "client_draws_ok env io secret random" and sdraws: "server_draws_ok senv st i adraws sid secret' random'"
    and odraws: "draw_ok (se_obfuscation senv) (draws1 0)" "draw_ok (se_obfuscation senv) (draws3 0)"
    and agree: "agree (se_prims senv) \<lparr>eph_secret = secret', eph_public = x25519_public (se_prims senv) secret'\<rparr> (x25519_public (se_prims senv) secret) = Inr shared"
    and cookie: "unat unix1 div 60 = unat unix2 div 60 \<or> unat unix1 div 60 + 1 = unat unix2 div 60"
    and time: "in_time env t1 t2 t3"
  shows "\<exists>w1 w2 w3 reply earlier resp more ack st1 st2 st3 s peer.
    server_step senv (Datagram c w1 now1 unix1 draws1 adraws1) st = (Inr (), [Wire c reply], st1) \<and>
    server_step senv (Datagram c w2 now2 unix2 draws2 adraws) st1 = (Inr (), earlier @ Wire c resp # more, st2) \<and>
    server_step senv (Datagram c w3 now3 unix3 draws3 adraws3) st2 = (Inr (), [Wire c ack], st3) \<and>
    establish env io None [(t1, Arrived (ce_server env) reply u1 n1), (t2, Arrived (ce_server env) resp unix_c n2), (t3, Arrived (ce_server env) ack u3 n3)] =
      (Got s, [], [w1, w2, w3]) \<and>
    map_of (sv_active st3) (ps_session_id s) = Some peer \<and> ap_identity peer = identity \<and> ap_endpoint peer = c \<and> paired s (ap_session peer) \<and>
    ps_session_id s = SessionId sid \<and> next_send_sequence s = 0 \<and> session_rep (ap_session peer) {} {} \<and> ap_rx_limiter peer = limiter_new (se_rx_rate senv) now3 \<and>
    next_send_sequence (ap_session peer) = 1 \<and> sv_active st1 = sv_active st \<and>
    (\<exists>l pending state. challenge_allow c now1 (sv_cookies st) = (True, l) \<and> st2 = st\<lparr>sv_recv_errors := 0, sv_cookies := l, sv_pending := pending\<rparr> \<and>
       ((\<forall>j. j \<noteq> i \<longrightarrow> fst (adraws j) = None) \<longrightarrow> pending = pending_insert (sv_pending st) (SessionId sid) state \<and> ph_endpoint state = c)) \<and>
    joined st2 (SessionId sid) identity st3"
proof -
  let ?p = "se_prims senv" and ?obf = "se_obfuscation senv" and ?auth = "pi_auth identity"
  have C: "lawful ?p" "ce_prims env = ?p" "ce_obfuscation env = ?obf" "active_inv (sv_active st)"
    "pending_len (sv_pending st) < MAX_PENDING_HANDSHAKES" "count_for (sv_pending st) c + i < sv_limit st" using conn by (simp_all add: connectable_def)
  define before where "before = take i (sv_identities st)"
  obtain others where ids: "sv_identities st = before @ identity # others" and len: "length before = i"
    using conn id_take_nth_drop [of i "sv_identities st"] by (auto simp: connectable_def before_def)
  obtain l where l: "challenge_allow c now1 (sv_cookies st) = (True, l)" using conn by (cases "challenge_allow c now1 (sv_cookies st)") (auto simp: connectable_def)
  have cd: "fst (io_start io) = Some secret" "snd (io_start io) = Some random" "length secret = 32" "length random = 32"
    "\<And>n. draw_ok ?obf (io_draw io n)" "\<And>n. io_sent io n = None" using cdraws C(3) by (simp_all add: client_draws_ok_def)
  obtain od where sd: "adraws i = (Some sid, Some secret', Some random', od)" "draw_ok ?obf od" "length sid = 16" "length secret' = 32" "length random' = 32"
    "\<And>j. j \<noteq> i \<Longrightarrow> fst (adraws j) \<noteq> Some sid" "map_of (sv_active st) (SessionId sid) = None" using sdraws by (auto simp: server_draws_ok_def)
  have T: "wf_identity (cfg_identity (ce_auth env))" "wf_identity (cfg_identity ?auth)"
    "trusts ?p (cfg_verifier (ce_auth env)) (cfg_identity ?auth) unix_c" "trusts ?p (cfg_verifier (ce_auth env)) (cfg_identity ?auth) (fst (io_finish io))"
    "trusts ?p (cfg_verifier ?auth) (cfg_identity (ce_auth env)) unix3" using trust by (simp_all add: mutual_trust_def)
  have wfsid: "wf_session_id (SessionId sid)" using sd(3) by simp
  obtain ih pk mac where I: "initiator_start ?p (cfg_identity (ce_auth env)) (cfg_verifier (ce_auth env)) (Some secret) (Some random) = Inr (ih, Initiation pk random None mac)"
    "ih_initiation ih = Initiation pk random None mac" "pk = x25519_public ?p secret" "length pk = 32" "length mac = 16"
    by (rule start_shape [OF C(1) cd(3)])
  define ck where "ck = cookie_mint ?p (se_cookie_key senv) c pk random unix1"
  define ih1 where "ih1 = attach_cookie ?p ih ck"
  have ck: "length ck = 32" "cookie_verify ?p (se_cookie_key senv) c pk random ck unix2"
    using length_cookie_mint [OF lawfulD(1) [OF C(1)]] cookie_still_valid [OF lawfulD(1) [OF C(1)] cookie] by (simp_all add: ck_def)
  have inv: "initiator_inv ?p ih1" "ih_identity ih1 = cfg_identity (ce_auth env)" "ih_verifier ih1 = cfg_verifier (ce_auth env)"
    using initiator_inv_start [OF I(1)] initiator_inv_attach_cookie by (auto simp: ih1_def)
  obtain mac1 where ini1: "ih_initiation ih1 = Initiation pk random (Some ck) mac1" "length mac1 = 16"
    using length_compute_mac1 [OF lawfulD(1) [OF C(1)]] by (auto simp: ih1_def attach_cookie_def I(2))
  have wf: "wf_message (Initiation pk random None mac)" "wf_message (ih_initiation ih1)" using I(4,5) cd(4) ck(1) ini1 by simp_all
  obtain rh resp fin skeys rkeys pk' r' sealed remote remote' where E:
    "accept_for_session ?p (cfg_identity ?auth) (cfg_verifier ?auth) (ih_initiation ih1) (SessionId sid) 0 (Some secret') (Some random') = Inr (rh, resp)"
    "resp = Response pk' r' (SessionId sid) sealed" "wf_message resp" "authenticates_response ?p ih1 resp unix_c = Inr True"
    "finish_for_session ?p ih1 resp (SessionId sid) 0 (fst (io_finish io)) (snd (io_finish io)) = Inr (fin, session_new (SessionId sid) 0 skeys (snd (io_finish io)), remote)"
    "wf_message fin" "responder_finish ?p rh fin unix3 now3 = Inr (session_new (SessionId sid) 0 rkeys now3, remote')"
    "send_key skeys = receive_key rkeys" "receive_key skeys = send_key rkeys" "length (send_key skeys) = 32" "length (send_key rkeys) = 32"
    by (rule exchange [OF C(1) trust inv ini1(1) agree [folded I(3)] sd(4,5) wfsid])
  have wire: "\<exists>w. wrap_wire ?p ?obf (io_draw io j) (packet_encode (initial_packet m i n)) = Inr w \<and> carries ?p ?obf w (initial_packet m i n)"
    if "wf_session_id i" for i j m n using wrap_carries [OF C(1) cd(5), of "initial_packet m i n" j] that by auto
  obtain w1 where w1: "wrap_wire ?p ?obf (io_draw io 0) (packet_encode (initial_packet (Initiation pk random None mac) ZERO 0)) = Inr w1"
    "carries ?p ?obf w1 (initial_packet (Initiation pk random None mac) ZERO 0)" using wire [OF wf_ZERO] by blast
  obtain w2 where w2: "wrap_wire ?p ?obf (io_draw io 1) (packet_encode (initial_packet (ih_initiation ih1) ZERO 0)) = Inr w2"
    "carries ?p ?obf w2 (initial_packet (ih_initiation ih1) ZERO 0)" using wire [OF wf_ZERO] by blast
  obtain w3 where w3: "wrap_wire ?p ?obf (io_draw io 2) (packet_encode (initial_packet fin (SessionId sid) 1)) = Inr w3"
    "carries ?p ?obf w3 (initial_packet fin (SessionId sid) 1)" using wire [OF wfsid] by blast
  obtain reply where r1: "server_step senv (Datagram c w1 now1 unix1 draws1 adraws1) st = (Inr (), [Wire c reply], st\<lparr>sv_recv_errors := 0, sv_cookies := l\<rparr>)"
    "carries ?p ?obf reply (initial_packet (CookieReply ck) ZERO 0)" unfolding ck_def by (rule challenge_step [where draws = draws1, OF C(1) odraws(1) w1(2) wf(1) l])
  let ?st1 = "st\<lparr>sv_recv_errors := 0, sv_cookies := l\<rparr>"
  obtain earlier wr more pending where r2: "server_step senv (Datagram c w2 now2 unix2 draws2 adraws) ?st1 = (Inr (), earlier @ Wire c wr # more, ?st1\<lparr>sv_recv_errors := 0, sv_pending := pending\<rparr>)"
    "carries ?p ?obf wr (initial_packet resp (SessionId sid) 0)" "pending_get pending (SessionId sid) = Some (awaiting identity c resp (SessionId sid) rh)"
    "(\<forall>j. j \<noteq> length before \<longrightarrow> fst (adraws j) = None) \<longrightarrow> pending = pending_insert (sv_pending ?st1) (SessionId sid) (awaiting identity c resp (SessionId sid) rh)"
    by (rule admit_step [where adraws = adraws and st = ?st1 and before = before and others = others,
          OF C(1) sd(2) wfsid w2(2) ini1(1) wf(2) ck(2) _ _ _ sd(1) [folded len] sd(6) [folded len] E(1)]) (use ids len C(5,6) in simp_all)
  let ?st2 = "?st1\<lparr>sv_recv_errors := 0, sv_pending := pending\<rparr>"
  have A: "active_inv (sv_active ?st2)" "pending_get (sv_pending ?st2) (SessionId sid) = Some (awaiting identity c resp (SessionId sid) rh)"
    "map_of (sv_active ?st2) (SessionId sid) = None" using C(4) r2(3) sd(7) by simp_all
  obtain wa ack st3 where r3: "server_step senv (Datagram c w3 now3 unix3 draws3 adraws3) ?st2 = (Inr (), [Wire c wa], st3)" "carries ?p ?obf wa ack"
    "session_seal ?p (session_new (SessionId sid) 0 rkeys now3) Keepalive [] = (Inr ack, (session_new (SessionId sid) 0 rkeys now3)\<lparr>next_send_sequence := 1\<rparr>)"
    "map_of (sv_active st3) (SessionId sid) = Some (active_peer_new identity ((session_new (SessionId sid) 0 rkeys now3)\<lparr>next_send_sequence := 1\<rparr>) c (se_rx_rate senv) now3)"
    "joined ?st2 (SessionId sid) identity st3"
    by (rule finish_step [where draws = draws3 and adraws = adraws3 and st = ?st2, OF C(1) odraws(2) A(1) w3(2) E(6) wfsid A(2,3) E(7,11)])
  obtain s where s: "session_open ?p (session_new (SessionId sid) 0 skeys (snd (io_finish io))) ack n3 = (Inr [], s)"
    "session_id (header ack) = SessionId sid" "kind (header ack) = Keepalive" by (rule open_first [OF C(1) r3(3) E(9)])
  have run: "establish env io None [(t1, Arrived (ce_server env) reply u1 n1), (t2, Arrived (ce_server env) wr unix_c n2), (t3, Arrived (ce_server env) wa u3 n3)] =
      (Got s, [], [w1, w2, w3])"
    by (rule client_run [where ?ih1.0 = ih1 and fin = fin and sid = "SessionId sid" and cookie = ck, OF _ _ ck(1) cd(6) _ _ _ _ _ E(2,3) _ _ _ _ s(3) _ time])
      (use I(1) cd(1,2) C(2,3) ih1_def w1(1) w2(1) w3(1) r1(2) r2(2) E(4,5) r3(2) s(1,2) in \<open>simp_all add: session_new_def\<close>)
  define peer where "peer = active_peer_new identity ((session_new (SessionId sid) 0 rkeys now3)\<lparr>next_send_sequence := 1\<rparr>) c (se_rx_rate senv) now3"
  have "map_of (sv_active st3) (ps_session_id s) = Some peer" "ap_identity peer = identity" "ap_endpoint peer = c" "paired s (ap_session peer)"
    "ps_session_id s = SessionId sid" "next_send_sequence s = 0" "session_rep (ap_session peer) {} {}" "ap_rx_limiter peer = limiter_new (se_rx_rate senv) now3"
    "next_send_sequence (ap_session peer) = 1" "sv_active ?st1 = sv_active st"
    using r3(4) session_open_frame [OF s(1)] E(8-11) by (simp_all add: peer_def active_peer_new_def paired_def session_new_def session_rep_def replay_rep_default)
  moreover have "\<exists>l pending state. challenge_allow c now1 (sv_cookies st) = (True, l) \<and> ?st2 = st\<lparr>sv_recv_errors := 0, sv_cookies := l, sv_pending := pending\<rparr> \<and>
      ((\<forall>j. j \<noteq> i \<longrightarrow> fst (adraws j) = None) \<longrightarrow> pending = pending_insert (sv_pending st) (SessionId sid) state \<and> ph_endpoint state = c)"
    using l r2(4) len by (intro exI [of _ l] exI [of _ pending] exI [of _ "awaiting identity c resp (SessionId sid) rh"]) (simp add: awaiting_def)
  ultimately show ?thesis using r1(1) r2(1) r3(1,5) run by blast
qed


section \<open>Packets of a connected client\<close>

text \<open>The packet is for the server's side of the tunnel: its addresses are valid, its source is the peer's, and no peer owns its destination.\<close>

definition for_server :: "'n server_env \<Rightarrow> 'n server_state \<Rightarrow> 'n active_peer \<Rightarrow> bytes \<Rightarrow> bool" where
  "for_server env st peer m \<longleftrightarrow>
     (\<exists>src dst net. packet_source m = Some src \<and> packet_destination m = Some dst \<and> net \<in> set (pi_allowed_ips (ap_identity peer)) \<and>
        net_contains (se_ops env) net src \<and> owner (se_ops env) (sv_router st) dst = None)"

lemma for_server_routed:
  assumes "server_inv env st" and "map_of (sv_active st) sid = Some peer" and "for_server env st peer m"
  shows "routed env (sv_router st) sid Data m = (Forward delivery_local, sv_router st)" "m \<noteq> []"
proof -
  have "registered (sv_router st) sid = owners (sv_active st) sid" using server_invD(8) [OF assms(1)] by simp
  then obtain pe where "map_of (r_peers (sv_router st)) sid = Some pe" "allowed_ips pe = pi_allowed_ips (ap_identity peer)"
    using assms(2) by (auto simp: registered_def owners_def)
  moreover from this assms(3) have "source_allowed (se_ops env) pe src" if "packet_source m = Some src" for src
    using that by (auto simp: for_server_def source_allowed_def list_ex_iff)
  ultimately show "routed env (sv_router st) sid Data m = (Forward delivery_local, sv_router st)"
    using assms(3) by (auto simp: for_server_def routed_def route_ip_def)
  show "m \<noteq> []" using assms(3) by (auto simp: for_server_def packet_source_def valid_ipv4_def)
qed

lemma data_delivered:
  assumes inv: "server_inv env st" and law: "lawful_aead (se_prims env)" and act: "map_of (sv_active st) (ps_session_id s) = Some peer"
    and pair: "paired s (ap_session peer)" and rep: "session_rep (ap_session peer) A B" and new: "unat (next_send_sequence s) \<notin> A"
    and window: "\<And>a. a \<in> A \<Longrightarrow> a < unat (next_send_sequence s) + WINDOW"
    and seal: "session_seal (se_prims env) s Data m = (Inr pkt, s')" and carried: "carries (se_prims env) (se_obfuscation env) w pkt"
    and local: "for_server env st peer m" "se_tun env" and rate: "fst (rx_charge (length m) now peer)"
  shows "fst (server_step env (Datagram c w now unix draws adraws) st) = Inr ()"
    "fst (snd (server_step env (Datagram c w now unix draws adraws) st)) = [ToTun m]"
    "\<exists>b. map_of (sv_active (snd (snd (server_step env (Datagram c w now unix draws adraws) st)))) (ps_session_id s) = Some b \<and> ap_endpoint b = c"
proof -
  note S = session_seal_Inr [OF seal]
  let ?st = "st\<lparr>sv_recv_errors := 0\<rparr>"
  have P: "ps_session_id (ap_session peer) = ps_session_id s" "ps_key_phase (ap_session peer) = ps_key_phase s"
    "receive_key (ps_keys (ap_session peer)) = send_key (ps_keys s)" using pair by (simp_all add: paired_def)
  obtain s2 where o: "session_open (se_prims env) (ap_session peer) pkt now = (Inr m, s2)"
    by (rule session_open_paired [OF law rep, of pkt m now]) (use S P new window in simp_all)
  have r: "routed env (sv_router st) (ps_session_id s) Data m = (Forward delivery_local, sv_router st)" "m \<noteq> []"
    using for_server_routed [OF inv act local(1)] by simp_all
  have rate': "fst (rx_charge (length m) now (peer\<lparr>ap_session := s2, ap_last_rx := now, ap_endpoint := c\<rparr>))" using rate by (simp add: rx_charge_def split: prod.splits)
  have "\<exists>st' b. handle_data env c pkt (length w) now draws ?st = ([ToTun m], st') \<and> map_of (sv_active st') (ps_session_id s) = Some b \<and> ap_endpoint b = c"
    using act o S(1,5) r rate' local(2)
    by (simp add: handle_data_def route_inbound_def map_of_update_peer delivery_local_def injected_def inject_ip_def rx_charge_def Let_def case_prod_beta)
  then show "fst (server_step env (Datagram c w now unix draws adraws) st) = Inr ()"
    "fst (snd (server_step env (Datagram c w now unix draws adraws) st)) = [ToTun m]"
    "\<exists>b. map_of (sv_active (snd (snd (server_step env (Datagram c w now unix draws adraws) st)))) (ps_session_id s) = Some b \<and> ap_endpoint b = c"
    using server_carries [OF carried, of c now unix draws adraws st] S(1) by (auto simp: dispatch_def ok_step_def)
qed

section \<open>A connected pair\<close>

definition ex_peer_config :: server_peer_config where
  "ex_peer_config = \<lparr>sp_name = ''alice'', sp_auth = PinnedKeyMode (plain_hex_encode (replicate 32 2)) (plain_hex_encode (replicate 32 1)),
     sp_allowed_ips = [''10.42.0.2/32'']\<rparr>"

definition ex_pair_config :: server_config where
  "ex_pair_config = ex_server_config\<lparr>sc_peers := [ex_peer_config], sc_links := []\<rparr>"

definition ex_alice :: "(ip_addr \<times> nat) peer_identity" where
  "ex_alice = \<lparr>pi_name = ''alice'', pi_allowed_ips = [(V4 0, 0)], pi_auth = CfgPinnedKey (replicate 32 2) (replicate 32 1)\<rparr>"

definition no_draw :: obf_draw where "no_draw = (None, None, \<lambda>_. None)"

definition ex_server_env :: "(ip_addr \<times> nat) server_env" where
  "ex_server_env =
     \<lparr>se_prims = plain_prims, se_parsers = plain_parsers, se_ops = \<lparr>net_contains = \<lambda>_ ip. ip = V4 0x0A2A0002, net_prefix_len = \<lambda>_. 32\<rparr>,
      se_hasher = \<lambda>_ _ _. 0, se_obfuscation = None, se_cookie_key = replicate 32 9, se_tun = True, se_tap = False,
      se_packet_limit = 1000, se_time_limit = None, se_grace = 0, se_rx_rate = 0, se_idle_timeout = None\<rparr>"

definition ex_client_env :: client_env where
  "ex_client_env = \<lparr>ce_prims = plain_prims, ce_server = SockV4 1 51820, ce_auth = CfgPinnedKey (replicate 32 1) (replicate 32 2),
     ce_obfuscation = None, ce_policy = handshake_config_default\<rparr>"

definition ex_client_io :: client_io where
  "ex_client_io = \<lparr>io_start = (Some (replicate 32 3), Some (replicate 32 4)), io_draw = \<lambda>_. no_draw, io_sent = \<lambda>_. None, io_finish = (100, 0)\<rparr>"

definition ex_accept_draws :: "nat \<Rightarrow> accept_draw" where
  "ex_accept_draws j = (if j = 0 then Some (replicate 16 7) else None, Some (replicate 32 5), Some (replicate 32 6), no_draw)"

definition no_accept :: "nat \<Rightarrow> accept_draw" where "no_accept j = (None, None, None, no_draw)"

definition ex_server_start :: "(ip_addr \<times> nat) server_state" where
  "ex_server_start = server_start ex_pair_config [ex_alice] None"

lemma ex_identities: "peer_identities plain_parsers ex_pair_config = Inr [ex_alice]"
proof -
  have "decode_key32 plain_parsers (plain_hex_encode (replicate 32 b)) = Inr (replicate 32 b)" for b
    using decode_encode [of "replicate 32 b"] decode_Some [OF decode_encode, of "replicate 32 b"]
    by (simp add: decode_key32_def plain_parsers_def ok_or_def)
  then show ?thesis
    by (simp add: peer_identities_def ex_pair_config_def ex_peer_config_def server_peer_identity_def parse_nets_def ex_alice_def)
      (simp add: plain_parsers_def ok_or_def)
qed

lemma ex_reach_start: "server_reach ex_server_env ex_server_start"
  using server_reach.start [of ex_server_env ex_pair_config "[ex_alice]"] ex_identities
  by (simp add: ex_server_start_def ex_server_env_def ex_pair_config_def ex_server_config_def)

lemma ex_connectable: "connectable ex_client_env ex_server_env ex_endpoint 0 ex_server_start 0 ex_alice"
  by (simp add: connectable_def ex_client_env_def ex_server_env_def ex_server_start_def server_start_def plain_prims_lawful
      active_inv_def pending_new_def pending_len_def MAX_PENDING_HANDSHAKES_def count_for_def per_source_pending_limit_def
      MIN_PENDING_HANDSHAKES_PER_SOURCE_def cookie_limiter_default_def challenge_allow_def prune_sources_def source_challenge_def
      COOKIE_SOURCE_CAPACITY_def global_challenge_def)

lemma ex_agree: "agree plain_prims \<lparr>eph_secret = replicate 32 5, eph_public = x25519_public plain_prims (replicate 32 5)\<rparr>
    (x25519_public plain_prims (replicate 32 3)) = Inr (replicate 32 8)"
  by (simp add: agree_def plain_prims_def zip_replicate Let_def list_all_iff)

lemma ex_draws:
  "client_draws_ok ex_client_env ex_client_io (replicate 32 3) (replicate 32 4)"
  "server_draws_ok ex_server_env ex_server_start 0 ex_accept_draws (replicate 16 7) (replicate 32 5) (replicate 32 6)"
  "draw_ok (se_obfuscation ex_server_env) d" "in_time ex_client_env 0 0 0"
  "mutual_trust (se_prims ex_server_env) (ce_auth ex_client_env) (pi_auth ex_alice) {100, fst (io_finish ex_client_io), 100}"
  by (simp_all add: client_draws_ok_def server_draws_ok_def draw_ok_def in_time_def mutual_trust_def ex_client_env_def ex_client_io_def ex_server_env_def
      ex_accept_draws_def no_draw_def ex_server_start_def server_start_def ex_alice_def handshake_config_default_def plain_prims_def)

lemma ex_agree_env:
  "agree (se_prims ex_server_env) \<lparr>eph_secret = replicate 32 5, eph_public = x25519_public (se_prims ex_server_env) (replicate 32 5)\<rparr>
    (x25519_public (se_prims ex_server_env) (replicate 32 3)) = Inr (replicate 32 8)"
  using ex_agree by (simp add: ex_server_env_def)

lemma fresh_no_accept [simp]: "fresh active (no_accept j)"
  by (simp add: fresh_def no_accept_def)

text \<open>A client that connects to a reachable server, without envelopes and while the draws for all other peers fail.\<close>

lemma reach_connected:
  assumes reach: "server_reach senv st" and conn: "connectable env senv c 0 st i identity"
    and trust: "mutual_trust (se_prims senv) (ce_auth env) (pi_auth identity) {100, fst (io_finish io), 100}"
    and cdraws: "client_draws_ok env io secret random" and sdraws: "server_draws_ok senv st i adraws sid secret' random'"
    and none: "\<And>j. j \<noteq> i \<Longrightarrow> fst (adraws j) = None" and obf: "se_obfuscation senv = None"
    and agree: "agree (se_prims senv) \<lparr>eph_secret = secret', eph_public = x25519_public (se_prims senv) secret'\<rparr> (x25519_public (se_prims senv) secret) = Inr shared"
    and time: "in_time env 0 0 0"
  obtains st2 st3 s peer script out l state where "server_reach senv st3" "establish env io None script = (Got s, [], out)"
    "map_of (sv_active st3) (SessionId sid) = Some peer" "ap_identity peer = identity" "ap_endpoint peer = c" "paired s (ap_session peer)"
    "ps_session_id s = SessionId sid" "next_send_sequence s = 0" "session_rep (ap_session peer) {} {}" "ap_rx_limiter peer = limiter_new (se_rx_rate senv) 0"
    "next_send_sequence (ap_session peer) = 1" "joined st2 (SessionId sid) identity st3" "challenge_allow c 0 (sv_cookies st) = (True, l)"
    "st2 = st\<lparr>sv_recv_errors := 0, sv_cookies := l, sv_pending := pending_insert (sv_pending st) (SessionId sid) state\<rparr>" "ph_endpoint state = c"
proof -
  have d: "draw_ok (se_obfuscation senv) x" for x by (simp add: obf draw_ok_def)
  from connects [where ?draws1.0 = "\<lambda>_. no_draw" and ?draws2.0 = "\<lambda>_. no_draw" and ?draws3.0 = "\<lambda>_. no_draw" and ?adraws1.0 = no_accept and
      ?adraws3.0 = no_accept and ?now2.0 = 0 and ?now3.0 = 0 and ?unix1.0 = 100 and ?unix2.0 = 100 and ?u1.0 = 0 and ?n1.0 = 0 and ?n2.0 = 0 and ?u3.0 = 0 and
      ?n3.0 = 0, OF conn trust cdraws sdraws d d agree disjI1 [OF refl] time]
  obtain w1 w2 w3 reply earlier resp more ack st1 st2 st3 s peer l pending state where C:
    "server_step senv (Datagram c w1 0 100 (\<lambda>_. no_draw) no_accept) st = (Inr (), [Wire c reply], st1)"
    "server_step senv (Datagram c w2 0 100 (\<lambda>_. no_draw) adraws) st1 = (Inr (), earlier @ Wire c resp # more, st2)"
    "server_step senv (Datagram c w3 0 100 (\<lambda>_. no_draw) no_accept) st2 = (Inr (), [Wire c ack], st3)"
    "establish env io None [(0, Arrived (ce_server env) reply 0 0), (0, Arrived (ce_server env) resp 100 0), (0, Arrived (ce_server env) ack 0 0)] = (Got s, [], [w1, w2, w3])"
    "map_of (sv_active st3) (ps_session_id s) = Some peer" "ap_identity peer = identity" "ap_endpoint peer = c" "paired s (ap_session peer)"
    "ps_session_id s = SessionId sid" "next_send_sequence s = 0" "session_rep (ap_session peer) {} {}" "ap_rx_limiter peer = limiter_new (se_rx_rate senv) 0"
    "next_send_sequence (ap_session peer) = 1" "sv_active st1 = sv_active st" "challenge_allow c 0 (sv_cookies st) = (True, l)"
    "st2 = st\<lparr>sv_recv_errors := 0, sv_cookies := l, sv_pending := pending\<rparr>"
    "(\<forall>j. j \<noteq> i \<longrightarrow> fst (adraws j) = None) \<longrightarrow> pending = pending_insert (sv_pending st) (SessionId sid) state \<and> ph_endpoint state = c"
    "joined st2 (SessionId sid) identity st3" by (elim exE conjE)
  have f: "event_fresh (Datagram e w n u d no_accept) x" for e w n u d and x :: "'a server_state" by (simp add: event_fresh_def)
  have "fst (adraws j) = (if j = i then Some sid else None)" for j using none [of j] sdraws by (auto simp: server_draws_ok_def)
  then have "event_fresh (Datagram c w2 0 100 (\<lambda>_. no_draw) adraws) st1"
    using sdraws C(14) by (simp add: event_fresh_def fresh_def server_draws_ok_def split: option.splits)
  then have "server_reach senv st3"
    using server_reach.step [OF server_reach.step [OF server_reach.step [OF reach f C(1)] _ C(2)] f C(3)] by blast
  moreover have "pending = pending_insert (sv_pending st) (SessionId sid) state" "ph_endpoint state = c" using C(17) none by simp_all
  ultimately show ?thesis using that [OF _ C(4) C(5) [unfolded C(9)] C(6-13,18,15)] C(16) by blast
qed

lemma ex_connected:
  obtains st s peer script out where "server_reach ex_server_env st" "establish ex_client_env ex_client_io None script = (Got s, [], out)"
    "map_of (sv_active st) (ps_session_id s) = Some peer" "ap_identity peer = ex_alice" "paired s (ap_session peer)"
    "next_send_sequence s = 0" "session_rep (ap_session peer) {} {}" "fst (rx_charge n 0 peer)" "wf_session_id (ps_session_id s)" "ap_endpoint peer = ex_endpoint"
proof (rule reach_connected [OF ex_reach_start ex_connectable ex_draws(5,1,2) _ _ ex_agree_env ex_draws(4)])
  fix st3 s peer script out
  assume C: "server_reach ex_server_env st3" "establish ex_client_env ex_client_io None script = (Got s, [], out)"
    "map_of (sv_active st3) (SessionId (replicate 16 7)) = Some peer" "ap_identity peer = ex_alice" "ap_endpoint peer = ex_endpoint" "paired s (ap_session peer)"
    "ps_session_id s = SessionId (replicate 16 7)" "next_send_sequence s = 0" "session_rep (ap_session peer) {} {}" "ap_rx_limiter peer = limiter_new (se_rx_rate ex_server_env) 0"
  have "fst (rx_charge n 0 peer)" using C(10) by (simp add: rx_charge_def limiter_new_def limiter_allow_def ex_server_env_def)
  then show ?thesis using that [OF C(1,2)] C by simp
qed (simp_all add: ex_accept_draws_def ex_server_env_def)

section \<open>Properties\<close>

text \<open>
  C2. An honest client connects: against a server that has room for it, with the client as any of its configured peers and each trusting the
  other, the client's three datagrams (initiation, initiation with cookie, finish) are answered, among others, by a cookie, a response and an
  acknowledgement for its own peer, \<^const>\<open>establish\<close> returns a session when exactly these three answers arrive in time, and the server
  holds the paired session for that peer at the client's address.
\<close>

theorem client_connects:
  assumes conn: "connectable env senv c now1 st i identity"
    and trust: "mutual_trust (se_prims senv) (ce_auth env) (pi_auth identity) {unix_c, fst (io_finish io), unix3}"
    and cdraws: "client_draws_ok env io secret random" and sdraws: "server_draws_ok senv st i adraws sid secret' random'"
    and odraws: "draw_ok (se_obfuscation senv) (draws1 0)" "draw_ok (se_obfuscation senv) (draws3 0)"
    and agree: "agree (se_prims senv) \<lparr>eph_secret = secret', eph_public = x25519_public (se_prims senv) secret'\<rparr> (x25519_public (se_prims senv) secret) = Inr shared"
    and cookie: "unat unix1 div 60 = unat unix2 div 60 \<or> unat unix1 div 60 + 1 = unat unix2 div 60"
    and time: "in_time env t1 t2 t3"
  shows "\<exists>w1 w2 w3 reply earlier resp more ack st1 st2 st3 s peer.
    server_step senv (Datagram c w1 now1 unix1 draws1 adraws1) st = (Inr (), [Wire c reply], st1) \<and>
    server_step senv (Datagram c w2 now2 unix2 draws2 adraws) st1 = (Inr (), earlier @ Wire c resp # more, st2) \<and>
    server_step senv (Datagram c w3 now3 unix3 draws3 adraws3) st2 = (Inr (), [Wire c ack], st3) \<and>
    establish env io None [(t1, Arrived (ce_server env) reply u1 n1), (t2, Arrived (ce_server env) resp unix_c n2), (t3, Arrived (ce_server env) ack u3 n3)] =
      (Got s, [], [w1, w2, w3]) \<and>
    map_of (sv_active st3) (ps_session_id s) = Some peer \<and> ap_identity peer = identity \<and> ap_endpoint peer = c \<and> paired s (ap_session peer)"
  using connects [where ?draws1.0 = draws1 and ?draws2.0 = draws2 and ?draws3.0 = draws3 and ?adraws1.0 = adraws1 and ?adraws3.0 = adraws3 and ?now2.0 = now2 and
      ?now3.0 = now3 and ?u1.0 = u1 and ?n1.0 = n1 and ?n2.0 = n2 and ?u3.0 = u3 and ?n3.0 = n3, OF assms]
  by (elim exE conjE) (intro exI conjI; assumption)

theorem client_connects_witness:
  "\<exists>reply resp ack s (peer :: (ip_addr \<times> nat) active_peer). fst (establish ex_client_env ex_client_io None
     [(0, Arrived (ce_server ex_client_env) reply 0 0), (0, Arrived (ce_server ex_client_env) resp 100 0), (0, Arrived (ce_server ex_client_env) ack 0 0)]) = Got s \<and>
     paired s (ap_session peer) \<and> ap_identity peer = ex_alice"
proof -
  obtain w1 w2 w3 reply resp ack s and peer :: "(ip_addr \<times> nat) active_peer" where "establish ex_client_env ex_client_io None [(0, Arrived (ce_server ex_client_env) reply 0 0),
      (0, Arrived (ce_server ex_client_env) resp 100 0), (0, Arrived (ce_server ex_client_env) ack 0 0)] = (Got s, [], [w1, w2, w3])"
    "ap_identity peer = ex_alice" "paired s (ap_session peer)"
    using client_connects [where ?draws1.0 = "\<lambda>_. no_draw" and ?draws2.0 = "\<lambda>_. no_draw" and ?draws3.0 = "\<lambda>_. no_draw" and ?adraws1.0 = no_accept and
      ?adraws3.0 = no_accept and ?now2.0 = 0 and ?now3.0 = 0 and ?unix1.0 = 100 and ?unix2.0 = 100 and ?u1.0 = 0 and ?n1.0 = 0 and ?n2.0 = 0 and ?u3.0 = 0 and
      ?n3.0 = 0, OF ex_connectable ex_draws(5,1,2) ex_draws(3) ex_draws(3) ex_agree_env disjI1 [OF refl] ex_draws(4)] by blast
  then show ?thesis by (intro exI [of _ reply] exI [of _ resp] exI [of _ ack] exI [of _ s] exI [of _ peer]) simp
qed

text \<open>
  C8. A packet of a connected client reaches the server's tunnel device: when the server has a TUN device and the two ends hold paired sessions, the
  packet's number was not received before and is not below the replay window, its source is allowed to the peer and no peer owns its destination,
  and the peer's receive limit allows its length, the datagram sealed by the client makes the server write exactly its plaintext to the device, from
  whatever address it arrives.
\<close>

theorem connected_packet_delivered:
  assumes "server_reach env st" and "lawful_aead (se_prims env)" and "map_of (sv_active st) (ps_session_id s) = Some peer"
    and "paired s (ap_session peer)" and "session_rep (ap_session peer) A B" and "unat (next_send_sequence s) \<notin> A"
    and "\<And>a. a \<in> A \<Longrightarrow> a < unat (next_send_sequence s) + WINDOW"
    and "session_seal (se_prims env) s Data m = (Inr pkt, s')" and "carries (se_prims env) (se_obfuscation env) w pkt"
    and "for_server env st peer m" and "se_tun env" and "fst (rx_charge (length m) now peer)"
  shows "\<exists>st'. server_step env (Datagram c w now unix draws adraws) st = (Inr (), [ToTun m], st')"
  using data_delivered [OF server_reach_inv [OF assms(1)] assms(2-12), of c unix draws adraws]
  by (intro exI prod_eqI) simp_all

lemma ex_ipv4_destination: "packet_destination ex_ipv4 = Some (V4 0x0A2A0003)"
  by (simp add: ex_ipv4_def packet_destination_def valid_ipv4_def ipv4_header_len_def nibble_def from_be_def
      ipv4_header_checksum_def words_sum_def fold_carry.simps slice_def Let_def)

lemma ex_for_server:
  assumes "ap_identity peer = ex_alice" and "server_inv ex_server_env st"
  shows "for_server ex_server_env st peer ex_ipv4"
proof -
  have "owner (se_ops ex_server_env) (sv_router st) (V4 0x0A2A0003) = None"
    by (auto simp: owner_def ex_server_env_def find_None_iff)
  then show ?thesis using assms(1) ex_ipv4_source ex_ipv4_destination by (auto simp: for_server_def ex_alice_def ex_server_env_def)
qed

lemma ex_sealed:
  assumes "paired s s'" and "next_send_sequence s = 0"
  obtains pkt where "session_seal (se_prims ex_server_env) s Data ex_ipv4 = (Inr pkt, s\<lparr>next_send_sequence := 1\<rparr>)"
proof -
  have len: "length (send_key (ps_keys s)) = 32" using assms(1) unfolding paired_def by blast
  obtain pkt where "session_seal plain_prims s Data ex_ipv4 = (Inr pkt, s\<lparr>next_send_sequence := next_send_sequence s + 1\<rparr>)"
    by (rule session_seal_succeeds [OF lawfulD(3) [OF plain_prims_lawful] len, of Data ex_ipv4])
      (use assms(2) in \<open>simp_all add: AEAD_MAX_def ex_ipv4_def\<close>)
  then show ?thesis using that assms(2) by (simp add: ex_server_env_def)
qed

text \<open>The connected server and a datagram of the client that carries a packet for the server's side.\<close>

lemma ex_delivery:
  obtains st s s' peer pkt w where "server_reach ex_server_env st" "map_of (sv_active st) (ps_session_id s) = Some peer" "ap_identity peer = ex_alice"
    "paired s (ap_session peer)" "next_send_sequence s = 0" "session_rep (ap_session peer) {} {}" "fst (rx_charge (length ex_ipv4) 0 peer)"
    "session_seal (se_prims ex_server_env) s Data ex_ipv4 = (Inr pkt, s')" "carries (se_prims ex_server_env) (se_obfuscation ex_server_env) w pkt"
    "for_server ex_server_env st peer ex_ipv4" "\<exists>script rest out. establish ex_client_env ex_client_io None script = (Got s, rest, out)"
    "ap_endpoint peer = ex_endpoint"
proof (rule ex_connected [of "length ex_ipv4"])
  fix st s peer script out
  assume C: "server_reach ex_server_env st" "establish ex_client_env ex_client_io None script = (Got s, [], out)"
    "map_of (sv_active st) (ps_session_id s) = Some peer" "ap_identity peer = ex_alice" "paired s (ap_session peer)"
    "next_send_sequence s = 0" "session_rep (ap_session peer) {} {}" "fst (rx_charge (length ex_ipv4) 0 peer)" "wf_session_id (ps_session_id s)" "ap_endpoint peer = ex_endpoint"
  obtain pkt where p: "session_seal (se_prims ex_server_env) s Data ex_ipv4 = (Inr pkt, s\<lparr>next_send_sequence := 1\<rparr>)" by (rule ex_sealed [OF C(5,6)])
  then have "wf_header (header pkt)" using session_seal_Inr(5) C(9) by (fastforce simp: wf_header_def)
  then obtain w where w: "carries (se_prims ex_server_env) (se_obfuscation ex_server_env) w pkt"
    using wrap_carries [OF plain_prims_lawful, of "se_obfuscation ex_server_env" no_draw pkt] ex_draws(3) by (auto simp: ex_server_env_def)
  show ?thesis
    by (rule that [OF C(1,3-8) p w ex_for_server [OF C(4) server_reach_inv [OF C(1)]] _ C(10)]) (use C(2) in blast)
qed

theorem connected_packet_delivered_witness:
  "\<exists>w st st'. server_reach ex_server_env st \<and>
     server_step ex_server_env (Datagram (SockV4 7 7) w 0 100 (\<lambda>_. no_draw) no_accept) st = (Inr (), [ToTun ex_ipv4], st')"
proof (rule ex_delivery)
  fix st s s' peer pkt w
  assume D: "server_reach ex_server_env st" "map_of (sv_active st) (ps_session_id s) = Some peer"
    "paired s (ap_session peer)" "next_send_sequence s = 0" "session_rep (ap_session peer) {} {}" "fst (rx_charge (length ex_ipv4) 0 peer)"
    "session_seal (se_prims ex_server_env) s Data ex_ipv4 = (Inr pkt, s')" "carries (se_prims ex_server_env) (se_obfuscation ex_server_env) w pkt"
    "for_server ex_server_env st peer ex_ipv4"
  have "lawful_aead (se_prims ex_server_env)" "se_tun ex_server_env" using lawfulD(3) [OF plain_prims_lawful] by (simp_all add: ex_server_env_def)
  from connected_packet_delivered [OF D(1) this(1) D(2,3,5) _ _ D(7-9) this(2) D(6), of "SockV4 7 7" 100 "\<lambda>_. no_draw" no_accept] D(1)
  show ?thesis by blast
qed

text \<open>
  C6. \<^const>\<open>establish\<close> returns a session only with a server that the client's verifier vouches for and that signed this exchange, with the
  ephemeral key drawn for it, and only after a keepalive from the server's address opened under the new keys; a rekey keeps the session
  identifier and moves to the next key phase. No other datagram, from wherever it comes, makes it return one.
\<close>

theorem client_session_authentic:
  assumes "establish env io old script = (Got s, rest, out)"
  shows "\<exists>ih pk random key sig s0 t elapsed bs unix now ack m.
    ih_verifier ih = cfg_verifier (ce_auth env) \<and> initiator_inv (ce_prims env) ih \<and> Some (eph_secret (ih_key_pair ih)) = fst (io_start io) \<and>
    vouched (ce_prims env) (cfg_verifier (ce_auth env)) key (fst (io_finish io)) \<and>
    identity_verify (ce_prims env) key (server_data (ih_initiation ih) pk random (ps_session_id s)) sig \<and>
    (elapsed, Arrived (ce_server env) bs unix now) \<in> set script \<and> server_packet env (ce_server env) bs = Some ack \<and> kind (header ack) = Keepalive \<and>
    s0 = session_new (ps_session_id s) (ps_key_phase s) (ps_keys s) t \<and> session_open (ce_prims env) s0 ack now = (Inr m, s) \<and>
    (case old of None \<Rightarrow> ps_key_phase s = 0 | Some before \<Rightarrow> ps_session_id s = ps_session_id before \<and> ps_key_phase s = ps_key_phase before + 1)"
  by (rule establish_authentic [OF assms])

theorem client_session_authentic_witness:
  "\<exists>s script rest out key. establish ex_client_env ex_client_io None script = (Got s, rest, out) \<and>
     vouched plain_prims (VerPinnedKey (replicate 32 2)) key 100 \<and> ps_key_phase s = 0"
proof (rule ex_delivery)
  fix s :: protected_session
  assume "\<exists>script rest out. establish ex_client_env ex_client_io None script = (Got s, rest, out)"
  then obtain script rest out where e: "establish ex_client_env ex_client_io None script = (Got s, rest, out)" by blast
  have "\<exists>key. vouched plain_prims (VerPinnedKey (replicate 32 2)) key 100" "ps_key_phase s = 0"
    using client_session_authentic [OF e] by (auto simp: ex_client_env_def ex_client_io_def)
  with e show ?thesis by blast
qed

text \<open>
  The time a client waits for a response is its retry jitter alone, not the retry interval. With a jitter of zero, which the
  configuration check accepts, no sequence of datagrams makes it connect.
\<close>

theorem zero_jitter_never_connects:
  assumes "retry_jitter_ms (ce_policy env) = 0"
  shows "fst (establish env io old script) \<noteq> Got s"
proof
  assume "fst (establish env io old script) = Got s"
  then obtain rest out where "establish env io old script = (Got s, rest, out)" by (metis prod.collapse)
  then show False
  proof (rule establish_Got)
    fix k pkt ih0 response rest1 ih pkt' out1
    assume "response_attempts env io k (map_option ps_session_id old) (retry_limit (ce_policy env)) script (ih0, pkt) [] = (Got response, rest1, (ih, pkt'), out1)"
    then show False
      using no_response_without_jitter [OF assms, of io k "map_option ps_session_id old" "retry_limit (ce_policy env)" script "(ih0, pkt)" "[]" response] by simp
  qed
qed

theorem zero_jitter_never_connects_witness:
  "handshake_validate (handshake_config_default\<lparr>retry_jitter_ms := 0\<rparr>) = Inr () \<and>
   fst (establish (ex_client_env\<lparr>ce_policy := handshake_config_default\<lparr>retry_jitter_ms := 0\<rparr>\<rparr>) ex_client_io None []) \<noteq> Got (session_new ex_sid 0 ex_keys_i 0)"
  using zero_jitter_never_connects [of "ex_client_env\<lparr>ce_policy := handshake_config_default\<lparr>retry_jitter_ms := 0\<rparr>\<rparr>" ex_client_io None "[]" "session_new ex_sid 0 ex_keys_i 0"]
  by (simp add: handshake_validate_def handshake_config_default_def)

section \<open>Instances of the server's guarantees\<close>

lemma ex_env_facts: "lawful_aead (se_prims ex_server_env)" "se_tun ex_server_env"
  using lawfulD(3) [OF plain_prims_lawful] by (simp_all add: ex_server_env_def)

text \<open>The step in which the packet of the client is delivered, from a new address.\<close>

lemma ex_step:
  obtains st and s :: protected_session and peer w st' b where "server_reach ex_server_env st" "map_of (sv_active st) (ps_session_id s) = Some peer" "ap_endpoint peer = ex_endpoint"
    "server_step ex_server_env (Datagram (SockV4 7 7) w 0 100 (\<lambda>_. no_draw) no_accept) st = (Inr (), [ToTun ex_ipv4], st')"
    "map_of (sv_active st') (ps_session_id s) = Some b" "ap_endpoint b = SockV4 7 7"
proof (rule ex_delivery)
  fix st s s' peer pkt w
  assume D: "server_reach ex_server_env st" "map_of (sv_active st) (ps_session_id s) = Some peer"
    "paired s (ap_session peer)" "next_send_sequence s = 0" "session_rep (ap_session peer) {} {}" "fst (rx_charge (length ex_ipv4) 0 peer)"
    "session_seal (se_prims ex_server_env) s Data ex_ipv4 = (Inr pkt, s')" "carries (se_prims ex_server_env) (se_obfuscation ex_server_env) w pkt"
    "for_server ex_server_env st peer ex_ipv4" "ap_endpoint peer = ex_endpoint"
  let ?r = "server_step ex_server_env (Datagram (SockV4 7 7) w 0 100 (\<lambda>_. no_draw) no_accept) st"
  note d = data_delivered [OF server_reach_inv [OF D(1)] ex_env_facts(1) D(2,3,5) _ _ D(7-9) ex_env_facts(2) D(6), of "SockV4 7 7" 100 "\<lambda>_. no_draw" no_accept]
  obtain b where b: "map_of (sv_active (snd (snd ?r))) (ps_session_id s) = Some b" "ap_endpoint b = SockV4 7 7" using d(3) by auto
  have "?r = (Inr (), [ToTun ex_ipv4], snd (snd ?r))" using d(1,2) by (simp add: prod_eq_iff)
  from that [OF D(1,2,10) this b] show ?thesis .
qed

theorem server_invariant_witness: "\<exists>st. server_reach ex_server_env st \<and> sv_active st \<noteq> [] \<and> registered (sv_router st) = owners (sv_active st)"
proof (rule ex_step)
  fix st and s :: protected_session and peer
  assume r: "server_reach ex_server_env st" "map_of (sv_active st) (ps_session_id s) = Some peer"
  then have "sv_active st \<noteq> []" by auto
  then show ?thesis using server_invariant [OF r(1)] r(1) by blast
qed

theorem local_delivery_authentic_witness: "\<exists>st pkt peer. server_reach ex_server_env st \<and> authorised ex_server_env st pkt 0 peer ex_ipv4"
proof (rule ex_step)
  fix st w st'
  assume r: "server_reach ex_server_env st"
    "server_step ex_server_env (Datagram (SockV4 7 7) w 0 100 (\<lambda>_. no_draw) no_accept) st = (Inr (), [ToTun ex_ipv4], st')"
  from local_delivery_authentic [OF r, of ex_ipv4] r(1) show ?thesis by auto
qed

text \<open>Two linked peers, each connected, and a packet from the one to the other.\<close>

definition ex_bob_config :: server_peer_config where
  "ex_bob_config = \<lparr>sp_name = ''bob'', sp_auth = PinnedKeyMode (plain_hex_encode (replicate 32 12)) (plain_hex_encode (replicate 32 11)),
     sp_allowed_ips = [''10.42.0.3/32'']\<rparr>"

definition ex_link_config :: server_config where
  "ex_link_config = ex_server_config\<lparr>sc_peers := [ex_peer_config, ex_bob_config],
     sc_links := [\<lparr>between = [''alice'', ''bob''], receivers = [], transmitters = []\<rparr>]\<rparr>"

definition ex_link_parsers :: "(ip_addr \<times> nat) parsers" where
  "ex_link_parsers = plain_parsers\<lparr>parse_net := \<lambda>s. Some (if s = ''10.42.0.3/32'' then (V4 0x0A2A0003, 32) else (V4 0x0A2A0002, 32))\<rparr>"

definition ex_link_env :: "(ip_addr \<times> nat) server_env" where
  "ex_link_env = ex_server_env\<lparr>se_parsers := ex_link_parsers, se_hasher := \<lambda>_ name _. of_nat (length name),
     se_ops := \<lparr>net_contains = \<lambda>net ip. ip = fst net, net_prefix_len = \<lambda>_. 32\<rparr>\<rparr>"

definition ex_link_alice :: "(ip_addr \<times> nat) peer_identity" where
  "ex_link_alice = \<lparr>pi_name = ''alice'', pi_allowed_ips = [(V4 0x0A2A0002, 32)], pi_auth = CfgPinnedKey (replicate 32 2) (replicate 32 1)\<rparr>"

definition ex_link_bob :: "(ip_addr \<times> nat) peer_identity" where
  "ex_link_bob = \<lparr>pi_name = ''bob'', pi_allowed_ips = [(V4 0x0A2A0003, 32)], pi_auth = CfgPinnedKey (replicate 32 12) (replicate 32 11)\<rparr>"

definition ex_link_start :: "(ip_addr \<times> nat) server_state" where
  "ex_link_start = server_start ex_link_config [ex_link_alice, ex_link_bob] None"

definition ex_bob_env :: client_env where
  "ex_bob_env = ex_client_env\<lparr>ce_auth := CfgPinnedKey (replicate 32 11) (replicate 32 12)\<rparr>"

definition ex_bob_draws :: "nat \<Rightarrow> accept_draw" where
  "ex_bob_draws j = (if j = 1 then Some (replicate 16 8) else None, Some (replicate 32 5), Some (replicate 32 6), no_draw)"

definition ex_bob_endpoint :: socket_addr where "ex_bob_endpoint = SockV4 9 9"

abbreviation alice_sid :: session_id where "alice_sid \<equiv> SessionId (replicate 16 7)"
abbreviation bob_sid :: session_id where "bob_sid \<equiv> SessionId (replicate 16 8)"

lemma ex_link_reach: "server_reach ex_link_env ex_link_start"
proof -
  have "decode_key32 ps (plain_hex_encode (replicate 32 b)) = Inr (replicate 32 b)" if "hex_decode ps = plain_hex_decode" for b and ps :: "(ip_addr \<times> nat) parsers"
    using decode_encode [of "replicate 32 b"] decode_Some [OF decode_encode, of "replicate 32 b"] that
    by (simp add: decode_key32_def ok_or_def)
  then have "decode_key32 ex_link_parsers (plain_hex_encode (replicate 32 b)) = Inr (replicate 32 b)" for b by (simp add: ex_link_parsers_def plain_parsers_def)
  then have "peer_identities ex_link_parsers ex_link_config = Inr [ex_link_alice, ex_link_bob]"
    by (simp add: peer_identities_def ex_link_config_def ex_peer_config_def ex_bob_config_def server_peer_identity_def parse_nets_def ex_link_alice_def ex_link_bob_def)
      (simp add: ex_link_parsers_def ok_or_def)
  then show ?thesis
    using server_reach.start [of ex_link_env ex_link_config "[ex_link_alice, ex_link_bob]"]
    by (simp add: ex_link_start_def ex_link_env_def ex_link_config_def ex_server_config_def)
qed

lemma ex_link_facts:
  "se_prims ex_link_env = plain_prims" "se_obfuscation ex_link_env = None" "se_rx_rate ex_link_env = 0" "se_packet_limit ex_link_env = 1000" "se_time_limit ex_link_env = None"
  by (simp_all add: ex_link_env_def ex_server_env_def)

lemma ex_links: "sym (links_for_config ex_link_config)" "links_linked (links_for_config ex_link_config) ''alice'' ''bob''"
  by (auto simp: ex_link_config_def links_for_config_def links_from_directed_pairs_def link_pairs_def links_linked_def sym_def)

lemmas ex_room = connectable_def ex_bob_env_def ex_client_env_def ex_link_facts ex_link_start_def server_start_def plain_prims_lawful pending_new_def pending_len_def
  MAX_PENDING_HANDSHAKES_def count_for_def per_source_pending_limit_def MIN_PENDING_HANDSHAKES_PER_SOURCE_def cookie_limiter_default_def challenge_allow_def
  prune_sources_def source_challenge_def COOKIE_SOURCE_CAPACITY_def global_challenge_def COOKIE_GLOBAL_LIMIT_def

lemmas ex_link_draws = client_draws_ok_def server_draws_ok_def draw_ok_def in_time_def mutual_trust_def ex_bob_env_def ex_client_env_def ex_client_io_def ex_bob_draws_def
  ex_accept_draws_def no_draw_def ex_link_alice_def ex_link_bob_def handshake_config_default_def ex_link_facts

lemma ex_bob_connected:
  obtains st bob where "server_reach ex_link_env st" "map_of (sv_active st) = [bob_sid \<mapsto> bob]" "ap_identity bob = ex_link_bob"
    "length (send_key (ps_keys (ap_session bob))) = 32" "next_send_sequence (ap_session bob) = 1" "sv_config st = ex_link_config"
    "sv_identities st = [ex_link_alice, ex_link_bob]" "sv_limit st = sv_limit ex_link_start" "sv_queue st = sv_queue ex_link_start" "sv_pending st = pending_new"
    "challenge_allow ex_bob_endpoint 0 cookie_limiter_default = (True, sv_cookies st)"
proof (rule reach_connected [OF ex_link_reach, of ex_bob_env ex_bob_endpoint 1 ex_link_bob ex_client_io "replicate 32 3" "replicate 32 4" ex_bob_draws "replicate 16 8" "replicate 32 5" "replicate 32 6" "replicate 32 8"])
  show "connectable ex_bob_env ex_link_env ex_bob_endpoint 0 ex_link_start 1 ex_link_bob" by (simp add: ex_room active_inv_def)
  show "server_draws_ok ex_link_env ex_link_start 1 ex_bob_draws (replicate 16 8) (replicate 32 5) (replicate 32 6)"
    by (simp add: ex_link_draws ex_link_start_def server_start_def)
  show "mutual_trust (se_prims ex_link_env) (ce_auth ex_bob_env) (pi_auth ex_link_bob) {100, fst (io_finish ex_client_io), 100}"
    by (simp add: ex_link_draws plain_prims_def)
  show "agree (se_prims ex_link_env) \<lparr>eph_secret = replicate 32 5, eph_public = x25519_public (se_prims ex_link_env) (replicate 32 5)\<rparr>
      (x25519_public (se_prims ex_link_env) (replicate 32 3)) = Inr (replicate 32 8)" using ex_agree by (simp add: ex_link_facts)
  fix st2 st3 s peer l state
  assume C: "server_reach ex_link_env st3" "map_of (sv_active st3) bob_sid = Some peer" "ap_identity peer = ex_link_bob" "paired s (ap_session peer)"
    "next_send_sequence (ap_session peer) = 1" "joined st2 bob_sid ex_link_bob st3" "challenge_allow ex_bob_endpoint 0 (sv_cookies ex_link_start) = (True, l)"
    "st2 = ex_link_start\<lparr>sv_recv_errors := 0, sv_cookies := l, sv_pending := pending_insert (sv_pending ex_link_start) bob_sid state\<rparr>"
  have "map_of (sv_active st3) x = [bob_sid \<mapsto> peer] x" for x
    using C(2,6,8) by (cases "map_of (sv_active st3) x") (auto simp: joined_def ex_link_start_def server_start_def)
  then have "map_of (sv_active st3) = [bob_sid \<mapsto> peer]" by blast
  moreover have "sv_pending st3 = pending_new"
    using C(6,8) by (simp add: joined_def ex_link_start_def server_start_def pending_remove_def pending_insert_def pending_new_def increment_def decrement_def)
  ultimately show ?thesis
    using that [OF C(1) _ C(3) _ C(5)] C(4,6-8) by (simp add: joined_def paired_def) (simp add: ex_link_start_def server_start_def)
qed (simp_all add: ex_link_draws)

lemma ex_both_connected:
  obtains st s alice bob where "server_reach ex_link_env st" "map_of (sv_active st) = [bob_sid \<mapsto> bob, alice_sid \<mapsto> alice]"
    "ap_identity alice = ex_link_alice" "ap_identity bob = ex_link_bob" "paired s (ap_session alice)" "ps_session_id s = alice_sid" "next_send_sequence s = 0"
    "session_rep (ap_session alice) {} {}" "ap_rx_limiter alice = limiter_new 0 0" "length (send_key (ps_keys (ap_session bob))) = 32"
    "next_send_sequence (ap_session bob) = 1" "sv_config st = ex_link_config" "sv_queue st = sv_queue ex_link_start"
proof (rule ex_bob_connected)
  fix st bob
  assume B: "server_reach ex_link_env st" "map_of (sv_active st) = [bob_sid \<mapsto> bob]" "ap_identity bob = ex_link_bob"
    "length (send_key (ps_keys (ap_session bob))) = 32" "next_send_sequence (ap_session bob) = 1" "sv_config st = ex_link_config"
    "sv_identities st = [ex_link_alice, ex_link_bob]" "sv_limit st = sv_limit ex_link_start" "sv_queue st = sv_queue ex_link_start" "sv_pending st = pending_new"
    "challenge_allow ex_bob_endpoint 0 cookie_limiter_default = (True, sv_cookies st)"
  have cookies: "sv_cookies st = snd (challenge_allow ex_bob_endpoint 0 cookie_limiter_default)" using B(11) by simp
  show ?thesis
  proof (rule reach_connected [OF B(1), of ex_client_env ex_endpoint 0 ex_link_alice ex_client_io "replicate 32 3" "replicate 32 4" ex_accept_draws "replicate 16 7" "replicate 32 5" "replicate 32 6" "replicate 32 8"])
    have "fst (challenge_allow ex_endpoint 0 (sv_cookies st))"
      unfolding cookies by (simp add: ex_room ex_endpoint_def ex_bob_endpoint_def)
    then show "connectable ex_client_env ex_link_env ex_endpoint 0 st 0 ex_link_alice"
      using B(7,8,10) server_invD(6) [OF server_reach_inv [OF B(1)]] by (simp add: ex_room)
    show "server_draws_ok ex_link_env st 0 ex_accept_draws (replicate 16 7) (replicate 32 5) (replicate 32 6)" using B(2) by (simp add: ex_link_draws)
    show "mutual_trust (se_prims ex_link_env) (ce_auth ex_client_env) (pi_auth ex_link_alice) {100, fst (io_finish ex_client_io), 100}"
      by (simp add: ex_link_draws plain_prims_def)
    show "agree (se_prims ex_link_env) \<lparr>eph_secret = replicate 32 5, eph_public = x25519_public (se_prims ex_link_env) (replicate 32 5)\<rparr>
        (x25519_public (se_prims ex_link_env) (replicate 32 3)) = Inr (replicate 32 8)" using ex_agree by (simp add: ex_link_facts)
    fix st2 st3 s peer l state
    assume C: "server_reach ex_link_env st3" "map_of (sv_active st3) alice_sid = Some peer" "ap_identity peer = ex_link_alice" "paired s (ap_session peer)"
      "ps_session_id s = alice_sid" "next_send_sequence s = 0" "session_rep (ap_session peer) {} {}" "ap_rx_limiter peer = limiter_new (se_rx_rate ex_link_env) 0"
      "joined st2 alice_sid ex_link_alice st3"
      "st2 = st\<lparr>sv_recv_errors := 0, sv_cookies := l, sv_pending := pending_insert (sv_pending st) alice_sid state\<rparr>"
    have other: "\<not> same_peer (ap_identity bob) ex_link_alice" by (simp add: B(3) same_peer_def ex_link_bob_def ex_link_alice_def)
    have "map_of (sv_active st3) x = [bob_sid \<mapsto> bob, alice_sid \<mapsto> peer] x" for x
      using C(2,9,10) B(2) other by (cases "map_of (sv_active st3) x") (auto simp: joined_def)
    then have "map_of (sv_active st3) = [bob_sid \<mapsto> bob, alice_sid \<mapsto> peer]" by blast
    then show ?thesis
      using that [OF C(1) _ C(3) B(3) C(4-7) _ B(4,5)] C(8-10) B(6,9) by (simp add: joined_def ex_link_facts)
  qed (simp_all add: ex_link_draws)
qed

lemma owner_unique:
  assumes "e \<in> set (r_table r)" and "net_contains ops (fst e) ip" and "\<And>net i. (net, i) \<in> set (r_table r) \<Longrightarrow> net_contains ops net ip \<Longrightarrow> i = t"
  shows "owner ops r ip = Some t"
proof (cases "List.find (\<lambda>(net, id). net_contains ops net ip) (r_table r)")
  case None
  then show ?thesis using assms(1,2) by (cases e) (auto simp: find_None_iff)
next
  case (Some x)
  then have "x \<in> set (r_table r)" "net_contains ops (fst x) ip" by (auto simp: find_Some_iff) (metis nth_mem)
  then show ?thesis using assms(3) [of "fst x" "snd x"] Some by (simp add: owner_def)
qed

lemma ex_link_routed:
  assumes "server_reach ex_link_env st" and act: "map_of (sv_active st) = [bob_sid \<mapsto> bob, alice_sid \<mapsto> alice]"
    and ids: "ap_identity alice = ex_link_alice" "ap_identity bob = ex_link_bob" and "sv_config st = ex_link_config"
  shows "routed ex_link_env (sv_router st) alice_sid Data ex_ipv4 = (Forward (to_peer bob_sid), sv_router st)"
proof -
  note inv = server_reach_inv [OF assms(1)]
  have reg: "registered (sv_router st) i = owners (sv_active st) i" for i using server_invD(8) [OF inv] by simp
  note dist = router_invD(1) [OF server_invD(7) [OF inv]]
  have peers: "\<exists>a. map_of (sv_active st) i = Some a \<and> pe_name pe = pi_name (ap_identity a) \<and> allowed_ips pe = pi_allowed_ips (ap_identity a)"
    if "map_of (r_peers (sv_router st)) i = Some pe" for i pe
    using reg [of i] that by (cases "map_of (sv_active st) i") (auto simp: registered_def owners_def)
  obtain pa where pa: "map_of (r_peers (sv_router st)) alice_sid = Some pa" "pe_name pa = ''alice''" "allowed_ips pa = [(V4 0x0A2A0002, 32)]"
    using reg [of alice_sid] act ids by (auto simp: registered_def owners_def ex_link_alice_def)
  obtain pb where pb: "map_of (r_peers (sv_router st)) bob_sid = Some pb" "pe_name pb = ''bob''" "allowed_ips pb = [(V4 0x0A2A0003, 32)]"
    using reg [of bob_sid] act ids by (auto simp: registered_def owners_def ex_link_bob_def)
  have table: "(net, i) \<in> set (r_table (sv_router st)) \<longleftrightarrow> (\<exists>pe. map_of (r_peers (sv_router st)) i = Some pe \<and> net \<in> set (allowed_ips pe))" for net i
    using router_invD(2) [OF server_invD(7) [OF inv]] dist by (auto simp: table_entries_def map_of_eq_Some_iff)
  have own: "owner (se_ops ex_link_env) (sv_router st) (V4 0x0A2A0003) = Some bob_sid"
  proof (rule owner_unique)
    show "((V4 0x0A2A0003, 32), bob_sid) \<in> set (r_table (sv_router st))" using table pb by simp
    fix net i assume "(net, i) \<in> set (r_table (sv_router st))" and c: "net_contains (se_ops ex_link_env) net (V4 0x0A2A0003)"
    then obtain pe where "map_of (r_peers (sv_router st)) i = Some pe" "net \<in> set (allowed_ips pe)" using table by blast
    then show "i = bob_sid" using peers [of i pe] act ids c by (auto simp: ex_link_env_def ex_link_alice_def split: if_splits)
  qed (simp add: ex_link_env_def)
  have "r_links (sv_router st) = links_for_config ex_link_config" "links_exact (sv_router st)"
    using server_reach_links [OF assms(1)] assms(5) ex_links(1) by (simp_all add: links_inv_def)
  then have "linked pa = link_targets (links_for_config ex_link_config) (r_peers (sv_router st)) alice_sid ''alice''" using pa by (simp add: links_exact_def)
  then have "bob_sid \<in> linked pa" using link_targets_iff [OF dist] pb ex_links(2) by simp
  then show ?thesis using pa own ex_ipv4_source ex_ipv4_destination by (simp add: routed_def route_ip_def source_allowed_def ex_link_env_def)
qed

lemma ex_forwarded: "\<exists>q. prepare_forward ex_ipv4 = Some q \<and> length q = 28"
  by (simp add: prepare_forward_def decrement_hop_limit_def ex_ipv4_def nibble_def valid_ipv4_def ipv4_header_len_def from_be_def
      ipv4_header_checksum_def words_sum_def fold_carry.simps slice_def Let_def word_le_nat_alt)

lemma ex_send_to:
  assumes bob: "map_of active bob_sid = Some bob" "length (send_key (ps_keys (ap_session bob))) = 32" "next_send_sequence (ap_session bob) = 1"
    and "length m < AEAD_MAX" and q: "q = sv_queue ex_link_start"
  obtains out active' q' w where "send_to ex_link_env draws i 0 bob_sid Data m active q = (out, active', q')"
    "queue_items q' key = queue_items q key @ (if key = Stable (peer_queue_key ex_link_env (ap_identity bob)) then [(key, ap_endpoint bob, w)] else [])"
proof -
  obtain pkt where seal: "session_seal plain_prims (ap_session bob) Data m = (Inr pkt, (ap_session bob)\<lparr>next_send_sequence := next_send_sequence (ap_session bob) + 1\<rparr>)"
    by (rule session_seal_succeeds [OF lawfulD(3) [OF plain_prims_lawful] bob(2), of Data m]) (use assms(3,4) in simp_all)
  have rekey: "maybe_rekey ex_link_env d 0 bob = ([], bob)" for d
    using bob(3) by (simp add: maybe_rekey_def maybe_send_rekey_def should_rekey_with_policy_def ex_link_facts word_le_nat_alt)
  let ?key = "peer_queue_key ex_link_env (ap_identity bob)"
  have inv: "fq_inv q" using server_invD(4) [OF server_reach_inv [OF ex_link_reach]] q by simp
  obtain res q' where enq: "try_enqueue_keyed q (Stable ?key) (ap_endpoint bob) (packet_encode pkt) 0 = (res, q')" by fastforce
  have ok: "res = Inr ()"
    using enq by (auto simp: q ex_link_start_def server_start_def queue_new_with_rate_def try_enqueue_keyed_def Let_def entry_or_new_def retain_active_def
        peer_queue_new_def MAX_TRACKED_PEERS_def MAX_PEER_QUEUE_def split: if_splits)
  have "queue_items q' key = queue_items q key @ (if key = Stable ?key then [(key, ap_endpoint bob, packet_encode pkt)] else [])"
    using enqueue_step(2) [OF inv _ enq, of key] ok by simp
  moreover obtain out active' where "send_to ex_link_env draws i 0 bob_sid Data m active q = (out, active', q')"
    using bob(1) rekey seal enq ok by (simp add: send_to_def seal_and_queue_def try_enqueue_for_peer_def ex_link_facts Let_def)
  ultimately show ?thesis using that by blast
qed

lemma ex_forward_step:
  obtains st w res out st' w' where "server_reach ex_link_env st"
    "server_step ex_link_env (Datagram (SockV4 7 7) w 0 100 (\<lambda>_. no_draw) no_accept) st = (res, out, st')"
    "queue_items (sv_queue st') (Stable (peer_queue_key ex_link_env ex_link_bob)) =
       queue_items (sv_queue st) (Stable (peer_queue_key ex_link_env ex_link_bob)) @ [w']" "sv_config st = ex_link_config"
proof (rule ex_both_connected)
  fix st s alice bob
  assume C: "server_reach ex_link_env st" "map_of (sv_active st) = [bob_sid \<mapsto> bob, alice_sid \<mapsto> alice]"
    "ap_identity alice = ex_link_alice" "ap_identity bob = ex_link_bob" "paired s (ap_session alice)" "ps_session_id s = alice_sid" "next_send_sequence s = 0"
    "session_rep (ap_session alice) {} {}" "ap_rx_limiter alice = limiter_new 0 0" "length (send_key (ps_keys (ap_session bob))) = 32"
    "next_send_sequence (ap_session bob) = 1" "sv_config st = ex_link_config" "sv_queue st = sv_queue ex_link_start"
  obtain pkt where p: "session_seal plain_prims s Data ex_ipv4 = (Inr pkt, s\<lparr>next_send_sequence := 1\<rparr>)"
    using ex_sealed [OF C(5,7)] by (auto simp: ex_server_env_def)
  note S = session_seal_Inr [OF p]
  have "wf_header (header pkt)" using S(5) C(6) by (simp add: wf_header_def)
  then have carried: "carries (se_prims ex_link_env) (se_obfuscation ex_link_env) (packet_encode pkt) pkt" by (simp add: carries_def ex_link_facts)
  have P: "ps_session_id (ap_session alice) = ps_session_id s" "ps_key_phase (ap_session alice) = ps_key_phase s"
    "receive_key (ps_keys (ap_session alice)) = send_key (ps_keys s)" using C(5) by (simp_all add: paired_def)
  obtain s2 where o: "session_open plain_prims (ap_session alice) pkt 0 = (Inr ex_ipv4, s2)"
    by (rule session_open_paired [OF lawfulD(3) [OF plain_prims_lawful] C(8), of pkt ex_ipv4 0]) (use S P C(7) in simp_all)
  obtain fwd where f: "prepare_forward ex_ipv4 = Some fwd" "length fwd = 28" using ex_forwarded by blast
  let ?e = "Datagram (SockV4 7 7) (packet_encode pkt) 0 100 (\<lambda>_. no_draw) no_accept"
  let ?st = "st\<lparr>sv_recv_errors := 0\<rparr>" and ?key = "Stable (peer_queue_key ex_link_env ex_link_bob)"
  let ?a1 = "update_peer alice_sid (\<lambda>_. alice\<lparr>ap_session := s2, ap_last_rx := 0, ap_endpoint := SockV4 7 7\<rparr>) (sv_active st)"
  let ?a2 = "update_peer alice_sid (\<lambda>peer. snd (rx_charge (length ex_ipv4) 0 peer)) ?a1"
  let ?a3 = "update_peer alice_sid (\<lambda>peer. peer\<lparr>ap_stats := record_rx (length ex_ipv4) (length (packet_encode pkt)) (ap_stats peer)\<rparr>) ?a2"
  have bob: "map_of ?a3 bob_sid = Some bob" using C(2) by (simp add: map_of_update_peer)
  have short: "length fwd < AEAD_MAX" using f(2) by (simp add: AEAD_MAX_def)
  obtain out active' q' x where send: "send_to ex_link_env (\<lambda>_. no_draw) 0 0 bob_sid Data fwd ?a3 (sv_queue st) = (out, active', q')"
    "queue_items q' ?key = queue_items (sv_queue st) ?key @ (if ?key = Stable (peer_queue_key ex_link_env (ap_identity bob)) then [(?key, ap_endpoint bob, x)] else [])"
    by (rule ex_send_to [OF bob C(10,11) short C(13)])
  have rate: "fst (rx_charge (length ex_ipv4) 0 (alice\<lparr>ap_session := s2, ap_last_rx := 0, ap_endpoint := SockV4 7 7\<rparr>))"
    using C(9) by (simp add: rx_charge_def limiter_new_def limiter_allow_def)
  have ne: "ex_ipv4 \<noteq> []" by (simp add: ex_ipv4_def)
  have alice: "map_of (sv_active st) alice_sid = Some alice" "map_of ?a1 alice_sid = Some (alice\<lparr>ap_session := s2, ap_last_rx := 0, ap_endpoint := SockV4 7 7\<rparr>)"
    using C(2) by (simp_all add: map_of_update_peer)
  have "route_inbound ex_link_env (\<lambda>_. no_draw) 0 alice_sid Data ex_ipv4 (length (packet_encode pkt)) (sv_router st) ?a1 (sv_queue st) =
      (out, sv_router st, active', q')"
    using ex_link_routed [OF C(1-4,12)] alice(2) rate f(1) send(1)
    by (simp add: route_inbound_def to_peer_def Let_def injected_def del: length_0_conv)
  then have "handle_data ex_link_env (SockV4 7 7) pkt (length (packet_encode pkt)) 0 (\<lambda>_. no_draw) ?st = (out, ?st\<lparr>sv_router := sv_router st, sv_active := active', sv_queue := q'\<rparr>)"
    using alice(1) o S(1,5) C(6) ne by (simp add: handle_data_def ex_link_facts Let_def)
  then have "server_step ex_link_env ?e st = (Inr (), out, ?st\<lparr>sv_router := sv_router st, sv_active := active', sv_queue := q'\<rparr>)"
    using server_carries [OF carried, of "SockV4 7 7" 0 100 "\<lambda>_. no_draw" no_accept st] S(1) by (simp add: dispatch_def ok_step_def)
  from that [OF C(1) this, of "(?key, ap_endpoint bob, x)"] send(2) C(4,12) show ?thesis by simp
qed

theorem forwarding_isolated_witness:
  "\<exists>st w res out st' x pkt peer plaintext (target :: (ip_addr \<times> nat) active_peer). server_reach ex_link_env st \<and>
     server_step ex_link_env (Datagram (SockV4 7 7) w 0 100 (\<lambda>_. no_draw) no_accept) st = (res, out, st') \<and>
     queue_items (sv_queue st') (Stable (peer_queue_key ex_link_env ex_link_bob)) = queue_items (sv_queue st) (Stable (peer_queue_key ex_link_env ex_link_bob)) @ [x] \<and>
     authorised ex_link_env st pkt 0 peer plaintext \<and> fst (snd x) = ap_endpoint target \<and>
     links_linked (links_for_config ex_link_config) (pi_name (ap_identity peer)) (pi_name (ap_identity target))"
proof (rule ex_forward_step)
  fix st w res out st' x
  assume F: "server_reach ex_link_env st"
    "server_step ex_link_env (Datagram (SockV4 7 7) w 0 100 (\<lambda>_. no_draw) no_accept) st = (res, out, st')"
    "queue_items (sv_queue st') (Stable (peer_queue_key ex_link_env ex_link_bob)) =
       queue_items (sv_queue st) (Stable (peer_queue_key ex_link_env ex_link_bob)) @ [x]" "sv_config st = ex_link_config"
  from forwarding_isolated [OF F(1,2), of "Stable (peer_queue_key ex_link_env ex_link_bob)"] obtain new where
    new: "queue_items (sv_queue st') (Stable (peer_queue_key ex_link_env ex_link_bob)) = queue_items (sv_queue st) (Stable (peer_queue_key ex_link_env ex_link_bob)) @ new"
    and each: "\<forall>x \<in> set new. \<exists>plain pkt peer plaintext target w'.
      unwrap_wire ex_link_env w = Inr plain \<and> packet_decode plain = Inr pkt \<and> authorised ex_link_env st pkt 0 peer plaintext \<and>
      target_of st (session_id (header pkt)) target \<and> x = (Stable (peer_queue_key ex_link_env (ap_identity target)), ap_endpoint target, w') \<and>
      (sym (links_for_config (sv_config st)) \<longrightarrow>
         links_linked (links_for_config (sv_config st)) (pi_name (ap_identity peer)) (pi_name (ap_identity target)))" by (elim exE conjE)
  have "new = [x]" using new F(3) by simp
  then have "x \<in> set new" by simp
  from bspec [OF each this] obtain plain pkt peer plaintext target y where A: "unwrap_wire ex_link_env w = Inr plain" "packet_decode plain = Inr pkt"
    "authorised ex_link_env st pkt 0 peer plaintext" "target_of st (session_id (header pkt)) target"
    "x = (Stable (peer_queue_key ex_link_env (ap_identity target)), ap_endpoint target, y)"
    "sym (links_for_config (sv_config st)) \<longrightarrow> links_linked (links_for_config (sv_config st)) (pi_name (ap_identity peer)) (pi_name (ap_identity target))"
    by (elim exE conjE)
  have "links_linked (links_for_config ex_link_config) (pi_name (ap_identity peer)) (pi_name (ap_identity target))" "fst (snd x) = ap_endpoint target"
    using A(5,6) ex_links(1) F(4) by simp_all
  with F(1-3) A(3) show ?thesis by blast
qed

theorem endpoint_change_authenticated_witness:
  "\<exists>st pkt session. server_reach ex_server_env st \<and> proves ex_server_env st pkt 0 100 session"
proof (rule ex_step)
  fix st and s :: protected_session and peer w st' b
  assume r: "server_reach ex_server_env st" "map_of (sv_active st) (ps_session_id s) = Some peer" "ap_endpoint peer = ex_endpoint"
    "server_step ex_server_env (Datagram (SockV4 7 7) w 0 100 (\<lambda>_. no_draw) no_accept) st = (Inr (), [ToTun ex_ipv4], st')"
    "map_of (sv_active st') (ps_session_id s) = Some b" "ap_endpoint b = SockV4 7 7"
  have "ap_endpoint b \<noteq> ap_endpoint peer" using r(3,6) by (simp add: ex_endpoint_def)
  from endpoint_change_authenticated [OF r(1,4,2,5) this] r(1) show ?thesis by blast
qed

definition ex_stray :: packet where
  "ex_stray = \<lparr>header = \<lparr>kind = Data, key_phase = 0, sequence = 0, session_id = ex_sid\<rparr>, payload = [1, 2, 3]\<rparr>"

theorem unauthenticated_ignored_witness:
  "server_step ex_server_env (Datagram ex_endpoint (packet_encode ex_stray) 0 100 (\<lambda>_. no_draw) no_accept) ex_server_start =
     (Inr (), [], ex_server_start\<lparr>sv_recv_errors := 0\<rparr>)"
proof (rule unauthenticated_ignored [OF ex_reach_start])
  show "unwrap_wire ex_server_env (packet_encode ex_stray) = Inr (packet_encode ex_stray)" by (simp add: unwrap_wire_def ex_server_env_def)
  show "packet_decode (packet_encode ex_stray) = Inr ex_stray" by (rule packet_decode_encode) (simp add: ex_stray_def wf_header_def ex_sid_def)
qed (simp_all add: ex_stray_def ex_server_start_def server_start_def)

theorem initiation_without_cookie_witness:
  "\<exists>out l. server_step ex_server_env (Datagram ex_endpoint (packet_encode (initial_packet (ih_initiation ex_initiator) ZERO 0)) 0 100 (\<lambda>_. no_draw) no_accept)
     ex_server_start = (Inr (), out, ex_server_start\<lparr>sv_recv_errors := 0, sv_cookies := l\<rparr>)"
proof -
  have m: "message_decode (message_encode (ih_initiation ex_initiator)) = Inr (ih_initiation ex_initiator)"
    by (rule message_decode_encode) (simp add: ex_initiator_def length_compute_mac1 [OF lawfulD(1) [OF plain_prims_lawful]])
  have d: "unwrap_wire ex_server_env (packet_encode (initial_packet (ih_initiation ex_initiator) ZERO 0)) =
      Inr (packet_encode (initial_packet (ih_initiation ex_initiator) ZERO 0))" by (simp add: unwrap_wire_def ex_server_env_def)
  have e: "packet_decode (packet_encode (initial_packet (ih_initiation ex_initiator) ZERO 0)) = Inr (initial_packet (ih_initiation ex_initiator) ZERO 0)"
    by (rule packet_decode_encode) simp
  have l: "lawful_hash (se_prims ex_server_env)" using lawfulD(1) [OF plain_prims_lawful] by (simp add: ex_server_env_def)
  obtain pk r mac where i: "ih_initiation ex_initiator = Initiation pk r None mac" by (simp add: ex_initiator_def)
  have "message_decode (payload (initial_packet (ih_initiation ex_initiator) ZERO 0)) = Inr (Initiation pk r None mac)" using m i by simp
  from initiation_without_cookie [OF d e _ _ _ this _ l, of ex_endpoint 100 0 "\<lambda>_. no_draw" no_accept ex_server_start]
  show ?thesis by auto
qed

definition ex_authority :: certificate_authority_config where
  "ex_authority = \<lparr>ca_name = ''ca'', ca_ca_public_key = [], ca_local_identity_seed = [], ca_local_certificate = [], ca_default_allowed_ips = [],
     ca_peer_overrides = [], ca_revoked_subjects = []\<rparr>"

definition ex_ca_config :: "(string \<times> string list) list \<Rightarrow> server_config" where
  "ex_ca_config overrides = ex_pair_config\<lparr>sc_certificate_authority := Some (ex_authority\<lparr>ca_peer_overrides := overrides\<rparr>)\<rparr>"

theorem reload_order_sensitive_witness:
  "sv_active (snd (snd (reload_config ex_server_env (Inr (ex_ca_config [(''bb'', []), (''aa'', [])])) True 0 (\<lambda>_. no_draw)
     (ex_server_start\<lparr>sv_config := ex_ca_config [(''aa'', []), (''bb'', [])]\<rparr>)))) = []"
proof -
  have "peer_identities (se_parsers ex_server_env) (ex_ca_config [(''aa'', []), (''bb'', [])]) = Inr [ex_alice]"
    using ex_identities by (auto simp: ex_ca_config_def peer_identities_def ex_server_env_def split: if_splits)
  then show ?thesis
    using reload_order_sensitive [of "ex_server_start\<lparr>sv_config := ex_ca_config [(''aa'', []), (''bb'', [])]\<rparr>" "(''aa'', [])" "(''bb'', [])" ex_authority
        ex_server_env "[ex_alice]" "ex_ca_config [(''bb'', []), (''aa'', [])]" True 0 "\<lambda>_. no_draw"]
    by (simp add: ex_ca_config_def)
qed

text \<open>The client's data plane on the example.\<close>

definition ex_tunnel_env :: tunnel_env where
  "ex_tunnel_env = \<lparr>te_client = ex_client_env, te_rekey = rekey_config_default, te_liveness = Some (secs 30), te_tun = True, te_tap = False\<rparr>"

definition ex_tunnel_start :: tunnel_state where
  "ex_tunnel_start = tunnel_start (session_new ZERO 0 \<lparr>send_key = replicate 32 1, receive_key = replicate 32 2\<rparr> 0) 0 None"

theorem client_delivers_once_witness:
  "\<exists>s script rest out. establish ex_client_env ex_client_io None script = (Got s, rest, out) \<and>
     (\<forall>evs. distinct (map (packet_id \<circ> fst) (accepted_run ex_tunnel_env evs (tunnel_start s 0 None))))"
proof (rule ex_delivery)
  fix s :: protected_session
  assume "\<exists>script rest out. establish ex_client_env ex_client_io None script = (Got s, rest, out)"
  then obtain script rest out where e: "establish ex_client_env ex_client_io None script = (Got s, rest, out)" by blast
  then have "distinct (map (packet_id \<circ> fst) (accepted_run ex_tunnel_env evs (tunnel_start s 0 None)))" for evs
    using client_delivers_once [of ex_tunnel_env ex_client_io script s rest out evs 0 None] by (simp add: ex_tunnel_env_def)
  then show ?thesis using e by blast
qed

theorem client_exit_justified_witness:
  "fst (tunnel_step ex_tunnel_env (LivenessCheck (secs 31)) ex_tunnel_start) = Exit LinkLost \<and>
   fst (tunnel_step ex_tunnel_env (LivenessCheck (secs 29)) ex_tunnel_start) \<noteq> Exit LinkLost"
proof -
  obtain r out st' where a: "tunnel_step ex_tunnel_env (LivenessCheck (secs 31)) ex_tunnel_start = (r, out, st')" using prod_cases3 by blast
  obtain r2 out2 st2 where b: "tunnel_step ex_tunnel_env (LivenessCheck (secs 29)) ex_tunnel_start = (r2, out2, st2)" using prod_cases3 by blast
  have "r = Exit LinkLost" "r2 \<noteq> Exit LinkLost"
    using client_exit_justified [OF a] client_exit_justified [OF b] by (simp_all add: ex_tunnel_env_def ex_tunnel_start_def tunnel_start_def)
  then show ?thesis unfolding a b by simp
qed

end
