(* ===== verification/Text_Codec.thy ===== *)
theory Text_Codec
  imports Config
begin

text \<open>
  Decimal numbers and separated fields as the text formats of the program use them: what \<^verbatim>\<open>str::parse\<close> accepts for an unsigned type, zero padding,
  splitting what was joined, and what \<^verbatim>\<open>String::from_utf8\<close> accepts. Shared by the usage history, the control protocol and the network devices.
\<close>

section \<open>Numbers\<close>

text \<open>An optional plus sign, then at least one digit, within the largest value of the type.\<close>

fun bounded_digits :: "nat \<Rightarrow> string \<Rightarrow> nat \<Rightarrow> nat option" where
  "bounded_digits largest [] acc = Some acc"
| "bounded_digits largest (c # cs) acc =
     (case digit_value c of
        None \<Rightarrow> None
      | Some d \<Rightarrow> if acc * 10 + d > largest then None else bounded_digits largest cs (acc * 10 + d))"

definition parse_unsigned :: "nat \<Rightarrow> string \<Rightarrow> nat option" where
  "parse_unsigned largest s =
     (let ds = (if s \<noteq> [] \<and> hd s = CHR ''+'' then tl s else s)
      in if ds = [] then None else bounded_digits largest ds 0)"

text \<open>Padding with zeros on the left, as \<^verbatim>\<open>{:04}\<close> does.\<close>

definition pad_zero :: "nat \<Rightarrow> string \<Rightarrow> string" where
  "pad_zero width s = replicate (width - length s) (CHR ''0'') @ s"

definition all_digits :: "string \<Rightarrow> bool" where
  "all_digits s \<longleftrightarrow> list_all (\<lambda>c. 48 \<le> (of_char c :: nat) \<and> of_char c \<le> (57 :: nat)) s"

lemma all_digits_simps [simp]:
  "all_digits []" "all_digits (c # s) \<longleftrightarrow> (48 \<le> (of_char c :: nat) \<and> of_char c \<le> (57 :: nat)) \<and> all_digits s" "all_digits (s @ t) \<longleftrightarrow> all_digits s \<and> all_digits t"
  by (simp_all add: all_digits_def)

lemma all_digits_dec: "all_digits (dec n)"
proof (induction n rule: dec.induct)
  case (1 n)
  then show ?case by (subst dec.simps) auto
qed

lemma dec_nonempty [simp]: "dec n \<noteq> []"
  by (subst dec.simps) simp

lemma all_digits_pad: "all_digits s \<Longrightarrow> all_digits (pad_zero width s)"
  by (auto simp: pad_zero_def all_digits_def list_all_iff)

lemma undec_mono: "acc \<le> undec s acc"
proof (induction s arbitrary: acc)
  case (Cons c s)
  show ?case using Cons [of "10 * acc + (of_char c - 48)"] by simp
qed simp

lemma bounded_digits_undec: "all_digits s \<Longrightarrow> undec s acc \<le> largest \<Longrightarrow> bounded_digits largest s acc = Some (undec s acc)"
proof (induction s arbitrary: acc)
  case (Cons c s)
  then have "10 * acc + (of_char c - 48) \<le> largest" using undec_mono [of "10 * acc + (of_char c - 48)" s] by simp
  then show ?case using Cons by (simp add: digit_value_def mult.commute)
qed simp

lemma undec_pad: "undec (pad_zero width s) 0 = undec s 0"
proof -
  have "undec (replicate n (CHR ''0'') @ s) 0 = undec s 0" for n by (induction n) simp_all
  then show ?thesis by (simp add: pad_zero_def)
qed

lemma all_digits_no_sign: "all_digits s \<Longrightarrow> s \<noteq> [] \<Longrightarrow> hd s \<noteq> CHR ''+''"
  by (cases s) auto

lemma parse_unsigned_pad: "n \<le> largest \<Longrightarrow> parse_unsigned largest (pad_zero width (dec n)) = Some n"
  using all_digits_pad [OF all_digits_dec, of width n] all_digits_no_sign [of "pad_zero width (dec n)"]
  by (simp add: parse_unsigned_def Let_def bounded_digits_undec undec_pad undec_dec) (simp add: pad_zero_def)

lemma parse_unsigned_dec: "n \<le> largest \<Longrightarrow> parse_unsigned largest (dec n) = Some n"
  using parse_unsigned_pad [of n largest 0] by (simp add: pad_zero_def)

lemma parse_unsigned_bound: "parse_unsigned largest s = Some n \<Longrightarrow> n \<le> largest"
proof -
  have "acc \<le> largest \<Longrightarrow> bounded_digits largest s acc = Some n \<Longrightarrow> n \<le> largest" for s acc
    by (induction largest s acc rule: bounded_digits.induct) (auto split: option.splits if_splits)
  then show "parse_unsigned largest s = Some n \<Longrightarrow> n \<le> largest"
    by (auto simp: parse_unsigned_def Let_def split: if_splits)
qed

section \<open>Fields\<close>

lemma split_on_plain: "list_all (\<lambda>c. \<not> P c) s \<Longrightarrow> split_on P s = [s]"
  by (induction s) simp_all

lemma split_on_nonempty [simp]: "split_on P s \<noteq> []"
  by (induction s) (auto split: list.splits)

lemma split_on_field: "list_all (\<lambda>c. \<not> P c) s \<Longrightarrow> P c \<Longrightarrow> split_on P (s @ c # rest) = s # split_on P rest"
  by (induction s) (auto split: list.splits)

lemma all_digits_plain: "all_digits s \<Longrightarrow> (\<And>c. P c \<Longrightarrow> (of_char c :: nat) < 48) \<Longrightarrow> list_all (\<lambda>c. \<not> P c) s"
  unfolding all_digits_def list_all_iff by (meson leD)

section \<open>UTF-8\<close>

text \<open>Well-formed UTF-8.\<close>

definition continuation :: "nat \<Rightarrow> bool" where
  "continuation b \<longleftrightarrow> 0x80 \<le> b \<and> b \<le> 0xBF"

fun utf8 :: "nat list \<Rightarrow> bool" where
  "utf8 [] = True"
| "utf8 (b # bs) =
     (if b < 0x80 then utf8 bs
      else if 0xC2 \<le> b \<and> b \<le> 0xDF then (case bs of c # bs' \<Rightarrow> continuation c \<and> utf8 bs' | _ \<Rightarrow> False)
      else if 0xE0 \<le> b \<and> b \<le> 0xEF then
        (case bs of c # d # bs' \<Rightarrow> continuation c \<and> (b = 0xE0 \<longrightarrow> 0xA0 \<le> c) \<and> (b = 0xED \<longrightarrow> c \<le> 0x9F) \<and> continuation d \<and> utf8 bs' | _ \<Rightarrow> False)
      else if 0xF0 \<le> b \<and> b \<le> 0xF4 then
        (case bs of c # d # e # bs' \<Rightarrow>
           continuation c \<and> (b = 0xF0 \<longrightarrow> 0x90 \<le> c) \<and> (b = 0xF4 \<longrightarrow> c \<le> 0x8F) \<and> continuation d \<and> continuation e \<and> utf8 bs' | _ \<Rightarrow> False)
      else False)"

definition is_utf8 :: "string \<Rightarrow> bool" where
  "is_utf8 s = utf8 (map of_char s)"

end
