(* ===== verification/Ipc_Protocol.thy ===== *)
theory Ipc_Protocol
  imports Transport_Base Text_Codec "HOL-Library.Sublist"
begin

text \<open>
  The control protocol between the client daemon and its controllers, \<^verbatim>\<open>crates/rvpn-ipc/src/protocol.rs\<close> and the framing of \<^verbatim>\<open>socket.rs\<close>: one line for each
  message, fields separated by tabs. Strings are their UTF-8 octets. The socket gives chunks of bytes; reading a line consumes as
  many as it needs, \<open>None\<close> if they end before the line does.
\<close>

section \<open>Messages\<close>

datatype control_request = Connect string | Disconnect | StatusRequest | Ping

record status_snapshot =
  st_connected :: bool
  st_server :: string
  st_session_id :: string
  st_uptime_secs :: nat
  st_key_phase :: nat
  st_bytes_tx :: nat
  st_bytes_rx :: nat
  st_packets_tx :: nat
  st_packets_rx :: nat
  st_effective_mtu :: nat
  st_mtu_state :: string
  st_mtu_changes :: nat
  st_send_errors :: nat
  st_dropped_oversized :: nat
  st_dropped_backpressure :: nat
  st_keepalives_sent :: nat

definition status_disconnected :: status_snapshot where
  "status_disconnected =
     \<lparr>st_connected = False, st_server = [], st_session_id = [], st_uptime_secs = 0, st_key_phase = 0, st_bytes_tx = 0, st_bytes_rx = 0,
      st_packets_tx = 0, st_packets_rx = 0, st_effective_mtu = 0, st_mtu_state = [], st_mtu_changes = 0, st_send_errors = 0,
      st_dropped_oversized = 0, st_dropped_backpressure = 0, st_keepalives_sent = 0\<rparr>"

datatype control_response = ResponseOk | ResponseErr string | ResponseStatus status_snapshot | Pong

datatype ipc_error = Malformed | Closed | IpcIo io_error

section \<open>Encoding\<close>

abbreviation tab :: char where "tab \<equiv> CHR 0x09"
abbreviation line_feed :: char where "line_feed \<equiv> CHR 0x0A"

fun join_tabs :: "string list \<Rightarrow> string" where
  "join_tabs [] = []"
| "join_tabs [f] = f"
| "join_tabs (f # fs) = f @ tab # join_tabs fs"

fun request_encode :: "control_request \<Rightarrow> string" where
  "request_encode (Connect path) = ''CONNECT'' @ tab # path"
| "request_encode Disconnect = ''DISCONNECT''"
| "request_encode StatusRequest = ''STATUS''"
| "request_encode Ping = ''PING''"

text \<open>Splitting off the first field.\<close>

fun split_first :: "string \<Rightarrow> string \<times> string option" where
  "split_first [] = ([], None)"
| "split_first (c # s) = (if c = tab then ([], Some s) else case split_first s of (f, r) \<Rightarrow> (c # f, r))"

definition request_decode :: "string \<Rightarrow> ipc_error + control_request" where
  "request_decode line =
     (case split_first line of
        (command, rest) \<Rightarrow>
          if command = ''CONNECT'' then (case rest of Some path \<Rightarrow> Inr (Connect path) | None \<Rightarrow> Inl Malformed)
          else if command = ''DISCONNECT'' then Inr Disconnect
          else if command = ''STATUS'' then Inr StatusRequest
          else if command = ''PING'' then Inr Ping
          else Inl Malformed)"

definition one_line :: "string \<Rightarrow> string" where
  "one_line message = map (\<lambda>c. if c = line_feed \<or> c = tab then CHR '' '' else c) message"

definition non_empty :: "string \<Rightarrow> string" where
  "non_empty s = (if s = [] then ''-'' else s)"

definition opt :: "string \<Rightarrow> string" where
  "opt s = (if s = ''-'' then [] else s)"

definition bool_text :: "bool \<Rightarrow> string" where
  "bool_text b = (if b then ''true'' else ''false'')"

definition parse_bool :: "string \<Rightarrow> bool option" where
  "parse_bool s = (if s = ''true'' then Some True else if s = ''false'' then Some False else None)"

definition status_fields :: "status_snapshot \<Rightarrow> string list" where
  "status_fields s =
     [bool_text (st_connected s), non_empty (st_server s), non_empty (st_session_id s), dec (st_uptime_secs s), dec (st_key_phase s),
      dec (st_bytes_tx s), dec (st_bytes_rx s), dec (st_packets_tx s), dec (st_packets_rx s), dec (st_effective_mtu s), non_empty (st_mtu_state s),
      dec (st_mtu_changes s), dec (st_send_errors s), dec (st_dropped_oversized s), dec (st_dropped_backpressure s), dec (st_keepalives_sent s)]"

fun response_encode :: "control_response \<Rightarrow> string" where
  "response_encode ResponseOk = ''OK''"
| "response_encode Pong = ''PONG''"
| "response_encode (ResponseErr message) = ''ERR'' @ tab # one_line message"
| "response_encode (ResponseStatus s) = join_tabs (''STATUS'' # status_fields s)"

definition parse_u64 :: "string \<Rightarrow> ipc_error + nat" where
  "parse_u64 s = ok_or (parse_unsigned u64_max s) Malformed"

definition parse_u32 :: "string \<Rightarrow> ipc_error + nat" where
  "parse_u32 s = ok_or (parse_unsigned (2 ^ 32 - 1) s) Malformed"

definition status_decode :: "string list \<Rightarrow> ipc_error + status_snapshot" where
  "status_decode parts =
     (case parts of
        connected # server # session # uptime # phase # btx # brx # ptx # prx # mtu # state # changes # errors # oversized # backpressure # keepalives # _ \<Rightarrow>
          and_then (ok_or (parse_bool connected) Malformed) (\<lambda>connected.
          and_then (parse_u64 uptime) (\<lambda>uptime. and_then (parse_u32 phase) (\<lambda>phase.
          and_then (parse_u64 btx) (\<lambda>btx. and_then (parse_u64 brx) (\<lambda>brx.
          and_then (parse_u64 ptx) (\<lambda>ptx. and_then (parse_u64 prx) (\<lambda>prx.
          and_then (parse_u64 mtu) (\<lambda>mtu. and_then (parse_u64 changes) (\<lambda>changes.
          and_then (parse_u64 errors) (\<lambda>errors. and_then (parse_u64 oversized) (\<lambda>oversized.
          and_then (parse_u64 backpressure) (\<lambda>backpressure. and_then (parse_u64 keepalives) (\<lambda>keepalives.
            Inr \<lparr>st_connected = connected, st_server = opt server, st_session_id = opt session, st_uptime_secs = uptime, st_key_phase = phase,
                 st_bytes_tx = btx, st_bytes_rx = brx, st_packets_tx = ptx, st_packets_rx = prx, st_effective_mtu = mtu, st_mtu_state = opt state,
                 st_mtu_changes = changes, st_send_errors = errors, st_dropped_oversized = oversized, st_dropped_backpressure = backpressure,
                 st_keepalives_sent = keepalives\<rparr>)))))))))))))
      | _ \<Rightarrow> Inl Malformed)"

definition response_decode :: "string \<Rightarrow> ipc_error + control_response" where
  "response_decode line =
     (case split_on (\<lambda>c. c = tab) line of
        [] \<Rightarrow> Inl Malformed
      | command # parts \<Rightarrow>
          if command = ''OK'' then Inr ResponseOk
          else if command = ''PONG'' then Inr Pong
          else if command = ''ERR'' then Inr (ResponseErr (case parts of m # _ \<Rightarrow> m | [] \<Rightarrow> []))
          else if command = ''STATUS'' then and_then (status_decode parts) (\<lambda>s. Inr (ResponseStatus s))
          else Inl Malformed)"

section \<open>Framing\<close>

definition MAX_CONTROL_MESSAGE :: nat where "MAX_CONTROL_MESSAGE = 64 * 1024"

text \<open>How much one read of the socket asks for.\<close>

definition READ_CHUNK :: nat where "READ_CHUNK = 512"

definition append_bounded :: "string \<Rightarrow> string \<Rightarrow> ipc_error + string" where
  "append_bounded buf chunk = (if length buf + length chunk > MAX_CONTROL_MESSAGE then Inl Malformed else Inr (buf @ chunk))"

text \<open>The buffer up to its first line feed, and what follows.\<close>

fun take_line :: "string \<Rightarrow> (string \<times> string) option" where
  "take_line [] = None"
| "take_line (c # s) = (if c = line_feed then Some ([], s) else map_option (\<lambda>(l, r). (c # l, r)) (take_line s))"

text \<open>One read: a chunk of at most 512 bytes, where the empty one is the end of the stream, or an error, the idle timeout included.\<close>

datatype ipc_read = Chunk string | ReadError io_error

fun read_line :: "string \<Rightarrow> ipc_read list \<Rightarrow> (ipc_error + string option) option \<times> string \<times> ipc_read list" where
  "read_line buf reads =
     (case take_line buf of
        Some (line, rest) \<Rightarrow> (Some (if is_utf8 line then Inr (Some line) else Inl Malformed), rest, reads)
      | None \<Rightarrow>
          (case reads of
             [] \<Rightarrow> (None, buf, [])
           | ReadError e # reads' \<Rightarrow> (Some (Inl (IpcIo e)), buf, reads')
           | Chunk chunk # reads' \<Rightarrow>
               if chunk = [] then (Some (if buf = [] then Inr None else Inl Malformed), buf, reads')
               else (case append_bounded buf chunk of
                       Inl e \<Rightarrow> (Some (Inl e), buf, reads')
                     | Inr buf' \<Rightarrow> read_line buf' reads')))"

declare read_line.simps [simp del]

definition write_line :: "string \<Rightarrow> string" where
  "write_line line = line @ [line_feed]"

definition read_request :: "string \<Rightarrow> ipc_read list \<Rightarrow> (ipc_error + control_request option) option \<times> string \<times> ipc_read list" where
  "read_request buf reads =
     (case read_line buf reads of
        (None, b, rs) \<Rightarrow> (None, b, rs)
      | (Some (Inl e), b, rs) \<Rightarrow> (Some (Inl e), b, rs)
      | (Some (Inr None), b, rs) \<Rightarrow> (Some (Inr None), b, rs)
      | (Some (Inr (Some line)), b, rs) \<Rightarrow> (Some (and_then (request_decode line) (\<lambda>r. Inr (Some r))), b, rs))"

definition read_response :: "string \<Rightarrow> ipc_read list \<Rightarrow> (ipc_error + control_response) option \<times> string \<times> ipc_read list" where
  "read_response buf reads =
     (case read_line buf reads of
        (None, b, rs) \<Rightarrow> (None, b, rs)
      | (Some (Inl e), b, rs) \<Rightarrow> (Some (Inl e), b, rs)
      | (Some (Inr None), b, rs) \<Rightarrow> (Some (Inl Closed), b, rs)
      | (Some (Inr (Some line)), b, rs) \<Rightarrow> (Some (response_decode line), b, rs))"

text \<open>Reading one request after another.\<close>

fun read_requests :: "nat \<Rightarrow> string \<Rightarrow> ipc_read list \<Rightarrow> (control_request list \<times> string) option" where
  "read_requests 0 buf reads = Some ([], buf)"
| "read_requests (Suc n) buf reads =
     (case read_request buf reads of
        (Some (Inr (Some r)), buf', reads') \<Rightarrow> map_option (\<lambda>(rs, b). (r # rs, b)) (read_requests n buf' reads')
      | _ \<Rightarrow> None)"

section \<open>Messages come back\<close>

lemma split_first_field: "tab \<notin> set f \<Longrightarrow> split_first (f @ tab # rest) = (f, Some rest)"
  by (induction f) auto

lemma split_first_plain: "tab \<notin> set f \<Longrightarrow> split_first f = (f, None)"
  by (induction f) auto

lemma request_round_trip: "request_decode (request_encode r) = Inr r"
proof (cases r)
  case (Connect path)
  show ?thesis using split_first_field [of "''CONNECT''" path] by (simp add: Connect request_decode_def)
qed (simp_all add: request_decode_def)

lemma split_join_tabs:
  "\<forall>f \<in> set fs. tab \<notin> set f \<Longrightarrow> fs \<noteq> [] \<Longrightarrow> split_on (\<lambda>c. c = tab) (join_tabs fs) = fs"
proof (induction fs rule: join_tabs.induct)
  case (2 f)
  then show ?case by (auto intro!: split_on_plain simp: list_all_iff)
next
  case (3 f g fs)
  have "list_all (\<lambda>c. c \<noteq> tab) f" using 3(2) by (auto simp: list_all_iff)
  then show ?case using 3 by (simp add: split_on_field)
qed simp

definition wf_status :: "status_snapshot \<Rightarrow> bool" where
  "wf_status s \<longleftrightarrow>
     (\<forall>t \<in> {st_server s, st_session_id s, st_mtu_state s}. tab \<notin> set t \<and> t \<noteq> ''-'') \<and> st_key_phase s < 2 ^ 32 \<and>
     (\<forall>n \<in> {st_uptime_secs s, st_bytes_tx s, st_bytes_rx s, st_packets_tx s, st_packets_rx s, st_effective_mtu s, st_mtu_changes s, st_send_errors s,
        st_dropped_oversized s, st_dropped_backpressure s, st_keepalives_sent s}. n \<le> u64_max)"

lemma dec_no_tab [simp]: "tab \<notin> set (dec n)"
  using all_digits_dec [of n] by (auto simp: all_digits_def list_all_iff)

lemma opt_non_empty: "t \<noteq> ''-'' \<Longrightarrow> opt (non_empty t) = t"
  by (simp add: opt_def non_empty_def)

lemma parse_bool_text: "parse_bool (bool_text b) = Some b"
  by (simp add: parse_bool_def bool_text_def)

lemma status_decode_fields: "wf_status s \<Longrightarrow> status_decode (status_fields s) = Inr s"
  by (cases s) (simp add: wf_status_def status_decode_def status_fields_def parse_u64_def parse_u32_def parse_unsigned_dec ok_or_def opt_non_empty parse_bool_text)

lemma status_fields_no_tab: "wf_status s \<Longrightarrow> f \<in> set (status_fields s) \<Longrightarrow> tab \<notin> set f"
  by (auto simp: wf_status_def status_fields_def non_empty_def bool_text_def split: if_splits)

lemma status_round_trip:
  assumes "wf_status s"
  shows "response_decode (response_encode (ResponseStatus s)) = Inr (ResponseStatus s)"
proof -
  have "split_on (\<lambda>c. c = tab) (join_tabs (''STATUS'' # status_fields s)) = ''STATUS'' # status_fields s"
    using status_fields_no_tab [OF assms] by (intro split_join_tabs) auto
  then show ?thesis using status_decode_fields [OF assms] by (simp add: response_decode_def)
qed

lemma error_round_trip: "response_decode (response_encode (ResponseErr m)) = Inr (ResponseErr (one_line m))"
proof -
  have "list_all (\<lambda>c. c \<noteq> tab) (one_line m)" by (auto simp: one_line_def list_all_iff)
  then have "split_on (\<lambda>c. c = tab) (''ERR'' @ tab # one_line m) = [''ERR'', one_line m]" by (subst split_on_field) (simp_all add: split_on_plain)
  then show ?thesis by (simp add: response_decode_def)
qed

section \<open>Lines come back\<close>

lemma take_line_found: "line_feed \<notin> set l \<Longrightarrow> take_line (l @ line_feed # r) = Some (l, r)"
  by (induction l) auto

lemma take_line_Some: "take_line buf = Some (l, r) \<Longrightarrow> buf = l @ line_feed # r \<and> line_feed \<notin> set l"
  by (induction buf arbitrary: l) (auto split: if_splits)

lemma take_line_None: "take_line buf = None \<longleftrightarrow> line_feed \<notin> set buf"
  by (induction buf) auto

text \<open>The bytes still to come.\<close>

definition pending :: "string list \<Rightarrow> ipc_read list" where
  "pending chunks = map Chunk chunks"

lemma read_line_returns:
  assumes "buf @ concat chunks = line @ line_feed # rest" and "line_feed \<notin> set line" and "is_utf8 line"
    and "\<forall>c \<in> set chunks. c \<noteq> [] \<and> length c \<le> READ_CHUNK" and "length line + READ_CHUNK \<le> MAX_CONTROL_MESSAGE"
  shows "\<exists>buf' chunks'. read_line buf (pending chunks) = (Some (Inr (Some line)), buf', pending chunks') \<and> buf' @ concat chunks' = rest \<and> set chunks' \<subseteq> set chunks"
  using assms
proof (induction chunks arbitrary: buf)
  case Nil
  then show ?case using take_line_found [of line rest] by (subst read_line.simps) (auto simp: pending_def)
next
  case (Cons chunk chunks)
  show ?case
  proof (cases "take_line buf")
    case None
    then have "length buf \<le> length line"
      using Cons.prems(1) by (auto simp: append_eq_append_conv2 take_line_None append_eq_Cons_conv)
    then have "append_bounded buf chunk = Inr (buf @ chunk)" using Cons.prems(4,5) by (simp add: append_bounded_def)
    then have "read_line buf (pending (chunk # chunks)) = read_line (buf @ chunk) (pending chunks)"
      using None Cons.prems(4) by (subst read_line.simps) (auto simp: pending_def)
    moreover have "\<exists>buf' chunks'. read_line (buf @ chunk) (pending chunks) = (Some (Inr (Some line)), buf', pending chunks') \<and> buf' @ concat chunks' = rest \<and> set chunks' \<subseteq> set chunks"
      by (rule Cons.IH) (use Cons.prems in simp_all)
    ultimately show ?thesis by auto
  next
    case (Some lr)
    obtain l r where lr: "lr = (l, r)" by fastforce
    then have b: "buf = l @ line_feed # r" "line_feed \<notin> set l" using take_line_Some [of buf l r] Some by simp_all
    have "l = line \<and> r @ concat (chunk # chunks) = rest"
      using Cons.prems(1) b Cons.prems(2) take_line_found [of line rest] take_line_found [of l "r @ concat (chunk # chunks)"] by simp
    then show ?thesis using Some lr Cons.prems(3)
      by (intro exI [of _ r] exI [of _ "chunk # chunks"]) (subst read_line.simps, simp)
  qed
qed

text \<open>A request that the connection carries: no line feed in it, UTF-8, and short enough that a read past its end still fits the buffer.\<close>

definition deliverable :: "control_request \<Rightarrow> bool" where
  "deliverable r \<longleftrightarrow>
     line_feed \<notin> set (request_encode r) \<and> is_utf8 (request_encode r) \<and> length (request_encode r) + READ_CHUNK \<le> MAX_CONTROL_MESSAGE"

lemma read_requests_returns:
  assumes "\<forall>r \<in> set rs. deliverable r" and "buf @ concat chunks = concat (map (write_line \<circ> request_encode) rs)"
    and "\<forall>c \<in> set chunks. c \<noteq> [] \<and> length c \<le> READ_CHUNK"
  shows "read_requests (length rs) buf (pending chunks) = Some (rs, [])"
  using assms
proof (induction rs arbitrary: buf chunks)
  case (Cons r rs)
  let ?rest = "concat (map (write_line \<circ> request_encode) rs)"
  have b: "buf @ concat chunks = request_encode r @ line_feed # ?rest" using Cons.prems(2) by (simp add: write_line_def o_def)
  have r: "line_feed \<notin> set (request_encode r)" "is_utf8 (request_encode r)" "length (request_encode r) + READ_CHUNK \<le> MAX_CONTROL_MESSAGE"
    using Cons.prems(1) by (simp_all add: deliverable_def)
  obtain buf' chunks' where read: "read_line buf (pending chunks) = (Some (Inr (Some (request_encode r))), buf', pending chunks')"
    "buf' @ concat chunks' = ?rest" "set chunks' \<subseteq> set chunks"
    using read_line_returns [OF b r(1,2) Cons.prems(3) r(3)] by blast
  have "read_requests (length rs) buf' (pending chunks') = Some (rs, [])"
    by (rule Cons.IH [OF _ read(2)]) (use Cons.prems read(3) in auto)
  then show ?case by (simp add: read_request_def read(1) request_round_trip)
qed simp

lemma read_line_bounded: "read_line buf reads = (r, buf', reads') \<Longrightarrow> length buf \<le> MAX_CONTROL_MESSAGE \<Longrightarrow> length buf' \<le> MAX_CONTROL_MESSAGE"
proof (induction buf reads rule: read_line.induct)
  case (1 buf reads)
  note prems = 1(2) [unfolded read_line.simps [of buf reads]] 1(3)
  show ?case
  proof (cases "take_line buf")
    case (Some lr)
    then obtain l rest where lr: "lr = (l, rest)" "buf = l @ line_feed # rest" using take_line_Some by (cases lr) blast
    then show ?thesis using prems Some by simp
  next
    case None
    show ?thesis
      using prems None 1(1) [OF None]
      by (auto simp: append_bounded_def split: list.splits ipc_read.splits if_splits)
  qed
qed

section \<open>Properties\<close>

text \<open>
  C38. Requests arrive as they were sent: for any number of requests, each without a line feed, in UTF-8 and with 512 bytes to spare below the 64 KiB limit
  of the buffer, and however the socket cuts the stream into chunks of at most the 512 bytes that a read asks for, a daemon that reads as many
  requests as a controller wrote gets exactly those requests in order, and nothing is left in its buffer.
\<close>

theorem control_requests_delivered:
  assumes "\<forall>r \<in> set rs. deliverable r" and "concat chunks = concat (map (write_line \<circ> request_encode) rs)"
    and "\<forall>c \<in> set chunks. c \<noteq> [] \<and> length c \<le> READ_CHUNK"
  shows "read_requests (length rs) [] (map Chunk chunks) = Some (rs, [])"
  using read_requests_returns [of rs "[]" chunks] assms by (simp add: pending_def)

theorem control_requests_delivered_witness:
  "read_requests 2 [] (map Chunk [''CONNECT'' @ [tab] @ ''/a'', ''.toml'' @ [line_feed] @ ''STAT'', ''US'' @ [line_feed]]) = Some ([Connect ''/a.toml'', StatusRequest], [])"
proof -
  have "read_requests (length [Connect ''/a.toml'', StatusRequest]) [] (map Chunk [''CONNECT'' @ [tab] @ ''/a'', ''.toml'' @ [line_feed] @ ''STAT'', ''US'' @ [line_feed]]) =
    Some ([Connect ''/a.toml'', StatusRequest], [])"
    by (rule control_requests_delivered) (auto simp: deliverable_def write_line_def is_utf8_def MAX_CONTROL_MESSAGE_def READ_CHUNK_def)
  then show ?thesis by (simp add: numeral_2_eq_2)
qed

text \<open>
  A path can smuggle in a request: a connection request is encoded without regard to line feeds in its path, so that a path with a line feed is read as two
  requests, the second being whatever the path says.
\<close>

theorem connect_path_injects:
  assumes "deliverable (Connect path)" and "deliverable r" and "length (request_encode (Connect (path @ [line_feed] @ request_encode r))) < READ_CHUNK"
  shows "read_requests 2 [] [Chunk (write_line (request_encode (Connect (path @ [line_feed] @ request_encode r))))] = Some ([Connect path, r], [])"
proof -
  have "read_requests (length [Connect path, r]) [] (pending [write_line (request_encode (Connect (path @ [line_feed] @ request_encode r)))]) = Some ([Connect path, r], [])"
    by (rule read_requests_returns) (use assms in \<open>auto simp: write_line_def\<close>)
  then show ?thesis by (simp add: numeral_2_eq_2 pending_def)
qed

theorem connect_path_injects_witness:
  "read_requests 2 [] [Chunk (write_line (request_encode (Connect (''/a'' @ [line_feed] @ ''DISCONNECT''))))] = Some ([Connect ''/a'', Disconnect], [])"
  using connect_path_injects [of "''/a''" Disconnect] by (simp add: deliverable_def is_utf8_def MAX_CONTROL_MESSAGE_def READ_CHUNK_def)

text \<open>
  Responses come back: an acknowledgement and a status whose texts have no tab and are not a single dash decode to themselves, with every counter at its
  full width, and an error decodes to its message with tabs and line feeds replaced by spaces.
\<close>

theorem control_response_round_trip:
  "response_decode (response_encode ResponseOk) = Inr ResponseOk \<and> response_decode (response_encode Pong) = Inr Pong \<and>
   response_decode (response_encode (ResponseErr m)) = Inr (ResponseErr (one_line m)) \<and>
   (wf_status s \<longrightarrow> response_decode (response_encode (ResponseStatus s)) = Inr (ResponseStatus s))"
  using status_round_trip error_round_trip by (simp add: response_decode_def)

theorem control_response_round_trip_witness:
  "response_decode (response_encode (ResponseStatus (status_disconnected\<lparr>st_bytes_tx := u64_max\<rparr>))) = Inr (ResponseStatus (status_disconnected\<lparr>st_bytes_tx := u64_max\<rparr>))"
proof -
  have "wf_status (status_disconnected\<lparr>st_bytes_tx := u64_max\<rparr>)" by (simp add: wf_status_def status_disconnected_def)
  then show ?thesis using control_response_round_trip by blast
qed

end
