(* ===== verification/Kill_Switch.thy ===== *)
theory Kill_Switch
  imports Config
begin

text \<open>
  The Linux kill switch, \<^verbatim>\<open>crates/rvpn-net/src/linux_killswitch.rs\<close>, and the errors and specifications of \<^verbatim>\<open>crates/rvpn-net/src/lib.rs\<close>: the rules
  that confine a user's traffic to the tunnel, the nftables batch that installs them, and the transactions that replace and remove them.

  The evaluation of nftables rules and the netlink transaction belong to the kernel. They are parameters, with the laws the code relies
  on stated as \<open>nft_laws\<close> and \<open>nft_transactions\<close>.
\<close>

section \<open>Specifications and errors\<close>

datatype net_error = Operation string | InterfaceNotFound string | Unsupported | InvalidPrefix string

fun net_error_text :: "net_error \<Rightarrow> string" where
  "net_error_text (Operation m) = ''network operation failed: '' @ m"
| "net_error_text (InterfaceNotFound n) = ''interface '' @ [CHR 0x27] @ n @ [CHR 0x27] @ '' was not found''"
| "net_error_text Unsupported = ''unsupported native networking operation on this platform''"
| "net_error_text (InvalidPrefix p) = ''invalid network prefix: '' @ p"

record kill_switch_spec =
  ks_endpoint :: socket_addr
  ks_tunnel_interface :: "string option"
  ks_uid :: u32

section \<open>The policy\<close>

datatype output_rule =
    AcceptInterface u32 string
  | AcceptEndpoint u32 socket_addr
  | DropDns u8 "string option"
  | DropUid u32

record output_packet =
  op_uid :: u32
  op_interface :: string
  op_protocol :: u8
  op_destination :: "socket_addr option"

definition to_port :: "u16 \<Rightarrow> output_packet \<Rightarrow> bool" where
  "to_port port p \<longleftrightarrow> (case op_destination p of Some endpoint \<Rightarrow> sock_port endpoint = port | None \<Rightarrow> False)"

fun policy_allows :: "output_rule list \<Rightarrow> output_packet \<Rightarrow> bool" where
  "policy_allows [] p = True"
| "policy_allows (AcceptInterface uid name # rules) p = (if op_uid p = uid \<and> op_interface p = name then True else policy_allows rules p)"
| "policy_allows (AcceptEndpoint uid endpoint # rules) p =
     (if op_uid p = uid \<and> op_protocol p = 17 \<and> op_destination p = Some endpoint then True else policy_allows rules p)"
| "policy_allows (DropDns protocol tunnel # rules) p =
     (if op_protocol p = protocol \<and> to_port 53 p \<and> op_interface p \<noteq> ''lo'' \<and> tunnel \<noteq> Some (op_interface p) then False else policy_allows rules p)"
| "policy_allows (DropUid uid # rules) p = (if op_uid p = uid then False else policy_allows rules p)"

definition output_rules :: "kill_switch_spec \<Rightarrow> output_rule list" where
  "output_rules spec =
     [AcceptInterface (ks_uid spec) ''lo''] @
     (case ks_tunnel_interface spec of Some tunnel \<Rightarrow> [AcceptInterface (ks_uid spec) tunnel] | None \<Rightarrow> []) @
     [AcceptEndpoint (ks_uid spec) (ks_endpoint spec), DropDns 17 (ks_tunnel_interface spec), DropDns 6 (ks_tunnel_interface spec), DropUid (ks_uid spec)]"

section \<open>The nftables batch\<close>

datatype nft_data = Num32 u32 | Num8 u8 | NetPort u16 | NameBytes string | Addr ip_addr

datatype nft_expr =
    MetaSkuid | MetaOifname | MetaL4proto | MetaNfproto | Ipv4Daddr | Ipv6Daddr | UdpDport | TcpDport
  | CmpEq nft_data | CmpNe nft_data | Verdict bool

datatype nft_msg =
    DelTable string
  | AddTable string
  | AddChain string int bool
  | AddRule "nft_expr list"

definition CHAIN_NAME :: string where "CHAIN_NAME = ''output''"

definition OUTPUT_HOOK_PRIORITY :: int where "OUTPUT_HOOK_PRIORITY = - 100"

definition table_name :: "u32 \<Rightarrow> string" where
  "table_name uid = ''rvpn_ks_'' @ dec (unat uid)"

definition add_interface_accept :: "u32 \<Rightarrow> string \<Rightarrow> nft_expr list" where
  "add_interface_accept uid name = [MetaSkuid, CmpEq (Num32 uid), MetaOifname, CmpEq (NameBytes name), Verdict True]"

definition add_endpoint_accept :: "u32 \<Rightarrow> socket_addr \<Rightarrow> nft_expr list" where
  "add_endpoint_accept uid endpoint =
     [MetaSkuid, CmpEq (Num32 uid), MetaL4proto, CmpEq (Num8 17)] @
     (case sock_ip endpoint of
        V4 ip \<Rightarrow> [MetaNfproto, CmpEq (Num8 2), Ipv4Daddr, CmpEq (Addr (V4 ip))]
      | V6 ip \<Rightarrow> [MetaNfproto, CmpEq (Num8 10), Ipv6Daddr, CmpEq (Addr (V6 ip))]) @
     [UdpDport, CmpEq (NetPort (sock_port endpoint)), Verdict True]"

definition add_uid_drop :: "u32 \<Rightarrow> nft_expr list" where
  "add_uid_drop uid = [MetaSkuid, CmpEq (Num32 uid), Verdict False]"

definition add_dns_drop :: "string option \<Rightarrow> u8 \<Rightarrow> nft_expr list" where
  "add_dns_drop tunnel protocol =
     [MetaOifname, CmpNe (NameBytes ''lo'')] @
     (case tunnel of Some name \<Rightarrow> [MetaOifname, CmpNe (NameBytes name)] | None \<Rightarrow> []) @
     [MetaL4proto, CmpEq (Num8 protocol), if protocol = 17 then UdpDport else TcpDport, CmpEq (NetPort 53), Verdict False]"

fun rule_exprs :: "output_rule \<Rightarrow> nft_expr list" where
  "rule_exprs (AcceptInterface uid name) = add_interface_accept uid name"
| "rule_exprs (AcceptEndpoint uid endpoint) = add_endpoint_accept uid endpoint"
| "rule_exprs (DropDns protocol tunnel) = add_dns_drop tunnel protocol"
| "rule_exprs (DropUid uid) = add_uid_drop uid"

text \<open>A C string has no zero byte inside.\<close>

definition c_string :: "string \<Rightarrow> net_error \<Rightarrow> net_error + unit" where
  "c_string s e = require (CHR 0x00 \<notin> set s) e"

definition build_batch :: "kill_switch_spec \<Rightarrow> bool \<Rightarrow> net_error + nft_msg list" where
  "build_batch spec replace =
     and_then (c_string (table_name (ks_uid spec)) (Operation ''invalid nftables table name'')) (\<lambda>_.
     and_then (case ks_tunnel_interface spec of Some name \<Rightarrow> c_string name (Operation ''invalid tunnel interface name'') | None \<Rightarrow> Inr ()) (\<lambda>_.
       Inr ((if replace then [DelTable (table_name (ks_uid spec))] else []) @
         [AddTable (table_name (ks_uid spec)), AddChain CHAIN_NAME OUTPUT_HOOK_PRIORITY True] @ map (AddRule \<circ> rule_exprs) (output_rules spec))))"

section \<open>Installing and removing\<close>

fun contains :: "string \<Rightarrow> string \<Rightarrow> bool" where
  "contains pat [] \<longleftrightarrow> pat = []"
| "contains pat (c # cs) \<longleftrightarrow> starts_with pat (c # cs) \<or> contains pat cs"

definition is_missing_table_error :: "net_error \<Rightarrow> bool" where
  "is_missing_table_error e \<longleftrightarrow>
     contains ''No such file'' (net_error_text e) \<or> contains ''No such file or directory'' (net_error_text e) \<or> contains ''ENOENT'' (net_error_text e)"

type_synonym 'k send_fn = "'k \<Rightarrow> nft_msg list \<Rightarrow> (net_error + unit) \<times> 'k"

definition send_built :: "'k send_fn \<Rightarrow> net_error + nft_msg list \<Rightarrow> 'k \<Rightarrow> (net_error + unit) \<times> 'k" where
  "send_built send_batch built k = (case built of Inl e \<Rightarrow> (Inl e, k) | Inr batch \<Rightarrow> send_batch k batch)"

definition install :: "'k send_fn \<Rightarrow> kill_switch_spec \<Rightarrow> 'k \<Rightarrow> (net_error + unit) \<times> 'k" where
  "install send_batch spec k =
     (case build_batch spec True of
        Inl e \<Rightarrow> (Inl e, k)
      | Inr batch \<Rightarrow>
          (case send_batch k batch of
             (Inr _, k1) \<Rightarrow> (Inr (), k1)
           | (Inl e, k1) \<Rightarrow>
               if is_missing_table_error e then send_built send_batch (build_batch spec False) k1
               else (Inl e, k1)))"

definition delete_table :: "'k send_fn \<Rightarrow> u32 \<Rightarrow> 'k \<Rightarrow> (net_error + unit) \<times> 'k" where
  "delete_table send_batch uid k =
     (case c_string (table_name uid) (Operation ''invalid nftables table name'') of
        Inl e \<Rightarrow> (Inl e, k)
      | Inr _ \<Rightarrow>
          (case send_batch k [DelTable (table_name uid)] of
             (Inr _, k1) \<Rightarrow> (Inr (), k1)
           | (Inl e, k1) \<Rightarrow> (if is_missing_table_error e then Inr () else Inl e, k1)))"

definition ks_remove :: "'k send_fn \<Rightarrow> u32 \<Rightarrow> 'k \<Rightarrow> (net_error + unit) \<times> 'k" where
  "ks_remove send_batch uid k = delete_table send_batch uid k"

section \<open>What the kernel documents\<close>

text \<open>
  The field a load expression puts in the register; a packet without that field ends the rule. The comparison of interface names is a
  parameter of the laws: netfilter compares as many bytes as the rule gives.
\<close>

fun loaded :: "nft_expr \<Rightarrow> output_packet \<Rightarrow> nft_data option" where
  "loaded MetaSkuid p = Some (Num32 (op_uid p))"
| "loaded MetaOifname p = Some (NameBytes (op_interface p))"
| "loaded MetaL4proto p = Some (Num8 (op_protocol p))"
| "loaded MetaNfproto p = map_option (\<lambda>d. Num8 (case sock_ip d of V4 _ \<Rightarrow> 2 | V6 _ \<Rightarrow> 10)) (op_destination p)"
| "loaded Ipv4Daddr p = map_option (Addr \<circ> sock_ip) (op_destination p)"
| "loaded Ipv6Daddr p = map_option (Addr \<circ> sock_ip) (op_destination p)"
| "loaded UdpDport p = (if op_protocol p = 17 then map_option (NetPort \<circ> sock_port) (op_destination p) else None)"
| "loaded TcpDport p = (if op_protocol p = 6 then map_option (NetPort \<circ> sock_port) (op_destination p) else None)"
| "loaded _ p = None"

fun data_matches :: "(string \<Rightarrow> string \<Rightarrow> bool) \<Rightarrow> nft_data \<Rightarrow> nft_data \<Rightarrow> bool" where
  "data_matches name_match (NameBytes a) (NameBytes b) = name_match a b"
| "data_matches name_match v d \<longleftrightarrow> v = d"

record nft =
  nft_rule :: "nft_expr list \<Rightarrow> output_packet \<Rightarrow> bool option"
  nft_chain :: "nft_expr list list \<Rightarrow> output_packet \<Rightarrow> bool"

definition nft_laws :: "(string \<Rightarrow> string \<Rightarrow> bool) \<Rightarrow> nft \<Rightarrow> bool" where
  "nft_laws name_match nf \<longleftrightarrow>
     (\<forall>p. nft_chain nf [] p) \<and>
     (\<forall>r rs p. nft_chain nf (r # rs) p = (case nft_rule nf r p of Some v \<Rightarrow> v | None \<Rightarrow> nft_chain nf rs p)) \<and>
     (\<forall>v p. nft_rule nf [Verdict v] p = Some v) \<and>
     (\<forall>load d rest p. nft_rule nf (load # CmpEq d # rest) p =
        (case loaded load p of Some v \<Rightarrow> if data_matches name_match v d then nft_rule nf rest p else None | None \<Rightarrow> None)) \<and>
     (\<forall>load d rest p. nft_rule nf (load # CmpNe d # rest) p =
        (case loaded load p of Some v \<Rightarrow> if data_matches name_match v d then None else nft_rule nf rest p | None \<Rightarrow> None))"

text \<open>The comparison over the length the rule gives, without a terminating zero: a prefix.\<close>

definition prefix_match :: "string \<Rightarrow> string \<Rightarrow> bool" where
  "prefix_match name data = starts_with data name"

definition batch_rules :: "nft_msg list \<Rightarrow> nft_expr list list" where
  "batch_rules batch = concat (map (\<lambda>m. case m of AddRule r \<Rightarrow> [r] | _ \<Rightarrow> []) batch)"

text \<open>
  A batch is a transaction: it takes effect as a whole or not at all, also when its outcome is not read back. Deleting a table that does not exist fails with a
  message that says so, and nothing happens.
\<close>

definition nft_transactions :: "'k send_fn \<Rightarrow> ('k \<Rightarrow> string \<Rightarrow> nft_expr list list option) \<Rightarrow> bool" where
  "nft_transactions send_batch installed \<longleftrightarrow>
     (\<forall>k t chain prio pol rs r k'. send_batch k (DelTable t # AddTable t # AddChain chain prio pol # map AddRule rs) = (r, k') \<longrightarrow>
        installed k' = (installed k)(t \<mapsto> rs) \<or> (r \<noteq> Inr () \<and> installed k' = installed k)) \<and>
     (\<forall>k t chain prio pol rs r k'. installed k t = None \<longrightarrow> send_batch k (AddTable t # AddChain chain prio pol # map AddRule rs) = (r, k') \<longrightarrow>
        installed k' = (installed k)(t \<mapsto> rs) \<or> (r \<noteq> Inr () \<and> installed k' = installed k)) \<and>
     (\<forall>k t r k'. send_batch k [DelTable t] = (r, k') \<longrightarrow> installed k' = (installed k)(t := None) \<or> (r \<noteq> Inr () \<and> installed k' = installed k)) \<and>
     (\<forall>k t rest e k'. send_batch k (DelTable t # rest) = (Inl e, k') \<longrightarrow> is_missing_table_error e \<longrightarrow> installed k t = None \<and> installed k' = installed k)"

section \<open>The batch and the policy\<close>

lemma nft_lawsD:
  assumes "nft_laws name_match nf"
  shows "nft_chain nf [] p" "nft_chain nf (r # rs) p = (case nft_rule nf r p of Some v \<Rightarrow> v | None \<Rightarrow> nft_chain nf rs p)"
    "nft_rule nf [Verdict v] p = Some v"
    "nft_rule nf (load # CmpEq d # rest) p = (case loaded load p of Some v \<Rightarrow> if data_matches name_match v d then nft_rule nf rest p else None | None \<Rightarrow> None)"
    "nft_rule nf (load # CmpNe d # rest) p = (case loaded load p of Some v \<Rightarrow> if data_matches name_match v d then None else nft_rule nf rest p | None \<Rightarrow> None)"
  using assms unfolding nft_laws_def by blast+

text \<open>What a packet's address says to netfilter.\<close>

definition same_target :: "socket_addr \<Rightarrow> output_packet \<Rightarrow> bool" where
  "same_target endpoint p \<longleftrightarrow>
     (case op_destination p of Some d \<Rightarrow> sock_ip d = sock_ip endpoint \<and> sock_port d = sock_port endpoint | None \<Rightarrow> False)"

lemma rule_verdicts:
  assumes "nft_laws name_match nf"
  shows "nft_rule nf (add_interface_accept uid name) p = (if op_uid p = uid \<and> name_match (op_interface p) name then Some True else None)"
    "nft_rule nf (add_endpoint_accept uid endpoint) p = (if op_uid p = uid \<and> op_protocol p = 17 \<and> same_target endpoint p then Some True else None)"
    "nft_rule nf (add_uid_drop uid) p = (if op_uid p = uid then Some False else None)"
    "protocol \<in> {6, 17} \<Longrightarrow> nft_rule nf (add_dns_drop tunnel protocol) p =
       (if op_protocol p = protocol \<and> to_port 53 p \<and> \<not> name_match (op_interface p) ''lo'' \<and>
           (case tunnel of Some name \<Rightarrow> \<not> name_match (op_interface p) name | None \<Rightarrow> True) then Some False else None)"
  by (auto simp: add_interface_accept_def add_endpoint_accept_def add_uid_drop_def add_dns_drop_def nft_lawsD [OF assms] same_target_def to_port_def
      split: option.splits ip_addr.splits)

lemma batch_rules_build:
  "build_batch spec replace = Inr batch \<Longrightarrow> batch_rules batch = map rule_exprs (output_rules spec)"
  by (auto simp: build_batch_def batch_rules_def comp_def)

text \<open>The interfaces the policy lets the tunnel's user and name queries through.\<close>

definition trusted_interface :: "(string \<Rightarrow> string \<Rightarrow> bool) \<Rightarrow> kill_switch_spec \<Rightarrow> string \<Rightarrow> bool" where
  "trusted_interface name_match spec interface \<longleftrightarrow>
     name_match interface ''lo'' \<or> (case ks_tunnel_interface spec of Some name \<Rightarrow> name_match interface name | None \<Rightarrow> False)"

definition is_dns :: "output_packet \<Rightarrow> bool" where
  "is_dns p \<longleftrightarrow> op_protocol p \<in> {6, 17} \<and> to_port 53 p"

lemma chain_exact:
  assumes "nft_laws name_match nf" and "build_batch spec replace = Inr batch"
  shows "nft_chain nf (batch_rules batch) p \<longleftrightarrow>
    (op_uid p = ks_uid spec \<and> (trusted_interface name_match spec (op_interface p) \<or> (op_protocol p = 17 \<and> same_target (ks_endpoint spec) p))) \<or>
    (op_uid p \<noteq> ks_uid spec \<and> (is_dns p \<longrightarrow> trusted_interface name_match spec (op_interface p)))"
  unfolding batch_rules_build [OF assms(2)] output_rules_def
  by (cases "ks_tunnel_interface spec") (auto simp: nft_lawsD [OF assms(1)] rule_verdicts [OF assms(1)] trusted_interface_def is_dns_def)

text \<open>An address without IPv6 flow information and scope, as it stands in a packet.\<close>

fun unscoped :: "socket_addr \<Rightarrow> bool" where
  "unscoped (SockV4 _ _) = True"
| "unscoped (SockV6 _ _ flow scope) \<longleftrightarrow> flow = 0 \<and> scope = 0"

lemma unscoped_eq: "unscoped a \<Longrightarrow> unscoped b \<Longrightarrow> sock_ip a = sock_ip b \<Longrightarrow> sock_port a = sock_port b \<Longrightarrow> a = b"
  by (cases a; cases b) auto

lemma policy_exact:
  "policy_allows (output_rules spec) p \<longleftrightarrow>
    (op_uid p = ks_uid spec \<and> (trusted_interface (=) spec (op_interface p) \<or> (op_protocol p = 17 \<and> op_destination p = Some (ks_endpoint spec)))) \<or>
    (op_uid p \<noteq> ks_uid spec \<and> (is_dns p \<longrightarrow> trusted_interface (=) spec (op_interface p)))"
  unfolding output_rules_def by (cases "ks_tunnel_interface spec") (auto simp: trusted_interface_def is_dns_def)

section \<open>Transactions\<close>

lemma digits_dec: "c \<in> set (dec n) \<Longrightarrow> 48 \<le> (of_char c :: nat)"
proof (induction n rule: dec.induct)
  case (1 n)
  then show ?case by (subst (asm) (2) dec.simps) (auto split: if_splits)
qed

lemma table_name_ok [simp]: "c_string (table_name uid) e = Inr ()"
proof -
  have "CHR 0x00 \<notin> set (dec (unat uid))" using digits_dec [of "CHR 0x00" "unat uid"] by auto
  then show ?thesis by (simp add: c_string_def table_name_def)
qed

lemma table_name_inj: "table_name a = table_name b \<Longrightarrow> a = b"
  using dec_inj [of "unat a" "unat b"] by (simp add: table_name_def word_unat_eq_iff)

lemma build_batch_shape:
  assumes "build_batch spec replace = Inr batch"
  shows "batch = (if replace then [DelTable (table_name (ks_uid spec))] else []) @ AddTable (table_name (ks_uid spec)) #
    AddChain CHAIN_NAME OUTPUT_HOOK_PRIORITY True # map AddRule (map rule_exprs (output_rules spec))"
  using assms by (auto simp: build_batch_def)

lemma nft_transactionsD:
  assumes "nft_transactions send_batch installed"
  shows "send_batch k (DelTable t # AddTable t # AddChain chain prio pol # map AddRule rs) = (r, k') \<Longrightarrow>
      installed k' = (installed k)(t \<mapsto> rs) \<or> (r \<noteq> Inr () \<and> installed k' = installed k)"
    "installed k t = None \<Longrightarrow> send_batch k (AddTable t # AddChain chain prio pol # map AddRule rs) = (r, k') \<Longrightarrow>
      installed k' = (installed k)(t \<mapsto> rs) \<or> (r \<noteq> Inr () \<and> installed k' = installed k)"
    "send_batch k [DelTable t] = (r, k') \<Longrightarrow> installed k' = (installed k)(t := None) \<or> (r \<noteq> Inr () \<and> installed k' = installed k)"
    "send_batch k (DelTable t # rest) = (Inl e, k') \<Longrightarrow> is_missing_table_error e \<Longrightarrow> installed k t = None \<and> installed k' = installed k"
  using assms unfolding nft_transactions_def by metis+

definition installed_rules :: "kill_switch_spec \<Rightarrow> nft_expr list list" where
  "installed_rules spec = map rule_exprs (output_rules spec)"

lemma install_transaction:
  assumes laws: "nft_transactions send_batch installed" and inst: "install send_batch spec k = (r, k')"
  shows "installed k' = (installed k)(table_name (ks_uid spec) \<mapsto> installed_rules spec) \<or> (r \<noteq> Inr () \<and> installed k' = installed k)"
proof (cases "build_batch spec True")
  case (Inr batch)
  let ?t = "table_name (ks_uid spec)"
  note D = nft_transactionsD [OF laws]
  obtain r1 k1 where s: "send_batch k batch = (r1, k1)" by fastforce
  have first: "installed k1 = (installed k)(?t \<mapsto> installed_rules spec) \<or> (r1 \<noteq> Inr () \<and> installed k1 = installed k)"
    using D(1) s build_batch_shape [OF Inr] by (simp add: installed_rules_def)
  show ?thesis
  proof (cases r1)
    case (Inl e)
    show ?thesis
    proof (cases "is_missing_table_error e")
      case True
      then have gone: "installed k ?t = None" "installed k1 = installed k" using D(4) s build_batch_shape [OF Inr] Inl by auto
      obtain batch2 where b2: "build_batch spec False = Inr batch2" using Inr by (auto simp: build_batch_def split: option.splits)
      then have "send_batch k1 batch2 = (r, k')" using inst Inr s Inl True by (simp add: install_def send_built_def)
      then show ?thesis using D(2) [of k1 ?t] gone build_batch_shape [OF b2] by (simp add: installed_rules_def)
    qed (use inst Inr s Inl first in \<open>simp add: install_def\<close>)
  qed (use inst Inr s first in \<open>simp add: install_def\<close>)
qed (use inst in \<open>auto simp: install_def\<close>)

lemma remove_transaction:
  assumes laws: "nft_transactions send_batch installed" and rem: "ks_remove send_batch uid k = (r, k')"
  shows "installed k' = (installed k)(table_name uid := None) \<or> (r \<noteq> Inr () \<and> installed k' = installed k)"
proof -
  note D = nft_transactionsD [OF laws]
  obtain r1 k1 where s: "send_batch k [DelTable (table_name uid)] = (r1, k1)" by fastforce
  show ?thesis
    using rem s D(3) [OF s] D(4) [of k "table_name uid" "[]" _ k1]
    by (cases r1) (auto simp: ks_remove_def delete_table_def split: if_splits)
qed

section \<open>Instances of the parameters\<close>

fun eval_rule :: "(string \<Rightarrow> string \<Rightarrow> bool) \<Rightarrow> nft_expr list \<Rightarrow> output_packet \<Rightarrow> bool option" where
  "eval_rule m [] p = None"
| "eval_rule m [e] p = (case e of Verdict v \<Rightarrow> Some v | _ \<Rightarrow> None)"
| "eval_rule m (load # cmp # rest) p =
     (case loaded load p of
        None \<Rightarrow> None
      | Some v \<Rightarrow>
          (case cmp of
             CmpEq d \<Rightarrow> if data_matches m v d then eval_rule m rest p else None
           | CmpNe d \<Rightarrow> if data_matches m v d then None else eval_rule m rest p
           | _ \<Rightarrow> None))"

fun eval_chain :: "(string \<Rightarrow> string \<Rightarrow> bool) \<Rightarrow> nft_expr list list \<Rightarrow> output_packet \<Rightarrow> bool" where
  "eval_chain m [] p = True"
| "eval_chain m (r # rs) p = (case eval_rule m r p of Some v \<Rightarrow> v | None \<Rightarrow> eval_chain m rs p)"

definition ex_nft :: "(string \<Rightarrow> string \<Rightarrow> bool) \<Rightarrow> nft" where
  "ex_nft m = \<lparr>nft_rule = eval_rule m, nft_chain = eval_chain m\<rparr>"

lemma ex_nft_laws: "nft_laws m (ex_nft m)"
  by (simp add: nft_laws_def ex_nft_def split: option.split)

definition ex_send :: "(string \<rightharpoonup> nft_expr list list) send_fn" where
  "ex_send k batch =
     (case batch of
        DelTable t # rest \<Rightarrow>
          if k t = None then (Inl (Operation ''No such file or directory (os error 2)''), k)
          else (Inr (), if rest = [] then k(t := None) else k(t \<mapsto> batch_rules rest))
      | AddTable t # rest \<Rightarrow> (Inr (), k(t \<mapsto> batch_rules rest))
      | _ \<Rightarrow> (Inr (), k))"

lemma batch_rules_map [simp]:
  "batch_rules (map AddRule rs) = rs" "batch_rules (AddTable t # b) = batch_rules b" "batch_rules (AddChain c prio pol # b) = batch_rules b"
  by (induction rs) (simp_all add: batch_rules_def)

lemma ex_send_transactions: "nft_transactions ex_send id"
  by (auto simp: nft_transactions_def ex_send_def split: if_splits)

lemma ex_missing: "is_missing_table_error (Operation ''No such file or directory (os error 2)'')"
  by code_simp

definition ex_spec :: kill_switch_spec where
  "ex_spec = \<lparr>ks_endpoint = SockV4 0xC6336409 51820, ks_tunnel_interface = Some ''tun1'', ks_uid = 1001\<rparr>"

definition ex_output :: "string \<Rightarrow> u8 \<Rightarrow> socket_addr \<Rightarrow> output_packet" where
  "ex_output interface protocol destination = \<lparr>op_uid = 1001, op_interface = interface, op_protocol = protocol, op_destination = Some destination\<rparr>"

lemma ex_batch: "\<exists>batch. build_batch ex_spec replace = Inr batch"
  by (simp add: build_batch_def ex_spec_def) (simp add: c_string_def)

section \<open>Properties\<close>

text \<open>
  C11. What the installed rules let out, for every packet, as netfilter compares interface names, by as many bytes as the rule gives:
  the tunnel's user sends only over interfaces whose names begin with \<^verbatim>\<open>lo\<close> or with the name of the tunnel interface, or UDP to exactly
  the address and port of the server; everybody else is free, except that TCP and UDP to port 53 leave only over such interfaces.
\<close>

theorem kill_switch_confines:
  assumes "nft_laws prefix_match nf" and "build_batch spec replace = Inr batch"
  shows "nft_chain nf (batch_rules batch) p \<longleftrightarrow>
    (let named = starts_with ''lo'' (op_interface p) \<or>
       (\<exists>tunnel. ks_tunnel_interface spec = Some tunnel \<and> starts_with tunnel (op_interface p))
     in if op_uid p = ks_uid spec then named \<or> (op_protocol p = 17 \<and> same_target (ks_endpoint spec) p)
        else \<not> is_dns p \<or> named)"
  unfolding chain_exact [OF assms] by (auto simp: trusted_interface_def prefix_match_def split: option.splits)

theorem kill_switch_confines_witness:
  "\<exists>batch. build_batch ex_spec True = Inr batch \<and>
     \<not> nft_chain (ex_nft prefix_match) (batch_rules batch) (ex_output ''eth0'' 17 (SockV4 1 53)) \<and>
     nft_chain (ex_nft prefix_match) (batch_rules batch) (ex_output ''eth0'' 17 (SockV4 0xC6336409 51820)) \<and>
     nft_chain (ex_nft prefix_match) (batch_rules batch) (ex_output ''tun1'' 6 (SockV4 1 443)) \<and>
     nft_chain (ex_nft prefix_match) (batch_rules batch) (ex_output ''tun10'' 6 (SockV4 1 443))"
proof -
  obtain batch where b: "build_batch ex_spec True = Inr batch" using ex_batch by blast
  note c = kill_switch_confines [OF ex_nft_laws [of prefix_match] b]
  show ?thesis using b by (simp add: c ex_output_def ex_spec_def same_target_def starts_with_def)
qed

text \<open>
  The batch implements the policy of the rules: if netfilter compared whole interface names, the chain would decide on every packet
  as \<^const>\<open>policy_allows\<close> decides on the list of rules.
\<close>

theorem kill_switch_implements_policy:
  assumes "nft_laws (=) nf" and "build_batch spec replace = Inr batch" and "unscoped (ks_endpoint spec)"
    and "\<And>d. op_destination p = Some d \<Longrightarrow> unscoped d"
  shows "nft_chain nf (batch_rules batch) p = policy_allows (output_rules spec) p"
proof -
  have "same_target (ks_endpoint spec) p \<longleftrightarrow> op_destination p = Some (ks_endpoint spec)"
    using unscoped_eq [OF _ assms(3)] assms(4) by (auto simp: same_target_def split: option.splits)
  then show ?thesis unfolding chain_exact [OF assms(1,2)] policy_exact by simp
qed

theorem kill_switch_implements_policy_witness:
  "\<exists>batch. build_batch ex_spec True = Inr batch \<and>
     nft_chain (ex_nft (=)) (batch_rules batch) (ex_output ''eth0'' 17 (SockV4 0xC6336409 51820)) =
       policy_allows (output_rules ex_spec) (ex_output ''eth0'' 17 (SockV4 0xC6336409 51820))"
proof -
  obtain batch where b: "build_batch ex_spec True = Inr batch" using ex_batch by blast
  from kill_switch_implements_policy [OF ex_nft_laws b, of "ex_output ''eth0'' 17 (SockV4 0xC6336409 51820)"] b
  show ?thesis by (simp add: ex_output_def ex_spec_def)
qed

text \<open>
  The kill switch leaks: netfilter compares as many bytes of an interface name as the rule gives, and the rules give names without
  the terminating zero. Every packet of the confined user leaves over any interface whose name only begins with \<^verbatim>\<open>lo\<close> or with the
  name of the tunnel interface, although the policy refuses it.
\<close>

theorem kill_switch_prefix_leak:
  assumes "nft_laws prefix_match nf" and "build_batch spec replace = Inr batch" and "op_uid p = ks_uid spec"
    and "ks_tunnel_interface spec = Some tunnel" and "op_interface p = tunnel @ ending" and "ending \<noteq> []" and "tunnel @ ending \<noteq> ''lo''"
    and "op_destination p \<noteq> Some (ks_endpoint spec)"
  shows "nft_chain nf (batch_rules batch) p \<and> \<not> policy_allows (output_rules spec) p"
  unfolding chain_exact [OF assms(1,2)] policy_exact using assms(3-8)
  by (auto simp: trusted_interface_def prefix_match_def starts_with_def)

theorem kill_switch_prefix_leak_witness:
  "\<exists>batch. build_batch ex_spec True = Inr batch \<and> nft_chain (ex_nft prefix_match) (batch_rules batch) (ex_output ''tun10'' 6 (SockV4 1 443)) \<and>
     \<not> policy_allows (output_rules ex_spec) (ex_output ''tun10'' 6 (SockV4 1 443))"
proof -
  obtain batch where b: "build_batch ex_spec True = Inr batch" using ex_batch by blast
  from kill_switch_prefix_leak [OF ex_nft_laws b, of "ex_output ''tun10'' 6 (SockV4 1 443)" "''tun1''" "''0''"] b
  show ?thesis by (simp add: ex_output_def ex_spec_def)
qed

text \<open>
  The kill switch is replaced without a gap: after \<^const>\<open>install\<close> the user's table holds either what it held or exactly the new
  rules, and the new rules if it reports success; the tables of other users are untouched. After \<^const>\<open>ks_remove\<close> reports success the
  table is gone.
\<close>

theorem kill_switch_replaced_atomically:
  assumes "nft_transactions send_batch installed" and "install send_batch spec k = (r, k1)" and "ks_remove send_batch uid k1 = (r', k2)"
  shows "installed k1 (table_name (ks_uid spec)) \<in> {installed k (table_name (ks_uid spec)), Some (installed_rules spec)} \<and>
    (r = Inr () \<longrightarrow> installed k1 (table_name (ks_uid spec)) = Some (installed_rules spec)) \<and>
    (\<forall>other. other \<noteq> ks_uid spec \<longrightarrow> installed k1 (table_name other) = installed k (table_name other)) \<and>
    (r' = Inr () \<longrightarrow> installed k2 (table_name uid) = None) \<and>
    (\<forall>other. other \<noteq> uid \<longrightarrow> installed k2 (table_name other) = installed k1 (table_name other))"
  using install_transaction [OF assms(1,2)] remove_transaction [OF assms(1,3)] table_name_inj by auto

theorem kill_switch_replaced_atomically_witness:
  "\<exists>k1 k2. install ex_send ex_spec Map.empty = (Inr (), k1) \<and> ks_remove ex_send 1001 k1 = (Inr (), k2) \<and>
     k1 (table_name 1001) = Some (installed_rules ex_spec) \<and> k2 (table_name 1001) = None"
proof -
  obtain b where b: "build_batch ex_spec True = Inr b" using ex_batch by blast
  obtain b2 where b2: "build_batch ex_spec False = Inr b2" using ex_batch by blast
  obtain k1 where i: "install ex_send ex_spec Map.empty = (Inr (), k1)"
    using b b2 build_batch_shape [OF b] build_batch_shape [OF b2]
    by (simp add: install_def send_built_def ex_send_def ex_missing)
  obtain r k2 where d: "ks_remove ex_send 1001 k1 = (r, k2)" by fastforce
  have "k1 (table_name 1001) = Some (installed_rules ex_spec)"
    using kill_switch_replaced_atomically [OF ex_send_transactions i d] by (simp add: ex_spec_def)
  moreover from this have "r = Inr ()" using d by (auto simp: ks_remove_def delete_table_def ex_send_def)
  ultimately show ?thesis using kill_switch_replaced_atomically [OF ex_send_transactions i d] i d by auto
qed

end
