(* ===== verification/Linux_Net.thy ===== *)
theory Linux_Net
  imports Kill_Switch Router
begin

text \<open>
  The Linux network backend, \<^verbatim>\<open>crates/rvpn-net/src/linux.rs\<close>: links, addresses and routes over rtnetlink, and DNS over NetworkManager,
  systemd-resolved or \<^verbatim>\<open>/etc/resolv.conf\<close>.

  The kernel, the D-Bus services and the file system are one abstract host state \<open>'k\<close>, and each request the code makes of them is
  a field of the record \<open>os\<close>: a query reads the state, a command returns a new one. Creating a D-Bus proxy and calling it is one
  request. The texts and octets of addresses, the network of a single address and the two halves of the IPv4 and of the IPv6 address
  space, which the code obtains by parsing texts, are fields of the record as well.
\<close>

section \<open>The host\<close>

record 'n route_spec =
  rs_destination :: 'n
  rs_gateway :: "ip_addr option"
  rs_interface_index :: "u32 option"
  rs_source :: "ip_addr option"

record best_route =
  br_interface_index :: u32
  br_gateway :: "ip_addr option"
  br_source :: "ip_addr option"

text \<open>A netlink route message, as far as the builder sets it, and the attributes of a route the kernel returns.\<close>

record 'n route_message =
  rm_destination :: 'n
  rm_gateway :: "ip_addr option"
  rm_pref_source :: "ip_addr option"
  rm_output_interface :: "u32 option"
  rm_scope_link :: bool

datatype route_attribute = Oif u32 | Gateway "ip_addr option" | PrefSource "ip_addr option" | Source "ip_addr option" | OtherAttribute

datatype 'n variant = VText string | VBool bool | VU32 u32 | VI32 int | VTexts "string list" | VAddresses "'n list"

type_synonym 'n settings = "(string \<times> (string \<times> 'n variant) list) list"

record tun_properties =
  tp_mode :: "string + string"
  tp_owner :: "string + int"
  tp_group :: "string + int"
  tp_no_pi :: "string + bool"
  tp_vnet_hdr :: "string + bool"
  tp_multi_queue :: "string + bool"

type_synonym ('k, 'a) command = "'k \<Rightarrow> (string + 'a) \<times> 'k"

record ('k, 'n) os =
  os_parsers :: "'n parsers"
  os_host_net :: "ip_addr \<Rightarrow> 'n"
  os_half_nets :: "bool \<Rightarrow> 'n list"
  os_ip_text :: "ip_addr \<Rightarrow> string"
  os_ip_octets :: "ip_addr \<Rightarrow> bytes"
  os_netlink :: "'k \<Rightarrow> string + unit"
  os_link :: "'k \<Rightarrow> string \<Rightarrow> string + u32 option"
  os_link_up :: "u32 \<Rightarrow> ('k, unit) command"
  os_address_add :: "u32 \<Rightarrow> 'n \<Rightarrow> ('k, unit) command"
  os_addresses :: "'k \<Rightarrow> u32 \<Rightarrow> string + 'n list"
  os_route_add :: "'n route_message \<Rightarrow> ('k, unit) command"
  os_route_del :: "'n route_message \<Rightarrow> ('k, unit) command"
  os_route_get :: "'k \<Rightarrow> ip_addr \<Rightarrow> string + route_attribute list option"
  os_send_batch :: "'k send_fn"
  os_read :: "'k \<Rightarrow> string \<Rightarrow> string option"
  os_exists :: "'k \<Rightarrow> string \<Rightarrow> bool"
  os_write :: "string \<Rightarrow> string \<Rightarrow> ('k, unit) command"
  os_remove_file :: "string \<Rightarrow> ('k, unit) command"
  os_system_bus :: "'k \<Rightarrow> string + unit"
  os_activatable :: "'k \<Rightarrow> string + string list"
  os_has_owner :: "'k \<Rightarrow> string \<Rightarrow> string + bool"
  os_nm_device :: "'k \<Rightarrow> string \<Rightarrow> string + string"
  os_nm_set_managed :: "string \<Rightarrow> bool \<Rightarrow> ('k, unit) command"
  os_nm_active :: "'k \<Rightarrow> string \<Rightarrow> string + string"
  os_nm_active_id :: "'k \<Rightarrow> string \<Rightarrow> string + string"
  os_nm_deactivate :: "string \<Rightarrow> ('k, unit) command"
  os_nm_tun :: "'k \<Rightarrow> string \<Rightarrow> tun_properties"
  os_nm_add_activate :: "'n settings \<Rightarrow> string \<Rightarrow> (string \<times> 'n variant) list \<Rightarrow> ('k, unit) command"
  os_nm_dns_mode :: "'k \<Rightarrow> string + string"
  os_resolved_set_dns :: "u32 \<Rightarrow> (int \<times> bytes) list \<Rightarrow> ('k, unit) command"
  os_resolved_set_domains :: "u32 \<Rightarrow> (string \<times> bool) list \<Rightarrow> ('k, unit) command"
  os_resolved_default_route :: "u32 \<Rightarrow> bool \<Rightarrow> ('k, unit) command"
  os_resolved_revert :: "u32 \<Rightarrow> ('k, unit) command"

text \<open>A fallible operation on the host, its sequencing, and the conversion of an external error.\<close>

type_synonym ('k, 'e, 'a) net_op = "'k \<Rightarrow> ('e + 'a) \<times> 'k"

definition seq :: "('k, 'e, 'a) net_op \<Rightarrow> ('a \<Rightarrow> ('k, 'e, 'b) net_op) \<Rightarrow> ('k, 'e, 'b) net_op" where
  "seq f g k = (case f k of (Inl e, k1) \<Rightarrow> (Inl e, k1) | (Inr a, k1) \<Rightarrow> g a k1)"

definition done_with :: "'a \<Rightarrow> ('k, 'e, 'a) net_op" where
  "done_with a k = (Inr a, k)"

definition fail_with :: "'e \<Rightarrow> ('k, 'e, 'a) net_op" where
  "fail_with e k = (Inl e, k)"

definition query :: "('k \<Rightarrow> 'e + 'a) \<Rightarrow> ('k, 'e, 'a) net_op" where
  "query q k = (q k, k)"

definition with_err :: "('e \<Rightarrow> 'f) \<Rightarrow> ('k, 'e, 'a) net_op \<Rightarrow> ('k, 'f, 'a) net_op" where
  "with_err h f k = (case f k of (r, k1) \<Rightarrow> (map_err h r, k1))"

definition ignoring :: "('k, 'e, 'a) net_op \<Rightarrow> ('k, 'f, unit) net_op" where
  "ignoring f k = (Inr (), snd (f k))"

fun for_each :: "('a \<Rightarrow> ('k, 'e, unit) net_op) \<Rightarrow> 'a list \<Rightarrow> ('k, 'e, unit) net_op" where
  "for_each f [] = done_with ()"
| "for_each f (x # xs) = seq (f x) (\<lambda>_. for_each f xs)"

abbreviation op_err :: "('k, string, 'a) net_op \<Rightarrow> ('k, net_error, 'a) net_op" where
  "op_err f \<equiv> with_err Operation f"

definition said :: "string \<Rightarrow> string \<Rightarrow> net_error" where
  "said context e = Operation (context @ '': '' @ e)"

section \<open>Links, addresses and routes\<close>

definition cidr :: "'n parsers \<Rightarrow> string \<Rightarrow> net_error + 'n" where
  "cidr ps value = ok_or (parse_net ps value) (InvalidPrefix value)"

definition system_net :: "('k, 'n) os \<Rightarrow> ('k, net_error, unit) net_op" where
  "system_net os = op_err (query (os_netlink os))"

definition link_index :: "('k, 'n) os \<Rightarrow> string \<Rightarrow> ('k, net_error, u32) net_op" where
  "link_index os name = seq (op_err (query (\<lambda>k. os_link os k name))) (\<lambda>link. query (\<lambda>_. ok_or link (InterfaceNotFound name)))"

definition set_link_up :: "('k, 'n) os \<Rightarrow> string \<Rightarrow> ('k, net_error, unit) net_op" where
  "set_link_up os name = seq (link_index os name) (\<lambda>index. op_err (os_link_up os index))"

definition add_address :: "('k, 'n) os \<Rightarrow> string \<Rightarrow> 'n \<Rightarrow> ('k, net_error, unit) net_op" where
  "add_address os name address = seq (link_index os name) (\<lambda>index. op_err (os_address_add os index address))"

fun is_v4 :: "ip_addr \<Rightarrow> bool" where
  "is_v4 (V4 _) = True"
| "is_v4 (V6 _) = False"

definition family_ok :: "bool \<Rightarrow> ip_addr option \<Rightarrow> string \<Rightarrow> net_error + unit" where
  "family_ok v4 addr what =
     (case addr of
        Some a \<Rightarrow>
          require (is_v4 a = v4)
            (Operation ((if v4 then ''IPv4 route cannot use an IPv6 '' else ''IPv6 route cannot use an IPv4 '') @ what))
      | None \<Rightarrow> Inr ())"

definition route_message_of :: "'n parsers \<Rightarrow> 'n route_spec \<Rightarrow> net_error + 'n route_message" where
  "route_message_of ps route =
     (let v4 = net_is_v4 ps (rs_destination route) in
      and_then (family_ok v4 (rs_gateway route) ''gateway'') (\<lambda>_.
      and_then (family_ok v4 (rs_source route) ''source'') (\<lambda>_.
        Inr \<lparr>rm_destination = rs_destination route, rm_gateway = rs_gateway route, rm_pref_source = rs_source route,
             rm_output_interface = rs_interface_index route,
             rm_scope_link = (rs_gateway route = None \<and> rs_interface_index route \<noteq> None)\<rparr>)))"

definition replace_route :: "('k, 'n) os \<Rightarrow> 'n route_spec \<Rightarrow> ('k, net_error, unit) net_op" where
  "replace_route os route =
     seq (query (\<lambda>_. route_message_of (os_parsers os) route)) (\<lambda>message.
     seq (ignoring (os_route_del os message)) (\<lambda>_.
       op_err (os_route_add os message)))"

definition delete_route :: "('k, 'n) os \<Rightarrow> 'n route_spec \<Rightarrow> ('k, net_error, unit) net_op" where
  "delete_route os route =
     seq (query (\<lambda>_. route_message_of (os_parsers os) route)) (\<lambda>message. op_err (os_route_del os message))"

fun read_attributes :: "route_attribute list \<Rightarrow> u32 option \<times> ip_addr option \<times> ip_addr option \<Rightarrow> u32 option \<times> ip_addr option \<times> ip_addr option" where
  "read_attributes [] found = found"
| "read_attributes (a # as) (index, gw, src) =
     read_attributes as
       (case a of
          Oif i \<Rightarrow> (Some i, gw, src)
        | Gateway g \<Rightarrow> (index, g, src)
        | PrefSource s \<Rightarrow> (index, gw, s)
        | Source s \<Rightarrow> (index, gw, s)
        | OtherAttribute \<Rightarrow> (index, gw, src))"

definition best_route_to :: "('k, 'n) os \<Rightarrow> ip_addr \<Rightarrow> ('k, net_error, best_route) net_op" where
  "best_route_to os destination =
     seq (op_err (query (\<lambda>k. os_route_get os k destination))) (\<lambda>route.
     seq (query (\<lambda>_. ok_or route (Operation (''no route to '' @ os_ip_text os destination)))) (\<lambda>attributes.
       case read_attributes attributes (None, None, None) of
         (Some index, gw, src) \<Rightarrow> done_with \<lparr>br_interface_index = index, br_gateway = gw, br_source = src\<rparr>
       | (None, _, _) \<Rightarrow> fail_with (Operation ''route has no output interface'')))"

definition install_kill_switch :: "('k, 'n) os \<Rightarrow> kill_switch_spec \<Rightarrow> ('k, net_error, unit) net_op" where
  "install_kill_switch os spec = install (os_send_batch os) spec"

definition remove_kill_switch :: "('k, 'n) os \<Rightarrow> u32 \<Rightarrow> ('k, net_error, unit) net_op" where
  "remove_kill_switch os uid = ks_remove (os_send_batch os) uid"

section \<open>Resolver configuration files\<close>

definition RESOLV_CONF_PATH :: string where "RESOLV_CONF_PATH = ''/etc/resolv.conf''"
definition RESOLV_CONF_BACKUP_PATH :: string where "RESOLV_CONF_BACKUP_PATH = ''/etc/resolv.conf.rvpn-backup''"
definition NETWORKMANAGER_CONF_PATH :: string where "NETWORKMANAGER_CONF_PATH = ''/etc/NetworkManager/NetworkManager.conf''"

definition newline :: string where "newline = [CHR 0x0A]"

definition resolv_conf_text :: "('k, 'n) os \<Rightarrow> ip_addr list \<Rightarrow> string" where
  "resolv_conf_text os servers =
     ''# Managed by RVPN (systemd-resolved unavailable)'' @ newline @ concat (map (\<lambda>server. ''nameserver '' @ os_ip_text os server @ newline) servers)"

definition set_dns_resolv_conf_fallback :: "('k, 'n) os \<Rightarrow> ip_addr list \<Rightarrow> ('k, net_error, unit) net_op" where
  "set_dns_resolv_conf_fallback os servers =
     seq (\<lambda>k.
       if \<not> os_exists os k RESOLV_CONF_BACKUP_PATH then
         (case os_read os k RESOLV_CONF_PATH of
            Some current \<Rightarrow> with_err (said ''backing up resolv.conf'') (os_write os RESOLV_CONF_BACKUP_PATH current) k
          | None \<Rightarrow> done_with () k)
       else done_with () k) (\<lambda>_.
     with_err (said ''writing resolv.conf'') (os_write os RESOLV_CONF_PATH (resolv_conf_text os servers)))"

definition revert_dns_resolv_conf_fallback :: "('k, 'n) os \<Rightarrow> ('k, net_error, unit) net_op" where
  "revert_dns_resolv_conf_fallback os k =
     (case os_read os k RESOLV_CONF_BACKUP_PATH of
        Some backup \<Rightarrow>
          seq (with_err (said ''restoring resolv.conf'') (os_write os RESOLV_CONF_PATH backup)) (\<lambda>_.
            ignoring (os_remove_file os RESOLV_CONF_BACKUP_PATH)) k
      | None \<Rightarrow> done_with () k)"

definition trim :: "string \<Rightarrow> string" where
  "trim s = rev (trim_start (rev (trim_start s)))"

definition text_lines :: "string \<Rightarrow> string list" where
  "text_lines s =
     (let parts = split_on (\<lambda>c. c = CHR 0x0A) s;
          kept = (if last parts = [] then butlast parts else parts)
      in map (\<lambda>l. if l \<noteq> [] \<and> last l = CHR 0x0D then butlast l else l) kept)"

fun split_once :: "char \<Rightarrow> string \<Rightarrow> (string \<times> string) option" where
  "split_once c [] = None"
| "split_once c (x # xs) = (if x = c then Some ([], xs) else map_option (\<lambda>(a, b). (x # a, b)) (split_once c xs))"

definition eq_ignore_ascii_case :: "string \<Rightarrow> string \<Rightarrow> bool" where
  "eq_ignore_ascii_case a b \<longleftrightarrow> to_ascii_lowercase a = to_ascii_lowercase b"

fun main_dns_default :: "bool \<Rightarrow> string list \<Rightarrow> bool" where
  "main_dns_default in_main [] = False"
| "main_dns_default in_main (raw_line # ls) =
     (let line = trim raw_line in
      if line = [] \<or> starts_with ''#'' line \<or> starts_with '';'' line then main_dns_default in_main ls
      else if starts_with ''['' line \<and> last line = CHR '']'' then main_dns_default (eq_ignore_ascii_case line ''[main]'') ls
      else if \<not> in_main then main_dns_default in_main ls
      else
        (case split_once (CHR ''='') line of
           Some (key, val) \<Rightarrow>
             if eq_ignore_ascii_case (trim key) ''dns'' \<and> eq_ignore_ascii_case (trim val) ''default'' then True
             else main_dns_default in_main ls
         | None \<Rightarrow> main_dns_default in_main ls))"

definition network_manager_manages_dns :: "('k, 'n) os \<Rightarrow> 'k \<Rightarrow> bool" where
  "network_manager_manages_dns os k =
     (case os_read os k NETWORKMANAGER_CONF_PATH of None \<Rightarrow> False | Some contents \<Rightarrow> main_dns_default False (text_lines contents))"

section \<open>NetworkManager\<close>

definition NM_SERVICE :: string where "NM_SERVICE = ''org.freedesktop.NetworkManager''"
definition RESOLVED_SERVICE :: string where "RESOLVED_SERVICE = ''org.freedesktop.resolve1''"

definition network_manager_service_available :: "('k, 'n) os \<Rightarrow> 'k \<Rightarrow> bool" where
  "network_manager_service_available os k = (case os_has_owner os k NM_SERVICE of Inr b \<Rightarrow> b | Inl _ \<Rightarrow> False)"

definition networkmanager_client_tun_available :: "('k, 'n) os \<Rightarrow> 'k \<Rightarrow> bool" where
  "networkmanager_client_tun_available os k \<longleftrightarrow>
     network_manager_manages_dns os k \<and> is_ok (os_system_bus os k) \<and> network_manager_service_available os k"

definition set_networkmanager_device_managed :: "('k, 'n) os \<Rightarrow> string \<Rightarrow> ('k, net_error, unit) net_op" where
  "set_networkmanager_device_managed os name =
     seq (with_err (said (''NetworkManager does not know native interface '' @ name)) (query (\<lambda>k. os_nm_device os k name))) (\<lambda>device.
       with_err (said (''NetworkManager could not mark interface '' @ name @ '' managed'')) (os_nm_set_managed os device True))"

text \<open>Deactivate the active connection of a device if its profile has the given identifier.\<close>

definition deactivate_profile :: "('k, 'n) os \<Rightarrow> string \<Rightarrow> string \<Rightarrow> ('k, net_error, unit) net_op" where
  "deactivate_profile os profile name k =
     (case os_nm_device os k name of
        Inl _ \<Rightarrow> done_with () k
      | Inr device \<Rightarrow>
          seq (op_err (query (\<lambda>k. os_nm_active os k device))) (\<lambda>active.
            if active = ''/'' then done_with ()
            else
              seq (op_err (query (\<lambda>k. os_nm_active_id os k active))) (\<lambda>ident.
                if ident \<noteq> profile then done_with () else op_err (os_nm_deactivate os active))) k)"

definition deactivate_networkmanager_client_tun_on_bus :: "('k, 'n) os \<Rightarrow> string \<Rightarrow> ('k, net_error, unit) net_op" where
  "deactivate_networkmanager_client_tun_on_bus os name = deactivate_profile os (''RVPN Client '' @ name) name"

definition deactivate_networkmanager_client_tun :: "('k, 'n) os \<Rightarrow> string \<Rightarrow> ('k, net_error, unit) net_op" where
  "deactivate_networkmanager_client_tun os name =
     seq (op_err (query (os_system_bus os))) (\<lambda>_. deactivate_networkmanager_client_tun_on_bus os name)"

definition revert_dns_networkmanager :: "('k, 'n) os \<Rightarrow> string \<Rightarrow> ('k, net_error, unit) net_op" where
  "revert_dns_networkmanager os name = deactivate_profile os (''RVPN DNS '' @ name) name"

definition connection_settings :: "string \<Rightarrow> string \<Rightarrow> (string \<times> 'n variant) list" where
  "connection_settings ident name =
     [(''id'', VText ident), (''type'', VText ''tun''), (''interface-name'', VText name), (''autoconnect'', VBool False)]"

definition dns_settings :: "('k, 'n) os \<Rightarrow> ip_addr list \<Rightarrow> (string \<times> 'n variant) list" where
  "dns_settings os servers =
     [(''dns-data'', VTexts (map (os_ip_text os) servers)), (''dns-priority'', VI32 (- 1)), (''ignore-auto-dns'', VBool True)]"

definition client_ip_settings :: "('k, 'n) os \<Rightarrow> bool \<Rightarrow> 'n list \<Rightarrow> ip_addr list \<Rightarrow> (string \<times> 'n variant) list" where
  "client_ip_settings os v4 addresses dns_servers =
     (let addrs = filter (\<lambda>a. net_is_v4 (os_parsers os) a = v4) addresses;
          dns = filter (\<lambda>a. is_v4 a = v4) dns_servers
      in [(''method'', VText (if addrs = [] \<and> (\<forall>a \<in> set dns_servers. is_v4 a \<noteq> v4) then ''disabled'' else ''manual''))] @
         (if addrs \<noteq> [] then [(''address-data'', VAddresses addrs)] else []) @
         (if dns \<noteq> [] then dns_settings os dns else []))"

definition create_networkmanager_client_tun ::
  "('k, 'n) os \<Rightarrow> string \<Rightarrow> u32 \<Rightarrow> u32 \<Rightarrow> u32 \<Rightarrow> 'n list \<Rightarrow> ip_addr list \<Rightarrow> ('k, net_error, unit) net_op" where
  "create_networkmanager_client_tun os name mode owner_uid group_gid addresses dns_servers =
     seq (op_err (query (os_system_bus os))) (\<lambda>_.
     seq (query (\<lambda>k. require (network_manager_service_available os k) (Operation ''NetworkManager D-Bus service is unavailable''))) (\<lambda>_ k.
       let settings =
             [(''connection'', connection_settings (''RVPN Client '' @ name) name),
              (''tun'', [(''mode'', VU32 mode), (''owner'', VText (dec (unat owner_uid))), (''group'', VText (dec (unat group_gid))), (''pi'', VBool False)]),
              (''ipv4'', client_ip_settings os True addresses dns_servers),
              (''ipv6'', client_ip_settings os False addresses dns_servers)];
           options = [(''persist'', VText ''volatile''), (''bind-activation'', VText ''dbus-client'')]
       in case os_nm_add_activate os settings ''/'' options k of
            (Inr _, k1) \<Rightarrow> (Inr (), k1)
          | (Inl e, k1) \<Rightarrow>
              (Inl (said (''NetworkManager failed to create RVPN client device '' @ name) e),
               snd (deactivate_networkmanager_client_tun_on_bus os name k1))))"

definition is_networkmanager_unmanaged_error :: "net_error \<Rightarrow> bool" where
  "is_networkmanager_unmanaged_error e =
     (case e of
        Operation m \<Rightarrow>
          (let message = to_ascii_lowercase m in
           contains ''strictly unmanaged'' message \<or> contains ''not available on device'' message \<or>
           contains ''could not enable management'' message \<or> contains ''left rvpn interface'' message)
      | _ \<Rightarrow> False)"

text \<open>The tunnel settings of a temporary profile mirror those of the live device.\<close>

definition mirror_tun :: "string \<Rightarrow> tun_properties \<Rightarrow> net_error + (string \<times> 'n variant) list" where
  "mirror_tun name tp =
     and_then (map_err Operation (tp_mode tp)) (\<lambda>mode.
     and_then (map_err Operation (tp_owner tp)) (\<lambda>owner.
     and_then (map_err Operation (tp_group tp)) (\<lambda>group.
     and_then (map_err Operation (tp_no_pi tp)) (\<lambda>no_pi.
     and_then (map_err Operation (tp_vnet_hdr tp)) (\<lambda>vnet_hdr.
     and_then (map_err Operation (tp_multi_queue tp)) (\<lambda>multi_queue.
     and_then
       (if mode = ''tun'' then Inr 1 else if mode = ''tap'' then Inr 2
        else Inl (Operation (''NetworkManager reported unsupported TUN mode '' @ quoted mode @ '' for '' @ name))) (\<lambda>m.
       Inr ([(''mode'', VU32 m)] @
         (if owner \<ge> 0 then [(''owner'', VText (dec (nat owner)))] else []) @
         (if group \<ge> 0 then [(''group'', VText (dec (nat group)))] else []) @
         [(''pi'', VBool (\<not> no_pi)), (''vnet-hdr'', VBool vnet_hdr), (''multi-queue'', VBool multi_queue)]))))))))"

definition dns_ip_settings :: "('k, 'n) os \<Rightarrow> bool \<Rightarrow> 'n list \<Rightarrow> ip_addr list \<Rightarrow> 'n settings" where
  "dns_ip_settings os v4 addresses servers =
     (let dns = filter (\<lambda>a. is_v4 a = v4) servers in
      if dns = [] then []
      else [(if v4 then ''ipv4'' else ''ipv6'',
             [(''method'', VText ''manual''), (''address-data'', VAddresses (filter (\<lambda>a. net_is_v4 (os_parsers os) a = v4) addresses))] @ dns_settings os dns)])"

definition set_dns_networkmanager :: "('k, 'n) os \<Rightarrow> string \<Rightarrow> ip_addr list \<Rightarrow> ('k, net_error, unit) net_op" where
  "set_dns_networkmanager os name servers =
     seq (ignoring (revert_dns_networkmanager os name)) (\<lambda>_.
     seq (with_err (said (''NetworkManager does not know about interface '' @ name @ '' yet'')) (query (\<lambda>k. os_nm_device os k name))) (\<lambda>device.
     seq (link_index os name) (\<lambda>index.
     seq (op_err (query (\<lambda>k. os_addresses os k index))) (\<lambda>addresses.
     seq (query (\<lambda>_. require (servers \<noteq> []) (Operation ''no DNS servers to configure via NetworkManager''))) (\<lambda>_.
     seq (query (\<lambda>k. mirror_tun name (os_nm_tun os k device))) (\<lambda>tun_settings.
       with_err (said (''NetworkManager AddAndActivateConnection2 failed for RVPN DNS profile on '' @ name))
         (os_nm_add_activate os
           ([(''connection'', connection_settings (''RVPN DNS '' @ name) name), (''tun'', tun_settings)] @
            dns_ip_settings os True addresses servers @ dns_ip_settings os False addresses servers) device []))))))) "

section \<open>The system resolver\<close>

definition resolved_service_available :: "('k, 'n) os \<Rightarrow> 'k \<Rightarrow> bool" where
  "resolved_service_available os k = (case os_activatable os k of Inr names \<Rightarrow> RESOLVED_SERVICE \<in> set names | Inl _ \<Rightarrow> False)"

definition resolved_service_has_owner :: "('k, 'n) os \<Rightarrow> 'k \<Rightarrow> bool" where
  "resolved_service_has_owner os k = (case os_has_owner os k RESOLVED_SERVICE of Inr b \<Rightarrow> b | Inl _ \<Rightarrow> False)"

definition set_dns_resolved :: "('k, 'n) os \<Rightarrow> string \<Rightarrow> ip_addr list \<Rightarrow> ('k, net_error, unit) net_op" where
  "set_dns_resolved os name servers =
     seq (link_index os name) (\<lambda>index.
     seq (with_err (said (''systemd-resolved SetDNS failed for interface '' @ name))
           (os_resolved_set_dns os index (map (\<lambda>a. (if is_v4 a then 2 else 10, os_ip_octets os a)) servers))) (\<lambda>_.
     seq (with_err (said (''systemd-resolved SetDomains failed for interface '' @ name)) (os_resolved_set_domains os index [(''~.'', True)])) (\<lambda>_.
       with_err (said (''systemd-resolved SetDefaultRoute failed for interface '' @ name)) (os_resolved_default_route os index True))))"

definition revert_dns_resolved :: "('k, 'n) os \<Rightarrow> string \<Rightarrow> ('k, net_error, unit) net_op" where
  "revert_dns_resolved os name =
     seq (link_index os name) (\<lambda>index.
       with_err (said (''systemd-resolved Revert failed for interface '' @ name)) (os_resolved_revert os index))"

section \<open>Choosing a resolver\<close>

text \<open>Try an operation; on an error go on with the next.\<close>

definition or_else :: "('k, 'e, unit) net_op \<Rightarrow> ('k, 'f, unit) net_op \<Rightarrow> ('k, 'f, unit) net_op" where
  "or_else f g k = (case f k of (Inr _, k1) \<Rightarrow> (Inr (), k1) | (Inl _, k1) \<Rightarrow> g k1)"

definition set_dns_native :: "('k, 'n) os \<Rightarrow> string \<Rightarrow> ip_addr list \<Rightarrow> ('k, net_error, unit) net_op" where
  "set_dns_native os name servers k =
     (let connection = is_ok (os_system_bus os k);
          files = set_dns_resolv_conf_fallback os servers;
          resolved = (\<lambda>k. if connection \<and> resolved_service_available os k then or_else (set_dns_resolved os name servers) files k else files k)
      in if network_manager_manages_dns os k \<and> connection \<and> network_manager_service_available os k
         then seq (ignoring (set_networkmanager_device_managed os name)) (\<lambda>_. or_else (set_dns_networkmanager os name servers) resolved) k
         else resolved k)"

definition revert_dns_native :: "('k, 'n) os \<Rightarrow> string \<Rightarrow> ('k, net_error, unit) net_op" where
  "revert_dns_native os name k =
     (let connection = is_ok (os_system_bus os k) in
      seq (\<lambda>k. if network_manager_manages_dns os k \<and> connection \<and> network_manager_service_available os k
               then ignoring (revert_dns_networkmanager os name) k else done_with () k) (\<lambda>_.
      seq (\<lambda>k. if connection \<and> resolved_service_has_owner os k then ignoring (revert_dns_resolved os name) k else done_with () k) (\<lambda>_.
        revert_dns_resolv_conf_fallback os)) k)"

definition set_dns :: "('k, 'n) os \<Rightarrow> string \<Rightarrow> ip_addr list \<Rightarrow> ('k, net_error, unit) net_op" where
  "set_dns os name servers k =
     (if network_manager_manages_dns os k \<and> is_ok (os_system_bus os k) \<and> network_manager_service_available os k then
        (case set_dns_networkmanager os name servers k of
           (Inr _, k1) \<Rightarrow> (Inr (), k1)
         | (Inl e, k1) \<Rightarrow> if is_networkmanager_unmanaged_error e then set_dns_resolv_conf_fallback os servers k1 else (Inl e, k1))
      else if \<not> is_ok (os_system_bus os k) then set_dns_resolv_conf_fallback os servers k
      else if \<not> resolved_service_available os k then set_dns_resolv_conf_fallback os servers k
      else
        seq (\<lambda>k. if is_ok (os_nm_dns_mode os k) then ignoring (revert_dns_networkmanager os name) k else done_with () k) (\<lambda>_.
          set_dns_resolved os name servers) k)"

definition revert_dns :: "('k, 'n) os \<Rightarrow> string \<Rightarrow> ('k, net_error, unit) net_op" where
  "revert_dns os name k =
     (if \<not> is_ok (os_system_bus os k) then revert_dns_resolv_conf_fallback os k
      else if network_manager_manages_dns os k then
        (case revert_dns_resolv_conf_fallback os k of
           (files, k1) \<Rightarrow>
             (case revert_dns_networkmanager os name k1 of
                (Inl e, k2) \<Rightarrow> (Inl e, k2)
              | (Inr _, k2) \<Rightarrow> (files, k2)))
      else if \<not> resolved_service_has_owner os k then revert_dns_resolv_conf_fallback os k
      else seq (ignoring (revert_dns_networkmanager os name)) (\<lambda>_. revert_dns_resolved os name) k)"

section \<open>What operations leave alone\<close>

definition keeps :: "('k \<Rightarrow> 'v) \<Rightarrow> ('k, 'e, 'a) net_op \<Rightarrow> bool" where
  "keeps v f \<longleftrightarrow> (\<forall>k. v (snd (f k)) = v k)"

lemma keepsD: "keeps v f \<Longrightarrow> v (snd (f k)) = v k"
  by (simp add: keeps_def)

lemma keeps_pair: "keeps v f \<Longrightarrow> f k = (r, k') \<Longrightarrow> v k' = v k"
  using keepsD [of v f k] by simp

lemma seq_cases:
  assumes "seq f g k = (r, k')"
  obtains (failed) e where "f k = (Inl e, k')" and "r = Inl e" | (went_on) a k1 where "f k = (Inr a, k1)" and "g a k1 = (r, k')"
  using assms by (auto simp: seq_def split: prod.splits sum.splits)

lemma keeps_basic [intro, simp]: "keeps v (done_with a)" "keeps v (fail_with e)" "keeps v (query q)"
  by (simp_all add: keeps_def done_with_def fail_with_def query_def)

lemma keeps_seq [intro]: "keeps v f \<Longrightarrow> (\<And>a. keeps v (g a)) \<Longrightarrow> keeps v (seq f g)"
  by (auto simp: keeps_def seq_def split: prod.split sum.split) (metis snd_conv)+

lemma keeps_with_err [intro]: "keeps v f \<Longrightarrow> keeps v (with_err h f)"
  by (auto simp: keeps_def with_err_def split: prod.split) (metis snd_conv)

lemma keeps_ignoring [intro]: "keeps v f \<Longrightarrow> keeps v (ignoring f)"
  by (simp add: keeps_def ignoring_def)

lemma keeps_for_each [intro]: "(\<And>x. keeps v (f x)) \<Longrightarrow> keeps v (for_each f xs)"
  by (induction xs) auto

lemma keeps_or_else [intro]: "keeps v f \<Longrightarrow> keeps v g \<Longrightarrow> keeps v (or_else f g)"
  by (auto simp: keeps_def or_else_def split: prod.split sum.split) (metis snd_conv)+

lemma keeps_if [intro]: "keeps v f \<Longrightarrow> keeps v g \<Longrightarrow> keeps v (if b then f else g)"
  by simp

text \<open>A view of the host that only routes and packet filters may change.\<close>

definition quiet_commands :: "('k, 'n) os \<Rightarrow> ('k \<Rightarrow> 'v) \<Rightarrow> bool" where
  "quiet_commands os v \<longleftrightarrow>
     (\<forall>i. keeps v (os_link_up os i)) \<and> (\<forall>i a. keeps v (os_address_add os i a)) \<and> (\<forall>p t. keeps v (os_write os p t)) \<and> (\<forall>p. keeps v (os_remove_file os p)) \<and>
     (\<forall>d b. keeps v (os_nm_set_managed os d b)) \<and> (\<forall>a. keeps v (os_nm_deactivate os a)) \<and> (\<forall>s d opts. keeps v (os_nm_add_activate os s d opts)) \<and>
     (\<forall>i d. keeps v (os_resolved_set_dns os i d)) \<and> (\<forall>i d. keeps v (os_resolved_set_domains os i d)) \<and>
     (\<forall>i b. keeps v (os_resolved_default_route os i b)) \<and> (\<forall>i. keeps v (os_resolved_revert os i))"

lemma quiet_commandsD:
  assumes "quiet_commands os v"
  shows "keeps v (os_link_up os i)" "keeps v (os_address_add os i a)" "keeps v (os_write os p t)" "keeps v (os_remove_file os p)"
    "keeps v (os_nm_set_managed os d b)" "keeps v (os_nm_deactivate os p)" "keeps v (os_nm_add_activate os st d opts)"
    "keeps v (os_resolved_set_dns os i servers)" "keeps v (os_resolved_set_domains os i domains)" "keeps v (os_resolved_default_route os i b)"
    "keeps v (os_resolved_revert os i)"
  using assms unfolding quiet_commands_def by simp_all

lemma keeps_links:
  assumes "quiet_commands os v"
  shows "keeps v (system_net os)" "keeps v (link_index os name)" "keeps v (set_link_up os name)" "keeps v (add_address os name a)" "keeps v (best_route_to os ip)"
  unfolding system_net_def link_index_def set_link_up_def add_address_def best_route_to_def
  using quiet_commandsD [OF assms] by (auto intro!: keeps_seq keeps_with_err split: prod.split option.split)

lemma keepsI: "(\<And>k. v (snd (h k)) = v k) \<Longrightarrow> keeps v h"
  by (simp add: keeps_def)

lemma keeps_files:
  assumes "quiet_commands os v"
  shows "keeps v (set_dns_resolv_conf_fallback os servers)" "keeps v (revert_dns_resolv_conf_fallback os)"
proof -
  note q = quiet_commandsD(3,4) [OF assms]
  show "keeps v (set_dns_resolv_conf_fallback os servers)"
    unfolding set_dns_resolv_conf_fallback_def
    by (intro keeps_seq keeps_with_err q keepsI) (auto split: option.split intro: keepsD keeps_with_err q)
  show "keeps v (revert_dns_resolv_conf_fallback os)"
    unfolding revert_dns_resolv_conf_fallback_def
    by (rule keepsI) (auto split: option.split intro!: keepsD keeps_seq keeps_with_err keeps_ignoring q)
qed

lemma keeps_networkmanager:
  assumes "quiet_commands os v"
  shows "keeps v (deactivate_profile os profile name)" "keeps v (set_networkmanager_device_managed os name)" "keeps v (set_dns_networkmanager os name servers)"
proof -
  note q = quiet_commandsD [OF assms]
  show p: "keeps v (deactivate_profile os profile name)" for profile name
    unfolding deactivate_profile_def by (rule keepsI) (auto split: sum.split intro!: keepsD keeps_seq keeps_with_err q)
  show "keeps v (set_networkmanager_device_managed os name)"
    unfolding set_networkmanager_device_managed_def by (intro keeps_seq keeps_with_err keeps_basic q)
  show "keeps v (set_dns_networkmanager os name servers)"
    unfolding set_dns_networkmanager_def revert_dns_networkmanager_def
    by (intro keeps_seq keeps_with_err keeps_basic keeps_ignoring q p keeps_links(2) [OF assms])
qed

lemma keeps_resolved:
  assumes "quiet_commands os v"
  shows "keeps v (set_dns_resolved os name servers)" "keeps v (revert_dns_resolved os name)"
  unfolding set_dns_resolved_def revert_dns_resolved_def
  by (intro keeps_seq keeps_with_err keeps_links(2) [OF assms] quiet_commandsD [OF assms])+

lemma keeps_native_dns:
  assumes "quiet_commands os v"
  shows "keeps v (set_dns_native os name servers)" "keeps v (revert_dns_native os name)" "keeps v (deactivate_networkmanager_client_tun os name)"
proof -
  note d = keeps_files [OF assms] keeps_networkmanager [OF assms] keeps_resolved [OF assms]
  have r: "keeps v (\<lambda>k. if b k then or_else (set_dns_resolved os name servers) (set_dns_resolv_conf_fallback os servers) k
      else set_dns_resolv_conf_fallback os servers k)" for b
    by (rule keepsI) (auto intro: keepsD keeps_or_else d)
  show "keeps v (set_dns_native os name servers)"
    unfolding set_dns_native_def Let_def
    by (rule keepsI) (auto intro!: keepsD keeps_seq keeps_ignoring keeps_or_else d r simp del: split_paired_All)
  show "keeps v (revert_dns_native os name)"
    unfolding revert_dns_native_def Let_def revert_dns_networkmanager_def
    by (rule keepsI, rule keepsD, intro keeps_seq keepsI d) (auto intro: keepsD keeps_ignoring d)
  show "keeps v (deactivate_networkmanager_client_tun os name)"
    unfolding deactivate_networkmanager_client_tun_def deactivate_networkmanager_client_tun_on_bus_def
    by (intro keeps_seq keeps_with_err keeps_basic d)
qed

section \<open>Routes and files\<close>

text \<open>
  The routing table as a view of the host: what adding and deleting a route does, that other requests leave it alone, and that a
  lookup gives the interface and the gateway of the longest prefix when there is one.
\<close>

definition route_laws :: "('k, 'n) os \<Rightarrow> 'n net_ops \<Rightarrow> ('k \<Rightarrow> 'n route_message set) \<Rightarrow> bool" where
  "route_laws os ops table \<longleftrightarrow>
     quiet_commands os table \<and> (\<forall>batch. keeps table (\<lambda>k. os_send_batch os k batch)) \<and>
     (\<forall>m k r k'. os_route_add os m k = (r, k') \<longrightarrow> table k' = (if r = Inr () then insert m (table k) else table k)) \<and>
     (\<forall>m k r k'. os_route_del os m k = (r, k') \<longrightarrow> table k' = (if r = Inr () then table k - {m} else table k)) \<and>
     (\<forall>m k ip. m \<in> table k \<longrightarrow> net_contains ops (rm_destination m) ip \<longrightarrow>
        (\<forall>m' \<in> table k. net_contains ops (rm_destination m') ip \<longrightarrow> m' \<noteq> m \<longrightarrow> net_prefix_len ops (rm_destination m') < net_prefix_len ops (rm_destination m)) \<longrightarrow>
        (\<exists>attributes src. os_route_get os k ip = Inr (Some attributes) \<and> read_attributes attributes (None, None, None) = (rm_output_interface m, rm_gateway m, src)))"

lemma route_lawsD:
  assumes "route_laws os ops table"
  shows "quiet_commands os table" "keeps table (\<lambda>k. os_send_batch os k batch)"
    "os_route_add os m k = (r, k') \<Longrightarrow> table k' = (if r = Inr () then insert m (table k) else table k)"
    "os_route_del os m k = (r, k') \<Longrightarrow> table k' = (if r = Inr () then table k - {m} else table k)"
    "m \<in> table k \<Longrightarrow> net_contains ops (rm_destination m) ip \<Longrightarrow>
       (\<And>m'. m' \<in> table k \<Longrightarrow> net_contains ops (rm_destination m') ip \<Longrightarrow> m' \<noteq> m \<Longrightarrow> net_prefix_len ops (rm_destination m') < net_prefix_len ops (rm_destination m)) \<Longrightarrow>
       \<exists>attributes src. os_route_get os k ip = Inr (Some attributes) \<and> read_attributes attributes (None, None, None) = (rm_output_interface m, rm_gateway m, src)"
  using assms unfolding route_laws_def by blast+

lemma keeps_kill_switch:
  assumes "\<And>batch. keeps v (\<lambda>k. os_send_batch os k batch)"
  shows "keeps v (install_kill_switch os spec)" "keeps v (remove_kill_switch os uid)"
proof -
  have s: "v (snd (os_send_batch os k batch)) = v k" for k batch using assms by (simp add: keeps_def)
  show "keeps v (install_kill_switch os spec)"
    unfolding install_kill_switch_def install_def send_built_def
    by (rule keepsI) (auto split: sum.split prod.split, (metis s snd_conv)+)
  show "keeps v (remove_kill_switch os uid)"
    unfolding remove_kill_switch_def ks_remove_def delete_table_def
    by (rule keepsI) (auto split: sum.split prod.split, (metis s snd_conv)+)
qed

lemma keeps_route_ops:
  assumes "\<And>m. keeps v (os_route_add os m)" and "\<And>m. keeps v (os_route_del os m)"
  shows "keeps v (replace_route os route)" "keeps v (delete_route os route)"
  unfolding replace_route_def delete_route_def by (intro keeps_seq keeps_ignoring keeps_with_err keeps_basic assms)+

lemma best_route_longest:
  assumes "route_laws os ops table" and "m \<in> table k" and "net_contains ops (rm_destination m) ip" and "rm_output_interface m = Some index"
    and "\<And>m'. m' \<in> table k \<Longrightarrow> net_contains ops (rm_destination m') ip \<Longrightarrow> m' \<noteq> m \<Longrightarrow> net_prefix_len ops (rm_destination m') < net_prefix_len ops (rm_destination m)"
  shows "\<exists>src. best_route_to os ip k = (Inr \<lparr>br_interface_index = index, br_gateway = rm_gateway m, br_source = src\<rparr>, k)"
proof -
  obtain attributes src where "os_route_get os k ip = Inr (Some attributes)"
    "read_attributes attributes (None, None, None) = (Some index, rm_gateway m, src)"
    using route_lawsD(5) [OF assms(1,2,3,5)] assms(4) by auto
  then show ?thesis by (simp add: best_route_to_def seq_def query_def with_err_def ok_or_def done_with_def)
qed

text \<open>A message the code sends is of one family, and is on the link exactly when it has an interface and no gateway.\<close>

lemma route_message_family:
  assumes "route_message_of ps route = Inr m"
  shows "rm_destination m = rs_destination route" "rm_gateway m = rs_gateway route" "rm_output_interface m = rs_interface_index route" "rm_pref_source m = rs_source route"
    "rm_gateway m = Some g \<Longrightarrow> is_v4 g = net_is_v4 ps (rm_destination m)" "rm_pref_source m = Some a \<Longrightarrow> is_v4 a = net_is_v4 ps (rm_destination m)"
    "rm_scope_link m \<longleftrightarrow> rm_gateway m = None \<and> rm_output_interface m \<noteq> None"
  using assms by (auto simp: route_message_of_def family_ok_def Let_def split: option.splits)

text \<open>Files: a successful write or removal does what it says, and a file exists when it can be read.\<close>

definition file_laws :: "('k, 'n) os \<Rightarrow> bool" where
  "file_laws os \<longleftrightarrow>
     (\<forall>k p. os_exists os k p \<longleftrightarrow> os_read os k p \<noteq> None) \<and>
     (\<forall>p t k k'. os_write os p t k = (Inr (), k') \<longrightarrow> os_read os k' = (os_read os k)(p \<mapsto> t)) \<and>
     (\<forall>p k r k'. os_remove_file os p k = (r, k') \<longrightarrow> os_read os k' = (os_read os k)(p := None) \<or> os_read os k' = os_read os k)"

lemma file_lawsD:
  assumes "file_laws os"
  shows "os_exists os k p \<longleftrightarrow> os_read os k p \<noteq> None" "os_write os p t k = (Inr (), k') \<Longrightarrow> os_read os k' = (os_read os k)(p \<mapsto> t)"
    "os_remove_file os p k = (r, k') \<Longrightarrow> os_read os k' = (os_read os k)(p := None) \<or> os_read os k' = os_read os k"
  using assms unfolding file_laws_def by blast+

lemma with_err_ok: "with_err h f k = (Inr a, k') \<longleftrightarrow> f k = (Inr a, k')"
  by (auto simp: with_err_def split: prod.splits)

lemma paths_differ [simp]: "RESOLV_CONF_PATH \<noteq> RESOLV_CONF_BACKUP_PATH" "RESOLV_CONF_BACKUP_PATH \<noteq> RESOLV_CONF_PATH"
  by (simp_all add: RESOLV_CONF_PATH_def RESOLV_CONF_BACKUP_PATH_def)

text \<open>The original is in the backup, or still in place.\<close>

definition original_kept :: "('k, 'n) os \<Rightarrow> string \<Rightarrow> 'k \<Rightarrow> bool" where
  "original_kept os original k \<longleftrightarrow>
     os_read os k RESOLV_CONF_BACKUP_PATH = Some original \<or> (os_read os k RESOLV_CONF_BACKUP_PATH = None \<and> os_read os k RESOLV_CONF_PATH = Some original)"

lemma fallback_step:
  assumes "file_laws os" and "original_kept os original k" and "set_dns_resolv_conf_fallback os servers k = (Inr (), k')"
  shows "os_read os k' RESOLV_CONF_BACKUP_PATH = Some original" "os_read os k' RESOLV_CONF_PATH = Some (resolv_conf_text os servers)"
proof -
  note F = file_lawsD [OF assms(1)]
  obtain k1 where first: "os_read os k1 RESOLV_CONF_BACKUP_PATH = Some original"
    and wr: "os_write os RESOLV_CONF_PATH (resolv_conf_text os servers) k1 = (Inr (), k')"
    using assms(3) unfolding set_dns_resolv_conf_fallback_def
  proof (cases rule: seq_cases)
    case (went_on a k1)
    have "os_read os k1 RESOLV_CONF_BACKUP_PATH = Some original"
      using went_on(1) assms(2) F(1) F(2) [of RESOLV_CONF_BACKUP_PATH original k k1]
      by (auto simp: original_kept_def with_err_ok done_with_def split: if_splits)
    then show ?thesis using that went_on(2) by (simp add: with_err_ok)
  qed simp
  show "os_read os k' RESOLV_CONF_BACKUP_PATH = Some original" "os_read os k' RESOLV_CONF_PATH = Some (resolv_conf_text os servers)"
    using F(2) [OF wr] first by simp_all
qed

lemma fallback_run:
  assumes "file_laws os" and "original_kept os original k" and "for_each (set_dns_resolv_conf_fallback os) updates k = (Inr (), k')"
  shows "original_kept os original k' \<and> (updates \<noteq> [] \<longrightarrow> os_read os k' RESOLV_CONF_PATH = Some (resolv_conf_text os (last updates)))"
  using assms(2,3)
proof (induction updates arbitrary: k)
  case (Cons u us)
  from Cons(3) obtain k1 where s: "set_dns_resolv_conf_fallback os u k = (Inr (), k1)" "for_each (set_dns_resolv_conf_fallback os) us k1 = (Inr (), k')"
    by (auto elim!: seq_cases)
  have "original_kept os original k1" using fallback_step(1) [OF assms(1) Cons(2) s(1)] by (simp add: original_kept_def)
  then show ?case using Cons.IH [OF _ s(2)] fallback_step(2) [OF assms(1) Cons(2) s(1)] s(2) by (auto simp: done_with_def)
qed (simp add: done_with_def)

section \<open>An example host\<close>

record ex_host =
  eh_files :: "string \<rightharpoonup> string"
  eh_tables :: "string \<rightharpoonup> nft_expr list list"
  eh_routes :: "(ip_addr \<times> nat) route_message list"

fun ex_contains :: "ip_addr \<times> nat \<Rightarrow> ip_addr \<Rightarrow> bool" where
  "ex_contains (V4 net, n) (V4 ip) \<longleftrightarrow> drop_bit (32 - n) net = drop_bit (32 - n) ip"
| "ex_contains (V6 net, n) (V6 ip) \<longleftrightarrow> drop_bit (128 - n) net = drop_bit (128 - n) ip"
| "ex_contains _ _ = False"

definition ex_net_ops :: "(ip_addr \<times> nat) net_ops" where
  "ex_net_ops = \<lparr>net_contains = ex_contains, net_prefix_len = \<lambda>net. of_nat (snd net)\<rparr>"

definition ex_lookup :: "(ip_addr \<times> nat) route_message list \<Rightarrow> ip_addr \<Rightarrow> (ip_addr \<times> nat) route_message option" where
  "ex_lookup ms ip =
     List.find (\<lambda>m. ex_contains (rm_destination m) ip \<and>
       (\<forall>m' \<in> set ms. ex_contains (rm_destination m') ip \<longrightarrow> net_prefix_len ex_net_ops (rm_destination m') \<le> net_prefix_len ex_net_ops (rm_destination m))) ms"

definition nothing :: "('k, unit) command" where
  "nothing k = (Inr (), k)"

definition ex_parsers :: "(ip_addr \<times> nat) parsers" where
  "ex_parsers = plain_parsers\<lparr>net_is_v4 := is_v4 \<circ> fst, parse_ip := (\<lambda>s. if s = ''10.0.0.1'' then Some (V4 0x0A000001) else None)\<rparr>"

definition ex_os :: "(ex_host, ip_addr \<times> nat) os" where
  "ex_os =
     \<lparr>os_parsers = ex_parsers, os_host_net = \<lambda>ip. (ip, if is_v4 ip then 32 else 128),
      os_half_nets = \<lambda>v6. if v6 then [(V6 0, 1), (V6 (push_bit 127 1), 1)] else [(V4 0, 1), (V4 0x80000000, 1)],
      os_ip_text = \<lambda>_. ''192.0.2.1'', os_ip_octets = \<lambda>_. [], os_netlink = \<lambda>_. Inr (),
      os_link = \<lambda>_ name. Inr (if name = ''tun1'' then Some 7 else None), os_link_up = \<lambda>_. nothing, os_address_add = \<lambda>_ _. nothing,
      os_addresses = \<lambda>_ _. Inr [],
      os_route_add = \<lambda>m k. (Inr (), k\<lparr>eh_routes := m # eh_routes k\<rparr>),
      os_route_del = \<lambda>m k. if m \<in> set (eh_routes k) then (Inr (), k\<lparr>eh_routes := filter (\<lambda>m'. m' \<noteq> m) (eh_routes k)\<rparr>) else (Inl ''No such process'', k),
      os_route_get = \<lambda>k ip. Inr (map_option (\<lambda>m. (case rm_output_interface m of Some i \<Rightarrow> [Oif i] | None \<Rightarrow> []) @ [Gateway (rm_gateway m)]) (ex_lookup (eh_routes k) ip)),
      os_send_batch = \<lambda>k batch. (case ex_send (eh_tables k) batch of (r, tables) \<Rightarrow> (r, k\<lparr>eh_tables := tables\<rparr>)),
      os_read = eh_files, os_exists = \<lambda>k p. eh_files k p \<noteq> None, os_write = \<lambda>p t k. (Inr (), k\<lparr>eh_files := (eh_files k)(p \<mapsto> t)\<rparr>),
      os_remove_file = \<lambda>p k. (Inr (), k\<lparr>eh_files := (eh_files k)(p := None)\<rparr>),
      os_system_bus = \<lambda>_. Inl ''no bus'', os_activatable = \<lambda>_. Inr [], os_has_owner = \<lambda>_ _. Inr False, os_nm_device = \<lambda>_ _. Inl ''none'',
      os_nm_set_managed = \<lambda>_ _. nothing, os_nm_active = \<lambda>_ _. Inl ''none'', os_nm_active_id = \<lambda>_ _. Inl ''none'', os_nm_deactivate = \<lambda>_. nothing,
      os_nm_tun = \<lambda>_ _. \<lparr>tp_mode = Inl [], tp_owner = Inl [], tp_group = Inl [], tp_no_pi = Inl [], tp_vnet_hdr = Inl [], tp_multi_queue = Inl []\<rparr>,
      os_nm_add_activate = \<lambda>_ _ _. nothing, os_nm_dns_mode = \<lambda>_. Inl ''none'', os_resolved_set_dns = \<lambda>_ _. nothing, os_resolved_set_domains = \<lambda>_ _. nothing,
      os_resolved_default_route = \<lambda>_ _. nothing, os_resolved_revert = \<lambda>_. nothing\<rparr>"

lemma ex_lookup_longest:
  assumes "m \<in> set ms" and "ex_contains (rm_destination m) ip"
    and "\<And>m'. m' \<in> set ms \<Longrightarrow> ex_contains (rm_destination m') ip \<Longrightarrow> m' \<noteq> m \<Longrightarrow>
      net_prefix_len ex_net_ops (rm_destination m') < net_prefix_len ex_net_ops (rm_destination m)"
  shows "ex_lookup ms ip = Some m"
proof -
  let ?P = "\<lambda>m. ex_contains (rm_destination m) ip \<and>
       (\<forall>m' \<in> set ms. ex_contains (rm_destination m') ip \<longrightarrow> net_prefix_len ex_net_ops (rm_destination m') \<le> net_prefix_len ex_net_ops (rm_destination m))"
  have "net_prefix_len ex_net_ops (rm_destination m') \<le> net_prefix_len ex_net_ops (rm_destination m)" if "m' \<in> set ms" "ex_contains (rm_destination m') ip" for m'
    using assms(3) [OF that] by (cases "m' = m") (simp_all add: order.strict_implies_order)
  then have "?P m" using assms(2) by blast
  then have "List.find ?P ms \<noteq> None" using assms(1) by (auto simp: find_None_iff)
  then obtain m1 where m1: "List.find ?P ms = Some m1" by blast
  then have "m1 \<in> set ms" "?P m1" using find_SomeD by fastforce+
  then have "m1 = m" using assms by (meson linorder_not_less)
  then show ?thesis using m1 by (simp add: ex_lookup_def)
qed

lemma ex_quiet:
  "quiet_commands ex_os eh_tables" "quiet_commands ex_os eh_routes" "quiet_commands ex_os (\<lambda>k. set (eh_routes k))"
  by (simp_all add: quiet_commands_def ex_os_def keeps_def nothing_def)

lemma ex_routes: "route_laws ex_os ex_net_ops (\<lambda>k. set (eh_routes k))"
  unfolding route_laws_def
proof (intro conjI allI impI)
  fix m and k :: ex_host and ip
  assume a: "m \<in> set (eh_routes k)" "net_contains ex_net_ops (rm_destination m) ip"
    "\<forall>m'\<in>set (eh_routes k). net_contains ex_net_ops (rm_destination m') ip \<longrightarrow> m' \<noteq> m \<longrightarrow>
       net_prefix_len ex_net_ops (rm_destination m') < net_prefix_len ex_net_ops (rm_destination m)"
  have "ex_lookup (eh_routes k) ip = Some m" using ex_lookup_longest [of m "eh_routes k" ip] a by (simp add: ex_net_ops_def)
  then show "\<exists>attributes src. os_route_get ex_os k ip = Inr (Some attributes) \<and> read_attributes attributes (None, None, None) = (rm_output_interface m, rm_gateway m, src)"
    by (auto simp: ex_os_def split: option.splits)
qed (use ex_quiet(3) in \<open>auto simp: ex_os_def keeps_def split: prod.splits if_splits\<close>)

lemma ex_files: "file_laws ex_os"
  by (simp add: file_laws_def ex_os_def)

lemma ex_transactions: "nft_transactions (os_send_batch ex_os) eh_tables"
  using ex_send_transactions unfolding nft_transactions_def
  by (auto simp: ex_os_def simp del: fun_upd_apply split: prod.splits)

section \<open>Properties\<close>

text \<open>
  C33. The resolver configuration survives the tunnel: however often the DNS servers are set through \<^verbatim>\<open>/etc/resolv.conf\<close>, the file holds the servers
  set last while the tunnel is up, and reverting brings back exactly the contents it had before the first change.
\<close>

theorem resolv_conf_restored:
  assumes "file_laws os" and "os_read os k RESOLV_CONF_PATH = Some original" and "os_read os k RESOLV_CONF_BACKUP_PATH = None"
    and "for_each (set_dns_resolv_conf_fallback os) updates k = (Inr (), k1)" and "revert_dns_resolv_conf_fallback os k1 = (Inr (), k2)"
  shows "(updates \<noteq> [] \<longrightarrow> os_read os k1 RESOLV_CONF_PATH = Some (resolv_conf_text os (last updates))) \<and> os_read os k2 RESOLV_CONF_PATH = Some original"
proof -
  have run: "original_kept os original k1" "updates \<noteq> [] \<longrightarrow> os_read os k1 RESOLV_CONF_PATH = Some (resolv_conf_text os (last updates))"
    using fallback_run [OF assms(1) _ assms(4), of original] assms(2,3) by (simp_all add: original_kept_def)
  show ?thesis
  proof (cases "os_read os k1 RESOLV_CONF_BACKUP_PATH")
    case None
    then show ?thesis using assms(5) run by (auto simp: revert_dns_resolv_conf_fallback_def original_kept_def done_with_def)
  next
    case (Some backup)
    then obtain k' where w: "os_write os RESOLV_CONF_PATH original k1 = (Inr (), k')" and r: "snd (os_remove_file os RESOLV_CONF_BACKUP_PATH k') = k2"
      using assms(5) run(1) by (auto simp: revert_dns_resolv_conf_fallback_def original_kept_def with_err_ok ignoring_def elim!: seq_cases)
    then show ?thesis
      using run(2) file_lawsD(2) [OF assms(1) w] file_lawsD(3) [OF assms(1), of RESOLV_CONF_BACKUP_PATH k' "fst (os_remove_file os RESOLV_CONF_BACKUP_PATH k')" k2]
      by (auto simp: prod_eq_iff)
  qed
qed

definition ex_host_start :: ex_host where
  "ex_host_start = \<lparr>eh_files = [RESOLV_CONF_PATH \<mapsto> ''nameserver 9.9.9.9''], eh_tables = Map.empty, eh_routes = []\<rparr>"

theorem resolv_conf_restored_witness:
  "\<exists>k1 k2. for_each (set_dns_resolv_conf_fallback ex_os) [[V4 1], [V4 2]] ex_host_start = (Inr (), k1) \<and>
     revert_dns_resolv_conf_fallback ex_os k1 = (Inr (), k2) \<and> os_read ex_os k2 RESOLV_CONF_PATH = Some ''nameserver 9.9.9.9''"
proof -
  obtain k1 where k1: "for_each (set_dns_resolv_conf_fallback ex_os) [[V4 1], [V4 2]] ex_host_start = (Inr (), k1)"
    by (simp add: set_dns_resolv_conf_fallback_def seq_def ex_os_def with_err_def done_with_def ex_host_start_def)
  obtain k2 where k2: "revert_dns_resolv_conf_fallback ex_os k1 = (Inr (), k2)"
    by (cases "eh_files k1 RESOLV_CONF_BACKUP_PATH") (simp_all add: revert_dns_resolv_conf_fallback_def seq_def ex_os_def with_err_def done_with_def ignoring_def)
  have "os_read ex_os ex_host_start RESOLV_CONF_PATH = Some ''nameserver 9.9.9.9''" "os_read ex_os ex_host_start RESOLV_CONF_BACKUP_PATH = None"
    by (simp_all add: ex_os_def ex_host_start_def)
  from resolv_conf_restored [OF ex_files this k1 k2] k1 k2 show ?thesis by blast
qed

end
