(* ===== verification/Virtual_Interface.thy ===== *)
theory Virtual_Interface
  imports Text_Codec Transport_Base
begin

text \<open>
  Virtual network devices, \<^verbatim>\<open>crates/rvpn-interface/src\<close>: the device configuration, its errors, and the Linux device of
  \<^verbatim>\<open>platform/linux.rs\<close>. Results of system calls are arguments: one for each step of opening a device, and a list of outcomes for the loops
  that read and write packets.
\<close>

section \<open>Configuration and errors\<close>

definition DEFAULT_MTU :: u16 where "DEFAULT_MTU = 1400"
definition MIN_MTU :: u16 where "MIN_MTU = 576"
definition LINUX_IF_NAME_MAX :: nat where "LINUX_IF_NAME_MAX = 15"

record tun_config =
  tc_name :: "string option"
  tc_mtu :: u16
  tc_mode :: device_mode

definition tun_config_default :: tun_config where
  "tun_config_default = \<lparr>tc_name = None, tc_mtu = DEFAULT_MTU, tc_mode = Tun\<rparr>"

datatype interface_error =
    UnsupportedPlatform
  | UnsupportedMode device_mode
  | InvalidInterfaceName
  | InvalidMtu u16
  | InvalidIpPacket
  | InvalidEthernetFrame
  | PacketTooLarge nat u16
  | PartialWrite nat nat
  | InterfaceIo io_error

fun is_fatal :: "interface_error \<Rightarrow> bool" where
  "is_fatal (InterfaceIo _) = True"
| "is_fatal UnsupportedPlatform = True"
| "is_fatal _ = False"

definition tun_config_validate :: "tun_config \<Rightarrow> interface_error + unit" where
  "tun_config_validate c =
     (if tc_mtu c < MIN_MTU then Inl (InvalidMtu (tc_mtu c))
      else case tc_name c of
        Some name \<Rightarrow> if name = [] \<or> length name > LINUX_IF_NAME_MAX \<or> CHR 0x00 \<in> set name then Inl InvalidInterfaceName else Inr ()
      | None \<Rightarrow> Inr ())"

section \<open>Interface requests\<close>

definition IFNAMSIZ :: nat where "IFNAMSIZ = 16"
definition IFREQ_UNION_SIZE :: nat where "IFREQ_UNION_SIZE = 24"

record ifreq =
  if_name :: "char list"
  if_data :: bytes

definition ifreq_new :: "string option \<Rightarrow> ifreq" where
  "ifreq_new name =
     (let zero = replicate IFNAMSIZ (CHR 0x00) in
      \<lparr>if_name = (case name of Some n \<Rightarrow> take IFNAMSIZ n @ drop (length n) zero | None \<Rightarrow> zero), if_data = replicate IFREQ_UNION_SIZE 0\<rparr>)"

definition assigned_name :: "ifreq \<Rightarrow> interface_error + string" where
  "assigned_name req =
     (let bs = takeWhile (\<lambda>c. c \<noteq> CHR 0x00) (if_name req)
      in if is_utf8 bs then Inr bs else Inl InvalidInterfaceName)"

section \<open>The device\<close>

record virtual_interface =
  vi_name :: string
  vi_mtu :: u16
  vi_mode :: device_mode

text \<open>The flags of the TUN request: a TAP or a TUN device without packet information.\<close>

definition tun_flags :: "device_mode \<Rightarrow> u16" where
  "tun_flags mode = (case mode of Tap \<Rightarrow> 0x1002 | Tun \<Rightarrow> 0x1001 | Both \<Rightarrow> 0x1001)"

text \<open>Writing a 16-bit value in the byte order of the machine at the start of the request.\<close>

definition with_flags :: "ifreq \<Rightarrow> u16 \<Rightarrow> ifreq" where
  "with_flags req flags = req\<lparr>if_data := [ucast flags, ucast (drop_bit 8 flags)] @ drop 2 (if_data req)\<rparr>"

text \<open>What the system calls of opening a device give: opening the control file, the TUN request with the name the kernel assigns, setting the
  owner, setting the MTU, and registering the file.\<close>

record device_calls =
  dc_open :: "io_error + unit"
  dc_set_iff :: "ifreq \<Rightarrow> io_error + ifreq"
  dc_set_owner :: "io_error + unit"
  dc_set_mtu :: "string \<Rightarrow> u16 \<Rightarrow> io_error + unit"
  dc_register :: "io_error + unit"

definition vi_create :: "device_calls \<Rightarrow> tun_config \<Rightarrow> interface_error + virtual_interface" where
  "vi_create calls c =
     and_then (tun_config_validate c) (\<lambda>_.
     and_then (map_err InterfaceIo (dc_open calls)) (\<lambda>_.
     and_then (map_err InterfaceIo (dc_set_iff calls (with_flags (ifreq_new (tc_name c)) (tun_flags (tc_mode c))))) (\<lambda>req.
     and_then (map_err InterfaceIo (dc_set_owner calls)) (\<lambda>_.
     and_then (assigned_name req) (\<lambda>name.
     and_then (map_err InterfaceIo (dc_set_mtu calls name (tc_mtu c))) (\<lambda>_.
     and_then (map_err InterfaceIo (dc_register calls)) (\<lambda>_.
       Inr \<lparr>vi_name = name, vi_mtu = tc_mtu c, vi_mode = tc_mode c\<rparr>)))))))"

definition vi_attach :: "device_calls \<Rightarrow> tun_config \<Rightarrow> interface_error + virtual_interface" where
  "vi_attach calls c =
     and_then (tun_config_validate c) (\<lambda>_.
     and_then (ok_or (tc_name c) InvalidInterfaceName) (\<lambda>name.
     and_then (map_err InterfaceIo (dc_open calls)) (\<lambda>_.
     and_then (map_err InterfaceIo (dc_set_iff calls (with_flags (ifreq_new (Some name)) (tun_flags (tc_mode c))))) (\<lambda>req.
     and_then (assigned_name req) (\<lambda>assigned.
     and_then (require (assigned = name) InvalidInterfaceName) (\<lambda>_.
     and_then (map_err InterfaceIo (dc_set_mtu calls name (tc_mtu c))) (\<lambda>_.
     and_then (map_err InterfaceIo (dc_register calls)) (\<lambda>_.
       Inr \<lparr>vi_name = name, vi_mtu = tc_mtu c, vi_mode = tc_mode c\<rparr>))))))))"

text \<open>The MTU in the error for a frame is computed in 16 bits; it wraps as in a release build, where a build with overflow checks would panic.\<close>

definition validate_packet :: "bytes \<Rightarrow> u16 \<Rightarrow> device_mode \<Rightarrow> interface_error + unit" where
  "validate_packet packet mtu mode =
     (case mode of
        Tun \<Rightarrow>
          if length packet > unat mtu then Inl (PacketTooLarge (length packet) mtu)
          else (case packet of
                  b # _ \<Rightarrow> if drop_bit 4 b = 4 \<or> drop_bit 4 b = 6 then Inr () else Inl InvalidIpPacket
                | [] \<Rightarrow> Inl InvalidIpPacket)
      | _ \<Rightarrow>
          if length packet < 14 then Inl InvalidEthernetFrame
          else if length packet > unat mtu + 18 then Inl (PacketTooLarge (length packet) (mtu + 18))
          else Inr ())"

text \<open>Outcomes of a read: not ready after all, an error, or the bytes of a packet, of which the buffer takes its capacity. A device that
  stays silent gives no result.\<close>

datatype read_outcome = NotReady | ReadFailed io_error | ReadPacket bytes

definition max_packet_len :: "virtual_interface \<Rightarrow> nat" where
  "max_packet_len dev = (if vi_mode dev = Tap then unat (vi_mtu dev) + 18 else unat (vi_mtu dev))"

fun vi_recv :: "virtual_interface \<Rightarrow> read_outcome list \<Rightarrow> (interface_error + bytes) option" where
  "vi_recv dev [] = None"
| "vi_recv dev (NotReady # rest) = vi_recv dev rest"
| "vi_recv dev (ReadFailed e # rest) = Some (Inl (InterfaceIo e))"
| "vi_recv dev (ReadPacket packet # rest) =
     (let buffer = take (max_packet_len dev + 1) packet in
      Some (if length buffer > max_packet_len dev then Inl (PacketTooLarge (length buffer) (of_nat (max_packet_len dev)))
            else and_then (validate_packet buffer (vi_mtu dev) (vi_mode dev)) (\<lambda>_. Inr buffer)))"

datatype write_outcome = WriteNotReady | WriteFailed io_error | Written nat

fun send_loop :: "bytes \<Rightarrow> write_outcome list \<Rightarrow> (interface_error + unit) option" where
  "send_loop packet [] = None"
| "send_loop packet (WriteNotReady # rest) = send_loop packet rest"
| "send_loop packet (WriteFailed e # rest) = Some (Inl (InterfaceIo e))"
| "send_loop packet (Written n # rest) = Some (if n = length packet then Inr () else Inl (PartialWrite n (length packet)))"

definition vi_send :: "virtual_interface \<Rightarrow> bytes \<Rightarrow> write_outcome list \<Rightarrow> (interface_error + unit) option" where
  "vi_send dev packet outcomes =
     (case validate_packet packet (vi_mtu dev) (vi_mode dev) of Inl e \<Rightarrow> Some (Inl e) | Inr _ \<Rightarrow> send_loop packet outcomes)"

section \<open>Facts\<close>

text \<open>A valid name survives the request.\<close>

lemma assigned_name_new:
  assumes "tun_config_validate c = Inr ()" and "tc_name c = Some name" and "is_utf8 name"
  shows "assigned_name (ifreq_new (Some name)) = Inr name"
proof -
  have n: "length name \<le> 15" "CHR 0x00 \<notin> set name"
    using assms(1,2) by (auto simp: tun_config_validate_def LINUX_IF_NAME_MAX_def split: if_splits)
  have "takeWhile (\<lambda>c. c \<noteq> CHR 0x00) (name @ replicate (IFNAMSIZ - length name) (CHR 0x00)) = name"
    using n by (subst takeWhile_append2) (auto simp: IFNAMSIZ_def takeWhile_eq_Nil_iff)
  then show ?thesis using n assms(3) by (simp add: assigned_name_def ifreq_new_def IFNAMSIZ_def)
qed

lemma validate_packet_Inr:
  "validate_packet packet mtu mode = Inr u \<longleftrightarrow>
     (if mode = Tun then length packet \<le> unat mtu \<and> packet \<noteq> [] \<and> (drop_bit 4 (hd packet) = 4 \<or> drop_bit 4 (hd packet) = 6)
      else 14 \<le> length packet \<and> length packet \<le> unat mtu + 18)"
  by (cases mode) (auto simp: validate_packet_def split: list.splits)

lemma vi_recv_Inr:
  "vi_recv dev outcomes = Some (Inr packet) \<Longrightarrow>
     ReadPacket packet \<in> set outcomes \<and> length packet \<le> max_packet_len dev \<and> validate_packet packet (vi_mtu dev) (vi_mode dev) = Inr ()"
  by (induction dev outcomes rule: vi_recv.induct) (auto simp: Let_def split: if_splits)

text \<open>A packet of a device: an IP packet within the MTU for a TUN device, an Ethernet frame within the MTU and its header for a TAP device.\<close>

definition device_packet :: "virtual_interface \<Rightarrow> bytes \<Rightarrow> bool" where
  "device_packet dev packet \<longleftrightarrow>
     (if vi_mode dev = Tun
      then packet \<noteq> [] \<and> length packet \<le> unat (vi_mtu dev) \<and> (drop_bit 4 (hd packet) = 4 \<or> drop_bit 4 (hd packet) = 6)
      else 14 \<le> length packet \<and> length packet \<le> unat (vi_mtu dev) + 18)"

lemma send_loop_Inr: "send_loop packet outcomes = Some (Inr u) \<Longrightarrow> Written (length packet) \<in> set outcomes"
  by (induction packet outcomes rule: send_loop.induct) (auto split: if_splits)

section \<open>Properties\<close>

text \<open>
  C31. Devices exchange only well-formed packets: what a receive returns was read whole from the device and is a packet of its mode within its
  MTU, and what a send reports as sent is such a packet and was written whole. A read that the buffer would truncate is
  an error, never a shortened packet.
\<close>

theorem device_packets_valid:
  "(vi_recv dev reads = Some (Inr packet) \<longrightarrow> device_packet dev packet \<and> ReadPacket packet \<in> set reads) \<and>
   (vi_send dev packet writes = Some (Inr ()) \<longrightarrow> device_packet dev packet \<and> Written (length packet) \<in> set writes)"
proof -
  have v: "validate_packet packet (vi_mtu dev) (vi_mode dev) = Inr () \<longleftrightarrow> device_packet dev packet"
    by (auto simp: validate_packet_Inr device_packet_def)
  have "vi_send dev packet writes = Some (Inr ()) \<Longrightarrow> validate_packet packet (vi_mtu dev) (vi_mode dev) = Inr () \<and> send_loop packet writes = Some (Inr ())"
    by (simp add: vi_send_def split: sum.splits)
  then show ?thesis using vi_recv_Inr [of dev reads packet] send_loop_Inr [of packet writes] v by blast
qed

theorem device_packets_valid_witness:
  "let dev = \<lparr>vi_name = ''tun1'', vi_mtu = 1400, vi_mode = Tun\<rparr>
   in vi_recv dev [NotReady, ReadPacket [0x45, 0]] = Some (Inr [0x45, 0]) \<and> vi_send dev [0x45, 0] [WriteNotReady, Written 2] = Some (Inr ()) \<and>
      device_packet dev [0x45, 0]"
proof -
  let ?dev = "\<lparr>vi_name = ''tun1'', vi_mtu = 1400, vi_mode = Tun\<rparr>"
  have "vi_recv ?dev [NotReady, ReadPacket [0x45, 0]] = Some (Inr [0x45, 0])" "vi_send ?dev [0x45, 0] [WriteNotReady, Written 2] = Some (Inr ())"
    by (simp_all add: max_packet_len_def validate_packet_def vi_send_def)
  then show ?thesis using device_packets_valid [of ?dev "[NotReady, ReadPacket [0x45, 0]]" "[0x45, 0]" "[WriteNotReady, Written 2]"] by simp
qed

end
