(* ===== verification/Client_Network.thy ===== *)
theory Client_Network
  imports Linux_Net Virtual_Interface
begin

text \<open>
  The host network of the client, \<^verbatim>\<open>apps/rvpn-client/src/platform/linux_network.rs\<close>: creating the devices, the kill switch before and during the
  connection, addresses, routes and DNS, moving to a new server address, and undoing it all.
\<close>

section \<open>Errors\<close>

datatype client_error =
    Context string client_error
  | FromNet net_error
  | FromInterface interface_error
  | FromConfig config_error
  | Bail string

definition net :: "('k, net_error, 'a) net_op \<Rightarrow> ('k, client_error, 'a) net_op" where
  "net f = with_err FromNet f"

definition context_of :: "string \<Rightarrow> ('k, net_error, 'a) net_op \<Rightarrow> ('k, client_error, 'a) net_op" where
  "context_of c f = with_err (\<lambda>e. Context c (FromNet e)) f"

section \<open>Devices\<close>

definition client_interface_name :: "nat \<Rightarrow> string option \<Rightarrow> bool \<Rightarrow> string" where
  "client_interface_name pid configured tap =
     (case configured of
        Some name \<Rightarrow> if tap then take 11 name @ ''-tap'' else name
      | None \<Rightarrow> (if tap then ''rvpt'' else ''rvpn'') @ dec (pid mod 1000000000))"

text \<open>Creating a device changes the host, and so does closing one.\<close>

record 'k device_ops =
  dev_create :: "tun_config \<Rightarrow> ('k, interface_error, virtual_interface) net_op"
  dev_close :: "virtual_interface \<Rightarrow> 'k \<Rightarrow> 'k"

definition create_native_client_devices ::
  "'k device_ops \<Rightarrow> device_mode \<Rightarrow> u16 \<Rightarrow> string \<Rightarrow> string option \<Rightarrow> ('k, client_error, virtual_interface option \<times> virtual_interface option) net_op" where
  "create_native_client_devices ops mode mtu tun_name tap_name =
     seq (if mode = Tap then done_with None
          else seq (with_err FromInterface (dev_create ops \<lparr>tc_name = Some tun_name, tc_mtu = mtu, tc_mode = Tun\<rparr>)) (\<lambda>d. done_with (Some d))) (\<lambda>tun.
       if mode = Tun then done_with (tun, None)
       else (\<lambda>k.
         case (case tap_name of
                 None \<Rightarrow> (Inl (Bail ''missing configured TAP interface name''), k)
               | Some name \<Rightarrow> with_err FromInterface (dev_create ops \<lparr>tc_name = Some name, tc_mtu = mtu, tc_mode = Tap\<rparr>) k) of
           (Inr tap, k1) \<Rightarrow> (Inr (tun, Some tap), k1)
         | (Inl e, k1) \<Rightarrow> (Inl e, case tun of Some d \<Rightarrow> dev_close ops d k1 | None \<Rightarrow> k1)))"

definition create_client_devices ::
  "'k device_ops \<Rightarrow> nat \<Rightarrow> client_config \<Rightarrow> device_mode \<Rightarrow> u16 \<Rightarrow> ('k, client_error, virtual_interface option \<times> virtual_interface option) net_op" where
  "create_client_devices ops pid config mode mtu =
     (let tun_name = client_interface_name pid (ic_name (cc_interface config)) False;
          tap_name = (case ic_tap_name (cc_interface config) of
                        Some n \<Rightarrow> Some n
                      | None \<Rightarrow> if mode = Tap then Some tun_name else Some (client_interface_name pid (Some tun_name) True))
      in create_native_client_devices ops mode mtu tun_name tap_name)"

section \<open>The kill switch\<close>

definition full_tunnel :: "client_config \<Rightarrow> bool" where
  "full_tunnel config \<longleftrightarrow> default_route (cc_routing config) \<or> default_route_v6 (cc_routing config)"

definition install_bootstrap_kill_switch :: "('k, 'n) os \<Rightarrow> u32 \<Rightarrow> client_config \<Rightarrow> socket_addr \<Rightarrow> ('k, client_error, bool) net_op" where
  "install_bootstrap_kill_switch os uid config endpoint =
     (if \<not> full_tunnel config then done_with False
      else
        seq (context_of ''opening Linux networking backend'' (system_net os)) (\<lambda>_.
        seq (context_of ''installing Linux bootstrap kill switch''
              (install_kill_switch os \<lparr>ks_endpoint = endpoint, ks_tunnel_interface = None, ks_uid = uid\<rparr>)) (\<lambda>_.
          done_with True)))"

definition remove_bootstrap_kill_switch :: "('k, 'n) os \<Rightarrow> u32 \<Rightarrow> ('k, client_error, unit) net_op" where
  "remove_bootstrap_kill_switch os uid =
     seq (context_of ''opening Linux networking backend'' (system_net os)) (\<lambda>_.
       context_of ''removing Linux bootstrap kill switch'' (remove_kill_switch os uid))"

section \<open>Configuring the network\<close>

definition interface_addresses :: "interface_config \<Rightarrow> string list" where
  "interface_addresses c = (case ic_address c of Some a \<Rightarrow> [a] | None \<Rightarrow> []) @ ic_addresses c"

fun first_address :: "'n parsers \<Rightarrow> bool \<Rightarrow> string list \<Rightarrow> ip_addr option" where
  "first_address ps ipv6 [] = None"
| "first_address ps ipv6 (c # cs) =
     (case parse_ip ps (hd (split_on (\<lambda>ch. ch = CHR ''/'') c)) of
        Some a \<Rightarrow> if is_v4 a \<noteq> ipv6 then Some a else first_address ps ipv6 cs
      | None \<Rightarrow> first_address ps ipv6 cs)"

definition tunnel_source :: "('k, 'n) os \<Rightarrow> client_config \<Rightarrow> bool \<Rightarrow> client_error + ip_addr" where
  "tunnel_source os config ipv6 =
     ok_or (first_address (os_parsers os) ipv6 (interface_addresses (cc_interface config)))
       (Bail (''default '' @ (if ipv6 then ''IPv6'' else ''IPv4'') @ '' routing requires an address of the same family on the tunnel interface''))"

definition on_link :: "'n \<Rightarrow> u32 \<Rightarrow> ip_addr option \<Rightarrow> 'n route_spec" where
  "on_link destination index src = \<lparr>rs_destination = destination, rs_gateway = None, rs_interface_index = Some index, rs_source = src\<rparr>"

definition server_route :: "('k, 'n) os \<Rightarrow> socket_addr \<Rightarrow> best_route \<Rightarrow> 'n route_spec" where
  "server_route os server best =
     \<lparr>rs_destination = os_host_net os (sock_ip server), rs_gateway = br_gateway best, rs_interface_index = Some (br_interface_index best), rs_source = None\<rparr>"

definition preserve_server_route :: "('k, 'n) os \<Rightarrow> socket_addr \<Rightarrow> ('k, client_error, unit) net_op" where
  "preserve_server_route os server =
     seq (net (best_route_to os (sock_ip server))) (\<lambda>best.
       context_of ''preserving physical route to RVPN server'' (replace_route os (server_route os server best)))"

definition add_addresses :: "('k, 'n) os \<Rightarrow> string \<Rightarrow> string list \<Rightarrow> ('k, client_error, unit) net_op" where
  "add_addresses os name addresses =
     for_each (\<lambda>address.
       seq (query (\<lambda>_. ok_or (parse_net (os_parsers os) address) (Bail (''invalid configured interface address: '' @ address)))) (\<lambda>prefix.
         net (add_address os name prefix))) addresses"

definition add_routes :: "('k, 'n) os \<Rightarrow> u32 \<Rightarrow> string list \<Rightarrow> ('k, client_error, unit) net_op" where
  "add_routes os index texts =
     for_each (\<lambda>route.
       seq (query (\<lambda>_. ok_or (parse_net (os_parsers os) route) (Bail (''invalid configured route: '' @ route)))) (\<lambda>destination.
         context_of ''installing configured route'' (replace_route os (on_link destination index None)))) texts"

text \<open>Taking over the default route of one family. A validated configuration has the gateway.\<close>

definition take_default_route :: "('k, 'n) os \<Rightarrow> client_config \<Rightarrow> socket_addr \<Rightarrow> u32 \<Rightarrow> bool \<Rightarrow> string option \<Rightarrow> ('k, client_error, unit) net_op" where
  "take_default_route os config server index ipv6 gw =
     seq (query (\<lambda>_. ok_or gw (Bail ''validated gateway''))) (\<lambda>text.
     seq (query (\<lambda>_. ok_or (parse_ip (os_parsers os) text) (Bail (if ipv6 then ''parsing IPv6 tunnel gateway'' else ''parsing IPv4 tunnel gateway'')))) (\<lambda>gateway_ip.
     seq (query (\<lambda>_. require (is_v4 gateway_ip \<noteq> ipv6)
           (Bail (if ipv6 then ''IPv6 default routing requires an IPv6 tunnel gateway'' else ''IPv4 default routing requires an IPv4 tunnel gateway'')))) (\<lambda>_.
     seq (preserve_server_route os server) (\<lambda>_.
     seq (query (\<lambda>_. tunnel_source os config ipv6)) (\<lambda>src.
       for_each (\<lambda>destination.
         context_of (if ipv6 then ''installing IPv6 tunnel route'' else ''installing IPv4 tunnel route'')
           (replace_route os (on_link destination index (Some src)))) (os_half_nets os ipv6))))))"

definition tunnel_kill_switch :: "virtual_interface \<Rightarrow> socket_addr \<Rightarrow> u32 \<Rightarrow> kill_switch_spec" where
  "tunnel_kill_switch dev server uid = \<lparr>ks_endpoint = server, ks_tunnel_interface = Some (vi_name dev), ks_uid = uid\<rparr>"

definition set_client_dns :: "('k, 'n) os \<Rightarrow> virtual_interface \<Rightarrow> client_config \<Rightarrow> ('k, client_error, unit) net_op" where
  "set_client_dns os dev config =
     (case dns_server_list (os_parsers os) (cc_interface config) of
        Inr servers \<Rightarrow> if servers \<noteq> [] then ignoring (set_dns_native os (vi_name dev) servers) else done_with ()
      | Inl _ \<Rightarrow> done_with ())"

definition configure_interface ::
  "('k, 'n) os \<Rightarrow> virtual_interface \<Rightarrow> client_config \<Rightarrow> socket_addr \<Rightarrow> bool \<Rightarrow> u32 \<Rightarrow> ('k, client_error, unit) net_op" where
  "configure_interface os dev config server networkmanager_managed index =
     seq (net (set_link_up os (vi_name dev))) (\<lambda>_.
     seq (if networkmanager_managed then done_with () else add_addresses os (vi_name dev) (interface_addresses (cc_interface config))) (\<lambda>_.
     seq (add_routes os index (routes (cc_routing config))) (\<lambda>_.
     seq (if default_route (cc_routing config) then take_default_route os config server index False (gateway (cc_routing config)) else done_with ()) (\<lambda>_.
     seq (if default_route_v6 (cc_routing config) then take_default_route os config server index True (gateway_v6 (cc_routing config)) else done_with ()) (\<lambda>_.
       if networkmanager_managed then done_with () else set_client_dns os dev config)))))"

definition configure_client_network ::
  "('k, 'n) os \<Rightarrow> u32 \<Rightarrow> virtual_interface \<Rightarrow> client_config \<Rightarrow> socket_addr \<Rightarrow> bool \<Rightarrow> ('k, client_error, unit) net_op" where
  "configure_client_network os uid dev config server networkmanager_managed =
     seq (context_of ''opening Linux rtnetlink connection'' (system_net os)) (\<lambda>_.
     seq (net (link_index os (vi_name dev))) (\<lambda>index.
     seq (if full_tunnel config
          then context_of ''updating Linux kill switch for tunnel interface'' (install_kill_switch os (tunnel_kill_switch dev server uid))
          else done_with ()) (\<lambda>_.
       configure_interface os dev config server networkmanager_managed index)))"

section \<open>Moving to another server address\<close>

definition remove_endpoint_route :: "('k, 'n) os \<Rightarrow> socket_addr \<Rightarrow> 'k \<Rightarrow> 'k" where
  "remove_endpoint_route os server k =
     (case best_route_to os (sock_ip server) k of
        (Inl _, k1) \<Rightarrow> k1
      | (Inr best, k1) \<Rightarrow> snd (delete_route os (server_route os server best) k1))"

definition refresh_client_endpoint ::
  "('k, 'n) os \<Rightarrow> u32 \<Rightarrow> virtual_interface \<Rightarrow> client_config \<Rightarrow> socket_addr \<Rightarrow> socket_addr \<Rightarrow> ('k, client_error, unit) net_op" where
  "refresh_client_endpoint os uid dev config old_server new_server =
     seq (context_of ''opening Linux rtnetlink connection'' (system_net os)) (\<lambda>_.
     seq (\<lambda>k. (Inr (), if sock_ip old_server \<noteq> sock_ip new_server then remove_endpoint_route os old_server k else k)) (\<lambda>_.
       if full_tunnel config then
         seq (context_of ''refreshing Linux RVPN kill switch'' (install_kill_switch os (tunnel_kill_switch dev new_server uid))) (\<lambda>_.
           preserve_server_route os new_server)
       else done_with ()))"

section \<open>Undoing it\<close>

definition remove_server_route :: "('k, 'n) os \<Rightarrow> socket_addr \<Rightarrow> bool \<Rightarrow> 'k \<Rightarrow> 'k" where
  "remove_server_route os server ipv6 k = (if is_v4 (sock_ip server) = ipv6 then k else remove_endpoint_route os server k)"

fun each_of :: "('a \<Rightarrow> 'k \<Rightarrow> 'k) \<Rightarrow> 'a list \<Rightarrow> 'k \<Rightarrow> 'k" where
  "each_of f [] k = k"
| "each_of f (x # xs) k = each_of f xs (f x k)"

definition drop_default_route :: "('k, 'n) os \<Rightarrow> client_config \<Rightarrow> socket_addr \<Rightarrow> u32 \<Rightarrow> bool \<Rightarrow> 'k \<Rightarrow> 'k" where
  "drop_default_route os config server index ipv6 k =
     remove_server_route os server ipv6
       (each_of (\<lambda>destination k.
          snd (delete_route os (on_link destination index (case tunnel_source os config ipv6 of Inr a \<Rightarrow> Some a | Inl _ \<Rightarrow> None)) k))
        (os_half_nets os ipv6) k)"

definition teardown_client_network :: "('k, 'n) os \<Rightarrow> u32 \<Rightarrow> virtual_interface \<Rightarrow> client_config \<Rightarrow> socket_addr \<Rightarrow> string list \<Rightarrow> 'k \<Rightarrow> 'k" where
  "teardown_client_network os uid dev config server networkmanager_interfaces k =
     (let deactivate = each_of (\<lambda>interface k. snd (deactivate_networkmanager_client_tun os interface k)) networkmanager_interfaces in
      case system_net os k of
        (Inl _, k0) \<Rightarrow> k0
      | (Inr _, k0) \<Rightarrow>
          (case link_index os (vi_name dev) k0 of
             (Inl _, k1) \<Rightarrow> deactivate k1
           | (Inr index, k1) \<Rightarrow>
               (let k2 = (if default_route (cc_routing config) then drop_default_route os config server index False k1 else k1);
                    k3 = (if default_route_v6 (cc_routing config) then drop_default_route os config server index True k2 else k2);
                    k4 = (if networkmanager_interfaces = [] \<and> ic_dns_servers (cc_interface config) \<noteq> None
                          then snd (revert_dns_native os (vi_name dev) k3) else k3);
                    k5 = (if full_tunnel config then snd (remove_kill_switch os uid k4) else k4)
                in deactivate k5)))"

section \<open>What the steps leave alone\<close>

text \<open>The packet filter as a view of the host that only its own requests change.\<close>

definition filter_laws :: "('k, 'n) os \<Rightarrow> ('k \<Rightarrow> string \<Rightarrow> nft_expr list list option) \<Rightarrow> bool" where
  "filter_laws os installed \<longleftrightarrow>
     nft_transactions (os_send_batch os) installed \<and> quiet_commands os installed \<and>
     (\<forall>m. keeps installed (os_route_add os m)) \<and> (\<forall>m. keeps installed (os_route_del os m))"

lemma filter_lawsD:
  assumes "filter_laws os installed"
  shows "nft_transactions (os_send_batch os) installed" "quiet_commands os installed" "keeps installed (os_route_add os m)" "keeps installed (os_route_del os m)"
  using assms unfolding filter_laws_def by simp_all

lemma keeps_contexts [intro]: "keeps v f \<Longrightarrow> keeps v (net f)" "keeps v f \<Longrightarrow> keeps v (context_of c f)"
  unfolding net_def context_of_def by auto

lemma keeps_steps:
  assumes "filter_laws os installed"
  shows "keeps installed (preserve_server_route os server)" "keeps installed (add_addresses os name addresses)" "keeps installed (add_routes os index texts)"
    "keeps installed (take_default_route os config server index ipv6 gw)" "keeps installed (set_client_dns os dev config)"
proof -
  note F = filter_lawsD [OF assms]
  note r = keeps_route_ops [OF F(3) F(4)] and l = keeps_links [OF F(2)]
  show p: "keeps installed (preserve_server_route os server)" for server
    unfolding preserve_server_route_def by (intro keeps_seq keeps_contexts r l)
  show "keeps installed (add_addresses os name addresses)"
    unfolding add_addresses_def by (intro keeps_for_each keeps_seq keeps_contexts keeps_basic l)
  show "keeps installed (add_routes os index texts)"
    unfolding add_routes_def by (intro keeps_for_each keeps_seq keeps_contexts keeps_basic r)
  show "keeps installed (take_default_route os config server index ipv6 gw)"
    unfolding take_default_route_def by (intro keeps_for_each keeps_seq keeps_contexts keeps_basic r p)
  show "keeps installed (set_client_dns os dev config)"
    unfolding set_client_dns_def by (auto split: sum.split intro: keeps_ignoring keeps_native_dns(1) [OF F(2)])
qed

lemma keeps_configure_interface:
  assumes "filter_laws os installed"
  shows "keeps installed (configure_interface os dev config server nm index)"
  unfolding configure_interface_def
  by (intro keeps_seq keeps_if keeps_basic keeps_contexts keeps_steps [OF assms] keeps_links(3) [OF filter_lawsD(2) [OF assms]])

lemma kill_switch_step:
  assumes "filter_laws os installed" and "context_of c (install_kill_switch os spec) k = (r, k')"
  shows "installed k' = (installed k)(table_name (ks_uid spec) \<mapsto> installed_rules spec) \<or> ((\<exists>e. r = Inl e) \<and> installed k' = installed k)"
proof -
  obtain r0 where "install (os_send_batch os) spec k = (r0, k')" "r = map_err (\<lambda>e. Context c (FromNet e)) r0"
    using assms(2) by (auto simp: context_of_def with_err_def install_kill_switch_def split: prod.splits)
  then show ?thesis using install_transaction [OF filter_lawsD(1) [OF assms(1)], of spec k r0 k'] by (cases r0) auto
qed

lemma configure_guarded:
  assumes F: "filter_laws os installed" and R: "route_laws os ops table" and full: "full_tunnel config"
    and conf: "configure_client_network os uid dev config server nm k = (r, k')"
  shows "installed k' (table_name uid) = Some (installed_rules (tunnel_kill_switch dev server uid)) \<or>
    (installed k' (table_name uid) = installed k (table_name uid) \<and> (\<exists>e. r = Inl e) \<and> table k' = table k)"
  using conf unfolding configure_client_network_def
proof (cases rule: seq_cases)
  note q = filter_lawsD(2) [OF F] route_lawsD(1) [OF R]
  note net_keeps = keeps_pair [OF keeps_contexts(2) [OF keeps_links(1) [OF q(1)]]] keeps_pair [OF keeps_contexts(2) [OF keeps_links(1) [OF q(2)]]]
  note link_keeps = keeps_pair [OF keeps_contexts(1) [OF keeps_links(2) [OF q(1)]]] keeps_pair [OF keeps_contexts(1) [OF keeps_links(2) [OF q(2)]]]
  {
    case (failed e)
    then show ?thesis using net_keeps [OF failed(1)] by simp
  next
    case opened: (went_on u k0)
    note o = net_keeps [OF opened(1)]
    from opened(2) show ?thesis
    proof (cases rule: seq_cases)
      case (failed e)
      then show ?thesis using o link_keeps [OF failed(1)] by simp
    next
      case link: (went_on index k1)
      note l = link_keeps [OF link(1)]
      from link(2) show ?thesis unfolding if_P [OF full]
      proof (cases rule: seq_cases)
        case (failed e)
        show ?thesis
          using kill_switch_step [OF F failed(1)] failed(2) o l keeps_pair [OF keeps_contexts(2) [OF keeps_kill_switch(1) [OF route_lawsD(2) [OF R]]] failed(1)]
          by (auto simp: tunnel_kill_switch_def)
      next
        case ks: (went_on w k2)
        have "installed k2 (table_name uid) = Some (installed_rules (tunnel_kill_switch dev server uid))"
          using kill_switch_step [OF F ks(1)] by (simp add: tunnel_kill_switch_def)
        moreover have "installed k' = installed k2"
          by (rule keeps_pair [OF keeps_configure_interface [OF F] ks(2)])
        ultimately show ?thesis by simp
      qed
    qed
  }
qed

section \<open>Undoing\<close>

lemma delete_route_eq:
  "snd (delete_route os route k) = (case route_message_of (os_parsers os) route of Inl _ \<Rightarrow> k | Inr m \<Rightarrow> snd (os_route_del os m k))"
  by (simp add: delete_route_def seq_def query_def with_err_def split: sum.split prod.split)

lemma delete_route_table:
  assumes "route_laws os ops table"
  shows "table (snd (delete_route os route k)) \<subseteq> table k"
    "route_message_of (os_parsers os) route = Inr m \<Longrightarrow> (m \<in> table k \<Longrightarrow> fst (os_route_del os m k) = Inr ()) \<Longrightarrow> m \<notin> table (snd (delete_route os route k))"
proof -
  have d: "table (snd (os_route_del os m k)) = (if fst (os_route_del os m k) = Inr () then table k - {m} else table k)" for m
    using route_lawsD(4) [OF assms, of m k "fst (os_route_del os m k)" "snd (os_route_del os m k)"] by simp
  show "table (snd (delete_route os route k)) \<subseteq> table k"
    unfolding delete_route_eq by (cases "route_message_of (os_parsers os) route") (auto simp: d)
  show "m \<notin> table (snd (delete_route os route k))"
    if "route_message_of (os_parsers os) route = Inr m" "m \<in> table k \<Longrightarrow> fst (os_route_del os m k) = Inr ()"
    unfolding delete_route_eq using that by (auto simp: d)
qed

lemma remove_endpoint_table:
  assumes "route_laws os ops table"
  shows "table (remove_endpoint_route os server k) \<subseteq> table k"
proof -
  obtain r k1 where b: "best_route_to os (sock_ip server) k = (r, k1)" by fastforce
  then have "table k1 = table k" using keeps_pair [OF keeps_links(5) [OF route_lawsD(1) [OF assms]] b] by simp
  then show ?thesis using delete_route_table(1) [OF assms] b by (cases r) (auto simp: remove_endpoint_route_def)
qed

lemma each_of_subset:
  assumes "\<And>x k. table (f x k) \<subseteq> table k"
  shows "table (each_of f xs k) \<subseteq> table k"
proof (induction xs arbitrary: k)
  case (Cons x xs)
  show ?case using Cons [of "f x k"] assms [of x k] by simp
qed simp

lemma each_of_keeps:
  assumes "\<And>x k. v (f x k) = v k"
  shows "v (each_of f xs k) = v k"
  by (induction xs arbitrary: k) (simp_all add: assms)

lemma each_of_gone:
  assumes sub: "\<And>x k. table (f x k) \<subseteq> table k" and gone: "\<And>k. m \<notin> table (f x k)" and "x \<in> set xs"
  shows "m \<notin> table (each_of f xs k)"
  using assms(3)
proof (induction xs arbitrary: k)
  case (Cons y ys)
  show ?case
  proof (cases "y = x")
    case True
    then show ?thesis using each_of_subset [where table = table and f = f, OF sub, of ys "f x k"] gone [of k] by auto
  next
    case False
    then show ?thesis using Cons by simp
  qed
qed simp

text \<open>Deleting a route that is in the table succeeds, and so does removing the kill switch.\<close>

definition deletable :: "('k, 'n) os \<Rightarrow> ('k \<Rightarrow> 'n route_message set) \<Rightarrow> u32 \<Rightarrow> bool" where
  "deletable os table uid \<longleftrightarrow> (\<forall>m k. m \<in> table k \<longrightarrow> fst (os_route_del os m k) = Inr ()) \<and> (\<forall>k. fst (remove_kill_switch os uid k) = Inr ())"

definition source_option :: "('k, 'n) os \<Rightarrow> client_config \<Rightarrow> bool \<Rightarrow> ip_addr option" where
  "source_option os config ipv6 = (case tunnel_source os config ipv6 of Inr a \<Rightarrow> Some a | Inl _ \<Rightarrow> None)"

lemma drop_default_table:
  assumes "route_laws os ops table"
  shows "table (drop_default_route os config server index ipv6 k) \<subseteq> table k"
    "deletable os table uid \<Longrightarrow> d \<in> set (os_half_nets os ipv6) \<Longrightarrow>
     route_message_of (os_parsers os) (on_link d index (source_option os config ipv6)) = Inr m \<Longrightarrow> m \<notin> table (drop_default_route os config server index ipv6 k)"
proof -
  let ?f = "\<lambda>destination k. snd (delete_route os (on_link destination index (source_option os config ipv6)) k)"
  have r: "table (remove_server_route os server ipv6 k) \<subseteq> table k" for k
    using remove_endpoint_table [OF assms] by (simp add: remove_server_route_def)
  have e: "drop_default_route os config server index ipv6 k = remove_server_route os server ipv6 (each_of ?f (os_half_nets os ipv6) k)"
    by (simp add: drop_default_route_def source_option_def)
  have sub: "table (each_of ?f xs k) \<subseteq> table k" for xs
    by (rule each_of_subset [where table = table and f = ?f, OF delete_route_table(1) [OF assms]])
  show "table (drop_default_route os config server index ipv6 k) \<subseteq> table k" unfolding e using r sub by (meson subset_trans)
  assume del: "deletable os table uid" and d: "d \<in> set (os_half_nets os ipv6)"
    and m: "route_message_of (os_parsers os) (on_link d index (source_option os config ipv6)) = Inr m"
  have "m \<notin> table (?f d k)" for k using delete_route_table(2) [OF assms m] del by (simp add: deletable_def)
  from each_of_gone [where table = table and f = ?f and x = d, OF delete_route_table(1) [OF assms] this d]
  have "m \<notin> table (each_of ?f (os_half_nets os ipv6) k)" .
  then show "m \<notin> table (drop_default_route os config server index ipv6 k)" unfolding e using r by blast
qed

lemma deactivate_keeps:
  assumes "quiet_commands os v"
  shows "v (each_of (\<lambda>interface k. snd (deactivate_networkmanager_client_tun os interface k)) names k) = v k"
  using keepsD [OF keeps_native_dns(3) [OF assms]] by (intro each_of_keeps [where v = v])

definition default_route_of :: "client_config \<Rightarrow> bool \<Rightarrow> bool" where
  "default_route_of config ipv6 = (if ipv6 then default_route_v6 (cc_routing config) else default_route (cc_routing config))"

lemma teardown_clean:
  assumes F: "filter_laws os installed" and R: "route_laws os ops table" and del: "deletable os table uid"
    and up: "os_netlink os k = Inr ()" "os_link os k (vi_name dev) = Inr (Some index)" and full: "full_tunnel config"
  shows "installed (teardown_client_network os uid dev config server names k) (table_name uid) = None"
    "default_route_of config ipv6 \<Longrightarrow> d \<in> set (os_half_nets os ipv6) \<Longrightarrow>
     route_message_of (os_parsers os) (on_link d index (source_option os config ipv6)) = Inr m \<Longrightarrow> m \<notin> table (teardown_client_network os uid dev config server names k)"
proof -
  define k2 where "k2 = (if default_route (cc_routing config) then drop_default_route os config server index False k else k)"
  define k3 where "k3 = (if default_route_v6 (cc_routing config) then drop_default_route os config server index True k2 else k2)"
  define k4 where "k4 = (if names = [] \<and> ic_dns_servers (cc_interface config) \<noteq> None then snd (revert_dns_native os (vi_name dev) k3) else k3)"
  define k5 where "k5 = snd (remove_kill_switch os uid k4)"
  have "system_net os k = (Inr (), k)" "link_index os (vi_name dev) k = (Inr index, k)"
    using up by (simp_all add: system_net_def link_index_def seq_def query_def with_err_def ok_or_def)
  then have t: "teardown_client_network os uid dev config server names k =
      each_of (\<lambda>interface k. snd (deactivate_networkmanager_client_tun os interface k)) names k5"
    using full unfolding teardown_client_network_def Let_def k2_def k3_def k4_def k5_def by (simp only: prod.case sum.case if_True)
  have "installed k5 (table_name uid) = None"
    using remove_transaction [OF filter_lawsD(1) [OF F], of uid k4 "Inr ()" k5] del by (simp add: deletable_def k5_def remove_kill_switch_def prod_eq_iff)
  then show "installed (teardown_client_network os uid dev config server names k) (table_name uid) = None"
    unfolding t deactivate_keeps [OF filter_lawsD(2) [OF F]] .
  assume on: "default_route_of config ipv6" and d: "d \<in> set (os_half_nets os ipv6)"
    and m: "route_message_of (os_parsers os) (on_link d index (source_option os config ipv6)) = Inr m"
  have "table k3 \<subseteq> table k2" using drop_default_table(1) [OF R] by (simp add: k3_def)
  moreover have "m \<notin> table k2 \<or> m \<notin> table k3"
    using on drop_default_table(2) [OF R del d m] by (cases ipv6) (simp_all add: k2_def k3_def default_route_of_def)
  moreover have "table k4 = table k3" using keepsD [OF keeps_native_dns(2) [OF route_lawsD(1) [OF R]]] by (simp add: k4_def)
  moreover have "table k5 = table k4" using keepsD [OF keeps_kill_switch(2) [OF route_lawsD(2) [OF R]]] by (simp add: k5_def)
  ultimately show "m \<notin> table (teardown_client_network os uid dev config server names k)"
    unfolding t deactivate_keeps [OF route_lawsD(1) [OF R]] by blast
qed

section \<open>Moving\<close>

lemma replace_route_table:
  assumes "route_laws os ops table" and "replace_route os route k = (Inr (), k')" and "route_message_of (os_parsers os) route = Inr m"
  shows "m \<in> table k'"
proof -
  obtain k1 where "os_route_add os m k1 = (Inr (), k')"
    using assms(2,3) by (auto simp: replace_route_def query_def with_err_ok elim!: seq_cases)
  from route_lawsD(3) [OF assms(1) this] show ?thesis by simp
qed

lemma replace_route_message: "replace_route os route k = (Inr (), k') \<Longrightarrow> \<exists>m. route_message_of (os_parsers os) route = Inr m"
  by (auto simp: replace_route_def query_def elim!: seq_cases)

lemma endpoint_route_deleted:
  assumes "route_laws os ops table" and "h \<in> table k" and "rm_destination h \<noteq> os_host_net os (sock_ip server)"
  shows "h \<in> table (remove_endpoint_route os server k)"
proof -
  obtain r k1 where b: "best_route_to os (sock_ip server) k = (r, k1)" by fastforce
  have t: "table k1 = table k" using keeps_pair [OF keeps_links(5) [OF route_lawsD(1) [OF assms(1)]] b] .
  show ?thesis
  proof (cases r)
    case (Inr best)
    show ?thesis
    proof (cases "route_message_of (os_parsers os) (server_route os server best)")
      case (Inr m)
      have "rm_destination m = os_host_net os (sock_ip server)" using route_message_family(1) [OF Inr] by (simp add: server_route_def)
      then have "h \<in> table (snd (os_route_del os m k1))"
        using route_lawsD(4) [OF assms(1), of m k1 "fst (os_route_del os m k1)" "snd (os_route_del os m k1)"] assms(2,3) t by (auto split: if_splits)
      then show ?thesis using b \<open>r = Inr best\<close> Inr by (simp add: remove_endpoint_route_def delete_route_eq)
    qed (use b Inr t assms(2) in \<open>simp add: remove_endpoint_route_def delete_route_eq\<close>)
  qed (use b t assms(2) in \<open>simp add: remove_endpoint_route_def\<close>)
qed

lemma preserve_uses_tunnel:
  assumes R: "route_laws os ops table" and h: "h \<in> table k" "net_contains ops (rm_destination h) (sock_ip server)" "rm_output_interface h = Some index"
    and longest: "\<And>m'. m' \<in> table k \<Longrightarrow> net_contains ops (rm_destination m') (sock_ip server) \<Longrightarrow> m' \<noteq> h \<Longrightarrow>
      net_prefix_len ops (rm_destination m') < net_prefix_len ops (rm_destination h)"
    and ok: "preserve_server_route os server k = (Inr (), k')"
  shows "\<exists>m \<in> table k'. rm_destination m = os_host_net os (sock_ip server) \<and> rm_output_interface m = Some index"
proof -
  obtain src where b: "best_route_to os (sock_ip server) k = (Inr \<lparr>br_interface_index = index, br_gateway = rm_gateway h, br_source = src\<rparr>, k)"
    using best_route_longest [OF R h longest] by blast
  let ?r = "server_route os server \<lparr>br_interface_index = index, br_gateway = rm_gateway h, br_source = src\<rparr>"
  have rep: "replace_route os ?r k = (Inr (), k')"
    using ok b by (auto simp: preserve_server_route_def seq_def net_def context_of_def with_err_def split: prod.splits sum.splits)
  then obtain m where m: "route_message_of (os_parsers os) ?r = Inr m" using replace_route_message [OF rep] by blast
  then show ?thesis
    using replace_route_table [OF R rep m] route_message_family(1,3) [OF m] by (intro bexI [of _ m]) (simp_all add: server_route_def)
qed

lemma refresh_cases:
  assumes "refresh_client_endpoint os uid dev config old new k = (Inr (), k')" and "full_tunnel config" and "sock_ip old \<noteq> sock_ip new"
  obtains k1 k2 where "system_net os k = (Inr (), k1)"
    and "install_kill_switch os (tunnel_kill_switch dev new uid) (remove_endpoint_route os old k1) = (Inr (), k2)"
    and "preserve_server_route os new k2 = (Inr (), k')"
  using assms unfolding refresh_client_endpoint_def by (auto simp: context_of_def with_err_ok elim!: seq_cases)

section \<open>An example client\<close>

definition ex_client_config :: client_config where
  "ex_client_config =
     \<lparr>cc_server = ''vpn.example:51820'', cc_dns_replace = False, cc_auth = None,
      cc_interface = \<lparr>ic_name = Some ''tun1'', ic_tap_name = None, ic_mtu = None, ic_mode = None, ic_address = Some ''10.0.0.1/24'', ic_addresses = [], ic_dns_servers = None\<rparr>,
      cc_handshake = handshake_config_default, cc_rekey = rekey_config_default,
      cc_routing = \<lparr>default_route = True, gateway = Some ''10.0.0.1'', endpoint_gateway = None, default_route_v6 = False, gateway_v6 = None,
        endpoint_gateway_v6 = None, routes = []\<rparr>,
      cc_liveness = liveness_default, cc_obfuscation_key = None\<rparr>"

definition ex_device :: virtual_interface where
  "ex_device = \<lparr>vi_name = ''tun1'', vi_mtu = 1400, vi_mode = Tun\<rparr>"

definition ex_route :: "ip_addr \<times> nat \<Rightarrow> ip_addr option \<Rightarrow> u32 \<Rightarrow> (ip_addr \<times> nat) route_message" where
  "ex_route destination gw index =
     \<lparr>rm_destination = destination, rm_gateway = gw, rm_pref_source = None, rm_output_interface = Some index, rm_scope_link = (gw = None)\<rparr>"

text \<open>A host with a default route over interface 2.\<close>

definition ex_online :: ex_host where
  "ex_online = ex_host_start\<lparr>eh_routes := [ex_route (V4 0, 0) (Some (V4 0xC0A80001)) 2]\<rparr>"

definition ex_server_addr :: socket_addr where "ex_server_addr = SockV4 0xC6336409 51820"
definition ex_new_addr :: socket_addr where "ex_new_addr = SockV4 0x08080808 51820"

lemma ex_filter: "filter_laws ex_os eh_tables"
  using ex_transactions ex_quiet(1) by (simp add: filter_laws_def ex_os_def keeps_def)

lemma ex_full [simp]: "full_tunnel ex_client_config"
  by (simp add: full_tunnel_def ex_client_config_def)

lemma ex_install: "\<exists>t. install_kill_switch ex_os (tunnel_kill_switch ex_device server 1001) k = (Inr (), k\<lparr>eh_tables := t\<rparr>)"
proof -
  let ?spec = "tunnel_kill_switch ex_device server 1001"
  have b: "\<exists>batch. build_batch ?spec replace = Inr batch" for replace
    by (simp add: build_batch_def tunnel_kill_switch_def ex_device_def) (simp add: c_string_def)
  obtain b1 b2 where b: "build_batch ?spec True = Inr b1" "build_batch ?spec False = Inr b2" using b by blast
  then show ?thesis
    using build_batch_shape [OF b(1)] build_batch_shape [OF b(2)]
    by (cases "eh_tables k (table_name (ks_uid ?spec))") (auto simp: install_kill_switch_def install_def send_built_def ex_os_def ex_send_def ex_missing)
qed

lemma ex_replace:
  assumes "route_message_of ex_parsers r = Inr m"
  shows "replace_route ex_os r k = (Inr (), k\<lparr>eh_routes := m # filter (\<lambda>m'. m' \<noteq> m) (eh_routes k)\<rparr>)"
proof -
  have "m \<notin> set (eh_routes k) \<Longrightarrow> filter (\<lambda>m'. m' \<noteq> m) (eh_routes k) = eh_routes k" by (simp add: filter_id_conv) blast
  then show ?thesis using assms by (simp add: replace_route_def seq_def query_def with_err_def ignoring_def ex_os_def)
qed

lemma ex_best:
  "ex_lookup (eh_routes k) ip = Some m \<Longrightarrow> rm_output_interface m = Some i \<Longrightarrow>
   best_route_to ex_os ip k = (Inr \<lparr>br_interface_index = i, br_gateway = rm_gateway m, br_source = None\<rparr>, k)"
  by (simp add: best_route_to_def seq_def query_def with_err_def ok_or_def ex_os_def done_with_def)

lemma ex_family:
  "route_message_of ex_parsers \<lparr>rs_destination = (V4 d, n), rs_gateway = map_option V4 g, rs_interface_index = Some i, rs_source = map_option V4 a\<rparr> =
   Inr \<lparr>rm_destination = (V4 d, n), rm_gateway = map_option V4 g, rm_pref_source = map_option V4 a, rm_output_interface = Some i, rm_scope_link = (g = None)\<rparr>"
  by (cases g; cases a) (simp_all add: route_message_of_def family_ok_def ex_parsers_def require_def)

definition ex_half :: "u32 \<Rightarrow> (ip_addr \<times> nat) route_message" where
  "ex_half d = \<lparr>rm_destination = (V4 d, 1), rm_gateway = None, rm_pref_source = Some (V4 0x0A000001), rm_output_interface = Some 7, rm_scope_link = True\<rparr>"

lemma ex_configure:
  "\<exists>t. configure_client_network ex_os 1001 ex_device ex_client_config ex_server_addr False ex_online =
     (Inr (), ex_online\<lparr>eh_tables := t,
        eh_routes := [ex_half 0x80000000, ex_half 0, ex_route (V4 0xC6336409, 32) (Some (V4 0xC0A80001)) 2, ex_route (V4 0, 0) (Some (V4 0xC0A80001)) 2]\<rparr>)"
proof -
  obtain t where t: "install_kill_switch ex_os (tunnel_kill_switch ex_device ex_server_addr 1001) ex_online = (Inr (), ex_online\<lparr>eh_tables := t\<rparr>)"
    using ex_install by blast
  let ?k = "ex_online\<lparr>eh_tables := t\<rparr>"
  have open_ok: "system_net ex_os k = (Inr (), k)" "link_index ex_os ''tun1'' k = (Inr 7, k)" "os_link_up ex_os i k = (Inr (), k)" "os_address_add ex_os i a k = (Inr (), k)" for k i a
    by (simp_all add: system_net_def link_index_def seq_def query_def with_err_def ok_or_def ex_os_def nothing_def)
  have look: "ex_lookup (eh_routes ?k) (V4 0xC6336409) = Some (ex_route (V4 0, 0) (Some (V4 0xC0A80001)) 2)"
    by (simp add: ex_lookup_def ex_online_def ex_route_def)
  let ?pinned = "?k\<lparr>eh_routes := [ex_route (V4 0xC6336409, 32) (Some (V4 0xC0A80001)) 2, ex_route (V4 0, 0) (Some (V4 0xC0A80001)) 2]\<rparr>"
  have pinned: "preserve_server_route ex_os ex_server_addr ?k = (Inr (), ?pinned)"
    using ex_best [OF look, where i = 2] ex_replace [OF ex_family [where d = "0xC6336409" and n = 32 and g = "Some 0xC0A80001" and i = 2 and a = None], where k = ?k]
    by (simp add: preserve_server_route_def seq_def net_def context_of_def with_err_def server_route_def ex_server_addr_def ex_route_def ex_os_def ex_online_def)
  have src: "tunnel_source ex_os ex_client_config False = Inr (V4 0x0A000001)"
    by (simp add: tunnel_source_def interface_addresses_def ex_client_config_def ex_os_def ex_parsers_def ok_or_def)
  have sel: "os_half_nets ex_os False = [(V4 0, 1), (V4 0x80000000, 1)]" "parse_ip (os_parsers ex_os) ''10.0.0.1'' = Some (V4 0x0A000001)"
    by (simp_all add: ex_os_def ex_parsers_def)
  have half: "replace_route ex_os (on_link (V4 d, 1) 7 (Some (V4 0x0A000001))) k = (Inr (), k\<lparr>eh_routes := ex_half d # filter (\<lambda>m'. m' \<noteq> ex_half d) (eh_routes k)\<rparr>)" for d k
    using ex_replace [OF ex_family [where d = d and n = 1 and g = None and i = 7 and a = "Some 0x0A000001"], where k = k] by (simp add: on_link_def ex_half_def)
  have taken: "take_default_route ex_os ex_client_config ex_server_addr 7 False (Some ''10.0.0.1'') ?k = (Inr (), ?pinned\<lparr>eh_routes := ex_half 0x80000000 # ex_half 0 # eh_routes ?pinned\<rparr>)"
    using pinned src half
    by (simp add: take_default_route_def seq_def query_def context_of_def with_err_def ok_or_def require_def done_with_def sel ex_half_def ex_route_def)
  have "parse_net (os_parsers ex_os) ''10.0.0.1/24'' = Some (V4 0, 0)" "dns_server_list (os_parsers ex_os) (cc_interface ex_client_config) = Inr []"
    by (simp_all add: ex_os_def ex_parsers_def plain_parsers_def dns_server_list_def ex_client_config_def)
  then have "configure_interface ex_os ex_device ex_client_config ex_server_addr False 7 ?k = (Inr (), ?pinned\<lparr>eh_routes := ex_half 0x80000000 # ex_half 0 # eh_routes ?pinned\<rparr>)"
    using taken open_ok
    by (simp add: configure_interface_def set_link_up_def add_addresses_def add_address_def add_routes_def seq_def net_def with_err_def query_def ok_or_def done_with_def
        set_client_dns_def interface_addresses_def ex_client_config_def ex_device_def)
  then show ?thesis
    using t open_ok by (simp add: configure_client_network_def seq_def context_of_def net_def with_err_def ex_device_def) blast
qed

lemma ex_configured:
  obtains k where "configure_client_network ex_os 1001 ex_device ex_client_config ex_server_addr False ex_online = (Inr (), k)"
    and "eh_routes k = [ex_half 0x80000000, ex_half 0, ex_route (V4 0xC6336409, 32) (Some (V4 0xC0A80001)) 2, ex_route (V4 0, 0) (Some (V4 0xC0A80001)) 2]"
  using ex_configure by auto

lemma ex_deletable: "deletable ex_os (\<lambda>k. set (eh_routes k)) 1001"
proof -
  have "fst (remove_kill_switch ex_os 1001 k) = Inr ()" for k
    by (cases "eh_tables k (table_name 1001)") (simp_all add: remove_kill_switch_def ks_remove_def delete_table_def ex_os_def ex_send_def ex_missing)
  then show ?thesis by (simp add: deletable_def) (simp add: ex_os_def)
qed

section \<open>Properties\<close>

text \<open>
  C12. Traffic is redirected into the tunnel only behind the kill switch: when all traffic goes through the tunnel, configuring the network either
  leaves the user's packet filter as exactly the rules for this device and server, which is so whenever it succeeds and also when it fails after the
  kill switch was installed, or it fails with the filter and the routing table as they were before.
\<close>

theorem tunnel_routes_guarded:
  assumes "filter_laws os installed" and "route_laws os ops table" and "full_tunnel config"
    and "configure_client_network os uid dev config server nm k = (r, k')"
  shows "installed k' (table_name uid) = Some (installed_rules (tunnel_kill_switch dev server uid)) \<or>
    (installed k' (table_name uid) = installed k (table_name uid) \<and> (\<exists>e. r = Inl e) \<and> table k' = table k)"
  by (rule configure_guarded [OF assms])

theorem tunnel_routes_guarded_witness:
  "\<exists>k'. configure_client_network ex_os 1001 ex_device ex_client_config ex_server_addr False ex_online = (Inr (), k') \<and>
     eh_tables k' (table_name 1001) = Some (installed_rules (tunnel_kill_switch ex_device ex_server_addr 1001))"
proof -
  obtain k' where c: "configure_client_network ex_os 1001 ex_device ex_client_config ex_server_addr False ex_online = (Inr (), k')"
    using ex_configure by blast
  then show ?thesis using tunnel_routes_guarded [OF ex_filter ex_routes ex_full c] by blast
qed

text \<open>
  Tearing down gives the host back: once the device is found, no half of the address space is routed into the tunnel any more and
  the user's kill switch is gone, provided that deleting what exists succeeds.
\<close>

theorem teardown_restores_host:
  assumes "filter_laws os installed" and "route_laws os ops table" and "deletable os table uid"
    and "os_netlink os k = Inr ()" and "os_link os k (vi_name dev) = Inr (Some index)" and "full_tunnel config"
    and "k' = teardown_client_network os uid dev config server names k"
  shows "installed k' (table_name uid) = None \<and>
    (\<forall>ipv6 d m. default_route_of config ipv6 \<longrightarrow> d \<in> set (os_half_nets os ipv6) \<longrightarrow>
       route_message_of (os_parsers os) (on_link d index (source_option os config ipv6)) = Inr m \<longrightarrow> m \<notin> table k')"
  using teardown_clean [OF assms(1-6)] unfolding assms(7) by blast

theorem teardown_restores_host_witness:
  "\<exists>k. configure_client_network ex_os 1001 ex_device ex_client_config ex_server_addr False ex_online = (Inr (), k) \<and>
     ex_half 0 \<in> set (eh_routes k) \<and> ex_half 0 \<notin> set (eh_routes (teardown_client_network ex_os 1001 ex_device ex_client_config ex_server_addr [] k)) \<and>
     eh_tables (teardown_client_network ex_os 1001 ex_device ex_client_config ex_server_addr [] k) (table_name 1001) = None"
proof -
  obtain k where c: "configure_client_network ex_os 1001 ex_device ex_client_config ex_server_addr False ex_online = (Inr (), k)"
    and h: "ex_half 0 \<in> set (eh_routes k)" using ex_configured by (metis list.set_intros)
  have up: "os_netlink ex_os k = Inr ()" "os_link ex_os k (vi_name ex_device) = Inr (Some 7)" by (simp_all add: ex_os_def ex_device_def)
  have "tunnel_source ex_os ex_client_config False = Inr (V4 0x0A000001)"
    by (simp add: tunnel_source_def interface_addresses_def ex_client_config_def ex_os_def ex_parsers_def ok_or_def)
  then have "route_message_of (os_parsers ex_os) (on_link (V4 0, 1) 7 (source_option ex_os ex_client_config False)) = Inr (ex_half 0)"
    using ex_family [where d = 0 and n = 1 and g = None and i = 7 and a = "Some 0x0A000001"] by (simp add: source_option_def on_link_def ex_half_def) (simp add: ex_os_def)
  moreover have "default_route_of ex_client_config False" "(V4 0, 1) \<in> set (os_half_nets ex_os False)"
    by (simp_all add: default_route_of_def ex_client_config_def) (simp add: ex_os_def)
  ultimately show ?thesis
    using teardown_restores_host [OF ex_filter ex_routes ex_deletable up ex_full refl, of ex_server_addr "[]"] c h by blast
qed

text \<open>
  A client whose server moves to another address routes the new address into its own tunnel: while the tunnel's half of the address space is the
  longest prefix for the new address, refreshing the endpoint looks up that very route and pins the new server to the tunnel
  interface, so the reconnecting client cannot reach it.
\<close>

theorem endpoint_refresh_loops:
  assumes R: "route_laws os ops table" and "full_tunnel config" and "sock_ip old \<noteq> sock_ip new"
    and h: "h \<in> table k" "net_contains ops (rm_destination h) (sock_ip new)" "rm_output_interface h = Some index"
    and other: "rm_destination h \<noteq> os_host_net os (sock_ip old)"
    and longest: "\<And>m'. m' \<in> table k \<Longrightarrow> net_contains ops (rm_destination m') (sock_ip new) \<Longrightarrow> m' \<noteq> h \<Longrightarrow>
      net_prefix_len ops (rm_destination m') < net_prefix_len ops (rm_destination h)"
    and refresh: "refresh_client_endpoint os uid dev config old new k = (Inr (), k')"
  shows "\<exists>m \<in> table k'. rm_destination m = os_host_net os (sock_ip new) \<and> rm_output_interface m = Some index"
proof -
  from refresh assms(2,3) show ?thesis
  proof (rule refresh_cases)
    fix k1 k2
    assume s: "system_net os k = (Inr (), k1)" "install_kill_switch os (tunnel_kill_switch dev new uid) (remove_endpoint_route os old k1) = (Inr (), k2)"
      and p: "preserve_server_route os new k2 = (Inr (), k')"
    have t1: "table k1 = table k" using keeps_pair [OF keeps_links(1) [OF route_lawsD(1) [OF R]] s(1)] .
    have t2: "table k2 = table (remove_endpoint_route os old k1)" using keeps_pair [OF keeps_kill_switch(1) [OF route_lawsD(2) [OF R]] s(2)] .
    have "h \<in> table k2" unfolding t2 using endpoint_route_deleted [OF R _ other, of k1] h(1) t1 by simp
    moreover have "table k2 \<subseteq> table k" unfolding t2 using remove_endpoint_table [OF R, of old k1] t1 by simp
    ultimately show ?thesis using preserve_uses_tunnel [OF R _ h(2,3) _ p] longest by blast
  qed
qed

theorem endpoint_refresh_loops_witness:
  "\<exists>k k'. configure_client_network ex_os 1001 ex_device ex_client_config ex_server_addr False ex_online = (Inr (), k) \<and>
     refresh_client_endpoint ex_os 1001 ex_device ex_client_config ex_server_addr ex_new_addr k = (Inr (), k') \<and>
     (\<exists>m \<in> set (eh_routes k'). rm_destination m = (V4 0x08080808, 32) \<and> rm_output_interface m = Some 7)"
proof (rule ex_configured)
  fix k
  assume c: "configure_client_network ex_os 1001 ex_device ex_client_config ex_server_addr False ex_online = (Inr (), k)"
    and r: "eh_routes k = [ex_half 0x80000000, ex_half 0, ex_route (V4 0xC6336409, 32) (Some (V4 0xC0A80001)) 2, ex_route (V4 0, 0) (Some (V4 0xC0A80001)) 2]"
  have h: "ex_half 0 \<in> set (eh_routes k)" "net_contains ex_net_ops (rm_destination (ex_half 0)) (sock_ip ex_new_addr)" "rm_output_interface (ex_half 0) = Some 7"
    "rm_destination (ex_half 0) \<noteq> os_host_net ex_os (sock_ip ex_server_addr)"
    by (simp_all add: r ex_net_ops_def ex_half_def ex_new_addr_def ex_server_addr_def) (simp add: ex_os_def)
  have longest: "net_prefix_len ex_net_ops (rm_destination m') < net_prefix_len ex_net_ops (rm_destination (ex_half 0))"
    if "m' \<in> set (eh_routes k)" "net_contains ex_net_ops (rm_destination m') (sock_ip ex_new_addr)" "m' \<noteq> ex_half 0" for m'
    using that by (auto simp: r ex_net_ops_def ex_half_def ex_route_def ex_new_addr_def)
  let ?k1 = "remove_endpoint_route ex_os ex_server_addr k"
  have sub: "set (eh_routes ?k1) \<subseteq> set (eh_routes k)" "ex_half 0 \<in> set (eh_routes ?k1)"
    using remove_endpoint_table [OF ex_routes, of ex_server_addr k] endpoint_route_deleted [OF ex_routes h(1,4)] by simp_all
  obtain t where t: "install_kill_switch ex_os (tunnel_kill_switch ex_device ex_new_addr 1001) ?k1 = (Inr (), ?k1\<lparr>eh_tables := t\<rparr>)" using ex_install by blast
  have look: "ex_lookup (eh_routes (?k1\<lparr>eh_tables := t\<rparr>)) (V4 0x08080808) = Some (ex_half 0)"
    using ex_lookup_longest [of "ex_half 0" "eh_routes ?k1" "V4 0x08080808"] sub h(2) longest by (auto simp: ex_net_ops_def ex_new_addr_def)
  have "os_host_net ex_os (V4 0x08080808) = (V4 0x08080808, 32)" by (simp add: ex_os_def)
  then obtain k' where "preserve_server_route ex_os ex_new_addr (?k1\<lparr>eh_tables := t\<rparr>) = (Inr (), k')"
    using ex_best [OF look, where i = 7] h(3) ex_replace [OF ex_family [where d = "0x08080808" and n = 32 and g = None and i = 7 and a = None], where k = "?k1\<lparr>eh_tables := t\<rparr>"]
    by (simp add: preserve_server_route_def seq_def net_def context_of_def with_err_def server_route_def ex_new_addr_def ex_half_def)
  moreover have "system_net ex_os k = (Inr (), k)" by (simp add: system_net_def query_def with_err_def ex_os_def)
  moreover have ne: "sock_ip ex_server_addr \<noteq> sock_ip ex_new_addr" by (simp add: ex_server_addr_def ex_new_addr_def)
  ultimately have "refresh_client_endpoint ex_os 1001 ex_device ex_client_config ex_server_addr ex_new_addr k = (Inr (), k')"
    using t by (simp add: refresh_client_endpoint_def seq_def context_of_def with_err_def)
  then show ?thesis
    using endpoint_refresh_loops [OF ex_routes ex_full ne h longest] c by (auto simp: ex_new_addr_def ex_os_def)
qed

end
