(* ===== verification/Client_Main.thy ===== *)
theory Client_Main
  imports Client_Network Client_Tunnel
begin

text \<open>
  The client program, \<^verbatim>\<open>apps/rvpn-client/src/main.rs\<close>: from resolving the server to restoring the host, with the reconnect loop between
  two data planes. What the clock, the name service, the sockets and the signals do is an argument; a run whose arguments end before
  the program does is still going, \<open>None\<close>.
\<close>

section \<open>Sizes\<close>

definition RECONNECT_INITIAL_BACKOFF :: duration where "RECONNECT_INITIAL_BACKOFF = secs 1"
definition RECONNECT_MAX_BACKOFF :: duration where "RECONNECT_MAX_BACKOFF = secs 30"

definition wire_overhead :: "device_mode \<Rightarrow> bytes option \<Rightarrow> nat" where
  "wire_overhead mode obfuscation =
     (case mode of Tun \<Rightarrow> 0 | _ \<Rightarrow> 18) + HEADER_LEN + AEAD_TAG_LEN + (if obfuscation \<noteq> None then OBFUSCATION_OVERHEAD else 0)"

definition effective_tunnel_mtu :: "u16 \<Rightarrow> nat \<Rightarrow> bool \<Rightarrow> u16" where
  "effective_tunnel_mtu requested overhead outer_is_ipv6 =
     (let safe_inner = default_udp_payload_mtu outer_is_ipv6 - overhead
      in min requested (if safe_inner \<le> 65535 then of_nat safe_inner else - 1))"

section \<open>Reconnecting\<close>

text \<open>
  One attempt: what the name lookup gives, the handshake's inputs, whether and where a stop signal cuts the attempt short, and whether one
  cuts the pause after it short. The boolean of a signal says that waiting for it succeeded.
\<close>

datatype interruption = InLookup bool | InRefresh nat bool | InHandshake bool

record round =
  rd_lookup :: "int option + socket_addr list"
  rd_stop :: "interruption option"
  rd_io :: client_io
  rd_script :: "turn list"
  rd_pause :: "bool option"

datatype attempt = Joined protected_session | AttemptFailed | Cancelled bool | Waiting

datatype client_effect = Sent socket_addr bytes | Slept duration | InTunnel effect

text \<open>The states of the host in which a cancelled refresh can leave it: each of its requests done or not.\<close>

definition refresh_stages ::
  "('k, 'n) os \<Rightarrow> u32 \<Rightarrow> virtual_interface \<Rightarrow> client_config \<Rightarrow> socket_addr \<Rightarrow> socket_addr \<Rightarrow> 'k \<Rightarrow> 'k list" where
  "refresh_stages os uid dev config old_server new_server k =
     (let k1 = (if sock_ip old_server \<noteq> sock_ip new_server then remove_endpoint_route os old_server k else k)
      in [k, k1] @
         (if full_tunnel config then [snd (install_kill_switch os (tunnel_kill_switch dev new_server uid) k1)] else []) @
         [snd (refresh_client_endpoint os uid dev config old_server new_server k)])"

definition join_server :: "client_env \<Rightarrow> round \<Rightarrow> socket_addr \<Rightarrow> attempt \<times> client_effect list" where
  "join_server env rd server =
     (case establish (env\<lparr>ce_server := server\<rparr>) (rd_io rd) None (rd_script rd) of
        (result, _, out) \<Rightarrow>
          (case rd_stop rd of
             Some (InHandshake ok) \<Rightarrow> Cancelled ok
           | _ \<Rightarrow> (case result of Got session \<Rightarrow> Joined session | Blocked \<Rightarrow> Waiting | _ \<Rightarrow> AttemptFailed),
           map (Sent server) out))"

definition reconnect_attempt ::
  "('k, 'n) os \<Rightarrow> u32 \<Rightarrow> virtual_interface \<Rightarrow> client_config \<Rightarrow> client_env \<Rightarrow> round \<Rightarrow> socket_addr \<Rightarrow> 'k \<Rightarrow>
   attempt \<times> socket_addr \<times> client_effect list \<times> 'k" where
  "reconnect_attempt os uid dev config env rd current k =
     (case rd_stop rd of
        Some (InLookup ok) \<Rightarrow> (Cancelled ok, current, [], k)
      | stop \<Rightarrow>
          (case resolve_endpoint (cc_server config) (rd_lookup rd) of
             Inl _ \<Rightarrow> (AttemptFailed, current, [], k)
           | Inr server \<Rightarrow>
               if server = current then (case join_server env rd server of (a, out) \<Rightarrow> (a, current, out, k))
               else
                 (case stop of
                    Some (InRefresh n ok) \<Rightarrow>
                      (let stages = refresh_stages os uid dev config current server k
                       in (Cancelled ok, current, [], stages ! min n (length stages - 1)))
                  | _ \<Rightarrow>
                      (case refresh_client_endpoint os uid dev config current server k of
                         (Inl _, k1) \<Rightarrow> (AttemptFailed, current, [], k1)
                       | (Inr _, k1) \<Rightarrow> (case join_server env rd server of (a, out) \<Rightarrow> (a, server, out, k1))))))"

datatype reconnect_result = Reconnected protected_session | StopRequested | SignalFailed | StillTrying

definition stopped :: "bool \<Rightarrow> reconnect_result" where
  "stopped ok = (if ok then StopRequested else SignalFailed)"

fun reconnect ::
  "('k, 'n) os \<Rightarrow> u32 \<Rightarrow> virtual_interface \<Rightarrow> client_config \<Rightarrow> client_env \<Rightarrow> duration \<Rightarrow> round list \<Rightarrow> socket_addr \<Rightarrow> 'k \<Rightarrow>
   reconnect_result \<times> socket_addr \<times> client_effect list \<times> 'k" where
  "reconnect os uid dev config env backoff [] current k = (StillTrying, current, [], k)"
| "reconnect os uid dev config env backoff (rd # rds) current k =
     (case reconnect_attempt os uid dev config env rd current k of
        (Joined session, server, out, k1) \<Rightarrow> (Reconnected session, server, out, k1)
      | (Cancelled ok, server, out, k1) \<Rightarrow> (stopped ok, server, out, k1)
      | (Waiting, server, out, k1) \<Rightarrow> (StillTrying, server, out, k1)
      | (AttemptFailed, server, out, k1) \<Rightarrow>
          (case rd_pause rd of
             Some ok \<Rightarrow> (stopped ok, server, out, k1)
           | None \<Rightarrow>
               (case reconnect os uid dev config env (min (backoff * 2) RECONNECT_MAX_BACKOFF) rds server k1 of
                  (r, server', out', k2) \<Rightarrow> (r, server', out @ Slept backoff # out', k2))))"

section \<open>The program\<close>

datatype run_error =
    RunConfig config_error
  | RunTransport transport_error
  | RunEstablish establish_error
  | RunClient client_error
  | RunTunnel tunnel_error
  | RunSignal
  | RunFile string
  | AlsoFailed run_error client_error

text \<open>The debug form of a session identifier.\<close>

fun comma_separated :: "string list \<Rightarrow> string" where
  "comma_separated [] = []"
| "comma_separated [t] = t"
| "comma_separated (t # ts) = t @ '', '' @ comma_separated ts"

definition session_text :: "session_id \<Rightarrow> string" where
  "session_text sid = ''SessionId(['' @ comma_separated (map (\<lambda>b. dec (unat b)) (into_bytes sid)) @ ''])''"

definition show_connected :: "u16 \<Rightarrow> protected_session \<Rightarrow> gui_state option \<Rightarrow> gui_state option" where
  "show_connected mtu session =
     map_option (\<lambda>g. set_key_phase (ps_key_phase session) (gui_connected (session_text (ps_session_id session)) (unat mtu) g))"

text \<open>One data plane and the attempts to reconnect after it.\<close>

record phase =
  ph_started :: instant
  ph_events :: "tunnel_event list"
  ph_rounds :: "round list"

fun client_loop ::
  "('k, 'n) os \<Rightarrow> u32 \<Rightarrow> virtual_interface \<Rightarrow> client_config \<Rightarrow> tunnel_env \<Rightarrow> u16 \<Rightarrow> phase list \<Rightarrow> protected_session \<Rightarrow> socket_addr \<Rightarrow>
   gui_state option \<Rightarrow> 'k \<Rightarrow> (run_error + unit) option \<times> socket_addr \<times> gui_state option \<times> client_effect list \<times> 'k" where
  "client_loop os uid dev config env mtu [] session server gui k = (None, server, gui, [], k)"
| "client_loop os uid dev config env mtu (ph # phs) session server gui k =
     (let env1 = env\<lparr>te_client := (te_client env)\<lparr>ce_server := server\<rparr>\<rparr> in
      case run_data_plane env1 (ph_events ph) (tunnel_start session (ph_started ph) gui) of
        (Exit Shutdown, out, st) \<Rightarrow> (Some (Inr ()), server, ts_gui st, map InTunnel out, k)
      | (Exit reason, out, st) \<Rightarrow>
          (case reconnect os uid dev config (te_client env) RECONNECT_INITIAL_BACKOFF (ph_rounds ph) server k of
             (Reconnected session', server', out', k') \<Rightarrow>
               (case client_loop os uid dev config env mtu phs session' server' (show_connected mtu session' (ts_gui st)) k' of
                  (r, server'', gui'', out'', k'') \<Rightarrow> (r, server'', gui'', map InTunnel out @ out' @ out'', k''))
           | (StopRequested, server', out', k') \<Rightarrow> (Some (Inr ()), server', ts_gui st, map InTunnel out @ out', k')
           | (SignalFailed, server', out', k') \<Rightarrow> (Some (Inl RunSignal), server', ts_gui st, map InTunnel out @ out', k')
           | (StillTrying, server', out', k') \<Rightarrow> (None, server', ts_gui st, map InTunnel out @ out', k'))
      | (Fail e, out, st) \<Rightarrow> (Some (Inl (RunTunnel e)), server, ts_gui st, map InTunnel out, k)
      | (_, out, st) \<Rightarrow> (None, server, ts_gui st, map InTunnel out, k))"

text \<open>What a run is given: the process, the devices, the text of a socket address and of a quoted string, and the inputs of its steps.\<close>

record 'k run_input =
  ri_prims :: prims
  ri_uid :: u32
  ri_pid :: nat
  ri_devices :: "'k device_ops"
  ri_sock_text :: "socket_addr \<Rightarrow> string"
  ri_quote :: "string \<Rightarrow> string"
  ri_lookup :: "int option + socket_addr list"
  ri_bind :: "io_error + unit"
  ri_opened :: "instant \<times> u64 option"
  ri_io :: client_io
  ri_script :: "turn list"
  ri_phases :: "phase list"

definition close_devices :: "'k device_ops \<Rightarrow> virtual_interface option \<Rightarrow> virtual_interface option \<Rightarrow> 'k \<Rightarrow> 'k" where
  "close_devices ops tun tap k =
     (let k1 = (case tap of Some d \<Rightarrow> dev_close ops d k | None \<Rightarrow> k)
      in case tun of Some d \<Rightarrow> dev_close ops d k1 | None \<Rightarrow> k1)"

definition replace_config_server ::
  "('k, 'n) os \<Rightarrow> 'k run_input \<Rightarrow> string option \<Rightarrow> client_config \<Rightarrow> socket_addr \<Rightarrow> ('k, run_error, client_config) net_op" where
  "replace_config_server os ri path config server =
     (if \<not> cc_dns_replace config then done_with config
      else
        (let config1 = config\<lparr>cc_server := ri_sock_text ri server\<rparr> in
         case path of
           None \<Rightarrow> done_with config1
         | Some p \<Rightarrow>
             seq (query (\<lambda>k. ok_or (os_read os k p) (RunFile p))) (\<lambda>current.
             seq (with_err (\<lambda>_. RunFile p) (os_write os p (replace_client_server (ri_quote ri) current (cc_server config1)))) (\<lambda>_.
               done_with config1))))"

definition local_bind :: "socket_addr \<Rightarrow> socket_addr" where
  "local_bind server = (if is_v4 (sock_ip server) then SockV4 0 0 else SockV6 0 0 0 0)"

definition open_transport :: "'k run_input \<Rightarrow> socket_addr \<Rightarrow> nat \<Rightarrow> transport_error + udp_transport" where
  "open_transport ri server limit =
     open_with_tuning \<lparr>local_address = local_bind server, remote_address = None, max_datagram_size = limit\<rparr> tuning_default
       (ri_bind ri) (Inr ()) (fst (ri_opened ri)) (snd (ri_opened ri))"

definition first_session :: "client_env \<Rightarrow> 'k run_input \<Rightarrow> (run_error + protected_session) option \<times> client_effect list" where
  "first_session env ri =
     (case establish env (ri_io ri) None (ri_script ri) of
        (Got session, _, out) \<Rightarrow> (Some (Inr session), map (Sent (ce_server env)) out)
      | (Blocked, _, out) \<Rightarrow> (None, map (Sent (ce_server env)) out)
      | (Erred e, _, out) \<Rightarrow> (Some (Inl (RunEstablish e)), map (Sent (ce_server env)) out)
      | (TimedOut, _, out) \<Rightarrow> (Some (Inl (RunEstablish EsResponseTimeout)), map (Sent (ce_server env)) out))"

text \<open>The part of the run with a session: devices, host network, data planes, and the host restored at the end.\<close>

definition with_session ::
  "('k, 'n) os \<Rightarrow> 'k run_input \<Rightarrow> client_config \<Rightarrow> client_env \<Rightarrow> u16 \<Rightarrow> gui_state option \<Rightarrow> protected_session \<Rightarrow> 'k \<Rightarrow>
   (run_error + unit) option \<times> gui_state option \<times> client_effect list \<times> 'k" where
  "with_session os ri config env mtu gui session k =
     (case create_client_devices (ri_devices ri) (ri_pid ri) config (interface_mode (cc_interface config)) mtu k of
        (Inl e, k1) \<Rightarrow> (Some (Inl (RunClient e)), gui, [], k1)
      | (Inr (tun, tap), k1) \<Rightarrow>
          (case (case tun of Some d \<Rightarrow> Some d | None \<Rightarrow> tap) of
             None \<Rightarrow> (Some (Inl (RunClient (Bail ''at least one device''))), gui, [], k1)
           | Some dev \<Rightarrow>
               (case configure_client_network os (ri_uid ri) dev config (ce_server env) False k1 of
                  (Inl e, k2) \<Rightarrow>
                    (Some (Inl (RunClient e)), gui, [],
                     close_devices (ri_devices ri) tun tap (teardown_client_network os (ri_uid ri) dev config (ce_server env) [] k2))
                | (Inr _, k2) \<Rightarrow>
                    (case client_loop os (ri_uid ri) dev config
                            \<lparr>te_client = env, te_rekey = cc_rekey config, te_liveness = liveness_timeout (cc_liveness config),
                             te_tun = (tun \<noteq> None), te_tap = (tap \<noteq> None)\<rparr>
                            mtu (ri_phases ri) session (ce_server env) gui k2 of
                       (None, server, gui', out, k3) \<Rightarrow> (None, gui', out, k3)
                     | (Some r, server, gui', out, k3) \<Rightarrow>
                         (Some r, gui', out,
                          close_devices (ri_devices ri) tun tap (teardown_client_network os (ri_uid ri) dev config server [] k3))))))"

definition run_client_inner ::
  "('k, 'n) os \<Rightarrow> 'k run_input \<Rightarrow> string option \<Rightarrow> client_config \<Rightarrow> gui_state option \<Rightarrow> socket_addr \<Rightarrow> 'k \<Rightarrow>
   (run_error + unit) option \<times> gui_state option \<times> client_effect list \<times> 'k" where
  "run_client_inner os ri path config0 gui0 server k =
     (case replace_config_server os ri path config0 server k of
        (Inl e, k1) \<Rightarrow> (Some (Inl e), gui0, [], k1)
      | (Inr config, k1) \<Rightarrow>
          (let gui = map_option (set_server (cc_server config)) gui0;
               mode = interface_mode (cc_interface config);
               requested = (case ic_mtu (cc_interface config) of Some m \<Rightarrow> m | None \<Rightarrow> DEFAULT_MTU)
           in case client_obfuscation_key_bytes (os_parsers os) config of
                Inl e \<Rightarrow> (Some (Inl (RunConfig e)), gui, [], k1)
              | Inr obfuscation \<Rightarrow>
                  (let overhead = wire_overhead mode obfuscation;
                       mtu = effective_tunnel_mtu requested overhead (\<not> is_v4 (sock_ip server))
                   in case open_transport ri server (unat mtu + overhead) of
                        Inl e \<Rightarrow> (Some (Inl (RunTransport e)), gui, [], k1)
                      | Inr _ \<Rightarrow>
                          (case client_auth_config (os_parsers os) config of
                             Inl e \<Rightarrow> (Some (Inl (RunConfig e)), gui, [], k1)
                           | Inr auth \<Rightarrow>
                               (let env = \<lparr>ce_prims = ri_prims ri, ce_server = server, ce_auth = auth, ce_obfuscation = obfuscation,
                                           ce_policy = cc_handshake config\<rparr>
                                in case first_session env ri of
                                     (None, out) \<Rightarrow> (None, gui, out, k1)
                                   | (Some (Inl e), out) \<Rightarrow> (Some (Inl e), gui, out, k1)
                                   | (Some (Inr session), out) \<Rightarrow>
                                       (case with_session os ri config env mtu (show_connected mtu session gui) session k1 of
                                          (r, gui', out', k2) \<Rightarrow> (r, gui', out @ out', k2)))))))"

definition run_client ::
  "('k, 'n) os \<Rightarrow> 'k run_input \<Rightarrow> string option \<Rightarrow> client_config \<Rightarrow> gui_state option \<Rightarrow> 'k \<Rightarrow>
   (run_error + unit) option \<times> gui_state option \<times> client_effect list \<times> 'k" where
  "run_client os ri path config gui k =
     (case resolve_endpoint (cc_server config) (ri_lookup ri) of
        Inl e \<Rightarrow> (Some (Inl (RunConfig e)), gui, [], k)
      | Inr server \<Rightarrow>
          (case install_bootstrap_kill_switch os (ri_uid ri) config server k of
             (Inl e, k1) \<Rightarrow> (Some (Inl (RunClient e)), gui, [], k1)
           | (Inr bootstrap, k1) \<Rightarrow>
               (case run_client_inner os ri path config gui server k1 of
                  (None, gui', out, k2) \<Rightarrow> (None, gui', out, k2)
                | (Some result, gui', out, k2) \<Rightarrow>
                    if \<not> bootstrap then (Some result, gui', out, k2)
                    else
                      (case remove_bootstrap_kill_switch os (ri_uid ri) k2 of
                         (Inr _, k3) \<Rightarrow> (Some result, gui', out, k3)
                       | (Inl cleanup, k3) \<Rightarrow>
                           (Some (Inl (case result of Inr _ \<Rightarrow> RunClient cleanup | Inl e \<Rightarrow> AlsoFailed e cleanup)), gui', out, k3)))))"

section \<open>The kill switch through a run\<close>

text \<open>Some kill switch of the user is installed.\<close>

definition guarded :: "('k \<Rightarrow> string \<Rightarrow> nft_expr list list option) \<Rightarrow> u32 \<Rightarrow> 'k \<Rightarrow> bool" where
  "guarded installed uid k \<longleftrightarrow> (\<exists>spec. ks_uid spec = uid \<and> installed k (table_name uid) = Some (installed_rules spec))"

lemma guarded_same: "installed k' = installed k \<Longrightarrow> guarded installed uid k \<Longrightarrow> guarded installed uid k'"
  by (simp add: guarded_def)

lemma guarded_keeps: "keeps installed f \<Longrightarrow> f k = (r, k') \<Longrightarrow> guarded installed uid k \<Longrightarrow> guarded installed uid k'"
  using keeps_pair guarded_same by metis

lemma guarded_install:
  assumes "filter_laws os installed" and "install_kill_switch os spec k = (r, k')" and "ks_uid spec = uid"
  shows "r = Inr () \<or> guarded installed uid k \<Longrightarrow> guarded installed uid k'"
  using install_transaction [OF filter_lawsD(1) [OF assms(1)], of spec k r k'] assms(2,3)
  by (auto simp: install_kill_switch_def guarded_def)

lemma guarded_context_install:
  assumes "filter_laws os installed" and "context_of c (install_kill_switch os spec) k = (r, k')" and "ks_uid spec = uid"
  shows "r = Inr () \<or> guarded installed uid k \<Longrightarrow> guarded installed uid k'"
proof -
  obtain r0 where "install_kill_switch os spec k = (r0, k')" "r = map_err (\<lambda>e. Context c (FromNet e)) r0"
    using assms(2) by (auto simp: context_of_def with_err_def split: prod.splits)
  then show "r = Inr () \<or> guarded installed uid k \<Longrightarrow> guarded installed uid k'"
    using guarded_install [OF assms(1) _ assms(3), of k r0 k'] by (cases r0) auto
qed

lemma remove_endpoint_keeps:
  assumes "filter_laws os installed"
  shows "installed (remove_endpoint_route os server k) = installed k"
proof -
  note F = filter_lawsD [OF assms]
  obtain r k1 where b: "best_route_to os (sock_ip server) k = (r, k1)" by fastforce
  have "installed k1 = installed k" using keeps_pair [OF keeps_links(5) [OF F(2)] b] .
  then show ?thesis using b keepsD [OF keeps_route_ops(2) [OF F(3,4)], of _ k1] by (cases r) (auto simp: remove_endpoint_route_def)
qed

lemma guarded_refresh:
  assumes F: "filter_laws os installed" and "refresh_client_endpoint os uid dev config old new k = (r, k')" and "guarded installed uid k"
  shows "guarded installed uid k'"
  using assms(2) unfolding refresh_client_endpoint_def
proof (cases rule: seq_cases)
  note net_keeps = guarded_keeps [OF keeps_contexts(2) [OF keeps_links(1) [OF filter_lawsD(2) [OF F]]]]
  {
    case (failed e)
    then show ?thesis using net_keeps assms(3) by blast
  next
    case opened: (went_on u k0)
    have g0: "guarded installed uid k0" using net_keeps opened(1) assms(3) by blast
    have k1: "guarded installed uid (if sock_ip old \<noteq> sock_ip new then remove_endpoint_route os old k0 else k0)"
      using g0 guarded_same [of installed, OF remove_endpoint_keeps [OF F]] by simp
    from opened(2) show ?thesis
    proof (cases rule: seq_cases)
      case (failed e)
      then show ?thesis by simp
    next
      case route: (went_on v k1')
      then have g1: "guarded installed uid k1'" using k1 by simp
      show ?thesis
      proof (cases "full_tunnel config")
        case True
        from route(2) show ?thesis unfolding if_P [OF True]
        proof (cases rule: seq_cases)
          case (failed e)
          then show ?thesis using guarded_context_install [OF F failed(1)] g1 by (simp add: tunnel_kill_switch_def)
        next
          case (went_on w k2)
          then have "guarded installed uid k2" using guarded_context_install [OF F went_on(1)] g1 by (simp add: tunnel_kill_switch_def)
          then show ?thesis using guarded_keeps [OF keeps_steps(1) [OF F] went_on(2)] by blast
        qed
      next
        case False
        then show ?thesis using route(2) g1 by (simp add: done_with_def)
      qed
    qed
  }
qed

lemma guarded_stages:
  assumes F: "filter_laws os installed" and g: "guarded installed uid k" and "k' \<in> set (refresh_stages os uid dev config old new k)"
  shows "guarded installed uid k'"
proof -
  let ?k1 = "if sock_ip old \<noteq> sock_ip new then remove_endpoint_route os old k else k"
  have g1: "guarded installed uid ?k1" using g guarded_same [of installed, OF remove_endpoint_keeps [OF F]] by simp
  have "guarded installed uid (snd (install_kill_switch os (tunnel_kill_switch dev new uid) ?k1))"
    using guarded_install [OF F, of "tunnel_kill_switch dev new uid" ?k1 "fst (install_kill_switch os (tunnel_kill_switch dev new uid) ?k1)"] g1
    by (simp add: tunnel_kill_switch_def)
  moreover have "guarded installed uid (snd (refresh_client_endpoint os uid dev config old new k))"
    using guarded_refresh [OF F _ g] by (metis prod.collapse)
  ultimately show ?thesis using assms(3) g g1 by (auto simp: refresh_stages_def Let_def split: if_splits)
qed

lemma guarded_attempt:
  assumes F: "filter_laws os installed" and g: "guarded installed uid k"
    and a: "reconnect_attempt os uid dev config env rd current k = (a, server, out, k')"
  shows "guarded installed uid k'"
proof -
  have stage: "guarded installed uid (refresh_stages os uid dev config current s k ! min n (length (refresh_stages os uid dev config current s k) - Suc 0))" for s n
    by (rule guarded_stages [OF F g nth_mem]) (simp add: refresh_stages_def Let_def)
  have ref: "refresh_client_endpoint os uid dev config current s k = (r, k1) \<Longrightarrow> guarded installed uid k1" for s r k1
    by (rule guarded_refresh [OF F _ g])
  show ?thesis using a g stage ref
    by (auto simp: reconnect_attempt_def Let_def split: option.splits interruption.splits sum.splits if_splits prod.splits)
qed

lemma guarded_reconnect:
  assumes F: "filter_laws os installed" and "guarded installed uid k" and "reconnect os uid dev config env backoff rds current k = (r, server, out, k')"
  shows "guarded installed uid k'"
  using assms(2,3)
proof (induction rds arbitrary: backoff current k r server out)
  case (Cons rd rds)
  obtain a s1 out1 k1 where a: "reconnect_attempt os uid dev config env rd current k = (a, s1, out1, k1)" using prod_cases4 by blast
  have g1: "guarded installed uid k1" by (rule guarded_attempt [OF F Cons.prems(1) a])
  show ?case using Cons.prems(2) a g1 Cons.IH [OF g1]
    by (cases a) (auto split: option.splits prod.splits)
qed simp

lemma guarded_loop:
  assumes F: "filter_laws os installed" and "guarded installed uid k"
    and "client_loop os uid dev config env mtu phs session server gui k = (r, server', gui', out, k')"
  shows "guarded installed uid k'"
  using assms(2,3)
proof (induction phs arbitrary: session server gui k r server' gui' out)
  case (Cons ph phs)
  let ?env = "env\<lparr>te_client := (te_client env)\<lparr>ce_server := server\<rparr>\<rparr>"
  obtain pr o1 st where d: "run_data_plane ?env (ph_events ph) (tunnel_start session (ph_started ph) gui) = (pr, o1, st)" using prod_cases3 by blast
  obtain rr s1 o2 k1 where r: "reconnect os uid dev config (te_client env) RECONNECT_INITIAL_BACKOFF (ph_rounds ph) server k = (rr, s1, o2, k1)"
    using prod_cases4 by blast
  have g1: "guarded installed uid k1" by (rule guarded_reconnect [OF F Cons.prems(1) r])
  show ?case using Cons.prems d r g1 Cons.IH [OF g1]
    by (cases pr; cases rr) (auto simp: Let_def split: data_plane_exit.splits prod.splits)
qed simp

lemma guarded_configure:
  assumes F: "filter_laws os installed" and conf: "configure_client_network os uid dev config server nm k = (r, k')" and g: "guarded installed uid k"
  shows "guarded installed uid k'"
  using conf unfolding configure_client_network_def
proof (cases rule: seq_cases)
  note q = keeps_contexts(2) [OF keeps_links(1) [OF filter_lawsD(2) [OF F]]] keeps_contexts(1) [OF keeps_links(2) [OF filter_lawsD(2) [OF F]]]
  {
    case (failed e)
    then show ?thesis using guarded_keeps [OF q(1)] g by blast
  next
    case opened: (went_on u k0)
    have g0: "guarded installed uid k0" using guarded_keeps [OF q(1) opened(1) g] .
    from opened(2) show ?thesis
    proof (cases rule: seq_cases)
      case (failed e)
      then show ?thesis using guarded_keeps [OF q(2)] g0 by blast
    next
      case link: (went_on index k1)
      have g1: "guarded installed uid k1" using guarded_keeps [OF q(2) link(1) g0] .
      have step: "guarded installed uid k2"
        if "(if full_tunnel config then context_of ''updating Linux kill switch for tunnel interface'' (install_kill_switch os (tunnel_kill_switch dev server uid))
             else done_with ()) k1 = (w, k2)" for w k2
        using that guarded_context_install [OF F] g1 by (cases "full_tunnel config") (auto simp: done_with_def tunnel_kill_switch_def)
      from link(2) show ?thesis
      proof (cases rule: seq_cases)
        case (failed e)
        then show ?thesis using step by blast
      next
        case (went_on w k2)
        then show ?thesis using step guarded_keeps [OF keeps_configure_interface [OF F]] by blast
      qed
    qed
  }
qed

text \<open>Creating and closing devices does not change packet filters.\<close>

definition device_laws :: "'k device_ops \<Rightarrow> ('k \<Rightarrow> 'v) \<Rightarrow> bool" where
  "device_laws ops v \<longleftrightarrow> (\<forall>c. keeps v (dev_create ops c)) \<and> (\<forall>d k. v (dev_close ops d k) = v k)"

lemma keeps_create:
  assumes "device_laws ops v"
  shows "keeps v (create_client_devices ops pid config mode mtu)"
proof -
  have D: "keeps v (dev_create ops c)" "v (dev_close ops d k) = v k" for c d k using assms by (simp_all add: device_laws_def)
  have w: "with_err FromInterface (dev_create ops c) k = (r, k') \<Longrightarrow> v k' = v k" for c k r k'
    using keeps_pair [OF keeps_with_err [OF D(1)]] .
  show ?thesis unfolding create_client_devices_def create_native_client_devices_def Let_def
    by (intro keeps_seq keeps_if keeps_basic keeps_with_err D(1) keepsI)
      (auto simp: D(2) dest!: w split: prod.splits sum.splits option.splits)
qed

lemma keeps_replace_config:
  assumes "quiet_commands os v"
  shows "keeps v (replace_config_server os ri path config server)"
  unfolding replace_config_server_def Let_def
  by (auto split: option.split intro!: keeps_seq keeps_with_err quiet_commandsD(3) [OF assms])

lemma replace_config_routing:
  "replace_config_server os ri path config server k = (Inr config', k') \<Longrightarrow> cc_routing config' = cc_routing config"
  by (auto simp: replace_config_server_def done_with_def Let_def split: if_splits option.splits elim!: seq_cases)

lemma guarded_with_session:
  assumes F: "filter_laws os installed" and D: "device_laws (ri_devices ri) installed" and g: "guarded installed (ri_uid ri) k"
    and w: "with_session os ri config env mtu gui session k = (None, gui', out, k')"
  shows "guarded installed (ri_uid ri) k'"
proof -
  obtain c k1 where c: "create_client_devices (ri_devices ri) (ri_pid ri) config (interface_mode (cc_interface config)) mtu k = (c, k1)" by fastforce
  have g1: "guarded installed (ri_uid ri) k1" by (rule guarded_keeps [OF keeps_create [OF D] c g])
  show ?thesis using w c guarded_loop [OF F guarded_configure [OF F _ g1]]
    by (fastforce simp: with_session_def split: sum.splits prod.splits option.splits)
qed

lemma guarded_inner:
  assumes F: "filter_laws os installed" and D: "device_laws (ri_devices ri) installed" and g: "guarded installed (ri_uid ri) k"
    and r: "run_client_inner os ri path config gui server k = (None, gui', out, k')"
  shows "guarded installed (ri_uid ri) k'"
proof -
  obtain c k1 where c: "replace_config_server os ri path config server k = (c, k1)" by fastforce
  have g1: "guarded installed (ri_uid ri) k1" by (rule guarded_keeps [OF keeps_replace_config [OF filter_lawsD(2) [OF F]] c g])
  show ?thesis using r c g1 guarded_with_session [OF F D g1]
    by (auto simp: run_client_inner_def Let_def split: sum.splits prod.splits option.splits)
qed

lemma bootstrap_guards:
  assumes F: "filter_laws os installed" and full: "full_tunnel config" and b: "install_bootstrap_kill_switch os uid config server k = (r, k')"
  shows "r = Inr True \<and> guarded installed uid k' \<or> (\<exists>e. r = Inl e) \<and> (installed k' = installed k \<or> guarded installed uid k')"
  using b full unfolding install_bootstrap_kill_switch_def if_not_P [OF not_not [THEN iffD2, OF full]]
proof (elim seq_cases)
  note n = keeps_pair [OF keeps_contexts(2) [OF keeps_links(1) [OF filter_lawsD(2) [OF F]]]]
  fix a k1 a' k2
  assume s: "context_of ''opening Linux networking backend'' (system_net os) k = (Inr a, k1)"
    "context_of ''installing Linux bootstrap kill switch'' (install_kill_switch os \<lparr>ks_endpoint = server, ks_tunnel_interface = None, ks_uid = uid\<rparr>) k1 = (Inr a', k2)"
    "done_with True k2 = (r, k')"
  then show ?thesis using guarded_context_install [OF F s(2)] by (simp add: done_with_def)
next
  note n = keeps_pair [OF keeps_contexts(2) [OF keeps_links(1) [OF filter_lawsD(2) [OF F]]]]
  fix a k1 e
  assume s: "context_of ''opening Linux networking backend'' (system_net os) k = (Inr a, k1)"
    "context_of ''installing Linux bootstrap kill switch'' (install_kill_switch os \<lparr>ks_endpoint = server, ks_tunnel_interface = None, ks_uid = uid\<rparr>) k1 = (Inl e, k')"
    "r = Inl e"
  have k1: "installed k1 = installed k" using n [OF s(1)] .
  from kill_switch_step [OF F s(2)] show ?thesis
  proof
    assume "installed k' = (installed k1)(table_name (ks_uid \<lparr>ks_endpoint = server, ks_tunnel_interface = None, ks_uid = uid\<rparr>) \<mapsto>
      installed_rules \<lparr>ks_endpoint = server, ks_tunnel_interface = None, ks_uid = uid\<rparr>)"
    then have "guarded installed uid k'"
      unfolding guarded_def by (intro exI [of _ "\<lparr>ks_endpoint = server, ks_tunnel_interface = None, ks_uid = uid\<rparr>"]) simp
    then show ?thesis using s(3) by blast
  qed (simp add: k1 s(3))
next
  fix e
  assume "context_of ''opening Linux networking backend'' (system_net os) k = (Inl e, k')" "r = Inl e"
  then show ?thesis using keeps_pair [OF keeps_contexts(2) [OF keeps_links(1) [OF filter_lawsD(2) [OF F]]]] by blast
qed

lemma bootstrap_removed:
  assumes F: "filter_laws os installed" and "remove_bootstrap_kill_switch os uid k = (Inr u, k')"
  shows "installed k' (table_name uid) = None"
  using assms(2) unfolding remove_bootstrap_kill_switch_def
proof (cases rule: seq_cases)
  case (went_on a k1)
  then obtain r where r: "ks_remove (os_send_batch os) uid k1 = (r, k')" "is_ok r"
    by (cases "fst (remove_kill_switch os uid k1)") (auto simp: context_of_def with_err_def remove_kill_switch_def split: prod.splits)
  then have "r = Inr ()" by (cases r) simp_all
  then show ?thesis using remove_transaction [OF filter_lawsD(1) [OF F] r(1)] by auto
qed simp

section \<open>Datagram sizes\<close>

lemma wire_overhead_le: "wire_overhead mode obf \<le> 173"
  by (cases mode) (simp_all add: wire_overhead_def OBFUSCATION_OVERHEAD_def MAX_PADDING_def)

lemma effective_tunnel_mtu_le: "unat (effective_tunnel_mtu requested (wire_overhead mode obf) v6) + wire_overhead mode obf \<le> default_udp_payload_mtu v6"
proof -
  let ?d = "default_udp_payload_mtu v6" and ?w = "wire_overhead mode obf"
  have d: "173 \<le> ?d" "?d \<le> 1472" by (simp_all add: default_udp_payload_mtu_def DEFAULT_PATH_MTU_def)
  then have "?d - ?w \<le> 65535" by simp
  then have "effective_tunnel_mtu requested ?w v6 \<le> of_nat (?d - ?w)" by (simp add: effective_tunnel_mtu_def Let_def)
  moreover have "unat (of_nat (?d - ?w) :: u16) = ?d - ?w" using d by (simp add: unat_of_nat)
  ultimately show ?thesis using d wire_overhead_le [of mode obf] by (simp add: word_le_nat_alt)
qed

section \<open>Waiting between attempts\<close>

fun slept :: "client_effect \<Rightarrow> duration list" where
  "slept (Slept d) = [d]"
| "slept _ = []"

definition sleeps :: "client_effect list \<Rightarrow> duration list" where
  "sleeps out = concat (map slept out)"

lemma sleeps_simps [simp]: "sleeps [] = []" "sleeps (e # out) = slept e @ sleeps out" "sleeps (a @ b) = sleeps a @ sleeps b"
  by (simp_all add: sleeps_def)

lemma sleeps_sent [simp]: "sleeps (map (Sent server) ws) = []"
  by (induction ws) simp_all

lemma sleeps_attempt: "reconnect_attempt os uid dev config env rd current k = (a, server, out, k') \<Longrightarrow> sleeps out = []"
  by (auto simp: reconnect_attempt_def join_server_def Let_def split: option.splits interruption.splits sum.splits if_splits prod.splits)

text \<open>The pause after attempt number \<open>n\<close>, counted from 0.\<close>

definition backoff_after :: "nat \<Rightarrow> duration" where
  "backoff_after n = min (secs (2 ^ n)) (secs 30)"

lemma sleeps_reconnect:
  "reconnect os uid dev config env (backoff_after n) rds current k = (r, server, out, k') \<Longrightarrow>
     sleeps out = map backoff_after [n ..< n + length (sleeps out)]"
proof (induction rds arbitrary: n current k r server out)
  case (Cons rd rds)
  obtain a s1 out1 k1 where a: "reconnect_attempt os uid dev config env rd current k = (a, s1, out1, k1)" using prod_cases4 by blast
  note e = sleeps_attempt [OF a]
  have b: "min (backoff_after n * 2) RECONNECT_MAX_BACKOFF = backoff_after (Suc n)"
    by (simp add: backoff_after_def RECONNECT_MAX_BACKOFF_def min_def)
  show ?case
  proof (cases "a = AttemptFailed \<and> rd_pause rd = None")
    case True
    obtain r2 s2 out2 k2 where rec: "reconnect os uid dev config env (backoff_after (Suc n)) rds s1 k1 = (r2, s2, out2, k2)" using prod_cases4 by blast
    have out: "out = out1 @ Slept (backoff_after n) # out2" using Cons.prems a True rec by (simp add: b)
    have k: "k2 = k'" using Cons.prems a True rec by (simp add: b)
    have "sleeps out2 = map backoff_after [Suc n ..< Suc n + length (sleeps out2)]"
      by (rule Cons.IH [OF rec [unfolded k]])
    moreover have "sleeps out = backoff_after n # sleeps out2" unfolding out using e by simp
    moreover from this have "[n ..< n + length (sleeps out)] = n # [Suc n ..< Suc n + length (sleeps out2)]"
      by (simp add: upt_conv_Cons del: upt_Suc)
    ultimately show ?thesis by (metis list.map(2))
  next
    case False
    then show ?thesis using Cons.prems a e by (cases a; cases "rd_pause rd") auto
  qed
qed simp

section \<open>An example run\<close>

definition ex_run_config :: client_config where
  "ex_run_config = ex_client_config\<lparr>cc_auth := Some (PinnedKeyMode (concat (replicate 32 [CHR ''1'', CHR ''1''])) (concat (replicate 32 [CHR ''1'', CHR ''1''])))\<rparr>"

definition ex_idle_io :: client_io where
  "ex_idle_io = \<lparr>io_start = (Some (replicate 32 1), Some (replicate 32 2)), io_draw = \<lambda>_. (None, None, \<lambda>_. None), io_sent = \<lambda>_. None, io_finish = (0, 0)\<rparr>"

definition ex_run_input :: "ex_host run_input" where
  "ex_run_input =
     \<lparr>ri_prims = plain_prims, ri_uid = 1001, ri_pid = 4711, ri_devices = \<lparr>dev_create = \<lambda>_ k. (Inl UnsupportedPlatform, k), dev_close = \<lambda>_ k. k\<rparr>,
      ri_sock_text = \<lambda>_. ''198.51.100.9:51820'', ri_quote = quoted, ri_lookup = Inr [ex_server_addr], ri_bind = Inr (), ri_opened = (0, None),
      ri_io = ex_idle_io, ri_script = [], ri_phases = []\<rparr>"

lemma ex_bootstrap: "\<exists>k. install_bootstrap_kill_switch ex_os 1001 ex_run_config ex_server_addr ex_online = (Inr True, k)"
proof -
  let ?spec = "\<lparr>ks_endpoint = ex_server_addr, ks_tunnel_interface = None, ks_uid = 1001\<rparr>"
  obtain b1 b2 where b: "build_batch ?spec True = Inr b1" "build_batch ?spec False = Inr b2" by (simp add: build_batch_def)
  then have "\<exists>k. install_kill_switch ex_os ?spec ex_online = (Inr (), k)"
    using build_batch_shape [OF b(1)] build_batch_shape [OF b(2)]
    by (cases "eh_tables ex_online (table_name (ks_uid ?spec))") (auto simp: install_kill_switch_def install_def send_built_def ex_os_def ex_send_def ex_missing)
  moreover have "full_tunnel ex_run_config" by (simp add: full_tunnel_def ex_run_config_def ex_client_config_def)
  moreover have "system_net ex_os k = (Inr (), k)" for k by (simp add: system_net_def with_err_def query_def ex_os_def)
  ultimately show ?thesis
    by (auto simp: install_bootstrap_kill_switch_def seq_def context_of_def with_err_def done_with_def)
qed

lemma ex_first_session:
  assumes "ce_prims env = plain_prims" and "ce_obfuscation env = None" and "ce_policy env = handshake_config_default"
  shows "fst (first_session env ex_run_input) = None"
proof -
  have "\<exists>ih ini. initiator_start plain_prims (cfg_identity (ce_auth env)) (cfg_verifier (ce_auth env)) (Some (replicate 32 1)) (Some (replicate 32 2)) = Inr (ih, ini)"
    by (simp add: initiator_start_def ephemeral_generate_def secret_random_def Let_def)
  then obtain ih ini where i: "initiator_start (ce_prims env) (cfg_identity (ce_auth env)) (cfg_verifier (ce_auth env))
      (fst (io_start ex_idle_io)) (snd (io_start ex_idle_io)) = Inr (ih, ini)"
    by (auto simp: assms ex_idle_io_def)
  obtain n where r: "retry_limit (ce_policy env) = Suc n" by (simp add: assms handshake_config_default_def gr0_conv_Suc [of 5, simplified])
  have "fst (establish env ex_idle_io None []) = Blocked"
    unfolding establish_def i by (simp add: establish_target_def r Let_def client_send_def assms(2)) (simp add: ex_idle_io_def)
  then show ?thesis by (auto simp: first_session_def ex_run_input_def split: prod.split awaited.splits)
qed

lemma ex_hex: "plain_hex_decode (concat (replicate n [CHR ''1'', CHR ''1''])) = Some (replicate n 0x11)"
  by (induction n) (simp_all add: nibble_value_def)

lemma ex_auth: "\<exists>auth. client_auth_config (os_parsers ex_os) ex_run_config = Inr auth"
proof -
  have len: "length (concat (replicate 32 [CHR ''1'', CHR ''1''])) = 64" by (simp add: length_concat sum_list_replicate)
  have "hex_decode (os_parsers ex_os) (concat (replicate 32 [CHR ''1'', CHR ''1''])) = Some (replicate 32 0x11)"
    using ex_hex [of 32] by (simp add: ex_os_def ex_parsers_def plain_parsers_def)
  then show ?thesis using len by (simp add: client_auth_config_def ex_run_config_def ok_or_def decode_key32_def)
qed

lemma ex_open: "n \<le> 65507 \<Longrightarrow> 0 < n \<Longrightarrow> is_ok (open_transport ex_run_input ex_server_addr n)"
  by (simp add: open_transport_def open_with_tuning_def transport_config_validate_def MAX_UDP_PAYLOAD_SIZE_def ex_run_input_def Let_def)

lemma ex_run_waits: "fst (run_client ex_os ex_run_input None ex_run_config None ex_online) = None"
proof -
  have l: "resolve_endpoint (cc_server ex_run_config) (ri_lookup ex_run_input) = Inr ex_server_addr" by (simp add: resolve_endpoint_def ex_run_input_def)
  obtain k1 where b: "install_bootstrap_kill_switch ex_os 1001 ex_run_config ex_server_addr ex_online = (Inr True, k1)"
    using ex_bootstrap by blast
  have c: "replace_config_server ex_os ex_run_input None ex_run_config ex_server_addr k1 = (Inr ex_run_config, k1)"
    by (simp add: replace_config_server_def done_with_def ex_run_config_def ex_client_config_def)
  have o: "client_obfuscation_key_bytes (os_parsers ex_os) ex_run_config = Inr None"
    by (simp add: client_obfuscation_key_bytes_def key_bytes_def ex_run_config_def ex_client_config_def)
  obtain auth where a: "client_auth_config (os_parsers ex_os) ex_run_config = Inr auth" using ex_auth by blast
  let ?mtu = "effective_tunnel_mtu (case ic_mtu (cc_interface ex_run_config) of Some m \<Rightarrow> m | None \<Rightarrow> DEFAULT_MTU) (wire_overhead (interface_mode (cc_interface ex_run_config)) None)
    (\<not> is_v4 (sock_ip ex_server_addr))"
  have "is_ok (open_transport ex_run_input ex_server_addr (unat ?mtu + wire_overhead (interface_mode (cc_interface ex_run_config)) None))"
    by (rule ex_open, rule order.trans [OF effective_tunnel_mtu_le])
      (simp_all add: wire_overhead_def default_udp_payload_mtu_def DEFAULT_PATH_MTU_def)
  then obtain t where t: "open_transport ex_run_input ex_server_addr (unat ?mtu + wire_overhead (interface_mode (cc_interface ex_run_config)) None) = Inr t"
    by (cases "open_transport ex_run_input ex_server_addr (unat ?mtu + wire_overhead (interface_mode (cc_interface ex_run_config)) None)") simp_all
  let ?env = "\<lparr>ce_prims = plain_prims, ce_server = ex_server_addr, ce_auth = auth, ce_obfuscation = None, ce_policy = cc_handshake ex_run_config\<rparr>"
  have "fst (first_session ?env ex_run_input) = None"
    by (rule ex_first_session) (simp_all add: ex_run_config_def ex_client_config_def)
  then obtain out where f: "first_session ?env ex_run_input = (None, out)" by (metis prod.collapse)
  have u: "ri_uid ex_run_input = 1001" "ri_prims ex_run_input = plain_prims" by (simp_all add: ex_run_input_def)
  have "fst (run_client_inner ex_os ex_run_input None ex_run_config None ex_server_addr k1) = None"
    using c o t a f u by (simp add: run_client_inner_def Let_def)
  then show ?thesis using l b u by (auto simp: run_client_def split: prod.split option.split)
qed

definition ex_reconnect_env :: client_env where
  "ex_reconnect_env = \<lparr>ce_prims = plain_prims, ce_server = ex_server_addr, ce_auth = CfgPinnedKey (replicate 32 1) (replicate 32 2),
     ce_obfuscation = None, ce_policy = handshake_config_default\<rparr>"

definition ex_round :: round where
  "ex_round = \<lparr>rd_lookup = Inl None, rd_stop = None, rd_io = ex_idle_io, rd_script = [], rd_pause = None\<rparr>"

section \<open>Properties\<close>

text \<open>
  C13. The kill switch through a run of a full-tunnel client, from the resolved name of the server on: whenever the client waits, for the first
  handshake, in a data plane or between attempts to reconnect, some kill switch of the user is installed; when it ends well, the user's kill switch is
  gone; when it ends with an error, the user's kill switch is gone, or all tables are as before the run, or removing the kill switch or installing the
  first one is what failed.
\<close>

theorem kill_switch_lifecycle:
  assumes F: "filter_laws os installed" and D: "device_laws (ri_devices ri) installed" and full: "full_tunnel config"
    and run: "run_client os ri path config gui k = (result, gui', out, k')"
  shows "case result of
      None \<Rightarrow> \<exists>spec. ks_uid spec = ri_uid ri \<and> installed k' (table_name (ri_uid ri)) = Some (installed_rules spec)
    | Some (Inr _) \<Rightarrow> installed k' (table_name (ri_uid ri)) = None
    | Some (Inl _) \<Rightarrow> installed k' (table_name (ri_uid ri)) = None \<or> installed k' = installed k \<or>
        (\<exists>k2 e. remove_bootstrap_kill_switch os (ri_uid ri) k2 = (Inl e, k')) \<or>
        (\<exists>server e. install_bootstrap_kill_switch os (ri_uid ri) config server k = (Inl e, k'))"
proof (cases "resolve_endpoint (cc_server config) (ri_lookup ri)")
  case (Inl e)
  then show ?thesis using run by (auto simp: run_client_def)
next
  case (Inr server)
  obtain b k1 where b: "install_bootstrap_kill_switch os (ri_uid ri) config server k = (b, k1)" by fastforce
  obtain r g o2 k2 where i: "run_client_inner os ri path config gui server k1 = (r, g, o2, k2)" using prod_cases4 by blast
  obtain d k3 where d: "remove_bootstrap_kill_switch os (ri_uid ri) k2 = (d, k3)" by fastforce
  note eq = run [unfolded run_client_def, simplified Inr b i d sum.case prod.case]
  from bootstrap_guards [OF F full b] show ?thesis
  proof
    assume g: "b = Inr True \<and> guarded installed (ri_uid ri) k1"
    show ?thesis
    proof (cases r)
      case None
      then show ?thesis using eq g guarded_inner [OF F D conjunct2 [OF g] i [unfolded None]] by (auto simp: guarded_def)
    next
      case (Some a)
      show ?thesis
      proof (cases d)
        case (Inl e)
        then obtain e' where "result = Some (Inl e')" "k3 = k'" using eq g Some by (cases a) auto
        then show ?thesis using d Inl by auto
      next
        case (Inr u)
        then have "result = Some a" "k3 = k'" using eq g Some by simp_all
        then show ?thesis using bootstrap_removed [OF F d [unfolded Inr]] by (cases a) simp_all
      qed
    qed
  next
    assume "(\<exists>e. b = Inl e) \<and> (installed k1 = installed k \<or> guarded installed (ri_uid ri) k1)"
    then show ?thesis using eq b by auto
  qed
qed

theorem kill_switch_lifecycle_witness:
  "\<exists>gui out k. run_client ex_os ex_run_input None ex_run_config None ex_online = (None, gui, out, k) \<and>
     (\<exists>spec. ks_uid spec = 1001 \<and> eh_tables k (table_name 1001) = Some (installed_rules spec))"
proof -
  have D: "device_laws (ri_devices ex_run_input) eh_tables" by (simp add: device_laws_def ex_run_input_def keeps_def)
  have full: "full_tunnel ex_run_config" by (simp add: full_tunnel_def ex_run_config_def ex_client_config_def)
  have "fst (run_client ex_os ex_run_input None ex_run_config None ex_online) = None" by (rule ex_run_waits)
  then obtain gui out k where run: "run_client ex_os ex_run_input None ex_run_config None ex_online = (None, gui, out, k)" by (metis prod.collapse)
  from kill_switch_lifecycle [OF ex_filter D full run] have "\<exists>spec. ks_uid spec = 1001 \<and> eh_tables k (table_name 1001) = Some (installed_rules spec)"
    by (simp add: ex_run_input_def)
  then show ?thesis using run by blast
qed

text \<open>
  C26. Datagrams of the data plane fit the path: whatever packet a device hands over, its sealed and wrapped form is no longer than the transport's limit,
  the tunnel MTU and the overhead, which is at most the payload of a standard path of the outer family. The MTU never
  wraps, whatever the configuration requests.
\<close>

theorem client_datagrams_fit:
  assumes "lawful_aead p" and "lawful_stream p" and "\<And>n bs. snd (snd draw) n = Some bs \<Longrightarrow> length bs = n"
    and dev: "vi_mtu dev = effective_tunnel_mtu requested (wire_overhead mode obf) v6" "vi_mode dev = Tun \<or> (vi_mode dev = Tap \<and> mode \<noteq> Tun)"
    and recv: "vi_recv dev outcomes = Some (Inr plaintext)"
    and seal: "session_seal p s k plaintext = (Inr pkt, s')" and "wf_session_id (ps_session_id s)"
    and wrap: "wrap_wire p obf draw (packet_encode pkt) = Inr w"
  shows "length w \<le> unat (vi_mtu dev) + wire_overhead mode obf \<and> unat (vi_mtu dev) + wire_overhead mode obf \<le> default_udp_payload_mtu v6"
proof -
  have l: "length plaintext \<le> unat (vi_mtu dev) + (case mode of Tun \<Rightarrow> 0 | _ \<Rightarrow> 18)"
    using vi_recv_Inr [OF recv] dev(2) by (auto simp: max_packet_len_def split: device_mode.splits)
  have "length (packet_encode pkt) = 30 + length (payload pkt)"
    using session_seal_Inr(5) [OF seal] assms(8) by (intro length_packet_encode) (simp add: wf_header_def)
  then have e: "length (packet_encode pkt) = 46 + length plaintext" using crypt_length [OF assms(1) session_seal_Inr(8) [OF seal]] by simp
  have "length w \<le> length (packet_encode pkt) + (if obf \<noteq> None then OBFUSCATION_OVERHEAD else 0)"
  proof (cases obf)
    case (Some key)
    obtain n sel pad where dr: "draw = (n, sel, pad)" using prod_cases3 by blast
    show ?thesis using obf_unwrap_wrap [OF assms(2), of pad key "packet_encode pkt" n sel w] assms(3) wrap by (simp add: Some dr)
  qed (use wrap in simp)
  then show ?thesis using l e effective_tunnel_mtu_le [of requested mode obf v6] unfolding dev(1) by (auto simp: wire_overhead_def)
qed

theorem client_datagrams_fit_witness:
  "\<exists>pkt s' w. session_seal plain_prims (session_new ZERO 0 \<lparr>send_key = replicate 32 1, receive_key = replicate 32 2\<rparr> 0) Data [0x45, 0, 0] = (Inr pkt, s') \<and>
     wrap_wire plain_prims None (None, None, \<lambda>_. None) (packet_encode pkt) = Inr w \<and> length w \<le> 1446"
proof -
  let ?s = "session_new ZERO 0 \<lparr>send_key = replicate 32 1, receive_key = replicate 32 2\<rparr> 0"
  let ?dev = "\<lparr>vi_name = ''tun1'', vi_mtu = 1400, vi_mode = Tun\<rparr>"
  obtain pkt s' where seal: "session_seal plain_prims ?s Data [0x45, 0, 0] = (Inr pkt, s')"
    by (rule session_seal_succeeds [OF lawfulD(3) [OF plain_prims_lawful], of ?s Data "[0x45, 0, 0]"]) (simp_all add: session_new_def AEAD_MAX_def)
  have mtu: "effective_tunnel_mtu 1400 (wire_overhead Tun None) False = 1400"
    by (simp add: effective_tunnel_mtu_def wire_overhead_def default_udp_payload_mtu_def DEFAULT_PATH_MTU_def)
  have recv: "vi_recv ?dev [ReadPacket [0x45, 0, 0]] = Some (Inr [0x45, 0, 0])"
    by (simp add: max_packet_len_def validate_packet_def)
  have sid: "wf_session_id (ps_session_id ?s)" by (simp add: session_new_def wf_session_id_def ZERO_def)
  have wrap: "wrap_wire plain_prims None (None, None, \<lambda>_. None) (packet_encode pkt) = Inr (packet_encode pkt)" by simp
  have "wire_overhead Tun None = 46" by (simp add: wire_overhead_def)
  then have "length (packet_encode pkt) \<le> 1446"
    using client_datagrams_fit [OF lawfulD(3,2) [OF plain_prims_lawful] _ _ _ recv seal sid wrap, of 1400 Tun False] mtu by simp
  then show ?thesis using seal wrap by blast
qed

text \<open>
  The client reconnects with exponential backoff: the pauses between its attempts are 1, 2, 4, 8 and 16 seconds and then 30 seconds each, in this order
  from the first, however the attempts fail.
\<close>

theorem reconnect_backoff:
  assumes "reconnect os uid dev config env RECONNECT_INITIAL_BACKOFF rounds current k = (r, server, out, k')"
  shows "sleeps out = map (\<lambda>i. min (secs (2 ^ i)) (secs 30)) [0 ..< length (sleeps out)]"
proof -
  have "RECONNECT_INITIAL_BACKOFF = backoff_after 0" by (simp add: RECONNECT_INITIAL_BACKOFF_def backoff_after_def)
  then show ?thesis using sleeps_reconnect [of os uid dev config env 0] assms by (auto simp: backoff_after_def [abs_def])
qed

theorem reconnect_backoff_witness:
  "\<exists>out. reconnect ex_os 1001 ex_device ex_client_config ex_reconnect_env RECONNECT_INITIAL_BACKOFF [ex_round, ex_round, ex_round] ex_server_addr ex_online =
     (StillTrying, ex_server_addr, out, ex_online) \<and> sleeps out = [secs 1, secs 2, secs 4]"
proof -
  have "reconnect_attempt ex_os 1001 ex_device ex_client_config ex_reconnect_env ex_round ex_server_addr ex_online = (AttemptFailed, ex_server_addr, [], ex_online)"
    by (simp add: reconnect_attempt_def ex_round_def resolve_endpoint_def)
  then obtain out where r: "reconnect ex_os 1001 ex_device ex_client_config ex_reconnect_env RECONNECT_INITIAL_BACKOFF [ex_round, ex_round, ex_round] ex_server_addr ex_online =
      (StillTrying, ex_server_addr, out, ex_online)" and n: "length (sleeps out) = 3"
    by (simp add: ex_round_def)
  have "[0 ..< 3] = [0, 1, 2 :: nat]" by code_simp
  then show ?thesis using r reconnect_backoff [OF r] n by (intro exI [of _ out]) simp
qed

end
