(* ===== verification/Control_Daemon.thy ===== *)
theory Control_Daemon
  imports Ipc_Protocol Client_Main
begin

text \<open>
  The client daemon, \<^verbatim>\<open>apps/rvpn-client/src/ipc.rs\<close>, and the control socket it listens on, the rest of \<^verbatim>\<open>crates/rvpn-ipc/src/socket.rs\<close>.

  The daemon's state has every client task that it has ever started, whether or not the daemon still knows of it: a task goes on until it ends by itself.
  Control connections run concurrently; the daemon's mutex makes connecting one step, but disconnecting is two: the session is taken out, and
  later its client has ended and the request is answered. Each request carries the view of the file system it is answered with.
\<close>

section \<open>The control socket\<close>

definition control_dir :: "(string \<Rightarrow> string option) \<Rightarrow> u32 \<Rightarrow> string" where
  "control_dir env uid =
     (case env ''XDG_RUNTIME_DIR'' of
        Some runtime_dir \<Rightarrow> path_join runtime_dir ''rvpn''
      | None \<Rightarrow> ''/tmp/rvpn-'' @ dec (unat uid))"

definition control_socket_path :: "(string \<Rightarrow> string option) \<Rightarrow> u32 \<Rightarrow> string" where
  "control_socket_path env uid = path_join (control_dir env uid) ''control.sock''"

record 'k socket_host =
  sk_mkdir :: "string \<Rightarrow> ('k, io_error, unit) net_op"
  sk_chmod :: "string \<Rightarrow> nat \<Rightarrow> ('k, io_error, unit) net_op"
  sk_listen :: "string \<Rightarrow> ('k, io_error, unit) net_op"
  sk_stat :: "string \<Rightarrow> 'k \<Rightarrow> io_error + (nat \<times> nat)"
  sk_connect :: "string \<Rightarrow> 'k \<Rightarrow> io_error + unit"
  sk_unlink :: "string \<Rightarrow> ('k, io_error, unit) net_op"

abbreviation ENOENT :: io_error where "ENOENT \<equiv> Some 2"
abbreviation EADDRINUSE :: io_error where "EADDRINUSE \<equiv> Some 98"
abbreviation ECONNREFUSED :: io_error where "ECONNREFUSED \<equiv> Some 111"

text \<open>A socket is removed only when nothing listens on it and the path still names the same file.\<close>

definition recover_stale_socket :: "'k socket_host \<Rightarrow> string \<Rightarrow> io_error \<Rightarrow> ('k, io_error, unit) net_op" where
  "recover_stale_socket h path bind_error =
     seq (query (sk_stat h path)) (\<lambda>before.
     seq (query (\<lambda>k. case sk_connect h path k of
                       Inr _ \<Rightarrow> Inl bind_error
                     | Inl probe \<Rightarrow> if probe = ECONNREFUSED \<or> probe = ENOENT then Inr () else Inl bind_error)) (\<lambda>_.
     seq (query (sk_stat h path)) (\<lambda>after.
       if before \<noteq> after then fail_with bind_error else sk_unlink h path)))"

definition bind_listener :: "'k socket_host \<Rightarrow> string \<Rightarrow> ('k, io_error, unit) net_op" where
  "bind_listener h path k =
     (case sk_listen h path k of
        (Inr _, k1) \<Rightarrow> sk_chmod h path 384 k1
      | (Inl e, k1) \<Rightarrow>
          if e = EADDRINUSE then
            seq (recover_stale_socket h path e) (\<lambda>_. seq (sk_listen h path) (\<lambda>_. sk_chmod h path 384)) k1
          else (Inl e, k1))"

definition create_listener :: "'k socket_host \<Rightarrow> (string \<Rightarrow> string option) \<Rightarrow> u32 \<Rightarrow> ('k, io_error, unit) net_op" where
  "create_listener h env uid =
     seq (sk_mkdir h (control_dir env uid)) (\<lambda>_.
     seq (sk_chmod h (control_dir env uid) 448) (\<lambda>_.
       bind_listener h (control_socket_path env uid)))"

section \<open>Configuration files\<close>

record 'n config_files =
  cf_env :: "string \<Rightarrow> string option"
  cf_canonicalize :: "string \<Rightarrow> string option"
  cf_mode :: "string \<Rightarrow> int option + nat"
  cf_contents :: "string \<Rightarrow> int option + string"
  cf_toml :: "string \<Rightarrow> string + client_config"
  cf_parsers :: "'n parsers"
  cf_io_text :: "int option \<Rightarrow> string"

text \<open>Paths begin with one another component by component.\<close>

definition components :: "string \<Rightarrow> string list" where
  "components p = (if take 1 p = ''/'' then [''/''] else []) @ filter (\<lambda>c. c \<noteq> [] \<and> c \<noteq> ''.'') (split_on (\<lambda>ch. ch = CHR ''/'') p)"

definition path_starts_with :: "string \<Rightarrow> string \<Rightarrow> bool" where
  "path_starts_with path dir \<longleftrightarrow> prefix (components dir) (components path)"

definition allowed_config_path :: "'n config_files \<Rightarrow> string \<Rightarrow> string + string" where
  "allowed_config_path fs raw =
     (let config_dir = default_config_dir (cf_env fs) in
      and_then (ok_or (cf_canonicalize fs config_dir) (''resolving config directory '' @ config_dir)) (\<lambda>dir.
      and_then (ok_or (cf_canonicalize fs raw) (''resolving config path '' @ raw)) (\<lambda>path.
        if \<not> path_starts_with path dir then
          Inl (''IPC config path '' @ path @ '' is outside the RVPN config directory '' @ dir)
        else Inr path)))"

abbreviation apostrophe :: string where "apostrophe \<equiv> [CHR 0x27]"

fun config_error_text :: "(int option \<Rightarrow> string) \<Rightarrow> config_error \<Rightarrow> string" where
  "config_error_text io (Parse m) = ''invalid TOML configuration: '' @ m"
| "config_error_text io (Invalid m) = ''invalid configuration: '' @ m"
| "config_error_text io InvalidKeyEncoding = ''key material must be exactly 32 bytes encoded as hexadecimal''"
| "config_error_text io InvalidCertificateEncoding = ''certificate values must be exactly 112 bytes encoded as hexadecimal''"
| "config_error_text io (Resolution host e) = ''failed to resolve server endpoint '' @ apostrophe @ host @ apostrophe @ '': '' @ io e"
| "config_error_text io (NoResolvedAddress s) = ''server endpoint '' @ apostrophe @ s @ apostrophe @ '' did not resolve to any address''"
| "config_error_text io (UnknownLinkPeer s) = [CHR 0x5B, CHR 0x5B] @ ''links'' @ [CHR 0x5D, CHR 0x5D] @ '' references unknown peer '' @ apostrophe @ s @ apostrophe"
| "config_error_text io (DuplicatePeerName s) =
     ''duplicate peer name '' @ apostrophe @ s @ apostrophe @ ''; peer names must be unique so links are unambiguous''"
| "config_error_text io (ConfigIo e) = ''failed to read configuration file: '' @ io e"
| "config_error_text io (InsecurePermissions p) =
     ''configuration file '' @ apostrophe @ p @ apostrophe @ '' is group/world-readable; use mode 0600''"

section \<open>The daemon\<close>

text \<open>
  A client task, as started by \<^verbatim>\<open>tokio::spawn\<close>: its configuration, the value in the watch channel that tells it to stop, whether it has ended, and
  the state it publishes. Sessions, the current one and those taken out by a disconnect that still waits, refer to tasks by number, as a
  \<^verbatim>\<open>JoinHandle\<close> does.
\<close>

record client_task =
  ct_path :: string
  ct_config :: client_config
  ct_shutdown :: bool
  ct_ended :: bool
  ct_gui :: gui_state

record daemon =
  dm_tasks :: "client_task list"
  dm_session :: "nat option"
  dm_waits :: "(nat \<times> nat) list"

definition daemon_new :: daemon where
  "daemon_new = \<lparr>dm_tasks = [], dm_session = None, dm_waits = []\<rparr>"

definition update_task :: "nat \<Rightarrow> (client_task \<Rightarrow> client_task) \<Rightarrow> daemon \<Rightarrow> daemon" where
  "update_task i f d = (if i < length (dm_tasks d) then d\<lparr>dm_tasks := (dm_tasks d)[i := f (dm_tasks d ! i)]\<rparr> else d)"

definition spawn_client :: "string \<Rightarrow> client_config \<Rightarrow> daemon \<Rightarrow> nat \<times> daemon" where
  "spawn_client path config d =
     (length (dm_tasks d),
      d\<lparr>dm_tasks := dm_tasks d @ [\<lparr>ct_path = path, ct_config = config, ct_shutdown = False, ct_ended = False, ct_gui = gui_default\<rparr>]\<rparr>)"

definition daemon_connect :: "'n config_files \<Rightarrow> string \<Rightarrow> daemon \<Rightarrow> (string + unit) \<times> daemon" where
  "daemon_connect fs raw d =
     (if dm_session d \<noteq> None then (Inl ''already connected; disconnect first'', d)
      else
        (case allowed_config_path fs raw of
           Inl e \<Rightarrow> (Inl e, d)
         | Inr path \<Rightarrow>
             (case read_config_file path (cf_mode fs path) (cf_contents fs path) of
                Inl _ \<Rightarrow> (Inl (''reading '' @ path), d)
              | Inr text \<Rightarrow>
                  (case client_from_toml (cf_parsers fs) (cf_toml fs) text of
                     Inl e \<Rightarrow> (Inl (config_error_text (cf_io_text fs) e), d)
                   | Inr config \<Rightarrow> (case spawn_client path config d of (i, d1) \<Rightarrow> (Inr (), d1\<lparr>dm_session := Some i\<rparr>))))))"

definition daemon_status :: "daemon \<Rightarrow> status_snapshot" where
  "daemon_status d =
     (case dm_session d of
        None \<Rightarrow> status_disconnected
      | Some i \<Rightarrow>
          (let snap = gui_snapshot_of (ct_gui (dm_tasks d ! i))
           in \<lparr>st_connected = snap_connected snap, st_server = snap_server snap, st_session_id = snap_session_id snap,
               st_uptime_secs = snap_uptime snap div secs 1, st_key_phase = unat (snap_key_phase snap),
               st_bytes_tx = snap_bytes_tx snap, st_bytes_rx = snap_bytes_rx snap,
               st_packets_tx = snap_packets_tx snap, st_packets_rx = snap_packets_rx snap,
               st_effective_mtu = snap_path_mtu snap, st_mtu_state = snap_mtu_state snap,
               st_mtu_changes = unat (snap_mtu_changes snap), st_send_errors = unat (snap_send_errors snap),
               st_dropped_oversized = unat (snap_dropped_oversized snap), st_dropped_backpressure = unat (snap_dropped_backpressure snap),
               st_keepalives_sent = unat (snap_keepalives_sent snap)\<rparr>))"

text \<open>
  The first half of a disconnect takes the session out and tells its client to stop; the second half, when the client has ended, is the
  event \<open>AwaitedEnds\<close> of the connection that waits. The client tasks publish their state and end in their own time.
\<close>

definition take_session :: "nat \<Rightarrow> daemon \<Rightarrow> (string + unit) \<times> daemon" where
  "take_session c d =
     (case dm_session d of
        None \<Rightarrow> (Inl ''not connected'', d)
      | Some i \<Rightarrow> (Inr (), update_task i (\<lambda>t. t\<lparr>ct_shutdown := True\<rparr>) (d\<lparr>dm_session := None, dm_waits := dm_waits d @ [(c, i)]\<rparr>)))"

definition awaited_ended :: "nat \<Rightarrow> daemon \<Rightarrow> bool" where
  "awaited_ended c d \<longleftrightarrow> (\<exists>(x, i) \<in> set (dm_waits d). x = c \<and> i < length (dm_tasks d) \<and> ct_ended (dm_tasks d ! i))"

fun response_of :: "string + unit \<Rightarrow> control_response" where
  "response_of (Inr _) = ResponseOk"
| "response_of (Inl e) = ResponseErr e"

fun handle_request :: "nat \<Rightarrow> 'n config_files \<Rightarrow> control_request \<Rightarrow> daemon \<Rightarrow> daemon \<times> control_response option" where
  "handle_request c fs (Connect raw) d = (case daemon_connect fs raw d of (r, d1) \<Rightarrow> (d1, Some (response_of r)))"
| "handle_request c fs Disconnect d =
     (case take_session c d of (Inl e, d1) \<Rightarrow> (d1, Some (ResponseErr e)) | (Inr _, d1) \<Rightarrow> (d1, None))"
| "handle_request c fs StatusRequest d = (d, Some (ResponseStatus (daemon_status d)))"
| "handle_request c fs Ping d = (d, Some Pong)"

datatype 'n daemon_event =
    Asks nat "'n config_files" control_request
  | AwaitedEnds nat
  | ClientEnds nat
  | ClientShows nat gui_state

fun daemon_step :: "'n daemon_event \<Rightarrow> daemon \<Rightarrow> daemon \<times> (nat \<times> control_response) list" where
  "daemon_step (Asks c fs request) d =
     (if c \<in> fst ` set (dm_waits d) then (d, [])
      else (case handle_request c fs request d of
              (d1, Some response) \<Rightarrow> (d1, [(c, response)])
            | (d1, None) \<Rightarrow> (d1, [])))"
| "daemon_step (AwaitedEnds c) d =
     (if awaited_ended c d then (d\<lparr>dm_waits := filter (\<lambda>(x, _). x \<noteq> c) (dm_waits d)\<rparr>, [(c, ResponseOk)]) else (d, []))"
| "daemon_step (ClientEnds i) d = (update_task i (\<lambda>t. t\<lparr>ct_ended := True\<rparr>) d, [])"
| "daemon_step (ClientShows i g) d = (update_task i (\<lambda>t. t\<lparr>ct_gui := g\<rparr>) d, [])"

fun daemon_run :: "'n daemon_event list \<Rightarrow> daemon \<Rightarrow> daemon \<times> (nat \<times> control_response) list" where
  "daemon_run [] d = (d, [])"
| "daemon_run (e # es) d =
     (case daemon_step e d of (d1, out) \<Rightarrow> (case daemon_run es d1 of (d2, out') \<Rightarrow> (d2, out @ out')))"


section \<open>The socket is exclusive\<close>

text \<open>
  The view of the file system: which sockets exist, with the process that listens on them, their mode and file number. Listening fails on a path
  that exists; connecting succeeds exactly on a socket with a listener and is refused on one without.
\<close>

record socket_file =
  sf_live :: bool
  sf_mode :: nat
  sf_inode :: "nat \<times> nat"

definition listens :: "'k socket_host \<Rightarrow> ('k \<Rightarrow> string \<rightharpoonup> socket_file) \<Rightarrow> bool" where
  "listens h files \<longleftrightarrow>
     (\<forall>p k. case sk_listen h p k of
        (Inl e, k') \<Rightarrow> files k' = files k \<and> (files k p \<noteq> None \<longrightarrow> e = EADDRINUSE)
      | (Inr _, k') \<Rightarrow> files k p = None \<and> (\<exists>s. sf_live s \<and> files k' = (files k)(p \<mapsto> s)))"

definition chmods :: "'k socket_host \<Rightarrow> ('k \<Rightarrow> string \<rightharpoonup> socket_file) \<Rightarrow> bool" where
  "chmods h files \<longleftrightarrow>
     (\<forall>p m k. case sk_chmod h p m k of
        (Inl _, k') \<Rightarrow> files k' = files k
      | (Inr _, k') \<Rightarrow> files k' = (files k)(p := map_option (\<lambda>s. s\<lparr>sf_mode := m\<rparr>) (files k p)))"

definition unlinks :: "'k socket_host \<Rightarrow> ('k \<Rightarrow> string \<rightharpoonup> socket_file) \<Rightarrow> bool" where
  "unlinks h files \<longleftrightarrow>
     (\<forall>p k. case sk_unlink h p k of
        (Inl _, k') \<Rightarrow> files k' = files k
      | (Inr _, k') \<Rightarrow> files k' = (files k)(p := None))"

definition socket_file_laws :: "'k socket_host \<Rightarrow> ('k \<Rightarrow> string \<rightharpoonup> socket_file) \<Rightarrow> bool" where
  "socket_file_laws h files \<longleftrightarrow>
     listens h files \<and> chmods h files \<and> unlinks h files \<and> (\<forall>p. keeps files (sk_mkdir h p)) \<and>
     (\<forall>p k s. files k p = Some s \<longrightarrow> (\<exists>u. sk_connect h p k = Inr u) = sf_live s)"

lemma listensD:
  assumes "listens h files"
  shows "sk_listen h p k = (Inl e, k') \<Longrightarrow> files k' = files k \<and> (files k p \<noteq> None \<longrightarrow> e = EADDRINUSE)"
    and "sk_listen h p k = (Inr u, k') \<Longrightarrow> files k p = None \<and> (\<exists>s. sf_live s \<and> files k' = (files k)(p \<mapsto> s))"
  using spec [OF spec [OF assms [unfolded listens_def], of p], of k] by simp_all

lemma chmodsD:
  assumes "chmods h files"
  shows "sk_chmod h p m k = (Inl e, k') \<Longrightarrow> files k' = files k"
    and "sk_chmod h p m k = (Inr u, k') \<Longrightarrow> files k' = (files k)(p := map_option (\<lambda>s. s\<lparr>sf_mode := m\<rparr>) (files k p))"
  using spec [OF spec [OF spec [OF assms [unfolded chmods_def], of p], of m], of k] by simp_all

lemma unlinksD:
  assumes "unlinks h files"
  shows "sk_unlink h p k = (Inl e, k') \<Longrightarrow> files k' = files k"
    and "sk_unlink h p k = (Inr u, k') \<Longrightarrow> files k' = (files k)(p := None)"
  using spec [OF spec [OF assms [unfolded unlinks_def], of p], of k] by simp_all

lemma socket_file_lawsD:
  assumes "socket_file_laws h files"
  shows "listens h files" "chmods h files" "unlinks h files" "keeps files (sk_mkdir h p)"
    and "files k p = Some s \<Longrightarrow> (\<exists>u. sk_connect h p k = Inr u) = sf_live s"
  using assms unfolding socket_file_laws_def by simp_all

text \<open>What is removed had no listener.\<close>

lemma recover_touches:
  assumes laws: "socket_file_laws h files" and run: "recover_stale_socket h path e k = (r, k')" and "p \<noteq> path"
  shows "files k' p = files k p"
proof (cases "k' = k")
  case False
  have u: "sk_unlink h path k = (r, k')"
    using run False by (auto simp: recover_stale_socket_def seq_def query_def fail_with_def split: sum.splits if_splits)
  then show ?thesis using unlinksD [OF socket_file_lawsD(3) [OF laws], of path k _ k'] assms(3) by (cases r) simp_all
qed simp

lemma recover_only_stale:
  assumes laws: "socket_file_laws h files" and "files k path = Some s" and run: "recover_stale_socket h path e k = (r, k')"
  shows "case r of Inl _ \<Rightarrow> files k' = files k | Inr _ \<Rightarrow> \<not> sf_live s \<and> files k' = (files k)(path := None)"
proof (cases "k' = k \<and> (\<exists>x. r = Inl x)")
  case False
  note L = socket_file_lawsD [OF laws]
  have u: "sk_unlink h path k = (r, k')" and c: "\<exists>x. sk_connect h path k = Inl x"
    using run False by (auto simp: recover_stale_socket_def seq_def query_def fail_with_def split: sum.splits if_splits)
  have "\<not> sf_live s" using L(5) [OF assms(2)] c by auto
  then show ?thesis using unlinksD [OF L(3), of path k _ k'] u by (cases r) simp_all
qed auto


lemma listen_and_chmod:
  assumes "listens h files" and "chmods h files" and "seq (sk_listen h path) (\<lambda>_. sk_chmod h path m) k = (r, k')"
  shows "files k path \<noteq> None \<Longrightarrow> (\<exists>e. r = Inl e) \<and> files k' = files k"
    and "r = Inr u \<Longrightarrow> \<exists>s. sf_live s \<and> sf_mode s = m \<and> files k' = (files k)(path \<mapsto> s)"
  using assms(3)
proof (atomize (full), cases rule: seq_cases)
  case (failed e)
  then show "(files k path \<noteq> None \<longrightarrow> (\<exists>e. r = Inl e) \<and> files k' = files k) \<and>
      (r = Inr u \<longrightarrow> (\<exists>s. sf_live s \<and> sf_mode s = m \<and> files k' = (files k)(path \<mapsto> s)))"
    using listensD(1) [OF assms(1)] by auto
next
  case (went_on a k1)
  note l = listensD(2) [OF assms(1) went_on(1)]
  then obtain s where s: "sf_live s" "files k1 = (files k)(path \<mapsto> s)" by blast
  have "\<exists>t. sf_live t \<and> sf_mode t = m \<and> files k' = (files k)(path \<mapsto> t)" if "r = Inr u"
    using chmodsD(2) [OF assms(2) went_on(2) [unfolded that]] s by (intro exI [of _ "s\<lparr>sf_mode := m\<rparr>"]) simp
  then show "(files k path \<noteq> None \<longrightarrow> (\<exists>e. r = Inl e) \<and> files k' = files k) \<and>
      (r = Inr u \<longrightarrow> (\<exists>s. sf_live s \<and> sf_mode s = m \<and> files k' = (files k)(path \<mapsto> s)))"
    using l by simp
qed

lemma bind_listener_exclusive:
  assumes laws: "socket_file_laws h files" and run: "bind_listener h path k = (r, k')"
  shows "files k path = Some s \<Longrightarrow> sf_live s \<Longrightarrow> (\<exists>e. r = Inl e) \<and> files k' = files k"
    and "r = Inr u \<Longrightarrow> \<exists>s. sf_live s \<and> sf_mode s = 384 \<and> files k' = (files k)(path \<mapsto> s)"
proof -
  note L = socket_file_lawsD [OF laws]
  obtain q k1 where l: "sk_listen h path k = (q, k1)" by fastforce
  show "(\<exists>e. r = Inl e) \<and> files k' = files k" if s: "files k path = Some s" "sf_live s"
  proof -
    obtain e where q: "q = Inl e" using listensD(2) [OF L(1), of path k] l s by (cases q) auto
    then have k1: "files k1 = files k" "e = EADDRINUSE" using listensD(1) [OF L(1), of path k e k1] l s by simp_all
    have "seq (recover_stale_socket h path e) (\<lambda>_. seq (sk_listen h path) (\<lambda>_. sk_chmod h path 384)) k1 = (r, k')"
      using run l q k1 by (simp add: bind_listener_def)
    then show ?thesis
    proof (cases rule: seq_cases)
      case (failed x)
      then show ?thesis using recover_only_stale [OF laws _ failed(1), of s] k1 s by simp
    next
      case (went_on a k2)
      then show ?thesis using recover_only_stale [OF laws _ went_on(1), of s] k1 s by simp
    qed
  qed
  show "\<exists>s. sf_live s \<and> sf_mode s = 384 \<and> files k' = (files k)(path \<mapsto> s)" if r: "r = Inr u"
  proof (cases q)
    case (Inr v)
    have "seq (sk_listen h path) (\<lambda>_. sk_chmod h path 384) k = (r, k')" using run l Inr by (simp add: bind_listener_def seq_def)
    then show ?thesis using listen_and_chmod(2) [OF L(1,2) _ r] by blast
  next
    case (Inl e)
    have k1: "files k1 = files k" using listensD(1) [OF L(1), of path k e k1] l Inl by simp
    have "seq (recover_stale_socket h path e) (\<lambda>_. seq (sk_listen h path) (\<lambda>_. sk_chmod h path 384)) k1 = (r, k')"
      using run l Inl r by (simp add: bind_listener_def split: if_splits)
    then show ?thesis
    proof (cases rule: seq_cases)
      case (went_on a k2)
      obtain t where t: "sf_live t" "sf_mode t = 384" "files k' = (files k2)(path \<mapsto> t)"
        using listen_and_chmod(2) [OF L(1,2) went_on(2) r] by blast
      have "(files k2)(path \<mapsto> t) = (files k1)(path \<mapsto> t)"
        using recover_touches [OF laws went_on(1)] by (auto simp: fun_eq_iff)
      then show ?thesis using t k1 by auto
    qed (use r in simp)
  qed
qed


lemma control_path_neq: "control_dir env uid \<noteq> control_socket_path env uid"
  by (simp add: control_socket_path_def path_join_def)

text \<open>
  A user has one control socket: while a daemon listens on it, another that starts fails and leaves the socket as it is. A daemon that starts has taken
  over at most a socket nobody listened on, listens itself, and only its user may connect; no other socket is touched.
\<close>

theorem control_socket_exclusive:
  assumes laws: "socket_file_laws h files" and "create_listener h env uid k = (r, k')"
  shows "(\<forall>s. files k (control_socket_path env uid) = Some s \<longrightarrow> sf_live s \<longrightarrow>
            (\<exists>e. r = Inl e) \<and> files k' (control_socket_path env uid) = Some s) \<and>
    (r = Inr () \<longrightarrow>
       (\<exists>s. files k' (control_socket_path env uid) = Some s \<and> sf_live s \<and> sf_mode s = 384) \<and>
       (\<forall>p. p \<noteq> control_socket_path env uid \<longrightarrow> p \<noteq> control_dir env uid \<longrightarrow> files k' p = files k p))"
  using assms(2) unfolding create_listener_def
proof (cases rule: seq_cases)
  case (failed e)
  then show ?thesis using keeps_pair [OF socket_file_lawsD(4) [OF laws] failed(1)] by simp
next
  case (went_on a k1)
  note k1 = keeps_pair [OF socket_file_lawsD(4) [OF laws] went_on(1)]
  note c = chmodsD [OF socket_file_lawsD(2) [OF laws]]
  from went_on(2) show ?thesis
  proof (cases rule: seq_cases)
    case (failed e)
    then show ?thesis using c(1) [OF failed(1)] k1 by simp
  next
    case (went_on b k2)
    have k2: "files k2 p = files k p" if "p \<noteq> control_dir env uid" for p using c(2) [OF went_on(1)] k1 that by simp
    note b = bind_listener_exclusive [OF laws went_on(2)]
    show ?thesis
    proof (intro conjI allI impI)
      fix s assume s: "files k (control_socket_path env uid) = Some s" "sf_live s"
      then have s2: "files k2 (control_socket_path env uid) = Some s" using k2 control_path_neq by metis
      then show "\<exists>e. r = Inl e" "files k' (control_socket_path env uid) = Some s" using b(1) [OF s2 s(2)] by simp_all
    next
      assume "r = Inr ()"
      then obtain s where s: "sf_live s" "sf_mode s = 384" "files k' = (files k2)(control_socket_path env uid \<mapsto> s)" using b(2) by blast
      then show "\<exists>s. files k' (control_socket_path env uid) = Some s \<and> sf_live s \<and> sf_mode s = 384" by simp
      fix p assume "p \<noteq> control_socket_path env uid" "p \<noteq> control_dir env uid"
      then show "files k' p = files k p" using s(3) k2 by simp
    qed
  qed
qed

section \<open>Which clients run\<close>

text \<open>A task that a request among the events started, with the configuration in a file of the configuration directory that only its owner may read.\<close>

definition started_by :: "'n daemon_event list \<Rightarrow> client_task \<Rightarrow> bool" where
  "started_by events task \<longleftrightarrow>
     (\<exists>c fs raw dir mode body. Asks c fs (Connect raw) \<in> set events \<and>
        cf_canonicalize fs (default_config_dir (cf_env fs)) = Some dir \<and> cf_canonicalize fs raw = Some (ct_path task) \<and>
        prefix (components dir) (components (ct_path task)) \<and>
        cf_mode fs (ct_path task) = Inr mode \<and> mode mod 64 = 0 \<and> cf_contents fs (ct_path task) = Inr body \<and>
        cf_toml fs body = Inr (ct_config task) \<and> client_validate (cf_parsers fs) (ct_config task) = Inr ())"

text \<open>The task is the current one, or it was told to stop and a disconnect waits for it.\<close>

definition supervised :: "daemon \<Rightarrow> nat \<Rightarrow> bool" where
  "supervised d i \<longleftrightarrow> dm_session d = Some i \<or> (ct_shutdown (dm_tasks d ! i) \<and> (\<exists>c. (c, i) \<in> set (dm_waits d)))"

definition daemon_inv :: "'n daemon_event list \<Rightarrow> daemon \<Rightarrow> bool" where
  "daemon_inv events d \<longleftrightarrow>
     (\<forall>i < length (dm_tasks d). started_by events (dm_tasks d ! i) \<and> (ct_ended (dm_tasks d ! i) \<or> supervised d i)) \<and>
     (\<forall>i. dm_session d = Some i \<longrightarrow> i < length (dm_tasks d) \<and> \<not> ct_shutdown (dm_tasks d ! i)) \<and> distinct (map fst (dm_waits d))"

lemma started_by_update [simp]:
  "started_by events (s\<lparr>ct_shutdown := b\<rparr>) = started_by events s" "started_by events (s\<lparr>ct_ended := b\<rparr>) = started_by events s"
  "started_by events (s\<lparr>ct_gui := g\<rparr>) = started_by events s"
  by (simp_all add: started_by_def)

lemma started_by_append: "started_by es s \<Longrightarrow> started_by (es @ fs) s"
  unfolding started_by_def by (metis Un_iff set_append)

lemma daemon_inv_append: "daemon_inv es d \<Longrightarrow> daemon_inv (es @ fs) d"
  using started_by_append unfolding daemon_inv_def by fastforce

lemma connect_spawns:
  assumes "daemon_connect fs raw d = (r, d')" and "d' \<noteq> d"
  shows "dm_session d = None \<and> (\<exists>task. d' = d\<lparr>dm_tasks := dm_tasks d @ [task], dm_session := Some (length (dm_tasks d))\<rparr> \<and>
    \<not> ct_shutdown task \<and> started_by (es @ [Asks c fs (Connect raw)]) task)"
proof -
  obtain path where path: "allowed_config_path fs raw = Inr path"
    using assms by (auto simp: daemon_connect_def split: if_splits sum.splits)
  then obtain dir where dir: "cf_canonicalize fs (default_config_dir (cf_env fs)) = Some dir" "cf_canonicalize fs raw = Some path"
      "prefix (components dir) (components path)"
    by (auto simp: allowed_config_path_def Let_def ok_or_def path_starts_with_def split: option.splits if_splits)
  obtain body where body: "read_config_file path (cf_mode fs path) (cf_contents fs path) = Inr body"
    using assms path by (auto simp: daemon_connect_def split: if_splits sum.splits)
  then obtain mode where mode: "cf_mode fs path = Inr mode" "mode mod 64 = 0" "cf_contents fs path = Inr body"
    by (cases "cf_mode fs path"; cases "cf_contents fs path") (auto simp: read_config_file_def split: if_splits)
  obtain config where config: "client_from_toml (cf_parsers fs) (cf_toml fs) body = Inr config" and none: "dm_session d = None"
    and d': "d' = (snd (spawn_client path config d))\<lparr>dm_session := Some (length (dm_tasks d))\<rparr>"
    using assms path body by (auto simp: daemon_connect_def spawn_client_def split: if_splits sum.splits)
  have "cf_toml fs body = Inr config" "client_validate (cf_parsers fs) config = Inr ()"
    using config by (auto simp: client_from_toml_def and_then_Inr)
  then show ?thesis using d' dir mode none unfolding started_by_def spawn_client_def by fastforce
qed

lemma connect_inv:
  assumes "daemon_inv es d" and c: "daemon_connect fs raw d = (r, d')"
  shows "daemon_inv (es @ [Asks c fs (Connect raw)]) d'"
proof (cases "d' = d")
  case False
  from connect_spawns [OF c False, of es] obtain task where none: "dm_session d = None"
    and d': "d' = d\<lparr>dm_tasks := dm_tasks d @ [task], dm_session := Some (length (dm_tasks d))\<rparr>"
    and task: "\<not> ct_shutdown task" "started_by (es @ [Asks c fs (Connect raw)]) task" by blast
  show ?thesis
    using daemon_inv_append [OF assms(1), of "[Asks c fs (Connect raw)]"] none task
    by (auto simp: d' daemon_inv_def supervised_def nth_append less_Suc_eq)
qed (use daemon_inv_append [OF assms(1)] in simp)

lemma update_task_simps [simp]:
  "dm_session (update_task i f d) = dm_session d" "dm_waits (update_task i f d) = dm_waits d" "length (dm_tasks (update_task i f d)) = length (dm_tasks d)"
  "j < length (dm_tasks d) \<Longrightarrow> dm_tasks (update_task i f d) ! j = (if j = i then f (dm_tasks d ! j) else dm_tasks d ! j)"
  by (auto simp: update_task_def)

lemma take_session_inv: "daemon_inv es d \<Longrightarrow> c \<notin> fst ` set (dm_waits d) \<Longrightarrow> daemon_inv es (snd (take_session c d))"
  by (auto simp: daemon_inv_def take_session_def supervised_def split: option.splits)

lemma awaited_inv:
  assumes "daemon_inv es d" and "awaited_ended c d"
  shows "daemon_inv es (d\<lparr>dm_waits := filter (\<lambda>(x, _). x \<noteq> c) (dm_waits d)\<rparr>)"
proof -
  obtain i where i: "(c, i) \<in> set (dm_waits d)" "ct_ended (dm_tasks d ! i)" using assms(2) by (auto simp: awaited_ended_def)
  have "j = i" if "(c, j) \<in> set (dm_waits d)" for j
    using that i(1) assms(1) by (auto simp: daemon_inv_def dest: eq_key_imp_eq_value)
  then have "supervised (d\<lparr>dm_waits := filter (\<lambda>(x, _). x \<noteq> c) (dm_waits d)\<rparr>) j" if "supervised d j" "\<not> ct_ended (dm_tasks d ! j)" for j
    using that i(2) by (auto simp: supervised_def)
  then show ?thesis using assms(1) by (auto simp: daemon_inv_def distinct_map_filter)
qed

lemma update_task_inv:
  assumes "daemon_inv es d" and "\<And>t. started_by es (f t) = started_by es t" "\<And>t. ct_shutdown (f t) = ct_shutdown t" "\<And>t. ct_ended t \<Longrightarrow> ct_ended (f t)"
  shows "daemon_inv es (update_task i f d)"
  using assms by (auto simp: daemon_inv_def supervised_def)

lemma daemon_step_inv:
  assumes "daemon_inv es d"
  shows "daemon_inv (es @ [e]) (fst (daemon_step e d))"
proof (cases e)
  case (Asks c fs request)
  note old = daemon_inv_append [OF assms, of "[e]"]
  show ?thesis
  proof (cases "c \<in> fst ` set (dm_waits d)")
    case False
    have "daemon_inv (es @ [e]) (fst (handle_request c fs request d))"
    proof (cases request)
      case (Connect raw)
      obtain r d' where c: "daemon_connect fs raw d = (r, d')" by fastforce
      show ?thesis using connect_inv [OF assms c] Connect Asks c by simp
    next
      case Disconnect
      then show ?thesis using take_session_inv [OF old False] by (auto split: prod.splits sum.splits)
    qed (use old in simp_all)
    then show ?thesis using Asks False by (auto split: prod.splits option.splits)
  qed (use Asks old in simp)
next
  case (AwaitedEnds c)
  then show ?thesis using daemon_inv_append [OF assms, of "[e]"] awaited_inv [OF daemon_inv_append [OF assms, of "[e]"]] by simp
next
  case (ClientEnds i)
  then show ?thesis using update_task_inv [OF daemon_inv_append [OF assms, of "[e]"]] by simp
next
  case (ClientShows i g)
  then show ?thesis using update_task_inv [OF daemon_inv_append [OF assms, of "[e]"]] by simp
qed

lemma daemon_run_inv: "daemon_inv es d \<Longrightarrow> daemon_inv (es @ fs) (fst (daemon_run fs d))"
proof (induction fs arbitrary: es d)
  case (Cons e fs)
  obtain d1 out where e: "daemon_step e d = (d1, out)" by fastforce
  have "daemon_inv (es @ [e]) d1" using daemon_step_inv [OF Cons.prems, of e] e by simp
  from Cons.IH [OF this] show ?case by (simp add: e case_prod_unfold)
qed simp

text \<open>
  C37. The daemon runs only what its user allowed, and loses no client: whatever requests arrive on however many connections and whenever clients end, every
  client task it ever started was asked for by a request, with the valid configuration in a file inside the configuration directory that only its
  owner may read; and every task that has not ended is either the one current session or has been told to stop by a disconnect that waits for
  it. The current session has not been told to stop.
\<close>

theorem daemon_clients_confined:
  assumes "daemon_run events daemon_new = (d, out)"
  shows "(\<forall>i < length (dm_tasks d). started_by events (dm_tasks d ! i) \<and>
      (ct_ended (dm_tasks d ! i) \<or> dm_session d = Some i \<or> (ct_shutdown (dm_tasks d ! i) \<and> (\<exists>c. (c, i) \<in> set (dm_waits d))))) \<and>
    (\<forall>i. dm_session d = Some i \<longrightarrow> i < length (dm_tasks d) \<and> \<not> ct_shutdown (dm_tasks d ! i))"
proof -
  have "daemon_inv [] daemon_new" by (simp add: daemon_inv_def daemon_new_def)
  from daemon_run_inv [OF this, of events] show ?thesis using assms by (simp add: daemon_inv_def supervised_def)
qed

text \<open>
  Two clients can run at once: disconnecting takes the session out before its client has ended, so that a request on another connection starts a new
  client meanwhile. The clean-up of the old client then removes the kill switch of the user, whatever the new client installed.
\<close>

theorem disconnect_overlaps_connect:
  assumes "dm_session d = Some i" and "i < length (dm_tasks d)" and "\<not> ct_ended (dm_tasks d ! i)"
    and "c \<notin> fst ` set (dm_waits d)" and "c' \<notin> fst ` set (dm_waits d)" and "c' \<noteq> c"
    and "allowed_config_path fs raw = Inr path" and "read_config_file path (cf_mode fs path) (cf_contents fs path) = Inr body"
    and "client_from_toml (cf_parsers fs) (cf_toml fs) body = Inr config"
    and "filter_laws os installed" and "remove_bootstrap_kill_switch os uid k = (Inr u, k')"
  shows "(\<exists>d' j. daemon_run [Asks c fs Disconnect, Asks c' fs (Connect raw)] d = (d', [(c', ResponseOk)]) \<and>
      dm_session d' = Some j \<and> j \<noteq> i \<and> ct_config (dm_tasks d' ! j) = config \<and> \<not> ct_ended (dm_tasks d' ! j) \<and> \<not> ct_ended (dm_tasks d' ! i)) \<and>
    installed k' (table_name uid) = None"
  using assms bootstrap_removed [OF assms(10,11)] by (simp add: take_session_def daemon_connect_def spawn_client_def nth_append)

section \<open>An example\<close>

definition ex_files :: "(ip_addr \<times> nat) config_files" where
  "ex_files = \<lparr>cf_env = (\<lambda>v. if v = ''HOME'' then Some ''/home/u'' else None), cf_canonicalize = Some, cf_mode = (\<lambda>_. Inr 384),
     cf_contents = (\<lambda>_. Inr []), cf_toml = (\<lambda>_. Inr ex_run_config), cf_parsers = os_parsers ex_os, cf_io_text = (\<lambda>_. [])\<rparr>"

definition ex_path :: string where "ex_path = ''/home/u/.config/rvpn/client.toml''"

definition ex_socket_host :: "(string \<rightharpoonup> socket_file) socket_host" where
  "ex_socket_host = \<lparr>sk_mkdir = (\<lambda>_ k. (Inr (), k)), sk_chmod = (\<lambda>p m k. (Inr (), k(p := map_option (\<lambda>s. s\<lparr>sf_mode := m\<rparr>) (k p)))),
     sk_listen = (\<lambda>p k. case k p of None \<Rightarrow> (Inr (), k(p \<mapsto> \<lparr>sf_live = True, sf_mode = 420, sf_inode = (1, 2)\<rparr>)) | Some _ \<Rightarrow> (Inl EADDRINUSE, k)),
     sk_stat = (\<lambda>p k. case k p of None \<Rightarrow> Inl ENOENT | Some s \<Rightarrow> Inr (sf_inode s)),
     sk_connect = (\<lambda>p k. case k p of None \<Rightarrow> Inl ENOENT | Some s \<Rightarrow> if sf_live s then Inr () else Inl ECONNREFUSED),
     sk_unlink = (\<lambda>p k. (Inr (), k(p := None)))\<rparr>"

lemma ex_socket_laws: "socket_file_laws ex_socket_host (\<lambda>k. k)"
proof -
  have "listens ex_socket_host (\<lambda>k. k)"
    unfolding listens_def
    by (auto simp: ex_socket_host_def split: option.splits intro!: exI [of _ "\<lparr>sf_live = True, sf_mode = 420, sf_inode = (1, 2)\<rparr>"])
  then show ?thesis
    by (auto simp: socket_file_laws_def chmods_def unlinks_def keeps_def ex_socket_host_def)
qed

lemma ex_allowed: "allowed_config_path ex_files ex_path = Inr ex_path"
  by (simp add: allowed_config_path_def ex_files_def ex_path_def default_config_dir_def path_join_def ok_or_def path_starts_with_def components_def)

lemma ex_read: "read_config_file ex_path (cf_mode ex_files ex_path) (cf_contents ex_files ex_path) = Inr []"
  by (simp add: read_config_file_def ex_files_def)

lemma ex_valid: "client_from_toml (cf_parsers ex_files) (cf_toml ex_files) [] = Inr ex_run_config"
proof -
  obtain auth where "client_auth_config (os_parsers ex_os) ex_run_config = Inr auth" using ex_auth by blast
  then show ?thesis
    by (simp add: client_from_toml_def ex_files_def client_validate_def ex_run_config_def ex_client_config_def validate_endpoint_syntax_def ok_or_def
        parse_u16_def digit_value_def interface_validate_def check_nets_def dns_server_list_def handshake_validate_def handshake_config_default_def rekey_validate_def
        client_routing_validate_def liveness_validate_def liveness_default_def require_def ex_os_def ex_parsers_def plain_parsers_def)
qed


lemma ex_removes: "\<exists>k'. remove_bootstrap_kill_switch ex_os 1001 ex_online = (Inr (), k')"
  by (simp add: remove_bootstrap_kill_switch_def remove_kill_switch_def ks_remove_def delete_table_def ex_missing seq_def context_of_def with_err_def system_net_def query_def
      ex_os_def ex_send_def split: prod.splits)

theorem control_socket_exclusive_witness:
  "\<exists>r k'. create_listener ex_socket_host (\<lambda>_. None) 7 [control_socket_path (\<lambda>_. None) 7 \<mapsto> \<lparr>sf_live = False, sf_mode = 384, sf_inode = (1, 1)\<rparr>] = (r, k') \<and>
     r = Inr () \<and> (\<exists>s. k' (control_socket_path (\<lambda>_. None) 7) = Some s \<and> sf_live s \<and> sf_mode s = 384)"
proof -
  let ?p = "control_socket_path (\<lambda>_. None) 7"
  have "fst (create_listener ex_socket_host (\<lambda>_. None) 7 [?p \<mapsto> \<lparr>sf_live = False, sf_mode = 384, sf_inode = (1, 1)\<rparr>]) = Inr ()"
    using control_path_neq [of "\<lambda>_. None" 7]
    by (simp add: create_listener_def bind_listener_def recover_stale_socket_def seq_def query_def ex_socket_host_def)
  then obtain k' where run: "create_listener ex_socket_host (\<lambda>_. None) 7 [?p \<mapsto> \<lparr>sf_live = False, sf_mode = 384, sf_inode = (1, 1)\<rparr>] = (Inr (), k')"
    by (metis prod.collapse)
  then show ?thesis using control_socket_exclusive [OF ex_socket_laws run] by simp
qed

theorem daemon_clients_confined_witness:
  "\<exists>d out. daemon_run [Asks 1 ex_files (Connect ex_path), Asks 1 ex_files Disconnect, Asks 2 ex_files (Connect ex_path), Asks 3 ex_files (Connect ex_path)] daemon_new = (d, out) \<and>
     out = [(1, ResponseOk), (2, ResponseOk), (3, ResponseErr ''already connected; disconnect first'')] \<and>
     length (dm_tasks d) = 2 \<and> \<not> ct_ended (dm_tasks d ! 0) \<and> \<not> ct_ended (dm_tasks d ! 1) \<and> dm_session d = Some 1 \<and> ct_shutdown (dm_tasks d ! 0)"
proof -
  let ?es = "[Asks 1 ex_files (Connect ex_path), Asks 1 ex_files Disconnect, Asks 2 ex_files (Connect ex_path), Asks 3 ex_files (Connect ex_path)]"
  have "snd (daemon_run ?es daemon_new) = [(1, ResponseOk), (2, ResponseOk), (3, ResponseErr ''already connected; disconnect first'')] \<and>
    (let d = fst (daemon_run ?es daemon_new) in
      length (dm_tasks d) = 2 \<and> \<not> ct_ended (dm_tasks d ! 0) \<and> \<not> ct_ended (dm_tasks d ! 1) \<and> dm_session d = Some 1)"
    by (simp add: daemon_new_def daemon_connect_def spawn_client_def take_session_def update_task_def ex_allowed ex_read ex_valid nth_append)
  then obtain d where run: "daemon_run ?es daemon_new = (d, [(1, ResponseOk), (2, ResponseOk), (3, ResponseErr ''already connected; disconnect first'')])"
    and d: "length (dm_tasks d) = 2" "\<not> ct_ended (dm_tasks d ! 0)" "\<not> ct_ended (dm_tasks d ! 1)" "dm_session d = Some 1"
    by (metis prod.collapse)
  have "ct_shutdown (dm_tasks d ! 0)" using daemon_clients_confined [OF run] d by force
  then show ?thesis using run d by blast
qed

theorem disconnect_overlaps_connect_witness:
  "\<exists>d k'. remove_bootstrap_kill_switch ex_os 1001 ex_online = (Inr (), k') \<and> dm_session d = Some 0 \<and>
     (\<exists>d' j. daemon_run [Asks 1 ex_files Disconnect, Asks 2 ex_files (Connect ex_path)] d = (d', [(2, ResponseOk)]) \<and>
        dm_session d' = Some j \<and> j \<noteq> 0 \<and> \<not> ct_ended (dm_tasks d' ! j) \<and> \<not> ct_ended (dm_tasks d' ! 0)) \<and>
     eh_tables k' (table_name 1001) = None"
proof -
  let ?old = "\<lparr>ct_path = ex_path, ct_config = ex_run_config, ct_shutdown = False, ct_ended = False, ct_gui = gui_default\<rparr>"
  let ?d = "\<lparr>dm_tasks = [?old], dm_session = Some 0, dm_waits = []\<rparr>"
  obtain k' where rm: "remove_bootstrap_kill_switch ex_os 1001 ex_online = (Inr (), k')" using ex_removes by blast
  have "(\<exists>d' j. daemon_run [Asks 1 ex_files Disconnect, Asks 2 ex_files (Connect ex_path)] ?d = (d', [(2, ResponseOk)]) \<and> dm_session d' = Some j \<and>
      j \<noteq> 0 \<and> ct_config (dm_tasks d' ! j) = ex_run_config \<and> \<not> ct_ended (dm_tasks d' ! j) \<and> \<not> ct_ended (dm_tasks d' ! 0)) \<and> eh_tables k' (table_name 1001) = None"
    by (rule disconnect_overlaps_connect [OF _ _ _ _ _ _ ex_allowed ex_read ex_valid ex_filter rm]) simp_all
  then show ?thesis using rm by (intro exI [of _ ?d] exI [of _ k']) fastforce
qed

end
