(* ===== verification/Usage_History.thy ===== *)
theory Usage_History
  imports Server_State Transport_Base Text_Codec "HOL-Library.Signed_Division"
begin

text \<open>
  The persistent usage history of the server, \<^verbatim>\<open>apps/rvpn-server/src/usage_history.rs\<close>: daily totals by peer, the calendar of its days, recording the
  counters of the active peers, pruning, and replacing the file. The clock reading is an argument, in seconds since 1970;
  the JSON codec and the results of the file system are arguments too.
\<close>

section \<open>Days\<close>

definition utc_day_number :: "nat \<Rightarrow> nat" where
  "utc_day_number now = now div 86400"

definition utc_day_text :: "nat \<Rightarrow> string" where
  "utc_day_text day_number =
     (let z = int day_number + 719468;
          era = (if z \<ge> 0 then z else z - 146096) sdiv 146097;
          doe = z - era * 146097;
          yoe = (doe - doe sdiv 1460 + doe sdiv 36524 - doe sdiv 146096) sdiv 365;
          doy = doe - (365 * yoe + yoe sdiv 4 - yoe sdiv 100);
          mp = (5 * doy + 2) sdiv 153;
          day = doy - (153 * mp + 2) sdiv 5 + 1;
          month = mp + (if mp < 10 then 3 else - 9);
          year = yoe + era * 400 + (if month \<le> 2 then 1 else 0)
      in pad_zero 4 (dec (nat year)) @ ''-'' @ pad_zero 2 (dec (nat month)) @ ''-'' @ pad_zero 2 (dec (nat day)))"

definition utc_day :: "nat \<Rightarrow> string" where
  "utc_day now = utc_day_text (utc_day_number now)"

text \<open>64-bit arithmetic that wraps, as the release build has it. A field never has a minus sign, since the text is split at them.\<close>

definition i64 :: "int \<Rightarrow> int" where
  "i64 x = (x + 2 ^ 63) mod 2 ^ 64 - 2 ^ 63"

definition parse_i64 :: "string \<Rightarrow> int option" where
  "parse_i64 s = map_option int (parse_unsigned (2 ^ 63 - 1) s)"

definition day_number_of :: "int \<Rightarrow> int \<Rightarrow> int \<Rightarrow> nat option" where
  "day_number_of year month day =
     (if \<not> (1 \<le> month \<and> month \<le> 12) \<or> \<not> (1 \<le> day \<and> day \<le> 31) then None
      else
        (let y = year - (if month \<le> 2 then 1 else 0);
             era = (if y \<ge> 0 then y else y - 399) sdiv 400;
             yoe = y - era * 400;
             mp = month + (if month > 2 then - 3 else 9);
             doy = (153 * mp + 2) sdiv 5 + day - 1;
             doe = yoe * 365 + yoe sdiv 4 - yoe sdiv 100 + doy;
             n = i64 (i64 (i64 (era * 146097) + doe) - 719468)
         in if n < 0 then None else Some (nat n)))"

definition parse_day_number :: "string \<Rightarrow> nat option" where
  "parse_day_number text =
     (case split_on (\<lambda>c. c = CHR ''-'') text of
        [y, m, d] \<Rightarrow>
          (case (parse_i64 y, parse_i64 m, parse_i64 d) of
             (Some year, Some month, Some day) \<Rightarrow> day_number_of year month day
           | _ \<Rightarrow> None)
      | _ \<Rightarrow> None)"

section \<open>State\<close>

definition FILE_VERSION :: nat where "FILE_VERSION = 1"
definition MAX_HISTORY_FILE_BYTES :: nat where "MAX_HISTORY_FILE_BYTES = 64 * 1024 * 1024"

record usage_totals =
  ut_rx_packets :: nat
  ut_rx_payload_bytes :: nat
  ut_tx_packets :: nat
  ut_tx_payload_bytes :: nat
  ut_dropped_packets :: nat

definition totals_default :: usage_totals where
  "totals_default = \<lparr>ut_rx_packets = 0, ut_rx_payload_bytes = 0, ut_tx_packets = 0, ut_tx_payload_bytes = 0, ut_dropped_packets = 0\<rparr>"

type_synonym usage_days = "(string \<times> (string \<times> usage_totals) list) list"

record history_file =
  hf_version :: nat
  hf_days :: usage_days

record usage_history =
  us_path :: string
  us_retention_days :: nat
  us_file :: history_file
  us_previous :: "(session_id \<times> (string \<times> peer_stats)) list"
  us_dirty :: bool

datatype history_error =
    HistoryIo string io_error
  | HistoryParse string
  | InsecureHistory
  | HistoryTooLarge
  | UnsupportedVersion nat

text \<open>What the file system says of an existing file: its mode, its owner, its size and its bytes.\<close>

record history_on_disk =
  hd_mode :: u32
  hd_owner :: u32
  hd_size :: nat
  hd_read :: "io_error + bytes"

definition history_load :: "(bytes \<Rightarrow> string + history_file) \<Rightarrow> u32 \<Rightarrow> io_error + history_on_disk \<Rightarrow> history_error + history_file" where
  "history_load from_json euid metadata =
     and_then (map_err (HistoryIo ''metadata'') metadata) (\<lambda>md.
     and_then (require (and (hd_mode md) 0x3F = 0 \<and> hd_owner md = euid) InsecureHistory) (\<lambda>_.
     and_then (require (hd_size md \<le> MAX_HISTORY_FILE_BYTES) HistoryTooLarge) (\<lambda>_.
     and_then (map_err (HistoryIo ''reading'') (hd_read md)) (\<lambda>bs.
     and_then (map_err HistoryParse (from_json bs)) (\<lambda>file.
     and_then (require (hf_version file = FILE_VERSION) (UnsupportedVersion (hf_version file))) (\<lambda>_.
       Inr file))))))"

text \<open>No file is an empty history.\<close>

definition history_open ::
  "(bytes \<Rightarrow> string + history_file) \<Rightarrow> u32 \<Rightarrow> (io_error + history_on_disk) option \<Rightarrow> string \<Rightarrow> nat \<Rightarrow> history_error + usage_history" where
  "history_open from_json euid existing path retention_days =
     and_then (case existing of
                 Some metadata \<Rightarrow> history_load from_json euid metadata
               | None \<Rightarrow> Inr \<lparr>hf_version = FILE_VERSION, hf_days = []\<rparr>) (\<lambda>file.
       Inr \<lparr>us_path = path, us_retention_days = retention_days, us_file = file, us_previous = [], us_dirty = False\<rparr>)"

section \<open>Recording\<close>

definition usage_add :: "usage_totals \<Rightarrow> usage_totals \<Rightarrow> usage_totals" where
  "usage_add t d =
     \<lparr>ut_rx_packets = sat_add (ut_rx_packets t) (ut_rx_packets d), ut_rx_payload_bytes = sat_add (ut_rx_payload_bytes t) (ut_rx_payload_bytes d),
      ut_tx_packets = sat_add (ut_tx_packets t) (ut_tx_packets d), ut_tx_payload_bytes = sat_add (ut_tx_payload_bytes t) (ut_tx_payload_bytes d),
      ut_dropped_packets = sat_add (ut_dropped_packets t) (ut_dropped_packets d)\<rparr>"

definition usage_delta :: "peer_stats \<Rightarrow> peer_stats \<Rightarrow> usage_totals" where
  "usage_delta stats prev =
     \<lparr>ut_rx_packets = rx_packets stats - rx_packets prev, ut_rx_payload_bytes = rx_payload_bytes stats - rx_payload_bytes prev,
      ut_tx_packets = tx_packets stats - tx_packets prev, ut_tx_payload_bytes = tx_payload_bytes stats - tx_payload_bytes prev,
      ut_dropped_packets = dropped_packets stats - dropped_packets prev\<rparr>"

definition previous_stats :: "usage_history \<Rightarrow> session_id \<Rightarrow> peer_stats" where
  "previous_stats h sid = (case map_of (us_previous h) sid of Some (_, stats) \<Rightarrow> stats | None \<Rightarrow> stats_default)"

definition add_to_day :: "string \<Rightarrow> string \<Rightarrow> usage_totals \<Rightarrow> usage_days \<Rightarrow> usage_days" where
  "add_to_day day name delta days =
     (let peers = (case map_of days day of Some ps \<Rightarrow> ps | None \<Rightarrow> []);
          totals = (case map_of peers name of Some t \<Rightarrow> t | None \<Rightarrow> totals_default)
      in AList.update day (AList.update name (usage_add totals delta) peers) days)"

definition record_peer ::
  "usage_history \<Rightarrow> string \<Rightarrow> session_id \<times> 'n active_peer \<Rightarrow>
   usage_days \<times> bool \<times> (session_id \<times> (string \<times> peer_stats)) list \<Rightarrow> usage_days \<times> bool \<times> (session_id \<times> (string \<times> peer_stats)) list" where
  "record_peer h day = (\<lambda>(sid, peer) (days, dirty, current).
     let name = pi_name (ap_identity peer); delta = usage_delta (ap_stats peer) (previous_stats h sid);
         current' = AList.update sid (name, ap_stats peer) current
     in if delta \<noteq> totals_default then (add_to_day day name delta days, True, current') else (days, dirty, current'))"

definition kept_day :: "nat \<Rightarrow> nat \<Rightarrow> string \<Rightarrow> bool" where
  "kept_day today retention day = (case parse_day_number day of Some n \<Rightarrow> n \<le> today \<and> today - n < retention | None \<Rightarrow> False)"

definition prune :: "nat \<Rightarrow> usage_history \<Rightarrow> usage_history" where
  "prune now h =
     (let days = filter (\<lambda>(day, _). kept_day (utc_day_number now) (us_retention_days h) day) (hf_days (us_file h))
      in h\<lparr>us_file := (us_file h)\<lparr>hf_days := days\<rparr>, us_dirty := (us_dirty h \<or> length days \<noteq> length (hf_days (us_file h)))\<rparr>)"

text \<open>The clock is read once for the day and once for pruning.\<close>

definition record_usage :: "nat \<Rightarrow> nat \<Rightarrow> 'n active_map \<Rightarrow> usage_history \<Rightarrow> usage_history" where
  "record_usage now later peers h =
     (case fold (record_peer h (utc_day now)) peers (hf_days (us_file h), us_dirty h, []) of
        (days, dirty, current) \<Rightarrow>
          prune later (h\<lparr>us_file := (us_file h)\<lparr>hf_days := days\<rparr>, us_dirty := dirty, us_previous := current\<rparr>))"

section \<open>Writing the file\<close>

text \<open>A file with its mode and its owner, and what its metadata and reading it give when there is no input error.\<close>

record disk_file =
  df_mode :: u32
  df_owner :: u32
  df_data :: bytes

type_synonym disk = "string \<Rightarrow> disk_file option"

definition stat_file :: "disk \<Rightarrow> string \<Rightarrow> (io_error + history_on_disk) option" where
  "stat_file d path =
     map_option (\<lambda>f. Inr \<lparr>hd_mode = df_mode f, hd_owner = df_owner f, hd_size = length (df_data f), hd_read = Inr (df_data f)\<rparr>) (d path)"

text \<open>The user and the file creation mask of the server process, and what the calls of a flush give. A failed write has written some bytes.\<close>

record flush_calls =
  fc_euid :: u32
  fc_umask :: u32
  fc_directories :: "io_error + unit"
  fc_create :: "io_error + unit"
  fc_write :: "(io_error \<times> nat) + unit"
  fc_sync :: "io_error + unit"
  fc_rename :: "io_error + unit"

text \<open>A file created with the mode 0600: the mask can only take bits away.\<close>

definition created_file :: "flush_calls \<Rightarrow> bytes \<Rightarrow> disk_file" where
  "created_file calls data = \<lparr>df_mode = and 0x180 (not (fc_umask calls)), df_owner = fc_euid calls, df_data = data\<rparr>"

text \<open>A path with a parent directory other than the current one.\<close>

definition has_parent :: "string \<Rightarrow> bool" where
  "has_parent path \<longleftrightarrow> CHR ''/'' \<in> set (rev (dropWhile (\<lambda>c. c = CHR ''/'') (rev path)))"

text \<open>The temporary file: it must not exist yet, and is renamed over the history when it is complete.\<close>

definition replace_file :: "flush_calls \<Rightarrow> string \<Rightarrow> string \<Rightarrow> bytes \<Rightarrow> disk \<Rightarrow> (history_error + unit) \<times> disk" where
  "replace_file calls path temporary document d =
     (case (if d temporary \<noteq> None then Inl (Some 17) else fc_create calls) of
        Inl e \<Rightarrow> (Inl (HistoryIo ''creating temporary usage history'' e), d)
      | Inr _ \<Rightarrow>
          (case fc_write calls of
             Inl (e, n) \<Rightarrow> (Inl (HistoryIo ''writing temporary usage history'' e), d(temporary \<mapsto> created_file calls (take n document)))
           | Inr _ \<Rightarrow>
               (let d1 = d(temporary \<mapsto> created_file calls document) in
                case fc_sync calls of
                  Inl e \<Rightarrow> (Inl (HistoryIo ''syncing usage history file'' e), d1)
                | Inr _ \<Rightarrow>
                    (case fc_rename calls of
                       Inl e \<Rightarrow> (Inl (HistoryIo ''atomically replacing usage history'' e), d1)
                     | Inr _ \<Rightarrow> (Inr (), d1(path := d1 temporary, temporary := None))))))"

definition temporary_suffix :: "nat \<Rightarrow> nat \<Rightarrow> string" where
  "temporary_suffix pid nonce = ''.'' @ dec pid @ ''-'' @ dec nonce @ ''.tmp''"

definition flush ::
  "(history_file \<Rightarrow> string + bytes) \<Rightarrow> flush_calls \<Rightarrow> nat \<Rightarrow> nat \<Rightarrow> usage_history \<Rightarrow> disk \<Rightarrow> (history_error + unit) \<times> usage_history \<times> disk" where
  "flush to_json calls pid nonce h d =
     (if \<not> us_dirty h then (Inr (), h, d)
      else case (if has_parent (us_path h) then fc_directories calls else Inr ()) of
        Inl e \<Rightarrow> (Inl (HistoryIo ''creating usage history directory'' e), h, d)
      | Inr _ \<Rightarrow>
          (let h1 = h\<lparr>us_file := (us_file h)\<lparr>hf_version := FILE_VERSION\<rparr>\<rparr> in
           case to_json (us_file h1) of
             Inl e \<Rightarrow> (Inl (HistoryParse e), h1, d)
           | Inr document \<Rightarrow>
               if length document > MAX_HISTORY_FILE_BYTES then (Inl HistoryTooLarge, h1, d)
               else (case replace_file calls (us_path h) (us_path h @ temporary_suffix pid nonce) document d of
                       (Inl e, d1) \<Rightarrow> (Inl e, h1, d1)
                     | (Inr _, d1) \<Rightarrow> (Inr (), h1\<lparr>us_dirty := False\<rparr>, d1))))"

text \<open>The history during a run of the server: recordings and flushes in any order.\<close>

datatype 'n history_event = Records nat nat "'n active_map" | Flushes flush_calls nat nat

fun history_run :: "(history_file \<Rightarrow> string + bytes) \<Rightarrow> 'n history_event list \<Rightarrow> usage_history \<times> disk \<Rightarrow> usage_history \<times> disk" where
  "history_run to_json [] s = s"
| "history_run to_json (Records now later peers # es) (h, d) = history_run to_json es (record_usage now later peers h, d)"
| "history_run to_json (Flushes calls pid nonce # es) (h, d) = (case flush to_json calls pid nonce h d of (_, s) \<Rightarrow> history_run to_json es s)"

section \<open>The calendar\<close>

lemma sdiv_div: "0 \<le> a \<Longrightarrow> 0 < b \<Longrightarrow> a sdiv b = (a :: int) div b"
  by (cases "a = 0") (simp_all add: signed_divide_int_def)

lemma capped_div:
  fixes x b m :: int
  assumes "0 \<le> x" "0 < b" "0 \<le> m"
  obtains u where "0 \<le> u" "u \<le> m" "b * u \<le> x" "u < m \<Longrightarrow> x < b * u + b"
proof (rule that [of "min m (x div b)"])
  have q: "b * (x div b) + x mod b = x" "0 \<le> x mod b" "x mod b < b" "0 \<le> x div b" using assms by (simp_all add: pos_imp_zdiv_nonneg_iff)
  show "0 \<le> min m (x div b)" "min m (x div b) \<le> m" using q(4) assms(3) by simp_all
  have "b * min m (x div b) \<le> b * (x div b)" using assms(2) by (intro mult_left_mono) simp_all
  then show "b * min m (x div b) \<le> x" using q(1,2) by linarith
  show "x < b * min m (x div b) + b" if "min m (x div b) < m"
  proof -
    have "min m (x div b) = x div b" using that by (simp add: min_def split: if_splits)
    moreover have "x < b * (x div b) + b" using add_strict_left_mono [OF q(3), of "b * (x div b)"] unfolding q(1) .
    ultimately show ?thesis by simp
  qed
qed

text \<open>A day of an era by centuries, spans of four years, years and days.\<close>

lemma era_parts:
  fixes doe :: int
  assumes "0 \<le> doe" "doe < 146097"
  obtains u s t d where "doe = 36524 * u + 1461 * s + 365 * t + d" "0 \<le> u" "u \<le> 3" "0 \<le> s" "s \<le> 24" "0 \<le> t" "t \<le> 3" "0 \<le> d" "d \<le> 365"
    "d = 365 \<Longrightarrow> t = 3" "s = 24 \<Longrightarrow> t = 3 \<Longrightarrow> d = 365 \<Longrightarrow> u = 3"
proof -
  obtain u where u: "0 \<le> u" "u \<le> 3" "36524 * u \<le> doe" "u < 3 \<Longrightarrow> doe < 36524 * u + 36524" using capped_div [of doe 36524 3] assms by auto
  define r where "r = doe - 36524 * u"
  have r: "0 \<le> r" "r \<le> 36524" "r = 36524 \<Longrightarrow> u = 3" using u assms(2) by (cases "u = 3"; simp add: r_def)+
  obtain s where s: "0 \<le> s" "s \<le> 24" "1461 * s \<le> r" "s < 24 \<Longrightarrow> r < 1461 * s + 1461" using capped_div [of r 1461 24] r by auto
  define q where "q = r - 1461 * s"
  have q: "0 \<le> q" "q \<le> 1460" "q = 1460 \<Longrightarrow> s = 24 \<Longrightarrow> r = 36524" using s r(2) by (cases "s = 24"; simp add: q_def)+
  obtain t where t: "0 \<le> t" "t \<le> 3" "365 * t \<le> q" "t < 3 \<Longrightarrow> q < 365 * t + 365" using capped_div [of q 365 3] q by auto
  have d: "q - 365 * t \<le> 365" "q - 365 * t = 365 \<Longrightarrow> t = 3" using t q(2) by (cases "t = 3"; simp)+
  show ?thesis
  proof (rule that [of u s t "q - 365 * t"])
    show "u = 3" if "s = 24" "t = 3" "q - 365 * t = 365" using that q(3) r(3) by simp
  qed (use u s t d in \<open>simp_all add: q_def r_def\<close>)
qed

text \<open>The year of an era that a day falls in, and its position in that year.\<close>

lemma year_of_era:
  fixes doe yoe doy :: int
  assumes "0 \<le> doe" "doe < 146097" "yoe = (doe - doe div 1460 + doe div 36524 - doe div 146096) div 365"
    "doy = doe - (365 * yoe + yoe div 4 - yoe div 100)"
  shows "0 \<le> yoe" "yoe \<le> 399" "0 \<le> doy" "doy \<le> 365"
proof -
  obtain u s t d where D: "doe = 36524 * u + 1461 * s + 365 * t + d" and b: "0 \<le> u" "u \<le> 3" "0 \<le> s" "s \<le> 24" "0 \<le> t" "t \<le> 3" "0 \<le> d" "d \<le> 365"
    and l: "d = 365 \<Longrightarrow> t = 3" "s = 24 \<Longrightarrow> t = 3 \<Longrightarrow> d = 365 \<Longrightarrow> u = 3"
    using era_parts [OF assms(1,2)] by blast
  define e where "e = 24 * u + s + 365 * t + d"
  define c :: int where "c = (if e \<ge> 1460 then 1 else 0)"
  have "e < 2920" using b by (simp add: e_def)
  then have a: "doe div 1460 = 25 * u + s + c"
    using b D by (intro int_div_pos_eq [of _ _ _ "e - 1460 * c"]) (auto simp: e_def c_def)
  have cent: "doe div 36524 - doe div 146096 = u"
  proof (cases "doe = 146096")
    case True
    then have "2 < u" using D b by linarith
    then have "u = 3" using b by simp
    then show ?thesis using True by simp
  next
    case False
    have "1461 * s + 365 * t + d < 36524"
    proof (rule ccontr)
      assume "\<not> ?thesis"
      then have *: "36524 \<le> 1461 * s + 365 * t + d" by simp
      then have "s = 24" using b by linarith
      moreover from this have "t = 3" using * b by linarith
      ultimately show False using * l b D False by simp
    qed
    then have "doe div 36524 = u" using D b by (intro int_div_pos_eq [of _ _ _ "1461 * s + 365 * t + d"]) auto
    moreover have "doe div 146096 = 0" using assms(1,2) False by (intro div_pos_pos_trivial) auto
    ultimately show ?thesis by simp
  qed
  have d: "0 \<le> d - c" "d - c < 365"
    by (cases "d = 365"; use b l in \<open>auto simp: c_def e_def\<close>)+
  have "doe - doe div 1460 + doe div 36524 - doe div 146096 = 365 * (100 * u + 4 * s + t) + (d - c)"
    using a cent D by simp
  then have y: "yoe = 100 * u + 4 * s + t" unfolding assms(3) using d by (intro int_div_pos_eq [of _ _ _ "d - c"]) auto
  have "yoe div 4 = 25 * u + s" unfolding y using b by (intro int_div_pos_eq [of _ _ _ t]) auto
  moreover have "yoe div 100 = u" unfolding y using b by (intro int_div_pos_eq [of _ _ _ "4 * s + t"]) auto
  ultimately have "doy = d" unfolding assms(4) using y D by simp
  then show "0 \<le> yoe" "yoe \<le> 399" "0 \<le> doy" "doy \<le> 365" using y b by simp_all
qed

lemma month_of_year:
  fixes doy mp day :: int
  assumes "0 \<le> doy" "doy \<le> 365" "mp = (5 * doy + 2) div 153" "day = doy - (153 * mp + 2) div 5 + 1"
  shows "0 \<le> mp" "mp \<le> 11" "1 \<le> day" "day \<le> 31"
proof -
  define g where "g = (153 * mp + 2) div 5"
  have mp: "153 * mp \<le> 5 * doy + 2" "5 * doy + 2 < 153 * mp + 153"
    using div_mult_mod_eq [of "5 * doy + 2" 153] pos_mod_bound [of 153 "5 * doy + 2"] pos_mod_sign [of 153 "5 * doy + 2"] by (simp_all add: assms(3))
  have g: "5 * g \<le> 153 * mp + 2" "153 * mp + 2 < 5 * g + 5"
    using div_mult_mod_eq [of "153 * mp + 2" 5] pos_mod_bound [of 5 "153 * mp + 2"] pos_mod_sign [of 5 "153 * mp + 2"] by (simp_all add: g_def)
  show "0 \<le> mp" "mp \<le> 11" using mp assms(1,2) by linarith+
  have "- 5 < 5 * (doy - g)" using mp(1) g(1) by presburger
  moreover have "5 * (doy - g) < 155" using mp(2) g(2) by presburger
  ultimately have "0 \<le> doy - g" "doy - g \<le> 30" by simp_all
  then show "1 \<le> day" "day \<le> 31" by (simp_all add: assms(4) g_def [symmetric])
qed

text \<open>The algorithm of \<^verbatim>\<open>parse_day_number\<close> undoes that of \<^verbatim>\<open>utc_day\<close>.\<close>

definition civil :: "nat \<Rightarrow> int \<times> int \<times> int" where
  "civil day_number =
     (let z = int day_number + 719468; era = z div 146097; doe = z mod 146097;
          yoe = (doe - doe div 1460 + doe div 36524 - doe div 146096) div 365;
          doy = doe - (365 * yoe + yoe div 4 - yoe div 100);
          mp = (5 * doy + 2) div 153;
          month = mp + (if mp < 10 then 3 else - 9)
      in (yoe + era * 400 + (if month \<le> 2 then 1 else 0), month, doy - (153 * mp + 2) div 5 + 1))"

lemma utc_day_text_civil:
  "utc_day_text n = (case civil n of (year, month, day) \<Rightarrow>
     pad_zero 4 (dec (nat year)) @ ''-'' @ pad_zero 2 (dec (nat month)) @ ''-'' @ pad_zero 2 (dec (nat day)))"
proof -
  define z where "z = int n + 719468"
  define doe where "doe = z mod 146097"
  define yoe where "yoe = (doe - doe div 1460 + doe div 36524 - doe div 146096) div 365"
  define doy where "doy = doe - (365 * yoe + yoe div 4 - yoe div 100)"
  define mp where "mp = (5 * doy + 2) div 153"
  have z: "0 \<le> z" "z - z div 146097 * 146097 = doe" by (simp_all add: z_def doe_def minus_div_mult_eq_mod)
  have doe: "0 \<le> doe" "doe < 146097" by (simp_all add: doe_def)
  note Y = year_of_era [OF doe yoe_def doy_def]
  note M = month_of_year [OF Y(3,4) mp_def refl]
  have n: "0 \<le> doe - doe div 1460 + doe div 36524 - doe div 146096" using Y(1) by (simp add: yoe_def pos_imp_zdiv_nonneg_iff)
  have sd: "(if 0 \<le> z then z else z - 146096) sdiv 146097 = z div 146097" "doe sdiv 1460 = doe div 1460" "doe sdiv 36524 = doe div 36524" "doe sdiv 146096 = doe div 146096"
    "yoe sdiv 4 = yoe div 4" "yoe sdiv 100 = yoe div 100"
    using z(1) doe(1) Y(1) by (simp_all add: sdiv_div)
  have sy: "(doe - doe div 1460 + doe div 36524 - doe div 146096) sdiv 365 = yoe" unfolding yoe_def by (rule sdiv_div [OF n]) simp
  have sm: "(5 * doy + 2) sdiv 153 = mp" unfolding mp_def by (rule sdiv_div) (use Y(3) in simp_all)
  have sg: "(153 * mp + 2) sdiv 5 = (153 * mp + 2) div 5" by (rule sdiv_div) (use M(1) in simp_all)
  show ?thesis
    unfolding utc_day_text_def civil_def Let_def z_def [symmetric] sd z(2) doe_def [symmetric] sy sd yoe_def [symmetric]
    unfolding doy_def [symmetric] sm mp_def [symmetric] sg by simp
qed

lemma i64_id: "- (2 ^ 63) \<le> x \<Longrightarrow> x < 2 ^ 63 \<Longrightarrow> i64 x = x"
  unfolding i64_def by (subst mod_pos_pos_trivial) simp_all

lemma day_number_civil:
  assumes "civil n = (year, month, day)" and "n \<le> 2 ^ 62"
  shows "day_number_of year month day = Some n" "0 \<le> year" "year < 2 ^ 62" "1 \<le> month" "month \<le> 12" "1 \<le> day" "day \<le> 31"
proof -
  define z where "z = int n + 719468"
  define era where "era = z div 146097"
  define doe where "doe = z mod 146097"
  define yoe where "yoe = (doe - doe div 1460 + doe div 36524 - doe div 146096) div 365"
  define doy where "doy = doe - (365 * yoe + yoe div 4 - yoe div 100)"
  define mp where "mp = (5 * doy + 2) div 153"
  have doe: "0 \<le> doe" "doe < 146097" "era * 146097 + doe = z" by (simp_all add: doe_def era_def)
  have z: "0 \<le> era" "z \<le> 2 ^ 62 + 719468" using assms(2) by (simp_all add: era_def z_def pos_imp_zdiv_nonneg_iff)
  note Y = year_of_era [OF doe(1,2) yoe_def doy_def]
  note M = month_of_year [OF Y(3,4) mp_def refl]
  have c: "year = yoe + era * 400 + (if month \<le> 2 then 1 else 0)" "month = mp + (if mp < 10 then 3 else - 9)" "day = doy - (153 * mp + 2) div 5 + 1"
    using assms(1) unfolding civil_def Let_def z_def [symmetric] era_def [symmetric] doe_def [symmetric] yoe_def [symmetric]
    unfolding doy_def [symmetric] mp_def [symmetric] prod.inject by blast+
  have era: "era \<le> 2 ^ 47" using z(2) doe(1,3) by simp
  have mon: "1 \<le> month" "month \<le> 12" using M(1,2) by (simp_all add: c(2))
  have yr: "0 \<le> year" "year < 2 ^ 62" using z(1) Y(1,2) era by (simp_all add: c(1))
  show b: "0 \<le> year" "year < 2 ^ 62" "1 \<le> month" "month \<le> 12" "1 \<le> day" "day \<le> 31"
    using M(3,4) mon yr by (simp_all add: c(3))
  have y: "year - (if month \<le> 2 then 1 else 0) = yoe + era * 400" by (simp add: c(1))
  have q: "(yoe + era * 400) div 400 = era" using Y by (intro int_div_pos_eq [of _ _ _ yoe]) auto
  have m: "month + (if month > 2 then - 3 else 9) = mp" using M by (simp add: c(2))
  have d: "(153 * mp + 2) div 5 + day - 1 = doy" by (simp add: c(3))
  have e: "yoe * 365 + yoe div 4 - yoe div 100 + doy = doe" by (simp add: doy_def)
  have a: "0 \<le> era * 146097" "era * 146097 + doe - 719468 = int n" using z(1) doe(3) by (simp_all add: z_def)
  have w: "i64 (era * 146097) = era * 146097" "i64 (era * 146097 + doe) = era * 146097 + doe" "i64 (era * 146097 + doe - 719468) = int n"
    unfolding a(2) by (rule i64_id; use a(1) z(2) doe(1,3) assms(2) in simp)+
  have sd: "(if 0 \<le> yoe + era * 400 then yoe + era * 400 else yoe + era * 400 - 399) sdiv 400 = era" "yoe sdiv 4 = yoe div 4" "yoe sdiv 100 = yoe div 100"
    "(153 * mp + 2) sdiv 5 = (153 * mp + 2) div 5" "yoe + era * 400 - era * 400 = yoe"
    using Y(1) z(1) M(1) q by (simp_all add: sdiv_div)
  have r: "\<not> (\<not> (1 \<le> month \<and> month \<le> 12) \<or> \<not> (1 \<le> day \<and> day \<le> 31))" using b by simp
  show "day_number_of year month day = Some n"
    unfolding day_number_of_def if_not_P [OF r] Let_def y sd m d e w by simp
qed

lemma parse_utc_day_text:
  assumes "n \<le> 2 ^ 62"
  shows "parse_day_number (utc_day_text n) = Some n"
proof -
  obtain year month day where c: "civil n = (year, month, day)" using prod_cases3 by blast
  note D = day_number_civil [OF c assms]
  have plain: "list_all (\<lambda>c. c \<noteq> CHR ''-'') (pad_zero w (dec k))" for w k
    using all_digits_plain [OF all_digits_pad [OF all_digits_dec], of "\<lambda>c. c = CHR ''-''" w k] by simp
  have "split_on (\<lambda>c. c = CHR ''-'') (utc_day_text n) = [pad_zero 4 (dec (nat year)), pad_zero 2 (dec (nat month)), pad_zero 2 (dec (nat day))]"
    using plain by (simp add: utc_day_text_civil c split_on_field split_on_plain)
  moreover have "parse_i64 (pad_zero w (dec (nat k))) = Some k" if "0 \<le> k" "k < 2 ^ 62" for w k
    using that parse_unsigned_pad [of "nat k" "2 ^ 63 - 1" w] by (simp add: parse_i64_def nat_le_iff)
  ultimately show ?thesis using D by (simp add: parse_day_number_def)
qed

section \<open>Totals\<close>

definition totals_of :: "usage_days \<Rightarrow> string \<Rightarrow> string \<Rightarrow> usage_totals" where
  "totals_of days day name =
     (case map_of days day of
        None \<Rightarrow> totals_default
      | Some peers \<Rightarrow> (case map_of peers name of Some t \<Rightarrow> t | None \<Rightarrow> totals_default))"

definition wf_totals :: "usage_totals \<Rightarrow> bool" where
  "wf_totals t \<longleftrightarrow> ut_rx_packets t \<le> u64_max \<and> ut_rx_payload_bytes t \<le> u64_max \<and> ut_tx_packets t \<le> u64_max \<and> ut_tx_payload_bytes t \<le> u64_max \<and>
     ut_dropped_packets t \<le> u64_max"

lemma wf_usage_add [simp]: "wf_totals (usage_add t d)"
  by (simp add: wf_totals_def usage_add_def)

lemma usage_add_default: "wf_totals t \<Longrightarrow> usage_add t totals_default = t"
  by (simp add: wf_totals_def usage_add_def totals_default_def sat_add_exact)

lemma totals_add_to_day:
  "totals_of (add_to_day day name delta days) day' name' =
     (if day' = day \<and> name' = name then usage_add (totals_of days day name) delta else totals_of days day' name')"
  by (auto simp: totals_of_def add_to_day_def Let_def update_conv split: option.splits)

text \<open>What the active peers add to the totals of a name.\<close>

definition contributions :: "usage_history \<Rightarrow> string \<Rightarrow> 'n active_map \<Rightarrow> usage_totals list" where
  "contributions h name peers =
     map (\<lambda>(sid, peer). usage_delta (ap_stats peer) (previous_stats h sid)) (filter (\<lambda>(_, peer). pi_name (ap_identity peer) = name) peers)"

lemma totals_record:
  assumes "\<And>d. wf_totals (totals_of days d name)"
  shows "totals_of (fst (fold (record_peer h day) peers (days, dirty, current))) d name =
     (if d = day then fold (\<lambda>delta t. usage_add t delta) (contributions h name peers) (totals_of days day name) else totals_of days d name)"
  using assms
proof (induction peers arbitrary: days dirty current)
  case (Cons sp peers)
  obtain sid peer where sp: "sp = (sid, peer)" by fastforce
  let ?name = "pi_name (ap_identity peer)" and ?delta = "usage_delta (ap_stats peer) (previous_stats h sid)"
  obtain days1 dirty1 current1 where step: "record_peer h day sp (days, dirty, current) = (days1, dirty1, current1)" using prod_cases3 by blast
  have t: "totals_of days1 d name = (if d = day \<and> ?name = name then usage_add (totals_of days day name) ?delta else totals_of days d name)" for d
    using step Cons.prems [of day] usage_add_default
    by (auto simp: sp record_peer_def Let_def totals_add_to_day split: if_splits)
  have "wf_totals (totals_of days1 d name)" for d using Cons.prems by (simp add: t)
  then show ?case using Cons.IH [of days1 dirty1 current1] by (simp add: step t) (simp add: sp contributions_def)
qed (simp add: contributions_def)

lemma usage_map_of_filter: "P k \<Longrightarrow> map_of (filter (\<lambda>(k, _). P k) xs) k = map_of xs k"
  by (induction xs) auto

lemma kept_today:
  assumes "now \<le> later" and "now \<le> u64_max" and "utc_day_number later - utc_day_number now < retention"
  shows "kept_day (utc_day_number later) retention (utc_day now)"
proof -
  have "utc_day_number now \<le> 2 ^ 62" using assms(2) by (simp add: utc_day_number_def u64_max_def)
  moreover have "utc_day_number now \<le> utc_day_number later" using assms(1) by (simp add: utc_day_number_def div_le_mono)
  ultimately show ?thesis using parse_utc_day_text [of "utc_day_number now"] assms(3) by (simp add: kept_day_def utc_day_def)
qed

lemma prune_totals: "kept_day (utc_day_number now) (us_retention_days h) day \<Longrightarrow> totals_of (hf_days (us_file (prune now h))) day name = totals_of (hf_days (us_file h)) day name"
  unfolding prune_def Let_def totals_of_def
  by (simp add: usage_map_of_filter [of "kept_day (utc_day_number now) (us_retention_days h)"])

section \<open>The file and the history\<close>

lemma replace_file_cases:
  assumes "replace_file calls path temporary document d = (r, d')" and "temporary \<noteq> path"
  shows "(r = Inr () \<longrightarrow> d' path = Some (created_file calls document) \<and> d' temporary = None) \<and>
    (r \<noteq> Inr () \<longrightarrow> d' path = d path) \<and> (\<forall>f. f \<noteq> path \<longrightarrow> f \<noteq> temporary \<longrightarrow> d' f = d f)"
  using assms by (auto simp: replace_file_def Let_def split: sum.splits if_splits)

text \<open>The totals in a file, by day and name: the program keeps them in maps, so their order is immaterial.\<close>

definition file_view :: "history_file \<Rightarrow> nat \<times> (string \<Rightarrow> (string \<Rightarrow> usage_totals option) option)" where
  "file_view f = (hf_version f, \<lambda>day. map_option map_of (map_of (hf_days f) day))"

text \<open>Decoding what was encoded gives back the same version and totals.\<close>

definition codec :: "(history_file \<Rightarrow> string + bytes) \<Rightarrow> (bytes \<Rightarrow> string + history_file) \<Rightarrow> bool" where
  "codec to_json from_json \<longleftrightarrow> (\<forall>f bs. to_json f = Inr bs \<longrightarrow> (\<exists>f'. from_json bs = Inr f' \<and> file_view f' = file_view f))"

text \<open>Opening the file gives the history.\<close>

definition reopens :: "(bytes \<Rightarrow> string + history_file) \<Rightarrow> u32 \<Rightarrow> disk \<Rightarrow> usage_history \<Rightarrow> bool" where
  "reopens from_json euid d h \<longleftrightarrow>
     (\<forall>days. \<exists>f. history_open from_json euid (stat_file d (us_path h)) (us_path h) days =
        Inr \<lparr>us_path = us_path h, us_retention_days = days, us_file = f, us_previous = [], us_dirty = False\<rparr> \<and> file_view f = file_view (us_file h))"

lemma opened_reopens: "history_open from_json euid (stat_file d path) path days = Inr h \<Longrightarrow> reopens from_json euid d h \<and> us_path h = path"
  by (auto simp: reopens_def history_open_def and_then_Inr)

lemma record_peers_clean:
  "fold (record_peer h day) peers (days, dirty, current) = (days', dirty', current') \<Longrightarrow> \<not> dirty' \<Longrightarrow> days' = days \<and> \<not> dirty"
proof (induction peers arbitrary: days dirty current)
  case (Cons x peers)
  obtain days1 dirty1 current1 where x: "record_peer h day x (days, dirty, current) = (days1, dirty1, current1)" using prod_cases3 by blast
  have "days' = days1 \<and> \<not> dirty1" using Cons.IH [of days1 dirty1 current1] Cons.prems x by simp
  then show ?case using x by (auto simp: record_peer_def Let_def split: prod.splits if_splits)
qed simp

lemma record_usage_clean:
  assumes "\<not> us_dirty (record_usage now later peers h)"
  shows "\<not> us_dirty h \<and> us_file (record_usage now later peers h) = us_file h"
proof -
  obtain days dirty current where f: "fold (record_peer h (utc_day now)) peers (hf_days (us_file h), us_dirty h, []) = (days, dirty, current)"
    using prod_cases3 by blast
  have "\<not> dirty" and "length (filter (\<lambda>(day, _). kept_day (utc_day_number later) (us_retention_days h) day) days) = length days"
    using assms by (simp_all add: record_usage_def f prune_def Let_def)
  then have "filter (\<lambda>(day, _). kept_day (utc_day_number later) (us_retention_days h) day) days = days"
    by (metis (no_types, lifting) filter_id_conv length_filter_less less_irrefl_nat)
  then have "us_file (record_usage now later peers h) = (us_file h)\<lparr>hf_days := days\<rparr>"
    unfolding record_usage_def f prod.case prune_def Let_def by simp
  then show ?thesis using record_peers_clean [OF f \<open>\<not> dirty\<close>] by simp
qed

lemma record_usage_path [simp]: "us_path (record_usage now later peers h) = us_path h"
  by (simp add: record_usage_def prune_def Let_def split: prod.splits)

lemma temporary_neq [simp]: "path @ temporary_suffix pid nonce \<noteq> path"
  by (simp add: temporary_suffix_def)

lemma created_mode: "and (and 0x180 m) 0x3F = (0 :: u32)"
proof -
  have "and (and 0x180 m) 0x3F = and m (and 0x180 0x3F :: u32)" by (simp only: and.assoc and.commute and.left_commute)
  then show ?thesis by simp
qed

lemma flush_cases:
  assumes c: "codec to_json from_json" and f: "flush to_json calls pid nonce h d = (r, h', d')" and dirty: "us_dirty h"
  shows "us_path h' = us_path h \<and> hf_days (us_file h') = hf_days (us_file h) \<and>
    (r = Inr () \<longrightarrow> \<not> us_dirty h' \<and> reopens from_json (fc_euid calls) d' h') \<and>
    (r \<noteq> Inr () \<longrightarrow> us_dirty h' \<and> d' (us_path h) = d (us_path h)) \<and>
    (\<forall>g. g \<noteq> us_path h \<longrightarrow> g \<noteq> us_path h @ temporary_suffix pid nonce \<longrightarrow> d' g = d g)"
proof (cases "\<exists>document. to_json ((us_file h)\<lparr>hf_version := FILE_VERSION\<rparr>) = Inr document \<and> length document \<le> MAX_HISTORY_FILE_BYTES \<and>
    (if has_parent (us_path h) then fc_directories calls else Inr ()) = Inr ()")
  case True
  then obtain document where doc: "to_json ((us_file h)\<lparr>hf_version := FILE_VERSION\<rparr>) = Inr document" "length document \<le> MAX_HISTORY_FILE_BYTES"
    "(if has_parent (us_path h) then fc_directories calls else Inr ()) = Inr ()" by blast
  obtain r1 d1 where rf: "replace_file calls (us_path h) (us_path h @ temporary_suffix pid nonce) document d = (r1, d1)" by fastforce
  have eq: "d' = d1" "r = Inr () \<longleftrightarrow> r1 = Inr ()" "h' = h\<lparr>us_file := (us_file h)\<lparr>hf_version := FILE_VERSION\<rparr>, us_dirty := (r1 \<noteq> Inr ())\<rparr>"
    using f dirty doc(1,2) rf by (auto simp: flush_def Let_def doc(3) split: sum.splits)
  note cases = replace_file_cases [OF rf temporary_neq]
  obtain f' where f': "from_json document = Inr f'" "file_view f' = file_view ((us_file h)\<lparr>hf_version := FILE_VERSION\<rparr>)"
    using c doc(1) unfolding codec_def by blast
  have "reopens from_json (fc_euid calls) d1 h'" if "r1 = Inr ()"
    using that cases doc(2) f' by (simp add: reopens_def history_open_def history_load_def stat_file_def created_file_def require_def created_mode file_view_def eq(3))
  then show ?thesis using cases unfolding eq by simp
next
  case False
  then have "r \<noteq> Inr () \<and> us_dirty h' \<and> us_path h' = us_path h \<and> hf_days (us_file h') = hf_days (us_file h) \<and> d' = d"
    using f dirty by (auto simp: flush_def Let_def not_less split: sum.splits if_splits)
  then show ?thesis by simp
qed

lemma history_run_reopens:
  assumes "codec to_json from_json"
  shows "us_dirty h \<or> reopens from_json euid d h \<Longrightarrow> \<forall>calls pid nonce. Flushes calls pid nonce \<in> set es \<longrightarrow> fc_euid calls = euid \<Longrightarrow>
    history_run to_json es (h, d) = (h', d') \<Longrightarrow> (us_dirty h' \<or> reopens from_json euid d' h') \<and> us_path h' = us_path h"
proof (induction es arbitrary: h d)
  case (Cons e es)
  show ?case
  proof (cases e)
    case (Records now later peers)
    have "us_dirty (record_usage now later peers h) \<or> reopens from_json euid d (record_usage now later peers h)"
      using Cons.prems(1) record_usage_clean [of now later peers h] by (auto simp: reopens_def)
    then show ?thesis using Cons.IH [of "record_usage now later peers h" d] Cons.prems Records by simp
  next
    case (Flushes calls pid nonce)
    obtain r h1 d1 where f: "flush to_json calls pid nonce h d = (r, h1, d1)" using prod_cases3 by blast
    have "us_path h1 = us_path h \<and> (us_dirty h1 \<or> reopens from_json euid d1 h1)"
    proof (cases "us_dirty h")
      case True
      then show ?thesis using flush_cases [OF assms f True] Cons.prems(2) Flushes by auto
    next
      case False
      then show ?thesis using f Cons.prems(1) by (simp add: flush_def)
    qed
    moreover have "\<forall>calls pid nonce. Flushes calls pid nonce \<in> set es \<longrightarrow> fc_euid calls = euid" using Cons.prems(2) by simp
    moreover have "history_run to_json es (h1, d1) = (h', d')" using Cons.prems(3) Flushes f by simp
    ultimately show ?thesis using Cons.IH [of h1 d1] by metis
  qed
qed simp

section \<open>Examples\<close>

definition ex_history :: usage_history where
  "ex_history = \<lparr>us_path = ''/var/lib/rvpn/usage'', us_retention_days = 30, us_file = \<lparr>hf_version = 1, hf_days = []\<rparr>, us_previous = [], us_dirty = True\<rparr>"

definition ex_peer :: "(ip_addr \<times> nat) active_peer" where
  "ex_peer = (active_peer_new \<lparr>pi_name = ''alice'', pi_allowed_ips = [], pi_auth = CfgPinnedKey [] []\<rparr>
     (session_new ZERO 0 \<lparr>send_key = [], receive_key = []\<rparr> 0) (SockV4 1 1) 0 0)\<lparr>ap_stats := stats_default\<lparr>rx_packets := 2, rx_payload_bytes := 90\<rparr>\<rparr>"

definition ex_delta :: usage_totals where
  "ex_delta = \<lparr>ut_rx_packets = 2, ut_rx_payload_bytes = 90, ut_tx_packets = 0, ut_tx_payload_bytes = 0, ut_dropped_packets = 0\<rparr>"

text \<open>A codec for the examples: numbers in unary, lists behind their lengths.\<close>

definition enc_nat :: "nat \<Rightarrow> bytes" where "enc_nat n = replicate n 1 @ [0]"
definition dec_nat :: "bytes \<Rightarrow> nat \<times> bytes" where
  "dec_nat bs = (length (takeWhile (\<lambda>b. b \<noteq> 0) bs), tl (dropWhile (\<lambda>b. b \<noteq> 0) bs))"

definition enc_list :: "('a \<Rightarrow> bytes) \<Rightarrow> 'a list \<Rightarrow> bytes" where
  "enc_list enc xs = enc_nat (length xs) @ concat (map enc xs)"

fun dec_many :: "(bytes \<Rightarrow> 'a \<times> bytes) \<Rightarrow> nat \<Rightarrow> bytes \<Rightarrow> 'a list \<times> bytes" where
  "dec_many d 0 bs = ([], bs)"
| "dec_many d (Suc n) bs = (case d bs of (x, bs1) \<Rightarrow> case dec_many d n bs1 of (xs, bs2) \<Rightarrow> (x # xs, bs2))"

definition dec_list :: "(bytes \<Rightarrow> 'a \<times> bytes) \<Rightarrow> bytes \<Rightarrow> 'a list \<times> bytes" where
  "dec_list d bs = (case dec_nat bs of (n, bs1) \<Rightarrow> dec_many d n bs1)"

definition enc_pair :: "('a \<Rightarrow> bytes) \<Rightarrow> ('b \<Rightarrow> bytes) \<Rightarrow> 'a \<times> 'b \<Rightarrow> bytes" where
  "enc_pair f g = (\<lambda>(a, b). f a @ g b)"

definition dec_pair :: "(bytes \<Rightarrow> 'a \<times> bytes) \<Rightarrow> (bytes \<Rightarrow> 'b \<times> bytes) \<Rightarrow> bytes \<Rightarrow> ('a \<times> 'b) \<times> bytes" where
  "dec_pair f g bs = (case f bs of (a, bs1) \<Rightarrow> case g bs1 of (b, bs2) \<Rightarrow> ((a, b), bs2))"

definition enc_string :: "string \<Rightarrow> bytes" where "enc_string s = enc_list enc_nat (map of_char s)"
definition dec_string :: "bytes \<Rightarrow> string \<times> bytes" where "dec_string bs = (case dec_list dec_nat bs of (ns, r) \<Rightarrow> (map char_of ns, r))"

definition enc_totals :: "usage_totals \<Rightarrow> bytes" where
  "enc_totals t = enc_list enc_nat [ut_rx_packets t, ut_rx_payload_bytes t, ut_tx_packets t, ut_tx_payload_bytes t, ut_dropped_packets t]"

definition dec_totals :: "bytes \<Rightarrow> usage_totals \<times> bytes" where
  "dec_totals bs = (case dec_list dec_nat bs of (ns, r) \<Rightarrow>
     (\<lparr>ut_rx_packets = ns ! 0, ut_rx_payload_bytes = ns ! 1, ut_tx_packets = ns ! 2, ut_tx_payload_bytes = ns ! 3, ut_dropped_packets = ns ! 4\<rparr>, r))"

definition ex_to_json :: "history_file \<Rightarrow> string + bytes" where
  "ex_to_json f = Inr (enc_nat (hf_version f) @ enc_list (enc_pair enc_string (enc_list (enc_pair enc_string enc_totals))) (hf_days f))"

definition ex_from_json :: "bytes \<Rightarrow> string + history_file" where
  "ex_from_json bs = (case dec_nat bs of (v, bs1) \<Rightarrow>
     Inr \<lparr>hf_version = v, hf_days = fst (dec_list (dec_pair dec_string (dec_list (dec_pair dec_string dec_totals))) bs1)\<rparr>)"

lemma dec_enc_nat [simp]: "dec_nat (enc_nat n @ r) = (n, r)"
  by (induction n) (auto simp: dec_nat_def enc_nat_def)

lemma dec_enc_list: "(\<And>x r. d (enc x @ r) = (x, r)) \<Longrightarrow> dec_list d (enc_list enc xs @ r) = (xs, r)"
proof -
  assume d: "\<And>x r. d (enc x @ r) = (x, r)"
  have "dec_many d (length xs) (concat (map enc xs) @ r) = (xs, r)" by (induction xs) (simp_all add: d)
  then show ?thesis by (simp add: dec_list_def enc_list_def)
qed

lemma dec_enc_pair: "(\<And>x r. d (enc x @ r) = (x, r)) \<Longrightarrow> (\<And>x r. d' (enc' x @ r) = (x, r)) \<Longrightarrow> dec_pair d d' (enc_pair enc enc' p @ r) = (p, r)"
  by (cases p) (simp add: dec_pair_def enc_pair_def)

lemma dec_enc_string: "dec_string (enc_string s @ r) = (s, r)"
  by (simp add: dec_string_def enc_string_def dec_enc_list comp_def)

lemma dec_enc_totals: "dec_totals (enc_totals t @ r) = (t, r)"
  by (simp add: dec_totals_def enc_totals_def dec_enc_list)

lemma ex_codec: "codec ex_to_json ex_from_json"
proof -
  have "dec_list (dec_pair dec_string (dec_list (dec_pair dec_string dec_totals))) (enc_list (enc_pair enc_string (enc_list (enc_pair enc_string enc_totals))) days @ r) = (days, r)" for days r
    by (intro dec_enc_list dec_enc_pair dec_enc_string dec_enc_totals)
  from this [where r = "[]"] show ?thesis by (simp add: codec_def ex_to_json_def ex_from_json_def file_view_def)
qed

definition ex_calls :: flush_calls where
  "ex_calls = \<lparr>fc_euid = 1001, fc_umask = 0x12, fc_directories = Inr (), fc_create = Inr (), fc_write = Inr (), fc_sync = Inr (), fc_rename = Inr ()\<rparr>"

section \<open>Properties\<close>

text \<open>
  Days survive their text: the number of days that \<^verbatim>\<open>parse_day_number\<close> reads from the date \<^verbatim>\<open>utc_day\<close> prints for a clock reading is the
  number of days of that reading, for every value of a 64-bit clock.
\<close>

theorem utc_day_round_trip:
  assumes "now \<le> u64_max"
  shows "parse_day_number (utc_day now) = Some (utc_day_number now)"
proof -
  have "utc_day_number now \<le> 2 ^ 62" using assms by (simp add: utc_day_number_def u64_max_def)
  then show ?thesis by (simp add: utc_day_def parse_utc_day_text)
qed

theorem utc_day_round_trip_witness: "parse_day_number (utc_day 951782400) = Some 11016"
  using utc_day_round_trip [of 951782400] by (simp add: u64_max_def utc_day_number_def)

text \<open>
  Recording accounts for every active peer: afterwards the totals of the day and a peer's name are the totals before plus, for each active session of that
  name in turn, what its counters grew since the last recording, and pruning drops none of it. Totals saturate
  instead of wrapping.
\<close>

theorem usage_recorded:
  assumes "now \<le> later" and "now \<le> u64_max" and "utc_day_number later - utc_day_number now < us_retention_days h"
    and "\<And>d. wf_totals (totals_of (hf_days (us_file h)) d name)"
  shows "totals_of (hf_days (us_file (record_usage now later peers h))) (utc_day now) name =
     fold (\<lambda>delta t. usage_add t delta) (contributions h name peers) (totals_of (hf_days (us_file h)) (utc_day now) name)"
proof -
  obtain days dirty current where f: "fold (record_peer h (utc_day now)) peers (hf_days (us_file h), us_dirty h, []) = (days, dirty, current)"
    using prod_cases3 by blast
  have "totals_of days (utc_day now) name = fold (\<lambda>delta t. usage_add t delta) (contributions h name peers) (totals_of (hf_days (us_file h)) (utc_day now) name)"
    using totals_record [where days = "hf_days (us_file h)" and h = h and peers = peers and day = "utc_day now" and d = "utc_day now" and dirty = "us_dirty h" and current = "[]", OF assms(4)]
    by (simp add: f)
  then show ?thesis using prune_totals [OF kept_today [OF assms(1,2)]] assms(3) by (simp add: record_usage_def f)
qed

theorem usage_recorded_witness:
  "contributions ex_history ''alice'' [(ZERO, ex_peer)] = [ex_delta] \<and>
     totals_of (hf_days (us_file (record_usage 951782399 951782400 [(ZERO, ex_peer)] ex_history))) (utc_day 951782399) ''alice'' = ex_delta"
proof -
  have c: "contributions ex_history ''alice'' [(ZERO, ex_peer)] = [ex_delta]"
    by (simp add: contributions_def ex_peer_def ex_history_def ex_delta_def active_peer_new_def usage_delta_def previous_stats_def stats_default_def)
  have t: "totals_of (hf_days (us_file ex_history)) d name = totals_default" for d name by (simp add: totals_of_def ex_history_def)
  have "totals_of (hf_days (us_file (record_usage 951782399 951782400 [(ZERO, ex_peer)] ex_history))) (utc_day 951782399) ''alice'' =
      fold (\<lambda>delta t. usage_add t delta) (contributions ex_history ''alice'' [(ZERO, ex_peer)]) (totals_of (hf_days (us_file ex_history)) (utc_day 951782399) ''alice'')"
    by (rule usage_recorded) (simp_all add: u64_max_def utc_day_number_def t wf_totals_def totals_default_def, simp add: ex_history_def)
  then show ?thesis unfolding c t by (simp add: usage_add_def totals_default_def ex_delta_def sat_add_def u64_max_def)
qed

text \<open>
  C39. The history survives a restart: after a server has opened its history and recorded and flushed any number of times, whenever a flush reports success,
  opening the file again as the same user gives exactly the totals the server has in memory, the file's mode and owner being those it
  was created with; a flush that fails leaves the file as it was and the history marked for writing. Files other than the history and the
  temporary one are untouched. Decoding is assumed to invert encoding, and reading the file not to fail.
\<close>

theorem history_survives_restart:
  assumes "codec to_json from_json" and "history_open from_json euid (stat_file d0 path) path days0 = Inr h0"
    and "\<forall>calls pid nonce. Flushes calls pid nonce \<in> set events \<longrightarrow> fc_euid calls = euid" and "fc_euid calls = euid"
    and "history_run to_json events (h0, d0) = (h, d)" and f: "flush to_json calls pid nonce h d = (r, h', d')"
  shows "hf_days (us_file h') = hf_days (us_file h) \<and>
    (r = Inr () \<longrightarrow> \<not> us_dirty h' \<and>
      (\<exists>f. history_open from_json euid (stat_file d' path) path days =
         Inr \<lparr>us_path = path, us_retention_days = days, us_file = f, us_previous = [], us_dirty = False\<rparr> \<and> file_view f = file_view (us_file h'))) \<and>
    (r \<noteq> Inr () \<longrightarrow> us_dirty h' \<and> d' path = d path) \<and>
    (\<forall>g. g \<noteq> path \<longrightarrow> g \<noteq> path @ temporary_suffix pid nonce \<longrightarrow> d' g = d g)"
proof -
  have h: "us_dirty h \<or> reopens from_json euid d h" "us_path h = path"
    using history_run_reopens [OF assms(1) _ assms(3,5)] opened_reopens [OF assms(2)] by auto
  show ?thesis
  proof (cases "us_dirty h")
    case True
    note c = flush_cases [OF assms(1) f True, unfolded h(2) assms(4)]
    have "r = Inr () \<Longrightarrow> \<exists>f. history_open from_json euid (stat_file d' path) path days =
        Inr \<lparr>us_path = path, us_retention_days = days, us_file = f, us_previous = [], us_dirty = False\<rparr> \<and> file_view f = file_view (us_file h')"
      using c unfolding reopens_def by metis
    then show ?thesis using c by blast
  next
    case False
    then have "r = Inr ()" "h' = h" "d' = d" using f by (simp_all add: flush_def)
    then show ?thesis using False h by (simp add: reopens_def)
  qed
qed

lemma ex_recorded:
  "hf_days (us_file (record_usage 951782399 951782400 [(ZERO, ex_peer)] (ex_history\<lparr>us_dirty := False\<rparr>))) = [(''2000-02-28'', [(''alice'', ex_delta)])]"
  "us_dirty (record_usage 951782399 951782400 [(ZERO, ex_peer)] (ex_history\<lparr>us_dirty := False\<rparr>))"
  "us_path (record_usage 951782399 951782400 [(ZERO, ex_peer)] (ex_history\<lparr>us_dirty := False\<rparr>)) = ''/var/lib/rvpn/usage''"
proof -
  have day: "utc_day 951782399 = ''2000-02-28''"
  proof -
    have "utc_day 951782399 = pad_zero 4 (dec 2000) @ ''-'' @ pad_zero 2 (dec 2) @ ''-'' @ pad_zero 2 (dec 28)"
      unfolding utc_day_def utc_day_number_def utc_day_text_def Let_def by (simp add: sdiv_div)
    moreover have "dec 2000 = ''2000''" "dec 2 = ''2''" "dec 28 = ''28''"
      by (simp_all add: dec.simps [of 2000] dec.simps [of 200] dec.simps [of 20] dec.simps [of 28] dec.simps [of 2] char_of_def bit_0)
    ultimately show ?thesis by (simp add: pad_zero_def)
  qed
  have kept: "kept_day (utc_day_number 951782400) 30 ''2000-02-28''"
    using kept_today [of 951782399 951782400 30] by (simp add: day utc_day_number_def u64_max_def)
  have delta: "usage_delta (ap_stats ex_peer) (previous_stats (ex_history\<lparr>us_dirty := False\<rparr>) ZERO) = ex_delta" "pi_name (ap_identity ex_peer) = ''alice''"
    by (simp_all add: ex_peer_def ex_history_def ex_delta_def active_peer_new_def usage_delta_def previous_stats_def stats_default_def)
  have add: "add_to_day ''2000-02-28'' ''alice'' ex_delta [] = [(''2000-02-28'', [(''alice'', ex_delta)])]"
    by (simp add: add_to_day_def usage_add_def totals_default_def ex_delta_def sat_add_def u64_max_def)
  have ne: "ex_delta \<noteq> totals_default" by (simp add: ex_delta_def totals_default_def)
  have "record_usage 951782399 951782400 [(ZERO, ex_peer)] (ex_history\<lparr>us_dirty := False\<rparr>) =
      prune 951782400 (ex_history\<lparr>us_file := \<lparr>hf_version = 1, hf_days = [(''2000-02-28'', [(''alice'', ex_delta)])]\<rparr>, us_dirty := True,
        us_previous := [(ZERO, (''alice'', ap_stats ex_peer))]\<rparr>)"
    by (simp add: record_usage_def record_peer_def day delta ne Let_def) (simp add: add ex_history_def)
  then show "hf_days (us_file (record_usage 951782399 951782400 [(ZERO, ex_peer)] (ex_history\<lparr>us_dirty := False\<rparr>))) = [(''2000-02-28'', [(''alice'', ex_delta)])]"
    "us_dirty (record_usage 951782399 951782400 [(ZERO, ex_peer)] (ex_history\<lparr>us_dirty := False\<rparr>))"
    "us_path (record_usage 951782399 951782400 [(ZERO, ex_peer)] (ex_history\<lparr>us_dirty := False\<rparr>)) = ''/var/lib/rvpn/usage''"
    using kept by (simp_all add: prune_def ex_history_def Let_def)
qed

theorem history_survives_restart_witness:
  "\<exists>h d h' d' f. history_open ex_from_json 1001 (stat_file (\<lambda>_. None) ''/var/lib/rvpn/usage'') ''/var/lib/rvpn/usage'' 30 = Inr h \<and>
     history_run ex_to_json [Records 951782399 951782400 [(ZERO, ex_peer)]] (h, \<lambda>_. None) = (h', d) \<and>
     fst (flush ex_to_json ex_calls 7 8 h' d) = Inr () \<and> snd (snd (flush ex_to_json ex_calls 7 8 h' d)) = d' \<and>
     history_open ex_from_json 1001 (stat_file d' ''/var/lib/rvpn/usage'') ''/var/lib/rvpn/usage'' 30 =
       Inr \<lparr>us_path = ''/var/lib/rvpn/usage'', us_retention_days = 30, us_file = f, us_previous = [], us_dirty = False\<rparr> \<and>
     map_option map_of (map_of (hf_days f) ''2000-02-28'') = Some [''alice'' \<mapsto> ex_delta]"
proof -
  let ?p = "''/var/lib/rvpn/usage''" and ?start = "ex_history\<lparr>us_dirty := False\<rparr>"
  let ?h = "record_usage 951782399 951782400 [(ZERO, ex_peer)] ?start"
  note days = ex_recorded
  have o: "history_open ex_from_json 1001 (stat_file (\<lambda>_. None) ?p) ?p 30 = Inr ?start"
    by (simp add: history_open_def stat_file_def ex_history_def FILE_VERSION_def)
  have run: "history_run ex_to_json [Records 951782399 951782400 [(ZERO, ex_peer)]] (?start, \<lambda>_. None) = (?h, \<lambda>_. None)" by simp
  obtain r h' d' where f: "flush ex_to_json ex_calls 7 8 ?h (\<lambda>_. None) = (r, h', d')" using prod_cases3 by blast
  have "r = Inr ()" using f days
    by (simp add: flush_def Let_def ex_calls_def ex_to_json_def replace_file_def MAX_HISTORY_FILE_BYTES_def FILE_VERSION_def enc_list_def enc_nat_def enc_pair_def
        enc_string_def enc_totals_def ex_delta_def split: if_splits)
  moreover have "\<forall>calls pid nonce. Flushes calls pid nonce \<in> set [Records 951782399 951782400 [(ZERO, ex_peer)]] \<longrightarrow> fc_euid calls = 1001" by simp
  moreover have "fc_euid ex_calls = 1001" by (simp add: ex_calls_def)
  ultimately obtain g where "history_open ex_from_json 1001 (stat_file d' ?p) ?p 30 =
      Inr \<lparr>us_path = ?p, us_retention_days = 30, us_file = g, us_previous = [], us_dirty = False\<rparr>" "file_view g = file_view (us_file h')"
      "hf_days (us_file h') = hf_days (us_file ?h)"
    using history_survives_restart [OF ex_codec o _ _ run f, where days = 30] by blast
  moreover have "map_option map_of (map_of (hf_days g) ''2000-02-28'') = Some [''alice'' \<mapsto> ex_delta]"
    using calculation(2,3) days(1) by (auto simp: file_view_def dest!: fun_cong [of _ _ "''2000-02-28''"])
  moreover have "fst (flush ex_to_json ex_calls 7 8 ?h (\<lambda>_. None)) = Inr ()" "snd (snd (flush ex_to_json ex_calls 7 8 ?h (\<lambda>_. None))) = d'" using f \<open>r = Inr ()\<close> by simp_all
  ultimately show ?thesis using o run by blast
qed

end
