(* ===== verification/Server_Firewall.thy ===== *)
theory Server_Firewall
  imports Linux_Net
begin

text \<open>
  Forwarding on the server's host, \<^verbatim>\<open>apps/rvpn-server/src/firewall.rs\<close>: enabling the kernel switches, installing the rules with nftables or iptables, and
  undoing it all when the guard is dropped. Running a program and the file system are fields of the record \<open>shell\<close>, and
  the guard is threaded through the installation as the part of the state that records what to undo.
\<close>

section \<open>The shell and the guard\<close>

record 'k shell =
  sh_run :: "string \<Rightarrow> string list \<Rightarrow> 'k \<Rightarrow> (string + unit) \<times> 'k"
  sh_read :: "'k \<Rightarrow> string \<Rightarrow> string option"
  sh_write :: "string \<Rightarrow> string \<Rightarrow> 'k \<Rightarrow> (string + unit) \<times> 'k"

record forwarding_guard =
  fg_sysctls :: "(string \<times> string) list"
  fg_cleanup :: "(string \<times> string list) list"

definition guard_new :: forwarding_guard where
  "guard_new = \<lparr>fg_sysctls = [], fg_cleanup = []\<rparr>"

type_synonym ('k, 'a) guarded_op = "('k \<times> forwarding_guard, string, 'a) net_op"

definition run_program :: "'k shell \<Rightarrow> string \<Rightarrow> string list \<Rightarrow> ('k, unit) guarded_op" where
  "run_program sh program args = (\<lambda>(k, g). case sh_run sh program args k of (r, k1) \<Rightarrow> (r, (k1, g)))"

definition push_cleanup :: "string \<Rightarrow> string list \<Rightarrow> ('k, unit) guarded_op" where
  "push_cleanup program args = (\<lambda>(k, g). (Inr (), (k, g\<lparr>fg_cleanup := fg_cleanup g @ [(program, args)]\<rparr>)))"

definition IPV4_FORWARD :: string where "IPV4_FORWARD = ''/proc/sys/net/ipv4/ip_forward''"
definition IPV6_FORWARD :: string where "IPV6_FORWARD = ''/proc/sys/net/ipv6/conf/all/forwarding''"

definition enable_sysctl :: "'k shell \<Rightarrow> string \<Rightarrow> ('k, unit) guarded_op" where
  "enable_sysctl sh path = (\<lambda>(k, g).
     case sh_read sh k path of
       None \<Rightarrow> (Inl (''reading '' @ path), (k, g))
     | Some prev \<Rightarrow>
         if trim prev = ''1'' then (Inr (), (k, g))
         else (case sh_write sh path (''1'' @ newline) k of
                 (Inl e, k1) \<Rightarrow> (Inl e, (k1, g))
               | (Inr _, k1) \<Rightarrow> (Inr (), (k1, g\<lparr>fg_sysctls := fg_sysctls g @ [(path, prev)]\<rparr>))))"

section \<open>nftables\<close>

definition mss_v4 :: "u16 \<Rightarrow> nat" where "mss_v4 mtu = max (unat mtu - 40) 536"
definition mss_v6 :: "u16 \<Rightarrow> nat" where "mss_v6 mtu = max (unat mtu - 60) 1220"

definition forward_rule :: "string list \<Rightarrow> string list" where
  "forward_rule spec = [''add'', ''rule'', ''inet'', ''rvpn'', ''forward''] @ spec"

definition clamp_rule :: "string \<Rightarrow> string \<Rightarrow> string \<Rightarrow> nat \<Rightarrow> string list" where
  "clamp_rule input output family mss =
     forward_rule [''iifname'', input, ''oifname'', output, ''meta'', ''nfproto'', family, ''tcp'', ''flags'', ''syn'', ''tcp'', ''option'', ''maxseg'', ''size'', ''set'', dec mss]"

definition masquerade_rule :: "string \<Rightarrow> string \<Rightarrow> string \<Rightarrow> string list" where
  "masquerade_rule family network external =
     [''add'', ''rule'', ''inet'', ''rvpn'', ''postrouting'', family, ''saddr'', network, ''oifname'', external, ''masquerade'']"

definition nft_rules :: "forwarding_config \<Rightarrow> string \<Rightarrow> string \<Rightarrow> u16 \<Rightarrow> string list list" where
  "nft_rules config tunnel external mtu =
     [[''add'', ''chain'', ''inet'', ''rvpn'', ''forward'', ''{'', ''type'', ''filter'', ''hook'', ''forward'', ''priority'', ''filter;'', ''policy'', ''accept;'', ''}''],
      clamp_rule tunnel external ''ipv4'' (mss_v4 mtu),
      clamp_rule tunnel external ''ipv6'' (mss_v6 mtu),
      clamp_rule external tunnel ''ipv4'' (mss_v4 mtu),
      clamp_rule external tunnel ''ipv6'' (mss_v6 mtu),
      forward_rule [''iifname'', tunnel, ''oifname'', external, ''accept''],
      forward_rule [''iifname'', external, ''oifname'', tunnel, ''ct'', ''state'', ''established,related'', ''accept''],
      forward_rule [''iifname'', tunnel, ''drop''],
      forward_rule [''oifname'', tunnel, ''drop''],
      [''add'', ''chain'', ''inet'', ''rvpn'', ''postrouting'', ''{'', ''type'', ''nat'', ''hook'', ''postrouting'', ''priority'', ''srcnat;'', ''}'']] @
     (case fw_tunnel_cidr config of Some network \<Rightarrow> [masquerade_rule ''ip'' network external] | None \<Rightarrow> []) @
     (case fw_tunnel_cidr_v6 config of Some network \<Rightarrow> [masquerade_rule ''ip6'' network external] | None \<Rightarrow> [])"

definition install_nftables :: "'k shell \<Rightarrow> forwarding_config \<Rightarrow> string \<Rightarrow> string \<Rightarrow> u16 \<Rightarrow> ('k, unit) guarded_op" where
  "install_nftables sh config tunnel external mtu =
     seq (ignoring (run_program sh ''nft'' [''delete'', ''table'', ''inet'', ''rvpn''])) (\<lambda>_.
     seq (run_program sh ''nft'' [''add'', ''table'', ''inet'', ''rvpn'']) (\<lambda>_.
     seq (push_cleanup ''nft'' [''delete'', ''table'', ''inet'', ''rvpn'']) (\<lambda>_.
       for_each (run_program sh ''nft'') (nft_rules config tunnel external mtu))))"

section \<open>iptables\<close>

type_synonym iptables_rule = "string option \<times> string \<times> string list"

definition table_args :: "string option \<Rightarrow> string list" where
  "table_args table = (case table of Some t \<Rightarrow> [''-t'', t] | None \<Rightarrow> [])"

definition clamp_spec :: "string \<Rightarrow> string \<Rightarrow> nat \<Rightarrow> string list" where
  "clamp_spec input output mss =
     [''-i'', input, ''-o'', output, ''-p'', ''tcp'', ''--tcp-flags'', ''SYN,RST'', ''SYN'', ''-j'', ''TCPMSS'', ''--set-mss'', dec mss]"

definition iptables_rules :: "string \<Rightarrow> string \<Rightarrow> string \<Rightarrow> string \<Rightarrow> u16 \<Rightarrow> iptables_rule list" where
  "iptables_rules binary tunnel external network mtu =
     (let mss = (if binary = ''iptables'' then mss_v4 mtu else mss_v6 mtu) in
      [(None, ''FORWARD'', [''-i'', tunnel, ''-o'', external, ''-j'', ''ACCEPT'']),
       (None, ''FORWARD'', [''-i'', external, ''-o'', tunnel, ''-m'', ''conntrack'', ''--ctstate'', ''ESTABLISHED,RELATED'', ''-j'', ''ACCEPT'']),
       (Some ''nat'', ''POSTROUTING'', [''-s'', network, ''-o'', external, ''-j'', ''MASQUERADE'']),
       (Some ''mangle'', ''FORWARD'', clamp_spec tunnel external mss),
       (Some ''mangle'', ''FORWARD'', clamp_spec external tunnel mss)])"

definition install_rule :: "'k shell \<Rightarrow> string \<Rightarrow> iptables_rule \<Rightarrow> ('k, unit) guarded_op" where
  "install_rule sh binary = (\<lambda>(table, chain, spec).
     seq (\<lambda>s. case run_program sh binary (table_args table @ [''-C'', chain] @ spec) s of
            (Inl _, s1) \<Rightarrow> run_program sh binary (table_args table @ [''-I'', chain, ''1''] @ spec) s1
          | (Inr _, s1) \<Rightarrow> (Inr (), s1)) (\<lambda>_.
       push_cleanup binary (table_args table @ [''-D'', chain] @ spec)))"

definition install_iptables_family :: "'k shell \<Rightarrow> string \<Rightarrow> string \<Rightarrow> string \<Rightarrow> string \<Rightarrow> u16 \<Rightarrow> ('k, unit) guarded_op" where
  "install_iptables_family sh binary tunnel external network mtu =
     for_each (install_rule sh binary) (iptables_rules binary tunnel external network mtu)"

definition install_iptables :: "'k shell \<Rightarrow> forwarding_config \<Rightarrow> string \<Rightarrow> string \<Rightarrow> u16 \<Rightarrow> ('k, unit) guarded_op" where
  "install_iptables sh config tunnel external mtu =
     seq (case fw_tunnel_cidr config of
            Some network \<Rightarrow> install_iptables_family sh ''iptables'' tunnel external network mtu
          | None \<Rightarrow> done_with ()) (\<lambda>_.
       case fw_tunnel_cidr_v6 config of
         Some network \<Rightarrow> install_iptables_family sh ''ip6tables'' tunnel external network mtu
       | None \<Rightarrow> done_with ())"

section \<open>Installing and cleaning up\<close>

definition guard_cleanup :: "'k shell \<Rightarrow> forwarding_guard \<Rightarrow> 'k \<Rightarrow> 'k" where
  "guard_cleanup sh g k =
     fold (\<lambda>(path, prev) k. snd (sh_write sh path prev k)) (fg_sysctls g)
       (fold (\<lambda>(program, args) k. snd (sh_run sh program args k)) (rev (fg_cleanup g)) k)"

definition use_nft :: "'k shell \<Rightarrow> firewall_backend \<Rightarrow> ('k, bool) guarded_op" where
  "use_nft sh backend = (case backend of
     Nftables \<Rightarrow> done_with True
   | Iptables \<Rightarrow> done_with False
   | Auto \<Rightarrow> (\<lambda>s. case run_program sh ''nft'' [''--version''] s of (r, s1) \<Rightarrow> (Inr (is_ok r), s1)))"

definition install_steps :: "'k shell \<Rightarrow> forwarding_config \<Rightarrow> string \<Rightarrow> u16 \<Rightarrow> ('k, unit) guarded_op" where
  "install_steps sh config tunnel mtu =
     (if \<not> fw_enabled config then done_with ()
      else
        seq (if fw_tunnel_cidr config \<noteq> None then enable_sysctl sh IPV4_FORWARD else done_with ()) (\<lambda>_.
        seq (if fw_tunnel_cidr_v6 config \<noteq> None then enable_sysctl sh IPV6_FORWARD else done_with ()) (\<lambda>_.
        seq (query (\<lambda>_. ok_or (fw_external_interface config) ''forwarding.external_interface is required when forwarding is enabled'')) (\<lambda>external.
        seq (use_nft sh (fw_backend config)) (\<lambda>nft.
          if nft then install_nftables sh config tunnel external mtu else install_iptables sh config tunnel external mtu)))))"

text \<open>A failed installation drops its guard, which cleans up.\<close>

definition forwarding_install :: "'k shell \<Rightarrow> forwarding_config \<Rightarrow> string \<Rightarrow> u16 \<Rightarrow> 'k \<Rightarrow> (string + forwarding_guard) \<times> 'k" where
  "forwarding_install sh config tunnel mtu k =
     (case install_steps sh config tunnel mtu (k, guard_new) of
        (Inl e, (k1, g)) \<Rightarrow> (Inl e, guard_cleanup sh g k1)
      | (Inr _, (k1, g)) \<Rightarrow> (Inr g, k1))"

section \<open>The rules and the switches\<close>

text \<open>A chain belongs to a table, the one called \<^verbatim>\<open>filter\<close> when the command names none.\<close>

type_synonym chain_key = "string \<times> string \<times> string"
type_synonym rule_chains = "chain_key \<Rightarrow> string list list"

definition table_of :: "string option \<Rightarrow> string" where
  "table_of table = (case table of Some t \<Rightarrow> t | None \<Rightarrow> ''filter'')"

definition insert_rule :: "string \<Rightarrow> iptables_rule \<Rightarrow> rule_chains \<Rightarrow> rule_chains" where
  "insert_rule binary = (\<lambda>(table, chain, spec) f. f((binary, table_of table, chain) := spec # f (binary, table_of table, chain)))"

definition delete_rule :: "string \<Rightarrow> iptables_rule \<Rightarrow> rule_chains \<Rightarrow> rule_chains" where
  "delete_rule binary = (\<lambda>(table, chain, spec) f. f((binary, table_of table, chain) := remove1 spec (f (binary, table_of table, chain))))"

definition has_rule :: "rule_chains \<Rightarrow> string \<Rightarrow> iptables_rule \<Rightarrow> bool" where
  "has_rule f binary = (\<lambda>(table, chain, spec). spec \<in> set (f (binary, table_of table, chain)))"

definition rule_command :: "string \<Rightarrow> iptables_rule \<Rightarrow> string list" where
  "rule_command action = (\<lambda>(table, chain, spec). table_args table @ [action, chain] @ (if action = ''-I'' then [''1''] else []) @ spec)"

text \<open>The kernel switches for forwarding.\<close>

definition switches :: "'k shell \<Rightarrow> 'k \<Rightarrow> string \<rightharpoonup> string" where
  "switches sh k = sh_read sh k |` {IPV4_FORWARD, IPV6_FORWARD}"

text \<open>
  The commands as their manuals describe them, for a set \<open>R\<close> of rules: checking with \<^verbatim>\<open>-C\<close> succeeds only if the rule is there and changes nothing, \<^verbatim>\<open>-I\<close> inserts the
  rule in front, \<^verbatim>\<open>-D\<close> deletes the first that is equal, and a command that fails changes nothing. The commands leave the switches alone, and
  writing a switch leaves the chains and the other switch alone.
\<close>

definition shell_laws :: "'k shell \<Rightarrow> ('k \<Rightarrow> rule_chains) \<Rightarrow> (string \<times> iptables_rule) set \<Rightarrow> bool" where
  "shell_laws sh ch R \<longleftrightarrow>
     (\<forall>b rule k r k1. (b, rule) \<in> R \<longrightarrow>
        (sh_run sh b (rule_command ''-C'' rule) k = (r, k1) \<longrightarrow> switches sh k1 = switches sh k \<and> ch k1 = ch k \<and> (is_ok r \<longrightarrow> has_rule (ch k) b rule)) \<and>
        (sh_run sh b (rule_command ''-I'' rule) k = (r, k1) \<longrightarrow> switches sh k1 = switches sh k \<and> ch k1 = (if is_ok r then insert_rule b rule (ch k) else ch k)) \<and>
        (sh_run sh b (rule_command ''-D'' rule) k = (r, k1) \<longrightarrow> switches sh k1 = switches sh k \<and> ch k1 = (if is_ok r then delete_rule b rule (ch k) else ch k))) \<and>
     (\<forall>p t k r k1. p \<in> {IPV4_FORWARD, IPV6_FORWARD} \<longrightarrow> sh_write sh p t k = (r, k1) \<longrightarrow>
        ch k1 = ch k \<and> switches sh k1 = (if is_ok r then (switches sh k)(p \<mapsto> t) else switches sh k))"

text \<open>Deleting a rule that is there succeeds.\<close>

definition deletes_existing :: "'k shell \<Rightarrow> ('k \<Rightarrow> rule_chains) \<Rightarrow> (string \<times> iptables_rule) set \<Rightarrow> bool" where
  "deletes_existing sh ch R \<longleftrightarrow>
     (\<forall>b rule k. (b, rule) \<in> R \<longrightarrow> has_rule (ch k) b rule \<longrightarrow> is_ok (fst (sh_run sh b (rule_command ''-D'' rule) k)))"

lemma shell_lawsD:
  assumes "shell_laws sh ch R"
  shows "(b, rule) \<in> R \<Longrightarrow> sh_run sh b (rule_command ''-C'' rule) k = (r, k1) \<Longrightarrow>
      switches sh k1 = switches sh k \<and> ch k1 = ch k \<and> (is_ok r \<longrightarrow> has_rule (ch k) b rule)"
    "(b, rule) \<in> R \<Longrightarrow> sh_run sh b (rule_command ''-I'' rule) k = (r, k1) \<Longrightarrow>
      switches sh k1 = switches sh k \<and> ch k1 = (if is_ok r then insert_rule b rule (ch k) else ch k)"
    "(b, rule) \<in> R \<Longrightarrow> sh_run sh b (rule_command ''-D'' rule) k = (r, k1) \<Longrightarrow>
      switches sh k1 = switches sh k \<and> ch k1 = (if is_ok r then delete_rule b rule (ch k) else ch k)"
    "p \<in> {IPV4_FORWARD, IPV6_FORWARD} \<Longrightarrow> sh_write sh p text k = (r, k1) \<Longrightarrow>
      ch k1 = ch k \<and> switches sh k1 = (if is_ok r then (switches sh k)(p \<mapsto> text) else switches sh k)"
  using assms unfolding shell_laws_def by blast+

definition rule_place :: "iptables_rule \<Rightarrow> string \<times> string \<times> string list" where
  "rule_place = (\<lambda>(table, chain, spec). (table_of table, chain, spec))"

lemma delete_insert: "delete_rule b rule (insert_rule b rule f) = f"
  by (cases rule) (simp add: delete_rule_def insert_rule_def)

lemma has_insert: "has_rule (insert_rule b rule f) b' rule' \<longleftrightarrow> (b' = b \<and> rule_place rule' = rule_place rule) \<or> has_rule f b' rule'"
  by (cases rule; cases rule') (auto simp: has_rule_def insert_rule_def rule_place_def)

definition undo_command :: "string \<times> iptables_rule \<Rightarrow> string \<times> string list" where
  "undo_command = (\<lambda>(binary, rule). (binary, rule_command ''-D'' rule))"

text \<open>The chains with the given rules inserted one after the other, and what undoing the recorded writes would leave of the switches.\<close>

definition rules_added :: "(string \<times> iptables_rule) list \<Rightarrow> rule_chains \<Rightarrow> rule_chains" where
  "rules_added rs f = fold (\<lambda>(b, rule). insert_rule b rule) rs f"

lemma has_added: "has_rule (rules_added rs f) b rule \<longleftrightarrow> (b, rule_place rule) \<in> apsnd rule_place ` set rs \<or> has_rule f b rule"
proof (induction rs arbitrary: f)
  case (Cons x rs)
  obtain b' rule' where x: "x = (b', rule')" by (rule prod.exhaust)
  have "rules_added (x # rs) f = rules_added rs (insert_rule b' rule' f)" by (simp add: rules_added_def x)
  then show ?case using Cons by (auto simp: has_insert x)
qed (simp add: rules_added_def)

definition files_undone :: "(string \<times> string) list \<Rightarrow> (string \<Rightarrow> string option) \<Rightarrow> string \<Rightarrow> string option" where
  "files_undone saved f = fold (\<lambda>(path, prev) f. f(path \<mapsto> prev)) saved f"

lemma files_undone_other: "p \<notin> fst ` set saved \<Longrightarrow> files_undone saved f p = f p"
  by (induction saved arbitrary: f) (auto simp: files_undone_def)

lemma files_undone_write: "p \<notin> fst ` set saved \<Longrightarrow> files_undone saved (f(p \<mapsto> t)) = (files_undone saved f)(p \<mapsto> t)"
proof (induction saved arbitrary: f)
  case (Cons s saved)
  obtain q prev where s: "s = (q, prev)" by fastforce
  then have "f(p \<mapsto> t, q \<mapsto> prev) = f(q \<mapsto> prev, p \<mapsto> t)" using Cons.prems by (auto intro: fun_upd_twist)
  moreover have step: "files_undone (s # saved) g = files_undone saved (g(q \<mapsto> prev))" for g by (simp add: s files_undone_def)
  ultimately have "files_undone (s # saved) (f(p \<mapsto> t)) = files_undone saved (f(q \<mapsto> prev, p \<mapsto> t))" by (simp only: step)
  also have "\<dots> = (files_undone saved (f(q \<mapsto> prev)))(p \<mapsto> t)" by (rule Cons.IH) (use Cons.prems in simp)
  finally show ?case by (simp only: step)
qed (simp add: files_undone_def)

text \<open>The guard records how to get back to the chains \<open>f0\<close> and the switches \<open>d0\<close>.\<close>

definition undoes :: "'k shell \<Rightarrow> ('k \<Rightarrow> rule_chains) \<Rightarrow> (string \<times> iptables_rule) set \<Rightarrow> rule_chains \<Rightarrow> (string \<Rightarrow> string option) \<Rightarrow>
    (string \<times> iptables_rule) list \<Rightarrow> 'k \<times> forwarding_guard \<Rightarrow> bool" where
  "undoes sh ch R f0 d0 rs = (\<lambda>(k, g).
     fg_cleanup g = map undo_command rs \<and> set rs \<subseteq> R \<and> ch k = rules_added rs f0 \<and>
     fst ` set (fg_sysctls g) \<subseteq> {IPV4_FORWARD, IPV6_FORWARD} \<and> files_undone (fg_sysctls g) (switches sh k) = d0)"

lemma undo_commands_run:
  assumes L: "shell_laws sh ch R" and D: "deletes_existing sh ch R"
  shows "set rs \<subseteq> R \<Longrightarrow> ch k = rules_added rs f0 \<Longrightarrow>
    ch (fold (\<lambda>(program, args) k. snd (sh_run sh program args k)) (rev (map undo_command rs)) k) = f0 \<and>
    switches sh (fold (\<lambda>(program, args) k. snd (sh_run sh program args k)) (rev (map undo_command rs)) k) = switches sh k"
proof (induction rs arbitrary: k rule: rev_induct)
  case (snoc x rs)
  obtain b rule where x: "x = (b, rule)" by (rule prod.exhaust)
  obtain r k' where r: "sh_run sh b (rule_command ''-D'' rule) k = (r, k')" by fastforce
  have R: "(b, rule) \<in> R" using snoc.prems x by simp
  have ins: "ch k = insert_rule b rule (rules_added rs f0)" using snoc.prems x by (simp add: rules_added_def)
  then have "is_ok r" using D R r unfolding deletes_existing_def by (metis fst_conv has_insert)
  then have "switches sh k' = switches sh k" "ch k' = rules_added rs f0" using shell_lawsD(3) [OF L R r] ins by (simp_all add: delete_insert)
  then show ?case using snoc.IH [of k'] snoc.prems(1) r x by (simp add: undo_command_def)
qed (simp add: rules_added_def)

lemma undo_writes_run:
  assumes L: "shell_laws sh ch R" and w: "\<And>p t k. p \<in> {IPV4_FORWARD, IPV6_FORWARD} \<Longrightarrow> is_ok (fst (sh_write sh p t k))"
  shows "fst ` set saved \<subseteq> {IPV4_FORWARD, IPV6_FORWARD} \<Longrightarrow>
    ch (fold (\<lambda>(path, prev) k. snd (sh_write sh path prev k)) saved k) = ch k \<and>
    switches sh (fold (\<lambda>(path, prev) k. snd (sh_write sh path prev k)) saved k) = files_undone saved (switches sh k)"
proof (induction saved arbitrary: k)
  case (Cons x saved)
  obtain p t where x: "x = (p, t)" by fastforce
  obtain r k' where r: "sh_write sh p t k = (r, k')" by fastforce
  have p: "p \<in> {IPV4_FORWARD, IPV6_FORWARD}" using Cons.prems x by simp
  then have "is_ok r" using w [of p t k] r by simp
  then have "ch k' = ch k \<and> switches sh k' = (switches sh k)(p \<mapsto> t)" using shell_lawsD(4) [OF L p r] by simp
  then show ?case using Cons.IH [of k'] Cons.prems r by (simp add: x files_undone_def del: fun_upd_apply)
qed (simp add: files_undone_def)

lemma cleanup_undoes:
  assumes L: "shell_laws sh ch R" and D: "deletes_existing sh ch R" and u: "undoes sh ch R f0 d0 rs (k, g)"
    and w: "\<And>p t k. p \<in> {IPV4_FORWARD, IPV6_FORWARD} \<Longrightarrow> is_ok (fst (sh_write sh p t k))"
  shows "ch (guard_cleanup sh g k) = f0 \<and> switches sh (guard_cleanup sh g k) = d0"
  using undo_commands_run [OF L D, of rs k f0] undo_writes_run [OF L w, of "fg_sysctls g"] u
  by (simp add: guard_cleanup_def undoes_def)

section \<open>Every step can be undone\<close>

lemma install_rule_undoes:
  assumes L: "shell_laws sh ch R" and b: "(b, rule) \<in> R" and u: "undoes sh ch R f0 d0 rs s"
    and fresh: "\<not> has_rule f0 b rule" "(b, rule_place rule) \<notin> apsnd rule_place ` set rs" and i: "install_rule sh b rule s = (r, s')"
  shows "undoes sh ch R f0 d0 (if is_ok r then rs @ [(b, rule)] else rs) s' \<and> fg_sysctls (snd s') = fg_sysctls (snd s)"
proof -
  obtain k g where s: "s = (k, g)" by fastforce
  obtain t c spec where rule: "rule = (t, c, spec)" using prod_cases3 by blast
  obtain r1 k1 where check: "sh_run sh b (rule_command ''-C'' rule) k = (r1, k1)" by fastforce
  obtain r2 k2 where ins: "sh_run sh b (rule_command ''-I'' rule) k1 = (r2, k2)" by fastforce
  have absent: "\<not> has_rule (ch k) b rule" using u fresh by (simp add: s undoes_def has_added)
  then have c1: "ch k1 = ch k" "switches sh k1 = switches sh k" "\<not> is_ok r1" using shell_lawsD(1) [OF L b check] by auto
  have c2: "ch k2 = (if is_ok r2 then insert_rule b rule (ch k) else ch k)" "switches sh k2 = switches sh k"
    using shell_lawsD(2) [OF L b ins] by (simp_all add: c1)
  have run: "install_rule sh b rule s = (case r2 of Inl e \<Rightarrow> (Inl e, (k2, g))
      | Inr _ \<Rightarrow> (Inr (), (k2, g\<lparr>fg_cleanup := fg_cleanup g @ [undo_command (b, rule)]\<rparr>)))"
    using check ins c1(3)
    by (cases r1; cases r2) (simp_all add: s rule install_rule_def seq_def run_program_def push_cleanup_def undo_command_def rule_command_def)
  show ?thesis
  proof (cases r2)
    case (Inl e)
    then show ?thesis using run i u c2 by (auto simp: s undoes_def)
  next
    case (Inr x)
    then have "r = Inr ()" "s' = (k2, g\<lparr>fg_cleanup := fg_cleanup g @ [undo_command (b, rule)]\<rparr>)" using run i by simp_all
    then show ?thesis using u c2 b Inr by (simp add: s undoes_def rules_added_def)
  qed
qed

lemma install_rules_undo:
  assumes L: "shell_laws sh ch R"
  shows "undoes sh ch R f0 d0 rs s \<Longrightarrow> distinct (map rule_place rules) \<Longrightarrow>
    (\<forall>rule \<in> set rules. (b, rule) \<in> R \<and> \<not> has_rule f0 b rule \<and> (b, rule_place rule) \<notin> apsnd rule_place ` set rs) \<Longrightarrow>
    for_each (install_rule sh b) rules s = (r, s') \<Longrightarrow>
    (\<exists>rs'. undoes sh ch R f0 d0 rs' s' \<and> set rs' \<subseteq> set rs \<union> Pair b ` set rules) \<and> fg_sysctls (snd s') = fg_sysctls (snd s)"
proof (induction rules arbitrary: rs s)
  case Nil
  then show ?case by (auto simp: done_with_def)
next
  case (Cons rule rules)
  have b: "(b, rule) \<in> R" "\<not> has_rule f0 b rule" "(b, rule_place rule) \<notin> apsnd rule_place ` set rs" using Cons.prems(3) by auto
  from Cons.prems(4) have "seq (install_rule sh b rule) (\<lambda>_. for_each (install_rule sh b) rules) s = (r, s')" by simp
  then show ?case
  proof (cases rule: seq_cases)
    case (failed e)
    then show ?thesis using install_rule_undoes [OF L b(1) Cons.prems(1) b(2,3) failed(1)] by auto
  next
    case (went_on x s1)
    have step: "undoes sh ch R f0 d0 (rs @ [(b, rule)]) s1" "fg_sysctls (snd s1) = fg_sysctls (snd s)"
      using install_rule_undoes [OF L b(1) Cons.prems(1) b(2,3) went_on(1)] by simp_all
    have "\<forall>rule' \<in> set rules. (b, rule') \<in> R \<and> \<not> has_rule f0 b rule' \<and> (b, rule_place rule') \<notin> apsnd rule_place ` set (rs @ [(b, rule)])"
      using Cons.prems(2,3) by (auto simp del: split_paired_All split_paired_Ex) (metis image_eqI)
    from Cons.IH [OF step(1) _ this went_on(2)] Cons.prems(2) step(2) show ?thesis by fastforce
  qed
qed

lemma enable_undoes:
  assumes L: "shell_laws sh ch R" and u: "undoes sh ch R f0 d0 rs s" and p: "p \<notin> fst ` set (fg_sysctls (snd s))" "p \<in> {IPV4_FORWARD, IPV6_FORWARD}"
    and e: "enable_sysctl sh p s = (r, s')"
  shows "undoes sh ch R f0 d0 rs s' \<and> fst ` set (fg_sysctls (snd s')) \<subseteq> insert p (fst ` set (fg_sysctls (snd s)))"
proof -
  obtain k g where s: "s = (k, g)" by fastforce
  obtain w k1 where w: "sh_write sh p (''1'' @ newline) k = (w, k1)" by fastforce
  note l = shell_lawsD(4) [OF L p(2) w]
  show ?thesis
  proof (cases "\<exists>prev. sh_read sh k p = Some prev \<and> trim prev \<noteq> ''1'' \<and> w = Inr ()")
    case True
    then obtain prev where prev: "sh_read sh k p = Some prev" "trim prev \<noteq> ''1''" "w = Inr ()" by blast
    have "switches sh k p = Some prev" using prev(1) p(2) by (simp add: switches_def)
    then have "files_undone (fg_sysctls g) (switches sh k) p = Some prev" using files_undone_other p(1) by (simp add: s)
    then have "files_undone (fg_sysctls g @ [(p, prev)]) ((switches sh k)(p \<mapsto> ''1'' @ newline)) = files_undone (fg_sysctls g) (switches sh k)"
      using files_undone_write [of p "fg_sysctls g" "switches sh k"] p(1) by (auto simp: s files_undone_def)
    moreover have "s' = (k1, g\<lparr>fg_sysctls := fg_sysctls g @ [(p, prev)]\<rparr>)" using e w prev by (simp add: s enable_sysctl_def)
    moreover have "ch k1 = ch k" "switches sh k1 = (switches sh k)(p \<mapsto> ''1'' @ newline)" using l prev(3) by simp_all
    ultimately show ?thesis using u p(2) unfolding s undoes_def by simp
  next
    case False
    then have "snd s' = g \<and> ch (fst s') = ch k \<and> switches sh (fst s') = switches sh k"
      using e w l by (cases w) (auto simp: s enable_sysctl_def split: option.splits if_splits)
    then show ?thesis using u unfolding s undoes_def by (simp add: case_prod_beta) auto
  qed
qed

lemma install_family_undoes:
  assumes L: "shell_laws sh ch R" and "undoes sh ch R f0 d0 rs s" and "tunnel \<noteq> external"
    and "\<forall>rule \<in> set (iptables_rules b tunnel external network mtu). (b, rule) \<in> R \<and> \<not> has_rule f0 b rule" and "b \<notin> fst ` set rs"
    and "install_iptables_family sh b tunnel external network mtu s = (r, s')"
  shows "\<exists>rs'. undoes sh ch R f0 d0 rs' s' \<and> fst ` set rs' \<subseteq> insert b (fst ` set rs) \<and> fg_sysctls (snd s') = fg_sysctls (snd s)"
proof -
  have "distinct (map rule_place (iptables_rules b tunnel external network mtu))"
    using assms(3) by (simp add: iptables_rules_def clamp_spec_def Let_def rule_place_def table_of_def)
  moreover have "\<forall>rule \<in> set (iptables_rules b tunnel external network mtu). (b, rule) \<in> R \<and> \<not> has_rule f0 b rule \<and> (b, rule_place rule) \<notin> apsnd rule_place ` set rs"
    using assms(4,5) by force
  moreover have "for_each (install_rule sh b) (iptables_rules b tunnel external network mtu) s = (r, s')"
    using assms(6) unfolding install_iptables_family_def .
  ultimately obtain rs' where rs': "undoes sh ch R f0 d0 rs' s'" "set rs' \<subseteq> set rs \<union> Pair b ` set (iptables_rules b tunnel external network mtu)"
    "fg_sysctls (snd s') = fg_sysctls (snd s)"
    using install_rules_undo [OF L assms(2)] by blast
  have "fst ` set rs' \<subseteq> insert b (fst ` set rs)"
    using image_mono [OF rs'(2), of fst] by (auto simp: image_Un image_image)
  then show ?thesis using rs'(1,3) by blast
qed

text \<open>The rules the installation adds.\<close>

definition rules_to_add :: "forwarding_config \<Rightarrow> string \<Rightarrow> string \<Rightarrow> u16 \<Rightarrow> (string \<times> iptables_rule) list" where
  "rules_to_add config tunnel external mtu =
     (case fw_tunnel_cidr config of Some n \<Rightarrow> map (Pair ''iptables'') (iptables_rules ''iptables'' tunnel external n mtu) | None \<Rightarrow> []) @
     (case fw_tunnel_cidr_v6 config of Some n \<Rightarrow> map (Pair ''ip6tables'') (iptables_rules ''ip6tables'' tunnel external n mtu) | None \<Rightarrow> [])"

definition used_rules :: "forwarding_config \<Rightarrow> string \<Rightarrow> u16 \<Rightarrow> (string \<times> iptables_rule) set" where
  "used_rules config tunnel mtu =
     (case fw_external_interface config of Some external \<Rightarrow> set (rules_to_add config tunnel external mtu) | None \<Rightarrow> {})"

lemma install_iptables_undoes:
  assumes L: "shell_laws sh ch R" and u: "undoes sh ch R f0 d0 [] s" and ne: "tunnel \<noteq> external"
    and fresh: "\<forall>(b, rule) \<in> set (rules_to_add config tunnel external mtu). (b, rule) \<in> R \<and> \<not> has_rule f0 b rule"
    and i: "install_iptables sh config tunnel external mtu s = (r, s')"
  shows "\<exists>rs'. undoes sh ch R f0 d0 rs' s' \<and> fg_sysctls (snd s') = fg_sysctls (snd s)"
proof -
  have first: "\<exists>rs'. undoes sh ch R f0 d0 rs' s1 \<and> fst ` set rs' \<subseteq> {''iptables''} \<and> fg_sysctls (snd s1) = fg_sysctls (snd s)"
    if "(case fw_tunnel_cidr config of Some n \<Rightarrow> install_iptables_family sh ''iptables'' tunnel external n mtu | None \<Rightarrow> done_with ()) s = (r1, s1)" for r1 s1
  proof (cases "fw_tunnel_cidr config")
    case None
    then show ?thesis using that u by (auto simp: done_with_def)
  next
    case (Some n)
    then have "\<forall>rule \<in> set (iptables_rules ''iptables'' tunnel external n mtu). (''iptables'', rule) \<in> R \<and> \<not> has_rule f0 ''iptables'' rule" using fresh by (auto simp: rules_to_add_def)
    moreover have "install_iptables_family sh ''iptables'' tunnel external n mtu s = (r1, s1)" using that Some by simp
    ultimately show ?thesis using install_family_undoes [OF L u ne, of "''iptables''" n mtu r1 s1] by auto
  qed
  from i [unfolded install_iptables_def] show ?thesis
  proof (cases rule: seq_cases)
    case (failed e)
    then show ?thesis using first by blast
  next
    case (went_on a s1)
    then obtain rs1 where rs1: "undoes sh ch R f0 d0 rs1 s1" "fst ` set rs1 \<subseteq> {''iptables''}" "fg_sysctls (snd s1) = fg_sysctls (snd s)" using first by blast
    show ?thesis
    proof (cases "fw_tunnel_cidr_v6 config")
      case None
      then show ?thesis using went_on(2) rs1 by (auto simp: done_with_def)
    next
      case (Some n)
      have "''ip6tables'' \<notin> fst ` set rs1" using rs1(2) by auto
      moreover have "\<forall>rule \<in> set (iptables_rules ''ip6tables'' tunnel external n mtu). (''ip6tables'', rule) \<in> R \<and> \<not> has_rule f0 ''ip6tables'' rule"
        using fresh Some by (auto simp: rules_to_add_def split: option.splits)
      moreover have "install_iptables_family sh ''ip6tables'' tunnel external n mtu s1 = (r, s')" using went_on(2) Some by simp
      ultimately show ?thesis using install_family_undoes [OF L rs1(1) ne, of "''ip6tables''" n mtu r s'] rs1(3) by auto
    qed
  qed
qed

lemma install_steps_undo:
  assumes L: "shell_laws sh ch R" and backend: "fw_backend config = Iptables"
    and fresh: "\<And>external. fw_external_interface config = Some external \<Longrightarrow> tunnel \<noteq> external \<and> (\<forall>(b, rule) \<in> set (rules_to_add config tunnel external mtu). (b, rule) \<in> R \<and> \<not> has_rule (ch k) b rule)"
    and i: "install_steps sh config tunnel mtu (k, guard_new) = (r, s')"
  shows "(\<exists>rs. undoes sh ch R (ch k) (switches sh k) rs s') \<and> fst ` set (fg_sysctls (snd s')) \<subseteq> {IPV4_FORWARD, IPV6_FORWARD}"
proof -
  let ?u = "\<lambda>s. undoes sh ch R (ch k) (switches sh k) [] s" and ?s0 = "(k, guard_new)"
  have u0: "?u ?s0" "fg_sysctls (snd ?s0) = []" by (simp_all add: undoes_def guard_new_def rules_added_def files_undone_def)
  have ne: "IPV6_FORWARD \<noteq> IPV4_FORWARD" by (simp add: IPV4_FORWARD_def IPV6_FORWARD_def)
  have v4: "?u s1 \<and> fst ` set (fg_sysctls (snd s1)) \<subseteq> {IPV4_FORWARD}"
    if "(if fw_tunnel_cidr config \<noteq> None then enable_sysctl sh IPV4_FORWARD else done_with ()) ?s0 = (r1, s1)" for r1 s1
  proof (cases "fw_tunnel_cidr config")
    case None
    then have "s1 = ?s0" using that by (simp add: done_with_def)
    then show ?thesis using u0 by (simp only: list.set image_empty empty_subsetI simp_thms)
  next
    case (Some n)
    then have e: "enable_sysctl sh IPV4_FORWARD ?s0 = (r1, s1)" using that by simp
    have "IPV4_FORWARD \<notin> fst ` set (fg_sysctls (snd ?s0))" unfolding u0(2) by simp
    from enable_undoes [OF L u0(1) this _ e] show ?thesis unfolding u0(2) by (simp only: list.set image_empty simp_thms insert_iff)
  qed
  have v6: "?u s2 \<and> fst ` set (fg_sysctls (snd s2)) \<subseteq> {IPV4_FORWARD, IPV6_FORWARD}"
    if "?u s1 \<and> fst ` set (fg_sysctls (snd s1)) \<subseteq> {IPV4_FORWARD}" "(if fw_tunnel_cidr_v6 config \<noteq> None then enable_sysctl sh IPV6_FORWARD else done_with ()) s1 = (r2, s2)" for s1 r2 s2
  proof -
    have "IPV6_FORWARD \<notin> fst ` set (fg_sysctls (snd s1))" using that(1) ne by blast
    show ?thesis
    proof (cases "fw_tunnel_cidr_v6 config")
      case None
      then show ?thesis using that by (auto simp: done_with_def)
    next
      case (Some n)
      then have "enable_sysctl sh IPV6_FORWARD s1 = (r2, s2)" using that(2) by simp
      from enable_undoes [OF L conjunct1 [OF that(1)] \<open>IPV6_FORWARD \<notin> _\<close> _ this]
      have "?u s2" "fst ` set (fg_sysctls (snd s2)) \<subseteq> insert IPV6_FORWARD (fst ` set (fg_sysctls (snd s1)))" by blast+
      then show ?thesis using conjunct2 [OF that(1)] by blast
    qed
  qed
  show ?thesis
  proof (cases "fw_enabled config")
    case True
    have last: "(\<exists>rs. undoes sh ch R (ch k) (switches sh k) rs s') \<and> fg_sysctls (snd s') = fg_sysctls (snd s2)"
      if "?u s2" "seq (query (\<lambda>_. ok_or (fw_external_interface config) ''forwarding.external_interface is required when forwarding is enabled'')) (\<lambda>external.
        seq (use_nft sh (fw_backend config)) (\<lambda>nft.
          if nft then install_nftables sh config tunnel external mtu else install_iptables sh config tunnel external mtu)) s2 = (r, s')" for s2
      using that(2)
    proof (cases rule: seq_cases)
      case (failed e)
      then show ?thesis using that(1) by (auto simp: query_def)
    next
      case (went_on external s3)
      then have ext: "fw_external_interface config = Some external" "s3 = s2" by (auto simp: query_def ok_or_def split: option.splits)
      have "install_iptables sh config tunnel external mtu s2 = (r, s')" using went_on(2) ext(2) by (simp add: seq_def use_nft_def backend done_with_def)
      from install_iptables_undoes [OF L that(1) conjunct1 [OF fresh [OF ext(1)]] conjunct2 [OF fresh [OF ext(1)]] this] show ?thesis by blast
    qed
    have "\<not> \<not> fw_enabled config" using True by simp
    from i [unfolded install_steps_def if_not_P [OF this]] show ?thesis
    proof (cases rule: seq_cases)
      case (failed e)
      show ?thesis using v4 [OF failed(1)] by blast
    next
      case (went_on a s1)
      note s1 = v4 [OF went_on(1)]
      from went_on(2) show ?thesis
      proof (cases rule: seq_cases)
        case (failed e)
        show ?thesis using v6 [OF s1 failed(1)] by blast
      next
        case second: (went_on a2 s2)
        note s2 = v6 [OF s1 second(1)]
        show ?thesis using last [OF conjunct1 [OF s2] second(2)] s2 by simp
      qed
    qed
  next
    case False
    then show ?thesis using i u0 by (auto simp: install_steps_def done_with_def)
  qed
qed

section \<open>An example host\<close>

record ex_shell_state =
  xs_chains :: rule_chains
  xs_files :: "string \<Rightarrow> string option"

definition ex_command :: "string list \<Rightarrow> string option \<times> string list" where
  "ex_command args = (case args of a # t # rest \<Rightarrow> if a = ''-t'' then (Some t, rest) else (None, args) | _ \<Rightarrow> (None, args))"

definition ex_iptables :: "string \<Rightarrow> string list \<Rightarrow> ex_shell_state \<Rightarrow> (string + unit) \<times> ex_shell_state" where
  "ex_iptables b args s =
     (case ex_command args of
        (t, action # c # spec) \<Rightarrow>
          if action = ''-C'' then (if has_rule (xs_chains s) b (t, c, spec) then Inr () else Inl ''exit 1'', s)
          else if action = ''-I'' then (Inr (), s\<lparr>xs_chains := insert_rule b (t, c, tl spec) (xs_chains s)\<rparr>)
          else if action = ''-D'' \<and> has_rule (xs_chains s) b (t, c, spec) then (Inr (), s\<lparr>xs_chains := delete_rule b (t, c, spec) (xs_chains s)\<rparr>)
          else (Inl ''exit 1'', s)
      | _ \<Rightarrow> (Inl ''exit 2'', s))"

definition ex_shell :: "ex_shell_state shell" where
  "ex_shell = \<lparr>sh_run = ex_iptables, sh_read = xs_files, sh_write = \<lambda>p t s. (Inr (), s\<lparr>xs_files := (xs_files s)(p \<mapsto> t)\<rparr>)\<rparr>"

lemma ex_command_simps:
  "ex_command (rule_command ''-C'' (t, c, spec)) = (t, ''-C'' # c # spec)" "ex_command (rule_command ''-I'' (t, c, spec)) = (t, ''-I'' # c # ''1'' # spec)"
  "ex_command (rule_command ''-D'' (t, c, spec)) = (t, ''-D'' # c # spec)"
  by (cases t; simp add: ex_command_def table_args_def rule_command_def)+

lemma ex_iptables_simps:
  "ex_iptables b (rule_command ''-C'' rule) s = (if has_rule (xs_chains s) b rule then Inr () else Inl ''exit 1'', s)"
  "ex_iptables b (rule_command ''-I'' rule) s = (Inr (), s\<lparr>xs_chains := insert_rule b rule (xs_chains s)\<rparr>)"
  "ex_iptables b (rule_command ''-D'' rule) s =
     (if has_rule (xs_chains s) b rule then (Inr (), s\<lparr>xs_chains := delete_rule b rule (xs_chains s)\<rparr>) else (Inl ''exit 1'', s))"
  by (cases rule; simp add: ex_iptables_def ex_command_simps)+

lemma ex_shell_switches: "switches ex_shell (s\<lparr>xs_chains := f\<rparr>) = switches ex_shell s"
  "p \<in> {IPV4_FORWARD, IPV6_FORWARD} \<Longrightarrow> switches ex_shell (s\<lparr>xs_files := (xs_files s)(p \<mapsto> t)\<rparr>) = (switches ex_shell s)(p \<mapsto> t)"
  by (auto simp: switches_def ex_shell_def)

lemma ex_shell_runs:
  "sh_run ex_shell b (rule_command ''-C'' rule) s = (if has_rule (xs_chains s) b rule then Inr () else Inl ''exit 1'', s)"
  "sh_run ex_shell b (rule_command ''-I'' rule) s = (Inr (), s\<lparr>xs_chains := insert_rule b rule (xs_chains s)\<rparr>)"
  "sh_run ex_shell b (rule_command ''-D'' rule) s =
     (if has_rule (xs_chains s) b rule then (Inr (), s\<lparr>xs_chains := delete_rule b rule (xs_chains s)\<rparr>) else (Inl ''exit 1'', s))"
  "sh_write ex_shell p t s = (Inr (), s\<lparr>xs_files := (xs_files s)(p \<mapsto> t)\<rparr>)"
  by (simp_all add: ex_shell_def ex_iptables_simps)

lemma ex_shell_laws: "shell_laws ex_shell xs_chains R"
  unfolding shell_laws_def ex_shell_runs by (auto simp: ex_shell_switches simp del: fun_upd_apply split: if_splits)

lemma ex_shell_deletes: "deletes_existing ex_shell xs_chains R"
  by (simp add: deletes_existing_def ex_shell_runs)

definition ex_forwarding :: forwarding_config where
  "ex_forwarding = \<lparr>fw_enabled = True, fw_backend = Iptables, fw_external_interface = Some ''eth0'', fw_tunnel_cidr = Some ''10.42.0.0/24'', fw_tunnel_cidr_v6 = None\<rparr>"

definition ex_shell_start :: ex_shell_state where
  "ex_shell_start = \<lparr>xs_chains = \<lambda>_. [], xs_files = \<lambda>p. if p = IPV4_FORWARD then Some ''0'' else None\<rparr>"

lemma ex_install_rules: "\<exists>s'. for_each (install_rule ex_shell b) rules s = (Inr (), s')"
proof (induction rules arbitrary: s)
  case Nil
  then show ?case by (simp add: done_with_def)
next
  case (Cons rule rules)
  obtain t c spec where rule: "rule = (t, c, spec)" using prod_cases3 by blast
  obtain k g where s: "s = (k, g)" by fastforce
  have "\<exists>s1. install_rule ex_shell b rule s = (Inr (), s1)"
    using ex_shell_runs(1,2) [of b rule k]
    by (simp add: rule s rule_command_def install_rule_def seq_def run_program_def push_cleanup_def split: if_splits)
  then show ?case using Cons by (auto simp: seq_def)
qed

lemma ex_installs: "\<exists>g k1. forwarding_install ex_shell ex_forwarding ''rvpn0'' 1400 ex_shell_start = (Inr g, k1)"
proof -
  obtain s1 where e: "enable_sysctl ex_shell IPV4_FORWARD (ex_shell_start, guard_new) = (Inr (), s1)"
    by (simp add: enable_sysctl_def ex_shell_start_def trim_def trim_start_def is_whitespace_def ex_shell_def)
  obtain s2 where i: "install_iptables_family ex_shell ''iptables'' ''rvpn0'' ''eth0'' ''10.42.0.0/24'' 1400 s1 = (Inr (), s2)"
    unfolding install_iptables_family_def using ex_install_rules by blast
  have "install_steps ex_shell ex_forwarding ''rvpn0'' 1400 (ex_shell_start, guard_new) = (Inr (), s2)"
    using e i by (simp add: install_steps_def ex_forwarding_def seq_def done_with_def query_def ok_or_def use_nft_def install_iptables_def)
  then show ?thesis by (cases s2) (simp add: forwarding_install_def)
qed

section \<open>Properties\<close>

text \<open>
  C32. The server gives its host back: with the iptables backend, whether installing the forwarding rules fails half way or succeeds and the guard is dropped
  later, every chain and the two forwarding switches are afterwards exactly as they were, provided that none of the rules was there
  before, that the tunnel is not the external interface, that deleting a rule that is there succeeds, and that writing the switches
  succeeds.
\<close>

theorem forwarding_guard_restores:
  assumes L: "shell_laws sh ch (used_rules config tunnel mtu)" and D: "deletes_existing sh ch (used_rules config tunnel mtu)"
    and w: "\<And>p t k. p \<in> {IPV4_FORWARD, IPV6_FORWARD} \<Longrightarrow> is_ok (fst (sh_write sh p t k))"
    and "fw_backend config = Iptables" and "fw_external_interface config \<noteq> Some tunnel"
    and "\<forall>(b, rule) \<in> used_rules config tunnel mtu. \<not> has_rule (ch k) b rule"
  shows "case forwarding_install sh config tunnel mtu k of
      (Inl _, k1) \<Rightarrow> ch k1 = ch k \<and> switches sh k1 = switches sh k
    | (Inr g, k1) \<Rightarrow> ch (guard_cleanup sh g k1) = ch k \<and> switches sh (guard_cleanup sh g k1) = switches sh k"
proof -
  obtain r k1 g where i: "install_steps sh config tunnel mtu (k, guard_new) = (r, (k1, g))" using prod_cases3 by blast
  have fresh: "tunnel \<noteq> external \<and> (\<forall>(b, rule) \<in> set (rules_to_add config tunnel external mtu). (b, rule) \<in> used_rules config tunnel mtu \<and> \<not> has_rule (ch k) b rule)"
    if "fw_external_interface config = Some external" for external
    using assms(5,6) that by (auto simp: used_rules_def)
  obtain rs where u: "undoes sh ch (used_rules config tunnel mtu) (ch k) (switches sh k) rs (k1, g)"
    using install_steps_undo [OF L assms(4) fresh i] by auto
  show ?thesis using cleanup_undoes [OF L D u w] i by (cases r) (simp_all add: forwarding_install_def)
qed

theorem forwarding_guard_restores_witness:
  "\<exists>g k1. forwarding_install ex_shell ex_forwarding ''rvpn0'' 1400 ex_shell_start = (Inr g, k1) \<and>
     xs_chains (guard_cleanup ex_shell g k1) = xs_chains ex_shell_start \<and> xs_files (guard_cleanup ex_shell g k1) IPV4_FORWARD = Some ''0''"
proof -
  obtain g k1 where i: "forwarding_install ex_shell ex_forwarding ''rvpn0'' 1400 ex_shell_start = (Inr g, k1)" using ex_installs by blast
  have fresh: "\<forall>(b, rule) \<in> used_rules ex_forwarding ''rvpn0'' 1400. \<not> has_rule (xs_chains ex_shell_start) b rule"
    by (auto simp: ex_shell_start_def has_rule_def)
  have w: "is_ok (fst (sh_write ex_shell p t k))" for p t k by (simp add: ex_shell_def)
  have "xs_chains (guard_cleanup ex_shell g k1) = xs_chains ex_shell_start \<and> switches ex_shell (guard_cleanup ex_shell g k1) = switches ex_shell ex_shell_start"
    using forwarding_guard_restores [of ex_shell xs_chains ex_forwarding "''rvpn0''" 1400 ex_shell_start, OF ex_shell_laws ex_shell_deletes w _ _ fresh]
    unfolding i by (simp add: ex_forwarding_def)
  moreover have "switches ex_shell k' IPV4_FORWARD = xs_files k' IPV4_FORWARD" for k' by (simp add: switches_def ex_shell_def)
  moreover have "xs_files ex_shell_start IPV4_FORWARD = Some ''0''" by (simp add: ex_shell_start_def)
  ultimately show ?thesis using i by metis
qed

text \<open>
  Dropping the guard takes away rules the server did not add: a rule that the check finds in its chain is not inserted again, but is recorded
  for deletion, so afterwards the chain lacks it.
\<close>

theorem forwarding_deletes_existing_rule:
  assumes L: "shell_laws sh ch {(b, rule)}" and D: "deletes_existing sh ch {(b, rule)}"
    and check: "sh_run sh b (rule_command ''-C'' rule) k = (Inr (), k2)"
    and i: "install_rule sh b rule (k, guard_new) = (r, (k1, g))"
  shows "has_rule (ch k) b rule \<and> ch (guard_cleanup sh g k1) = delete_rule b rule (ch k)"
proof -
  obtain t c spec where rule: "rule = (t, c, spec)" using prod_cases3 by blast
  have c: "ch k2 = ch k" "has_rule (ch k) b rule" using shell_lawsD(1) [OF L _ check] by simp_all
  have g: "k1 = k2" "fg_cleanup g = [(b, rule_command ''-D'' rule)]" "fg_sysctls g = []"
    using i check by (auto simp: rule rule_command_def install_rule_def seq_def run_program_def push_cleanup_def guard_new_def)
  obtain r3 k3 where del: "sh_run sh b (rule_command ''-D'' rule) k2 = (r3, k3)" by fastforce
  then have "is_ok r3" using D c unfolding deletes_existing_def by (metis fst_conv insertI1)
  then show ?thesis using shell_lawsD(3) [OF L _ del] del g c by (simp add: guard_cleanup_def)
qed

theorem forwarding_deletes_existing_rule_witness:
  "\<exists>r k1 g. install_rule ex_shell ''iptables'' (None, ''FORWARD'', [''-j'', ''ACCEPT'']) (ex_shell_start\<lparr>xs_chains := \<lambda>_. [[''-j'', ''ACCEPT'']]\<rparr>, guard_new) = (r, (k1, g)) \<and>
     xs_chains (guard_cleanup ex_shell g k1) (''iptables'', ''filter'', ''FORWARD'') = []"
proof -
  let ?k = "ex_shell_start\<lparr>xs_chains := \<lambda>_. [[''-j'', ''ACCEPT'']]\<rparr>" and ?rule = "(None, ''FORWARD'', [''-j'', ''ACCEPT''])"
  obtain r k1 g where i: "install_rule ex_shell ''iptables'' ?rule (?k, guard_new) = (r, (k1, g))" using prod_cases3 by blast
  have check: "sh_run ex_shell ''iptables'' (rule_command ''-C'' ?rule) ?k = (Inr (), ?k)" by (simp add: ex_shell_runs has_rule_def)
  from forwarding_deletes_existing_rule [OF ex_shell_laws ex_shell_deletes check i]
  have "xs_chains (guard_cleanup ex_shell g k1) = delete_rule ''iptables'' ?rule (xs_chains ?k)" by blast
  then show ?thesis using i by (auto simp: delete_rule_def table_of_def)
qed

end
