(* ===== verification/Dns_Forwarder.thy ===== *)
theory Dns_Forwarder
  imports Server_Config Linux_Net
begin

text \<open>
  The embedded DNS forwarder, \<^verbatim>\<open>crates/rvpn-dns/src/lib.rs\<close>, and its replacement while the server runs, \<^verbatim>\<open>apps/rvpn-server/src/dns_reload.rs\<close>.

  The resolver library and the sockets are the record \<open>dns_lib\<close> over an abstract state \<open>'k\<close>: building the two zone handlers may
  fail, binding a socket may fail, dropping one closes it, and stopping a server waits for its task, which closes its sockets and may report an
  error. A running server is what was handed to the library: its name servers, options, blocked domains, access list and sockets.
\<close>

section \<open>Starting a forwarder\<close>

record dns_options =
  do_timeout :: duration
  do_attempts :: nat
  do_cache_entries :: nat
  do_blocked_domains :: "string list"

definition dns_options_default :: dns_options where
  "dns_options_default = \<lparr>do_timeout = secs 2, do_attempts = 2, do_cache_entries = 1024, do_blocked_domains = []\<rparr>"

record name_server =
  ns_ip :: ip_addr
  ns_connections :: "(string \<times> u16) list"

record resolver_opts =
  ro_timeout :: duration
  ro_attempts :: nat
  ro_cache_size :: nat

record 'n running_server =
  rn_name_servers :: "name_server list"
  rn_options :: resolver_opts
  rn_blocked :: "string list"
  rn_access :: "'n list"
  rn_bound :: "socket_addr list"

datatype dns_error = Refused string | LibraryFailed string string

record ('k, 'n) dns_lib =
  dl_udp_and_tcp :: "ip_addr \<Rightarrow> name_server"
  dl_forwarder :: "name_server list \<Rightarrow> resolver_opts \<Rightarrow> string + unit"
  dl_blocklist :: "string + unit"
  dl_blocklist_add :: "string \<Rightarrow> string + unit"
  dl_bind_udp :: "socket_addr \<Rightarrow> ('k, unit) command"
  dl_local_addr :: "'k \<Rightarrow> socket_addr \<Rightarrow> string + socket_addr"
  dl_bind_tcp :: "socket_addr \<Rightarrow> ('k, unit) command"
  dl_close_udp :: "socket_addr \<Rightarrow> 'k \<Rightarrow> 'k"
  dl_close_tcp :: "socket_addr \<Rightarrow> 'k \<Rightarrow> 'k"
  dl_join :: "'n running_server \<Rightarrow> ('k, unit) command"

fun sock_new :: "ip_addr \<Rightarrow> u16 \<Rightarrow> socket_addr" where
  "sock_new (V4 a) port = SockV4 a port"
| "sock_new (V6 a) port = SockV6 a port 0 0"

definition name_server_for :: "('k, 'n) dns_lib \<Rightarrow> socket_addr \<Rightarrow> name_server" where
  "name_server_for lib upstream =
     (let c = dl_udp_and_tcp lib (sock_ip upstream)
      in c\<lparr>ns_connections := map (\<lambda>(protocol, _). (protocol, sock_port upstream)) (ns_connections c)\<rparr>)"

definition check_options :: "ip_addr list \<Rightarrow> socket_addr list \<Rightarrow> dns_options \<Rightarrow> dns_error + unit" where
  "check_options listen_addresses upstreams options =
     and_then (require (listen_addresses \<noteq> []) (Refused ''DNS forwarding requires at least one tunnel address'')) (\<lambda>_.
     and_then (require (upstreams \<noteq> []) (Refused ''DNS forwarding requires at least one upstream server'')) (\<lambda>_.
     and_then (require (millis 100 \<le> do_timeout options \<and> do_timeout options \<le> secs 30)
       (Refused ''DNS upstream timeout must be between 100 ms and 30 seconds'')) (\<lambda>_.
     and_then (require (1 \<le> do_attempts options \<and> do_attempts options \<le> 5) (Refused ''DNS upstream attempts must be between 1 and 5'')) (\<lambda>_.
       require (\<not> do_cache_entries options > 65536) (Refused ''DNS cache capacity must not exceed 65536 responses'')))))"

text \<open>The text the block list reads: one domain per line.\<close>

fun lines_joined :: "string list \<Rightarrow> string" where
  "lines_joined [] = []"
| "lines_joined [t] = t"
| "lines_joined (t # ts) = t @ newline @ lines_joined ts"

definition build_blocklist :: "('k, 'n) dns_lib \<Rightarrow> string list \<Rightarrow> dns_error + unit" where
  "build_blocklist lib blocked =
     (if blocked = [] then Inr ()
      else and_then (map_err (LibraryFailed ''creating DNS blocklist'') (dl_blocklist lib)) (\<lambda>_.
           map_err (LibraryFailed ''loading configured DNS blocked domains'') (dl_blocklist_add lib (lines_joined blocked))))"

text \<open>Dropping the sockets a server had registered when a later one cannot be bound.\<close>

fun release :: "('k, 'n) dns_lib \<Rightarrow> socket_addr list \<Rightarrow> 'k \<Rightarrow> 'k" where
  "release lib [] k = k"
| "release lib (b # bs) k = release lib bs (dl_close_tcp lib b (dl_close_udp lib b k))"

fun bind_listeners :: "('k, 'n) dns_lib \<Rightarrow> u16 \<Rightarrow> ip_addr list \<Rightarrow> socket_addr list \<Rightarrow> ('k, dns_error, socket_addr list) net_op" where
  "bind_listeners lib port [] bound k = (Inr bound, k)"
| "bind_listeners lib port (address # addresses) bound k =
     (let bind = sock_new address port in
      case dl_bind_udp lib bind k of
        (Inl e, k1) \<Rightarrow> (Inl (LibraryFailed ''binding DNS UDP listener'' e), release lib bound k1)
      | (Inr _, k1) \<Rightarrow>
          (case dl_local_addr lib k1 bind of
             Inl e \<Rightarrow> (Inl (LibraryFailed [] e), release lib bound (dl_close_udp lib bind k1))
           | Inr b \<Rightarrow>
               (case dl_bind_tcp lib b k1 of
                  (Inl e, k2) \<Rightarrow> (Inl (LibraryFailed ''binding DNS TCP listener'' e), release lib bound (dl_close_udp lib bind k2))
                | (Inr _, k2) \<Rightarrow> bind_listeners lib port addresses (bound @ [b]) k2)))"

definition resolver_options :: "dns_options \<Rightarrow> resolver_opts" where
  "resolver_options options = \<lparr>ro_timeout = do_timeout options, ro_attempts = do_attempts options, ro_cache_size = do_cache_entries options\<rparr>"

definition start_on_port_with_options ::
  "('k, 'n) dns_lib \<Rightarrow> ip_addr list \<Rightarrow> 'n list \<Rightarrow> socket_addr list \<Rightarrow> u16 \<Rightarrow> dns_options \<Rightarrow> ('k, dns_error, 'n running_server) net_op" where
  "start_on_port_with_options lib listen_addresses allowed_networks upstreams port options =
     seq (query (\<lambda>_. check_options listen_addresses upstreams options)) (\<lambda>_.
      let name_servers = map (name_server_for lib) upstreams;
          opts = resolver_options options
      in seq (query (\<lambda>_. map_err (LibraryFailed ''building DNS forwarder'') (dl_forwarder lib name_servers opts))) (\<lambda>_.
         seq (query (\<lambda>_. build_blocklist lib (do_blocked_domains options))) (\<lambda>_.
         seq (bind_listeners lib port listen_addresses []) (\<lambda>bound.
           done_with \<lparr>rn_name_servers = name_servers, rn_options = opts, rn_blocked = do_blocked_domains options,
                      rn_access = allowed_networks, rn_bound = bound\<rparr>))))"

definition start_with_options ::
  "('k, 'n) dns_lib \<Rightarrow> ip_addr list \<Rightarrow> 'n list \<Rightarrow> socket_addr list \<Rightarrow> dns_options \<Rightarrow> ('k, dns_error, 'n running_server) net_op" where
  "start_with_options lib listen_addresses allowed_networks upstreams options =
     start_on_port_with_options lib listen_addresses allowed_networks upstreams 53 options"

definition server_shutdown :: "('k, 'n) dns_lib \<Rightarrow> 'n running_server \<Rightarrow> ('k, dns_error, unit) net_op" where
  "server_shutdown lib server = with_err (LibraryFailed ''DNS server stopped with an error'') (dl_join lib server)"

section \<open>Replacing the forwarder\<close>

record 'n reloader =
  rl_running :: "'n running_server option"
  rl_config :: dns_config
  rl_open :: bool

definition start_forwarder ::
  "('k, 'n) dns_lib \<Rightarrow> ip_addr list \<Rightarrow> 'n list \<Rightarrow> dns_config \<Rightarrow> ('k, dns_error, 'n running_server option) net_op" where
  "start_forwarder lib listen_addresses allowed_networks config =
     (if dns_upstreams config = [] then done_with None
      else seq (start_with_options lib listen_addresses allowed_networks (dns_upstreams config)
                  \<lparr>do_timeout = millis (dns_timeout_ms config), do_attempts = dns_attempts config,
                   do_cache_entries = dns_cache_entries config, do_blocked_domains = dns_blocked_domains config\<rparr>) (\<lambda>server.
             done_with (Some server)))"

text \<open>The handle is taken out before the shutdown, so that afterwards nothing is recorded as running, whatever the shutdown reports.\<close>

definition stop_forwarder :: "('k, 'n) dns_lib \<Rightarrow> 'n reloader \<Rightarrow> 'k \<Rightarrow> (dns_error + unit) \<times> 'n reloader \<times> 'k" where
  "stop_forwarder lib rl k =
     (case rl_running rl of
        None \<Rightarrow> (Inr (), rl, k)
      | Some server \<Rightarrow> (case server_shutdown lib server k of (r, k1) \<Rightarrow> (r, rl\<lparr>rl_running := None\<rparr>, k1)))"

definition replace_forwarder ::
  "('k, 'n) dns_lib \<Rightarrow> ip_addr list \<Rightarrow> 'n list \<Rightarrow> dns_config \<Rightarrow> 'n reloader \<Rightarrow> 'k \<Rightarrow> (dns_error + unit) \<times> 'n reloader \<times> 'k" where
  "replace_forwarder lib listen_addresses allowed_networks new rl k =
     (if rl_config rl = new then (Inr (), rl, k)
      else
        (case stop_forwarder lib rl k of
           (Inl e, rl1, k1) \<Rightarrow> (Inl e, rl1, k1)
         | (Inr _, rl1, k1) \<Rightarrow>
             (case start_forwarder lib listen_addresses allowed_networks new k1 of
                (Inr replacement, k2) \<Rightarrow> (Inr (), rl1\<lparr>rl_running := replacement, rl_config := new\<rparr>, k2)
              | (Inl e, k2) \<Rightarrow>
                  (case start_forwarder lib listen_addresses allowed_networks (rl_config rl1) k2 of
                     (Inr restored, k3) \<Rightarrow> (Inl e, rl1\<lparr>rl_running := restored\<rparr>, k3)
                   | (Inl _, k3) \<Rightarrow> (Inl e, rl1, k3)))))"

definition reloader_start ::
  "('k, 'n) dns_lib \<Rightarrow> ip_addr list \<Rightarrow> 'n list \<Rightarrow> dns_config \<Rightarrow> ('k, dns_error, 'n reloader) net_op" where
  "reloader_start lib listen_addresses allowed_networks initial =
     seq (start_forwarder lib listen_addresses allowed_networks initial) (\<lambda>running.
       done_with \<lparr>rl_running = running, rl_config = initial, rl_open = True\<rparr>)"

text \<open>The commands the service receives; the last one is the end of the channel, when every handle is gone.\<close>

datatype dns_command = Replace dns_config | ShutdownDns | HandlesDropped

fun reloader_step ::
  "('k, 'n) dns_lib \<Rightarrow> ip_addr list \<Rightarrow> 'n list \<Rightarrow> dns_command \<Rightarrow> 'n reloader \<Rightarrow> 'k \<Rightarrow> (dns_error + unit) \<times> 'n reloader \<times> 'k" where
  "reloader_step lib listen_addresses allowed_networks cmd rl k =
     (if \<not> rl_open rl then (Inl (Refused ''DNS reload service is unavailable''), rl, k)
      else
        (case cmd of
           Replace new \<Rightarrow> replace_forwarder lib listen_addresses allowed_networks new rl k
         | ShutdownDns \<Rightarrow> (case stop_forwarder lib rl k of (r, rl1, k1) \<Rightarrow> (r, rl1\<lparr>rl_open := False\<rparr>, k1))
         | HandlesDropped \<Rightarrow> (case stop_forwarder lib rl k of (_, rl1, k1) \<Rightarrow> (Inr (), rl1\<lparr>rl_open := False\<rparr>, k1))))"

fun reloader_run ::
  "('k, 'n) dns_lib \<Rightarrow> ip_addr list \<Rightarrow> 'n list \<Rightarrow> dns_command list \<Rightarrow> 'n reloader \<Rightarrow> 'k \<Rightarrow> 'n reloader \<times> 'k" where
  "reloader_run lib listen_addresses allowed_networks [] rl k = (rl, k)"
| "reloader_run lib listen_addresses allowed_networks (cmd # cmds) rl k =
     (case reloader_step lib listen_addresses allowed_networks cmd rl k of
        (_, rl1, k1) \<Rightarrow> reloader_run lib listen_addresses allowed_networks cmds rl1 k1)"


section \<open>What runs\<close>

text \<open>The sockets of a server, and what the code relies on of the sockets the system keeps: a bind succeeds only on a free address.\<close>

definition listening :: "socket_addr list \<Rightarrow> (bool \<times> socket_addr) set" where
  "listening bs = UNIV \<times> set bs"

definition binds :: "('k \<Rightarrow> (bool \<times> socket_addr) set) \<Rightarrow> bool \<Rightarrow> (socket_addr \<Rightarrow> ('k, unit) command) \<Rightarrow> bool" where
  "binds sockets udp f \<longleftrightarrow>
     (\<forall>a k. case f a k of
        (Inl _, k') \<Rightarrow> sockets k' = sockets k
      | (Inr _, k') \<Rightarrow> (udp, a) \<notin> sockets k \<and> sockets k' = insert (udp, a) (sockets k))"

definition socket_laws :: "('k, 'n) dns_lib \<Rightarrow> ('k \<Rightarrow> (bool \<times> socket_addr) set) \<Rightarrow> bool" where
  "socket_laws lib sockets \<longleftrightarrow>
     binds sockets True (dl_bind_udp lib) \<and> binds sockets False (dl_bind_tcp lib) \<and>
     (\<forall>a k. sock_port a \<noteq> 0 \<longrightarrow> (\<forall>b. dl_local_addr lib k a = Inr b \<longrightarrow> b = a)) \<and>
     (\<forall>a k. sockets (dl_close_udp lib a k) = sockets k - {(True, a)}) \<and>
     (\<forall>a k. sockets (dl_close_tcp lib a k) = sockets k - {(False, a)}) \<and>
     (\<forall>server k. sockets (snd (dl_join lib server k)) = sockets k - listening (rn_bound server))"

text \<open>The forwarder a configuration asks for.\<close>

definition forwarder_for :: "('k, 'n) dns_lib \<Rightarrow> ip_addr list \<Rightarrow> 'n list \<Rightarrow> dns_config \<Rightarrow> 'n running_server" where
  "forwarder_for lib listen_addresses allowed_networks config =
     \<lparr>rn_name_servers = map (name_server_for lib) (dns_upstreams config),
      rn_options = \<lparr>ro_timeout = millis (dns_timeout_ms config), ro_attempts = dns_attempts config, ro_cache_size = dns_cache_entries config\<rparr>,
      rn_blocked = dns_blocked_domains config, rn_access = allowed_networks, rn_bound = map (\<lambda>a. sock_new a 53) listen_addresses\<rparr>"

definition runs_exactly ::
  "('k, 'n) dns_lib \<Rightarrow> ip_addr list \<Rightarrow> 'n list \<Rightarrow> ('k \<Rightarrow> (bool \<times> socket_addr) set) \<Rightarrow> (bool \<times> socket_addr) set \<Rightarrow> 'n running_server option \<Rightarrow>
   dns_config \<Rightarrow> 'k \<Rightarrow> bool" where
  "runs_exactly lib listen_addresses allowed_networks sockets others running config k \<longleftrightarrow>
     (case running of
        None \<Rightarrow> sockets k = others
      | Some server \<Rightarrow>
          dns_upstreams config \<noteq> [] \<and> server = forwarder_for lib listen_addresses allowed_networks config \<and>
          sockets k = others \<union> listening (rn_bound server) \<and> others \<inter> listening (rn_bound server) = {})"

definition ex_dns_lib :: "((bool \<times> socket_addr) set, unit) dns_lib" where
  "ex_dns_lib = \<lparr>dl_udp_and_tcp = (\<lambda>a. \<lparr>ns_ip = a, ns_connections = [(''udp'', 53), (''tcp'', 53)]\<rparr>), dl_forwarder = (\<lambda>_ _. Inr ()),
     dl_blocklist = Inr (), dl_blocklist_add = (\<lambda>_. Inr ()),
     dl_bind_udp = (\<lambda>a k. if (True, a) \<in> k then (Inl ''in use'', k) else (Inr (), insert (True, a) k)), dl_local_addr = (\<lambda>_ a. Inr a),
     dl_bind_tcp = (\<lambda>a k. if (False, a) \<in> k then (Inl ''in use'', k) else (Inr (), insert (False, a) k)),
     dl_close_udp = (\<lambda>a k. k - {(True, a)}), dl_close_tcp = (\<lambda>a k. k - {(False, a)}), dl_join = (\<lambda>server k. (Inr (), k - listening (rn_bound server)))\<rparr>"

definition ex_dns :: "u32 \<Rightarrow> dns_config" where
  "ex_dns n = \<lparr>dns_upstreams = [SockV4 n 53], dns_timeout_ms = 2000, dns_attempts = 2, dns_cache_entries = 1024, dns_blocked_domains = []\<rparr>"

lemma listening_simps [simp]: "listening [] = {}" "listening (bs @ [b]) = insert (True, b) (insert (False, b) (listening bs))"
  by (auto simp: listening_def UNIV_bool)

lemma sock_port_new [simp]: "sock_port (sock_new a port) = port"
  by (cases a) simp_all

lemma bindsD:
  assumes "binds sockets udp f"
  shows "f a k = (Inl e, k') \<Longrightarrow> sockets k' = sockets k"
    and "f a k = (Inr u, k') \<Longrightarrow> (udp, a) \<notin> sockets k \<and> sockets k' = insert (udp, a) (sockets k)"
  using spec [OF spec [OF assms [unfolded binds_def], of a], of k] by simp_all

lemma socket_lawsD:
  assumes "socket_laws lib sockets"
  shows "binds sockets True (dl_bind_udp lib)" "binds sockets False (dl_bind_tcp lib)"
    and "sock_port a \<noteq> 0 \<Longrightarrow> dl_local_addr lib k a = Inr b \<Longrightarrow> b = a"
    and "sockets (dl_close_udp lib a k) = sockets k - {(True, a)}"
    and "sockets (dl_close_tcp lib a k) = sockets k - {(False, a)}"
    and "sockets (snd (dl_join lib server k)) = sockets k - listening (rn_bound server)"
  using assms unfolding socket_laws_def by simp_all

lemma release_sockets:
  assumes "socket_laws lib sockets"
  shows "sockets (release lib bs k) = sockets k - listening bs"
  by (induction bs arbitrary: k) (auto simp: socket_lawsD(4,5) [OF assms] listening_def)

text \<open>Binding takes every socket or none.\<close>

lemma bind_listeners_all_or_none:
  assumes laws: "socket_laws lib sockets" and "port \<noteq> 0"
    and "sockets k = others \<union> listening bound" and "others \<inter> listening bound = {}" and "bind_listeners lib port addresses bound k = (r, k')"
  shows "case r of
     Inl _ \<Rightarrow> sockets k' = others
   | Inr bound' \<Rightarrow> bound' = bound @ map (\<lambda>a. sock_new a port) addresses \<and> sockets k' = others \<union> listening bound' \<and> others \<inter> listening bound' = {}"
  using assms(3-5)
proof (induction addresses arbitrary: bound k)
  case Nil
  then show ?case by auto
next
  case (Cons address addresses)
  note L = socket_lawsD [OF laws]
  let ?a = "sock_new address port"
  have gone: "sockets (release lib bound h) = others" if "sockets h = others \<union> listening bound" for h
    using that Cons.prems(2) by (auto simp: release_sockets [OF laws])
  obtain u k1 where udp: "dl_bind_udp lib ?a k = (u, k1)" by fastforce
  show ?case
  proof (cases u)
    case (Inl e)
    have "k' = release lib bound k1" "\<exists>x. r = Inl x" using Cons.prems(3) udp Inl by auto
    then show ?thesis using gone [of k1] Cons.prems(1) bindsD(1) [OF L(1) udp [unfolded Inl]] by auto
  next
    case (Inr v)
    note s1 = bindsD(2) [OF L(1) udp [unfolded Inr]]
    show ?thesis
    proof (cases "dl_local_addr lib k1 ?a")
      case (Inl e)
      have "k' = release lib bound (dl_close_udp lib ?a k1)" "\<exists>x. r = Inl x" using Cons.prems(3) udp Inr Inl by auto
      then show ?thesis using gone [of "dl_close_udp lib ?a k1"] L(4) [of ?a k1] s1 Cons.prems(1) by auto
    next
      fix b assume b: "dl_local_addr lib k1 ?a = Inr b"
      then have "b = ?a" using L(3) [of ?a k1 b] assms(2) by simp
      obtain t k2 where tcp: "dl_bind_tcp lib ?a k1 = (t, k2)" by fastforce
      show ?thesis
      proof (cases t)
        case (Inl e)
        have "k' = release lib bound (dl_close_udp lib ?a k2)" "\<exists>x. r = Inl x" using Cons.prems(3) udp Inr b \<open>b = ?a\<close> tcp Inl by auto
        then show ?thesis using gone [of "dl_close_udp lib ?a k2"] L(4) [of ?a k2] s1 bindsD(1) [OF L(2) tcp [unfolded Inl]] Cons.prems(1) by auto
      next
        fix w assume t: "t = Inr w"
        note s2 = bindsD(2) [OF L(2) tcp [unfolded t]]
        have b2: "bind_listeners lib port addresses (bound @ [?a]) k2 = (r, k')" using Cons.prems(3) udp Inr b \<open>b = ?a\<close> tcp t by simp
        have k2: "sockets k2 = others \<union> listening (bound @ [?a])" using Cons.prems(1) s1 s2 by auto
        have "others \<inter> listening (bound @ [?a]) = {}" using Cons.prems(1,2) s1 s2 by auto
        from Cons.IH [OF k2 this b2]
        show ?thesis by (cases r) simp_all
      qed
    qed
  qed
qed


lemma start_forwarder_runs:
  assumes laws: "socket_laws lib sockets" and run: "start_forwarder lib listen_addresses allowed_networks config k = (r, k')"
  shows "case r of
     Inl _ \<Rightarrow> sockets k' = sockets k
   | Inr running \<Rightarrow> (running = None \<longleftrightarrow> dns_upstreams config = []) \<and>
       runs_exactly lib listen_addresses allowed_networks sockets (sockets k) running config k'"
proof (cases "dns_upstreams config = []")
  case True
  then show ?thesis using run by (auto simp: start_forwarder_def done_with_def runs_exactly_def)
next
  case False
  have "sockets k = sockets k \<union> listening []" "sockets k \<inter> listening [] = {}" by simp_all
  note bind = bind_listeners_all_or_none [OF laws _ this, of 53 listen_addresses]
  obtain b k1 where b: "bind_listeners lib 53 listen_addresses [] k = (b, k1)" by fastforce
  show ?thesis using False run bind [OF _ b]
    by (auto simp: start_forwarder_def start_with_options_def start_on_port_with_options_def seq_def query_def done_with_def b Let_def
        runs_exactly_def forwarder_for_def resolver_options_def split: sum.splits)
qed

lemma stop_forwarder_runs:
  assumes "socket_laws lib sockets" and "runs_exactly lib listen_addresses allowed_networks sockets others (rl_running rl) config k"
    and "stop_forwarder lib rl k = (r, rl', k')"
  shows "rl' = rl\<lparr>rl_running := None\<rparr>" and "sockets k' = others"
proof -
  have "rl' = rl\<lparr>rl_running := None\<rparr> \<and> sockets k' = others"
  proof (cases "rl_running rl")
    case None
    then show ?thesis using assms(2,3) by (cases rl) (auto simp: stop_forwarder_def runs_exactly_def)
  next
    case (Some server)
    obtain q k1 where j: "dl_join lib server k = (q, k1)" by fastforce
    have "rl' = rl\<lparr>rl_running := None\<rparr>" "k' = k1" using assms(3) Some by (auto simp: stop_forwarder_def server_shutdown_def with_err_def j)
    moreover have "sockets k1 = sockets k - listening (rn_bound server)" using socket_lawsD(6) [OF assms(1), of server k] j by simp
    ultimately show ?thesis using assms(2) Some by (auto simp: runs_exactly_def)
  qed
  then show "rl' = rl\<lparr>rl_running := None\<rparr>" "sockets k' = others" by simp_all
qed

lemma replace_forwarder_runs:
  assumes laws: "socket_laws lib sockets"
    and inv: "runs_exactly lib listen_addresses allowed_networks sockets others (rl_running rl) (rl_config rl) k"
    and run: "replace_forwarder lib listen_addresses allowed_networks new rl k = (r, rl', k')"
  shows "runs_exactly lib listen_addresses allowed_networks sockets others (rl_running rl') (rl_config rl') k'"
    and "r = Inr u \<Longrightarrow> rl_config rl' = new \<and> (rl_config rl \<noteq> new \<longrightarrow> (rl_running rl' = None \<longleftrightarrow> dns_upstreams new = []))"
    and "r = Inl e \<Longrightarrow> rl_config rl' = rl_config rl"
proof -
  obtain q rl1 k1 where stop: "stop_forwarder lib rl k = (q, rl1, k1)" using prod_cases3 by blast
  note s = stop_forwarder_runs [OF laws inv stop]
  obtain a k2 where new: "start_forwarder lib listen_addresses allowed_networks new k1 = (a, k2)" by fastforce
  note n = start_forwarder_runs [OF laws new, unfolded s(2)]
  obtain b k3 where old: "start_forwarder lib listen_addresses allowed_networks (rl_config rl1) k2 = (b, k3)" by fastforce
  note o = start_forwarder_runs [OF laws old]
  have none: "runs_exactly lib listen_addresses allowed_networks sockets others None c h" if "sockets h = others" for c h
    using that by (simp add: runs_exactly_def)
  have eq: "rl_config rl = new \<and> r = Inr () \<and> rl' = rl \<and> k' = k \<or> rl_config rl \<noteq> new \<and>
     ((\<exists>x. q = Inl x \<and> r = Inl x) \<and> rl' = rl1 \<and> k' = k1 \<or>
      (\<exists>x. a = Inr x \<and> rl' = rl1\<lparr>rl_running := x, rl_config := new\<rparr>) \<and> r = Inr () \<and> k' = k2 \<or>
      (\<exists>x. a = Inl x \<and> r = Inl x) \<and> k' = k3 \<and> ((\<exists>x. b = Inr x \<and> rl' = rl1\<lparr>rl_running := x\<rparr>) \<or> (\<exists>x. b = Inl x) \<and> rl' = rl1))"
    using run by (cases q; cases a; cases b) (auto simp: replace_forwarder_def stop new old split: if_splits)
  then show "runs_exactly lib listen_addresses allowed_networks sockets others (rl_running rl') (rl_config rl') k'"
    using inv s n o none by (elim disjE conjE exE) simp_all
  from eq show "r = Inr u \<Longrightarrow> rl_config rl' = new \<and> (rl_config rl \<noteq> new \<longrightarrow> (rl_running rl' = None \<longleftrightarrow> dns_upstreams new = []))"
    using n by auto
  from eq show "r = Inl e \<Longrightarrow> rl_config rl' = rl_config rl"
    using s by auto
qed


lemma reloader_step_runs:
  assumes "socket_laws lib sockets"
    and "runs_exactly lib listen_addresses allowed_networks sockets others (rl_running rl) (rl_config rl) k"
    and "reloader_step lib listen_addresses allowed_networks cmd rl k = (r, rl', k')"
  shows "runs_exactly lib listen_addresses allowed_networks sockets others (rl_running rl') (rl_config rl') k'"
proof (cases "rl_open rl")
  case False
  then show ?thesis using assms(2,3) by simp
next
  case True
  obtain q rl1 k1 where stop: "stop_forwarder lib rl k = (q, rl1, k1)" using prod_cases3 by blast
  note s = stop_forwarder_runs [OF assms(1,2) stop]
  show ?thesis
  proof (cases cmd)
    case (Replace new)
    then show ?thesis using replace_forwarder_runs(1) [OF assms(1,2), of new r rl' k'] assms(3) True by simp
  qed (use assms(3) True stop s in \<open>auto simp: runs_exactly_def\<close>)
qed

lemma reloader_run_runs:
  assumes "socket_laws lib sockets"
    and "runs_exactly lib listen_addresses allowed_networks sockets others (rl_running rl) (rl_config rl) k"
    and "reloader_run lib listen_addresses allowed_networks cmds rl k = (rl', k')"
  shows "runs_exactly lib listen_addresses allowed_networks sockets others (rl_running rl') (rl_config rl') k'"
  using assms(2,3)
proof (induction cmds arbitrary: rl k)
  case (Cons cmd cmds)
  obtain r rl1 k1 where step: "reloader_step lib listen_addresses allowed_networks cmd rl k = (r, rl1, k1)" using prod_cases3 by blast
  show ?case using Cons.IH [OF reloader_step_runs [OF assms(1) Cons.prems(1) step]] Cons.prems(2) step by simp
qed simp

lemma ex_sockets: "socket_laws ex_dns_lib (\<lambda>k. k)"
  by (auto simp: socket_laws_def binds_def ex_dns_lib_def)

lemma ex_starts:
  "start_forwarder ex_dns_lib [V4 1] [()] (ex_dns n) {} =
     (Inr (Some (forwarder_for ex_dns_lib [V4 1] [()] (ex_dns n))), {(False, SockV4 1 53), (True, SockV4 1 53)})"
  by (simp add: start_forwarder_def start_with_options_def start_on_port_with_options_def seq_def query_def done_with_def check_options_def require_def
      build_blocklist_def ex_dns_lib_def ex_dns_def forwarder_for_def resolver_options_def Let_def)

lemma ex_stops:
  "server_shutdown ex_dns_lib (forwarder_for ex_dns_lib [V4 1] [()] (ex_dns n)) {(True, SockV4 1 53), (False, SockV4 1 53)} = (Inr (), {})"
  by (simp add: server_shutdown_def with_err_def ex_dns_lib_def forwarder_for_def listening_def)

lemma ex_dns_eq [simp]: "ex_dns m = ex_dns n \<longleftrightarrow> m = n"
  by (simp add: ex_dns_def)

text \<open>
  C35. The DNS service runs what its configuration says: after any commands, a forwarder that runs is the one the recorded configuration asks for, with its
  upstreams, limits, blocked domains and the tunnel networks as its access list, and it holds exactly port 53 of the tunnel addresses; when none runs, no
  socket is left behind. A replacement that succeeds puts the new configuration in force, and one that fails keeps the old one.
\<close>

theorem dns_reload_consistent:
  assumes "socket_laws lib sockets"
    and "reloader_start lib listen_addresses allowed_networks initial k0 = (Inr rl0, k1)"
    and "reloader_run lib listen_addresses allowed_networks cmds rl0 k1 = (rl, k)"
  shows "(case rl_running rl of
            None \<Rightarrow> sockets k = sockets k0
          | Some server \<Rightarrow> server = forwarder_for lib listen_addresses allowed_networks (rl_config rl) \<and>
              sockets k = sockets k0 \<union> UNIV \<times> set (map (\<lambda>a. sock_new a 53) listen_addresses)) \<and>
    (\<forall>new r rl' k'. rl_open rl \<longrightarrow> reloader_step lib listen_addresses allowed_networks (Replace new) rl k = (r, rl', k') \<longrightarrow>
       (case r of
          Inl _ \<Rightarrow> rl_config rl' = rl_config rl
        | Inr _ \<Rightarrow> rl_config rl' = new \<and> (rl_config rl \<noteq> new \<longrightarrow> (rl_running rl' = None \<longleftrightarrow> dns_upstreams new = []))))"
proof (intro conjI allI impI)
  obtain running where s: "start_forwarder lib listen_addresses allowed_networks initial k0 = (Inr running, k1)"
    and rl0: "rl0 = \<lparr>rl_running = running, rl_config = initial, rl_open = True\<rparr>"
    using assms(2) by (auto simp: reloader_start_def done_with_def elim!: seq_cases)
  have "runs_exactly lib listen_addresses allowed_networks sockets (sockets k0) (rl_running rl0) (rl_config rl0) k1"
    using start_forwarder_runs [OF assms(1) s] by (simp add: rl0)
  note inv = reloader_run_runs [OF assms(1) this assms(3)]
  then show "case rl_running rl of
       None \<Rightarrow> sockets k = sockets k0
     | Some server \<Rightarrow> server = forwarder_for lib listen_addresses allowed_networks (rl_config rl) \<and>
         sockets k = sockets k0 \<union> UNIV \<times> set (map (\<lambda>a. sock_new a 53) listen_addresses)"
    by (simp add: runs_exactly_def listening_def forwarder_for_def split: option.splits)
  fix new r rl' k'
  assume "rl_open rl" "reloader_step lib listen_addresses allowed_networks (Replace new) rl k = (r, rl', k')"
  then show "case r of
          Inl _ \<Rightarrow> rl_config rl' = rl_config rl
        | Inr _ \<Rightarrow> rl_config rl' = new \<and> (rl_config rl \<noteq> new \<longrightarrow> (rl_running rl' = None \<longleftrightarrow> dns_upstreams new = []))"
    using replace_forwarder_runs(2,3) [OF assms(1) inv, of new r rl' k'] by (simp split: sum.splits)
qed

theorem dns_reload_consistent_witness:
  "\<exists>k. reloader_run ex_dns_lib [V4 1] [()] [Replace (ex_dns 7)] \<lparr>rl_running = Some (forwarder_for ex_dns_lib [V4 1] [()] (ex_dns 9)),
       rl_config = ex_dns 9, rl_open = True\<rparr> {(True, SockV4 1 53), (False, SockV4 1 53)} =
     (\<lparr>rl_running = Some (forwarder_for ex_dns_lib [V4 1] [()] (ex_dns 7)), rl_config = ex_dns 7, rl_open = True\<rparr>, k) \<and>
     k = {(True, SockV4 1 53), (False, SockV4 1 53)}"
proof -
  let ?rl = "\<lambda>n. \<lparr>rl_running = Some (forwarder_for ex_dns_lib [V4 1] [()] (ex_dns n)), rl_config = ex_dns n, rl_open = True\<rparr>"
  obtain k1 where start: "reloader_start ex_dns_lib [V4 1] [()] (ex_dns 9) {} = (Inr (?rl 9), k1)" and k1: "k1 = {(True, SockV4 1 53), (False, SockV4 1 53)}"
    by (simp add: reloader_start_def ex_starts seq_def done_with_def insert_commute)
  obtain k where run: "reloader_run ex_dns_lib [V4 1] [()] [Replace (ex_dns 7)] (?rl 9) k1 = (?rl 7, k)"
    by (simp add: k1 replace_forwarder_def stop_forwarder_def ex_stops ex_starts)
  have "k = UNIV \<times> {SockV4 1 53}" using dns_reload_consistent [OF ex_sockets start run] by simp
  then show ?thesis using run by (auto simp: k1 UNIV_bool)
qed

text \<open>
  A failed replacement hides behind its repetition: when the forwarder stopped, the new configuration could not start and restoring the old one failed
  too, nothing runs, and replacing by the old configuration, which still counts as current, reports success and starts nothing.
\<close>

theorem dns_outage_reported_ok:
  assumes "rl_running rl = Some server" and "rl_open rl" and "rl_config rl \<noteq> new" and "server_shutdown lib server k = (Inr (), k1)"
    and "start_forwarder lib listen_addresses allowed_networks new k1 = (Inl e, k2)"
    and "start_forwarder lib listen_addresses allowed_networks (rl_config rl) k2 = (Inl e', k3)"
  shows "reloader_step lib listen_addresses allowed_networks (Replace new) rl k = (Inl e, rl\<lparr>rl_running := None\<rparr>, k3) \<and>
    reloader_step lib listen_addresses allowed_networks (Replace (rl_config rl)) (rl\<lparr>rl_running := None\<rparr>) k3 = (Inr (), rl\<lparr>rl_running := None\<rparr>, k3)"
  using assms by (simp add: replace_forwarder_def stop_forwarder_def)


theorem dns_outage_reported_ok_witness:
  "\<exists>rl. rl_running rl = None \<and> dns_upstreams (rl_config rl) \<noteq> [] \<and>
     reloader_step (ex_dns_lib\<lparr>dl_bind_udp := \<lambda>a k. (Inl ''in use'', k)\<rparr>) [V4 1] [()] (Replace (rl_config rl)) rl {} = (Inr (), rl, {})"
proof -
  let ?lib = "ex_dns_lib\<lparr>dl_bind_udp := \<lambda>a k. (Inl ''in use'', k)\<rparr>" and ?server = "forwarder_for ex_dns_lib [V4 1] [()] (ex_dns 9)"
  let ?rl = "\<lparr>rl_running = Some ?server, rl_config = ex_dns 9, rl_open = True\<rparr>"
  have down: "server_shutdown ?lib ?server {} = (Inr (), {})" by (simp add: server_shutdown_def with_err_def ex_dns_lib_def)
  have failed: "start_forwarder ?lib [V4 1] [()] (ex_dns n) {} = (Inl (LibraryFailed ''binding DNS UDP listener'' ''in use''), {})" for n
    by (simp add: start_forwarder_def start_with_options_def start_on_port_with_options_def seq_def query_def check_options_def require_def
        build_blocklist_def ex_dns_lib_def ex_dns_def Let_def)
  have "reloader_step ?lib [V4 1] [()] (Replace (ex_dns 9)) (?rl\<lparr>rl_running := None\<rparr>) {} = (Inr (), ?rl\<lparr>rl_running := None\<rparr>, {})"
    using dns_outage_reported_ok [of ?rl ?server "ex_dns 7" ?lib "{}" "{}" "[V4 1]" "[()]", OF _ _ _ down failed] failed by simp
  then show ?thesis by (intro exI [of _ "?rl\<lparr>rl_running := None\<rparr>"]) (simp add: ex_dns_def)
qed

end
