(* ===== verification/Spec2Isabelle.thy ===== *)
theory Spec2Isabelle
  imports Server_Safety Connection Control_Daemon Usage_History Server_Firewall Dns_Forwarder
begin

text \<open>
  A verification development for rust-vpn, a user-space VPN: a server that forwards packets between authenticated peers, its own tunnel device
  and its host, and a client that connects a host to it, with its kill switch, routes and name servers.

  \<^bold>\<open>The program and its model.\<close> Paths are under \<^verbatim>\<open>src/\<close>. Each theory models one component, in the order of the code, and names follow the source.

  \<^item> \<^emph>\<open>Vocabulary.\<close> \<open>Prelude\<close> has the machine integers as words, bytes, big-endian numbers, result types (\<open>Inl\<close> is the error), saturating arithmetic
    and shared list lemmas; \<open>Core_Types\<close> models \<^verbatim>\<open>crates/rvpn-core/src/lib.rs\<close>; \<open>Text_Codec\<close> has decimal numbers, separated fields and UTF-8.
  \<^item> \<^emph>\<open>Protocol.\<close> \<open>Packet\<close>, \<open>Replay\<close>, \<open>Session\<close>, \<open>Handshake\<close> and \<open>Auth_Handshake\<close> model the files of \<^verbatim>\<open>crates/rvpn-protocol/src\<close>; \<open>Crypto\<close> and
    \<open>Cookie_Obfuscation\<close> those of \<^verbatim>\<open>crates/rvpn-crypto/src\<close>. A session is a record with its two directions of keys, its replay windows and the keys of
    the previous phase; sealing and opening return the next session.
  \<^item> \<^emph>\<open>Routing.\<close> \<open>Ip_Packet\<close> and \<open>Router\<close> model \<^verbatim>\<open>crates/rvpn-routing/src\<close>: validation and hop limits, and the table of peers, links and MAC addresses.
  \<^item> \<^emph>\<open>Transport.\<close> \<open>Mtu\<close>, \<open>Token_Bucket\<close>, \<open>Transport_Base\<close>, \<open>Fair_Queue\<close> and \<open>Transport\<close> model \<^verbatim>\<open>crates/rvpn-transport/src\<close>; \<open>Token_Bucket\<close> also the
    receive limiter of the server's \<^verbatim>\<open>state.rs\<close>.
  \<^item> \<^emph>\<open>Configuration.\<close> \<open>Config\<close> and \<open>Server_Config\<close> model \<^verbatim>\<open>crates/rvpn-config/src\<close>.
  \<^item> \<^emph>\<open>Server\<close> (\<^verbatim>\<open>apps/rvpn-server/src\<close>). \<open>Server_State\<close> is \<^verbatim>\<open>state.rs\<close>, \<open>Server_Handshake\<close> is \<^verbatim>\<open>handshake.rs\<close>, \<open>Server_Tunnel\<close> and \<open>Server_Loop\<close> are
    \<^verbatim>\<open>tunnel.rs\<close>, \<open>Server_Firewall\<close> is \<^verbatim>\<open>firewall.rs\<close>, \<open>Usage_History\<close> is \<^verbatim>\<open>usage_history.rs\<close>, and \<open>Dns_Forwarder\<close> is \<^verbatim>\<open>dns_reload.rs\<close> with
    \<^verbatim>\<open>crates/rvpn-dns/src/lib.rs\<close>. One event of the loop is one application of \<^const>\<open>server_step\<close>, and \<open>Server_Safety\<close> is about the states it reaches.
  \<^item> \<^emph>\<open>Client\<close> (\<^verbatim>\<open>apps/rvpn-client/src\<close>). \<open>Client_Handshake\<close> is \<^verbatim>\<open>handshake.rs\<close>, \<open>Client_Tunnel\<close> is \<^verbatim>\<open>tunnel.rs\<close>, \<open>Client_Network\<close> is
    \<^verbatim>\<open>platform/linux_network.rs\<close>, \<open>Client_Main\<close> is \<^verbatim>\<open>main.rs\<close>, \<open>Control_Daemon\<close> is \<^verbatim>\<open>ipc.rs\<close>; \<open>Gui_State\<close> is \<^verbatim>\<open>crates/rvpn-core/src/state.rs\<close> and
    \<open>Ipc_Protocol\<close> with part of \<open>Control_Daemon\<close> is \<^verbatim>\<open>crates/rvpn-ipc/src\<close>.
  \<^item> \<^emph>\<open>Host.\<close> \<open>Kill_Switch\<close> and \<open>Linux_Net\<close> model \<^verbatim>\<open>crates/rvpn-net/src\<close> on Linux, \<open>Virtual_Interface\<close> models \<^verbatim>\<open>crates/rvpn-interface/src\<close>.
  \<^item> \<open>Connection\<close> puts client and server together: a client at any position of the server's configuration, and a server with two linked peers as the example.

  \<^bold>\<open>How effects are modelled.\<close> Stateful code passes its record; fallible code returns a sum; clock readings, random draws and the results of the system are
  arguments. Cryptographic primitives are the record \<open>prims\<close> with named laws (\<open>lawful_aead\<close>, \<open>lawful_stream\<close> and others); the parsers of TOML, networks,
  addresses, hexadecimal and JSON are parameters. A request to the kernel, to a service, to a program or to a library is a field of a record over an abstract host
  state \<open>'k\<close>, and what the code relies on is a predicate such as \<open>nft_transactions\<close>, \<open>nft_laws\<close>, \<open>filter_laws\<close>, \<open>shell_laws\<close>, \<open>socket_laws\<close> or
  \<open>socket_file_laws\<close>. Every theorem with such a
  hypothesis has a witness at a concrete instance. Hash maps are association lists. Durations and instants are numbers of nanoseconds. Machine arithmetic wraps
  as in a release build. Files of the usage history carry their mode and owner; the daemon's client tasks are kept after they end, so that theorems can speak of all of them.

  \<^bold>\<open>Loops.\<close> Loops over received datagrams, events or chunks recurse over the list of inputs and say so when the inputs end first (\<open>Blocked\<close>, \<open>None\<close>, \<open>Waiting\<close>), so no
  fuel bounds them. The queue's \<open>recv_loop\<close> recurses over the instants at which it is woken, and \<open>fair_queue_progress\<close> bounds how many passes it needs. The
  walk over IPv6 extension headers is a function with a termination proof.

  \<^bold>\<open>Interfaces.\<close> \<open>anti_replay\<close> is what a session needs of a replay window, \<open>keyed_fifo\<close> what the transport needs of its queue, \<open>token_bucket\<close> the contract of both rate
  limiters, \<open>fixed_window\<close> that of both limits on challenges. Each is interpreted on the code's own definitions and its lemmas carry the properties.

  \<^bold>\<open>What is shown.\<close>

  \<^item> \<^emph>\<open>Sessions.\<close> The replay window refines a set of accepted numbers; packets are delivered once, also across a rekey, and in any order; nonces are distinct; a packet
    that opens is authentic, one that does not changes nothing.
  \<^item> \<^emph>\<open>Handshake.\<close> Honest parties complete it with complementary keys; each side accepts only a party its verifier vouches for that signed this exchange; no operation
    panics; the formats are unambiguous.
  \<^item> \<^emph>\<open>Server.\<close> Its tables agree in every reachable state; what it forwards or writes to its device is authentic and within the sender's networks and links; peers are admitted
    and move to another address only by authenticated packets; unauthenticated traffic costs a bounded number of short answers and no state; reloading is all or nothing.
  \<^item> \<^emph>\<open>Client.\<close> It connects to an honest server when its own answers arrive, and only to an authentic one, delivers each packet once, gives up only for cause, and reconnects with bounded backoff.
  \<^item> \<^emph>\<open>Host.\<close> What the kill switch lets out, that it is replaced without a gap and guards a full-tunnel client whenever it waits; routes are redirected only behind it; routes,
    resolver configuration, forwarding rules and forwarding switches are restored under the stated conditions; devices exchange only valid packets, whose datagrams fit the path.
  \<^item> \<^emph>\<open>Services.\<close> The outbound queue is fair, bounded and a FIFO for each peer; limiters conform to their rates; control requests and usage history survive their text form;
    the DNS forwarder runs what its configuration says; the daemon starts only clients its user's files describe.

  Some theorems show where the code falls short of what it means to do: \<open>kill_switch_prefix_leak\<close>, \<open>zero_jitter_never_connects\<close>, \<open>endpoint_refresh_loops\<close>,
  \<open>register_ignores_direction\<close>, \<open>rate_limiter_starves\<close>, \<open>receive_into_overruns\<close>, \<open>ca_override_case_sensitive\<close>, \<open>reload_order_sensitive\<close>,
  \<open>forwarding_deletes_existing_rule\<close>, \<open>dns_outage_reported_ok\<close>, \<open>disconnect_overlaps_connect\<close>, \<open>obfuscation_key_unchecked\<close> and \<open>connect_path_injects\<close>.

  \<^bold>\<open>Not modelled.\<close> Erasing secrets from memory; the bytes of netlink and D-Bus messages (a batch is a list of typed messages); the opening of devices by
  ioctl; the answering of DNS queries, which is a library's; command lines, logging and start-up order of the two processes; the server's status text, its
  status socket and the metrics portal, which only format counters for reading; the accept loop of the control socket; the tooltip text with its decimal fractions; the tray
  application; the Android front end, which runs the same handshake and session under the Java runtime; the Windows backends, whose behaviour lies in interfaces outside the
  sources; scripts, fuzz targets, benchmarks and examples.
\<close>

end
